(* ===== verification/Aero_Prelude.thy ===== *)
theory Aero_Prelude
  imports Main "HOL-Library.Word"
begin

text \<open>
  Shared vocabulary of the development: the machine types of the C++ sources
  (\<open>std::uint8_t\<close> up to \<open>std::uint64_t\<close> as words, \<open>std::byte\<close> as an 8-bit word,
  \<open>std::string\<close> as \<^typ>\<open>string\<close>), the conversions between characters and bytes, the
  position-based readers' list facts, and two interfaces every component uses:
  a deterministic machine with an invariant, and a self-delimiting stream codec.
\<close>

unbundle bit_operations_syntax

section \<open>Machine types\<close>

type_synonym u8 = "8 word"
type_synonym u16 = "16 word"
type_synonym u32 = "32 word"
type_synonym u64 = "64 word"
type_synonym byte = "8 word"

named_theorems codec_simps
named_theorems step_defs

section \<open>Characters and bytes\<close>

text \<open>\<open>static_cast<std::byte>(static_cast<std::uint8_t>(c))\<close> and its inverse.\<close>

definition byte_of_char :: "char \<Rightarrow> byte" where
  "byte_of_char c = of_nat (of_char c)"

definition char_of_byte :: "byte \<Rightarrow> char" where
  "char_of_byte b = char_of (unat b)"

definition bytes_of_string :: "string \<Rightarrow> byte list" where
  "bytes_of_string s = map byte_of_char s"

definition string_of_bytes :: "byte list \<Rightarrow> string" where
  "string_of_bytes bs = map char_of_byte bs"

lemma unat_byte_of_char: "unat (byte_of_char c) = of_char c"
proof -
  have "(of_char c :: nat) < 256"
    by (rule nat_of_char_less_256)
  then show ?thesis
    by (simp add: byte_of_char_def unat_of_nat)
qed

lemma char_of_byte_of_char [simp]: "char_of_byte (byte_of_char c) = c"
  by (simp add: char_of_byte_def unat_byte_of_char)

lemma byte_of_char_of_byte [simp]: "byte_of_char (char_of_byte b) = b"
proof -
  have "unat b < 256"
    using unsigned_less [of b, where ?'a = nat] by simp
  then show ?thesis
    by (simp add: byte_of_char_def char_of_byte_def)
qed

lemma string_of_bytes_of_string [simp]: "string_of_bytes (bytes_of_string s) = s"
  by (simp add: string_of_bytes_def bytes_of_string_def o_def)

lemma bytes_of_string_of_bytes [simp]: "bytes_of_string (string_of_bytes bs) = bs"
  by (simp add: string_of_bytes_def bytes_of_string_def o_def)

lemma length_bytes_of_string [simp]: "length (bytes_of_string s) = length s"
  by (simp add: bytes_of_string_def)

lemma length_string_of_bytes [simp]: "length (string_of_bytes bs) = length bs"
  by (simp add: string_of_bytes_def)

text \<open>\<open>std::to_string\<close> of an unsigned integer: its decimal digits.\<close>

fun to_string :: "nat \<Rightarrow> string" where
  "to_string n = (if n < 10 then [char_of (48 + n)] else to_string (n div 10) @ [char_of (48 + n mod 10)])"

declare to_string.simps [simp del]

text \<open>\<open>c_str\<close> handed to a C library: the characters before the first NUL.\<close>

definition c_str :: "string \<Rightarrow> string" where
  "c_str s = takeWhile (\<lambda>c. c \<noteq> char_of (0 :: nat)) s"

section \<open>Integers as bytes\<close>

text \<open>\<open>static_cast<std::byte>((v >> (8 * i)) & 0xFF)\<close>.\<close>

definition byte_at :: "nat \<Rightarrow> 'a::len word \<Rightarrow> byte" where
  "byte_at i v = ucast (drop_bit (8 * i) v AND 0xFF)"

lemma and_255: "x AND 255 = take_bit 8 (x :: 'a::len word)"
proof -
  have "(255 :: 'a word) = mask 8"
    by (simp add: mask_eq_exp_minus_1)
  then show ?thesis by (simp only: take_bit_eq_mask)
qed

lemma bit_byte_at: "bit (byte_at i v) n \<longleftrightarrow> n < 8 \<and> bit v (8 * i + n)"
  by (auto simp: byte_at_def and_255 bit_simps dest: bit_imp_le_length)

text \<open>The big-endian and little-endian appenders: \<open>n\<close> bytes of \<open>v\<close>.\<close>

definition be_bytes :: "nat \<Rightarrow> 'a::len word \<Rightarrow> byte list" where
  "be_bytes n v = map (\<lambda>i. byte_at i v) (rev [0..<n])"

definition le_bytes :: "nat \<Rightarrow> 'a::len word \<Rightarrow> byte list" where
  "le_bytes n v = map (\<lambda>i. byte_at i v) [0..<n]"

lemma length_be_bytes [simp]: "length (be_bytes n v) = n"
  by (simp add: be_bytes_def)

lemma length_le_bytes [simp]: "length (le_bytes n v) = n"
  by (simp add: le_bytes_def)

text \<open>The readers: \<open>v = (v << 8) | b\<close> over the bytes, and \<open>v |= b << (8 * i)\<close>.\<close>

definition be_value :: "byte list \<Rightarrow> 'a::len word" where
  "be_value bs = foldl (\<lambda>v b. push_bit 8 v OR ucast b) 0 bs"

fun le_value_from :: "nat \<Rightarrow> 'a::len word \<Rightarrow> byte list \<Rightarrow> 'a word" where
  "le_value_from i v [] = v"
| "le_value_from i v (b # bs) = le_value_from (Suc i) (v OR push_bit (8 * i) (ucast b)) bs"

definition le_value :: "byte list \<Rightarrow> 'a::len word" where
  "le_value bs = le_value_from 0 0 bs"

lemma be_step:
  "push_bit 8 (drop_bit (8 * Suc m) w) OR ucast (byte_at m w) = drop_bit (8 * m) (w :: 'a::len word)"
  by (rule bit_word_eqI)
     (auto simp: bit_simps bit_byte_at add.commute not_less dest: bit_imp_le_length)

lemma be_value_be_bytes_from:
  "foldl (\<lambda>v b. push_bit 8 v OR ucast b) (drop_bit (8 * n) w) (be_bytes n w) = (w :: 'a::len word)"
proof (induction n)
  case 0
  then show ?case by (simp add: be_bytes_def)
next
  case (Suc n)
  then show ?case
    by (simp add: be_bytes_def del: mult_Suc_right) (simp add: be_step del: mult_Suc_right)
qed

lemma be_value_be_bytes:
  assumes "LENGTH('a) \<le> 8 * n"
  shows "be_value (be_bytes n w) = (w :: 'a::len word)"
proof -
  have "drop_bit (8 * n) w = 0"
    using assms by (intro bit_word_eqI) (auto simp: bit_simps dest: bit_imp_le_length)
  then show ?thesis
    using be_value_be_bytes_from [of n w] by (simp add: be_value_def)
qed

lemma be_bytes_2: "be_bytes 2 v = [byte_at 1 v, byte_at 0 v]"
  by (simp add: be_bytes_def upt_rec)

lemma be_bytes_be_value_2: "be_bytes 2 (be_value [a, b] :: u16) = [a, b]"
proof -
  have "byte_at 1 (be_value [a, b] :: u16) = a" "byte_at 0 (be_value [a, b] :: u16) = b"
    by (rule bit_word_eqI; auto simp: bit_byte_at be_value_def bit_simps dest: bit_imp_le_length)+
  then show ?thesis by (simp add: be_bytes_2)
qed

lemma le_step:
  "take_bit (8 * i) w OR push_bit (8 * i) (ucast (byte_at i w)) = take_bit (8 * Suc i) (w :: 'a::len word)"
  by (rule bit_word_eqI) (auto simp: bit_simps bit_byte_at dest: bit_imp_le_length)

lemma le_value_from_le_bytes:
  "le_value_from i (take_bit (8 * i) w) (map (\<lambda>i. byte_at i w) [i..<i + n]) = take_bit (8 * (i + n)) (w :: 'a::len word)"
proof (induction n arbitrary: i)
  case 0
  then show ?case by simp
next
  case (Suc n)
  have "[i..<i + Suc n] = i # [Suc i..<Suc i + n]"
    by (simp add: upt_conv_Cons)
  then show ?case
    using Suc.IH [of "Suc i"] by (simp add: le_step del: mult_Suc_right)
qed

lemma le_value_le_bytes:
  assumes "LENGTH('a) \<le> 8 * n"
  shows "le_value (le_bytes n w) = (w :: 'a::len word)"
proof -
  have "take_bit (8 * n) w = w"
    using assms by (intro bit_word_eqI) (auto simp: bit_simps dest: bit_imp_le_length)
  then show ?thesis
    using le_value_from_le_bytes [of 0 w n] by (simp add: le_value_def le_bytes_def)
qed

lemma bit_le_value_from:
  "bit (le_value_from i v bs) n \<longleftrightarrow>
     bit v n \<or> (n < LENGTH('a) \<and> 8 * i \<le> n \<and> (n - 8 * i) div 8 < length bs
                 \<and> bit (bs ! ((n - 8 * i) div 8)) ((n - 8 * i) mod 8))"
  for v :: "'a::len word"
proof (induction bs arbitrary: i v)
  case Nil
  then show ?case by simp
next
  case (Cons b bs)
  show ?case
  proof (cases "n < 8 * i + 8")
    case True
    then have "(n - 8 * i) div 8 = 0" and "(n - 8 * i) mod 8 = n - 8 * i" by auto
    with True show ?thesis
      by (auto simp: Cons.IH bit_simps)
  next
    case False
    then have "(n - 8 * i) div 8 = Suc ((n - 8 * Suc i) div 8)"
      and "(n - 8 * i) mod 8 = (n - 8 * Suc i) mod 8"
      by (auto simp: div_if mod_if [of "n - 8 * i"] add.commute)
    with False show ?thesis
      by (auto simp: Cons.IH bit_simps dest: bit_imp_le_length)
  qed
qed

lemma bit_le_value:
  "bit (le_value bs :: 'a::len word) n \<longleftrightarrow>
     n < LENGTH('a) \<and> n div 8 < length bs \<and> bit (bs ! (n div 8)) (n mod 8)"
  by (simp add: le_value_def bit_le_value_from)

lemma byte_at_le_value:
  assumes "i < length bs" and "8 * i + 8 \<le> LENGTH('a)"
  shows "byte_at i (le_value bs :: 'a::len word) = bs ! i"
  by (rule bit_word_eqI) (use assms in \<open>auto simp: bit_byte_at bit_le_value\<close>)

lemma le_bytes_le_value:
  assumes "length bs = n" and "8 * n \<le> LENGTH('a)"
  shows "le_bytes n (le_value bs :: 'a::len word) = bs"
  by (rule nth_equalityI) (use assms in \<open>auto simp: le_bytes_def byte_at_le_value\<close>)
section \<open>Lists read through a cursor\<close>

text \<open>
  A reader over a buffer keeps a position and looks at \<open>body[pos + i]\<close>. These facts move a
  read at \<open>length pre + i\<close> into the suffix.
\<close>

lemma nth_append_offset [simp]: "(pre @ xs) ! (length pre + i) = xs ! i"
  by (simp add: nth_append)

lemma take_drop_append_offset [simp]: "take n (drop (length pre) (pre @ xs)) = take n xs"
  by simp

lemma nth_drop_read: "pos + i < length xs \<Longrightarrow> drop pos xs ! i = xs ! (pos + i)"
  by simp

lemma list_update_nth_other: "i \<noteq> j \<Longrightarrow> (xs[i := v]) ! j = xs ! j"
  by simp

text \<open>\<open>std::sort\<close> followed by \<open>std::unique\<close> leaves no duplicate.\<close>

lemma distinct_remdups_adj: "sorted xs \<Longrightarrow> distinct (remdups_adj xs)" for xs :: "'a :: linorder list"
  by (induction xs rule: remdups_adj.induct) auto

section \<open>Position of a character\<close>

text \<open>\<open>std::string_view::find(c)\<close>: the least index holding \<open>c\<close>, \<open>npos\<close> as \<open>None\<close>.\<close>

fun find_char :: "char \<Rightarrow> string \<Rightarrow> nat option" where
  "find_char c [] = None"
| "find_char c (x # xs) = (if x = c then Some 0 else map_option Suc (find_char c xs))"

lemma find_char_None_iff: "find_char c s = None \<longleftrightarrow> c \<notin> set s"
  by (induction s) auto

lemma find_char_SomeD:
  "find_char c s = Some p \<Longrightarrow> p < length s \<and> s ! p = c \<and> c \<notin> set (take p s)"
  by (induction s arbitrary: p) (auto split: if_splits)

lemma find_char_append_Cons:
  "c \<notin> set u \<Longrightarrow> find_char c (u @ c # v) = Some (length u)"
  by (induction u) auto

lemma find_char_split:
  assumes "find_char c s = Some p"
  shows "s = take p s @ c # drop (Suc p) s"
  using find_char_SomeD [OF assms] id_take_nth_drop [of p s] by simp

section \<open>Decimal numerals\<close>

definition is_dec_digit :: "char \<Rightarrow> bool" where
  "is_dec_digit c \<longleftrightarrow> 48 \<le> (of_char c :: nat) \<and> (of_char c :: nat) \<le> 57"

definition dec_value :: "string \<Rightarrow> nat" where
  "dec_value ds = foldl (\<lambda>v c. v * 10 + (of_char c - 48)) 0 ds"

lemma char_of_digit: "a < 10 \<Longrightarrow> of_char (char_of (48 + a) :: char) = (48 + a :: nat)"
  by (simp add: of_char_of)

lemma char_of_digit_eq: "a < 10 \<Longrightarrow> b < 10 \<Longrightarrow> (char_of (48 + a :: nat) :: char) = char_of (48 + b) \<longleftrightarrow> a = b"
  using char_of_digit by (metis add_left_cancel)

lemma to_string_digit: "c \<in> set (to_string n) \<Longrightarrow> 48 \<le> (of_char c :: nat) \<and> (of_char c :: nat) < 58"
proof (induction n arbitrary: c rule: to_string.induct)
  case (1 n)
  show ?case
  proof (cases "n < 10")
    case True
    then have "c = char_of (48 + n)" using 1(2) by (simp add: to_string.simps [of n])
    then show ?thesis using True char_of_digit by simp
  next
    case False
    from 1(2) False have "c \<in> set (to_string (n div 10)) \<or> c = char_of (48 + n mod 10)"
      by (auto simp: to_string.simps [of n])
    with 1(1) False char_of_digit [of "n mod 10"] show ?thesis by auto
  qed
qed

lemma to_string_ne [simp]: "to_string n \<noteq> []"
  by (subst to_string.simps) simp

lemma to_string_inj: "to_string m = to_string n \<Longrightarrow> m = n"
proof (induction m arbitrary: n rule: to_string.induct)
  case (1 m)
  have one: "length (to_string k) = 1 \<longleftrightarrow> k < 10" for k
    by (subst to_string.simps) simp
  have same: "m < 10 \<longleftrightarrow> n < 10" using 1(2) one by metis
  show ?case
  proof (cases "m < 10")
    case True
    with 1(2) same show ?thesis
      by (subst (asm) (1 2) to_string.simps) (simp add: char_of_digit_eq)
  next
    case False
    with 1(2) same have "to_string (m div 10) = to_string (n div 10)" and "m mod 10 = n mod 10"
      by (subst (asm) (1 2) to_string.simps, simp add: char_of_digit_eq)+
    with 1(1) False show ?thesis by (metis div_mult_mod_eq)
  qed
qed

lemma colon_not_digit [simp]: "CHR '':'' \<notin> set (to_string n)"
  using to_string_digit [of "CHR '':''" n] by auto

lemma dec_value_snoc: "dec_value (ds @ [c]) = dec_value ds * 10 + (of_char c - 48)"
  by (simp add: dec_value_def)

lemma dec_value_to_string: "dec_value (to_string n) = n"
proof (induction n rule: to_string.induct)
  case (1 n)
  show ?case
  proof (cases "n < 10")
    case True
    then show ?thesis
      using char_of_digit [OF True] by (subst to_string.simps) (simp add: dec_value_def)
  next
    case False
    then show ?thesis
      using 1 char_of_digit [of "n mod 10"] by (subst to_string.simps) (simp add: dec_value_snoc)
  qed
qed

lemma to_string_digits: "list_all is_dec_digit (to_string n)"
  using to_string_digit by (fastforce simp: is_dec_digit_def list_all_iff)

section \<open>Interface: a deterministic machine with an invariant\<close>

text \<open>
  Most components are an object whose methods change its state. The interface fixes one
  transition function over the method calls, and asks that the initial state satisfies the
  invariant and that every call keeps it; the invariant of every run follows once.
\<close>

locale machine =
  fixes step :: "'s \<Rightarrow> 'e \<Rightarrow> 's"
    and inv :: "'s \<Rightarrow> bool"
  assumes inv_step: "inv s \<Longrightarrow> inv (step s e)"
begin

definition run_calls :: "'s \<Rightarrow> 'e list \<Rightarrow> 's" where
  "run_calls s es = foldl step s es"

lemma run_calls_Nil: "run_calls s [] = s"
  by (simp add: run_calls_def)

lemma run_calls_Cons: "run_calls s (e # es) = run_calls (step s e) es"
  by (simp add: run_calls_def)

lemma run_calls_append: "run_calls s (es @ fs) = run_calls (run_calls s es) fs"
  by (simp add: run_calls_def)

lemma inv_run_calls: "inv s \<Longrightarrow> inv (run_calls s es)"
  by (induction es arbitrary: s) (auto simp: run_calls_Nil run_calls_Cons inv_step)

lemma inv_foldl: "inv s \<Longrightarrow> inv (foldl step s es)"
  using inv_run_calls by (simp add: run_calls_def)

lemma foldl_measure_mono:
  fixes m :: "'s \<Rightarrow> 'n::preorder"
  assumes "\<And>s e. inv s \<Longrightarrow> m s \<le> m (step s e)" and "inv s"
  shows "m s \<le> m (foldl step s es)"
  using assms(2)
proof (induction es arbitrary: s)
  case Nil
  then show ?case by simp
next
  case (Cons e es)
  from Cons.prems have "m s \<le> m (step s e)" by (rule assms(1))
  also have "\<dots> \<le> m (foldl step (step s e) es)"
    using Cons.IH inv_step [OF Cons.prems] by simp
  finally show ?case by simp
qed

end

text \<open>
  A machine whose events are the turns of its threads, with a goal that weakly fair scheduling reaches:
  while the goal is not reached there is a thread whose turn lowers the work left, no turn raises it,
  and a turn that leaves the work as it is leaves the choice of that thread as it is.
\<close>

locale fair_machine = machine step inv
  for step :: "'s \<Rightarrow> 'e \<Rightarrow> 's" and inv :: "'s \<Rightarrow> bool" +
  fixes goal :: "'s \<Rightarrow> bool" and work :: "'s \<Rightarrow> nat" and helpful :: "'s \<Rightarrow> 'e"
  assumes goal_step: "inv s \<Longrightarrow> goal s \<Longrightarrow> goal (step s e)"
    and work_step: "inv s \<Longrightarrow> \<not> goal s \<Longrightarrow> work (step s e) \<le> work s"
    and helpful_step: "inv s \<Longrightarrow> \<not> goal s \<Longrightarrow> work (step s (helpful s)) < work s"
    and helpful_stable: "inv s \<Longrightarrow> \<not> goal s \<Longrightarrow> work (step s e) = work s \<Longrightarrow> helpful (step s e) = helpful s"
begin

lemma goal_foldl: "inv s \<Longrightarrow> goal s \<Longrightarrow> goal (foldl step s es)"
  by (induction es arbitrary: s) (auto intro: inv_step goal_step)

lemma goal_or_less_mono:
  assumes "inv s" "goal s \<or> work s < w"
  shows "goal (foldl step s es) \<or> work (foldl step s es) < w"
  using assms
proof (induction es arbitrary: s)
  case (Cons e es)
  have "goal (step s e) \<or> work (step s e) < w"
    using Cons.prems goal_step work_step le_less_trans by blast
  then show ?case using Cons.IH [OF inv_step [OF Cons.prems(1)]] by simp
qed simp

lemma round_progress:
  assumes "inv s" "\<not> goal s" "helpful s \<in> set es"
  shows "goal (foldl step s es) \<or> work (foldl step s es) < work s"
  using assms
proof (induction es arbitrary: s)
  case (Cons e es)
  let ?s = "step s e"
  have i: "inv ?s" by (rule inv_step [OF Cons.prems(1)])
  show ?case
  proof (cases "goal ?s \<or> work ?s < work s")
    case True
    then show ?thesis using goal_or_less_mono [OF i] by simp
  next
    case False
    then have w: "work ?s = work s" using work_step Cons.prems le_neq_implies_less by blast
    have "e \<noteq> helpful s" using helpful_step [OF Cons.prems(1,2)] w by auto
    then have "helpful ?s \<in> set es" using helpful_stable [OF Cons.prems(1,2) w] Cons.prems(3) by simp
    then show ?thesis using Cons.IH [OF i] False w by auto
  qed
qed simp

lemma goal_reached:
  assumes "inv s" "work s \<le> length rounds" "\<And>es s. es \<in> set rounds \<Longrightarrow> helpful s \<in> set es"
  shows "goal (foldl step s (concat rounds))"
  using assms
proof (induction rounds arbitrary: s)
  case Nil
  then show ?case using helpful_step [of s] by auto
next
  case (Cons es rounds)
  show ?case
  proof (cases "goal s")
    case True
    then show ?thesis using goal_foldl [OF Cons.prems(1)] by blast
  next
    case False
    then have "goal (foldl step s es) \<or> work (foldl step s es) \<le> length rounds"
      using round_progress [OF Cons.prems(1) False] Cons.prems(2,3) by fastforce
    then show ?thesis
      using goal_foldl inv_foldl [OF Cons.prems(1)] Cons.IH Cons.prems(3) by fastforce
  qed
qed

end

section \<open>Interface: a self-delimiting stream codec\<close>

text \<open>
  A wire format is self-delimiting when decoding an encoded value followed by any other bytes
  gives back the value and exactly those bytes. A receiver that carves values out of an
  accumulating buffer then sees the sender's sequence, however the bytes were cut.
\<close>

locale stream_codec =
  fixes encode :: "'a \<Rightarrow> 'b list"
    and decode :: "'b list \<Rightarrow> ('a \<times> 'b list) option"
    and wf :: "'a \<Rightarrow> bool"
  assumes decode_encode: "wf x \<Longrightarrow> decode (encode x @ rest) = Some (x, rest)"
begin

fun decode_upto :: "nat \<Rightarrow> 'b list \<Rightarrow> 'a list \<times> 'b list" where
  "decode_upto 0 bs = ([], bs)"
| "decode_upto (Suc n) bs =
     (case decode bs of
        None \<Rightarrow> ([], bs)
      | Some (x, rest) \<Rightarrow> (let (xs, r) = decode_upto n rest in (x # xs, r)))"

lemma decode_upto_encode:
  assumes "\<forall>x \<in> set xs. wf x" and "decode rest = None"
  shows "length xs \<le> n \<Longrightarrow> decode_upto n (concat (map encode xs) @ rest) = (xs, rest)"
  using assms
proof (induction xs arbitrary: n)
  case Nil
  then show ?case by (cases n) auto
next
  case (Cons x xs)
  then obtain m where "n = Suc m" and "length xs \<le> m"
    by (cases n) auto
  with Cons show ?case by (simp add: decode_encode)
qed

lemma encode_prefix_free:
  assumes "wf x" and "wf y" and "encode x @ r = encode y @ s"
  shows "x = y \<and> r = s"
proof -
  have "Some (x, r) = decode (encode x @ r)"
    by (rule decode_encode [OF assms(1), symmetric])
  also have "\<dots> = decode (encode y @ s)"
    by (simp only: assms(3))
  also have "\<dots> = Some (y, s)"
    by (rule decode_encode [OF assms(2)])
  finally show ?thesis by simp
qed

lemma encode_inject: "wf x \<Longrightarrow> wf y \<Longrightarrow> encode x = encode y \<Longrightarrow> x = y"
  using encode_prefix_free [of x y "[]" "[]"] by auto

end

end
