(* ===== verification/Frame_Codec.thy ===== *)
theory Frame_Codec
  imports Aero_Prelude
begin

text \<open>
  \<open>include/aero/transport/frame_codec.hpp\<close>: the byte record a \<open>MessageFrame\<close> of the actor
  runtime is carried as by every real transport. The frame type itself belongs to the runtime
  library; the record here has the fields the codec reads and writes, its two enumerations as the
  bytes they are cast to and \<open>deadline_ns\<close> as the 64-bit pattern.
\<close>

record MessageFrame =
  mf_from :: u64
  mf_to :: u64
  mf_target_type :: u64
  mf_target_key :: u64
  mf_msg_type :: u64
  mf_mode :: u8
  mf_kind :: u8
  mf_deadline_ns :: u64
  mf_trace_id :: u64
  mf_subject :: u64
  mf_rights :: u64
  mf_payload :: "byte list"

definition kFrameHeaderBytes :: nat where
  "kFrameHeaderBytes = 8 * 9 + 1 + 1 + 4"

section \<open>Primitive appenders and readers\<close>

definition put_u64 :: "byte list \<Rightarrow> u64 \<Rightarrow> byte list" where
  "put_u64 out v = out @ le_bytes 8 v"

definition put_u32 :: "byte list \<Rightarrow> u32 \<Rightarrow> byte list" where
  "put_u32 out v = out @ le_bytes 4 v"

definition put_u8 :: "byte list \<Rightarrow> u8 \<Rightarrow> byte list" where
  "put_u8 out v = out @ [v]"

record Reader =
  rd_buf :: "byte list"
  rd_pos :: nat

definition rd_need :: "Reader \<Rightarrow> nat \<Rightarrow> bool" where
  "rd_need r n = (rd_pos r + n \<le> length (rd_buf r))"

definition rd_u64 :: "Reader \<Rightarrow> u64 \<times> Reader" where
  "rd_u64 r = (le_value (take 8 (drop (rd_pos r) (rd_buf r))), r\<lparr>rd_pos := rd_pos r + 8\<rparr>)"

definition rd_u32 :: "Reader \<Rightarrow> u32 \<times> Reader" where
  "rd_u32 r = (le_value (take 4 (drop (rd_pos r) (rd_buf r))), r\<lparr>rd_pos := rd_pos r + 4\<rparr>)"

definition rd_u8 :: "Reader \<Rightarrow> u8 \<times> Reader" where
  "rd_u8 r = (rd_buf r ! rd_pos r, r\<lparr>rd_pos := rd_pos r + 1\<rparr>)"

section \<open>Encode and decode\<close>

definition encode_frame :: "MessageFrame \<Rightarrow> byte list" where
  "encode_frame f =
     (let out = put_u64 [] (mf_from f);
          out = put_u64 out (mf_to f);
          out = put_u64 out (mf_target_type f);
          out = put_u64 out (mf_target_key f);
          out = put_u64 out (mf_msg_type f);
          out = put_u8 out (mf_mode f);
          out = put_u8 out (mf_kind f);
          out = put_u64 out (mf_deadline_ns f);
          out = put_u64 out (mf_trace_id f);
          out = put_u64 out (mf_subject f);
          out = put_u64 out (mf_rights f);
          out = put_u32 out (of_nat (length (mf_payload f)))
      in out @ mf_payload f)"

definition decode_frame :: "byte list \<Rightarrow> MessageFrame option" where
  "decode_frame bytes =
     (let r = \<lparr>rd_buf = bytes, rd_pos = 0\<rparr> in
      if \<not> rd_need r kFrameHeaderBytes then None
      else
        let (from, r) = rd_u64 r;
            (to, r) = rd_u64 r;
            (ttype, r) = rd_u64 r;
            (tkey, r) = rd_u64 r;
            (mtype, r) = rd_u64 r;
            (mode, r) = rd_u8 r;
            (kind, r) = rd_u8 r;
            (deadline, r) = rd_u64 r;
            (trace, r) = rd_u64 r;
            (subject, r) = rd_u64 r;
            (rights, r) = rd_u64 r;
            (plen, r) = rd_u32 r
        in if \<not> rd_need r (unat plen) then None
           else Some \<lparr>mf_from = from, mf_to = to, mf_target_type = ttype, mf_target_key = tkey,
                      mf_msg_type = mtype, mf_mode = mode, mf_kind = kind,
                      mf_deadline_ns = deadline, mf_trace_id = trace, mf_subject = subject,
                      mf_rights = rights,
                      mf_payload = take (unat plen) (drop (rd_pos r) bytes)\<rparr>)"

section \<open>The header as a list of fields\<close>

definition frame_header :: "MessageFrame \<Rightarrow> byte list" where
  "frame_header f =
     le_bytes 8 (mf_from f) @ le_bytes 8 (mf_to f) @ le_bytes 8 (mf_target_type f) @
     le_bytes 8 (mf_target_key f) @ le_bytes 8 (mf_msg_type f) @ [mf_mode f] @ [mf_kind f] @
     le_bytes 8 (mf_deadline_ns f) @ le_bytes 8 (mf_trace_id f) @ le_bytes 8 (mf_subject f) @
     le_bytes 8 (mf_rights f) @ le_bytes 4 (of_nat (length (mf_payload f)) :: u32)"

lemma encode_frame_header: "encode_frame f = frame_header f @ mf_payload f"
  by (simp add: encode_frame_def frame_header_def put_u64_def put_u8_def put_u32_def Let_def)

lemma length_frame_header: "length (frame_header f) = kFrameHeaderBytes"
  by (simp add: frame_header_def kFrameHeaderBytes_def)

lemma le_value_le_bytes_u64: "le_value (le_bytes 8 v) = (v :: u64)"
  by (rule le_value_le_bytes) simp

lemma le_value_le_bytes_u32: "le_value (le_bytes 4 v) = (v :: u32)"
  by (rule le_value_le_bytes) simp

lemma decode_encode_frame:
  assumes "length (mf_payload f) < 2 ^ 32"
  shows "decode_frame (encode_frame f @ rest) = Some f"
proof -
  have "unat (of_nat (length (mf_payload f)) :: u32) = length (mf_payload f)"
    using assms by (simp add: unat_of_nat)
  then show ?thesis
    by (simp add: decode_frame_def encode_frame_header frame_header_def rd_need_def rd_u64_def
        rd_u8_def rd_u32_def kFrameHeaderBytes_def Let_def le_value_le_bytes_u64
        le_value_le_bytes_u32 nth_append)
qed

lemma le_bytes_le_value_u64: "length bs = 8 \<Longrightarrow> le_bytes 8 (le_value bs :: u64) = bs"
  by (rule le_bytes_le_value) auto

lemma le_bytes_le_value_u32: "length bs = 4 \<Longrightarrow> le_bytes 4 (le_value bs :: u32) = bs"
  by (rule le_bytes_le_value) auto

text \<open>Cutting a buffer into consecutive fields, one field at a time.\<close>

lemma field_split:
  "drop p bs = take n (drop p bs) @ drop (p + n) bs"
  by (metis add.commute append_take_drop_id drop_drop)

lemma byte_split: "p < length bs \<Longrightarrow> drop p bs = [bs ! p] @ drop (Suc p) bs"
  by (simp add: Cons_nth_drop_Suc)

lemma header_fields:
  assumes "78 \<le> length bs"
  shows "bs = take 8 bs @ take 8 (drop 8 bs) @ take 8 (drop 16 bs) @ take 8 (drop 24 bs) @
     take 8 (drop 32 bs) @ [bs ! 40] @ [bs ! 41] @ take 8 (drop 42 bs) @ take 8 (drop 50 bs) @
     take 8 (drop 58 bs) @ take 8 (drop 66 bs) @ take 4 (drop 74 bs) @ drop 78 bs"
  using field_split [of 0 bs 8] field_split [of 8 bs 8] field_split [of 16 bs 8]
    field_split [of 24 bs 8] field_split [of 32 bs 8] byte_split [of 40 bs] byte_split [of 41 bs]
    field_split [of 42 bs 8] field_split [of 50 bs 8] field_split [of 58 bs 8]
    field_split [of 66 bs 8] field_split [of 74 bs 4] assms
  by simp

lemma decode_frame_reencode:
  assumes "decode_frame bs = Some f"
  shows "\<exists>rest. bs = encode_frame f @ rest"
proof -
  have len: "78 \<le> length bs"
    using assms by (simp add: decode_frame_def rd_need_def kFrameHeaderBytes_def Let_def split: if_splits)
  let ?plen = "le_value (take 4 (drop 74 bs)) :: u32"
  have plen: "unat ?plen \<le> length (drop 78 bs)"
    and f: "f = \<lparr>mf_from = le_value (take 8 bs), mf_to = le_value (take 8 (drop 8 bs)),
      mf_target_type = le_value (take 8 (drop 16 bs)), mf_target_key = le_value (take 8 (drop 24 bs)),
      mf_msg_type = le_value (take 8 (drop 32 bs)), mf_mode = bs ! 40, mf_kind = bs ! 41,
      mf_deadline_ns = le_value (take 8 (drop 42 bs)), mf_trace_id = le_value (take 8 (drop 50 bs)),
      mf_subject = le_value (take 8 (drop 58 bs)), mf_rights = le_value (take 8 (drop 66 bs)),
      mf_payload = take (unat ?plen) (drop 78 bs)\<rparr>"
    using assms len
    by (auto simp: decode_frame_def rd_need_def rd_u64_def rd_u8_def rd_u32_def
        kFrameHeaderBytes_def Let_def split: if_splits)
  have pl: "(of_nat (length (mf_payload f)) :: u32) = ?plen"
    using plen f by (simp add: min_def)
  have "encode_frame f @ drop (unat ?plen) (drop 78 bs) =
     take 8 bs @ take 8 (drop 8 bs) @ take 8 (drop 16 bs) @ take 8 (drop 24 bs) @
     take 8 (drop 32 bs) @ [bs ! 40] @ [bs ! 41] @ take 8 (drop 42 bs) @ take 8 (drop 50 bs) @
     take 8 (drop 58 bs) @ take 8 (drop 66 bs) @ take 4 (drop 74 bs) @ drop 78 bs"
    unfolding encode_frame_header frame_header_def pl
    using len by (simp add: f le_bytes_le_value_u64 le_bytes_le_value_u32 del: drop_drop)
  with header_fields [OF len] show ?thesis by metis
qed

lemma decode_frame_None_iff:
  "decode_frame bs = None \<longleftrightarrow>
     length bs < 78 \<or> length bs < 78 + unat (le_value (take 4 (drop 74 bs)) :: u32)"
  by (auto simp: decode_frame_def rd_need_def rd_u64_def rd_u8_def rd_u32_def
      kFrameHeaderBytes_def Let_def)

definition carve_frame :: "byte list \<Rightarrow> (MessageFrame \<times> byte list) option" where
  "carve_frame bs =
     map_option (\<lambda>f. (f, drop (kFrameHeaderBytes + length (mf_payload f)) bs)) (decode_frame bs)"

interpretation frame_stream: stream_codec encode_frame carve_frame
  "\<lambda>f. length (mf_payload f) < 2 ^ 32"
proof unfold_locales
  fix f :: MessageFrame and rest
  assume "length (mf_payload f) < 2 ^ 32"
  then have "decode_frame (encode_frame f @ rest) = Some f"
    by (rule decode_encode_frame)
  then show "carve_frame (encode_frame f @ rest) = Some (f, rest)"
    by (simp add: carve_frame_def encode_frame_header length_frame_header)
qed

lemma decode_frame_payload_bound: "decode_frame bs = Some f \<Longrightarrow> length (mf_payload f) < 2 ^ 32"
proof -
  assume "decode_frame bs = Some f"
  then have "length (mf_payload f) \<le> unat (le_value (take 4 (drop 74 bs)) :: u32)"
    by (auto simp: decode_frame_def rd_need_def rd_u64_def rd_u8_def rd_u32_def kFrameHeaderBytes_def Let_def
        split: if_splits)
  also have "\<dots> < 2 ^ 32" using unsigned_less [of "le_value (take 4 (drop 74 bs)) :: u32", where ?'a = nat] by simp
  finally show ?thesis .
qed

text \<open>
  The frame decoder accepts exactly the encodings: it returns a frame if and only if the buffer
  starts with that frame's encoding, for payloads a 32-bit length can express, and every other buffer
  is rejected.
\<close>
theorem frame_codec_exact:
  "decode_frame bs = Some f \<longleftrightarrow> (\<exists>rest. bs = encode_frame f @ rest) \<and> length (mf_payload f) < 2 ^ 32"
  using decode_frame_reencode decode_encode_frame decode_frame_payload_bound by blast

end
