(* ===== verification/Resequencer.thy ===== *)
theory Resequencer
  imports Aero_Prelude
begin

text \<open>
  \<open>include/aero/transport/resequencer.hpp\<close>: the sequence stamper of a sender and the receiver's
  bounded reorder buffer that restores first-in-first-out order and drops duplicates. Sequence
  numbers, the window and the counters are 64-bit words, so \<open>next_ + window_\<close> wraps as it does in
  the source; \<open>emit\<close> is the list of values handed to the sink.
\<close>

section \<open>Sender\<close>

record 'a Sequenced =
  sq_seq :: u64
  sq_value :: 'a

record SequenceStamper =
  st_next :: u64

definition stamp :: "SequenceStamper \<Rightarrow> 'a \<Rightarrow> 'a Sequenced \<times> SequenceStamper" where
  "stamp s v = (\<lparr>sq_seq = st_next s, sq_value = v\<rparr>, s\<lparr>st_next := st_next s + 1\<rparr>)"

fun stamp_all :: "SequenceStamper \<Rightarrow> 'a list \<Rightarrow> 'a Sequenced list" where
  "stamp_all s [] = []"
| "stamp_all s (v # vs) = (let (x, s') = stamp s v in x # stamp_all s' vs)"

section \<open>Receiver\<close>

datatype OfferOutcome = Released | Buffered | Duplicate | Overflow

record ResequencerStats =
  rs_released :: u64
  rs_duplicates :: u64
  rs_overflow :: u64
  rs_max_buffered :: u64

record 'a Slot =
  slot_seq :: u64
  slot_value :: 'a
  slot_present :: bool

record 'a Resequencer =
  rq_window :: u64
  rq_ring :: "'a Slot list"
  rq_next :: u64
  rq_stats :: ResequencerStats

text \<open>The constructor; \<open>dflt\<close> is the value-initialised \<open>T{}\<close> of every slot.\<close>

definition new_Resequencer :: "'a \<Rightarrow> u64 \<Rightarrow> 'a Resequencer" where
  "new_Resequencer dflt window =
     (let w = (if window = 0 then 1 else window) in
      \<lparr>rq_window = w,
       rq_ring = replicate (unat w) \<lparr>slot_seq = 0, slot_value = dflt, slot_present = False\<rparr>,
       rq_next = 0,
       rq_stats = \<lparr>rs_released = 0, rs_duplicates = 0, rs_overflow = 0, rs_max_buffered = 0\<rparr>\<rparr>)"

definition occupancy :: "'a Slot list \<Rightarrow> nat" where
  "occupancy ring = length (filter slot_present ring)"

definition note_occupancy :: "'a Resequencer \<Rightarrow> 'a Resequencer" where
  "note_occupancy q =
     (let occ = of_nat (occupancy (rq_ring q)) :: u64 in
      if occ > rs_max_buffered (rq_stats q)
      then q\<lparr>rq_stats := (rq_stats q)\<lparr>rs_max_buffered := occ\<rparr>\<rparr> else q)"

definition slot_index :: "'a Resequencer \<Rightarrow> u64 \<Rightarrow> nat" where
  "slot_index q s = unat (s mod rq_window q)"

lemma occupancy_clear:
  assumes "i < length ring" and "slot_present (ring ! i)"
  shows "occupancy (ring[i := (ring ! i)\<lparr>slot_present := False\<rparr>]) < occupancy ring"
proof -
  have "ring = take i ring @ ring ! i # drop (Suc i) ring"
    using assms(1) by (rule id_take_nth_drop)
  moreover have "ring[i := x] = take i ring @ x # drop (Suc i) ring" for x
    using assms(1) by (rule upd_conv_take_nth_drop)
  ultimately have "occupancy ring = occupancy (take i ring @ ring ! i # drop (Suc i) ring)"
    by simp
  then show ?thesis
    using assms by (simp add: upd_conv_take_nth_drop occupancy_def)
qed

text \<open>
  The \<open>while (true)\<close> drain loop. The ring has \<open>window_\<close> slots, so the index is always in range;
  the first conjunct states it for the termination argument: every round clears a slot.
\<close>

function drain :: "'a Resequencer \<Rightarrow> 'a Resequencer \<times> 'a list" where
  "drain q =
     (let i = slot_index q (rq_next q); head = rq_ring q ! i in
      if i < length (rq_ring q) \<and> slot_present head \<and> slot_seq head = rq_next q then
        let q1 = q\<lparr>rq_ring := (rq_ring q)[i := head\<lparr>slot_present := False\<rparr>],
                   rq_next := rq_next q + 1,
                   rq_stats := (rq_stats q)\<lparr>rs_released := rs_released (rq_stats q) + 1\<rparr>\<rparr>;
            (q2, out) = drain q1
        in (q2, slot_value head # out)
      else (q, []))"
  by pat_completeness auto
termination
  by (relation "measure (\<lambda>q. occupancy (rq_ring q))") (auto simp: occupancy_clear)

declare drain.simps [simp del]

definition offer ::
  "'a Resequencer \<Rightarrow> u64 \<Rightarrow> 'a \<Rightarrow> OfferOutcome \<times> 'a list \<times> 'a Resequencer" where
  "offer q s v =
     (if s < rq_next q then
        (Duplicate, [],
         q\<lparr>rq_stats := (rq_stats q)\<lparr>rs_duplicates := rs_duplicates (rq_stats q) + 1\<rparr>\<rparr>)
      else if s \<ge> rq_next q + rq_window q then
        (Overflow, [],
         q\<lparr>rq_stats := (rq_stats q)\<lparr>rs_overflow := rs_overflow (rq_stats q) + 1\<rparr>\<rparr>)
      else
        let i = slot_index q s; slot = rq_ring q ! i in
        if slot_present slot \<and> slot_seq slot = s then
          (Duplicate, [],
           q\<lparr>rq_stats := (rq_stats q)\<lparr>rs_duplicates := rs_duplicates (rq_stats q) + 1\<rparr>\<rparr>)
        else
          let q1 = note_occupancy (q\<lparr>rq_ring := (rq_ring q)[i :=
                     \<lparr>slot_seq = s, slot_value = v, slot_present = True\<rparr>]\<rparr>)
          in if s \<noteq> rq_next q1 then (Buffered, [], q1)
             else let (q2, out) = drain q1 in (Released, out, q2))"

text \<open>A whole stream of arrivals: outcomes, everything emitted, final state.\<close>

fun offer_all ::
  "'a Resequencer \<Rightarrow> 'a Sequenced list \<Rightarrow> OfferOutcome list \<times> 'a list \<times> 'a Resequencer" where
  "offer_all q [] = ([], [], q)"
| "offer_all q (x # xs) =
     (let (oc, out, q1) = offer q (sq_seq x) (sq_value x);
          (ocs, outs, q2) = offer_all q1 xs
      in (oc # ocs, out @ outs, q2))"

section \<open>Invariant\<close>

text \<open>
  \<open>vs\<close> is the sender's stream. Buffered slots sit at their own index, carry a sequence number
  inside the window and the sender's value for it.
\<close>

definition slot_ok :: "'a list \<Rightarrow> 'a Resequencer \<Rightarrow> nat \<Rightarrow> bool" where
  "slot_ok vs q i \<longleftrightarrow>
     (let sl = rq_ring q ! i in
      slot_present sl \<longrightarrow>
        slot_index q (slot_seq sl) = i \<and>
        unat (rq_next q) \<le> unat (slot_seq sl) \<and>
        unat (slot_seq sl) < unat (rq_next q) + unat (rq_window q) \<and>
        unat (slot_seq sl) < length vs \<and>
        slot_value sl = vs ! unat (slot_seq sl))"

definition reseq_inv :: "'a list \<Rightarrow> 'a Resequencer \<Rightarrow> bool" where
  "reseq_inv vs q \<longleftrightarrow>
     0 < rq_window q \<and>
     length (rq_ring q) = unat (rq_window q) \<and>
     length vs + unat (rq_window q) < 2 ^ 64 \<and>
     unat (rq_next q) \<le> length vs \<and>
     (\<forall>i < length (rq_ring q). slot_ok vs q i)"

text \<open>Is sequence number \<open>k\<close> waiting in the buffer?\<close>

definition buffered :: "'a Resequencer \<Rightarrow> u64 \<Rightarrow> bool" where
  "buffered q k \<longleftrightarrow>
     slot_present (rq_ring q ! slot_index q k) \<and> slot_seq (rq_ring q ! slot_index q k) = k"

lemma slot_index_less: "0 < rq_window q \<Longrightarrow> slot_index q s < unat (rq_window q)"
  by (simp add: slot_index_def unat_mod word_less_nat_alt)

lemma mod_window_inj_le:
  assumes "a mod w = b mod w" and "a \<le> b" and "b < a + (w :: nat)"
  shows "a = b"
proof (rule ccontr)
  assume "a \<noteq> b"
  with assms(2,3) have "0 < b - a" and "b - a < w" by auto
  moreover have "w dvd b - a"
    using assms(1,2) mod_eq_dvd_iff_nat [of a b w] by simp
  ultimately show False using nat_dvd_not_less by blast
qed

text \<open>Two sequence numbers of one window that share a slot are equal.\<close>

lemma slot_index_inj:
  assumes "slot_index q s = slot_index q t"
    and "unat (rq_next q) \<le> unat s" and "unat s < unat (rq_next q) + unat (rq_window q)"
    and "unat (rq_next q) \<le> unat t" and "unat t < unat (rq_next q) + unat (rq_window q)"
  shows "s = t"
proof -
  have m: "unat s mod unat (rq_window q) = unat t mod unat (rq_window q)"
    using assms(1) unfolding slot_index_def unat_mod .
  have "unat s = unat t"
  proof (cases "unat s \<le> unat t")
    case True
    show ?thesis
      by (rule mod_window_inj_le [OF m True]) (use assms(2,5) in linarith)
  next
    case False
    then have "unat t \<le> unat s" by linarith
    then show ?thesis
      by (rule mod_window_inj_le [OF m [symmetric], symmetric]) (use assms(3,4) in linarith)
  qed
  then show ?thesis by (simp add: word_unat_eq_iff)
qed

lemma buffered_window:
  assumes "reseq_inv vs q" and "buffered q k"
  shows "unat (rq_next q) \<le> unat k \<and> unat k < unat (rq_next q) + unat (rq_window q) \<and>
         unat k < length vs \<and> slot_value (rq_ring q ! slot_index q k) = vs ! unat k"
  using assms slot_index_less [of q k]
  by (auto simp: reseq_inv_def slot_ok_def buffered_def Let_def)

lemma buffered_slot:
  assumes "reseq_inv vs q" and "i < length (rq_ring q)" and "slot_present (rq_ring q ! i)"
  shows "slot_index q (slot_seq (rq_ring q ! i)) = i \<and> buffered q (slot_seq (rq_ring q ! i))"
  using assms by (auto simp: reseq_inv_def slot_ok_def buffered_def Let_def)

section \<open>The drain loop\<close>

definition drain_step :: "'a Resequencer \<Rightarrow> 'a Resequencer" where
  "drain_step q =
     (let i = slot_index q (rq_next q) in
      q\<lparr>rq_ring := (rq_ring q)[i := (rq_ring q ! i)\<lparr>slot_present := False\<rparr>],
        rq_next := rq_next q + 1,
        rq_stats := (rq_stats q)\<lparr>rs_released := rs_released (rq_stats q) + 1\<rparr>\<rparr>)"

lemma drain_unfold:
  assumes "reseq_inv vs q"
  shows "drain q =
    (if buffered q (rq_next q)
     then (fst (drain (drain_step q)), vs ! unat (rq_next q) # snd (drain (drain_step q)))
     else (q, []))"
  using assms slot_index_less [of q "rq_next q"] buffered_window [OF assms, of "rq_next q"]
  by (subst drain.simps)
     (auto simp: buffered_def drain_step_def reseq_inv_def Let_def split: prod.split)

lemma unat_next_step:
  assumes "reseq_inv vs q" and "unat (rq_next q) < length vs"
  shows "unat (rq_next q + 1) = Suc (unat (rq_next q))"
  using assms by (simp add: reseq_inv_def unat_word_ariths)

lemma slot_index_drain_step [simp]: "slot_index (drain_step q) k = slot_index q k"
  by (simp add: drain_step_def slot_index_def Let_def)

lemma buffered_drain_step:
  assumes inv: "reseq_inv vs q" and h: "buffered q (rq_next q)"
  shows "buffered (drain_step q) k \<longleftrightarrow> buffered q k \<and> k \<noteq> rq_next q"
proof (cases "slot_index q k = slot_index q (rq_next q)")
  case True
  then show ?thesis
    using inv h slot_index_less [of q k]
    by (auto simp: buffered_def drain_step_def reseq_inv_def Let_def slot_index_def)
next
  case False
  then show ?thesis
    by (auto simp: buffered_def drain_step_def Let_def slot_index_def)
qed

lemma reseq_inv_drain_step:
  assumes inv: "reseq_inv vs q" and h: "buffered q (rq_next q)"
  shows "reseq_inv vs (drain_step q)"
proof -
  have next_lt: "unat (rq_next q) < length vs"
    using buffered_window [OF inv h] by simp
  note nx = unat_next_step [OF inv next_lt]
  have "slot_ok vs (drain_step q) i" if i: "i < length (rq_ring (drain_step q))" for i
  proof (cases "slot_present (rq_ring (drain_step q) ! i)")
    case True
    have i': "i < length (rq_ring q)" using i by (simp add: drain_step_def Let_def)
    have ne: "i \<noteq> slot_index q (rq_next q)"
      using True i' by (auto simp: drain_step_def Let_def)
    then have same: "rq_ring (drain_step q) ! i = rq_ring q ! i"
      by (simp add: drain_step_def Let_def)
    with True have pr: "slot_present (rq_ring q ! i)" by simp
    note b = buffered_slot [OF inv i' pr]
    have "slot_seq (rq_ring q ! i) \<noteq> rq_next q"
      using b ne by auto
    then have "Suc (unat (rq_next q)) \<le> unat (slot_seq (rq_ring q ! i))"
      using buffered_window [OF inv conjunct2 [OF b]] by (metis Suc_leI le_neq_implies_less word_unat_eq_iff)
    then show ?thesis
      using same b buffered_window [OF inv conjunct2 [OF b]] nx
      by (simp add: slot_ok_def drain_step_def Let_def slot_index_def)
  next
    case False
    then show ?thesis by (simp add: slot_ok_def Let_def)
  qed
  then show ?thesis
    using inv next_lt nx by (auto simp: reseq_inv_def drain_step_def Let_def)
qed

lemma drain_correct:
  assumes "reseq_inv vs q" and "drain q = (q', out)"
  shows "reseq_inv vs q' \<and> unat (rq_next q) \<le> unat (rq_next q') \<and>
         out = map ((!) vs) [unat (rq_next q)..<unat (rq_next q')] \<and>
         \<not> buffered q' (rq_next q') \<and> rq_window q' = rq_window q \<and>
         (\<forall>k. buffered q k \<longrightarrow> unat k < unat (rq_next q') \<or> buffered q' k)"
  using assms
proof (induction "occupancy (rq_ring q)" arbitrary: q out rule: less_induct)
  case less
  note inv = less.prems(1)
  show ?case
  proof (cases "buffered q (rq_next q)")
    case False
    then show ?thesis using less.prems drain_unfold [OF inv] by auto
  next
    case True
    let ?q1 = "drain_step q"
    have inv1: "reseq_inv vs ?q1" by (rule reseq_inv_drain_step [OF inv True])
    have lt: "unat (rq_next q) < length vs" using buffered_window [OF inv True] by simp
    have nx: "unat (rq_next ?q1) = Suc (unat (rq_next q))"
      using unat_next_step [OF inv lt] by (simp add: drain_step_def Let_def)
    have smaller: "occupancy (rq_ring ?q1) < occupancy (rq_ring q)"
      using True inv slot_index_less [of q "rq_next q"]
      by (auto simp: drain_step_def Let_def buffered_def reseq_inv_def occupancy_clear)
    obtain out1 where d: "drain ?q1 = (q', out1)" and out: "out = vs ! unat (rq_next q) # out1"
      using less.prems(2) drain_unfold [OF inv] True by (cases "drain ?q1") auto
    note IH = less.hyps [OF smaller inv1 d]
    have "[unat (rq_next q)..<unat (rq_next q')]
        = unat (rq_next q) # [Suc (unat (rq_next q))..<unat (rq_next q')]"
      using IH nx by (intro upt_conv_Cons) simp
    moreover have "unat k < unat (rq_next q') \<or> buffered q' k" if "buffered q k" for k
    proof (cases "k = rq_next q")
      case True
      then show ?thesis using IH nx by simp
    next
      case False
      then show ?thesis using IH that buffered_drain_step [OF inv True] by blast
    qed
    ultimately show ?thesis
      using IH nx out by (auto simp: drain_step_def Let_def)
  qed
qed

section \<open>One arrival\<close>

lemma note_occupancy_simps [simp]:
  "rq_ring (note_occupancy q) = rq_ring q" "rq_next (note_occupancy q) = rq_next q"
  "rq_window (note_occupancy q) = rq_window q"
  by (simp_all add: note_occupancy_def Let_def)

lemma reseq_inv_cong:
  assumes "rq_ring q' = rq_ring q" and "rq_next q' = rq_next q" and "rq_window q' = rq_window q"
  shows "reseq_inv vs q' = reseq_inv vs q" and "buffered q' k = buffered q k"
  using assms by (simp_all add: reseq_inv_def slot_ok_def buffered_def slot_index_def)

lemma window_test:
  assumes "reseq_inv vs q"
  shows "rq_next q + rq_window q \<le> s \<longleftrightarrow> unat (rq_next q) + unat (rq_window q) \<le> unat s"
proof -
  have "unat (rq_next q + rq_window q) = unat (rq_next q) + unat (rq_window q)"
    using assms by (simp add: reseq_inv_def unat_word_ariths)
  then show ?thesis by (simp add: word_le_nat_alt)
qed

definition insert_slot :: "u64 \<Rightarrow> 'a \<Rightarrow> 'a Resequencer \<Rightarrow> 'a Resequencer" where
  "insert_slot s v q = q\<lparr>rq_ring := (rq_ring q)[slot_index q s :=
     \<lparr>slot_seq = s, slot_value = v, slot_present = True\<rparr>]\<rparr>"

lemma slot_index_insert_slot [simp]: "slot_index (insert_slot s v q) k = slot_index q k"
  by (simp add: insert_slot_def slot_index_def)

lemma rq_ring_insert_slot:
  "rq_ring (insert_slot s v q) = (rq_ring q)[slot_index q s :=
     \<lparr>slot_seq = s, slot_value = v, slot_present = True\<rparr>]"
  by (simp add: insert_slot_def)

lemma insert_slot_correct:
  assumes inv: "reseq_inv vs q" and win: "unat (rq_next q) \<le> unat s"
    "unat s < unat (rq_next q) + unat (rq_window q)"
    and fresh: "\<not> buffered q s" and val: "unat s < length vs" "v = vs ! unat s"
  shows "reseq_inv vs (insert_slot s v q)"
    and "buffered (insert_slot s v q) k \<longleftrightarrow> buffered q k \<or> k = s"
proof -
  let ?i = "slot_index q s"
  have i: "?i < length (rq_ring q)"
    using inv slot_index_less [of q s] by (simp add: reseq_inv_def)
  have "slot_ok vs (insert_slot s v q) j" if j: "j < length (rq_ring q)" for j
  proof (cases "j = ?i")
    case True
    then show ?thesis
      using i win val by (simp add: slot_ok_def insert_slot_def slot_index_def)
  next
    case False
    moreover have "slot_ok vs q j" using inv j by (simp add: reseq_inv_def)
    ultimately show ?thesis
      by (simp add: slot_ok_def insert_slot_def slot_index_def Let_def)
  qed
  then show "reseq_inv vs (insert_slot s v q)"
    using inv by (simp add: reseq_inv_def insert_slot_def)
  show "buffered (insert_slot s v q) k \<longleftrightarrow> buffered q k \<or> k = s"
  proof (cases "slot_index q k = ?i")
    case True
    have "k = s" if "buffered q k"
      by (rule slot_index_inj [OF True]) (use buffered_window [OF inv that] win in blast)+
    then show ?thesis
      using True i fresh by (auto simp: buffered_def rq_ring_insert_slot)
  next
    case False
    then show ?thesis by (auto simp: buffered_def rq_ring_insert_slot)
  qed
qed

text \<open>What one \<open>offer\<close> does to an invariant-satisfying, drained state.\<close>

definition offer_post ::
  "'a list \<Rightarrow> 'a Resequencer \<Rightarrow> u64 \<Rightarrow> OfferOutcome \<Rightarrow> 'a list \<Rightarrow> 'a Resequencer \<Rightarrow> bool" where
  "offer_post vs q s oc out q' \<longleftrightarrow>
     reseq_inv vs q' \<and> \<not> buffered q' (rq_next q') \<and>
     unat (rq_next q) \<le> unat (rq_next q') \<and>
     out = map ((!) vs) [unat (rq_next q)..<unat (rq_next q')] \<and>
     (\<forall>k. unat k < unat (rq_next q) \<or> buffered q k \<longrightarrow> unat k < unat (rq_next q') \<or> buffered q' k) \<and>
     (oc \<noteq> Overflow \<longrightarrow> unat s < unat (rq_next q') \<or> buffered q' s)"

lemma offer_correct:
  assumes inv: "reseq_inv vs q" and idle: "\<not> buffered q (rq_next q)"
    and val: "unat s < length vs" "v = vs ! unat s"
    and res: "offer q s v = (oc, out, q')"
  shows "offer_post vs q s oc out q'"
proof -
  have stats: "offer_post vs q s oc' [] (q\<lparr>rq_stats := st\<rparr>)"
    if "oc' \<noteq> Overflow \<longrightarrow> unat s < unat (rq_next q) \<or> buffered q s" for oc' st
    using that inv idle reseq_inv_cong [of "q\<lparr>rq_stats := st\<rparr>" q]
    by (simp add: offer_post_def)
  consider (stale) "s < rq_next q" | (far) "rq_next q \<le> s" "rq_next q + rq_window q \<le> s"
    | (dup) "rq_next q \<le> s" "s < rq_next q + rq_window q" "buffered q s"
    | (fresh) "rq_next q \<le> s" "s < rq_next q + rq_window q" "\<not> buffered q s"
    by (meson not_le)
  then show ?thesis
  proof cases
    case stale
    then show ?thesis using res stats by (auto simp: offer_def word_less_nat_alt)
  next
    case far
    have "\<not> s < rq_next q" using far(1) by (rule leD)
    with far res stats show ?thesis by (auto simp: offer_def)
  next
    case dup
    have "\<not> s < rq_next q" using dup(1) by (rule leD)
    with dup show ?thesis
      using res stats by (auto simp: offer_def buffered_def Let_def split: if_splits)
  next
    case fresh
    let ?q0 = "insert_slot s v q" and ?q1 = "note_occupancy (insert_slot s v q)"
    have win: "unat (rq_next q) \<le> unat s" "unat s < unat (rq_next q) + unat (rq_window q)"
      using fresh window_test [OF inv, of s] by (auto simp: word_le_nat_alt not_le [symmetric])
    note ins = insert_slot_correct [OF inv win fresh(3) val]
    have inv1: "reseq_inv vs ?q1" and b1: "buffered ?q1 k \<longleftrightarrow> buffered q k \<or> k = s" for k
      using ins reseq_inv_cong [of ?q1 ?q0] by simp_all
    have nx: "rq_next ?q1 = rq_next q" by (simp add: insert_slot_def)
    have off: "offer q s v =
        (if s \<noteq> rq_next q then (Buffered, [], ?q1)
         else (Released, snd (drain ?q1), fst (drain ?q1)))"
      using fresh by (auto simp: offer_def buffered_def insert_slot_def Let_def not_less
          split: prod.split)
    show ?thesis
    proof (cases "s = rq_next q")
      case True
      then have "drain ?q1 = (q', out)" and "oc = Released"
        using res off by (auto simp: prod_eq_iff)
      with drain_correct [OF inv1, of q' out] b1 nx True show ?thesis
        by (auto simp: offer_post_def)
    next
      case False
      then show ?thesis
        using res off inv1 b1 nx idle by (auto simp: offer_post_def)
    qed
  qed
qed

section \<open>A whole stream\<close>

definition from_stream :: "'a list \<Rightarrow> 'a Sequenced \<Rightarrow> bool" where
  "from_stream vs x \<longleftrightarrow> unat (sq_seq x) < length vs \<and> sq_value x = vs ! unat (sq_seq x)"

lemma offer_all_correct:
  assumes "reseq_inv vs q" and "\<not> buffered q (rq_next q)"
    and "\<forall>x \<in> set xs. from_stream vs x"
    and "offer_all q xs = (ocs, outs, q')"
  shows "reseq_inv vs q' \<and> \<not> buffered q' (rq_next q') \<and>
         unat (rq_next q) \<le> unat (rq_next q') \<and>
         outs = map ((!) vs) [unat (rq_next q)..<unat (rq_next q')] \<and>
         (\<forall>k. unat k < unat (rq_next q) \<or> buffered q k \<longrightarrow> unat k < unat (rq_next q') \<or> buffered q' k) \<and>
         (Overflow \<notin> set ocs \<longrightarrow>
           (\<forall>x \<in> set xs. unat (sq_seq x) < unat (rq_next q') \<or> buffered q' (sq_seq x)))"
  using assms
proof (induction xs arbitrary: q ocs outs)
  case Nil
  then show ?case by simp
next
  case (Cons x xs)
  obtain oc out q1 where o: "offer q (sq_seq x) (sq_value x) = (oc, out, q1)"
    by (cases "offer q (sq_seq x) (sq_value x)") auto
  obtain ocs1 outs1 where r: "offer_all q1 xs = (ocs1, outs1, q')"
    and eqs: "ocs = oc # ocs1" "outs = out @ outs1"
    using Cons.prems(4) o by (cases "offer_all q1 xs") auto
  have x: "unat (sq_seq x) < length vs" "sq_value x = vs ! unat (sq_seq x)"
    using Cons.prems(3) by (auto simp: from_stream_def)
  have post: "offer_post vs q (sq_seq x) oc out q1"
    by (rule offer_correct [OF Cons.prems(1,2) x o])
  then have "reseq_inv vs q1" and "\<not> buffered q1 (rq_next q1)"
    by (simp_all add: offer_post_def)
  from Cons.IH [OF this _ r] Cons.prems(3)
  have IH: "reseq_inv vs q' \<and> \<not> buffered q' (rq_next q') \<and>
         unat (rq_next q1) \<le> unat (rq_next q') \<and>
         outs1 = map ((!) vs) [unat (rq_next q1)..<unat (rq_next q')] \<and>
         (\<forall>k. unat k < unat (rq_next q1) \<or> buffered q1 k \<longrightarrow> unat k < unat (rq_next q') \<or> buffered q' k) \<and>
         (Overflow \<notin> set ocs1 \<longrightarrow>
           (\<forall>x \<in> set xs. unat (sq_seq x) < unat (rq_next q') \<or> buffered q' (sq_seq x)))"
    by simp
  have le: "unat (rq_next q) \<le> unat (rq_next q1)"
    using post by (simp add: offer_post_def)
  have "[unat (rq_next q)..<unat (rq_next q1)] @ [unat (rq_next q1)..<unat (rq_next q')]
      = [unat (rq_next q)..<unat (rq_next q')]"
    using le IH by (metis le_add_diff_inverse upt_add_eq_append)
  then have "outs = map ((!) vs) [unat (rq_next q)..<unat (rq_next q')]"
    using post IH eqs by (simp add: offer_post_def flip: map_append)
  then show ?case
    using post IH le eqs by (auto simp: offer_post_def)
qed

lemma reseq_inv_new:
  assumes "length vs + unat (rq_window (new_Resequencer d w)) < 2 ^ 64"
  shows "reseq_inv vs (new_Resequencer d w) \<and> \<not> buffered (new_Resequencer d w) (rq_next (new_Resequencer d w))"
proof -
  let ?q = "new_Resequencer d w"
  have pos: "0 < rq_window ?q"
    by (simp add: new_Resequencer_def Let_def word_neq_0_conv)
  have ring: "\<not> slot_present (rq_ring ?q ! i)" if "i < length (rq_ring ?q)" for i
    using that by (simp add: new_Resequencer_def Let_def)
  have len: "length (rq_ring ?q) = unat (rq_window ?q)"
    by (simp add: new_Resequencer_def Let_def)
  show ?thesis
    using pos ring len assms slot_index_less [OF pos, of "rq_next ?q"]
    by (auto simp: reseq_inv_def slot_ok_def Let_def buffered_def) (simp add: new_Resequencer_def Let_def)
qed

section \<open>Displacement within the window\<close>

text \<open>
  The condition under which the window is large enough: when a frame arrives, every frame \<open>w\<close> or
  more places before it has arrived already. \<open>S\<close> collects the sequence numbers seen so far.
\<close>

fun displaced_ok :: "nat \<Rightarrow> nat set \<Rightarrow> 'a Sequenced list \<Rightarrow> bool" where
  "displaced_ok w S [] = True"
| "displaced_ok w S (x # xs) =
     ((\<forall>k < Suc (unat (sq_seq x)) - w. k \<in> S) \<and> displaced_ok w (insert (unat (sq_seq x)) S) xs)"

lemma drain_window: "rq_window (fst (drain q)) = rq_window q"
proof (induction q rule: drain.induct)
  case (1 q)
  then show ?case
    by (subst drain.simps) (auto simp: Let_def split: prod.split)
qed

lemma drain_windowD: "drain q = (q', out) \<Longrightarrow> rq_window q' = rq_window q"
  using drain_window [of q] by simp

lemma offer_window: "rq_window (snd (snd (offer q s v))) = rq_window q"
  by (auto simp: offer_def Let_def split: prod.split dest!: drain_windowD)

lemma offer_not_overflow:
  assumes inv: "reseq_inv vs q" and idle: "\<not> buffered q (rq_next q)"
    and seen: "\<forall>k. unat k \<in> S \<longrightarrow> unat k < unat (rq_next q) \<or> buffered q k"
    and disp: "\<forall>k < Suc (unat s) - unat (rq_window q). k \<in> S"
    and res: "offer q s v = (oc, out, q')"
  shows "oc \<noteq> Overflow"
proof
  assume "oc = Overflow"
  then have "rq_next q + rq_window q \<le> s"
    using res by (auto simp: offer_def Let_def split: if_splits prod.splits)
  then have "unat (rq_next q) < Suc (unat s) - unat (rq_window q)"
    using window_test [OF inv, of s] by simp
  then have "unat (rq_next q) \<in> S" using disp by blast
  then show False using seen idle by blast
qed

lemma offer_all_no_overflow:
  assumes "reseq_inv vs q" and "\<not> buffered q (rq_next q)"
    and "\<forall>k. unat k \<in> S \<longrightarrow> unat k < unat (rq_next q) \<or> buffered q k"
    and "\<forall>x \<in> set xs. from_stream vs x"
    and "displaced_ok (unat (rq_window q)) S xs"
    and "offer_all q xs = (ocs, outs, q')"
  shows "Overflow \<notin> set ocs"
  using assms
proof (induction xs arbitrary: q S ocs outs)
  case Nil
  then show ?case by simp
next
  case (Cons x xs)
  obtain oc out q1 where o: "offer q (sq_seq x) (sq_value x) = (oc, out, q1)"
    by (cases "offer q (sq_seq x) (sq_value x)") auto
  obtain ocs1 outs1 where r: "offer_all q1 xs = (ocs1, outs1, q')"
    and eqs: "ocs = oc # ocs1"
    using Cons.prems(6) o by (cases "offer_all q1 xs") auto
  have x: "unat (sq_seq x) < length vs" "sq_value x = vs ! unat (sq_seq x)"
    using Cons.prems(4) by (auto simp: from_stream_def)
  have ok: "oc \<noteq> Overflow"
    using offer_not_overflow [OF Cons.prems(1,2,3) _ o] Cons.prems(5) by simp
  note post = offer_correct [OF Cons.prems(1,2) x o]
  have win: "rq_window q1 = rq_window q"
    using offer_window [of q "sq_seq x" "sq_value x"] o by simp
  have seen: "\<forall>k. unat k \<in> insert (unat (sq_seq x)) S \<longrightarrow> unat k < unat (rq_next q1) \<or> buffered q1 k"
    using post ok Cons.prems(3) by (auto simp: offer_post_def word_unat_eq_iff [symmetric])
  have "Overflow \<notin> set ocs1"
    by (rule Cons.IH [OF _ _ seen _ _ r])
      (use post win Cons.prems(4,5) in \<open>simp_all add: offer_post_def\<close>)
  with ok eqs show ?case by simp
qed

section \<open>Stamping\<close>

lemma stamp_all_eq:
  "length vs + unat n \<le> 2 ^ 64 \<Longrightarrow>
   stamp_all \<lparr>st_next = n\<rparr> vs = map (\<lambda>i. \<lparr>sq_seq = n + of_nat i, sq_value = vs ! i\<rparr>) [0..<length vs]"
proof (induction vs arbitrary: n)
  case Nil
  then show ?case by simp
next
  case (Cons v vs)
  have IH: "stamp_all \<lparr>st_next = n + 1\<rparr> vs
      = map (\<lambda>i. \<lparr>sq_seq = n + 1 + of_nat i, sq_value = vs ! i\<rparr>) [0..<length vs]"
  proof (cases "vs = []")
    case False
    then have "unat n + 1 < 2 ^ 64" using Cons.prems by (cases vs) auto
    then have "unat (n + 1) = unat n + 1" by (simp add: unat_word_ariths)
    then show ?thesis using Cons.prems by (intro Cons.IH) simp
  qed simp
  have "map (\<lambda>i. \<lparr>sq_seq = n + of_nat i, sq_value = (v # vs) ! i\<rparr>) [0..<length (v # vs)]
      = \<lparr>sq_seq = n, sq_value = v\<rparr> #
        map (\<lambda>i. \<lparr>sq_seq = n + of_nat (Suc i), sq_value = vs ! i\<rparr>) [0..<length vs]"
    by (simp add: upt_conv_Cons map_Suc_upt [symmetric] o_def del: upt_Suc map_Suc_upt)
  then show ?case
    using IH by (simp add: stamp_def add.assoc)
qed

lemma stamp_all_from_stream:
  assumes "length vs < 2 ^ 64"
  shows "\<forall>x \<in> set (stamp_all \<lparr>st_next = 0\<rparr> vs). from_stream vs x"
    and "k < length vs \<Longrightarrow> \<lparr>sq_seq = of_nat k, sq_value = vs ! k\<rparr> \<in> set (stamp_all \<lparr>st_next = 0\<rparr> vs)"
  using assms stamp_all_eq [of vs 0] by (auto simp: from_stream_def unat_of_nat)

section \<open>Properties\<close>

text \<open>
  Whatever arrives, reordered, repeated or with losses, the frames handed up are always a
  prefix of the sender's stream, in its order and each once: no duplication and no inversion.
\<close>

theorem resequencer_prefix_order:
  assumes "length vs + unat (rq_window (new_Resequencer d w)) < 2 ^ 64"
    and "set arrivals \<subseteq> set (stamp_all \<lparr>st_next = 0\<rparr> vs)"
  shows "\<exists>n \<le> length vs. fst (snd (offer_all (new_Resequencer d w) arrivals)) = take n vs"
proof -
  let ?q = "new_Resequencer d w"
  obtain ocs outs q where r: "offer_all ?q arrivals = (ocs, outs, q)"
    by (cases "offer_all ?q arrivals") auto
  have fs: "\<forall>x \<in> set arrivals. from_stream vs x"
    using stamp_all_from_stream(1) [of vs] assms by auto
  note c = offer_all_correct [OF conjunct1 [OF reseq_inv_new [OF assms(1)]]
      conjunct2 [OF reseq_inv_new [OF assms(1)]] fs r]
  have "unat (rq_next q) \<le> length vs" using c by (simp add: reseq_inv_def)
  moreover have "rq_next ?q = 0" by (simp add: new_Resequencer_def Let_def)
  ultimately have "outs = take (unat (rq_next q)) vs"
    using c by (simp add: map_nth [symmetric] take_map flip: take_upt) (metis map_nth take_map take_upt add_0)
  with r \<open>unat (rq_next q) \<le> length vs\<close> show ?thesis by auto
qed

theorem resequencer_prefix_order_witness:
  "\<exists>n \<le> length [10, 20, 30 :: nat].
     fst (snd (offer_all (new_Resequencer 0 2) [\<lparr>sq_seq = 2, sq_value = 30 :: nat\<rparr>, \<lparr>sq_seq = 0, sq_value = 10\<rparr>]))
     = take n [10, 20, 30]"
  by (rule resequencer_prefix_order) (simp_all add: new_Resequencer_def stamp_def)

text \<open>
  When no frame arrives more than a window ahead of one still missing, and every frame of the
  stream arrives at least once, the resequencer hands up exactly the sender's stream: nothing lost,
  nothing repeated, nothing reordered, and no overflow is recorded.
\<close>

theorem resequencer_exactly_once:
  assumes "length vs + unat (rq_window (new_Resequencer d w)) < 2 ^ 64"
    and "set arrivals = set (stamp_all \<lparr>st_next = 0\<rparr> vs)"
    and "displaced_ok (unat (rq_window (new_Resequencer d w))) {} arrivals"
  shows "fst (snd (offer_all (new_Resequencer d w) arrivals)) = vs \<and>
         Overflow \<notin> set (fst (offer_all (new_Resequencer d w) arrivals))"
proof -
  let ?q = "new_Resequencer d w"
  obtain ocs outs q where r: "offer_all ?q arrivals = (ocs, outs, q)"
    by (cases "offer_all ?q arrivals") auto
  have fs: "\<forall>x \<in> set arrivals. from_stream vs x"
    using stamp_all_from_stream(1) [of vs] assms by auto
  note new = reseq_inv_new [OF assms(1)]
  note c = offer_all_correct [OF conjunct1 [OF new] conjunct2 [OF new] fs r]
  have no: "Overflow \<notin> set ocs"
    using offer_all_no_overflow [OF conjunct1 [OF new] conjunct2 [OF new] _ fs assms(3) r] by simp
  have all: "length vs \<le> unat (rq_next q)"
  proof (rule ccontr)
    assume lt: "\<not> length vs \<le> unat (rq_next q)"
    let ?x = "\<lparr>sq_seq = of_nat (unat (rq_next q)), sq_value = vs ! unat (rq_next q)\<rparr>"
    have "?x \<in> set arrivals"
      using stamp_all_from_stream(2) [of vs "unat (rq_next q)"] assms(1,2) lt by simp
    then show False using c no by force
  qed
  have zero: "rq_next ?q = 0" by (simp add: new_Resequencer_def Let_def)
  have "unat (rq_next q) = length vs"
    using all c by (simp add: reseq_inv_def)
  then have "outs = vs" using c zero by (simp add: map_nth)
  with no r show ?thesis by simp
qed

theorem resequencer_exactly_once_witness:
  "fst (snd (offer_all (new_Resequencer 0 2)
      [\<lparr>sq_seq = 1, sq_value = 20\<rparr>, \<lparr>sq_seq = 0, sq_value = 10\<rparr>, \<lparr>sq_seq = 0, sq_value = 10\<rparr>,
       \<lparr>sq_seq = 2, sq_value = 30 :: nat\<rparr>])) = [10, 20, 30]"
proof -
  let ?arr = "[\<lparr>sq_seq = 1, sq_value = 20\<rparr>, \<lparr>sq_seq = 0, sq_value = 10\<rparr>,
    \<lparr>sq_seq = 0, sq_value = 10\<rparr>, \<lparr>sq_seq = 2, sq_value = 30 :: nat\<rparr>]"
  have "fst (snd (offer_all (new_Resequencer 0 2) ?arr)) = [10, 20, 30] \<and>
        Overflow \<notin> set (fst (offer_all (new_Resequencer 0 2) ?arr))"
    by (rule resequencer_exactly_once) (auto simp: new_Resequencer_def stamp_def less_Suc_eq)
  then show ?thesis by simp
qed

end
