(* ===== verification/Durable_State.thy ===== *)
theory Durable_State
  imports Aero_Prelude
begin

text \<open>
  \<open>include/aero/core/persistent_actor.hpp\<close>: \<open>DurableState\<close> binds one actor's state to a store of
  the actor runtime, and \<open>include/aero/cluster/migration.hpp\<close> builds the fenced activation on it.
  The store is code of the runtime library, so its three operations are a parameter: a record of
  functions, with what the runtime documents about them as the predicate \<open>store_laws\<close>.
\<close>

section \<open>The store as a parameter\<close>

datatype actor_id = ActorId u64 u64

record ('sto, 'st) store_ops =
  so_load :: "'sto \<Rightarrow> actor_id \<Rightarrow> 'st option"
  so_acquire :: "'sto \<Rightarrow> actor_id \<Rightarrow> nat \<times> 'sto"
  so_save :: "'sto \<Rightarrow> actor_id \<Rightarrow> nat \<Rightarrow> 'st \<Rightarrow> 'sto option"
  so_owner :: "'sto \<Rightarrow> actor_id \<Rightarrow> nat"

text \<open>
  What the runtime documents: acquiring a fence hands out a strictly greater token, makes it the
  owner and leaves every snapshot alone; a save with a token older than the owner is rejected; a
  save with the owner's token stores the snapshot of that actor and nothing else.
\<close>

definition store_laws :: "('sto, 'st) store_ops \<Rightarrow> bool" where
  "store_laws ops \<longleftrightarrow>
     (\<forall>s i. so_owner ops s i < fst (so_acquire ops s i)) \<and>
     (\<forall>s i. so_owner ops (snd (so_acquire ops s i)) i = fst (so_acquire ops s i)) \<and>
     (\<forall>s i j. so_load ops (snd (so_acquire ops s i)) j = so_load ops s j) \<and>
     (\<forall>s i t v. t < so_owner ops s i \<longrightarrow> so_save ops s i t v = None) \<and>
     (\<forall>s i v. \<exists>s'. so_save ops s i (so_owner ops s i) v = Some s') \<and>
     (\<forall>s i t v s'. so_save ops s i t v = Some s' \<longrightarrow>
        so_load ops s' i = Some v \<and> so_owner ops s' i = so_owner ops s i \<and>
        (\<forall>j. j \<noteq> i \<longrightarrow> so_load ops s' j = so_load ops s j))"

lemma store_lawsD:
  assumes "store_laws ops"
  shows "so_owner ops s i < fst (so_acquire ops s i)"
    and "so_owner ops (snd (so_acquire ops s i)) i = fst (so_acquire ops s i)"
    and "so_load ops (snd (so_acquire ops s i)) j = so_load ops s j"
    and "t < so_owner ops s i \<Longrightarrow> so_save ops s i t v = None"
    and "\<exists>s'. so_save ops s i (so_owner ops s i) v = Some s'"
    and "so_save ops s i t v = Some s' \<Longrightarrow> so_load ops s' i = Some v"
    and "so_save ops s i t v = Some s' \<Longrightarrow> so_owner ops s' i = so_owner ops s i"
    and "so_save ops s i t v = Some s' \<Longrightarrow> j \<noteq> i \<Longrightarrow> so_load ops s' j = so_load ops s j"
  using assms unfolding store_laws_def by blast+

text \<open>
  An instance of the laws, for witnesses: per actor a snapshot and an owner token, as the runtime's
  in-memory store keeps them.
\<close>

type_synonym 'st mem_store = "(actor_id \<Rightarrow> 'st option) \<times> (actor_id \<Rightarrow> nat)"

definition mem_ops :: "('st mem_store, 'st) store_ops" where
  "mem_ops =
     \<lparr>so_load = (\<lambda>s i. fst s i),
      so_acquire = (\<lambda>s i. (Suc (snd s i), (fst s, (snd s)(i := Suc (snd s i))))),
      so_save = (\<lambda>s i t v. if t < snd s i then None else Some ((fst s)(i := Some v), snd s)),
      so_owner = (\<lambda>s i. snd s i)\<rparr>"

definition mem_empty :: "'st mem_store" where
  "mem_empty = (Map.empty, (\<lambda>_. 0))"

lemma store_laws_mem_ops: "store_laws mem_ops"
  by (auto simp: store_laws_def mem_ops_def)

section \<open>DurableState\<close>

record 'st DurableState =
  ds_state :: 'st
  ds_fence :: nat
  ds_recovered :: bool
  ds_durable_ok :: bool

definition ds_recover ::
  "('sto, 'st) store_ops \<Rightarrow> 'sto \<Rightarrow> actor_id \<Rightarrow> 'st \<Rightarrow> bool \<Rightarrow> 'st DurableState \<times> 'sto" where
  "ds_recover ops sto aid initial ok =
     (let (st, rec) = (case so_load ops sto aid of Some s \<Rightarrow> (s, True) | None \<Rightarrow> (initial, False));
          (f, sto') = so_acquire ops sto aid
      in (\<lparr>ds_state = st, ds_fence = f, ds_recovered = rec, ds_durable_ok = ok\<rparr>, sto'))"

definition ds_checkpoint ::
  "('sto, 'st) store_ops \<Rightarrow> 'sto \<Rightarrow> actor_id \<Rightarrow> 'st DurableState \<Rightarrow> 'st DurableState \<times> 'sto" where
  "ds_checkpoint ops sto aid ds =
     (case so_save ops sto aid (ds_fence ds) (ds_state ds) of
        Some sto' \<Rightarrow> (ds\<lparr>ds_durable_ok := True\<rparr>, sto')
      | None \<Rightarrow> (ds\<lparr>ds_durable_ok := False\<rparr>, sto))"

definition owns :: "('sto, 'st) store_ops \<Rightarrow> 'sto \<Rightarrow> actor_id \<Rightarrow> 'st DurableState \<Rightarrow> bool" where
  "owns ops sto aid ds \<longleftrightarrow> ds_fence ds = so_owner ops sto aid"

lemma ds_checkpoint_state [simp]:
  "ds_state (fst (ds_checkpoint ops sto aid ds)) = ds_state ds"
  "ds_fence (fst (ds_checkpoint ops sto aid ds)) = ds_fence ds"
  by (simp_all add: ds_checkpoint_def split: option.split)

lemma ds_recover_owns:
  assumes "store_laws ops" and "ds_recover ops sto aid initial ok = (ds, sto')"
  shows "owns ops sto' aid ds" and "so_owner ops sto aid < ds_fence ds"
    and "so_load ops sto' j = so_load ops sto j"
  using assms store_lawsD(1-3) [OF assms(1)]
  by (auto simp: ds_recover_def owns_def Let_def prod_eq_iff split: prod.splits option.splits)

lemma ds_checkpoint_durable:
  assumes "store_laws ops" and "owns ops sto aid ds" and "ds_checkpoint ops sto aid ds = (ds', sto')"
  shows "so_load ops sto' aid = Some (ds_state ds)" and "owns ops sto' aid ds'"
    and "ds_durable_ok ds'" and "j \<noteq> aid \<Longrightarrow> so_load ops sto' j = so_load ops sto j"
proof -
  obtain s1 where s1: "so_save ops sto aid (ds_fence ds) (ds_state ds) = Some s1"
    using store_lawsD(5) [OF assms(1), of sto aid "ds_state ds"] assms(2) by (auto simp: owns_def)
  then have r: "ds' = ds\<lparr>ds_durable_ok := True\<rparr>" "sto' = s1"
    using assms(3) by (simp_all add: ds_checkpoint_def)
  show "so_load ops sto' aid = Some (ds_state ds)"
    using s1 r store_lawsD(6) [OF assms(1)] by blast
  show "owns ops sto' aid ds'"
    using s1 r assms(2) store_lawsD(7) [OF assms(1) s1] by (simp add: owns_def)
  show "ds_durable_ok ds'" using r by simp
  show "j \<noteq> aid \<Longrightarrow> so_load ops sto' j = so_load ops sto j"
    using s1 r store_lawsD(8) [OF assms(1) s1] by blast
qed

lemma ds_checkpoint_fenced:
  assumes "store_laws ops" and "ds_fence ds < so_owner ops sto aid"
  shows "ds_checkpoint ops sto aid ds = (ds\<lparr>ds_durable_ok := False\<rparr>, sto)"
  using store_lawsD(4) [OF assms] by (simp add: ds_checkpoint_def)

section \<open>Fenced migration\<close>

text \<open>
  \<open>EdgeActivation::activate\<close>: recover (acquiring a fresh fence), then re-open the driver. The
  driver's \<open>open\<close> is the device's code, a function from its state to a status and a new state.
\<close>

datatype DriverStatus = DsOk | DsError | DsUnsupported

record 'st EdgeActivation =
  ea_durable :: "'st DurableState"

record ActivateResult =
  ar_fence :: nat
  ar_driver :: DriverStatus
  ar_recovered :: bool

definition activate ::
  "('sto, 'st) store_ops \<Rightarrow> ('dev \<Rightarrow> DriverStatus \<times> 'dev) \<Rightarrow> 'sto \<Rightarrow> 'dev \<Rightarrow> actor_id \<Rightarrow> 'st \<Rightarrow>
   ActivateResult \<times> 'st EdgeActivation \<times> 'sto \<times> 'dev" where
  "activate ops dev_open sto dev aid initial =
     (let (ds, sto') = ds_recover ops sto aid initial False;
          (status, dev') = dev_open dev
      in (\<lparr>ar_fence = ds_fence ds, ar_driver = status, ar_recovered = ds_recovered ds\<rparr>,
          \<lparr>ea_durable = ds\<rparr>, sto', dev'))"


text \<open>
  All activations of one device actor, on any number of nodes, over one store. A step is one
  activation or one checkpoint of a mutated state; \<open>mw_last\<close> remembers who activated last.
\<close>

record ('sto, 'st, 'dev) mig_world =
  mw_store :: 'sto
  mw_dev :: 'dev
  mw_acts :: "nat \<Rightarrow> 'st EdgeActivation option"
  mw_last :: "nat option"

inductive mig_step ::
  "('sto, 'st) store_ops \<Rightarrow> ('dev \<Rightarrow> DriverStatus \<times> 'dev) \<Rightarrow> actor_id \<Rightarrow>
   ('sto, 'st, 'dev) mig_world \<Rightarrow> ('sto, 'st, 'dev) mig_world \<Rightarrow> bool"
  for ops dev_open aid where
  mig_activate:
    "activate ops dev_open (mw_store w) (mw_dev w) aid initial = (r, ea, sto', dev') \<Longrightarrow>
     mig_step ops dev_open aid w
       (w\<lparr>mw_store := sto', mw_dev := dev', mw_acts := (mw_acts w)(n \<mapsto> ea), mw_last := Some n\<rparr>)"
| mig_checkpoint:
    "mw_acts w n = Some ea \<Longrightarrow>
     ds_checkpoint ops (mw_store w) aid ((ea_durable ea)\<lparr>ds_state := st\<rparr>) = (ds', sto') \<Longrightarrow>
     mig_step ops dev_open aid w
       (w\<lparr>mw_store := sto', mw_acts := (mw_acts w)(n \<mapsto> ea\<lparr>ea_durable := ds'\<rparr>)\<rparr>)"

inductive mig_reachable ::
  "('sto, 'st) store_ops \<Rightarrow> ('dev \<Rightarrow> DriverStatus \<times> 'dev) \<Rightarrow> actor_id \<Rightarrow>
   ('sto, 'st, 'dev) mig_world \<Rightarrow> bool"
  for ops dev_open aid where
  mig_start:
    "mig_reachable ops dev_open aid
       \<lparr>mw_store = sto, mw_dev = dev, mw_acts = Map.empty, mw_last = None\<rparr>"
| mig_next:
    "mig_reachable ops dev_open aid w \<Longrightarrow> mig_step ops dev_open aid w w' \<Longrightarrow>
     mig_reachable ops dev_open aid w'"

definition mig_inv ::
  "('sto, 'st) store_ops \<Rightarrow> actor_id \<Rightarrow> ('sto, 'st, 'dev) mig_world \<Rightarrow> bool" where
  "mig_inv ops aid w \<longleftrightarrow>
     (\<forall>n ea. mw_acts w n = Some ea \<longrightarrow>
        ds_fence (ea_durable ea) \<le> so_owner ops (mw_store w) aid \<and>
        (ds_fence (ea_durable ea) = so_owner ops (mw_store w) aid \<longleftrightarrow> mw_last w = Some n))"

lemma activate_fence:
  assumes "store_laws ops" and "activate ops dev_open sto dev aid initial = (r, ea, sto', dev')"
  shows "ds_fence (ea_durable ea) = so_owner ops sto' aid"
    and "so_owner ops sto aid < so_owner ops sto' aid"
  using assms store_lawsD(1,2) [OF assms(1), of sto aid]
  by (auto simp: activate_def ds_recover_def Let_def split: prod.splits option.splits)

lemma ds_checkpoint_owner:
  assumes "store_laws ops" and "ds_checkpoint ops sto aid ds = (ds', sto')"
  shows "so_owner ops sto' aid = so_owner ops sto aid" and "ds_fence ds' = ds_fence ds"
  using assms store_lawsD(7) [OF assms(1)]
  by (auto simp: ds_checkpoint_def split: option.splits)

lemma mig_step_inv:
  assumes "store_laws ops" and "mig_step ops dev_open aid w w'" and "mig_inv ops aid w"
  shows "mig_inv ops aid w'"
  using assms(2,3)
proof (induction rule: mig_step.induct)
  case (mig_activate w initial r ea sto' dev' n)
  note f = activate_fence [OF assms(1) mig_activate.hyps]
  show ?case
    using f mig_activate.prems by (fastforce simp: mig_inv_def split: if_splits)
next
  case (mig_checkpoint w n ea st ds' sto')
  note c = ds_checkpoint_owner [OF assms(1) mig_checkpoint.hyps(2)]
  show ?case
    using c mig_checkpoint by (auto simp: mig_inv_def)
qed

lemma mig_reachable_inv:
  assumes "store_laws ops" and "mig_reachable ops dev_open aid w"
  shows "mig_inv ops aid w"
  using assms(2)
proof (induction rule: mig_reachable.induct)
  case (mig_start sto dev)
  show ?case by (simp add: mig_inv_def)
next
  case (mig_next w w')
  then show ?case using mig_step_inv [OF assms(1)] by blast
qed

section \<open>Properties\<close>

text \<open>
  C7: No dual drive. However activations and checkpoints of one device actor interleave over any
  number of nodes, an activation that is not the latest one is fenced out: its checkpoint is
  refused and changes nothing in the store.
\<close>

theorem stale_activation_fenced:
  assumes "store_laws ops" and "mig_reachable ops dev_open aid w"
    and "mw_acts w n = Some ea" and "mw_last w \<noteq> Some n"
  shows "ds_checkpoint ops (mw_store w) aid ((ea_durable ea)\<lparr>ds_state := st\<rparr>)
           = ((ea_durable ea)\<lparr>ds_state := st, ds_durable_ok := False\<rparr>, mw_store w)"
proof -
  have "ds_fence (ea_durable ea) < so_owner ops (mw_store w) aid"
    using mig_reachable_inv [OF assms(1,2)] assms(3,4)
    unfolding mig_inv_def by (metis le_neq_implies_less)
  then show ?thesis
    using ds_checkpoint_fenced [OF assms(1)] by simp
qed

text \<open>
  The latest activation always commits: its checkpoint succeeds and the store then holds
  exactly the state it wrote, which a later activation recovers.
\<close>

theorem latest_activation_commits:
  assumes "store_laws ops" and "mig_reachable ops dev_open aid w"
    and "mw_acts w n = Some ea" and "mw_last w = Some n"
  shows "\<exists>ds' sto'. ds_checkpoint ops (mw_store w) aid ((ea_durable ea)\<lparr>ds_state := st\<rparr>) = (ds', sto')
           \<and> ds_durable_ok ds' \<and> so_load ops sto' aid = Some st
           \<and> ds_state (fst (ds_recover ops sto' aid other False)) = st"
proof -
  obtain ds' sto' where c: "ds_checkpoint ops (mw_store w) aid ((ea_durable ea)\<lparr>ds_state := st\<rparr>) = (ds', sto')"
    by (cases "ds_checkpoint ops (mw_store w) aid ((ea_durable ea)\<lparr>ds_state := st\<rparr>)")
  have "owns ops (mw_store w) aid ((ea_durable ea)\<lparr>ds_state := st\<rparr>)"
    using mig_reachable_inv [OF assms(1,2)] assms(3,4) by (simp add: mig_inv_def owns_def)
  from ds_checkpoint_durable [OF assms(1) this c] c show ?thesis
    by (simp add: ds_recover_def Let_def split: prod.split)
qed

text \<open>The world after node 0 and then node 1 activated, for the two witnesses.\<close>

definition mig_example :: "(nat mem_store, nat, unit) mig_world" where
  "mig_example =
     \<lparr>mw_store = (Map.empty, (\<lambda>_. 0)(ActorId 0 7 := 2)), mw_dev = (),
      mw_acts = [0 \<mapsto> \<lparr>ea_durable = \<lparr>ds_state = 5, ds_fence = 1, ds_recovered = False, ds_durable_ok = False\<rparr>\<rparr>,
                 1 \<mapsto> \<lparr>ea_durable = \<lparr>ds_state = 5, ds_fence = 2, ds_recovered = False, ds_durable_ok = False\<rparr>\<rparr>],
      mw_last = Some 1\<rparr>"

lemma mig_example_reachable:
  "mig_reachable mem_ops (\<lambda>d. (DsOk, d)) (ActorId 0 7) mig_example"
proof -
  let ?w0 = "\<lparr>mw_store = mem_empty, mw_dev = (), mw_acts = Map.empty, mw_last = None\<rparr>
    :: (nat mem_store, nat, unit) mig_world"
  let ?ea = "\<lambda>f. \<lparr>ea_durable = \<lparr>ds_state = 5, ds_fence = f, ds_recovered = False, ds_durable_ok = False\<rparr>\<rparr>"
  let ?w1 = "?w0\<lparr>mw_store := (Map.empty, (\<lambda>_. 0)(ActorId 0 7 := 1)), mw_dev := (),
    mw_acts := (mw_acts ?w0)(0 \<mapsto> ?ea 1), mw_last := Some 0\<rparr>"
  have 0: "mig_reachable mem_ops (\<lambda>d. (DsOk, d)) (ActorId 0 7) ?w0"
    by (rule mig_start)
  have "mig_step mem_ops (\<lambda>d. (DsOk, d)) (ActorId 0 7) ?w0 ?w1"
    by (rule mig_activate [where initial = 5])
       (simp add: activate_def ds_recover_def mem_ops_def mem_empty_def)
  from mig_next [OF 0 this] have 1: "mig_reachable mem_ops (\<lambda>d. (DsOk, d)) (ActorId 0 7) ?w1" .
  have "mig_step mem_ops (\<lambda>d. (DsOk, d)) (ActorId 0 7) ?w1
     (?w1\<lparr>mw_store := (Map.empty, (\<lambda>_. 0)(ActorId 0 7 := 2)), mw_dev := (),
          mw_acts := (mw_acts ?w1)(1 \<mapsto> ?ea 2), mw_last := Some 1\<rparr>)"
    by (rule mig_activate [where initial = 5])
       (simp add: activate_def ds_recover_def mem_ops_def numeral_2_eq_2)
  from mig_next [OF 1 this] show ?thesis by (simp add: mig_example_def)
qed

theorem stale_activation_fenced_witness:
  "snd (ds_checkpoint mem_ops (mw_store mig_example) (ActorId 0 7)
     ((ea_durable (the (mw_acts mig_example 0)))\<lparr>ds_state := 9\<rparr>)) = mw_store mig_example"
proof -
  have "mw_acts mig_example 0 = Some (the (mw_acts mig_example 0))" and "mw_last mig_example \<noteq> Some 0"
    by (simp_all add: mig_example_def)
  from stale_activation_fenced [OF store_laws_mem_ops mig_example_reachable this, of 9]
  show ?thesis by simp
qed

theorem latest_activation_commits_witness:
  "\<exists>ds' sto'. ds_checkpoint mem_ops (mw_store mig_example) (ActorId 0 7)
     ((ea_durable (the (mw_acts mig_example 1)))\<lparr>ds_state := 9\<rparr>) = (ds', sto')
     \<and> so_load mem_ops sto' (ActorId 0 7) = Some 9"
proof -
  have "mw_acts mig_example 1 = Some (the (mw_acts mig_example 1))" and "mw_last mig_example = Some 1"
    by (simp_all add: mig_example_def)
  from latest_activation_commits [OF store_laws_mem_ops mig_example_reachable this, of 9 0]
  show ?thesis by blast
qed

end
