(* ===== verification/Ota.thy ===== *)
theory Ota
  imports Durable_State
begin

text \<open>
  \<open>include/aero/ota/ota.hpp\<close>: the per-device firmware update. The driver with its two slots, the
  durable progress, and \<open>run_ota\<close> and \<open>resume_ota\<close> as state passing over the driver, the progress
  and the store. The signature primitive of \<open>aero/pal/crypto.hpp\<close> is a binding to mbedTLS and is a
  parameter \<open>ecdsa_verify\<close>: message, signature, key to an optional verdict.
\<close>

section \<open>Image and signature\<close>

record OtaImage =
  img_version :: string
  img_bytes :: string
  img_signature :: string

definition fnv1a64 :: "string \<Rightarrow> u64" where
  "fnv1a64 s = foldl (\<lambda>h c. (h XOR ucast (byte_of_char c)) * 1099511628211) 1469598103934665603 s"

type_synonym ecdsa_sign_fn = "string \<Rightarrow> string \<Rightarrow> string option"
type_synonym ecdsa_verify_fn = "string \<Rightarrow> string \<Rightarrow> string \<Rightarrow> bool option"

definition newline :: string where
  "newline = [char_of (10 :: nat)]"

definition sign_image :: "ecdsa_sign_fn \<Rightarrow> OtaImage \<Rightarrow> string \<Rightarrow> string" where
  "sign_image ecdsa_sign img key =
     (case ecdsa_sign (img_version img @ newline @ img_bytes img) key of None \<Rightarrow> [] | Some s \<Rightarrow> s)"

definition verify_image :: "ecdsa_verify_fn \<Rightarrow> OtaImage \<Rightarrow> string \<Rightarrow> bool" where
  "verify_image ecdsa_verify img key =
     (if img_signature img = [] then False
      else case ecdsa_verify (img_version img @ newline @ img_bytes img) (img_signature img) key of
             None \<Rightarrow> False | Some b \<Rightarrow> b)"

section \<open>Durable progress\<close>

datatype OtaPhase =
    Idle | Fetched | Verified | Transferred | DeviceVerified | Activated | HealthChecked
  | PCommitted | PRolledBack | PRejected | PFailed

record OtaProgress =
  op_phase :: OtaPhase
  op_image_version :: string
  op_image_hash :: u64
  op_rollback_version :: string

definition new_OtaProgress :: OtaProgress where
  "new_OtaProgress = \<lparr>op_phase = Idle, op_image_version = [], op_image_hash = 0, op_rollback_version = []\<rparr>"

datatype OtaResult = Committed | RolledBack | Rejected | Failed

record OtaOutcome =
  oc_result :: OtaResult
  oc_final_version :: string
  oc_rollback_target :: string
  oc_reached :: OtaPhase

section \<open>The device\<close>

record MockOtaDriver =
  md_active :: string
  md_inactive_version :: string
  md_rollback_to :: string
  md_inactive_hash :: u64
  md_staging :: string
  md_force_health_fail :: bool

definition new_MockOtaDriver :: "string \<Rightarrow> MockOtaDriver" where
  "new_MockOtaDriver v =
     \<lparr>md_active = v, md_inactive_version = [], md_rollback_to = [], md_inactive_hash = 0,
      md_staging = [], md_force_health_fail = False\<rparr>"

text \<open>\<open>write\<close> takes the low byte of the 64-bit command value.\<close>

definition md_write :: "u64 \<Rightarrow> MockOtaDriver \<Rightarrow> MockOtaDriver" where
  "md_write val d = d\<lparr>md_staging := md_staging d @ [char_of_byte (ucast (val AND 0xFF))]\<rparr>"

definition ota_begin_transfer :: "MockOtaDriver \<Rightarrow> MockOtaDriver" where
  "ota_begin_transfer d = d\<lparr>md_staging := []\<rparr>"

definition ota_finish_transfer :: "string \<Rightarrow> MockOtaDriver \<Rightarrow> MockOtaDriver" where
  "ota_finish_transfer version d =
     d\<lparr>md_inactive_version := version, md_inactive_hash := fnv1a64 (md_staging d)\<rparr>"

definition ota_activate :: "MockOtaDriver \<Rightarrow> MockOtaDriver" where
  "ota_activate d = d\<lparr>md_rollback_to := md_active d, md_active := md_inactive_version d\<rparr>"

definition ota_rollback :: "MockOtaDriver \<Rightarrow> MockOtaDriver" where
  "ota_rollback d = d\<lparr>md_active := md_rollback_to d\<rparr>"

definition health_check :: "MockOtaDriver \<Rightarrow> bool" where
  "health_check d = (\<not> md_force_health_fail d)"

definition set_force_health_fail :: "bool \<Rightarrow> MockOtaDriver \<Rightarrow> MockOtaDriver" where
  "set_force_health_fail v d = d\<lparr>md_force_health_fail := v\<rparr>"

text \<open>The transfer loop: one write per payload byte.\<close>

definition transfer :: "string \<Rightarrow> MockOtaDriver \<Rightarrow> MockOtaDriver" where
  "transfer bytes d = foldl (\<lambda>d b. md_write (ucast (byte_of_char b)) d) (ota_begin_transfer d) bytes"

section \<open>The update\<close>

type_synonym 'sto ota_ops = "('sto, OtaProgress) store_ops"

record 'sto ota_world =
  ow_driver :: MockOtaDriver
  ow_prog :: "OtaProgress DurableState"
  ow_store :: 'sto

definition ota_checkpoint :: "'sto ota_ops \<Rightarrow> actor_id \<Rightarrow> 'sto ota_world \<Rightarrow> 'sto ota_world" where
  "ota_checkpoint ops aid w =
     (let (ds, sto) = ds_checkpoint ops (ow_store w) aid (ow_prog w)
      in w\<lparr>ow_prog := ds, ow_store := sto\<rparr>)"

definition upd_progress :: "(OtaProgress \<Rightarrow> OtaProgress) \<Rightarrow> 'sto ota_world \<Rightarrow> 'sto ota_world" where
  "upd_progress f w = w\<lparr>ow_prog := (ow_prog w)\<lparr>ds_state := f (ds_state (ow_prog w))\<rparr>\<rparr>"

definition upd_driver :: "(MockOtaDriver \<Rightarrow> MockOtaDriver) \<Rightarrow> 'sto ota_world \<Rightarrow> 'sto ota_world" where
  "upd_driver f w = w\<lparr>ow_driver := f (ow_driver w)\<rparr>"

definition set_phase :: "'sto ota_ops \<Rightarrow> actor_id \<Rightarrow> OtaPhase \<Rightarrow> 'sto ota_world \<Rightarrow> 'sto ota_world" where
  "set_phase ops aid p w = ota_checkpoint ops aid (upd_progress (\<lambda>st. st\<lparr>op_phase := p\<rparr>) w)"

text \<open>Steps 1 and 2: recover the progress, record the image, check the signature.\<close>

definition ota_open :: "'sto ota_ops \<Rightarrow> MockOtaDriver \<Rightarrow> 'sto \<Rightarrow> actor_id \<Rightarrow> 'sto ota_world" where
  "ota_open ops driver sto aid =
     (let (ds, sto') = ds_recover ops sto aid new_OtaProgress False
      in \<lparr>ow_driver = driver, ow_prog = ds, ow_store = sto'\<rparr>)"

definition ota_fetch :: "'sto ota_ops \<Rightarrow> actor_id \<Rightarrow> OtaImage \<Rightarrow> 'sto ota_world \<Rightarrow> 'sto ota_world" where
  "ota_fetch ops aid img w =
     set_phase ops aid Fetched (upd_progress (\<lambda>st. st\<lparr>op_image_version := img_version img\<rparr>) w)"

text \<open>Steps 2 (accepted) and 3: record the expected hash, transfer through the write path.\<close>

definition ota_transfer :: "'sto ota_ops \<Rightarrow> actor_id \<Rightarrow> OtaImage \<Rightarrow> 'sto ota_world \<Rightarrow> 'sto ota_world" where
  "ota_transfer ops aid img w =
     (let w = upd_progress (\<lambda>st. st\<lparr>op_image_hash := fnv1a64 (img_bytes img)\<rparr>) w;
          w = set_phase ops aid Verified w;
          w = upd_driver (transfer (img_bytes img)) w;
          w = upd_driver (ota_finish_transfer (img_version img)) w
      in set_phase ops aid Transferred w)"

text \<open>Step 5 up to the switch: the rollback target is recorded and persisted first.\<close>

definition ota_arm :: "'sto ota_ops \<Rightarrow> actor_id \<Rightarrow> 'sto ota_world \<Rightarrow> 'sto ota_world" where
  "ota_arm ops aid w =
     (let w = set_phase ops aid DeviceVerified w;
          w = upd_progress (\<lambda>st. st\<lparr>op_rollback_version := md_active (ow_driver w)\<rparr>) w
      in ota_checkpoint ops aid w)"

definition mk_outcome :: "OtaResult \<Rightarrow> string \<Rightarrow> OtaPhase \<Rightarrow> 'sto ota_world \<Rightarrow> OtaOutcome \<times> 'sto ota_world" where
  "mk_outcome res target ph w =
     (\<lparr>oc_result = res, oc_final_version = md_active (ow_driver w), oc_rollback_target = target,
       oc_reached = ph\<rparr>, w)"

text \<open>Step 6: commit or roll back. \<open>checked\<close> is the extra \<open>HealthChecked\<close> checkpoint of \<open>run_ota\<close>.\<close>

definition ota_gate ::
  "'sto ota_ops \<Rightarrow> actor_id \<Rightarrow> bool \<Rightarrow> 'sto ota_world \<Rightarrow> OtaOutcome \<times> 'sto ota_world" where
  "ota_gate ops aid checked w =
     (if \<not> health_check (ow_driver w) then
        let w = upd_driver ota_rollback w; w = set_phase ops aid PRolledBack w
        in mk_outcome RolledBack (op_rollback_version (ds_state (ow_prog w))) PRolledBack w
      else
        let w = (if checked then set_phase ops aid HealthChecked w else w);
            w = set_phase ops aid PCommitted w
        in mk_outcome Committed [] PCommitted w)"

definition run_ota ::
  "'sto ota_ops \<Rightarrow> ecdsa_verify_fn \<Rightarrow> MockOtaDriver \<Rightarrow> OtaImage \<Rightarrow> string \<Rightarrow> 'sto \<Rightarrow> actor_id \<Rightarrow>
   OtaOutcome \<times> 'sto ota_world" where
  "run_ota ops ecdsa_verify driver img key sto aid =
     (let w = ota_fetch ops aid img (ota_open ops driver sto aid) in
      if \<not> verify_image ecdsa_verify img key then
        mk_outcome Rejected [] PRejected (set_phase ops aid PRejected w)
      else
        let w = ota_transfer ops aid img w in
        if md_inactive_hash (ow_driver w) \<noteq> op_image_hash (ds_state (ow_prog w)) then
          mk_outcome Failed [] PFailed (set_phase ops aid PFailed w)
        else
          let w = ota_arm ops aid w;
              w = upd_driver ota_activate w;
              w = set_phase ops aid Activated w
          in ota_gate ops aid True w)"

definition resume_ota ::
  "'sto ota_ops \<Rightarrow> MockOtaDriver \<Rightarrow> 'sto \<Rightarrow> actor_id \<Rightarrow> OtaOutcome \<times> 'sto ota_world" where
  "resume_ota ops driver sto aid =
     (let w = ota_open ops driver sto aid in
      if op_phase (ds_state (ow_prog w)) \<noteq> Activated then
        mk_outcome Failed (op_rollback_version (ds_state (ow_prog w)))
          (op_phase (ds_state (ow_prog w))) w
      else ota_gate ops aid False w)"

section \<open>Frame lemmas\<close>

lemma ota_checkpoint_simps [simp]:
  "ow_driver (ota_checkpoint ops aid w) = ow_driver w"
  "ds_state (ow_prog (ota_checkpoint ops aid w)) = ds_state (ow_prog w)"
  by (simp_all add: ota_checkpoint_def split: prod.split)
     (metis ds_checkpoint_state(1) fst_conv)

lemma upd_progress_simps [simp]:
  "ow_driver (upd_progress f w) = ow_driver w"
  "ow_store (upd_progress f w) = ow_store w"
  "ds_state (ow_prog (upd_progress f w)) = f (ds_state (ow_prog w))"
  "ds_fence (ow_prog (upd_progress f w)) = ds_fence (ow_prog w)"
  by (simp_all add: upd_progress_def)

lemma upd_driver_simps [simp]:
  "ow_driver (upd_driver f w) = f (ow_driver w)"
  "ow_store (upd_driver f w) = ow_store w"
  "ow_prog (upd_driver f w) = ow_prog w"
  by (simp_all add: upd_driver_def)

lemma set_phase_simps [simp]:
  "ow_driver (set_phase ops aid p w) = ow_driver w"
  "ds_state (ow_prog (set_phase ops aid p w)) = (ds_state (ow_prog w))\<lparr>op_phase := p\<rparr>"
  by (simp_all add: set_phase_def)

lemma ota_open_driver [simp]: "ow_driver (ota_open ops driver sto aid) = driver"
  by (simp add: ota_open_def split: prod.split)

lemma md_write_byte: "md_write (ucast (byte_of_char b)) d = d\<lparr>md_staging := md_staging d @ [b]\<rparr>"
proof -
  have "(ucast ((ucast (byte_of_char b) :: u64) AND 0xFF) :: byte) = byte_of_char b"
    unfolding and_255 by (rule bit_word_eqI) (auto simp: bit_simps dest: bit_imp_le_length)
  then show ?thesis by (simp add: md_write_def)
qed

lemma transfer_staging: "transfer bytes d = d\<lparr>md_staging := bytes\<rparr>"
proof -
  have "foldl (\<lambda>d b. md_write (ucast (byte_of_char b)) d) e bytes = e\<lparr>md_staging := md_staging e @ bytes\<rparr>" for e
    by (induction bytes arbitrary: e) (simp_all add: md_write_byte)
  then show ?thesis by (simp add: transfer_def ota_begin_transfer_def)
qed

text \<open>The device right after a transfer: only its inactive slot changed, with the image's hash.\<close>

lemma ota_transfer_driver:
  "ow_driver (ota_transfer ops aid img w) =
     (ow_driver w)\<lparr>md_staging := img_bytes img, md_inactive_version := img_version img,
                    md_inactive_hash := fnv1a64 (img_bytes img)\<rparr>"
  "ds_state (ow_prog (ota_transfer ops aid img w)) =
     (ds_state (ow_prog w))\<lparr>op_image_hash := fnv1a64 (img_bytes img), op_phase := Transferred\<rparr>"
  by (simp_all add: ota_transfer_def transfer_staging ota_finish_transfer_def)

lemma ota_arm_simps [simp]:
  "ow_driver (ota_arm ops aid w) = ow_driver w"
  "ds_state (ow_prog (ota_arm ops aid w)) =
     (ds_state (ow_prog w))\<lparr>op_phase := DeviceVerified, op_rollback_version := md_active (ow_driver w)\<rparr>"
  by (simp_all add: ota_arm_def Let_def)

lemma ota_fetch_simps [simp]:
  "ow_driver (ota_fetch ops aid img w) = ow_driver w"
  "ds_state (ow_prog (ota_fetch ops aid img w)) =
     (ds_state (ow_prog w))\<lparr>op_image_version := img_version img, op_phase := Fetched\<rparr>"
  by (simp_all add: ota_fetch_def)

lemmas ota_frame = ota_transfer_driver mk_outcome_def ota_gate_def health_check_def
  ota_activate_def ota_rollback_def Let_def

section \<open>Durability\<close>

text \<open>The world owns the fence of its actor, so every checkpoint reaches the store.\<close>

definition ow_owned :: "'sto ota_ops \<Rightarrow> actor_id \<Rightarrow> 'sto ota_world \<Rightarrow> bool" where
  "ow_owned ops aid w \<longleftrightarrow> owns ops (ow_store w) aid (ow_prog w)"

definition ow_synced :: "'sto ota_ops \<Rightarrow> actor_id \<Rightarrow> 'sto ota_world \<Rightarrow> bool" where
  "ow_synced ops aid w \<longleftrightarrow>
     ow_owned ops aid w \<and> so_load ops (ow_store w) aid = Some (ds_state (ow_prog w))"

lemma ota_open_owned: "store_laws ops \<Longrightarrow> ow_owned ops aid (ota_open ops driver sto aid)"
  using ds_recover_owns(1) by (fastforce simp: ow_owned_def ota_open_def split: prod.split)

lemma ow_owned_upd [simp]:
  "ow_owned ops aid (upd_progress f w) = ow_owned ops aid w"
  "ow_owned ops aid (upd_driver g w) = ow_owned ops aid w"
  by (simp_all add: ow_owned_def owns_def)

lemma ow_synced_upd_driver [simp]: "ow_synced ops aid (upd_driver g w) = ow_synced ops aid w"
  by (simp add: ow_synced_def)

lemma ota_checkpoint_synced:
  assumes "store_laws ops" and "ow_owned ops aid w"
  shows "ow_synced ops aid (ota_checkpoint ops aid w)"
proof -
  obtain ds sto where c: "ds_checkpoint ops (ow_store w) aid (ow_prog w) = (ds, sto)"
    by (cases "ds_checkpoint ops (ow_store w) aid (ow_prog w)")
  have "ds_state ds = ds_state (ow_prog w)"
    using c ds_checkpoint_state(1) [of ops "ow_store w" aid "ow_prog w"] by simp
  with ds_checkpoint_durable(1,2) [OF assms(1) _ c] assms(2) c show ?thesis
    by (simp add: ow_synced_def ow_owned_def ota_checkpoint_def)
qed

lemma set_phase_synced:
  "store_laws ops \<Longrightarrow> ow_owned ops aid w \<Longrightarrow> ow_synced ops aid (set_phase ops aid p w)"
  by (simp add: set_phase_def ota_checkpoint_synced)

lemma ow_synced_owned: "ow_synced ops aid w \<Longrightarrow> ow_owned ops aid w"
  by (simp add: ow_synced_def)

lemma ota_fetch_synced:
  "store_laws ops \<Longrightarrow> ow_owned ops aid w \<Longrightarrow> ow_synced ops aid (ota_fetch ops aid img w)"
  by (simp add: ota_fetch_def set_phase_synced)

lemma ota_transfer_synced:
  "store_laws ops \<Longrightarrow> ow_owned ops aid w \<Longrightarrow> ow_synced ops aid (ota_transfer ops aid img w)"
  by (simp add: ota_transfer_def Let_def set_phase_synced ow_synced_owned)

lemma ota_arm_synced:
  "store_laws ops \<Longrightarrow> ow_owned ops aid w \<Longrightarrow> ow_synced ops aid (ota_arm ops aid w)"
  by (simp add: ota_arm_def Let_def set_phase_synced ow_synced_owned ota_checkpoint_synced)

lemma ota_gate_synced:
  "store_laws ops \<Longrightarrow> ow_owned ops aid w \<Longrightarrow> ow_synced ops aid (snd (ota_gate ops aid c w))"
  by (simp add: ota_gate_def mk_outcome_def Let_def set_phase_synced ow_synced_owned)

text \<open>The world in which the image is armed: every durable step before the switch is done.\<close>

definition ota_armed ::
  "'sto ota_ops \<Rightarrow> MockOtaDriver \<Rightarrow> OtaImage \<Rightarrow> 'sto \<Rightarrow> actor_id \<Rightarrow> 'sto ota_world" where
  "ota_armed ops driver img sto aid =
     ota_arm ops aid (ota_transfer ops aid img (ota_fetch ops aid img (ota_open ops driver sto aid)))"

lemma ota_armed_synced: "store_laws ops \<Longrightarrow> ow_synced ops aid (ota_armed ops driver img sto aid)"
  by (simp add: ota_armed_def ota_arm_synced ota_transfer_synced ota_fetch_synced ota_open_owned
      ow_synced_owned)

lemma ota_armed_driver:
  "ow_driver (ota_armed ops driver img sto aid) =
     driver\<lparr>md_staging := img_bytes img, md_inactive_version := img_version img,
            md_inactive_hash := fnv1a64 (img_bytes img)\<rparr>"
  by (simp add: ota_armed_def ota_transfer_driver)

lemma ota_armed_rollback:
  "op_rollback_version (ds_state (ow_prog (ota_armed ops driver img sto aid))) = md_active driver"
  "op_image_version (ds_state (ow_prog (ota_armed ops driver img sto aid))) = img_version img"
  "op_phase (ds_state (ow_prog (ota_armed ops driver img sto aid))) = DeviceVerified"
  by (simp_all add: ota_armed_def ota_transfer_driver)

text \<open>The two worlds around the switch: after it, and after its phase is durable too.\<close>

definition ota_switched ::
  "'sto ota_ops \<Rightarrow> MockOtaDriver \<Rightarrow> OtaImage \<Rightarrow> 'sto \<Rightarrow> actor_id \<Rightarrow> 'sto ota_world" where
  "ota_switched ops driver img sto aid = upd_driver ota_activate (ota_armed ops driver img sto aid)"

definition ota_activated ::
  "'sto ota_ops \<Rightarrow> MockOtaDriver \<Rightarrow> OtaImage \<Rightarrow> 'sto \<Rightarrow> actor_id \<Rightarrow> 'sto ota_world" where
  "ota_activated ops driver img sto aid =
     set_phase ops aid Activated (ota_switched ops driver img sto aid)"

lemma run_ota_verified:
  assumes "verify_image ev img key"
  shows "run_ota ops ev driver img key sto aid
           = ota_gate ops aid True (ota_activated ops driver img sto aid)"
  using assms
  by (simp add: run_ota_def ota_activated_def ota_switched_def ota_armed_def Let_def ota_transfer_driver)

lemma ota_switched_driver:
  "ow_driver (ota_switched ops driver img sto aid) =
     driver\<lparr>md_staging := img_bytes img, md_inactive_version := img_version img,
            md_inactive_hash := fnv1a64 (img_bytes img),
            md_rollback_to := md_active driver, md_active := img_version img\<rparr>"
  by (simp add: ota_switched_def ota_armed_driver ota_activate_def)

lemma ds_recover_snapshot:
  assumes "so_load ops sto aid = Some st"
  shows "ds_state (ow_prog (ota_open ops driver sto aid)) = st"
  using assms by (simp add: ota_open_def ds_recover_def Let_def split: prod.split)

section \<open>Properties\<close>

text \<open>
  No unverified image reaches the device. When the signature check fails, \<open>run_ota\<close> rejects
  and the driver is exactly as it was: not one byte written, no slot changed.
\<close>

theorem unverified_never_transferred:
  assumes "\<not> verify_image ev img key"
  shows "ow_driver (snd (run_ota ops ev driver img key sto aid)) = driver \<and>
         fst (run_ota ops ev driver img key sto aid)
           = \<lparr>oc_result = Rejected, oc_final_version = md_active driver, oc_rollback_target = [],
              oc_reached = PRejected\<rparr>"
  using assms by (simp add: run_ota_def mk_outcome_def Let_def)

text \<open>
  C21: The complete outcome of \<open>run_ota\<close> on a verified image: with a failing health check the device
  is back on the version it ran before and the outcome names it as rollback target; otherwise it
  runs the image's version. The \<open>Failed\<close> result (hash mismatch) cannot occur: the bytes the device
  received are the image's.
\<close>

theorem run_ota_outcome:
  assumes "verify_image ev img key"
  shows "fst (run_ota ops ev driver img key sto aid) =
           (if md_force_health_fail driver
            then \<lparr>oc_result = RolledBack, oc_final_version = md_active driver,
                  oc_rollback_target = md_active driver, oc_reached = PRolledBack\<rparr>
            else \<lparr>oc_result = Committed, oc_final_version = img_version img,
                  oc_rollback_target = [], oc_reached = PCommitted\<rparr>)
         \<and> md_active (ow_driver (snd (run_ota ops ev driver img key sto aid))) =
           (if md_force_health_fail driver then md_active driver else img_version img)"
  unfolding run_ota_verified [OF assms]
  by (simp add: ota_frame ota_activated_def ota_switched_driver)
     (simp add: ota_switched_def ota_armed_rollback)

text \<open>
  An update interrupted after its \<open>Activated\<close> phase became durable is finished by
  \<open>resume_ota\<close> from the store alone: committed on the new version when healthy, and otherwise back
  on the version that ran before the update, which the store still names.
\<close>

theorem resume_after_activation:
  assumes "store_laws ops"
  shows "fst (resume_ota ops (ow_driver (ota_activated ops driver img sto aid))
                (ow_store (ota_activated ops driver img sto aid)) aid) =
           (if md_force_health_fail driver
            then \<lparr>oc_result = RolledBack, oc_final_version = md_active driver,
                  oc_rollback_target = md_active driver, oc_reached = PRolledBack\<rparr>
            else \<lparr>oc_result = Committed, oc_final_version = img_version img,
                  oc_rollback_target = [], oc_reached = PCommitted\<rparr>)"
proof -
  let ?w = "ota_activated ops driver img sto aid"
  have "ow_synced ops aid ?w"
    using ota_armed_synced [OF assms, of aid driver img sto] assms
    by (simp add: ota_activated_def ota_switched_def set_phase_synced ow_synced_owned)
  then have "so_load ops (ow_store ?w) aid = Some (ds_state (ow_prog ?w))"
    by (simp add: ow_synced_def)
  from ds_recover_snapshot [OF this]
  have st: "ds_state (ow_prog (ota_open ops (ow_driver ?w) (ow_store ?w) aid)) = ds_state (ow_prog ?w)" .
  show ?thesis
    by (simp add: resume_ota_def st ota_frame)
       (simp add: ota_activated_def ota_switched_driver, simp add: ota_switched_def ota_armed_rollback)
qed

text \<open>
  C36: The crash window of the update. A node that stops between the device's slot switch and the
  checkpoint of the \<open>Activated\<close> phase leaves a progress record that \<open>resume_ota\<close> refuses
  (\<open>Failed\<close>, device on the new image), and restarting the update from the top, as the comment on
  \<open>resume_ota\<close> advises, takes the unhealthy new version as its own rollback target: the failed
  health check then \<open>rolls back\<close> to the new version, and the version that worked is on no slot.
\<close>

theorem crash_before_activated_checkpoint:
  assumes "store_laws ops" and "verify_image ev img key" and "md_force_health_fail driver"
  shows "oc_result (fst (resume_ota ops (ow_driver (ota_switched ops driver img sto aid))
            (ow_store (ota_switched ops driver img sto aid)) aid)) = Failed
    \<and> fst (run_ota ops ev (ow_driver (ota_switched ops driver img sto aid)) img key
            (ow_store (ota_switched ops driver img sto aid)) aid)
          = \<lparr>oc_result = RolledBack, oc_final_version = img_version img,
             oc_rollback_target = img_version img, oc_reached = PRolledBack\<rparr>
    \<and> md_rollback_to (ow_driver (snd (run_ota ops ev (ow_driver (ota_switched ops driver img sto aid))
            img key (ow_store (ota_switched ops driver img sto aid)) aid))) = img_version img"
proof (intro conjI)
  let ?w = "ota_switched ops driver img sto aid"
  have "so_load ops (ow_store ?w) aid = Some (ds_state (ow_prog ?w))"
    using ota_armed_synced [OF assms(1), of aid driver img sto] by (simp add: ota_switched_def ow_synced_def)
  from ds_recover_snapshot [OF this]
  have "op_phase (ds_state (ow_prog (ota_open ops (ow_driver ?w) (ow_store ?w) aid))) = DeviceVerified"
    by (simp add: ota_switched_def ota_armed_rollback)
  then show "oc_result (fst (resume_ota ops (ow_driver ?w) (ow_store ?w) aid)) = Failed"
    by (simp add: resume_ota_def mk_outcome_def Let_def)
  have d: "md_force_health_fail (ow_driver ?w)" "md_active (ow_driver ?w) = img_version img"
    using assms(3) by (simp_all add: ota_switched_driver)
  note out = run_ota_verified [OF assms(2), of ops "ow_driver ?w" "ow_store ?w" aid]
  show "fst (run_ota ops ev (ow_driver ?w) img key (ow_store ?w) aid)
          = \<lparr>oc_result = RolledBack, oc_final_version = img_version img,
             oc_rollback_target = img_version img, oc_reached = PRolledBack\<rparr>"
    unfolding out using d
    by (simp add: ota_frame ota_activated_def ota_switched_driver [of _ "ow_driver ?w"])
       (simp add: ota_switched_def [of _ "ow_driver ?w"] ota_armed_rollback)
  show "md_rollback_to (ow_driver (snd (run_ota ops ev (ow_driver ?w) img key (ow_store ?w) aid)))
          = img_version img"
    unfolding out using d by (simp add: ota_frame ota_activated_def ota_switched_driver [of _ "ow_driver ?w"])
qed

subsection \<open>Witnesses\<close>

text \<open>A signature scheme for the witnesses: the signature of a message is the message itself.\<close>

definition toy_verify :: ecdsa_verify_fn where
  "toy_verify m s k = Some (m = s)"

definition toy_image :: OtaImage where
  "toy_image = \<lparr>img_version = ''2.0'', img_bytes = ''AB'', img_signature = ''2.0'' @ newline @ ''AB''\<rparr>"

lemma toy_image_verified: "verify_image toy_verify toy_image ''k''"
  by (simp add: verify_image_def toy_verify_def toy_image_def)

theorem unverified_never_transferred_witness:
  "ow_driver (snd (run_ota mem_ops toy_verify (new_MockOtaDriver ''1.0'')
     (toy_image\<lparr>img_version := ''3.0''\<rparr>) ''k'' mem_empty (ActorId 0 1))) = new_MockOtaDriver ''1.0''"
proof -
  have "\<not> verify_image toy_verify (toy_image\<lparr>img_version := ''3.0''\<rparr>) ''k''"
    by (simp add: verify_image_def toy_verify_def toy_image_def)
  from conjunct1 [OF unverified_never_transferred [OF this]] show ?thesis .
qed

theorem run_ota_outcome_witness:
  "oc_final_version (fst (run_ota mem_ops toy_verify (new_MockOtaDriver ''1.0'') toy_image ''k''
     mem_empty (ActorId 0 1))) = ''2.0''"
  using run_ota_outcome [OF toy_image_verified, of mem_ops "new_MockOtaDriver ''1.0''" mem_empty "ActorId 0 1"]
  by (simp add: new_MockOtaDriver_def toy_image_def)

theorem resume_after_activation_witness:
  "oc_result (fst (resume_ota mem_ops
     (ow_driver (ota_activated mem_ops (new_MockOtaDriver ''1.0'') toy_image mem_empty (ActorId 0 1)))
     (ow_store (ota_activated mem_ops (new_MockOtaDriver ''1.0'') toy_image mem_empty (ActorId 0 1)))
     (ActorId 0 1))) = Committed"
  using resume_after_activation [OF store_laws_mem_ops, of "new_MockOtaDriver ''1.0''" toy_image mem_empty "ActorId 0 1"]
  by (simp add: new_MockOtaDriver_def)

theorem crash_before_activated_checkpoint_witness:
  "oc_final_version (fst (run_ota mem_ops toy_verify
     (ow_driver (ota_switched mem_ops ((new_MockOtaDriver ''1.0'')\<lparr>md_force_health_fail := True\<rparr>) toy_image mem_empty (ActorId 0 1)))
     toy_image ''k''
     (ow_store (ota_switched mem_ops ((new_MockOtaDriver ''1.0'')\<lparr>md_force_health_fail := True\<rparr>) toy_image mem_empty (ActorId 0 1)))
     (ActorId 0 1))) = ''2.0''"
proof -
  have "md_force_health_fail ((new_MockOtaDriver ''1.0'')\<lparr>md_force_health_fail := True\<rparr>)" by simp
  from conjunct1 [OF conjunct2 [OF crash_before_activated_checkpoint [OF store_laws_mem_ops toy_image_verified this,
      of mem_empty "ActorId 0 1"]]]
  show ?thesis by (simp add: toy_image_def)
qed

end
