(* ===== verification/Fleet.thy ===== *)
theory Fleet
  imports Complex_Main Ota
begin

text \<open>
  \<open>include/aero/ota/fleet.hpp\<close>: the staged rollout over many devices. Devices hold a pointer to
  their driver, so the drivers live in a heap from addresses to driver states and two devices may
  share one. The success rate is a \<open>double\<close>; rounding to a double is the parameter \<open>fl\<close> on
  rationals, and nothing proved here depends on it.
\<close>

datatype RolloutState = RIdle | Running | Paused | Completed

record FleetDevice =
  fd_id :: string
  fd_driver :: nat

record WaveResult =
  wr_name :: string
  wr_attempted :: nat
  wr_succeeded :: nat
  wr_success_rate :: rat
  wr_passed :: bool

record 'sto FleetActor =
  fa_threshold :: rat
  fa_canary :: nat
  fa_staged :: nat
  fa_rate_limit :: nat
  fa_devices :: "FleetDevice list"
  fa_store :: 'sto
  fa_state :: RolloutState
  fa_updated :: nat
  fa_rolled_back :: nat

type_synonym driver_heap = "nat \<Rightarrow> MockOtaDriver"

definition new_FleetActor :: "'sto \<Rightarrow> rat \<Rightarrow> nat \<Rightarrow> nat \<Rightarrow> nat \<Rightarrow> 'sto FleetActor" where
  "new_FleetActor sto threshold canary staged rate_limit =
     \<lparr>fa_threshold = threshold, fa_canary = canary, fa_staged = staged,
      fa_rate_limit = (if rate_limit = 0 then 1 else rate_limit), fa_devices = [], fa_store = sto,
      fa_state = RIdle, fa_updated = 0, fa_rolled_back = 0\<rparr>"

definition add_device :: "string \<Rightarrow> nat \<Rightarrow> 'sto FleetActor \<Rightarrow> 'sto FleetActor" where
  "add_device i drv fa = fa\<lparr>fa_devices := fa_devices fa @ [\<lparr>fd_id = i, fd_driver = drv\<rparr>]\<rparr>"

section \<open>One wave\<close>

text \<open>The loop state: the actor, the drivers and the wave's success count.\<close>

type_synonym 'sto wave_state = "'sto FleetActor \<times> driver_heap \<times> nat"

text \<open>The body of the inner loop, for the device at index \<open>i\<close>.\<close>

definition update_device ::
  "'sto ota_ops \<Rightarrow> ecdsa_verify_fn \<Rightarrow> OtaImage \<Rightarrow> string \<Rightarrow> nat \<Rightarrow> 'sto wave_state \<Rightarrow> 'sto wave_state" where
  "update_device ops ev img key i st =
     (case st of (fa, heap, succ) \<Rightarrow>
        let a = fd_driver (fa_devices fa ! i);
            aid = ActorId 0x0DA0 (ucast (of_nat i :: u32));
            (oc, w) = run_ota ops ev (heap a) img key (fa_store fa) aid;
            heap' = heap(a := ow_driver w);
            fa' = fa\<lparr>fa_store := ow_store w\<rparr>
        in if oc_result oc = Committed then
             (fa'\<lparr>fa_updated := fa_updated fa' + 1\<rparr>, heap', succ + 1)
           else if oc_result oc = RolledBack then
             (fa'\<lparr>fa_rolled_back := fa_rolled_back fa' + 1\<rparr>, heap', succ)
           else (fa', heap', succ))"

fun update_devices ::
  "'sto ota_ops \<Rightarrow> ecdsa_verify_fn \<Rightarrow> OtaImage \<Rightarrow> string \<Rightarrow> nat list \<Rightarrow> 'sto wave_state \<Rightarrow> 'sto wave_state" where
  "update_devices ops ev img key [] st = st"
| "update_devices ops ev img key (i # is) st =
     update_devices ops ev img key is (update_device ops ev img key i st)"

text \<open>
  The outer loop in batches of \<open>rate_limit_\<close>, which the constructor makes positive: the first
  conjunct of the guard never decides.
\<close>

function wave_loop ::
  "'sto ota_ops \<Rightarrow> ecdsa_verify_fn \<Rightarrow> OtaImage \<Rightarrow> string \<Rightarrow> nat \<Rightarrow> nat \<Rightarrow> nat \<Rightarrow> nat \<Rightarrow>
   'sto wave_state \<Rightarrow> 'sto wave_state" where
  "wave_loop ops ev img key limit offset count dn st =
     (if 0 < limit \<and> dn < count then
        let batch = min limit (count - dn);
            st' = update_devices ops ev img key (map (\<lambda>k. offset + dn + k) [0..<batch]) st
        in wave_loop ops ev img key limit offset count (dn + limit) st'
      else st)"
  by pat_completeness auto
termination
  by (relation "measure (\<lambda>(ops, ev, img, key, limit, offset, count, d, st). count - d)") auto

declare wave_loop.simps [simp del]

definition run_wave ::
  "'sto ota_ops \<Rightarrow> ecdsa_verify_fn \<Rightarrow> (rat \<Rightarrow> rat) \<Rightarrow> OtaImage \<Rightarrow> string \<Rightarrow> string \<Rightarrow> nat \<Rightarrow> nat \<Rightarrow>
   'sto FleetActor \<times> driver_heap \<Rightarrow> WaveResult \<times> 'sto FleetActor \<times> driver_heap" where
  "run_wave ops ev fl img key name offset count fh =
     (let (fa, heap) = fh;
          (fa', heap', succ) = wave_loop ops ev img key (fa_rate_limit fa) offset count 0 (fa, heap, 0);
          rate = (if count = 0 then 0 else fl (of_nat succ / of_nat count))
      in (\<lparr>wr_name = name, wr_attempted = count, wr_succeeded = succ, wr_success_rate = rate,
           wr_passed = (rate \<ge> fa_threshold fa)\<rparr>, fa', heap'))"

section \<open>The rollout\<close>

text \<open>The loop over the three waves; \<open>offset\<close> and \<open>results\<close> are its local variables.\<close>

fun waves_loop ::
  "'sto ota_ops \<Rightarrow> ecdsa_verify_fn \<Rightarrow> (rat \<Rightarrow> rat) \<Rightarrow> OtaImage \<Rightarrow> string \<Rightarrow> (string \<times> nat) list \<Rightarrow>
   nat \<Rightarrow> WaveResult list \<Rightarrow> 'sto FleetActor \<times> driver_heap \<Rightarrow>
   WaveResult list \<times> 'sto FleetActor \<times> driver_heap" where
  "waves_loop ops ev fl img key [] offset results fh =
     (results, (fst fh)\<lparr>fa_state := Completed\<rparr>, snd fh)"
| "waves_loop ops ev fl img key ((name, wsize) # ws) offset results fh =
     (let n = length (fa_devices (fst fh)) in
      if offset \<ge> n then (results, (fst fh)\<lparr>fa_state := Completed\<rparr>, snd fh)
      else
        let count = min wsize (n - offset) in
        if count = 0 then waves_loop ops ev fl img key ws offset results fh
        else
          let (wr, fa', heap') = run_wave ops ev fl img key name offset count fh;
              results' = results @ [wr]
          in if \<not> wr_passed wr then (results', fa'\<lparr>fa_state := Paused\<rparr>, heap')
             else waves_loop ops ev fl img key ws (offset + count) results' (fa', heap'))"

definition run_rollout ::
  "'sto ota_ops \<Rightarrow> ecdsa_verify_fn \<Rightarrow> (rat \<Rightarrow> rat) \<Rightarrow> OtaImage \<Rightarrow> string \<Rightarrow>
   'sto FleetActor \<times> driver_heap \<Rightarrow> WaveResult list \<times> 'sto FleetActor \<times> driver_heap" where
  "run_rollout ops ev fl img key fh =
     (let fa = (fst fh)\<lparr>fa_state := Running, fa_updated := 0, fa_rolled_back := 0\<rparr>;
          n = length (fa_devices fa);
          waves = [(''canary'', fa_canary fa), (''staged'', fa_staged fa),
                   (''full'', if n > fa_canary fa + fa_staged fa
                              then n - (fa_canary fa + fa_staged fa) else 0)]
      in waves_loop ops ev fl img key waves 0 [] (fa, snd fh))"

section \<open>Batches are one sweep\<close>

lemma update_devices_append:
  "update_devices ops ev img key (is @ js) st
     = update_devices ops ev img key js (update_devices ops ev img key is st)"
  by (induction "is" arbitrary: st) auto

lemma map_plus_upt: "map (\<lambda>k. m + k) [0..<n] = [m..<m + n]"
  by (induction n) auto

lemma wave_loop_sweep:
  assumes "0 < limit"
  shows "wave_loop ops ev img key limit offset count d st
           = update_devices ops ev img key [offset + d..<offset + count] st"
  using assms
proof (induction ops ev img key limit offset count d st rule: wave_loop.induct)
  case (1 ops ev img key limit offset count d st)
  show ?case
  proof (cases "d < count")
    case False
    then show ?thesis by (simp add: wave_loop.simps)
  next
    case True
    let ?b = "min limit (count - d)"
    have "[offset + d..<offset + count] = [offset + d..<offset + d + ?b] @ [offset + (d + limit)..<offset + count]"
    proof (cases "limit \<le> count - d")
      case True
      then have "offset + d + limit + (count - d - limit) = offset + count"
        using \<open>d < count\<close> by simp
      then show ?thesis
        using upt_add_eq_append [of "offset + d" "offset + d + limit" "count - d - limit"] True
        by (simp add: min_def add.assoc)
    next
      case False
      then show ?thesis using \<open>d < count\<close> by (simp add: min_def)
    qed
    then show ?thesis
      using True 1 by (subst wave_loop.simps) (simp add: map_plus_upt update_devices_append Let_def)
  qed
qed

section \<open>Frame of a sweep\<close>

lemma update_device_frame:
  assumes "update_device ops ev img key i (fa, heap, succ) = (fa', heap', succ')"
  shows "fa_devices fa' = fa_devices fa" and "fa_rate_limit fa' = fa_rate_limit fa"
    and "fa_threshold fa' = fa_threshold fa"
    and "a \<noteq> fd_driver (fa_devices fa ! i) \<Longrightarrow> heap' a = heap a"
    and "succ \<le> succ'" and "succ' \<le> Suc succ"
  using assms by (auto simp: update_device_def Let_def split: prod.splits if_splits)

lemma update_devices_frame:
  assumes "update_devices ops ev img key is (fa, heap, succ) = (fa', heap', succ')"
  shows "fa_devices fa' = fa_devices fa \<and> fa_rate_limit fa' = fa_rate_limit fa \<and>
         fa_threshold fa' = fa_threshold fa \<and>
         (\<forall>a. a \<notin> (\<lambda>i. fd_driver (fa_devices fa ! i)) ` set is \<longrightarrow> heap' a = heap a) \<and>
         succ' \<le> succ + length is"
  using assms
proof (induction "is" arbitrary: fa heap succ)
  case Nil
  then show ?case by simp
next
  case (Cons i js)
  obtain fa1 heap1 succ1 where u: "update_device ops ev img key i (fa, heap, succ) = (fa1, heap1, succ1)"
    by (cases "update_device ops ev img key i (fa, heap, succ)") auto
  note f = update_device_frame [OF u]
  show ?case
    using Cons.IH [of fa1 heap1 succ1] Cons.prems u f by auto
qed

lemma run_wave_frame:
  assumes "run_wave ops ev fl img key name offset count (fa, heap) = (wr, fa', heap')"
    and "0 < fa_rate_limit fa"
  shows "fa_devices fa' = fa_devices fa \<and> fa_rate_limit fa' = fa_rate_limit fa \<and>
         fa_threshold fa' = fa_threshold fa \<and> wr_attempted wr = count \<and> wr_succeeded wr \<le> count \<and>
         (\<forall>a. a \<notin> (\<lambda>i. fd_driver (fa_devices fa ! i)) ` {offset..<offset + count} \<longrightarrow> heap' a = heap a)"
proof -
  obtain f h s where l: "wave_loop ops ev img key (fa_rate_limit fa) offset count 0 (fa, heap, 0) = (f, h, s)"
    by (cases "wave_loop ops ev img key (fa_rate_limit fa) offset count 0 (fa, heap, 0)") auto
  then have "update_devices ops ev img key [offset..<offset + count] (fa, heap, 0) = (f, h, s)"
    using wave_loop_sweep [OF assms(2), of ops ev img key offset count 0] by simp
  from update_devices_frame [OF this] assms(1) l show ?thesis
    by (auto simp: run_wave_def Let_def)
qed

section \<open>The rollout gate\<close>

text \<open>How many devices the recorded waves attempted.\<close>

definition attempted_total :: "WaveResult list \<Rightarrow> nat" where
  "attempted_total rs = sum_list (map wr_attempted rs)"

definition touched_only :: "FleetDevice list \<Rightarrow> nat \<Rightarrow> driver_heap \<Rightarrow> driver_heap \<Rightarrow> bool" where
  "touched_only devs k heap heap' \<longleftrightarrow>
     (\<forall>a. a \<notin> fd_driver ` set (take k devs) \<longrightarrow> heap' a = heap a)"

lemma take_image_interval:
  assumes "m + c \<le> length devs"
  shows "(\<lambda>i. fd_driver (devs ! i)) ` {m..<m + c} \<subseteq> fd_driver ` set (take (m + c) devs)"
  using assms by (force simp: in_set_conv_nth)

lemma touched_only_mono:
  "touched_only devs k heap heap' \<Longrightarrow> k \<le> l \<Longrightarrow> touched_only devs l heap heap'"
  unfolding touched_only_def by (meson image_mono set_take_subset_set_take subsetD)

definition rollout_post ::
  "FleetDevice list \<Rightarrow> driver_heap \<Rightarrow> WaveResult list \<Rightarrow> 'sto FleetActor \<Rightarrow> driver_heap \<Rightarrow> bool" where
  "rollout_post devs heap results fa heap' \<longleftrightarrow>
     attempted_total results \<le> length devs \<and>
     touched_only devs (attempted_total results) heap heap' \<and>
     (fa_state fa = Completed \<and> (\<forall>r \<in> set results. wr_passed r) \<or>
      fa_state fa = Paused \<and> results \<noteq> [] \<and> \<not> wr_passed (last results) \<and>
        (\<forall>r \<in> set (butlast results). wr_passed r))"

lemma waves_loop_post:
  assumes "waves_loop ops ev fl img key ws offset results (fa, heap) = (rs, fa', heap')"
    and "0 < fa_rate_limit fa" and "fa_devices fa = devs" and "offset = attempted_total results"
    and "offset \<le> length devs" and "\<forall>r \<in> set results. wr_passed r"
    and "touched_only devs offset heap0 heap"
  shows "rollout_post devs heap0 rs fa' heap'"
  using assms
proof (induction ws arbitrary: offset results fa heap)
  case Nil
  then show ?case by (auto simp: rollout_post_def)
next
  case (Cons w ws)
  obtain name wsize where w: "w = (name, wsize)" by (cases w)
  let ?count = "min wsize (length devs - offset)"
  consider (stop) "offset \<ge> length devs" | (skip) "offset < length devs" "?count = 0"
    | (go) "offset < length devs" "?count \<noteq> 0" by linarith
  then show ?case
  proof cases
    case stop
    then show ?thesis using Cons.prems w by (auto simp: rollout_post_def)
  next
    case skip
    then have "waves_loop ops ev fl img key ws offset results (fa, heap) = (rs, fa', heap')"
      using Cons.prems(1,3) w by auto
    then show ?thesis by (rule Cons.IH) (use Cons.prems in auto)
  next
    case go
    obtain wr f h where r: "run_wave ops ev fl img key name offset ?count (fa, heap) = (wr, f, h)"
      by (cases "run_wave ops ev fl img key name offset ?count (fa, heap)") auto
    note fr = run_wave_frame [OF r Cons.prems(2)]
    have tot: "attempted_total (results @ [wr]) = offset + ?count"
      using fr Cons.prems(4) by (simp add: attempted_total_def)
    have le: "offset + ?count \<le> length devs" using go by auto
    have "touched_only devs (offset + ?count) heap h"
      unfolding touched_only_def using fr take_image_interval [OF le] Cons.prems(3) by blast
    with touched_only_mono [OF Cons.prems(7), of "offset + ?count"]
    have t: "touched_only devs (offset + ?count) heap0 h"
      by (simp add: touched_only_def)
    show ?thesis
    proof (cases "wr_passed wr")
      case True
      then have "waves_loop ops ev fl img key ws (offset + ?count) (results @ [wr]) (f, h) = (rs, fa', heap')"
        using Cons.prems(1,3) w go r by (auto simp: Let_def)
      then show ?thesis
        by (rule Cons.IH) (use Cons.prems fr tot le t True in auto)
    next
      case False
      then have "rs = results @ [wr]" "fa' = f\<lparr>fa_state := Paused\<rparr>" "heap' = h"
        using Cons.prems(1,3) w go r by (auto simp: Let_def)
      then show ?thesis
        using False tot le t Cons.prems(6) by (simp add: rollout_post_def)
    qed
  qed
qed

section \<open>Properties\<close>

text \<open>
  Processing a wave in batches of the rate limit updates exactly the devices of the wave, once
  each and in order, whatever the positive limit: the nested loops are one sweep over the interval.
\<close>

theorem batching_is_one_sweep:
  assumes "0 < limit"
  shows "wave_loop ops ev img key limit offset count 0 st
           = update_devices ops ev img key [offset..<offset + count] st"
  using wave_loop_sweep [OF assms, of ops ev img key offset count 0 st] by simp

theorem batching_is_one_sweep_witness:
  "wave_loop mem_ops toy_verify toy_image ''k'' 2 1 3 0
       (new_FleetActor mem_empty 1 1 1 2, (\<lambda>_. new_MockOtaDriver ''1.0''), 0)
     = update_devices mem_ops toy_verify toy_image ''k'' [1..<1 + 3]
       (new_FleetActor mem_empty 1 1 1 2, (\<lambda>_. new_MockOtaDriver ''1.0''), 0)"
  by (rule batching_is_one_sweep) simp

text \<open>
  C27: The rollout gate. A rollout ends \<open>Completed\<close> with every wave passed, or \<open>Paused\<close> right after
  its first wave below the threshold; and in both cases no driver changed except those of the
  devices the recorded waves attempted, so a failed canary leaves every later device alone.
\<close>

theorem rollout_gate:
  assumes "run_rollout ops ev fl img key (fa, heap) = (results, fa', heap')"
    and "0 < fa_rate_limit fa"
  shows "rollout_post (fa_devices fa) heap results fa' heap'"
  by (rule waves_loop_post [OF assms(1) [unfolded run_rollout_def Let_def fst_conv snd_conv]])
     (use assms(2) in \<open>simp_all add: attempted_total_def touched_only_def\<close>)

text \<open>
  The witness: three devices, a canary of one, an image whose signature does not verify. The canary
  wave fails the threshold, the rollout pauses after it.
\<close>

definition toy_fleet :: "OtaProgress mem_store FleetActor" where
  "toy_fleet = add_device ''c'' 2 (add_device ''b'' 1 (add_device ''a'' 0
     (new_FleetActor mem_empty 1 1 1 1)))"

theorem rollout_gate_witness:
  "\<exists>results fa' heap'.
     run_rollout mem_ops toy_verify (\<lambda>x. x) (toy_image\<lparr>img_version := ''3.0''\<rparr>) ''k''
       (toy_fleet, (\<lambda>_. new_MockOtaDriver ''1.0'')) = (results, fa', heap') \<and>
     rollout_post (fa_devices toy_fleet) (\<lambda>_. new_MockOtaDriver ''1.0'') results fa' heap'"
proof -
  obtain results fa' heap' where r:
    "run_rollout mem_ops toy_verify (\<lambda>x. x) (toy_image\<lparr>img_version := ''3.0''\<rparr>) ''k''
       (toy_fleet, (\<lambda>_. new_MockOtaDriver ''1.0'')) = (results, fa', heap')"
    by (cases "run_rollout mem_ops toy_verify (\<lambda>x. x) (toy_image\<lparr>img_version := ''3.0''\<rparr>) ''k''
       (toy_fleet, (\<lambda>_. new_MockOtaDriver ''1.0''))") auto
  have "0 < fa_rate_limit toy_fleet"
    by (simp add: toy_fleet_def add_device_def new_FleetActor_def)
  from rollout_gate [OF r this] r show ?thesis by blast
qed

end
