(* ===== verification/Mes_Outbox.thy ===== *)
theory Mes_Outbox
  imports Durable_State
begin

text \<open>
  \<open>include/aero/mes/mes.hpp\<close> and \<open>include/aero/mes/outbox.hpp\<close>: the canonical report, the durable
  outbox and the gateway actor that owns it. The MES adapter is the site's code: a parameter
  \<open>report\<close> from its state and a report to a result and a new state. The report's \<open>double\<close> value is
  only carried, so it is its 64-bit pattern.
\<close>

section \<open>Reports\<close>

datatype MesKind = Production | Alarm | TagSample

record MesReport =
  mr_kind :: MesKind
  mr_line :: string
  mr_label :: string
  mr_value :: u64
  mr_seq :: u64
  mr_idempotency_key :: string

fun kind_name :: "MesKind \<Rightarrow> string" where
  "kind_name Production = ''production''"
| "kind_name Alarm = ''alarm''"
| "kind_name TagSample = ''tag_sample''"

datatype MesResult = Delivered | Retry | MesRejected

type_synonym 'ad mes_adapter = "'ad \<Rightarrow> MesReport \<Rightarrow> MesResult \<times> 'ad"

section \<open>Outbox state\<close>

record OutboxEntry =
  oe_kind :: MesKind
  oe_line :: string
  oe_label :: string
  oe_value :: u64
  oe_seq :: u64
  oe_key :: string

record OutboxState =
  os_next_seq :: u64
  os_pending :: "OutboxEntry list"

definition new_OutboxState :: OutboxState where
  "new_OutboxState = \<lparr>os_next_seq = 0, os_pending = []\<rparr>"

definition make_key :: "MesReport \<Rightarrow> string" where
  "make_key r = mr_line r @ '':'' @ kind_name (mr_kind r) @ '':'' @ to_string (unat (mr_seq r))"

type_synonym 'sto outbox_ops = "('sto, OutboxState) store_ops"

record ('sto, 'ad) MesGateway =
  gw_durable :: "OutboxState DurableState"
  gw_store :: 'sto
  gw_adapter :: 'ad
  gw_delivered :: u64

definition new_MesGateway ::
  "'sto outbox_ops \<Rightarrow> 'sto \<Rightarrow> actor_id \<Rightarrow> 'ad \<Rightarrow> ('sto, 'ad) MesGateway" where
  "new_MesGateway ops sto aid ad =
     (let (ds, sto') = ds_recover ops sto aid new_OutboxState False
      in \<lparr>gw_durable = ds, gw_store = sto', gw_adapter = ad, gw_delivered = 0\<rparr>)"

abbreviation outbox :: "('sto, 'ad) MesGateway \<Rightarrow> OutboxState" where
  "outbox g \<equiv> ds_state (gw_durable g)"

definition gw_checkpoint ::
  "'sto outbox_ops \<Rightarrow> actor_id \<Rightarrow> OutboxState \<Rightarrow> ('sto, 'ad) MesGateway \<Rightarrow> ('sto, 'ad) MesGateway" where
  "gw_checkpoint ops aid st g =
     (let (ds, sto) = ds_checkpoint ops (gw_store g) aid ((gw_durable g)\<lparr>ds_state := st\<rparr>)
      in g\<lparr>gw_durable := ds, gw_store := sto\<rparr>)"

section \<open>Operations\<close>

definition stage ::
  "'sto outbox_ops \<Rightarrow> actor_id \<Rightarrow> MesReport \<Rightarrow> ('sto, 'ad) MesGateway \<Rightarrow> string \<times> ('sto, 'ad) MesGateway" where
  "stage ops aid r0 g =
     (let st = outbox g;
          next = os_next_seq st + 1;
          r1 = r0\<lparr>mr_seq := next\<rparr>;
          r = (if mr_idempotency_key r1 = [] then r1\<lparr>mr_idempotency_key := make_key r1\<rparr> else r1);
          e = \<lparr>oe_kind = mr_kind r, oe_line = mr_line r, oe_label = mr_label r, oe_value = mr_value r,
               oe_seq = mr_seq r, oe_key = mr_idempotency_key r\<rparr>
      in (mr_idempotency_key r,
          gw_checkpoint ops aid \<lparr>os_next_seq = next, os_pending = os_pending st @ [e]\<rparr> g))"

definition report_of :: "OutboxEntry \<Rightarrow> MesReport" where
  "report_of e =
     \<lparr>mr_kind = oe_kind e, mr_line = oe_line e, mr_label = oe_label e, mr_value = oe_value e,
      mr_seq = oe_seq e, mr_idempotency_key = oe_key e\<rparr>"

text \<open>The drain loop, on the pending list it shortens from the front.\<close>

fun drain_loop ::
  "'sto outbox_ops \<Rightarrow> 'ad mes_adapter \<Rightarrow> actor_id \<Rightarrow> OutboxEntry list \<Rightarrow> nat \<Rightarrow>
   ('sto, 'ad) MesGateway \<Rightarrow> nat \<times> ('sto, 'ad) MesGateway" where
  "drain_loop ops report aid [] delivered g = (delivered, g)"
| "drain_loop ops report aid (e # es) delivered g =
     (let (res, ad) = report (gw_adapter g) (report_of e); g = g\<lparr>gw_adapter := ad\<rparr> in
      if res = Retry then (delivered, g)
      else
        let g = gw_checkpoint ops aid ((outbox g)\<lparr>os_pending := es\<rparr>) g
        in drain_loop ops report aid es (if res = Delivered then delivered + 1 else delivered) g)"

definition outbox_drain ::
  "'sto outbox_ops \<Rightarrow> 'ad mes_adapter \<Rightarrow> actor_id \<Rightarrow> ('sto, 'ad) MesGateway \<Rightarrow> nat \<times> ('sto, 'ad) MesGateway" where
  "outbox_drain ops report aid g = drain_loop ops report aid (os_pending (outbox g)) 0 g"

datatype gateway_msg = StageReport MesReport | DrainOutbox

fun gateway_handle ::
  "'sto outbox_ops \<Rightarrow> 'ad mes_adapter \<Rightarrow> actor_id \<Rightarrow> ('sto, 'ad) MesGateway \<Rightarrow> gateway_msg \<Rightarrow>
   ('sto, 'ad) MesGateway" where
  "gateway_handle ops report aid g (StageReport r) =
     (let (k, g1) = stage ops aid r g; (n, g2) = outbox_drain ops report aid g1
      in g2\<lparr>gw_delivered := gw_delivered g2 + of_nat n\<rparr>)"
| "gateway_handle ops report aid g DrainOutbox =
     (let (n, g1) = outbox_drain ops report aid g
      in g1\<lparr>gw_delivered := gw_delivered g1 + of_nat n\<rparr>)"

record OutboxStats =
  st_staged :: u64
  st_pending :: u64
  st_delivered :: u64

definition get_outbox_stats :: "('sto, 'ad) MesGateway \<Rightarrow> OutboxStats" where
  "get_outbox_stats g =
     \<lparr>st_staged = os_next_seq (outbox g), st_pending = of_nat (length (os_pending (outbox g))),
      st_delivered = gw_delivered g\<rparr>"

section \<open>Invariant\<close>

text \<open>
  The gateway owns its fence, a recovery from the store reads exactly the outbox, and the pending reports carry
  consecutive sequence numbers that end at the last one handed out.
\<close>

definition seqs_ok :: "OutboxState \<Rightarrow> bool" where
  "seqs_ok st \<longleftrightarrow>
     (\<forall>i < length (os_pending st).
        oe_seq (os_pending st ! i) = os_next_seq st - of_nat (length (os_pending st) - 1 - i))"

definition gw_synced :: "'sto outbox_ops \<Rightarrow> actor_id \<Rightarrow> ('sto, 'ad) MesGateway \<Rightarrow> bool" where
  "gw_synced ops aid g \<longleftrightarrow>
     owns ops (gw_store g) aid (gw_durable g) \<and>
     (case so_load ops (gw_store g) aid of Some st \<Rightarrow> st | None \<Rightarrow> new_OutboxState) = outbox g"

definition gw_inv :: "'sto outbox_ops \<Rightarrow> actor_id \<Rightarrow> ('sto, 'ad) MesGateway \<Rightarrow> bool" where
  "gw_inv ops aid g \<longleftrightarrow> store_laws ops \<and> gw_synced ops aid g \<and> seqs_ok (outbox g)"

lemma gw_checkpoint_simps [simp]:
  "outbox (gw_checkpoint ops aid st g) = st"
  "gw_adapter (gw_checkpoint ops aid st g) = gw_adapter g"
  "gw_delivered (gw_checkpoint ops aid st g) = gw_delivered g"
  by (simp_all add: gw_checkpoint_def ds_checkpoint_def split: prod.split option.split)

lemma gw_checkpoint_synced:
  assumes "store_laws ops" and "owns ops (gw_store g) aid (gw_durable g)"
  shows "gw_synced ops aid (gw_checkpoint ops aid st g)"
proof -
  let ?ds = "(gw_durable g)\<lparr>ds_state := st\<rparr>"
  obtain ds sto where c: "ds_checkpoint ops (gw_store g) aid ?ds = (ds, sto)"
    by (cases "ds_checkpoint ops (gw_store g) aid ?ds")
  have "owns ops (gw_store g) aid ?ds" using assms(2) by (simp add: owns_def)
  from ds_checkpoint_durable(1,2) [OF assms(1) this c] c ds_checkpoint_state(1) [of ops "gw_store g" aid ?ds]
  show ?thesis by (simp add: gw_synced_def gw_checkpoint_def)
qed

lemma gw_synced_adapter [simp]:
  "gw_synced ops aid (g\<lparr>gw_adapter := ad\<rparr>) = gw_synced ops aid g"
  "gw_synced ops aid (g\<lparr>gw_delivered := d\<rparr>) = gw_synced ops aid g"
  by (simp_all add: gw_synced_def)

lemma gw_synced_owns: "gw_synced ops aid g \<Longrightarrow> owns ops (gw_store g) aid (gw_durable g)"
  by (simp add: gw_synced_def)

lemma seqs_ok_tl: "seqs_ok st \<Longrightarrow> os_pending st = e # es \<Longrightarrow> seqs_ok (st\<lparr>os_pending := es\<rparr>)"
  by (auto simp: seqs_ok_def)

lemma seqs_ok_snoc:
  assumes "seqs_ok st" and "oe_seq e = os_next_seq st + 1"
  shows "seqs_ok \<lparr>os_next_seq = os_next_seq st + 1, os_pending = os_pending st @ [e]\<rparr>"
  unfolding seqs_ok_def
proof (intro allI impI)
  fix i
  let ?st = "\<lparr>os_next_seq = os_next_seq st + 1, os_pending = os_pending st @ [e]\<rparr>"
  assume i: "i < length (os_pending ?st)"
  show "oe_seq (os_pending ?st ! i) = os_next_seq ?st - of_nat (length (os_pending ?st) - 1 - i)"
  proof (cases "i < length (os_pending st)")
    case True
    then have "length (os_pending st) - i = Suc (length (os_pending st) - 1 - i)" by simp
    with True assms(1) show ?thesis by (simp add: seqs_ok_def nth_append)
  next
    case False
    then have "i = length (os_pending st)" using i by simp
    then show ?thesis using assms(2) by simp
  qed
qed

lemma stage_inv: "gw_inv ops aid g \<Longrightarrow> gw_inv ops aid (snd (stage ops aid r g))"
  by (auto simp: gw_inv_def stage_def Let_def intro!: gw_checkpoint_synced gw_synced_owns seqs_ok_snoc)

lemma drain_loop_inv:
  "gw_inv ops aid g \<Longrightarrow> os_pending (outbox g) = es \<Longrightarrow> gw_inv ops aid (snd (drain_loop ops report aid es d g))"
proof (induction es arbitrary: d g)
  case Nil
  then show ?case by simp
next
  case (Cons e es)
  obtain res ad where r: "report (gw_adapter g) (report_of e) = (res, ad)"
    by (cases "report (gw_adapter g) (report_of e)")
  let ?g = "g\<lparr>gw_adapter := ad\<rparr>"
  let ?g1 = "gw_checkpoint ops aid ((outbox g)\<lparr>os_pending := es\<rparr>) ?g"
  have "gw_inv ops aid ?g" using Cons.prems by (simp add: gw_inv_def)
  moreover have "gw_inv ops aid ?g1"
    using Cons.prems seqs_ok_tl
    by (auto simp: gw_inv_def intro!: gw_checkpoint_synced gw_synced_owns)
  ultimately show ?case
    using r Cons.IH [of ?g1] by (simp add: Let_def)
qed

lemma outbox_drain_inv: "gw_inv ops aid g \<Longrightarrow> gw_inv ops aid (snd (outbox_drain ops report aid g))"
  by (simp add: outbox_drain_def drain_loop_inv)

lemma gw_inv_delivered [simp]: "gw_inv ops aid (g\<lparr>gw_delivered := d\<rparr>) = gw_inv ops aid g"
  by (simp add: gw_inv_def)

lemma gateway_handle_inv: "gw_inv ops aid g \<Longrightarrow> gw_inv ops aid (gateway_handle ops report aid g m)"
  using outbox_drain_inv stage_inv
  by (cases m) (fastforce split: prod.split dest: arg_cong [where f = snd])+

interpretation gateway: machine "gateway_handle ops report aid" "gw_inv ops aid" for ops report aid
  by unfold_locales (rule gateway_handle_inv)

section \<open>Draining\<close>

text \<open>
  What the adapter is fed: reports from the front of the list until the first \<open>Retry\<close>. The result
  is the number of reports answered for good, the number delivered, and the adapter afterwards.
\<close>

fun feed :: "'ad mes_adapter \<Rightarrow> MesReport list \<Rightarrow> 'ad \<Rightarrow> nat \<times> nat \<times> 'ad" where
  "feed report [] ad = (0, 0, ad)"
| "feed report (r # rs) ad =
     (let (res, ad1) = report ad r in
      if res = Retry then (0, 0, ad1)
      else let (k, d, ad2) = feed report rs ad1 in (Suc k, if res = Delivered then Suc d else d, ad2))"

lemma feed_le: "feed report rs ad = (k, d, ad') \<Longrightarrow> d \<le> k \<and> k \<le> length rs"
  by (induction rs arbitrary: ad k d) (fastforce simp: Let_def split: prod.splits if_splits)+

lemma drain_loop_feed:
  assumes "os_pending (outbox g) = es"
    and "feed report (map report_of es) (gw_adapter g) = (k, d, ad')"
    and "drain_loop ops report aid es n g = (n', g')"
  shows "n' = n + d \<and> gw_adapter g' = ad' \<and> gw_delivered g' = gw_delivered g \<and>
         outbox g' = (outbox g)\<lparr>os_pending := drop k es\<rparr>"
  using assms
proof (induction es arbitrary: g n k d)
  case Nil
  then show ?case by simp
next
  case (Cons e es)
  obtain res ad where r: "report (gw_adapter g) (report_of e) = (res, ad)"
    by (cases "report (gw_adapter g) (report_of e)")
  show ?case
  proof (cases "res = Retry")
    case True
    then show ?thesis using Cons.prems r by (auto simp: Let_def)
  next
    case False
    let ?g1 = "gw_checkpoint ops aid ((outbox g)\<lparr>os_pending := es\<rparr>) (g\<lparr>gw_adapter := ad\<rparr>)"
    obtain k1 d1 ad1 where f: "feed report (map report_of es) ad = (k1, d1, ad1)"
      by (cases "feed report (map report_of es) ad")
    from Cons.IH [of ?g1 k1 d1 "if res = Delivered then n + 1 else n"] Cons.prems r f False
    show ?thesis by (auto simp: Let_def split: if_splits)
  qed
qed

section \<open>Idempotency keys\<close>

lemma colon_not_kind [simp]: "CHR '':'' \<notin> set (kind_name k)"
  by (cases k) auto

lemma kind_name_inj [simp]: "kind_name k = kind_name k' \<longleftrightarrow> k = k'"
  by (cases k; cases k') auto

lemma last_separator_unique:
  assumes "xs @ c # ys = xs' @ c # ys'" and "c \<notin> set ys" and "c \<notin> set ys'"
  shows "xs = xs' \<and> ys = ys'"
  using assms by (auto simp: append_eq_append_conv2 append_eq_Cons_conv Cons_eq_append_conv)

text \<open>
  A generated idempotency key determines the line, the kind and the sequence number of its
  report, whatever characters the line name has, so two staged reports never share a generated key
  unless they share all three.
\<close>
theorem make_key_injective:
  assumes "make_key r = make_key r'"
  shows "mr_line r = mr_line r' \<and> mr_kind r = mr_kind r' \<and> mr_seq r = mr_seq r'"
proof -
  have "(mr_line r @ '':'' @ kind_name (mr_kind r)) @ CHR '':'' # to_string (unat (mr_seq r))
      = (mr_line r' @ '':'' @ kind_name (mr_kind r')) @ CHR '':'' # to_string (unat (mr_seq r'))"
    using assms by (simp add: make_key_def)
  from last_separator_unique [OF this] have
    h: "mr_line r @ CHR '':'' # kind_name (mr_kind r) = mr_line r' @ CHR '':'' # kind_name (mr_kind r')"
    and t: "to_string (unat (mr_seq r)) = to_string (unat (mr_seq r'))" by simp_all
  from last_separator_unique [OF h] to_string_inj [OF t] show ?thesis
    by (simp add: word_unat_eq_iff)
qed

theorem make_key_injective_witness:
  "let r = \<lparr>mr_kind = Alarm, mr_line = ''L1:a'', mr_label = ''x'', mr_value = 0, mr_seq = 12, mr_idempotency_key = []\<rparr>;
       r' = r\<lparr>mr_label := ''y''\<rparr>
   in make_key r = make_key r' \<and> mr_seq r = mr_seq r'"
proof -
  let ?r = "\<lparr>mr_kind = Alarm, mr_line = ''L1:a'', mr_label = ''x'', mr_value = 0, mr_seq = 12, mr_idempotency_key = []\<rparr>"
  have "make_key ?r = make_key (?r\<lparr>mr_label := ''y''\<rparr>)" by (simp add: make_key_def)
  with make_key_injective [OF this] show ?thesis by simp
qed

section \<open>Durability and delivery\<close>

lemma new_MesGateway_inv:
  assumes "store_laws ops" and "so_load ops sto aid = None"
  shows "gw_inv ops aid (new_MesGateway ops sto aid ad)"
proof -
  obtain ds sto' where r: "ds_recover ops sto aid new_OutboxState False = (ds, sto')"
    by (cases "ds_recover ops sto aid new_OutboxState False")
  have "ds_state ds = new_OutboxState"
    using r assms(2) by (auto simp: ds_recover_def split: prod.splits)
  with ds_recover_owns [OF assms(1) r] r assms show ?thesis
    by (simp add: gw_inv_def gw_synced_def new_MesGateway_def seqs_ok_def new_OutboxState_def)
qed

lemma restart_outbox:
  assumes "gw_inv ops aid g"
  shows "outbox (new_MesGateway ops (gw_store g) aid ad) = outbox g"
  using assms
  by (auto simp: gw_inv_def gw_synced_def new_MesGateway_def ds_recover_def split: prod.split option.splits)

text \<open>
  C24: Whatever reports were staged and however the MES answered, a gateway restarted from the store
  alone has exactly the outbox the old one had, and the pending reports carry consecutive sequence
  numbers that end with the last one handed out: nothing un-acked is lost, reordered or duplicated.
\<close>
theorem outbox_survives_restart:
  assumes "store_laws ops" and "so_load ops sto aid = None"
    and "g = foldl (gateway_handle ops report aid) (new_MesGateway ops sto aid ad) ms"
  shows "outbox (new_MesGateway ops (gw_store g) aid ad') = outbox g \<and>
    (\<forall>i < length (os_pending (outbox g)). oe_seq (os_pending (outbox g) ! i)
        = os_next_seq (outbox g) - of_nat (length (os_pending (outbox g)) - 1 - i))"
proof -
  have "gw_inv ops aid g"
    using gateway.inv_foldl [OF new_MesGateway_inv [OF assms(1,2)]] assms(3) by simp
  with restart_outbox [OF this] show ?thesis by (simp add: gw_inv_def seqs_ok_def)
qed

theorem outbox_survives_restart_witness:
  "let ops = mem_ops; aid = ActorId 0 1;
       r = \<lparr>mr_kind = Alarm, mr_line = ''L'', mr_label = ''x'', mr_value = 0, mr_seq = 0, mr_idempotency_key = []\<rparr>;
       g = foldl (gateway_handle ops (\<lambda>ad _. (Retry, ad)) aid) (new_MesGateway ops mem_empty aid ()) [StageReport r]
   in outbox (new_MesGateway ops (gw_store g) aid ()) = outbox g"
proof -
  have "so_load mem_ops mem_empty (ActorId 0 1) = None" by (simp add: mem_ops_def mem_empty_def)
  from outbox_survives_restart [OF store_laws_mem_ops this refl] show ?thesis
    unfolding Let_def by (rule conjunct1)
qed

text \<open>
  A drain reports the pending entries to the MES in FIFO order up to the first \<open>Retry\<close>: exactly
  the entries answered for good leave the outbox, the rest stay in order, the sequence counter is
  untouched, and the count returned is the number of \<open>Delivered\<close> answers.
\<close>
theorem drain_is_fifo:
  assumes "feed report (map report_of (os_pending (outbox g))) (gw_adapter g) = (k, d, ad)"
    and "outbox_drain ops report aid g = (n, g')"
  shows "n = d \<and> gw_adapter g' = ad \<and> outbox g' = (outbox g)\<lparr>os_pending := drop k (os_pending (outbox g))\<rparr>"
  using drain_loop_feed [OF refl assms(1) assms(2) [unfolded outbox_drain_def]] by simp

theorem drain_is_fifo_witness:
  "let e = \<lambda>n. \<lparr>oe_kind = Alarm, oe_line = ''L'', oe_label = ''x'', oe_value = 0, oe_seq = n, oe_key = ''k''\<rparr>;
       report = (\<lambda>seen r. (if mr_seq r = 3 then Retry else Delivered, seen @ [mr_seq r]));
       g = \<lparr>gw_durable = \<lparr>ds_state = \<lparr>os_next_seq = 4, os_pending = [e 1, e 2, e 3, e 4]\<rparr>, ds_fence = 0,
              ds_recovered = False, ds_durable_ok = False\<rparr>,
            gw_store = mem_empty, gw_adapter = [], gw_delivered = 0\<rparr>;
       (n, g') = outbox_drain mem_ops report (ActorId 0 1) g
   in n = 2 \<and> gw_adapter g' = [1, 2, 3] \<and> os_pending (outbox g') = [e 3, e 4]"
proof -
  let ?e = "\<lambda>n. \<lparr>oe_kind = Alarm, oe_line = ''L'', oe_label = ''x'', oe_value = 0, oe_seq = n, oe_key = ''k''\<rparr>"
  let ?report = "\<lambda>seen r. (if mr_seq r = 3 then Retry else Delivered, seen @ [mr_seq r])"
  let ?g = "\<lparr>gw_durable = \<lparr>ds_state = \<lparr>os_next_seq = 4, os_pending = [?e 1, ?e 2, ?e 3, ?e 4]\<rparr>, ds_fence = 0,
              ds_recovered = False, ds_durable_ok = False\<rparr>,
            gw_store = mem_empty, gw_adapter = [], gw_delivered = 0\<rparr> :: (OutboxState mem_store, u64 list) MesGateway"
  obtain n g' where d: "outbox_drain mem_ops ?report (ActorId 0 1) ?g = (n, g')"
    by (cases "outbox_drain mem_ops ?report (ActorId 0 1) ?g")
  have "feed ?report (map report_of (os_pending (outbox ?g))) (gw_adapter ?g) = (2, 2, [1, 2, 3])"
    by (simp add: report_of_def)
  from drain_is_fifo [OF this d] d show ?thesis by simp
qed

end
