(* ===== verification/Topic_Match.thy ===== *)
theory Topic_Match
  imports Aero_Prelude
begin

text \<open>
  \<open>include/aero/broker/topic_match.hpp\<close>: MQTT topic-filter matching, the wildcard test for
  topic names and the parser for shared-subscription filters.
\<close>

section \<open>Splitting a topic into levels\<close>

text \<open>The \<open>split\<close> lambda of \<open>topic_matches\<close>: cut at every slash, keeping empty levels.\<close>

function split_levels :: "string \<Rightarrow> string list" where
  "split_levels s =
     (case find_char (CHR ''/'') s of
        None \<Rightarrow> [s]
      | Some pos \<Rightarrow> take pos s # split_levels (drop (Suc pos) s))"
  by pat_completeness auto
termination
  by (relation "measure length") (auto dest!: find_char_SomeD)

declare split_levels.simps [simp del]

text \<open>The inverse on the specification side: levels joined by slashes.\<close>

fun join_levels :: "string list \<Rightarrow> string" where
  "join_levels [] = []"
| "join_levels [l] = l"
| "join_levels (l # ls) = l @ CHR ''/'' # join_levels ls"

lemma split_levels_not_Nil [simp]: "split_levels s \<noteq> []"
  by (subst split_levels.simps) (simp split: option.split)

lemma join_levels_Cons: "ls \<noteq> [] \<Longrightarrow> join_levels (l # ls) = l @ CHR ''/'' # join_levels ls"
  by (cases ls) auto

lemma join_split_levels: "join_levels (split_levels s) = s"
proof (induction s rule: split_levels.induct)
  case (1 s)
  show ?case
  proof (cases "find_char (CHR ''/'') s")
    case None
    then show ?thesis by (subst split_levels.simps) simp
  next
    case (Some p)
    with 1 have "join_levels (split_levels (drop (Suc p) s)) = drop (Suc p) s" by simp
    with Some show ?thesis
      by (subst split_levels.simps) (simp add: join_levels_Cons find_char_split [symmetric])
  qed
qed

lemma split_levels_no_slash: "l \<in> set (split_levels s) \<Longrightarrow> CHR ''/'' \<notin> set l"
proof (induction s rule: split_levels.induct)
  case (1 s)
  show ?case
  proof (cases "find_char (CHR ''/'') s")
    case None
    with 1 show ?thesis
      by (subst (asm) (2) split_levels.simps) (simp add: find_char_None_iff)
  next
    case (Some p)
    with 1 show ?thesis
      by (subst (asm) (2) split_levels.simps) (auto dest: find_char_SomeD)
  qed
qed

lemma split_levels_inject: "split_levels s = split_levels t \<longleftrightarrow> s = t"
  by (metis join_split_levels)

lemma split_levels_single: "CHR ''/'' \<notin> set l \<Longrightarrow> split_levels l = [l]"
  by (subst split_levels.simps) (simp add: find_char_None_iff [symmetric])

lemma split_levels_append_slash:
  "CHR ''/'' \<notin> set l \<Longrightarrow> split_levels (l @ CHR ''/'' # s) = l # split_levels s"
  by (subst split_levels.simps) (simp add: find_char_append_Cons)

lemma split_join_levels:
  "ls \<noteq> [] \<Longrightarrow> \<forall>l \<in> set ls. CHR ''/'' \<notin> set l \<Longrightarrow> split_levels (join_levels ls) = ls"
  by (induction ls rule: join_levels.induct)
     (auto simp: split_levels_single split_levels_append_slash)

section \<open>Matching\<close>

text \<open>
  The loop of \<open>topic_matches\<close> walks both level vectors with one index; the two lists here are
  the parts of \<open>f\<close> and \<open>t\<close> from that index on.
\<close>

fun match_levels :: "string list \<Rightarrow> string list \<Rightarrow> bool" where
  "match_levels [] t = (t = [])"
| "match_levels (l # f) t =
     (if l = ''#'' then True
      else case t of
        [] \<Rightarrow> False
      | x # xs \<Rightarrow>
          if l = ''+'' then match_levels f xs
          else if l \<noteq> x then False
          else match_levels f xs)"

definition topic_matches :: "string \<Rightarrow> string \<Rightarrow> bool" where
  "topic_matches flt topic = match_levels (split_levels flt) (split_levels topic)"

definition topic_name_has_wildcard :: "string \<Rightarrow> bool" where
  "topic_name_has_wildcard topic =
     (find_char (CHR ''+'') topic \<noteq> None \<or> find_char (CHR ''#'') topic \<noteq> None)"

subsection \<open>The specification of section 4.7 of MQTT 3.1.1\<close>

text \<open>
  A filter the standard allows: a \<open>#\<close> only as the whole of the last level, a \<open>+\<close> only as the whole of a
  level, at least one character.
\<close>

definition level_wf :: "string \<Rightarrow> bool" where
  "level_wf l \<longleftrightarrow> l = ''+'' \<or> CHR ''+'' \<notin> set l \<and> CHR ''#'' \<notin> set l"

definition filter_wf :: "string \<Rightarrow> bool" where
  "filter_wf flt \<longleftrightarrow> flt \<noteq> [] \<and> list_all level_wf (butlast (split_levels flt)) \<and>
     (last (split_levels flt) = ''#'' \<or> level_wf (last (split_levels flt)))"

text \<open>One level of a filter against one level of a topic.\<close>

definition level_ok :: "string \<Rightarrow> string \<Rightarrow> bool" where
  "level_ok l x \<longleftrightarrow> l = ''+'' \<or> l = x"

text \<open>
  Sections 4.7.1 and 4.7.2: without a multi-level wildcard the levels match one by one; a final \<open>#\<close> stands
  for any number of further levels, the parent itself included; and a filter that starts with a wildcard
  does not match a topic that starts with a dollar sign.
\<close>

definition starts_wild :: "string \<Rightarrow> bool" where
  "starts_wild flt \<longleftrightarrow> hd (split_levels flt) \<in> {''+'', ''#''}"

definition dollar_topic :: "string \<Rightarrow> bool" where
  "dollar_topic topic \<longleftrightarrow> take 1 topic = ''$''"

definition levels_match :: "string list \<Rightarrow> string list \<Rightarrow> bool" where
  "levels_match f t \<longleftrightarrow> (if last f = ''#''
     then length (butlast f) \<le> length t \<and> list_all2 level_ok (butlast f) (take (length (butlast f)) t)
     else list_all2 level_ok f t)"

definition mqtt_matches :: "string \<Rightarrow> string \<Rightarrow> bool" where
  "mqtt_matches flt topic \<longleftrightarrow> \<not> (dollar_topic topic \<and> starts_wild flt) \<and>
     levels_match (split_levels flt) (split_levels topic)"

lemma level_wf_hash: "level_wf l \<Longrightarrow> l \<noteq> ''#''"
  by (auto simp: level_wf_def)

lemma match_levels_plain:
  "\<forall>l \<in> set f. l \<noteq> ''#'' \<Longrightarrow> match_levels f t \<longleftrightarrow> list_all2 level_ok f t"
  by (induction f t rule: match_levels.induct) (auto simp: level_ok_def list_all2_Cons1 split: list.splits)

lemma match_levels_hash:
  "\<forall>l \<in> set f. l \<noteq> ''#'' \<Longrightarrow> match_levels (f @ [''#'']) t \<longleftrightarrow>
     length f \<le> length t \<and> list_all2 level_ok f (take (length f) t)"
proof (induction f arbitrary: t)
  case (Cons l f)
  then show ?case by (cases t) (auto simp: level_ok_def)
qed simp

lemma match_levels_wf:
  assumes "f \<noteq> []" "\<forall>l \<in> set (butlast f). l \<noteq> ''#''"
  shows "match_levels f t \<longleftrightarrow> levels_match f t"
proof (cases "last f = ''#''")
  case True
  then show ?thesis
    using match_levels_hash [OF assms(2), of t] append_butlast_last_id [OF assms(1)] by (simp add: levels_match_def)
next
  case False
  have "\<forall>l \<in> set f. l \<noteq> ''#''"
    using assms(2) False append_butlast_last_id [OF assms(1)] by (metis Un_iff empty_iff insert_iff list.set set_append)
  then show ?thesis using False match_levels_plain by (simp add: levels_match_def)
qed

lemma match_levels_refl: "match_levels t t"
  by (induction t) auto

lemma match_levels_hash_append: "match_levels f t \<Longrightarrow> match_levels (f @ ''#'' # g) (t @ u)"
  by (induction f t rule: match_levels.induct) (auto split: list.splits if_splits)

lemma match_levels_literal:
  "\<forall>l \<in> set f. l \<noteq> ''#'' \<and> l \<noteq> ''+'' \<Longrightarrow> match_levels f t \<longleftrightarrow> f = t"
  by (induction f t rule: match_levels.induct) (auto split: list.splits)

lemma topic_name_has_wildcard_iff:
  "topic_name_has_wildcard s \<longleftrightarrow> CHR ''+'' \<in> set s \<or> CHR ''#'' \<in> set s"
  by (simp add: topic_name_has_wildcard_def find_char_None_iff)

lemma set_split_levels_subset: "l \<in> set (split_levels s) \<Longrightarrow> set l \<subseteq> set s"
proof (induction s rule: split_levels.induct)
  case (1 s)
  show ?case
  proof (cases "find_char (CHR ''/'') s")
    case None
    with 1 show ?thesis by (subst (asm) (2) split_levels.simps) simp
  next
    case (Some p)
    with 1 show ?thesis
      by (subst (asm) (2) split_levels.simps) (auto dest!: in_set_takeD, meson in_set_dropD subsetD)
  qed
qed

lemma levels_no_wildcard:
  assumes "\<not> topic_name_has_wildcard s"
  shows "\<forall>l \<in> set (split_levels s). l \<noteq> ''#'' \<and> l \<noteq> ''+''"
  using assms by (fastforce simp: topic_name_has_wildcard_iff dest: set_split_levels_subset)

section \<open>Shared subscriptions\<close>

record SharedSubscription =
  ss_group :: string
  ss_filter :: string

definition share_prefix :: string where
  "share_prefix = ''$share/''"

definition parse_shared_subscription :: "string \<Rightarrow> SharedSubscription option" where
  "parse_shared_subscription raw_filter =
     (if take (length share_prefix) raw_filter \<noteq> share_prefix then None
      else
        let rest = drop (length share_prefix) raw_filter in
        case find_char (CHR ''/'') rest of
          None \<Rightarrow> None
        | Some slash \<Rightarrow>
            let group = take slash rest; flt = drop (slash + 1) rest in
            if group = [] \<or> flt = [] then None
            else if find_char (CHR ''+'') group \<noteq> None \<or> find_char (CHR ''#'') group \<noteq> None
                  \<or> find_char (CHR ''/'') group \<noteq> None then None
            else Some \<lparr>ss_group = group, ss_filter = flt\<rparr>)"

definition share_name_ok :: "string \<Rightarrow> bool" where
  "share_name_ok g \<longleftrightarrow> g \<noteq> [] \<and> CHR ''/'' \<notin> set g \<and> CHR ''+'' \<notin> set g \<and> CHR ''#'' \<notin> set g"

lemma parse_shared_subscription_complete:
  assumes "share_name_ok g" and "f \<noteq> []"
  shows "parse_shared_subscription (share_prefix @ g @ CHR ''/'' # f)
           = Some \<lparr>ss_group = g, ss_filter = f\<rparr>"
proof -
  have "find_char (CHR ''/'') (g @ CHR ''/'' # f) = Some (length g)"
    using assms(1) by (simp add: share_name_ok_def find_char_append_Cons)
  with assms show ?thesis
    by (simp add: parse_shared_subscription_def share_name_ok_def find_char_None_iff Let_def)
qed

lemma parse_shared_subscription_sound:
  assumes "parse_shared_subscription raw = Some ss"
  shows "raw = share_prefix @ ss_group ss @ CHR ''/'' # ss_filter ss
         \<and> share_name_ok (ss_group ss) \<and> ss_filter ss \<noteq> []"
proof -
  let ?rest = "drop (length share_prefix) raw"
  from assms have pre: "take (length share_prefix) raw = share_prefix"
    by (simp add: parse_shared_subscription_def split: if_splits)
  from assms pre obtain p where p: "find_char (CHR ''/'') ?rest = Some p"
    by (auto simp: parse_shared_subscription_def Let_def split: option.splits)
  with assms pre have ss: "ss = \<lparr>ss_group = take p ?rest, ss_filter = drop (p + 1) ?rest\<rparr>"
    and ok: "take p ?rest \<noteq> []" "drop (p + 1) ?rest \<noteq> []"
      "find_char (CHR ''+'') (take p ?rest) = None" "find_char (CHR ''#'') (take p ?rest) = None"
      "find_char (CHR ''/'') (take p ?rest) = None"
    by (auto simp: parse_shared_subscription_def Let_def split: if_splits)
  have "raw = share_prefix @ ?rest"
    by (metis append_take_drop_id pre)
  also have "?rest = take p ?rest @ CHR ''/'' # drop (p + 1) ?rest"
    using find_char_split [OF p] by simp
  finally show ?thesis
    using ss ok by (simp add: share_name_ok_def find_char_None_iff)
qed

section \<open>Properties\<close>

text \<open>
  C32: For every filter the standard allows, \<open>topic_matches\<close> is the wildcard semantics of sections 4.7.1
  and 4.7.2 of MQTT 3.1.1, except that the dollar sign is not special: when a filter that starts with a
  wildcard meets a topic that starts with a dollar sign, it decides by the levels alone, where the standard
  says there is no match.
\<close>

theorem topic_matches_spec:
  assumes "filter_wf flt"
  shows "if dollar_topic topic \<and> starts_wild flt
    then topic_matches flt topic = levels_match (split_levels flt) (split_levels topic) \<and> \<not> mqtt_matches flt topic
    else topic_matches flt topic = mqtt_matches flt topic"
proof -
  have "\<forall>l \<in> set (butlast (split_levels flt)). l \<noteq> ''#''"
    using assms level_wf_hash by (auto simp: filter_wf_def list_all_iff)
  from match_levels_wf [OF split_levels_not_Nil this] show ?thesis
    by (auto simp: topic_matches_def mqtt_matches_def)
qed

theorem topic_matches_spec_witness:
  "topic_matches ''a/+/#'' ''a/b'' \<and> \<not> topic_matches ''a/+/#'' ''a''"
proof -
  have f: "split_levels ''a/+/#'' = [''a'', ''+'', ''#'']"
    using split_join_levels [of "[''a'', ''+'', ''#'']"] by simp
  have t: "split_levels ''a/b'' = [''a'', ''b'']" "split_levels ''a'' = [''a'']"
    using split_join_levels [of "[''a'', ''b'']"] split_join_levels [of "[''a'']"] by simp_all
  have "filter_wf ''a/+/#''" by (simp add: filter_wf_def f level_wf_def)
  from topic_matches_spec [OF this, of "''a/b''"] topic_matches_spec [OF this, of "''a''"] show ?thesis
    by (simp add: dollar_topic_def mqtt_matches_def starts_wild_def f t levels_match_def level_ok_def)
qed

text \<open>
  A filter with no wildcard character subscribes to exactly one topic, itself; the split into
  levels loses nothing.
\<close>

theorem topic_matches_literal:
  assumes "\<not> topic_name_has_wildcard flt"
  shows "topic_matches flt topic \<longleftrightarrow> flt = topic"
  using match_levels_literal [OF levels_no_wildcard [OF assms]]
  by (simp add: topic_matches_def split_levels_inject)

theorem topic_matches_literal_witness:
  "\<not> topic_name_has_wildcard ''plant/line1'' \<and> topic_matches ''plant/line1'' ''plant/line1''
   \<and> \<not> topic_matches ''plant/line1'' ''plant/line2''"
proof -
  have h: "\<not> topic_name_has_wildcard ''plant/line1''"
    by (simp add: topic_name_has_wildcard_def)
  show ?thesis
    using h topic_matches_literal [OF h, of "''plant/line1''"]
      topic_matches_literal [OF h, of "''plant/line2''"] by simp
qed

text \<open>
  \<open>parse_shared_subscription\<close> accepts exactly the strings \<open>$share/<group>/<filter>\<close> with a
  group free of slash, plus and hash and a non-empty filter, and returns these two parts.
\<close>

theorem parse_shared_subscription_iff:
  "parse_shared_subscription raw = Some ss \<longleftrightarrow>
     raw = share_prefix @ ss_group ss @ CHR ''/'' # ss_filter ss
     \<and> share_name_ok (ss_group ss) \<and> ss_filter ss \<noteq> []"
proof
  assume "parse_shared_subscription raw = Some ss"
  then show "raw = share_prefix @ ss_group ss @ CHR ''/'' # ss_filter ss
     \<and> share_name_ok (ss_group ss) \<and> ss_filter ss \<noteq> []"
    by (rule parse_shared_subscription_sound)
next
  assume "raw = share_prefix @ ss_group ss @ CHR ''/'' # ss_filter ss
     \<and> share_name_ok (ss_group ss) \<and> ss_filter ss \<noteq> []"
  then show "parse_shared_subscription raw = Some ss"
    using parse_shared_subscription_complete [of "ss_group ss" "ss_filter ss"] by simp
qed

end
