(* ===== verification/Acl.thy ===== *)
theory Acl
  imports Topic_Match
begin

text \<open>
  \<open>include/aero/broker/acl.hpp\<close>: the broker's per-topic authorization seam. The virtual
  interface \<open>Authorizer\<close> is a predicate; the class \<open>TopicAclAuthorizer\<close> is an ordered rule
  list where the first matching rule wins, with an explicit default posture.
\<close>

section \<open>Data and operations\<close>

datatype AclAction = Publish | Subscribe

type_synonym authorizer = "string \<Rightarrow> string \<Rightarrow> AclAction \<Rightarrow> bool"

definition AllowAllAuthorizer :: authorizer where
  "AllowAllAuthorizer prin topic action = True"

definition DenyAllAuthorizer :: authorizer where
  "DenyAllAuthorizer prin topic action = False"

datatype AclDefault = Closed | Open

record Rule =
  principal_pattern :: string
  topic_filter :: string
  rule_action :: AclAction
  any_action :: bool
  rule_allow :: bool

record TopicAclAuthorizer =
  rules :: "Rule list"
  default_posture :: AclDefault

definition new_acl :: "AclDefault \<Rightarrow> TopicAclAuthorizer" where
  "new_acl d = \<lparr>rules = [], default_posture = d\<rparr>"

definition add_rule ::
  "string \<Rightarrow> string \<Rightarrow> AclAction \<Rightarrow> bool \<Rightarrow> TopicAclAuthorizer \<Rightarrow> TopicAclAuthorizer" where
  "add_rule pat flt action verdict a =
     a\<lparr>rules := rules a @ [\<lparr>principal_pattern = pat, topic_filter = flt, rule_action = action,
                             any_action = False, rule_allow = verdict\<rparr>]\<rparr>"

definition add_rule_any_action ::
  "string \<Rightarrow> string \<Rightarrow> bool \<Rightarrow> TopicAclAuthorizer \<Rightarrow> TopicAclAuthorizer" where
  "add_rule_any_action pat flt verdict a =
     a\<lparr>rules := rules a @ [\<lparr>principal_pattern = pat, topic_filter = flt, rule_action = Publish,
                             any_action = True, rule_allow = verdict\<rparr>]\<rparr>"

text \<open>The loop of \<open>allow\<close>: the three \<open>continue\<close> tests, then the verdict of the first survivor.\<close>

fun allow_scan :: "Rule list \<Rightarrow> AclDefault \<Rightarrow> string \<Rightarrow> string \<Rightarrow> AclAction \<Rightarrow> bool" where
  "allow_scan [] d prin topic action = (d = Open)"
| "allow_scan (r # rs) d prin topic action =
     (if \<not> any_action r \<and> rule_action r \<noteq> action then allow_scan rs d prin topic action
      else if principal_pattern r \<noteq> ''*'' \<and> principal_pattern r \<noteq> prin
        then allow_scan rs d prin topic action
      else if \<not> topic_matches (topic_filter r) topic then allow_scan rs d prin topic action
      else rule_allow r)"

definition allow :: "TopicAclAuthorizer \<Rightarrow> authorizer" where
  "allow a prin topic action = allow_scan (rules a) (default_posture a) prin topic action"

section \<open>The decision as a specification\<close>

definition rule_applies :: "string \<Rightarrow> string \<Rightarrow> AclAction \<Rightarrow> Rule \<Rightarrow> bool" where
  "rule_applies prin topic action r \<longleftrightarrow>
     (any_action r \<or> rule_action r = action) \<and>
     (principal_pattern r = ''*'' \<or> principal_pattern r = prin) \<and>
     topic_matches (topic_filter r) topic"

lemma allow_scan_find:
  "allow_scan rs d p t act =
     (case find (rule_applies p t act) rs of None \<Rightarrow> d = Open | Some r \<Rightarrow> rule_allow r)"
  by (induction rs) (auto simp: rule_applies_def)

lemma find_append:
  "find P (xs @ ys) = (case find P xs of None \<Rightarrow> find P ys | Some x \<Rightarrow> Some x)"
  by (induction xs) auto

lemma rules_add_rule_any_action:
  "rules (add_rule_any_action pat flt v a) =
     rules a @ [\<lparr>principal_pattern = pat, topic_filter = flt, rule_action = Publish,
                 any_action = True, rule_allow = v\<rparr>]"
  and default_add_rule_any_action: "default_posture (add_rule_any_action pat flt v a) = default_posture a"
  by (simp_all add: add_rule_any_action_def)

section \<open>Interface: the authorization seam\<close>

text \<open>
  What a client of the seam may build on: a setup step appends to the policy, and appending never
  changes an answer an earlier rule already gave.
\<close>

locale ordered_policy =
  fixes decided :: "'p \<Rightarrow> 'q \<Rightarrow> bool option"
    and answer :: "'p \<Rightarrow> 'q \<Rightarrow> bool"
    and extend :: "'r \<Rightarrow> 'p \<Rightarrow> 'p"
  assumes decided_answer: "decided p q = Some v \<Longrightarrow> answer p q = v"
    and decided_extend: "decided p q = Some v \<Longrightarrow> decided (extend r p) q = Some v"
begin

lemma decided_fold: "decided p q = Some v \<Longrightarrow> decided (fold extend rs p) q = Some v"
  by (induction rs arbitrary: p) (auto simp: decided_extend)

lemma answer_fold_stable: "decided p q = Some v \<Longrightarrow> answer (fold extend rs p) q = v"
  by (rule decided_answer) (rule decided_fold)

end

definition acl_decided :: "TopicAclAuthorizer \<Rightarrow> string \<times> string \<times> AclAction \<Rightarrow> bool option" where
  "acl_decided a q =
     (case q of (p, t, act) \<Rightarrow> map_option rule_allow (find (rule_applies p t act) (rules a)))"

definition acl_answer :: "TopicAclAuthorizer \<Rightarrow> string \<times> string \<times> AclAction \<Rightarrow> bool" where
  "acl_answer a q = (case q of (p, t, act) \<Rightarrow> allow a p t act)"

text \<open>A configuration step: one of the two \<open>add_rule\<close> calls.\<close>

datatype acl_call =
    AddRule string string AclAction bool
  | AddRuleAnyAction string string bool

fun acl_configure :: "acl_call \<Rightarrow> TopicAclAuthorizer \<Rightarrow> TopicAclAuthorizer" where
  "acl_configure (AddRule pat flt act v) a = add_rule pat flt act v a"
| "acl_configure (AddRuleAnyAction pat flt v) a = add_rule_any_action pat flt v a"

lemma acl_configure_appends: "\<exists>r. rules (acl_configure c a) = rules a @ [r]"
  by (cases c) (auto simp: add_rule_def add_rule_any_action_def)

interpretation topic_acl: ordered_policy acl_decided acl_answer acl_configure
proof unfold_locales
  fix a :: TopicAclAuthorizer and q v
  assume "acl_decided a q = Some v"
  then show "acl_answer a q = v"
    by (auto simp: acl_decided_def acl_answer_def allow_def allow_scan_find split: prod.splits)
next
  fix a :: TopicAclAuthorizer and q v c
  assume d: "acl_decided a q = Some v"
  obtain r where "rules (acl_configure c a) = rules a @ [r]"
    using acl_configure_appends by blast
  with d show "acl_decided (acl_configure c a) q = Some v"
    by (auto simp: acl_decided_def find_append split: prod.splits option.splits)
qed

section \<open>Properties\<close>

text \<open>
  \<open>TopicAclAuthorizer::allow\<close> returns the verdict of the first rule, in registration order,
  whose action, principal pattern and topic filter all apply, and the default posture when none
  does.
\<close>

theorem allow_first_match:
  "allow a prin topic action =
     (case find (rule_applies prin topic action) (rules a) of
        None \<Rightarrow> default_posture a = Open
      | Some r \<Rightarrow> rule_allow r)"
  by (simp add: allow_def allow_scan_find)

text \<open>
  A decision an existing rule has taken is final: no sequence of later \<open>add_rule\<close> and
  \<open>add_rule_any_action\<close> calls changes it.
\<close>

theorem allow_stable_under_configuration:
  assumes "find (rule_applies prin topic action) (rules a) = Some r"
  shows "allow (fold acl_configure calls a) prin topic action = rule_allow r"
proof -
  have "acl_decided a (prin, topic, action) = Some (rule_allow r)"
    using assms by (simp add: acl_decided_def)
  then have "acl_answer (fold acl_configure calls a) (prin, topic, action) = rule_allow r"
    by (rule topic_acl.answer_fold_stable)
  then show ?thesis by (simp add: acl_answer_def)
qed

theorem allow_stable_under_configuration_witness:
  "allow (fold acl_configure [AddRuleAnyAction ''*'' ''#'' True]
     (add_rule ''op'' ''secret'' Subscribe False (new_acl Closed)))
     ''op'' ''secret'' Subscribe = False"
proof -
  let ?a = "add_rule ''op'' ''secret'' Subscribe False (new_acl Closed)"
  let ?r = "\<lparr>principal_pattern = ''op'', topic_filter = ''secret'', rule_action = Subscribe,
             any_action = False, rule_allow = False\<rparr>"
  have "find (rule_applies ''op'' ''secret'' Subscribe) (rules ?a) = Some ?r"
    by (simp add: add_rule_def new_acl_def rule_applies_def topic_matches_def match_levels_refl)
  from allow_stable_under_configuration [OF this, of "[AddRuleAnyAction ''*'' ''#'' True]"]
  show ?thesis by simp
qed

text \<open>
  A rule whose filter has a \<open>#\<close> that is not its last level is live, not inert: it decides for
  every topic below the levels before the \<open>#\<close>, whatever stands after it. (The comment on
  \<open>add_rule\<close> says such a filter never matches anything.)
\<close>

theorem mid_hash_rule_applies:
  assumes "\<forall>l \<in> set pre. CHR ''/'' \<notin> set l" and "\<forall>l \<in> set post. CHR ''/'' \<notin> set l"
    and "\<forall>l \<in> set tail. CHR ''/'' \<notin> set l" and "pre \<noteq> []"
  shows "allow (add_rule_any_action ''*'' (join_levels (pre @ ''#'' # post)) verdict (new_acl d))
           prin (join_levels (pre @ tail)) action = verdict"
proof -
  have "topic_matches (join_levels (pre @ ''#'' # post)) (join_levels (pre @ tail))"
    using assms match_levels_hash_append [OF match_levels_refl, of pre post tail]
    by (simp add: topic_matches_def split_join_levels ball_Un)
  then show ?thesis
    by (simp add: allow_def rules_add_rule_any_action default_add_rule_any_action new_acl_def)
qed

theorem mid_hash_rule_applies_witness:
  "allow (add_rule_any_action ''*'' ''a/#/b'' True (new_acl Closed)) ''eve'' ''a/c'' Subscribe"
proof -
  have "allow (add_rule_any_action ''*'' (join_levels ([''a''] @ ''#'' # [''b''])) True (new_acl Closed))
     ''eve'' (join_levels ([''a''] @ [''c''])) Subscribe = True"
    by (rule mid_hash_rule_applies) auto
  then show ?thesis by simp
qed

end
