(* ===== verification/Mqtt_Codec.thy ===== *)
theory Mqtt_Codec
  imports Aero_Prelude
begin

text \<open>
  \<open>include/aero/transport/mqtt_codec.hpp\<close>: the MQTT wire codec shared by the broker and the
  client transport. Byte helpers, the variable byte integer, the fixed-header framing
  (\<open>serialize_packet\<close>, \<open>try_parse_packet\<close>) and the MQTT 5 property blocks
  (\<open>read_properties\<close>, \<open>PropertyWriter\<close>). Readers take the buffer and a position and return
  the value with the new position; \<open>std::nullopt\<close> is \<open>None\<close>.
\<close>

section \<open>Byte helpers\<close>

definition put_u16_be :: "byte list \<Rightarrow> u16 \<Rightarrow> byte list" where
  "put_u16_be out v = out @ be_bytes 2 v"

definition put_u64_be :: "byte list \<Rightarrow> u64 \<Rightarrow> byte list" where
  "put_u64_be out v = out @ be_bytes 8 v"

definition put_str :: "byte list \<Rightarrow> string \<Rightarrow> byte list" where
  "put_str out s = put_u16_be out (of_nat (length s)) @ bytes_of_string s"

text \<open>The \<open>do ... while (len > 0)\<close> loop of \<open>put_remaining_length\<close>.\<close>

function put_remaining_length :: "byte list \<Rightarrow> u32 \<Rightarrow> byte list" where
  "put_remaining_length out len =
     (let enc = (ucast (len mod 128) :: u8);
          len' = len div 128;
          enc' = (if 0 < len' then enc OR 0x80 else enc)
      in if 0 < len' then put_remaining_length (out @ [enc']) len' else out @ [enc'])"
  by pat_completeness auto
termination
proof (relation "measure (\<lambda>(out, len). unat len)")
  show "wf (measure (\<lambda>(out :: byte list, len :: u32). unat len))" by simp
next
  fix out :: "byte list" and len x x' x'' :: u32 and e e' :: u8
  assume eq: "x' = len div 128" and pos: "0 < x'"
  have "unat len div 128 < unat len"
    using pos eq by (cases "unat len = 0") (auto simp: word_less_nat_alt unat_div)
  then show "((out @ [e'], x'), out, len) \<in> measure (\<lambda>(out, len). unat len)"
    using eq by (simp add: unat_div)
qed

declare put_remaining_length.simps [simp del]

record Packet =
  type_flags :: u8
  body :: "byte list"

section \<open>Variable byte integers\<close>

fun read_varint_loop :: "nat \<Rightarrow> byte list \<Rightarrow> nat \<Rightarrow> u32 \<Rightarrow> u32 \<Rightarrow> (u32 \<times> nat) option" where
  "read_varint_loop 0 bs pos mult value = None"
| "read_varint_loop (Suc i) bs pos mult value =
     (if pos \<ge> length bs then None
      else
        let e = bs ! pos;
            value' = value + ucast (e AND 0x7F) * mult
        in if e AND 0x80 = 0 then Some (value', pos + 1)
           else read_varint_loop i bs (pos + 1) (mult * 128) value')"

definition read_varint :: "byte list \<Rightarrow> nat \<Rightarrow> (u32 \<times> nat) option" where
  "read_varint bs pos = read_varint_loop 4 bs pos 1 0"

lemma read_varint_one:
  assumes "pos < length bs" and "bs ! pos AND 0x80 = 0"
  shows "read_varint bs pos = Some (ucast (bs ! pos AND 0x7F), pos + 1)"
proof -
  have four: "(4::nat) = Suc 3" by simp
  show ?thesis
    using assms by (simp only: read_varint_def four read_varint_loop.simps Let_def) simp
qed

lemma read_varint_loop_pos:
  "read_varint_loop n bs pos m v = Some (r, p) \<Longrightarrow> pos < p \<and> p \<le> length bs \<and> p \<le> pos + n"
  by (induction n bs pos m v rule: read_varint_loop.induct)
     (fastforce simp: Let_def split: if_splits)+

lemma read_varint_pos:
  "read_varint bs pos = Some (r, p) \<Longrightarrow> pos < p \<and> p \<le> length bs \<and> p \<le> pos + 4"
  unfolding read_varint_def by (rule read_varint_loop_pos)

subsection \<open>Bits of one length byte\<close>

lemma and_127: "x AND 0x7F = take_bit 7 (x :: byte)"
proof -
  have "(0x7F :: byte) = mask 7"
    by (simp add: mask_eq_exp_minus_1)
  then show ?thesis by (simp only: take_bit_eq_mask)
qed

lemma seven_bits:
  fixes len :: u32
  defines "x \<equiv> (ucast (len mod 128) :: byte)"
  shows "x AND 0x7F = x" and "x AND 0x80 = 0" and "(x OR 0x80) AND 0x80 \<noteq> 0"
    and "(x OR 0x80) AND 0x7F = x" and "(ucast x :: u32) = len mod 128"
proof -
  have m: "len mod 128 = take_bit 7 len"
    by (simp add: take_bit_eq_mod)
  show 1: "x AND 0x7F = x"
    unfolding and_127 x_def m by (rule bit_word_eqI) (auto simp: bit_simps)
  have "x AND 0x80 = (x AND 0x7F) AND 0x80"
    by (simp only: 1)
  also have "\<dots> = x AND (0x7F AND 0x80)"
    by (simp only: and.assoc)
  finally show 2: "x AND 0x80 = 0" by simp
  show "(x OR 0x80) AND 0x80 \<noteq> 0"
    by (simp only: bit.conj_disj_distrib2 2) simp
  show "(x OR 0x80) AND 0x7F = x"
    by (simp only: bit.conj_disj_distrib2 1) simp
  show "(ucast x :: u32) = len mod 128"
    unfolding x_def m by (rule bit_word_eqI) (auto simp: bit_simps)
qed

subsection \<open>Round trip\<close>

lemma put_remaining_length_append:
  "put_remaining_length out len = out @ put_remaining_length [] len"
proof (induction "unat len" arbitrary: out len rule: less_induct)
  case less
  show ?case
  proof (cases "0 < len div 128")
    case True
    have "unat (len div 128) < unat len"
      using True by (cases "unat len = 0") (auto simp: word_less_nat_alt unat_div)
    then have IH: "\<And>out. put_remaining_length out (len div 128)
        = out @ put_remaining_length [] (len div 128)"
      by (rule less)
    show ?thesis
      using True IH [of "out @ [ucast (len mod 128) OR 0x80]"] IH [of "[ucast (len mod 128) OR 0x80]"]
      by (simp add: put_remaining_length.simps [of out len] put_remaining_length.simps [of "[]" len] Let_def)
  next
    case False
    then show ?thesis
      by (simp add: put_remaining_length.simps [of out len] put_remaining_length.simps [of "[]" len])
  qed
qed

text \<open>The bytes of a length, most convenient form for proofs.\<close>

abbreviation varint :: "u32 \<Rightarrow> byte list" where
  "varint len \<equiv> put_remaining_length [] len"

lemma varint_small: "len div 128 = 0 \<Longrightarrow> varint len = [ucast (len mod 128)]"
  by (simp add: put_remaining_length.simps [of "[]" len])

lemma varint_big:
  "len div 128 \<noteq> 0 \<Longrightarrow> varint len = (ucast (len mod 128) OR 0x80) # varint (len div 128)"
  by (simp add: put_remaining_length.simps [of "[]" len] word_greater_zero_iff
      put_remaining_length_append [of "[ucast (len mod 128) OR 0x80]"])

lemma varint_not_Nil [simp]: "varint len \<noteq> []"
  by (cases "len div 128 = 0") (simp_all add: varint_small varint_big)

lemma length_varint_pos [simp]: "0 < length (varint len)"
  by simp

lemma div128_bound: "unat len < 128 ^ Suc n \<Longrightarrow> unat (len div 128 :: u32) < 128 ^ n"
  by (simp add: unat_div less_mult_imp_div_less mult.commute)

lemma length_varint: "unat len < 128 ^ Suc n \<Longrightarrow> length (varint len) \<le> Suc n"
proof (induction n arbitrary: len)
  case 0
  then have "len div 128 = 0" by (simp add: unat_eq_zero [symmetric] unat_div)
  then show ?case by (simp add: varint_small)
next
  case (Suc n)
  show ?case
  proof (cases "len div 128 = 0")
    case True
    then show ?thesis by (simp add: varint_small)
  next
    case False
    then show ?thesis using Suc.IH [OF div128_bound [OF Suc.prems]] by (simp add: varint_big)
  qed
qed

lemma read_varint_loop_last:
  assumes "len div 128 = 0"
  shows "read_varint_loop (Suc n) (pre @ varint len @ suf) (length pre) mult val
           = Some (val + mult * len, length pre + length (varint len))"
proof -
  have "len mod 128 = len"
    using assms div_mult_mod_eq [of len 128] by simp
  then show ?thesis
    using assms seven_bits [of len] by (simp add: varint_small Let_def mult.commute)
qed

lemma read_varint_loop_more:
  assumes "len div 128 \<noteq> 0"
  shows "read_varint_loop (Suc n) (pre @ varint len @ suf) (length pre) mult val
           = read_varint_loop n ((pre @ [ucast (len mod 128) OR 0x80]) @ varint (len div 128) @ suf)
               (Suc (length pre)) (mult * 128) (val + (len mod 128) * mult)"
  using assms seven_bits [of len] by (simp add: varint_big Let_def)

lemma read_varint_loop_varint:
  assumes "unat len < 128 ^ Suc n"
  shows "read_varint_loop (Suc n) (pre @ varint len @ suf) (length pre) mult val
           = Some (val + mult * len, length pre + length (varint len))"
  using assms
proof (induction n arbitrary: len pre mult val)
  case 0
  then have "len div 128 = 0" by (simp add: unat_eq_zero [symmetric] unat_div)
  then show ?case by (rule read_varint_loop_last)
next
  case (Suc n)
  show ?case
  proof (cases "len div 128 = 0")
    case True
    then show ?thesis by (rule read_varint_loop_last)
  next
    case False
    let ?e = "(ucast (len mod 128) :: byte) OR 0x80"
    have "(len mod 128) * mult + mult * 128 * (len div 128) = mult * (len div 128 * 128 + len mod 128)"
      by (simp add: algebra_simps)
    then have v: "(len mod 128) * mult + mult * 128 * (len div 128) = mult * len"
      by (simp only: div_mult_mod_eq)
    have "read_varint_loop (Suc n) ((pre @ [?e]) @ varint (len div 128) @ suf) (length (pre @ [?e]))
            (mult * 128) (val + (len mod 128) * mult)
          = Some (val + (len mod 128) * mult + mult * 128 * (len div 128),
                  length (pre @ [?e]) + length (varint (len div 128)))"
      by (rule Suc.IH) (rule div128_bound [OF Suc.prems])
    then show ?thesis
      unfolding read_varint_loop_more [OF False]
      using v by (simp add: varint_big [OF False] add.assoc del: read_varint_loop.simps)
  qed
qed

lemma read_varint_varint:
  assumes "unat len < 128 ^ 4"
  shows "read_varint (pre @ varint len @ suf) (length pre) = Some (len, length pre + length (varint len))"
proof -
  have "(4::nat) = Suc 3" by simp
  then show ?thesis
    unfolding read_varint_def using read_varint_loop_varint [of len 3 pre suf 1 0] assms
    by (simp only: mult_1_left add_0_left)
qed

section \<open>Fixed-header framing\<close>

datatype ParseStatus = Incomplete | Malformed

text \<open>
  The remaining-length loop of \<open>try_parse_packet\<close>: at most four bytes; running out of buffer is
  \<open>Incomplete\<close>, a fourth byte with its continuation bit set is \<open>Malformed\<close>.
\<close>

fun parse_length_loop ::
  "nat \<Rightarrow> byte list \<Rightarrow> nat \<Rightarrow> u32 \<Rightarrow> u32 \<Rightarrow> ParseStatus + (u32 \<times> nat)" where
  "parse_length_loop 0 buf p mult len = Inl Malformed"
| "parse_length_loop (Suc i) buf p mult len =
     (if p \<ge> length buf then Inl Incomplete
      else
        let e = buf ! p;
            len' = len + ucast (e AND 0x7F) * mult
        in if e AND 0x80 = 0 then Inr (len', p + 1)
           else parse_length_loop i buf (p + 1) (mult * 128) len')"

definition try_parse_packet :: "byte list \<Rightarrow> nat \<Rightarrow> ParseStatus + (Packet \<times> nat)" where
  "try_parse_packet buf pos =
     (if pos \<ge> length buf then Inl Incomplete
      else
        case parse_length_loop 4 buf (pos + 1) 1 0 of
          Inl e \<Rightarrow> Inl e
        | Inr (len, p) \<Rightarrow>
            if length buf - p < unat len then Inl Incomplete
            else Inr (\<lparr>type_flags = buf ! pos, body = take (unat len) (drop p buf)\<rparr>, p + unat len))"

definition serialize_packet :: "u8 \<Rightarrow> byte list \<Rightarrow> byte list" where
  "serialize_packet tf bs = put_remaining_length [tf] (of_nat (length bs)) @ bs"

subsection \<open>The loop against the variable byte integer\<close>

lemma parse_length_loop_read_varint:
  "parse_length_loop n buf p m v = Inr r \<longleftrightarrow> read_varint_loop n buf p m v = Some r"
  by (induction n buf p m v rule: parse_length_loop.induct) (auto simp: Let_def)

lemma parse_length_loop_append:
  "parse_length_loop n buf p m v \<noteq> Inl Incomplete \<Longrightarrow>
   parse_length_loop n (buf @ ext) p m v = parse_length_loop n buf p m v"
  by (induction n buf p m v rule: parse_length_loop.induct) (auto simp: Let_def nth_append)

lemma parse_length_loop_pos:
  "parse_length_loop n buf p m v = Inr (len, p') \<Longrightarrow> p < p' \<and> p' \<le> length buf"
  using read_varint_loop_pos by (fastforce simp: parse_length_loop_read_varint)

lemma parse_length_varint:
  assumes "unat len < 128 ^ 4"
  shows "parse_length_loop 4 (pre @ varint len @ suf) (length pre) 1 0
           = Inr (len, length pre + length (varint len))"
  using read_varint_varint [OF assms, of pre suf]
  by (simp only: parse_length_loop_read_varint read_varint_def)

subsection \<open>Framing round trip\<close>

definition packet_wf :: "Packet \<Rightarrow> bool" where
  "packet_wf p \<longleftrightarrow> length (body p) < 128 ^ 4"

definition packet_bytes :: "Packet \<Rightarrow> byte list" where
  "packet_bytes p = serialize_packet (type_flags p) (body p)"

lemma unat_of_nat_varint: "n < 128 ^ 4 \<Longrightarrow> unat (of_nat n :: u32) = n"
  by (simp add: unat_of_nat)

lemma packet_bytes_eq:
  "packet_bytes p = type_flags p # varint (of_nat (length (body p))) @ body p"
  using put_remaining_length_append [of "[type_flags p]"]
  by (simp add: packet_bytes_def serialize_packet_def)

lemma packet_bytes_not_Nil [simp]: "packet_bytes p \<noteq> []"
  by (simp add: packet_bytes_eq)

lemma try_parse_packet_bytes:
  assumes "packet_wf p"
  shows "try_parse_packet (pre @ packet_bytes p @ suf) (length pre)
           = Inr (p, length pre + length (packet_bytes p))"
proof -
  let ?len = "of_nat (length (body p)) :: u32"
  have len: "unat ?len = length (body p)"
    using assms by (simp add: packet_wf_def unat_of_nat_varint)
  have "parse_length_loop 4 ((pre @ [type_flags p]) @ varint ?len @ (body p @ suf))
          (length (pre @ [type_flags p])) 1 0
        = Inr (?len, length (pre @ [type_flags p]) + length (varint ?len))"
    by (rule parse_length_varint) (use assms len in \<open>simp add: packet_wf_def\<close>)
  then show ?thesis
    using len by (simp add: try_parse_packet_def packet_bytes_eq del: parse_length_loop.simps)
qed

text \<open>More bytes in the buffer never change a packet or a framing error already found.\<close>

lemma try_parse_packet_append:
  assumes "try_parse_packet buf pos \<noteq> Inl Incomplete"
  shows "try_parse_packet (buf @ ext) pos = try_parse_packet buf pos"
proof -
  have pos: "pos < length buf"
    using assms by (auto simp: try_parse_packet_def split: if_splits)
  have ne: "parse_length_loop 4 buf (pos + 1) 1 0 \<noteq> Inl Incomplete"
    using assms pos by (auto simp: try_parse_packet_def simp del: parse_length_loop.simps)
  note same = parse_length_loop_append [OF ne, of ext]
  show ?thesis
  proof (cases "parse_length_loop 4 buf (pos + 1) 1 0")
    case (Inl e)
    then show ?thesis
      using pos same by (simp add: try_parse_packet_def del: parse_length_loop.simps)
  next
    case (Inr r)
    obtain len p where r: "r = (len, p)" by (cases r)
    with Inr have p: "p \<le> length buf" using parse_length_loop_pos by fastforce
    with Inr r assms pos have "unat len \<le> length buf - p"
      by (simp add: try_parse_packet_def del: parse_length_loop.simps split: if_splits)
    then show ?thesis
      using Inr r pos p same
      by (simp add: try_parse_packet_def nth_append del: parse_length_loop.simps)
  qed
qed

lemma try_parse_packet_progress:
  assumes "try_parse_packet buf pos = Inr (p, pos')"
  shows "pos < pos' \<and> pos' \<le> length buf \<and> type_flags p = buf ! pos \<and>
         body p = drop (pos' - length (body p)) (take pos' buf)"
proof -
  have pos: "pos < length buf"
    using assms by (auto simp: try_parse_packet_def split: if_splits)
  then obtain len q where q: "parse_length_loop 4 buf (pos + 1) 1 0 = Inr (len, q)"
    using assms by (auto simp: try_parse_packet_def simp del: parse_length_loop.simps
        split: sum.splits)
  then have "pos + 1 < q" and "q \<le> length buf"
    using parse_length_loop_pos by blast+
  with assms pos q show ?thesis
    by (auto simp: try_parse_packet_def take_drop add.commute simp del: parse_length_loop.simps
        split: if_splits)
qed

text \<open>
  A packet cut anywhere before its end is \<open>Incomplete\<close>: were it decided, adding the missing bytes
  would not change the answer, but the whole packet parses to its own end.
\<close>

lemma try_parse_packet_prefix:
  assumes wf: "packet_wf p" and split: "packet_bytes p = s @ t" and "t \<noteq> []"
  shows "try_parse_packet (pre @ s) (length pre) = Inl Incomplete"
proof (rule ccontr)
  assume "try_parse_packet (pre @ s) (length pre) \<noteq> Inl Incomplete"
  from try_parse_packet_append [OF this, of t] split try_parse_packet_bytes [OF wf, of pre "[]"]
  have "try_parse_packet (pre @ s) (length pre) = Inr (p, length pre + length (packet_bytes p))"
    by simp
  then have "length pre + length (packet_bytes p) \<le> length (pre @ s)"
    using try_parse_packet_progress by blast
  with split \<open>t \<noteq> []\<close> show False by simp
qed

definition carve_packet :: "byte list \<Rightarrow> (Packet \<times> byte list) option" where
  "carve_packet buf =
     (case try_parse_packet buf 0 of Inl e \<Rightarrow> None | Inr (p, pos) \<Rightarrow> Some (p, drop pos buf))"

interpretation mqtt_stream: stream_codec packet_bytes carve_packet packet_wf
proof unfold_locales
  fix p :: Packet and rest
  assume "packet_wf p"
  then have "try_parse_packet (packet_bytes p @ rest) 0 = Inr (p, length (packet_bytes p))"
    using try_parse_packet_bytes [of p "[]" rest] by simp
  then show "carve_packet (packet_bytes p @ rest) = Some (p, rest)"
    by (simp add: carve_packet_def)
qed

subsection \<open>Oversized bodies\<close>

text \<open>
  \<open>put_remaining_length\<close> writes a fifth byte for a length of \<open>128 ^ 4\<close> or more, which no parser
  of the protocol accepts.
\<close>

lemma parse_length_loop_oversized:
  "128 ^ n \<le> unat len \<Longrightarrow>
   parse_length_loop n (pre @ varint len @ suf) (length pre) m v = Inl Malformed"
proof (induction n arbitrary: len pre m v)
  case 0
  then show ?case by simp
next
  case (Suc n)
  have ge: "128 ^ n \<le> unat (len div 128)"
    using Suc.prems by (simp add: unat_div less_eq_div_iff_mult_less_eq mult.commute)
  then have ne: "len div 128 \<noteq> 0"
    using zero_less_power [of "128::nat" n] by (metis le_zero_eq less_numeral_extra(3) unat_0 zero_less_numeral)
  let ?e = "(ucast (len mod 128) :: byte) OR 0x80"
  have "parse_length_loop (Suc n) (pre @ varint len @ suf) (length pre) m v
      = parse_length_loop n ((pre @ [?e]) @ varint (len div 128) @ suf) (length (pre @ [?e]))
          (m * 128) (v + (len mod 128) * m)"
    using seven_bits [of len] by (simp add: varint_big [OF ne] Let_def)
  then show ?case using Suc.IH [OF ge] by (simp only:)
qed

lemma try_parse_oversized:
  assumes "128 ^ 4 \<le> length bs" and "length bs < 2 ^ 32"
  shows "try_parse_packet (serialize_packet tf bs @ suf) 0 = Inl Malformed"
proof -
  let ?len = "of_nat (length bs) :: u32"
  have "unat ?len = length bs"
    using assms by (simp add: unat_of_nat)
  then have "parse_length_loop 4 ([tf] @ varint ?len @ bs @ suf) (length [tf]) 1 0 = Inl Malformed"
    using assms(1) by (intro parse_length_loop_oversized) simp
  then show ?thesis
    using put_remaining_length_append [of "[tf]" ?len]
    by (simp add: try_parse_packet_def serialize_packet_def del: parse_length_loop.simps)
qed

section \<open>Framing\<close>

text \<open>
  A packet may arrive cut anywhere. While any byte of it is missing the parser answers
  \<open>Incomplete\<close> and consumes nothing; once it is whole, whatever was read before it and whatever
  follows, the parser returns exactly that packet and the position after it.
\<close>
theorem framing_cut_anywhere:
  assumes "packet_wf p" and "packet_bytes p = s @ t" and "t \<noteq> []"
  shows "try_parse_packet (pre @ s) (length pre) = Inl Incomplete \<and>
    try_parse_packet (pre @ s @ t @ suf) (length pre) = Inr (p, length pre + length (packet_bytes p))"
  using try_parse_packet_prefix [OF assms] try_parse_packet_bytes [OF assms(1), of pre suf] assms(2) by simp

theorem framing_cut_anywhere_witness:
  "try_parse_packet ([1] @ [0x30, 2, 7]) 1 = Inl Incomplete \<and>
   try_parse_packet ([1] @ [0x30, 2, 7] @ [8] @ [0xC0]) 1 = Inr (\<lparr>type_flags = 0x30, body = [7, 8]\<rparr>, 5)"
proof -
  let ?p = "\<lparr>type_flags = 0x30, body = [7, 8]\<rparr> :: Packet"
  have b: "packet_bytes ?p = [0x30, 2, 7] @ [8]"
    by (simp add: packet_bytes_def serialize_packet_def put_remaining_length.simps Let_def)
  have "packet_wf ?p" by (simp add: packet_wf_def)
  from framing_cut_anywhere [OF this b, of "[1]" "[0xC0]"] b show ?thesis by simp
qed

end
