(* ===== verification/Mqtt_Properties.thy ===== *)
theory Mqtt_Properties
  imports Mqtt_Codec
begin

text \<open>
  The MQTT 5 property blocks of \<open>include/aero/transport/mqtt_codec.hpp\<close>: the wire-type table, the
  reader \<open>read_properties\<close> and the outbound \<open>PropertyWriter\<close>.
\<close>

section \<open>Wire types\<close>

datatype PropWireType =
    PByte | TwoByteInt | FourByteInt | VarInt | Binary | Utf8String | Utf8StringPair

definition property_wire_type :: "u32 \<Rightarrow> PropWireType option" where
  "property_wire_type pid =
     (if pid = 0x01 then Some PByte
      else if pid = 0x02 then Some FourByteInt
      else if pid = 0x03 then Some Utf8String
      else if pid = 0x08 then Some Utf8String
      else if pid = 0x09 then Some Binary
      else if pid = 0x0B then Some VarInt
      else if pid = 0x11 then Some FourByteInt
      else if pid = 0x15 then Some Utf8String
      else if pid = 0x16 then Some Binary
      else if pid = 0x17 then Some PByte
      else if pid = 0x18 then Some FourByteInt
      else if pid = 0x19 then Some PByte
      else if pid = 0x21 then Some TwoByteInt
      else if pid = 0x22 then Some TwoByteInt
      else if pid = 0x23 then Some TwoByteInt
      else if pid = 0x26 then Some Utf8StringPair
      else if pid = 0x27 then Some FourByteInt
      else None)"

record ParsedProperties =
  session_expiry_interval :: "u32 option"
  topic_alias :: "u16 option"
  message_expiry_interval :: "u32 option"
  maximum_packet_size :: "u32 option"
  response_topic :: "string option"
  correlation_data :: "byte list option"
  user_properties :: "(string \<times> string) list"
  topic_alias_maximum :: "u16 option"

definition no_properties :: ParsedProperties where
  "no_properties =
     \<lparr>session_expiry_interval = None, topic_alias = None, message_expiry_interval = None,
      maximum_packet_size = None, response_topic = None, correlation_data = None,
      user_properties = [], topic_alias_maximum = None\<rparr>"

section \<open>The reader\<close>

text \<open>
  The length-prefixed value shared by the \<open>Binary\<close>, \<open>Utf8String\<close> and \<open>Utf8StringPair\<close> cases:
  a two-byte length and that many bytes, all before \<open>end\<close>.
\<close>

definition read_len_prefixed :: "byte list \<Rightarrow> nat \<Rightarrow> nat \<Rightarrow> (byte list \<times> nat) option" where
  "read_len_prefixed bs stop pos =
     (if pos + 2 > stop then None
      else
        let len = unat (be_value [bs ! pos, bs ! (pos + 1)] :: u16); pos' = pos + 2
        in if pos' + len > stop then None else Some (take len (drop pos' bs), pos' + len))"

text \<open>One iteration of the \<open>while (pos < end)\<close> loop.\<close>

definition read_record ::
  "byte list \<Rightarrow> nat \<Rightarrow> nat \<Rightarrow> ParsedProperties \<Rightarrow> (ParsedProperties \<times> nat) option" where
  "read_record bs stop pos0 result =
     (case read_varint bs pos0 of
        None \<Rightarrow> None
      | Some (pid, pos) \<Rightarrow>
          if pos > stop then None
          else case property_wire_type pid of
            None \<Rightarrow> None
          | Some PByte \<Rightarrow> if pos + 1 > stop then None else Some (result, pos + 1)
          | Some TwoByteInt \<Rightarrow>
              if pos + 2 > stop then None
              else
                let v = (be_value [bs ! pos, bs ! (pos + 1)] :: u16) in
                Some (if pid = 0x23 then result\<lparr>topic_alias := Some v\<rparr>
                      else if pid = 0x22 then result\<lparr>topic_alias_maximum := Some v\<rparr>
                      else result, pos + 2)
          | Some FourByteInt \<Rightarrow>
              if pos + 4 > stop then None
              else
                let v = (be_value [bs ! pos, bs ! (pos + 1), bs ! (pos + 2), bs ! (pos + 3)] :: u32) in
                Some (if pid = 0x11 then result\<lparr>session_expiry_interval := Some v\<rparr>
                      else if pid = 0x02 then result\<lparr>message_expiry_interval := Some v\<rparr>
                      else if pid = 0x27 then result\<lparr>maximum_packet_size := Some v\<rparr>
                      else result, pos + 4)
          | Some VarInt \<Rightarrow>
              (case read_varint bs pos of
                 None \<Rightarrow> None
               | Some (v, pos') \<Rightarrow> if pos' > stop then None else Some (result, pos'))
          | Some Utf8StringPair \<Rightarrow>
              (case read_len_prefixed bs stop pos of
                 None \<Rightarrow> None
               | Some (key, pos1) \<Rightarrow>
                   (case read_len_prefixed bs stop pos1 of
                      None \<Rightarrow> None
                    | Some (val, pos2) \<Rightarrow>
                        Some (if pid = 0x26
                              then result\<lparr>user_properties := user_properties result @
                                     [(string_of_bytes key, string_of_bytes val)]\<rparr>
                              else result, pos2)))
          | Some _ \<Rightarrow>
              (case read_len_prefixed bs stop pos of
                 None \<Rightarrow> None
               | Some (v, pos') \<Rightarrow>
                   Some (if pid = 0x08 then result\<lparr>response_topic := Some (string_of_bytes v)\<rparr>
                         else if pid = 0x09 then result\<lparr>correlation_data := Some v\<rparr>
                         else result, pos')))"

lemma read_len_prefixed_pos:
  "read_len_prefixed bs stop pos = Some (v, p) \<Longrightarrow> pos < p \<and> p \<le> stop"
  by (auto simp: read_len_prefixed_def Let_def split: if_splits)

lemma read_record_pos:
  assumes "read_record bs stop pos r = Some (r', p)"
  shows "pos < p \<and> p \<le> stop"
proof -
  obtain pid q where q: "read_varint bs pos = Some (pid, q)"
    using assms by (auto simp: read_record_def split: option.splits)
  then have "pos < q" using read_varint_pos by blast
  with assms q show ?thesis
    by (auto simp: read_record_def Let_def split: option.splits PropWireType.splits if_splits
        dest!: read_varint_pos read_len_prefixed_pos)
qed

function read_records ::
  "byte list \<Rightarrow> nat \<Rightarrow> nat \<Rightarrow> ParsedProperties \<Rightarrow> (ParsedProperties \<times> nat) option" where
  "read_records bs stop pos result =
     (if pos < stop then
        (case read_record bs stop pos result of
           None \<Rightarrow> None
         | Some (result', pos') \<Rightarrow> read_records bs stop pos' result')
      else if pos \<noteq> stop then None
      else Some (result, pos))"
  by pat_completeness auto
termination
  by (relation "measure (\<lambda>(bs, stop, pos, result). stop - pos)") (auto dest!: read_record_pos)

declare read_records.simps [simp del]

definition read_properties :: "byte list \<Rightarrow> nat \<Rightarrow> (ParsedProperties \<times> nat) option" where
  "read_properties bs pos0 =
     (case read_varint bs pos0 of
        None \<Rightarrow> None
      | Some (prop_len, pos) \<Rightarrow>
          if pos + unat prop_len > length bs then None
          else read_records bs (pos + unat prop_len) pos no_properties)"

section \<open>The writer\<close>

definition put_empty_properties :: "byte list \<Rightarrow> byte list" where
  "put_empty_properties out = put_remaining_length out 0"

definition put_topic_alias_max_properties :: "byte list \<Rightarrow> u16 \<Rightarrow> byte list" where
  "put_topic_alias_max_properties out mx =
     (let records = put_u16_be [0x22] mx
      in put_remaining_length out (of_nat (length records)) @ records)"

text \<open>\<open>PropertyWriter\<close>: its only field is the byte vector \<open>records_\<close>.\<close>

record PropertyWriter =
  pw_records :: "byte list"

definition new_PropertyWriter :: PropertyWriter where
  "new_PropertyWriter = \<lparr>pw_records = []\<rparr>"

definition pw_put_u32 :: "PropertyWriter \<Rightarrow> u8 \<Rightarrow> u32 \<Rightarrow> PropertyWriter" where
  "pw_put_u32 w pid v = w\<lparr>pw_records := pw_records w @ [pid] @ be_bytes 4 v\<rparr>"

definition pw_put_u16 :: "PropertyWriter \<Rightarrow> u8 \<Rightarrow> u16 \<Rightarrow> PropertyWriter" where
  "pw_put_u16 w pid v = w\<lparr>pw_records := put_u16_be (pw_records w @ [pid]) v\<rparr>"

definition pw_put_str :: "PropertyWriter \<Rightarrow> u8 \<Rightarrow> string \<Rightarrow> PropertyWriter" where
  "pw_put_str w pid v = w\<lparr>pw_records := put_str (pw_records w @ [pid]) v\<rparr>"

definition pw_put_binary :: "PropertyWriter \<Rightarrow> u8 \<Rightarrow> byte list \<Rightarrow> PropertyWriter" where
  "pw_put_binary w pid v =
     w\<lparr>pw_records := put_u16_be (pw_records w @ [pid]) (of_nat (length v)) @ v\<rparr>"

definition pw_put_str_pair :: "PropertyWriter \<Rightarrow> u8 \<Rightarrow> string \<Rightarrow> string \<Rightarrow> PropertyWriter" where
  "pw_put_str_pair w pid k v = w\<lparr>pw_records := put_str (put_str (pw_records w @ [pid]) k) v\<rparr>"

definition pw_empty :: "PropertyWriter \<Rightarrow> bool" where
  "pw_empty w = (pw_records w = [])"

definition pw_write :: "PropertyWriter \<Rightarrow> byte list \<Rightarrow> byte list" where
  "pw_write w out = put_remaining_length out (of_nat (length (pw_records w))) @ pw_records w"

section \<open>Write then read\<close>

text \<open>One call of a writer method, and what the reader stores for the record it produces.\<close>

datatype OutProp =
    OutU32 u8 u32 | OutU16 u8 u16 | OutStr u8 string | OutBinary u8 "byte list"
  | OutStrPair u8 string string

fun pw_emit :: "PropertyWriter \<Rightarrow> OutProp \<Rightarrow> PropertyWriter" where
  "pw_emit w (OutU32 pid v) = pw_put_u32 w pid v"
| "pw_emit w (OutU16 pid v) = pw_put_u16 w pid v"
| "pw_emit w (OutStr pid v) = pw_put_str w pid v"
| "pw_emit w (OutBinary pid v) = pw_put_binary w pid v"
| "pw_emit w (OutStrPair pid k v) = pw_put_str_pair w pid k v"

fun store_prop :: "ParsedProperties \<Rightarrow> OutProp \<Rightarrow> ParsedProperties" where
  "store_prop r (OutU32 pid v) =
     (if pid = 0x11 then r\<lparr>session_expiry_interval := Some v\<rparr>
      else if pid = 0x02 then r\<lparr>message_expiry_interval := Some v\<rparr>
      else if pid = 0x27 then r\<lparr>maximum_packet_size := Some v\<rparr> else r)"
| "store_prop r (OutU16 pid v) =
     (if pid = 0x23 then r\<lparr>topic_alias := Some v\<rparr>
      else if pid = 0x22 then r\<lparr>topic_alias_maximum := Some v\<rparr> else r)"
| "store_prop r (OutStr pid v) = (if pid = 0x08 then r\<lparr>response_topic := Some v\<rparr> else r)"
| "store_prop r (OutBinary pid v) = (if pid = 0x09 then r\<lparr>correlation_data := Some v\<rparr> else r)"
| "store_prop r (OutStrPair pid k v) =
     (if pid = 0x26 then r\<lparr>user_properties := user_properties r @ [(k, v)]\<rparr> else r)"

text \<open>A call is well formed when the identifier has the method's wire type and the strings fit
  their 16-bit length.\<close>

fun out_wf :: "OutProp \<Rightarrow> bool" where
  "out_wf (OutU32 pid v) = (property_wire_type (ucast pid) = Some FourByteInt)"
| "out_wf (OutU16 pid v) = (property_wire_type (ucast pid) = Some TwoByteInt)"
| "out_wf (OutStr pid v) = (property_wire_type (ucast pid) = Some Utf8String \<and> length v < 65536)"
| "out_wf (OutBinary pid v) = (property_wire_type (ucast pid) = Some Binary \<and> length v < 65536)"
| "out_wf (OutStrPair pid k v) =
     (property_wire_type (ucast pid) = Some Utf8StringPair \<and> length k < 65536 \<and> length v < 65536)"

definition sized :: "byte list \<Rightarrow> byte list" where
  "sized v = be_bytes 2 (of_nat (length v) :: u16) @ v"

fun record_bytes :: "OutProp \<Rightarrow> byte list" where
  "record_bytes (OutU32 pid v) = pid # be_bytes 4 v"
| "record_bytes (OutU16 pid v) = pid # be_bytes 2 v"
| "record_bytes (OutStr pid v) = pid # sized (bytes_of_string v)"
| "record_bytes (OutBinary pid v) = pid # sized v"
| "record_bytes (OutStrPair pid k v) = pid # sized (bytes_of_string k) @ sized (bytes_of_string v)"

lemma pw_records_emit: "pw_records (pw_emit w p) = pw_records w @ record_bytes p"
  by (cases p) (simp_all add: pw_put_u32_def pw_put_u16_def pw_put_str_def pw_put_binary_def
      pw_put_str_pair_def put_str_def put_u16_be_def sized_def)

lemma pw_records_foldl:
  "pw_records (foldl pw_emit w ps) = pw_records w @ concat (map record_bytes ps)"
  by (induction ps arbitrary: w) (simp_all add: pw_records_emit)

lemma property_wire_type_less: "property_wire_type pid = Some t \<Longrightarrow> unat pid < 128"
  by (auto simp: property_wire_type_def split: if_splits)

lemma ucast_u8_u32_eq: "(ucast (pid :: u8) :: u32) = ucast (k :: u8) \<longleftrightarrow> pid = k"
proof -
  have "ucast (ucast x :: u32) = x" for x :: u8
    by (rule bit_word_eqI) (auto simp: bit_simps dest: bit_imp_le_length)
  then show ?thesis by metis
qed

lemma read_varint_one_byte:
  assumes "property_wire_type (ucast pid) = Some t"
  shows "read_varint (pre @ pid # suf) (length pre) = Some (ucast (pid :: u8), length pre + 1)"
proof -
  have lt: "unat (ucast pid :: u32) < 128"
    using assms by (rule property_wire_type_less)
  have d: "(ucast pid :: u32) div 128 = 0"
    using lt by (simp add: unat_eq_zero [symmetric] unat_div)
  then have m: "(ucast pid :: u32) mod 128 = ucast pid"
    using div_mult_mod_eq [of "ucast pid :: u32" 128] by simp
  have "ucast (ucast pid :: u32) = pid"
    by (rule bit_word_eqI) (auto simp: bit_simps dest: bit_imp_le_length)
  then have "varint (ucast pid) = [pid]"
    using d m by (simp add: varint_small)
  then show ?thesis
    using read_varint_varint [of "ucast pid" pre suf] lt by simp
qed

lemma be_value_2: "be_value [be_bytes 2 v ! 0, be_bytes 2 v ! 1] = (v :: u16)"
  using be_value_be_bytes [of 2 v] by (simp add: be_bytes_def upt_rec)

lemma be_value_4:
  "be_value [be_bytes 4 v ! 0, be_bytes 4 v ! 1, be_bytes 4 v ! 2, be_bytes 4 v ! 3] = (v :: u32)"
  using be_value_be_bytes [of 4 v] by (simp add: be_bytes_def upt_rec)

lemma length_sized [simp]: "length (sized v) = 2 + length v"
  by (simp add: sized_def)

lemma nth_at: "(pre @ xs @ suf) ! (length pre + i) = (xs @ suf) ! i"
  by (rule nth_append_offset)

lemma be_value_at_2:
  fixes v :: u16
  shows "be_value [(pre @ be_bytes 2 v @ suf) ! length pre, (pre @ be_bytes 2 v @ suf) ! Suc (length pre)] = v"
  using be_value_2 [of v] nth_at [of pre "be_bytes 2 v" suf 0] nth_at [of pre "be_bytes 2 v" suf 1]
  by (simp add: nth_append)

lemma be_value_at_4:
  fixes v :: u32 and pre suf :: "byte list"
  defines "bs \<equiv> pre @ be_bytes 4 v @ suf"
  shows "be_value [bs ! length pre, bs ! (length pre + 1), bs ! (length pre + 2), bs ! (length pre + 3)] = v"
proof -
  have at: "bs ! (length pre + i) = be_bytes 4 v ! i" if "i < 4" for i
    using that unfolding bs_def nth_at by (simp add: nth_append)
  show ?thesis
    using be_value_4 [of v] at [of 0] at [of 1] at [of 2] at [of 3] by simp
qed

lemma read_len_prefixed_sized:
  assumes "length v < 65536" and "length pre + length (sized v) \<le> stop"
  shows "read_len_prefixed (pre @ sized v @ suf) stop (length pre)
           = Some (v, length pre + length (sized v))"
proof -
  have len: "unat (of_nat (length v) :: u16) = length v"
    using assms(1) by (simp add: unat_of_nat)
  have d: "drop (length pre + 2) (pre @ sized v @ suf) = v @ suf"
    by (simp add: sized_def)
  have be: "be_value [(pre @ sized v @ suf) ! length pre, (pre @ sized v @ suf) ! Suc (length pre)]
      = (of_nat (length v) :: u16)"
    unfolding sized_def append_assoc by (rule be_value_at_2)
  show ?thesis
    using assms(2) len be unfolding read_len_prefixed_def Let_def
    by (simp add: sized_def)
qed

lemma ucast_id_eq:
  "(ucast (i :: u8) :: u32) = 0x02 \<longleftrightarrow> i = 0x02"
  "(ucast i :: u32) = 0x03 \<longleftrightarrow> i = 0x03"
  "(ucast i :: u32) = 0x08 \<longleftrightarrow> i = 0x08"
  "(ucast i :: u32) = 0x09 \<longleftrightarrow> i = 0x09"
  "(ucast i :: u32) = 0x11 \<longleftrightarrow> i = 0x11"
  "(ucast i :: u32) = 0x15 \<longleftrightarrow> i = 0x15"
  "(ucast i :: u32) = 0x16 \<longleftrightarrow> i = 0x16"
  "(ucast i :: u32) = 0x22 \<longleftrightarrow> i = 0x22"
  "(ucast i :: u32) = 0x23 \<longleftrightarrow> i = 0x23"
  "(ucast i :: u32) = 0x26 \<longleftrightarrow> i = 0x26"
  "(ucast i :: u32) = 0x27 \<longleftrightarrow> i = 0x27"
  using ucast_u8_u32_eq [of i "0x02"]
    ucast_u8_u32_eq [of i "0x03"]
    ucast_u8_u32_eq [of i "0x08"]
    ucast_u8_u32_eq [of i "0x09"]
    ucast_u8_u32_eq [of i "0x11"]
    ucast_u8_u32_eq [of i "0x15"]
    ucast_u8_u32_eq [of i "0x16"]
    ucast_u8_u32_eq [of i "0x22"]
    ucast_u8_u32_eq [of i "0x23"]
    ucast_u8_u32_eq [of i "0x26"]
    ucast_u8_u32_eq [of i "0x27"]
  by simp_all

lemma read_record_record_bytes:
  assumes "out_wf p" and "length pre + length (record_bytes p) \<le> stop"
  shows "read_record (pre @ record_bytes p @ suf) stop (length pre) r
           = Some (store_prop r p, length pre + length (record_bytes p))"
proof (cases p)
  case (OutU32 i v)
  then show ?thesis
    using assms read_varint_one_byte [of i FourByteInt pre "be_bytes 4 v @ suf"]
      be_value_at_4 [of "pre @ [i]" v suf]
    by (simp add: read_record_def Let_def ucast_id_eq)
next
  case (OutU16 i v)
  then show ?thesis
    using assms read_varint_one_byte [of i TwoByteInt pre "be_bytes 2 v @ suf"]
      be_value_at_2 [of "pre @ [i]" v suf]
    by (simp add: read_record_def Let_def ucast_id_eq)
next
  case (OutStr i v)
  then show ?thesis
    using assms read_varint_one_byte [of i Utf8String pre "sized (bytes_of_string v) @ suf"]
      read_len_prefixed_sized [of "bytes_of_string v" "pre @ [i]" stop suf]
    by (simp add: read_record_def ucast_id_eq property_wire_type_def split: if_splits)
next
  case (OutBinary i v)
  then show ?thesis
    using assms read_varint_one_byte [of i Binary pre "sized v @ suf"]
      read_len_prefixed_sized [of v "pre @ [i]" stop suf]
    by (simp add: read_record_def ucast_id_eq property_wire_type_def split: if_splits)
next
  case (OutStrPair i k v)
  then show ?thesis
    using assms
      read_varint_one_byte [of i Utf8StringPair pre
        "sized (bytes_of_string k) @ sized (bytes_of_string v) @ suf"]
      read_len_prefixed_sized [of "bytes_of_string k" "pre @ [i]" stop "sized (bytes_of_string v) @ suf"]
      read_len_prefixed_sized [of "bytes_of_string v" "pre @ i # sized (bytes_of_string k)" stop suf]
    by (simp add: read_record_def ucast_id_eq add.assoc)
qed

lemma record_bytes_not_Nil [simp]: "record_bytes p \<noteq> []"
  by (cases p) simp_all

lemma read_records_concat:
  assumes "\<forall>p \<in> set ps. out_wf p"
    and "stop = length pre + length (concat (map record_bytes ps))"
  shows "read_records (pre @ concat (map record_bytes ps) @ suf) stop (length pre) r
           = Some (foldl store_prop r ps, stop)"
  using assms
proof (induction ps arbitrary: pre r)
  case Nil
  then show ?case by (simp add: read_records.simps)
next
  case (Cons p ps)
  let ?rest = "concat (map record_bytes ps)"
  have lt: "length pre < stop"
    using Cons.prems(2) by (cases "record_bytes p") auto
  have "read_record (pre @ record_bytes p @ (?rest @ suf)) stop (length pre) r
      = Some (store_prop r p, length pre + length (record_bytes p))"
    using Cons.prems by (intro read_record_record_bytes) auto
  moreover have "read_records ((pre @ record_bytes p) @ ?rest @ suf) stop
      (length (pre @ record_bytes p)) (store_prop r p) = Some (foldl store_prop (store_prop r p) ps, stop)"
    using Cons.prems by (intro Cons.IH) auto
  ultimately show ?case
    using lt by (simp add: read_records.simps [of _ stop "length pre"])
qed

lemma read_properties_write:
  assumes "\<forall>p \<in> set ps. out_wf p"
    and "length (concat (map record_bytes ps)) < 128 ^ 4"
  defines "w \<equiv> foldl pw_emit new_PropertyWriter ps"
  shows "read_properties (pw_write w pre @ suf) (length pre)
           = Some (foldl store_prop no_properties ps, length (pw_write w pre))"
proof -
  let ?recs = "concat (map record_bytes ps)"
  let ?len = "of_nat (length ?recs) :: u32"
  have recs: "pw_records w = ?recs"
    by (simp add: w_def pw_records_foldl new_PropertyWriter_def)
  have bytes: "pw_write w pre @ suf = pre @ varint ?len @ (?recs @ suf)"
    using put_remaining_length_append [of pre ?len] by (simp add: pw_write_def recs)
  have len: "unat ?len = length ?recs"
    using assms(2) by (rule unat_of_nat_varint)
  have "read_varint (pre @ varint ?len @ (?recs @ suf)) (length pre)
      = Some (?len, length pre + length (varint ?len))"
    by (rule read_varint_varint) (use assms(2) len in simp)
  moreover have "read_records ((pre @ varint ?len) @ ?recs @ suf)
      (length (pre @ varint ?len) + length ?recs) (length (pre @ varint ?len)) no_properties
      = Some (foldl store_prop no_properties ps, length (pre @ varint ?len) + length ?recs)"
    using assms(1) by (intro read_records_concat) auto
  moreover have "length (pw_write w pre) = length (pre @ varint ?len) + length ?recs"
    using put_remaining_length_append [of pre ?len] by (simp add: pw_write_def recs)
  ultimately show ?thesis
    unfolding bytes using len by (simp add: read_properties_def)
qed

text \<open>
  Whatever properties \<open>PropertyWriter\<close> writes, in any order and with repetitions,
  \<open>read_properties\<close> reads back from any position in any buffer, with the last value of a repeated
  single-valued property and every user property in order, and stops exactly after the block.
\<close>
theorem properties_roundtrip:
  assumes "\<forall>p \<in> set ps. out_wf p" and "length (concat (map record_bytes ps)) < 128 ^ 4"
  shows "read_properties (pw_write (foldl pw_emit new_PropertyWriter ps) pre @ suf) (length pre)
    = Some (foldl store_prop no_properties ps, length (pw_write (foldl pw_emit new_PropertyWriter ps) pre))"
  using read_properties_write [OF assms] .

theorem properties_roundtrip_witness:
  "\<exists>n. read_properties (pw_write (foldl pw_emit new_PropertyWriter
       [OutU16 0x23 5, OutStrPair 0x26 ''k'' ''v'', OutU32 0x02 60]) [9] @ [7]) 1
     = Some (no_properties\<lparr>topic_alias := Some 5, user_properties := [(''k'', ''v'')],
              message_expiry_interval := Some 60\<rparr>, n)"
proof -
  let ?ps = "[OutU16 0x23 5, OutStrPair 0x26 ''k'' ''v'', OutU32 0x02 60]"
  have "\<forall>p \<in> set ?ps. out_wf p" "length (concat (map record_bytes ?ps)) < 128 ^ 4"
    by (simp_all add: property_wire_type_def sized_def)
  from properties_roundtrip [OF this, of "[9]" "[7]"] show ?thesis
    by (simp add: no_properties_def)
qed

end
