(* ===== verification/Mqtt_Channel.thy ===== *)
theory Mqtt_Channel
  imports Mqtt_Codec
begin

text \<open>
  The blocking half of \<open>include/aero/transport/mqtt_codec.hpp\<close>: \<open>read_n\<close>, \<open>read_packet\<close>,
  \<open>write_packet\<close> and \<open>write_packet_bounded\<close> over a channel. A channel is an operating-system socket,
  so what its future calls return is an input: the list of outcomes of the \<open>recv_some\<close> calls, and the
  list of outcomes of the \<open>send_some\<close> calls with the clock reading before each. When a list is used up
  the socket reports a hard error.
\<close>

section \<open>Receiving\<close>

text \<open>
  What a receive attempt meets: bytes (none: the peer closed), nothing yet and the poll returns,
  nothing yet and the poll fails, an error, or a \<open>running\<close> flag that was cleared.
\<close>

datatype rx = RxChunk "byte list" | RxWouldBlock | RxPollError | RxError | RxStop

text \<open>The loop of \<open>read_n\<close>: \<open>n\<close> bytes still missing, \<open>got\<close> already read.\<close>

fun read_n_loop :: "rx list \<Rightarrow> nat \<Rightarrow> byte list \<Rightarrow> byte list option \<times> rx list" where
  "read_n_loop rxs 0 got = (Some got, rxs)"
| "read_n_loop [] (Suc n) got = (None, [])"
| "read_n_loop (RxStop # rxs) (Suc n) got = (None, RxStop # rxs)"
| "read_n_loop (RxChunk bs # rxs) (Suc n) got =
     (if bs = [] then (None, rxs)
      else if length bs \<le> Suc n then read_n_loop rxs (Suc n - length bs) (got @ bs)
      else (Some (got @ take (Suc n) bs), RxChunk (drop (Suc n) bs) # rxs))"
| "read_n_loop (RxWouldBlock # rxs) (Suc n) got = read_n_loop rxs (Suc n) got"
| "read_n_loop (RxPollError # rxs) (Suc n) got = (None, rxs)"
| "read_n_loop (RxError # rxs) (Suc n) got = (None, rxs)"

definition read_n :: "rx list \<Rightarrow> nat \<Rightarrow> byte list option \<times> rx list" where
  "read_n rxs n = read_n_loop rxs n []"

text \<open>
  The remaining-length loop of \<open>read_packet\<close>: at most four bytes, and unlike \<open>try_parse_packet\<close> it
  goes on with the value it has when the fourth byte still has its continuation bit.
\<close>

fun read_length_loop :: "nat \<Rightarrow> rx list \<Rightarrow> u32 \<Rightarrow> u32 \<Rightarrow> u32 option \<times> rx list" where
  "read_length_loop 0 rxs mult len = (Some len, rxs)"
| "read_length_loop (Suc i) rxs mult len =
     (case read_n rxs 1 of
        (None, rxs') \<Rightarrow> (None, rxs')
      | (Some enc, rxs') \<Rightarrow>
          let e = hd enc; len' = len + ucast (e AND 0x7F) * mult in
          if e AND 0x80 = 0 then (Some len', rxs') else read_length_loop i rxs' (mult * 128) len')"

definition read_packet :: "rx list \<Rightarrow> Packet option \<times> rx list" where
  "read_packet rxs =
     (case read_n rxs 1 of
        (None, rxs1) \<Rightarrow> (None, rxs1)
      | (Some b0, rxs1) \<Rightarrow>
          (case read_length_loop 4 rxs1 1 0 of
             (None, rxs2) \<Rightarrow> (None, rxs2)
           | (Some len, rxs2) \<Rightarrow>
               (case read_n rxs2 (unat len) of
                  (None, rxs3) \<Rightarrow> (None, rxs3)
                | (Some bs, rxs3) \<Rightarrow> (Some \<lparr>type_flags = hd b0, body = bs\<rparr>, rxs3))))"

section \<open>Sending\<close>

text \<open>
  What a send attempt meets: \<open>n\<close> bytes accepted, nothing accepted and the poll returns, nothing
  accepted and the poll fails, or an error. A script pairs each with the clock at the attempt.
\<close>

datatype send_outcome = SendOk nat | SendWouldBlock | SendPollError | SendError

type_synonym send_script = "(nat \<times> send_outcome) list"

text \<open>The sending loop: \<open>rem\<close> is what is left of the packet, \<open>w\<close> what the channel has accepted.\<close>

fun write_loop :: "send_script \<Rightarrow> byte list \<Rightarrow> byte list \<Rightarrow> bool \<times> send_script \<times> byte list" where
  "write_loop sc rem w =
     (if rem = [] then (True, sc, w)
      else case sc of
        [] \<Rightarrow> (False, [], w)
      | (t, SendOk n) # sc' \<Rightarrow> write_loop sc' (drop n rem) (w @ take n rem)
      | (t, SendWouldBlock) # sc' \<Rightarrow> write_loop sc' rem w
      | (t, SendPollError) # sc' \<Rightarrow> (False, sc', w)
      | (t, SendError) # sc' \<Rightarrow> (False, sc', w))"

declare write_loop.simps [simp del]

definition write_packet :: "send_script \<Rightarrow> byte list \<Rightarrow> u8 \<Rightarrow> byte list \<Rightarrow> bool \<times> send_script \<times> byte list" where
  "write_packet sc w tf bs = write_loop sc (serialize_packet tf bs) w"

fun write_bounded_loop ::
  "nat \<Rightarrow> send_script \<Rightarrow> byte list \<Rightarrow> byte list \<Rightarrow> bool \<times> send_script \<times> byte list" where
  "write_bounded_loop deadline sc rem w =
     (if rem = [] then (True, sc, w)
      else case sc of
        [] \<Rightarrow> (False, [], w)
      | (t, out) # sc' \<Rightarrow>
          if deadline \<le> t then (False, sc, w)
          else (case out of
              SendOk n \<Rightarrow> write_bounded_loop deadline sc' (drop n rem) (w @ take n rem)
            | SendWouldBlock \<Rightarrow> write_bounded_loop deadline sc' rem w
            | SendPollError \<Rightarrow> (False, sc', w)
            | SendError \<Rightarrow> (False, sc', w)))"

declare write_bounded_loop.simps [simp del]

definition write_packet_bounded ::
  "nat \<Rightarrow> send_script \<Rightarrow> byte list \<Rightarrow> u8 \<Rightarrow> byte list \<Rightarrow> bool \<times> send_script \<times> byte list" where
  "write_packet_bounded deadline sc w tf bs = write_bounded_loop deadline sc (serialize_packet tf bs) w"

section \<open>Reading a stream in any chunking\<close>

fun rx_bytes :: "rx list \<Rightarrow> byte list" where
  "rx_bytes [] = []"
| "rx_bytes (RxChunk bs # rxs) = bs @ rx_bytes rxs"
| "rx_bytes (_ # rxs) = rx_bytes rxs"

text \<open>A connection that stays up: chunks and waits only.\<close>

fun rx_live :: "rx list \<Rightarrow> bool" where
  "rx_live [] = True"
| "rx_live (RxChunk bs # rxs) = (bs \<noteq> [] \<and> rx_live rxs)"
| "rx_live (RxWouldBlock # rxs) = rx_live rxs"
| "rx_live (_ # rxs) = False"

lemma read_n_loop_live:
  assumes "rx_live rxs" and "n \<le> length (rx_bytes rxs)"
  shows "\<exists>rxs'. read_n_loop rxs n got = (Some (got @ take n (rx_bytes rxs)), rxs')
    \<and> rx_live rxs' \<and> rx_bytes rxs' = drop n (rx_bytes rxs)"
  using assms
proof (induction rxs n got rule: read_n_loop.induct)
  case (4 bs rxs n got)
  show ?case
  proof (cases "length bs \<le> Suc n")
    case True
    with 4 have "\<exists>rxs'. read_n_loop rxs (Suc n - length bs) (got @ bs)
        = (Some ((got @ bs) @ take (Suc n - length bs) (rx_bytes rxs)), rxs')
        \<and> rx_live rxs' \<and> rx_bytes rxs' = drop (Suc n - length bs) (rx_bytes rxs)"
      by (intro "4.IH") auto
    with True 4 show ?thesis by auto
  next
    case False
    with 4 show ?thesis by auto
  qed
qed auto

lemma read_n_live:
  assumes "rx_live rxs" and "n \<le> length (rx_bytes rxs)"
  obtains rxs' where "read_n rxs n = (Some (take n (rx_bytes rxs)), rxs')"
    and "rx_live rxs'" and "rx_bytes rxs' = drop n (rx_bytes rxs)"
  using read_n_loop_live [OF assms, of "[]"] by (auto simp: read_n_def)

lemma read_length_loop_live:
  assumes "parse_length_loop i buf p mult len = Inr (len', p')"
    and "rx_live rxs" and "rx_bytes rxs = drop p buf"
  shows "\<exists>rxs'. read_length_loop i rxs mult len = (Some len', rxs')
    \<and> rx_live rxs' \<and> rx_bytes rxs' = drop p' buf"
  using assms
proof (induction i arbitrary: p mult len rxs)
  case 0
  then show ?case by simp
next
  case (Suc i)
  let ?e = "buf ! p"
  from Suc.prems(1) have p: "p < length buf" by (auto split: if_splits)
  then have one: "take 1 (drop p buf) = [?e]" "drop 1 (drop p buf) = drop (Suc p) buf"
    by (simp_all add: take_Suc_conv_app_nth hd_drop_conv_nth take_Suc)
  obtain rxs1 where r: "read_n rxs 1 = (Some [?e], rxs1)" "rx_live rxs1" "rx_bytes rxs1 = drop (Suc p) buf"
    by (rule read_n_live [OF Suc.prems(2), of 1]) (use Suc.prems(3) p one in simp_all)
  show ?case
  proof (cases "?e AND 0x80 = 0")
    case True
    with Suc.prems(1) p r show ?thesis by (auto simp: Let_def)
  next
    case False
    with Suc.prems(1) p r Suc.IH [of "Suc p" "mult * 128" "len + ucast (?e AND 0x7F) * mult" rxs1]
    show ?thesis by (auto simp: Let_def)
  qed
qed

lemma read_packet_live:
  assumes "rx_live rxs" and "try_parse_packet (rx_bytes rxs) 0 = Inr (p, n)"
  shows "\<exists>rxs'. read_packet rxs = (Some p, rxs') \<and> rx_live rxs' \<and> rx_bytes rxs' = drop n (rx_bytes rxs)"
proof -
  let ?buf = "rx_bytes rxs"
  obtain len q where ne: "?buf \<noteq> []" and l: "parse_length_loop 4 ?buf 1 1 0 = Inr (len, q)"
    and fit: "unat len \<le> length ?buf - q" and n: "n = q + unat len"
    and p: "p = \<lparr>type_flags = hd ?buf, body = take (unat len) (drop q ?buf)\<rparr>"
    using assms(2)
    by (auto simp: try_parse_packet_def hd_conv_nth not_less simp del: parse_length_loop.simps
        split: if_splits sum.splits prod.splits)
  then have len1: "1 \<le> length ?buf" by (cases ?buf) auto
  obtain rxs1 where 1: "read_n rxs 1 = (Some (take 1 ?buf), rxs1)" "rx_live rxs1" "rx_bytes rxs1 = drop 1 ?buf"
    using read_n_live [OF assms(1) len1] by blast
  obtain rxs2 where 2: "read_length_loop 4 rxs1 1 0 = (Some len, rxs2)" "rx_live rxs2" "rx_bytes rxs2 = drop q ?buf"
    using read_length_loop_live [OF l 1(2,3)] by blast
  obtain rxs3 where 3: "read_n rxs2 (unat len) = (Some (take (unat len) (drop q ?buf)), rxs3)"
    "rx_live rxs3" "rx_bytes rxs3 = drop (unat len) (drop q ?buf)"
    using read_n_live [OF 2(2), of "unat len"] 2(3) fit by auto
  have "hd (take 1 ?buf) = hd ?buf" using ne by (cases ?buf) auto
  then show ?thesis using 1 2 3 n p
    by (simp add: read_packet_def add.commute del: read_length_loop.simps)
qed

text \<open>
  A connection may deliver a packet in any chunks and with any waits between them: whenever the
  buffered parser finds a packet at the front of the bytes, the blocking reader returns the same
  packet and leaves exactly the bytes after it.
\<close>
theorem read_packet_any_chunking:
  assumes "rx_live rxs" and "rx_bytes rxs = packet_bytes p @ rest" and "packet_wf p"
  shows "\<exists>rxs'. read_packet rxs = (Some p, rxs') \<and> rx_live rxs' \<and> rx_bytes rxs' = rest"
proof -
  have "try_parse_packet (rx_bytes rxs) 0 = Inr (p, length (packet_bytes p))"
    using try_parse_packet_bytes [OF assms(3), of "[]" rest] assms(2) by simp
  from read_packet_live [OF assms(1) this] assms(2) show ?thesis by simp
qed

theorem read_packet_any_chunking_witness:
  "\<exists>rxs'. read_packet [RxChunk [0x30], RxWouldBlock, RxChunk [2, 7], RxChunk [8, 0xC0]]
     = (Some \<lparr>type_flags = 0x30, body = [7, 8]\<rparr>, rxs') \<and> rx_bytes rxs' = [0xC0]"
proof -
  let ?rxs = "[RxChunk [0x30], RxWouldBlock, RxChunk [2, 7], RxChunk [8, 0xC0 :: byte]]"
  let ?p = "\<lparr>type_flags = 0x30, body = [7, 8]\<rparr> :: Packet"
  have b: "rx_bytes ?rxs = packet_bytes ?p @ [0xC0]"
    by (simp add: packet_bytes_def serialize_packet_def put_remaining_length.simps Let_def)
  have "packet_wf ?p" by (simp add: packet_wf_def)
  from read_packet_any_chunking [OF _ b this] show ?thesis by auto
qed

section \<open>What the writers put on the wire\<close>

lemma write_loop_wire:
  assumes "write_loop sc rem w = (ok, sc', w')"
  shows "\<exists>k \<le> length rem. w' = w @ take k rem \<and> (ok \<longrightarrow> k = length rem) \<and> (\<not> ok \<longrightarrow> k < length rem)"
  using assms
proof (induction sc arbitrary: rem w)
  case Nil
  then show ?case by (subst (asm) write_loop.simps) (auto split: if_splits)
next
  case (Cons a sc)
  obtain t out where a: "a = (t, out)" by (cases a)
  show ?case
  proof (cases "rem = []")
    case True
    with Cons.prems show ?thesis by (subst (asm) write_loop.simps) simp
  next
    case False
    show ?thesis
    proof (cases out)
      case (SendOk n)
      with Cons.prems a False have "write_loop sc (drop n rem) (w @ take n rem) = (ok, sc', w')"
        by (subst (asm) write_loop.simps) simp
      from Cons.IH [OF this] obtain k where k: "k \<le> length (drop n rem)"
        "w' = (w @ take n rem) @ take k (drop n rem)" "ok \<longrightarrow> k = length (drop n rem)"
        "\<not> ok \<longrightarrow> k < length (drop n rem)" by blast
      then have "w' = w @ take (n + k) rem" by (simp add: take_add)
      with k show ?thesis
        by (cases "n \<le> length rem") (auto intro: exI [of _ "n + k"] exI [of _ "length rem"])
    next
      case SendWouldBlock
      with Cons a False show ?thesis by (subst (asm) (2) write_loop.simps) simp
    qed (use Cons.prems a False in \<open>subst (asm) write_loop.simps, auto intro: exI [of _ 0]\<close>)+
  qed
qed

lemma write_packet_wire:
  assumes "write_packet sc w tf bs = (ok, sc', w')"
  shows "\<exists>k \<le> length (serialize_packet tf bs). w' = w @ take k (serialize_packet tf bs) \<and>
     (ok \<longrightarrow> k = length (serialize_packet tf bs)) \<and> (\<not> ok \<longrightarrow> k < length (serialize_packet tf bs))"
  using write_loop_wire assms unfolding write_packet_def by blast

text \<open>
  \<open>write_packet\<close> answers true exactly when the whole packet is on the wire, after any number of
  partial sends and waits; when it answers false a proper prefix is.
\<close>
theorem write_packet_all_or_prefix:
  assumes "write_packet sc w tf bs = (ok, sc', w')"
  shows "(ok \<longleftrightarrow> w' = w @ serialize_packet tf bs) \<and>
    (\<exists>k. w' = w @ take k (serialize_packet tf bs))"
  using write_packet_wire [OF assms] by fastforce

theorem write_packet_all_or_prefix_witness:
  "\<exists>sc'. write_packet [(0, SendOk 1), (1, SendWouldBlock), (2, SendOk 9)] [] 0xD0 [] = (True, sc', [0xD0, 0])"
proof -
  obtain ok sc' w' where r: "write_packet [(0, SendOk 1), (1, SendWouldBlock), (2, SendOk 9)] [] 0xD0 [] = (ok, sc', w')"
    by (metis prod_cases3)
  have s: "serialize_packet 0xD0 [] = [0xD0, 0]"
    by (simp add: serialize_packet_def put_remaining_length.simps Let_def)
  have "w' = [0xD0, 0]"
    using r by (simp add: write_packet_def s write_loop.simps)
  with write_packet_all_or_prefix [OF r] r s show ?thesis by simp
qed

text \<open>
  When the deadline of \<open>write_packet_bounded\<close> passes after a partial send, the sent prefix stays
  on the channel and the next packet written to it follows directly, so the receiver's stream is a
  cut packet with another packet inside its body.
\<close>
theorem write_packet_bounded_cut:
  assumes "serialize_packet tf bs = s @ t" and "s \<noteq> []" and "t \<noteq> []" and "t1 < deadline" and "deadline \<le> t2"
    and "write_packet ((t2, out) # sc) (w @ s) tf' bs' = (True, sc', w')"
  shows "write_packet_bounded deadline ((t1, SendOk (length s)) # (t2, out) # sc) w tf bs
           = (False, (t2, out) # sc, w @ s)
         \<and> w' = w @ s @ serialize_packet tf' bs'"
proof
  show "write_packet_bounded deadline ((t1, SendOk (length s)) # (t2, out) # sc) w tf bs
      = (False, (t2, out) # sc, w @ s)"
    using assms by (simp add: write_packet_bounded_def write_bounded_loop.simps)
  show "w' = w @ s @ serialize_packet tf' bs'"
    using write_packet_wire [OF assms(6)] by auto
qed

theorem write_packet_bounded_cut_witness:
  "write_packet_bounded 5 [(1, SendOk 2), (6, SendOk 9)] [] 0x30 [7, 8] = (False, [(6, SendOk 9)], [0x30, 2])
   \<and> try_parse_packet ([0x30, 2] @ serialize_packet 0xD0 []) 0 = Inr (\<lparr>type_flags = 0x30, body = [0xD0, 0]\<rparr>, 4)"
proof
  have s: "serialize_packet 0x30 [7, 8] = [0x30, 2] @ [7, 8]" and d: "serialize_packet 0xD0 [] = [0xD0, 0]"
    by (simp_all add: serialize_packet_def put_remaining_length.simps Let_def)
  have "write_packet [(6, SendOk 9)] ([] @ [0x30, 2]) 0xD0 [] = (True, [], [0x30, 2, 0xD0, 0])"
    by (simp add: write_packet_def d write_loop.simps)
  from write_packet_bounded_cut [OF s _ _ _ _ this, of 1 5]
  show "write_packet_bounded 5 [(1, SendOk 2), (6, SendOk 9)] [] 0x30 [7, 8] = (False, [(6, SendOk 9)], [0x30, 2])"
    by (simp add: numeral_2_eq_2)
  show "try_parse_packet ([0x30, 2] @ serialize_packet 0xD0 []) 0 = Inr (\<lparr>type_flags = 0x30, body = [0xD0, 0]\<rparr>, 4)"
    using try_parse_packet_bytes [of "\<lparr>type_flags = 0x30, body = [0xD0, 0]\<rparr>" "[]" "[]"]
    by (simp add: d packet_wf_def packet_bytes_def serialize_packet_def put_remaining_length.simps Let_def)
qed

end
