(* ===== verification/Broker_State.thy ===== *)
theory Broker_State
  imports Acl Mqtt_Properties Mqtt_Channel
begin

text \<open>
  The state of the embedded MQTT broker, \<open>include/aero/broker/native_broker.hpp\<close>: one \<open>Session\<close> per
  accepted connection, and the broker's tables. A \<open>shared_ptr<Session>\<close> is the address of a session
  object, a number; the objects are in \<open>heap\<close>, the addresses handed out so far in \<open>allocated\<close>. \<open>steady_clock::now()\<close> is the field \<open>now\<close>, in
  nanoseconds; \<open>is_on_reactor_thread()\<close> is the field \<open>on_reactor_thread\<close> of the running call. The
  reactor's task queue (\<open>IoContext::post\<close>) is \<open>posted\<close>, its poll registration of a session is the pair
  of flags \<open>poll_in\<close> and \<open>poll_out\<close> of the session. The user's callbacks \<open>on_publish_\<close> and
  \<open>peer_forwarder_\<close> are logs of their calls.
\<close>

section \<open>Data\<close>

type_synonym sid = nat

definition second :: nat where
  "second = 1000000000"

record PublishProperties =
  pp_response_topic :: "string option"
  pp_correlation_data :: "byte list option"
  pp_user_properties :: "(string \<times> string) list"

record Subscription =
  sub_filter :: string
  sub_qos :: u8
  sub_share_group :: "string option"

record PublishExtras =
  expiry_deadline :: "nat option"
  ex_response_topic :: "string option"
  ex_correlation_data :: "byte list option"
  ex_user_properties :: "(string \<times> string) list"

definition no_extras :: PublishExtras where
  "no_extras = \<lparr>expiry_deadline = None, ex_response_topic = None, ex_correlation_data = None,
     ex_user_properties = []\<rparr>"

definition to_publish_properties :: "PublishExtras \<Rightarrow> PublishProperties" where
  "to_publish_properties e =
     \<lparr>pp_response_topic = ex_response_topic e, pp_correlation_data = ex_correlation_data e,
      pp_user_properties = ex_user_properties e\<rparr>"

record PendingQos2 =
  pq_topic :: string
  pq_payload :: "byte list"
  pq_retain :: bool
  pq_extras :: PublishExtras

datatype QueuedOutbound =
    QueuedOutboundRaw u8 "byte list"
  | QueuedOutboundPublish string "byte list" u8 bool PublishExtras

record Session =
  is_reactor_session :: bool
  subs :: "Subscription list"
  out_queue :: "QueuedOutbound list"
  out_current :: "byte list"
  out_sent :: nat
  write_interest_armed :: bool
  teardown_scheduled :: bool
  read_buf :: "byte list"
  client_id :: string
  keep_alive_s :: u16
  clean_session :: bool
  protocol_version :: u8
  s_session_expiry_interval :: "u32 option"
  max_packet_size :: "u32 option"
  last_activity :: nat
  kicked :: bool
  has_will :: bool
  will_topic :: string
  will_payload :: "byte list"
  will_qos :: u8
  will_retain :: bool
  will_extras :: PublishExtras
  s_principal :: string
  qos2_inflight :: "u16 \<rightharpoonup> PendingQos2"
  topic_aliases :: "u16 \<rightharpoonup> string"
  client_topic_alias_max :: "u16 option"
  outbound_topic_aliases :: "(string \<times> u16) list"
  fd_open :: bool
  poll_in :: bool
  poll_out :: bool
  sock_script :: send_script
  sock_wire :: "byte list"

definition new_Session :: "bool \<Rightarrow> nat \<Rightarrow> send_script \<Rightarrow> Session" where
  "new_Session reactor t sc =
     \<lparr>is_reactor_session = reactor, subs = [], out_queue = [], out_current = [], out_sent = 0,
      write_interest_armed = False, teardown_scheduled = False, read_buf = [], client_id = [],
      keep_alive_s = 0, clean_session = True, protocol_version = 4, s_session_expiry_interval = None,
      max_packet_size = None, last_activity = t, kicked = False, has_will = False, will_topic = [],
      will_payload = [], will_qos = 0, will_retain = False, will_extras = no_extras,
      s_principal = ''anonymous'', qos2_inflight = Map.empty, topic_aliases = Map.empty,
      client_topic_alias_max = None, outbound_topic_aliases = [], fd_open = True, poll_in = False,
      poll_out = False, sock_script = sc, sock_wire = []\<rparr>"

record QueuedMessage =
  qm_topic :: string
  qm_payload :: "byte list"
  qm_qos :: u8
  qm_extras :: PublishExtras

record RetainedMessage =
  rm_payload :: "byte list"
  rm_extras :: PublishExtras

record StoredSession =
  ss_subs :: "Subscription list"
  ss_queued :: "QueuedMessage list"
  ss_expires_at :: "nat option"

definition kQueuedMessageCap :: nat where
  "kQueuedMessageCap = 100"

definition kTopicAliasMax :: u16 where
  "kTopicAliasMax = 16"

record LegacyHandoffItem =
  lh_target :: sid
  lh_topic :: string
  lh_payload :: "byte list"
  lh_qos :: u8
  lh_retain :: bool
  lh_extras :: PublishExtras

definition kLegacyHandoffQueueCap :: nat where
  "kLegacyHandoffQueueCap = 100"

definition kLegacyHandoffSendDeadline :: nat where
  "kLegacyHandoffSendDeadline = 5 * second"

section \<open>The broker\<close>

text \<open>The tasks \<open>reactor_io_.post\<close> is given.\<close>

datatype reactor_task =
    RegisterSession sid
  | ModFd sid bool
  | TeardownTask sid bool
  | FanoutTask string "byte list" PublishExtras "(sid \<times> u8) list" nat

record NativeBroker =
  cfg_authenticate :: "(string \<Rightarrow> string \<Rightarrow> string option) option"
  cfg_authorizer :: "authorizer option"
  sessions :: "sid list"
  heap :: "sid \<Rightarrow> Session"
  allocated :: "sid list"
  exact_topic_index :: "string \<rightharpoonup> sid list"
  wildcard_subscribers :: "sid list"
  shared_group_cursor :: "string \<Rightarrow> u64"
  handoff_queue :: "LegacyHandoffItem list"
  retained :: "(string \<times> RetainedMessage) list"
  client_sessions :: "string \<rightharpoonup> sid"
  stored_sessions :: "string \<rightharpoonup> StoredSession"
  packet_id :: u16
  on_publish_set :: bool
  peer_forwarder_set :: bool
  ingested :: "(string \<times> byte list \<times> u8 \<times> PublishProperties) list"
  forwarded :: "(string \<times> byte list \<times> u8 \<times> nat option \<times> PublishProperties) list"
  posted :: "reactor_task list"
  now :: nat
  on_reactor_thread :: bool

text \<open>A started broker with its configuration and callbacks set and no connection yet.\<close>

definition new_NativeBroker ::
  "(string \<Rightarrow> string \<Rightarrow> string option) option \<Rightarrow> authorizer option \<Rightarrow> bool \<Rightarrow> bool \<Rightarrow> NativeBroker" where
  "new_NativeBroker authn authz onpub fwd =
     \<lparr>cfg_authenticate = authn, cfg_authorizer = authz, sessions = [], heap = (\<lambda>_. new_Session True 0 []),
      allocated = [],
      exact_topic_index = Map.empty, wildcard_subscribers = [], shared_group_cursor = (\<lambda>_. 0),
      handoff_queue = [], retained = [], client_sessions = Map.empty, stored_sessions = Map.empty,
      packet_id = 1, on_publish_set = onpub, peer_forwarder_set = fwd, ingested = [], forwarded = [],
      posted = [], now = 0, on_reactor_thread = False\<rparr>"

definition with_session :: "sid \<Rightarrow> (Session \<Rightarrow> Session) \<Rightarrow> NativeBroker \<Rightarrow> NativeBroker" where
  "with_session i f b = b\<lparr>heap := (heap b)(i := f (heap b i))\<rparr>"

definition post :: "reactor_task \<Rightarrow> NativeBroker \<Rightarrow> NativeBroker" where
  "post t b = b\<lparr>posted := posted b @ [t]\<rparr>"

lemma heap_with_session [simp]: "heap (with_session i f b) = (heap b)(i := f (heap b i))"
  by (simp add: with_session_def)

text \<open>\<open>keep_alive_expired\<close>: silent for more than one and a half keep-alive intervals; 0 turns it off.\<close>

definition keep_alive_expired :: "nat \<Rightarrow> Session \<Rightarrow> bool" where
  "keep_alive_expired t s \<longleftrightarrow>
     keep_alive_s s \<noteq> 0 \<and> last_activity s + unat (keep_alive_s s) * 1500 * 1000000 < t"

end
