(* ===== verification/Broker_Send.thy ===== *)
theory Broker_Send
  imports Broker_State
begin

text \<open>
  The outbound half of \<open>native_broker.hpp\<close>: building a PUBLISH for one recipient with its two choke
  points, the reactor's non-blocking outbound queue, the blocking writes of the legacy sessions, and
  \<open>send_packet\<close>, the one door every outbound packet goes through.
\<close>

section \<open>Reactor plumbing\<close>

definition schedule_reactor_teardown :: "sid \<Rightarrow> bool \<Rightarrow> NativeBroker \<Rightarrow> NativeBroker" where
  "schedule_reactor_teardown i clean b =
     (if teardown_scheduled (heap b i) then b
      else post (TeardownTask i clean) (with_session i (\<lambda>s. s\<lparr>teardown_scheduled := True\<rparr>) b))"

text \<open>\<open>mod_fd\<close> for the loop thread, posted from any other thread.\<close>

definition mod_fd :: "sid \<Rightarrow> bool \<Rightarrow> NativeBroker \<Rightarrow> NativeBroker" where
  "mod_fd i out b =
     (if on_reactor_thread b then with_session i (\<lambda>s. s\<lparr>poll_out := out\<rparr>) b else post (ModFd i out) b)"

definition arm_write_interest :: "sid \<Rightarrow> NativeBroker \<Rightarrow> NativeBroker" where
  "arm_write_interest i b =
     (if write_interest_armed (heap b i) then b
      else mod_fd i True (with_session i (\<lambda>s. s\<lparr>write_interest_armed := True\<rparr>) b))"

section \<open>Building a PUBLISH\<close>

text \<open>\<open>next_packet_id\<close> on the counter: the identifier and the counter after it, never zero.\<close>

definition next_packet_id :: "u16 \<Rightarrow> u16 \<times> u16" where
  "next_packet_id c = (if c = 0 then (c + 1, c + 2) else (c, c + 1))"

text \<open>
  The outbound topic alias of a delivery: the alias to send, whether the full topic goes out, and the
  session with a newly established alias.
\<close>

definition outbound_alias :: "string \<Rightarrow> Session \<Rightarrow> u16 option \<times> bool \<times> Session" where
  "outbound_alias topic s =
     (case client_topic_alias_max s of
        None \<Rightarrow> (None, True, s)
      | Some mx \<Rightarrow>
          if protocol_version s = 5 \<and> mx > 0 then
            (case map_of (outbound_topic_aliases s) topic of
               Some a \<Rightarrow> (Some a, False, s)
             | None \<Rightarrow>
                 if length (outbound_topic_aliases s) < unat mx then
                   let a = of_nat (length (outbound_topic_aliases s) + 1)
                   in (Some a, True, s\<lparr>outbound_topic_aliases := outbound_topic_aliases s @ [(topic, a)]\<rparr>)
                 else (None, True, s))
          else (None, True, s))"

definition publish_property_writer :: "nat \<Rightarrow> u16 option \<Rightarrow> PublishExtras \<Rightarrow> PropertyWriter" where
  "publish_property_writer t alias extras =
     (let w = new_PropertyWriter;
          w = (case alias of Some a \<Rightarrow> pw_put_u16 w 0x23 a | None \<Rightarrow> w);
          w = (case expiry_deadline extras of Some d \<Rightarrow> pw_put_u32 w 0x02 (of_nat ((d - t) div second)) | None \<Rightarrow> w);
          w = (case ex_response_topic extras of Some rt \<Rightarrow> pw_put_str w 0x08 rt | None \<Rightarrow> w);
          w = (case ex_correlation_data extras of Some cd \<Rightarrow> pw_put_binary w 0x09 cd | None \<Rightarrow> w)
      in foldl (\<lambda>w (k, v). pw_put_str_pair w 0x26 k v) w (ex_user_properties extras))"

definition expired :: "nat \<Rightarrow> PublishExtras \<Rightarrow> bool" where
  "expired t extras = (case expiry_deadline extras of None \<Rightarrow> False | Some d \<Rightarrow> d \<le> t)"

text \<open>The body of a PUBLISH: topic, packet identifier, properties, payload.\<close>

definition publish_body ::
  "nat \<Rightarrow> string \<Rightarrow> byte list \<Rightarrow> u8 \<Rightarrow> PublishExtras \<Rightarrow> Session \<Rightarrow> u16 \<Rightarrow> byte list \<times> Session \<times> u16" where
  "publish_body t topic payload qos extras s c =
     (let (alias, full, s1) = outbound_alias topic s;
          out = put_str [] (if full then topic else []);
          (out, c1) = (if qos > 0 then let (pid, c') = next_packet_id c in (put_u16_be out pid, c') else (out, c));
          out = (if protocol_version s = 5 then out @ pw_write (publish_property_writer t alias extras) [] else out)
      in (out @ payload, s1, c1))"

text \<open>
  \<open>build_publish_variable_header_and_payload\<close>: the body when the message goes out, with the session and
  the packet-identifier counter after it. Both choke points answer \<open>None\<close>; the second one after the
  alias and the identifier were taken.
\<close>

definition build_publish ::
  "nat \<Rightarrow> string \<Rightarrow> byte list \<Rightarrow> u8 \<Rightarrow> PublishExtras \<Rightarrow> Session \<Rightarrow> u16 \<Rightarrow> byte list option \<times> Session \<times> u16" where
  "build_publish t topic payload qos extras s c =
     (if expired t extras then (None, s, c)
      else case publish_body t topic payload qos extras s c of
        (out, s1, c1) \<Rightarrow>
          (case max_packet_size s of
             None \<Rightarrow> (Some out, s1, c1)
           | Some mx \<Rightarrow>
               if 1 + length (put_remaining_length [] (of_nat (length out))) + length out > unat mx
               then (None, s1, c1) else (Some out, s1, c1)))"

definition publish_type_flags :: "u8 \<Rightarrow> bool \<Rightarrow> u8" where
  "publish_type_flags qos retain = 0x30 OR (push_bit 1 qos OR (if retain then 0x01 else 0))"

section \<open>The reactor's outbound queue\<close>

text \<open>The inner loop of \<open>try_drain_reactor_send\<close>: take items until a packet is current.\<close>

fun fill_current :: "nat \<Rightarrow> QueuedOutbound list \<Rightarrow> Session \<Rightarrow> u16 \<Rightarrow> Session \<times> u16" where
  "fill_current t [] s c = (s\<lparr>out_queue := []\<rparr>, c)"
| "fill_current t (item # q) s c =
     (if out_current s \<noteq> [] then (s\<lparr>out_queue := item # q\<rparr>, c)
      else case item of
        QueuedOutboundRaw tf bs \<Rightarrow>
          fill_current t q (s\<lparr>out_current := serialize_packet tf bs, out_sent := 0\<rparr>) c
      | QueuedOutboundPublish topic payload qos retain extras \<Rightarrow>
          (case build_publish t topic payload qos extras s c of
             (None, s', c') \<Rightarrow> fill_current t q s' c'
           | (Some bs, s', c') \<Rightarrow>
               fill_current t q (s'\<lparr>out_current := serialize_packet (publish_type_flags qos retain) bs,
                                    out_sent := 0\<rparr>) c'))"

datatype drain_end = DrainEmpty | DrainBlocked | DrainFailed

definition discard_outbound :: "Session \<Rightarrow> Session" where
  "discard_outbound s = s\<lparr>out_queue := [], out_current := [], out_sent := 0\<rparr>"

definition accept_bytes :: "nat \<Rightarrow> Session \<Rightarrow> Session" where
  "accept_bytes n s =
     (let chunk = take n (drop (out_sent s) (out_current s));
          sent = out_sent s + length chunk;
          s = s\<lparr>sock_wire := sock_wire s @ chunk\<rparr>
      in if sent \<ge> length (out_current s) then s\<lparr>out_current := [], out_sent := 0\<rparr>
         else s\<lparr>out_sent := sent\<rparr>)"

text \<open>The outer loop, one \<open>send_some\<close> per round.\<close>

fun drain_send :: "nat \<Rightarrow> send_script \<Rightarrow> Session \<Rightarrow> u16 \<Rightarrow> drain_end \<times> Session \<times> u16" where
  "drain_send t sc s c =
     (let (s1, c1) = fill_current t (out_queue s) s c in
      if out_current s1 = [] then (DrainEmpty, s1\<lparr>sock_script := sc\<rparr>, c1)
      else case sc of
        [] \<Rightarrow> (DrainFailed, discard_outbound (s1\<lparr>sock_script := []\<rparr>), c1)
      | (u, SendOk n) # sc' \<Rightarrow> drain_send t sc' (accept_bytes n s1) c1
      | (u, SendError) # sc' \<Rightarrow> (DrainFailed, discard_outbound (s1\<lparr>sock_script := sc'\<rparr>), c1)
      | (u, SendWouldBlock) # sc' \<Rightarrow> (DrainBlocked, s1\<lparr>sock_script := sc'\<rparr>, c1)
      | (u, SendPollError) # sc' \<Rightarrow> (DrainBlocked, s1\<lparr>sock_script := sc'\<rparr>, c1))"

declare drain_send.simps [simp del]

text \<open>The outcomes a socket still offers: none once it is closed.\<close>

definition live_script :: "Session \<Rightarrow> send_script" where
  "live_script s = (if fd_open s then sock_script s else [])"

definition try_drain_reactor_send :: "sid \<Rightarrow> NativeBroker \<Rightarrow> NativeBroker" where
  "try_drain_reactor_send i b =
     (case drain_send (now b) (live_script (heap b i)) (heap b i) (packet_id b) of
        (e, s, c) \<Rightarrow>
          let b1 = b\<lparr>heap := (heap b)(i := s), packet_id := c\<rparr> in
          case e of
            DrainEmpty \<Rightarrow>
              if write_interest_armed s
              then mod_fd i False (with_session i (\<lambda>s. s\<lparr>write_interest_armed := False\<rparr>) b1) else b1
          | DrainFailed \<Rightarrow> schedule_reactor_teardown i False b1
          | DrainBlocked \<Rightarrow> arm_write_interest i b1)"

definition enqueue_reactor_publish ::
  "sid \<Rightarrow> string \<Rightarrow> byte list \<Rightarrow> u8 \<Rightarrow> bool \<Rightarrow> PublishExtras \<Rightarrow> NativeBroker \<Rightarrow> NativeBroker" where
  "enqueue_reactor_publish i topic payload qos retain extras b =
     try_drain_reactor_send i
       (with_session i (\<lambda>s. s\<lparr>out_queue := out_queue s @ [QueuedOutboundPublish topic payload qos retain extras]\<rparr>) b)"

section \<open>Sending\<close>

definition legacy_write :: "u8 \<Rightarrow> byte list \<Rightarrow> Session \<Rightarrow> bool \<times> Session" where
  "legacy_write tf bs s =
     (case write_packet (live_script s) (sock_wire s) tf bs of
        (ok, sc, w) \<Rightarrow> (ok, s\<lparr>sock_script := sc, sock_wire := w\<rparr>))"

definition send_packet :: "sid \<Rightarrow> u8 \<Rightarrow> byte list \<Rightarrow> NativeBroker \<Rightarrow> bool \<times> NativeBroker" where
  "send_packet i tf bs b =
     (if \<not> is_reactor_session (heap b i) then
        (case legacy_write tf bs (heap b i) of (ok, s) \<Rightarrow> (ok, b\<lparr>heap := (heap b)(i := s)\<rparr>))
      else
        (True, try_drain_reactor_send i
           (with_session i (\<lambda>s. s\<lparr>out_queue := out_queue s @ [QueuedOutboundRaw tf bs]\<rparr>) b)))"

definition send_disconnect :: "sid \<Rightarrow> u8 \<Rightarrow> NativeBroker \<Rightarrow> NativeBroker" where
  "send_disconnect i reason b =
     (if protocol_version (heap b i) \<noteq> 5 then b
      else snd (send_packet i 0xE0 (put_empty_properties [reason]) b))"

definition publish_to ::
  "sid \<Rightarrow> string \<Rightarrow> byte list \<Rightarrow> u8 \<Rightarrow> bool \<Rightarrow> PublishExtras \<Rightarrow> NativeBroker \<Rightarrow> bool \<times> NativeBroker" where
  "publish_to i topic payload qos retain extras b =
     (case build_publish (now b) topic payload qos extras (heap b i) (packet_id b) of
        (vh, s, c) \<Rightarrow>
          let b1 = b\<lparr>heap := (heap b)(i := s), packet_id := c\<rparr> in
          case vh of None \<Rightarrow> (True, b1) | Some bs \<Rightarrow> send_packet i (publish_type_flags qos retain) bs b1)"

definition enqueue_legacy_handoff ::
  "sid \<Rightarrow> string \<Rightarrow> byte list \<Rightarrow> u8 \<Rightarrow> bool \<Rightarrow> PublishExtras \<Rightarrow> NativeBroker \<Rightarrow> NativeBroker" where
  "enqueue_legacy_handoff i topic payload qos retain extras b =
     (let q = (if length (handoff_queue b) \<ge> kLegacyHandoffQueueCap then tl (handoff_queue b) else handoff_queue b)
      in b\<lparr>handoff_queue := q @ [\<lparr>lh_target = i, lh_topic = topic, lh_payload = payload, lh_qos = qos,
             lh_retain = retain, lh_extras = extras\<rparr>]\<rparr>)"

text \<open>One round of \<open>handoff_worker_loop\<close> on a non-empty queue.\<close>

definition handoff_worker_step :: "NativeBroker \<Rightarrow> NativeBroker" where
  "handoff_worker_step b =
     (case handoff_queue b of
        [] \<Rightarrow> b
      | item # q \<Rightarrow>
          (case build_publish (now b) (lh_topic item) (lh_payload item) (lh_qos item) (lh_extras item)
                  (heap b (lh_target item)) (packet_id b) of
             (vh, s, c) \<Rightarrow>
               let b1 = b\<lparr>handoff_queue := q, heap := (heap b)(lh_target item := s), packet_id := c\<rparr> in
               case vh of
                 None \<Rightarrow> b1
               | Some bs \<Rightarrow>
                   (case write_packet_bounded (now b + kLegacyHandoffSendDeadline) (live_script s) (sock_wire s)
                           (publish_type_flags (lh_qos item) (lh_retain item)) bs of
                      (ok, sc, w) \<Rightarrow>
                        with_session (lh_target item) (\<lambda>s. s\<lparr>sock_script := sc, sock_wire := w\<rparr>) b1)))"

end
