(* ===== verification/Broker_Route.thy ===== *)
theory Broker_Route
  imports Broker_Send "HOL-Library.AList"
begin

text \<open>
  Routing in \<open>native_broker.hpp\<close>: the topic index, the fan-out of a PUBLISH to the live sessions and
  the offline queues, shared-subscription arbitration, and the two ways a PUBLISH enters
  (\<open>deliver_publish\<close> for this node's own clients, \<open>deliver_remote_publish\<close> for a peer's relay). The
  hash tables the code iterates (\<open>retained_\<close>, the local \<open>shared_groups\<close>) are association lists in
  insertion order; the C++ order is unspecified.
\<close>

section \<open>The topic index\<close>

definition filter_has_wildcard :: "string \<Rightarrow> bool" where
  "filter_has_wildcard flt = (find_char (CHR ''+'') flt \<noteq> None \<or> find_char (CHR ''#'') flt \<noteq> None)"

definition index_subscription :: "sid \<Rightarrow> string \<Rightarrow> NativeBroker \<Rightarrow> NativeBroker" where
  "index_subscription i flt b =
     (if filter_has_wildcard flt then b\<lparr>wildcard_subscribers := wildcard_subscribers b @ [i]\<rparr>
      else
        let old = (case exact_topic_index b flt of None \<Rightarrow> [] | Some l \<Rightarrow> l)
        in b\<lparr>exact_topic_index := (exact_topic_index b)(flt \<mapsto> old @ [i])\<rparr>)"

definition topic_index_candidates :: "string \<Rightarrow> NativeBroker \<Rightarrow> sid list" where
  "topic_index_candidates topic b =
     (let exact = (case exact_topic_index b topic of None \<Rightarrow> [] | Some l \<Rightarrow> l)
      in remdups_adj (sort (exact @ wildcard_subscribers b)))"

definition unindex_exact :: "sid \<Rightarrow> string \<Rightarrow> (string \<rightharpoonup> sid list) \<Rightarrow> (string \<rightharpoonup> sid list)" where
  "unindex_exact i flt idx =
     (case idx flt of
        None \<Rightarrow> idx
      | Some l \<Rightarrow> let l' = removeAll i l in if l' = [] then idx(flt := None) else idx(flt \<mapsto> l'))"

definition remove_session :: "sid \<Rightarrow> NativeBroker \<Rightarrow> NativeBroker" where
  "remove_session i b0 =
     (let b = b0\<lparr>sessions := removeAll i (sessions b0)\<rparr>;
          fs = map sub_filter (subs (heap b i))
      in if fs = [] then b
         else
           let idx = fold (unindex_exact i) (filter (\<lambda>f. \<not> filter_has_wildcard f) fs) (exact_topic_index b);
               wild = (if \<exists>f \<in> set fs. filter_has_wildcard f then removeAll i (wildcard_subscribers b)
                       else wildcard_subscribers b)
           in b\<lparr>exact_topic_index := idx, wildcard_subscribers := wild\<rparr>)"

section \<open>Fan-out\<close>

definition matching_subs :: "string \<Rightarrow> Session \<Rightarrow> Subscription list" where
  "matching_subs topic s = filter (\<lambda>sub. topic_matches (sub_filter sub) topic) (subs s)"

definition min_qos :: "u8 \<Rightarrow> u8 \<Rightarrow> u8" where
  "min_qos q sq = (if q < sq then q else sq)"

type_synonym share_groups = "(string \<times> (sid \<times> Subscription) list) list"

definition share_key :: "string \<Rightarrow> Subscription \<Rightarrow> string" where
  "share_key g sub = g @ CHR 0x1F # sub_filter sub"

text \<open>\<open>shared_groups[key].push_back(candidate)\<close>.\<close>

fun add_candidate :: "string \<Rightarrow> sid \<times> Subscription \<Rightarrow> share_groups \<Rightarrow> share_groups" where
  "add_candidate k c [] = [(k, [c])]"
| "add_candidate k c ((k', cs) # gs) = (if k' = k then (k', cs @ [c]) # gs else (k', cs) # add_candidate k c gs)"

text \<open>The body of the loop over a session's matching subscriptions that collects deliveries.\<close>

fun collect_sub ::
  "u8 \<Rightarrow> sid \<Rightarrow> Subscription \<Rightarrow> (sid \<times> u8) list \<times> share_groups \<Rightarrow> (sid \<times> u8) list \<times> share_groups" where
  "collect_sub qos i sub (ds, gs) =
     (case sub_share_group sub of
        Some g \<Rightarrow> (ds, add_candidate (share_key g sub) (i, sub) gs)
      | None \<Rightarrow> (ds @ [(i, min_qos qos (sub_qos sub))], gs))"

definition collect_session ::
  "string \<Rightarrow> u8 \<Rightarrow> (sid \<Rightarrow> Session) \<Rightarrow> sid \<Rightarrow> (sid \<times> u8) list \<times> share_groups \<Rightarrow> (sid \<times> u8) list \<times> share_groups" where
  "collect_session topic qos h i acc = fold (collect_sub qos i) (matching_subs topic (h i)) acc"

text \<open>The round-robin choice of one group, and the loop over the groups.\<close>

definition pick_winner ::
  "u8 \<Rightarrow> string \<times> (sid \<times> Subscription) list \<Rightarrow> (string \<Rightarrow> u64) \<Rightarrow> (sid \<times> u8) \<times> (string \<Rightarrow> u64)" where
  "pick_winner qos g cur =
     (case g of (key, cands) \<Rightarrow>
        let idx = unat (cur key mod of_nat (length cands));
            (i, sub) = cands ! idx
        in ((i, min_qos qos (sub_qos sub)), cur(key := cur key + 1)))"

fun pick_winners :: "u8 \<Rightarrow> share_groups \<Rightarrow> (string \<Rightarrow> u64) \<Rightarrow> (sid \<times> u8) list \<times> (string \<Rightarrow> u64)" where
  "pick_winners qos [] cur = ([], cur)"
| "pick_winners qos (g # gs) cur =
     (let (w, cur1) = pick_winner qos g cur; (ws, cur2) = pick_winners qos gs cur1 in (w # ws, cur2))"

definition kMaxFanoutInlinePerCall :: nat where
  "kMaxFanoutInlinePerCall = 256"

text \<open>A delivery from the reactor thread, and one from any other thread.\<close>

definition dispatch_on_reactor ::
  "string \<Rightarrow> byte list \<Rightarrow> PublishExtras \<Rightarrow> sid \<times> u8 \<Rightarrow> NativeBroker \<Rightarrow> NativeBroker" where
  "dispatch_on_reactor topic payload extras d b =
     (case d of (i, qos) \<Rightarrow>
        if is_reactor_session (heap b i) then enqueue_reactor_publish i topic payload qos False extras b
        else enqueue_legacy_handoff i topic payload qos False extras b)"

definition dispatch_inline ::
  "string \<Rightarrow> byte list \<Rightarrow> PublishExtras \<Rightarrow> sid \<times> u8 \<Rightarrow> NativeBroker \<Rightarrow> NativeBroker" where
  "dispatch_inline topic payload extras d b =
     (case d of (i, qos) \<Rightarrow>
        if is_reactor_session (heap b i) then enqueue_reactor_publish i topic payload qos False extras b
        else snd (publish_to i topic payload qos False extras b))"

definition route_publish_reactor_batch ::
  "string \<Rightarrow> byte list \<Rightarrow> PublishExtras \<Rightarrow> (sid \<times> u8) list \<Rightarrow> nat \<Rightarrow> NativeBroker \<Rightarrow> NativeBroker" where
  "route_publish_reactor_batch topic payload extras ds offset b =
     (let stop = min (offset + kMaxFanoutInlinePerCall) (length ds);
          b1 = fold (dispatch_on_reactor topic payload extras) (drop offset (take stop ds)) b
      in if stop \<ge> length ds then b1 else post (FanoutTask topic payload extras ds stop) b1)"

text \<open>The loop bodies of the other branch: deliver at once, or remember a shared candidate.\<close>

fun inline_sub ::
  "string \<Rightarrow> byte list \<Rightarrow> u8 \<Rightarrow> PublishExtras \<Rightarrow> sid \<Rightarrow> Subscription \<Rightarrow>
   NativeBroker \<times> share_groups \<Rightarrow> NativeBroker \<times> share_groups" where
  "inline_sub topic payload qos extras i sub (b, gs) =
     (case sub_share_group sub of
        Some g \<Rightarrow> (b, add_candidate (share_key g sub) (i, sub) gs)
      | None \<Rightarrow> (dispatch_inline topic payload extras (i, min_qos qos (sub_qos sub)) b, gs))"

definition inline_session ::
  "string \<Rightarrow> byte list \<Rightarrow> u8 \<Rightarrow> PublishExtras \<Rightarrow> sid \<Rightarrow> NativeBroker \<times> share_groups \<Rightarrow> NativeBroker \<times> share_groups" where
  "inline_session topic payload qos extras i st =
     fold (inline_sub topic payload qos extras i) (matching_subs topic (heap (fst st) i)) st"

definition inline_winner ::
  "string \<Rightarrow> byte list \<Rightarrow> u8 \<Rightarrow> PublishExtras \<Rightarrow> string \<times> (sid \<times> Subscription) list \<Rightarrow> NativeBroker \<Rightarrow> NativeBroker" where
  "inline_winner topic payload qos extras g b =
     (case pick_winner qos g (shared_group_cursor b) of
        (w, cur) \<Rightarrow> dispatch_inline topic payload extras w (b\<lparr>shared_group_cursor := cur\<rparr>))"

text \<open>The offline queue of one stored session: one copy, the oldest dropped at the cap.\<close>

definition queue_offline ::
  "string \<Rightarrow> byte list \<Rightarrow> u8 \<Rightarrow> PublishExtras \<Rightarrow> StoredSession \<Rightarrow> StoredSession" where
  "queue_offline topic payload qos extras st =
     (case find (\<lambda>sub. topic_matches (sub_filter sub) topic) (ss_subs st) of
        None \<Rightarrow> st
      | Some sub \<Rightarrow>
          let q = (if length (ss_queued st) \<ge> kQueuedMessageCap then tl (ss_queued st) else ss_queued st)
          in st\<lparr>ss_queued := q @ [\<lparr>qm_topic = topic, qm_payload = payload, qm_qos = min_qos qos (sub_qos sub),
                                   qm_extras = extras\<rparr>]\<rparr>)"

text \<open>The live fan-out, in its two branches, and the whole of \<open>route_publish\<close>.\<close>

definition route_live ::
  "string \<Rightarrow> byte list \<Rightarrow> u8 \<Rightarrow> PublishExtras \<Rightarrow> NativeBroker \<Rightarrow> NativeBroker" where
  "route_live topic payload qos extras b =
     (if on_reactor_thread b then
        let (ds, gs) = fold (collect_session topic qos (heap b)) (topic_index_candidates topic b) ([], []);
            (ws, cur) = pick_winners qos gs (shared_group_cursor b)
        in route_publish_reactor_batch topic payload extras (ds @ ws) 0 (b\<lparr>shared_group_cursor := cur\<rparr>)
      else
        let (b', gs) = fold (inline_session topic payload qos extras) (topic_index_candidates topic b) (b, [])
        in fold (inline_winner topic payload qos extras) gs b')"

definition route_publish ::
  "string \<Rightarrow> byte list \<Rightarrow> u8 \<Rightarrow> PublishExtras \<Rightarrow> NativeBroker \<Rightarrow> NativeBroker" where
  "route_publish topic payload qos extras b =
     (let b1 = route_live topic payload qos extras b
      in if qos = 0 then b1
         else b1\<lparr>stored_sessions := (\<lambda>cid. map_option (queue_offline topic payload qos extras) (stored_sessions b1 cid))\<rparr>)"

section \<open>Entering a PUBLISH\<close>

text \<open>\<open>retained_[topic] = ...\<close> and \<open>retained_.erase(topic)\<close>.\<close>

definition retain_message :: "string \<Rightarrow> byte list \<Rightarrow> PublishExtras \<Rightarrow> NativeBroker \<Rightarrow> NativeBroker" where
  "retain_message topic payload extras b =
     (if payload = [] then b\<lparr>retained := AList.delete topic (retained b)\<rparr>
      else b\<lparr>retained := AList.update topic \<lparr>rm_payload = payload, rm_extras = extras\<rparr> (retained b)\<rparr>)"

definition ingest :: "string \<Rightarrow> byte list \<Rightarrow> u8 \<Rightarrow> PublishProperties \<Rightarrow> NativeBroker \<Rightarrow> NativeBroker" where
  "ingest topic payload qos props b =
     (if on_publish_set b then b\<lparr>ingested := ingested b @ [(topic, payload, qos, props)]\<rparr> else b)"

definition forward_to_peers :: "string \<Rightarrow> byte list \<Rightarrow> u8 \<Rightarrow> PublishExtras \<Rightarrow> NativeBroker \<Rightarrow> NativeBroker" where
  "forward_to_peers topic payload qos extras b =
     (if peer_forwarder_set b then
        let remaining = (case expiry_deadline extras of None \<Rightarrow> None | Some d \<Rightarrow> Some ((d - now b) div second))
        in b\<lparr>forwarded := forwarded b @ [(topic, payload, qos, remaining, to_publish_properties extras)]\<rparr>
      else b)"

definition deliver_publish ::
  "string \<Rightarrow> byte list \<Rightarrow> u8 \<Rightarrow> bool \<Rightarrow> PublishExtras \<Rightarrow> NativeBroker \<Rightarrow> NativeBroker" where
  "deliver_publish topic payload qos retain extras b =
     (let b = (if retain then retain_message topic payload extras b else b);
          b = ingest topic payload qos (to_publish_properties extras) b;
          b = route_publish topic payload qos extras b
      in forward_to_peers topic payload qos extras b)"

definition deliver_remote_publish ::
  "string \<Rightarrow> byte list \<Rightarrow> u8 \<Rightarrow> nat option \<Rightarrow> PublishProperties \<Rightarrow> NativeBroker \<Rightarrow> NativeBroker" where
  "deliver_remote_publish topic payload qos expiry props b =
     (let extras = \<lparr>expiry_deadline = map_option (\<lambda>r. now b + r * second) expiry,
                    ex_response_topic = pp_response_topic props,
                    ex_correlation_data = pp_correlation_data props,
                    ex_user_properties = pp_user_properties props\<rparr>;
          b = ingest topic payload qos props b
      in route_publish topic payload qos extras b)"

end
