(* ===== verification/Broker_Handlers.thy ===== *)
theory Broker_Handlers
  imports Broker_Route "HOL-Library.Monad_Syntax"
begin

text \<open>
  The packet handlers of \<open>native_broker.hpp\<close> and the life of a session: CONNECT, SUBSCRIBE, PUBLISH,
  PUBREL, the dispatch loop over the buffered bytes, teardown, and the reactor's and the legacy
  thread's entry points. A handler returns its C++ result (false ends the session) and the broker.
\<close>

section \<open>CONNECT\<close>

text \<open>The guarded 16-bit length read and the length-prefixed field the handlers parse with.\<close>

definition read_u16_at :: "byte list \<Rightarrow> nat \<Rightarrow> (u16 \<times> nat) option" where
  "read_u16_at bs pos =
     (if pos + 2 > length bs then None else Some (be_value [bs ! pos, bs ! (pos + 1)], pos + 2))"

definition read_field :: "byte list \<Rightarrow> nat \<Rightarrow> (byte list \<times> nat) option" where
  "read_field bs pos =
     (case read_u16_at bs pos of
        None \<Rightarrow> None
      | Some (len, p) \<Rightarrow>
          if p + unat len > length bs then None else Some (take (unat len) (drop p bs), p + unat len))"

definition extras_of :: "nat \<Rightarrow> ParsedProperties \<Rightarrow> PublishExtras" where
  "extras_of t props =
     \<lparr>expiry_deadline = map_option (\<lambda>i. t + unat i * second) (message_expiry_interval props),
      ex_response_topic = response_topic props, ex_correlation_data = correlation_data props,
      ex_user_properties = user_properties props\<rparr>"

definition bad_response_topic :: "PublishExtras \<Rightarrow> bool" where
  "bad_response_topic e = (case ex_response_topic e of None \<Rightarrow> False | Some rt \<Rightarrow> topic_name_has_wildcard rt)"

record ConnectFields =
  cf_keep_alive :: u16
  cf_session_expiry :: "u32 option"
  cf_max_packet_size :: "u32 option"
  cf_topic_alias_max :: "u16 option"
  cf_client_id :: string
  cf_will :: "(string \<times> byte list \<times> PublishExtras) option"
  cf_will_qos :: u8
  cf_will_retain :: bool
  cf_clean_session :: bool
  cf_username :: string
  cf_password :: string

text \<open>Protocol name and level.\<close>

definition connect_level :: "byte list \<Rightarrow> (u8 \<times> nat) option" where
  "connect_level bs =
     do { (name, pos) \<leftarrow> read_field bs 0;
          if pos + 1 > length bs then None else Some (bs ! pos, pos + 1) }"

definition connect_will ::
  "nat \<Rightarrow> bool \<Rightarrow> byte list \<Rightarrow> nat \<Rightarrow> ((string \<times> byte list \<times> PublishExtras) \<times> nat) option" where
  "connect_will t is_v5 bs pos =
     do { (extras, pos) \<leftarrow>
            (if is_v5 then
               do { (props, pos) \<leftarrow> read_properties bs pos;
                    if bad_response_topic (extras_of t props) then None
                    else Some (extras_of t props, pos) }
             else Some (no_extras, pos));
          (wt, pos) \<leftarrow> read_field bs pos;
          (wm, pos) \<leftarrow> read_field bs pos;
          Some ((string_of_bytes wt, wm, extras), pos) }"

definition optional_field :: "bool \<Rightarrow> byte list \<Rightarrow> nat \<Rightarrow> (string \<times> nat) option" where
  "optional_field present bs pos =
     (if present then do { (f, pos) \<leftarrow> read_field bs pos; Some (string_of_bytes f, pos) } else Some ([], pos))"

definition connect_fields :: "nat \<Rightarrow> bool \<Rightarrow> byte list \<Rightarrow> nat \<Rightarrow> ConnectFields option" where
  "connect_fields t is_v5 bs pos =
     (if pos + 1 > length bs then None
      else
        let flags = bs ! pos in
        do { (ka, pos) \<leftarrow> read_u16_at bs (pos + 1);
             (props, pos) \<leftarrow> (if is_v5 then read_properties bs pos else Some (no_properties, pos));
             (cid, pos) \<leftarrow> read_field bs pos;
             (will, pos) \<leftarrow> (if flags AND 0x04 \<noteq> 0
                             then do { (w, pos) \<leftarrow> connect_will t is_v5 bs pos; Some (Some w, pos) }
                             else Some (None, pos));
             (user, pos) \<leftarrow> optional_field (flags AND 0x80 \<noteq> 0) bs pos;
             (pw, pos) \<leftarrow> optional_field (flags AND 0x40 \<noteq> 0) bs pos;
             Some \<lparr>cf_keep_alive = ka, cf_session_expiry = session_expiry_interval props,
                   cf_max_packet_size = maximum_packet_size props,
                   cf_topic_alias_max = topic_alias_maximum props,
                   cf_client_id = string_of_bytes cid, cf_will = will,
                   cf_will_qos = drop_bit 3 flags AND 0x03, cf_will_retain = (flags AND 0x20 \<noteq> 0),
                   cf_clean_session = (flags AND 0x02 \<noteq> 0), cf_username = user, cf_password = pw\<rparr> })"

definition reject_connect :: "sid \<Rightarrow> bool \<Rightarrow> NativeBroker \<Rightarrow> NativeBroker" where
  "reject_connect i is_v5 b =
     snd (send_packet i 0x20 (if is_v5 then put_empty_properties [0x00, 0x86] else [0x00, 0x04]) b)"

text \<open>The assignments to the session's own fields.\<close>

definition set_connect_fields :: "nat \<Rightarrow> ConnectFields \<Rightarrow> Session \<Rightarrow> Session" where
  "set_connect_fields t f s0 =
     (let s = s0\<lparr>client_id := cf_client_id f, keep_alive_s := cf_keep_alive f,
                 clean_session := cf_clean_session f, s_session_expiry_interval := cf_session_expiry f,
                 max_packet_size := cf_max_packet_size f, client_topic_alias_max := cf_topic_alias_max f,
                 last_activity := t\<rparr>
      in case cf_will f of
           None \<Rightarrow> s
         | Some (wt, wm, wx) \<Rightarrow>
             s\<lparr>has_will := True, will_topic := wt, will_payload := wm, will_qos := cf_will_qos f,
               will_retain := cf_will_retain f, will_extras := wx\<rparr>)"

text \<open>Session takeover: the previous owner of the client identifier is kicked.\<close>

definition take_over :: "sid \<Rightarrow> string \<Rightarrow> NativeBroker \<Rightarrow> NativeBroker" where
  "take_over i cid b =
     (let b1 =
        (case client_sessions b cid of
           None \<Rightarrow> b
         | Some old \<Rightarrow>
             if old = i then b
             else
               let b' = with_session old (\<lambda>s. s\<lparr>kicked := True\<rparr>) b in
               if is_reactor_session (heap b' old)
               then schedule_reactor_teardown old False (send_disconnect old 0x8E b') else b')
      in b1\<lparr>client_sessions := (client_sessions b1)(cid \<mapsto> i)\<rparr>)"

text \<open>What a reconnecting client gets back: subscriptions and queued messages, or nothing.\<close>

definition stored_expired :: "nat \<Rightarrow> StoredSession \<Rightarrow> bool" where
  "stored_expired t st = (case ss_expires_at st of None \<Rightarrow> False | Some e \<Rightarrow> e \<le> t)"

definition restore_session ::
  "string \<Rightarrow> bool \<Rightarrow> NativeBroker \<Rightarrow> (Subscription list \<times> QueuedMessage list \<times> bool) \<times> NativeBroker" where
  "restore_session cid clean b =
     (let erased = b\<lparr>stored_sessions := (stored_sessions b)(cid := None)\<rparr> in
      if clean then (([], [], False), erased)
      else case stored_sessions b cid of
        None \<Rightarrow> (([], [], False), b)
      | Some st \<Rightarrow>
          if stored_expired (now b) st then (([], [], False), erased)
          else ((ss_subs st, ss_queued st, True), erased))"

definition restore_subs :: "sid \<Rightarrow> Subscription list \<Rightarrow> NativeBroker \<Rightarrow> NativeBroker" where
  "restore_subs i rs b =
     (if rs = [] then b
      else with_session i (\<lambda>s. s\<lparr>subs := rs\<rparr>) (fold (\<lambda>sub. index_subscription i (sub_filter sub)) rs b))"

fun flush_queued :: "sid \<Rightarrow> QueuedMessage list \<Rightarrow> NativeBroker \<Rightarrow> bool \<times> NativeBroker" where
  "flush_queued i [] b = (True, b)"
| "flush_queued i (m # ms) b =
     (case publish_to i (qm_topic m) (qm_payload m) (qm_qos m) False (qm_extras m) b of
        (ok, b1) \<Rightarrow> if ok then flush_queued i ms b1 else (False, b1))"

definition connack_body :: "bool \<Rightarrow> bool \<Rightarrow> byte list" where
  "connack_body is_v5 present =
     (let bs = [if present then 0x01 else 0x00, 0x00]
      in if is_v5 then put_topic_alias_max_properties bs kTopicAliasMax else bs)"

text \<open>Everything after the authentication gate.\<close>

definition accept_connect :: "sid \<Rightarrow> bool \<Rightarrow> ConnectFields \<Rightarrow> NativeBroker \<Rightarrow> bool \<times> NativeBroker" where
  "accept_connect i is_v5 f b0 =
     (let b = with_session i (set_connect_fields (now b0) f) b0;
          ((rs, flush, present), b) =
            (if cf_client_id f = [] then (([], [], False), b)
             else restore_session (cf_client_id f) (cf_clean_session f) (take_over i (cf_client_id f) b));
          b = restore_subs i rs b;
          (ok, b) = send_packet i 0x20 (connack_body is_v5 present) b
      in if ok then flush_queued i flush b else (False, b))"

definition handle_connect :: "sid \<Rightarrow> Packet \<Rightarrow> NativeBroker \<Rightarrow> bool \<times> NativeBroker" where
  "handle_connect i pkt b =
     (case connect_level (body pkt) of
        None \<Rightarrow> (False, b)
      | Some (level, pos) \<Rightarrow>
          if level \<noteq> 0x04 \<and> level \<noteq> 0x05 then (False, snd (send_packet i 0x20 [0x00, 0x01] b))
          else
            let is_v5 = (level = 0x05);
                b = with_session i (\<lambda>s. s\<lparr>protocol_version := if is_v5 then 5 else 4\<rparr>) b
            in case connect_fields (now b) is_v5 (body pkt) pos of
                 None \<Rightarrow> (False, b)
               | Some f \<Rightarrow>
                   (case cfg_authenticate b of
                      None \<Rightarrow> accept_connect i is_v5 f b
                    | Some auth \<Rightarrow>
                        (case auth (cf_username f) (cf_password f) of
                           None \<Rightarrow> (False, reject_connect i is_v5 b)
                         | Some prin \<Rightarrow>
                             accept_connect i is_v5 f (with_session i (\<lambda>s. s\<lparr>s_principal := prin\<rparr>) b))))"

section \<open>SUBSCRIBE\<close>

definition acl_allows :: "NativeBroker \<Rightarrow> string \<Rightarrow> string \<Rightarrow> AclAction \<Rightarrow> bool" where
  "acl_allows b prin topic act = (case cfg_authorizer b of None \<Rightarrow> True | Some a \<Rightarrow> a prin topic act)"

text \<open>
  The loop over the filters: the subscriptions to add and the return codes, or \<open>None\<close> for a malformed
  shared subscription.
\<close>

definition subscribe_one ::
  "NativeBroker \<Rightarrow> Session \<Rightarrow> string \<Rightarrow> u8 \<Rightarrow> (Subscription list \<times> byte list) option" where
  "subscribe_one b s raw requested =
     (let qos = (if requested > 1 then 1 else requested);
          shared = (protocol_version s = 5 \<and> take (length share_prefix) raw = share_prefix)
      in case (if shared then map_option (\<lambda>ss. (Some (ss_group ss), ss_filter ss)) (parse_shared_subscription raw)
               else Some (None, raw)) of
           None \<Rightarrow> None
         | Some (grp, flt) \<Rightarrow>
             if acl_allows b (s_principal s) flt Subscribe
             then Some ([\<lparr>sub_filter = flt, sub_qos = qos, sub_share_group = grp\<rparr>], [qos])
             else Some ([], [if protocol_version s = 5 then 0x87 else 0x80]))"

function subscribe_loop ::
  "NativeBroker \<Rightarrow> Session \<Rightarrow> byte list \<Rightarrow> nat \<Rightarrow> (Subscription list \<times> byte list) option" where
  "subscribe_loop b s bs pos =
     (if pos + 2 > length bs then Some ([], [])
      else
        let flen = unat (be_value [bs ! pos, bs ! (pos + 1)] :: u16); p = pos + 2 in
        if p + flen + 1 > length bs then Some ([], [])
        else case subscribe_one b s (string_of_bytes (take flen (drop p bs))) (bs ! (p + flen)) of
          None \<Rightarrow> None
        | Some (add, codes) \<Rightarrow>
            (case subscribe_loop b s bs (p + flen + 1) of
               None \<Rightarrow> None
             | Some (adds, codess) \<Rightarrow> Some (add @ adds, codes @ codess)))"
  by pat_completeness auto
termination
  by (relation "measure (\<lambda>(b, s, bs, pos). length bs - pos)") auto

declare subscribe_loop.simps [simp del]

text \<open>Retained replay: every retained topic each new regular subscription matches.\<close>

fun replay_one :: "sid \<Rightarrow> Subscription \<Rightarrow> (string \<times> RetainedMessage) list \<Rightarrow> NativeBroker \<Rightarrow> bool \<times> NativeBroker" where
  "replay_one i sub [] b = (True, b)"
| "replay_one i sub ((topic, msg) # rest) b =
     (if topic_matches (sub_filter sub) topic then
        (case publish_to i topic (rm_payload msg) (sub_qos sub) True (rm_extras msg) b of
           (ok, b1) \<Rightarrow> if ok then replay_one i sub rest b1 else (False, b1))
      else replay_one i sub rest b)"

fun replay_retained :: "sid \<Rightarrow> Subscription list \<Rightarrow> NativeBroker \<Rightarrow> bool \<times> NativeBroker" where
  "replay_retained i [] b = (True, b)"
| "replay_retained i (sub # rest) b =
     (if sub_share_group sub \<noteq> None then replay_retained i rest b
      else case replay_one i sub (retained b) b of
        (ok, b1) \<Rightarrow> if ok then replay_retained i rest b1 else (False, b1))"

definition handle_subscribe :: "sid \<Rightarrow> Packet \<Rightarrow> NativeBroker \<Rightarrow> bool \<times> NativeBroker" where
  "handle_subscribe i pkt b =
     (let bs = body pkt; s = heap b i in
      if length bs < 2 then (False, b)
      else
        let pid = (be_value [bs ! 0, bs ! 1] :: u16) in
        case (if protocol_version s = 5 then map_option snd (read_properties bs 2) else Some 2) of
          None \<Rightarrow> (False, b)
        | Some pos \<Rightarrow>
            (case subscribe_loop b s bs pos of
               None \<Rightarrow> (False, send_disconnect i 0x82 b)
             | Some (added, granted) \<Rightarrow>
                 let b = with_session i (\<lambda>s. s\<lparr>subs := subs s @ added\<rparr>) b;
                     b = fold (\<lambda>sub. index_subscription i (sub_filter sub)) added b;
                     vh = put_u16_be [] pid;
                     vh = (if protocol_version s = 5 then put_empty_properties vh else vh) @ granted;
                     (ok, b) = send_packet i 0x90 vh b
                 in if ok then replay_retained i added b else (False, b)))"

section \<open>PUBLISH and PUBREL\<close>

record PublishFields =
  pf_topic :: string
  pf_packet_id :: u16
  pf_props :: ParsedProperties
  pf_payload :: "byte list"

definition parse_publish :: "u8 \<Rightarrow> u8 \<Rightarrow> byte list \<Rightarrow> PublishFields option" where
  "parse_publish version qos bs =
     do { (topic, pos) \<leftarrow> read_field bs 0;
          (pid, pos) \<leftarrow> (if qos > 0 then read_u16_at bs pos else Some (0, pos));
          (props, pos) \<leftarrow> (if version = 5 then read_properties bs pos else Some (no_properties, pos));
          Some \<lparr>pf_topic = string_of_bytes topic, pf_packet_id = pid, pf_props = props, pf_payload = drop pos bs\<rparr> }"

text \<open>Inbound topic alias: the topic to act on and the alias table, or \<open>None\<close> for reason code 0x94.\<close>

definition resolve_alias ::
  "u16 option \<Rightarrow> string \<Rightarrow> (u16 \<rightharpoonup> string) \<Rightarrow> (string \<times> (u16 \<rightharpoonup> string)) option" where
  "resolve_alias alias topic tbl =
     (case alias of
        None \<Rightarrow> Some (topic, tbl)
      | Some a \<Rightarrow>
          if a = 0 \<or> a > kTopicAliasMax then None
          else if topic \<noteq> [] then Some (topic, tbl(a \<mapsto> topic))
          else (case tbl a of None \<Rightarrow> None | Some t \<Rightarrow> Some (t, tbl)))"

definition act_on_publish ::
  "sid \<Rightarrow> u8 \<Rightarrow> bool \<Rightarrow> string \<Rightarrow> PublishExtras \<Rightarrow> PublishFields \<Rightarrow> NativeBroker \<Rightarrow> bool \<times> NativeBroker" where
  "act_on_publish i qos retain topic extras f b =
     (let allowed = acl_allows b (s_principal (heap b i)) topic Publish;
          ack = put_u16_be [] (pf_packet_id f)
      in if qos = 2 then
           if \<not> allowed then (True, b)
           else send_packet i 0x50 ack
                  (with_session i (\<lambda>s. s\<lparr>qos2_inflight := (qos2_inflight s)(pf_packet_id f \<mapsto>
                     \<lparr>pq_topic = topic, pq_payload = pf_payload f, pq_retain = retain, pq_extras = extras\<rparr>)\<rparr>) b)
         else
           let b = (if allowed then deliver_publish topic (pf_payload f) qos retain extras b else b)
           in if qos = 1 then (if \<not> allowed then (True, b) else send_packet i 0x40 ack b)
              else (True, b))"

definition handle_publish :: "sid \<Rightarrow> Packet \<Rightarrow> NativeBroker \<Rightarrow> bool \<times> NativeBroker" where
  "handle_publish i pkt b =
     (let qos = drop_bit 1 (type_flags pkt) AND 0x03;
          retain = (type_flags pkt AND 0x01 \<noteq> 0)
      in case parse_publish (protocol_version (heap b i)) qos (body pkt) of
           None \<Rightarrow> (False, b)
         | Some f \<Rightarrow>
             let extras = extras_of (now b) (pf_props f) in
             if bad_response_topic extras then (False, send_disconnect i 0x90 b)
             else case resolve_alias (topic_alias (pf_props f)) (pf_topic f) (topic_aliases (heap b i)) of
               None \<Rightarrow> (False, send_disconnect i 0x94 b)
             | Some (topic, tbl) \<Rightarrow>
                 act_on_publish i qos retain topic extras f
                   (with_session i (\<lambda>s. s\<lparr>topic_aliases := tbl\<rparr>) b))"

definition handle_pubrel :: "sid \<Rightarrow> Packet \<Rightarrow> NativeBroker \<Rightarrow> bool \<times> NativeBroker" where
  "handle_pubrel i pkt b =
     (let bs = body pkt in
      if length bs < 2 then (False, b)
      else
        let pid = (be_value [bs ! 0, bs ! 1] :: u16);
            b1 = (case qos2_inflight (heap b i) pid of
                    None \<Rightarrow> b
                  | Some p \<Rightarrow>
                      with_session i (\<lambda>s. s\<lparr>qos2_inflight := (qos2_inflight s)(pid := None)\<rparr>)
                        (deliver_publish (pq_topic p) (pq_payload p) 2 (pq_retain p) (pq_extras p) b))
        in send_packet i 0x70 (put_u16_be [] pid) b1)"

section \<open>The dispatch loop\<close>

text \<open>One packet: (stop the session, it was a DISCONNECT, the broker).\<close>

definition dispatch_packet :: "sid \<Rightarrow> Packet \<Rightarrow> NativeBroker \<Rightarrow> bool \<times> bool \<times> NativeBroker" where
  "dispatch_packet i pkt b0 =
     (let b = with_session i (\<lambda>s. s\<lparr>last_activity := now b0\<rparr>) b0;
          ty = type_flags pkt AND 0xF0;
          handled = (\<lambda>(ok, b'). (\<not> ok, False, b'))
      in if ty = 0x10 then handled (handle_connect i pkt b)
         else if ty = 0x80 then handled (handle_subscribe i pkt b)
         else if ty = 0x30 then handled (handle_publish i pkt b)
         else if ty = 0x60 then handled (handle_pubrel i pkt b)
         else if ty = 0xC0 then handled (send_packet i 0xD0 [] b)
         else if ty = 0xE0 then (True, True, with_session i (\<lambda>s. s\<lparr>has_will := False\<rparr>) b)
         else (False, False, b))"

text \<open>
  The inner loop of \<open>on_reactor_ready\<close> and of \<open>session_loop\<close>, on the bytes buffered: the result has the
  position reached.
\<close>

function dispatch_loop :: "sid \<Rightarrow> byte list \<Rightarrow> nat \<Rightarrow> NativeBroker \<Rightarrow> bool \<times> bool \<times> nat \<times> NativeBroker" where
  "dispatch_loop i buf pos b =
     (if kicked (heap b i) then (True, False, pos, send_disconnect i 0x8E b)
      else case try_parse_packet buf pos of
        Inl e \<Rightarrow> (e = Malformed, False, pos, b)
      | Inr (pkt, pos') \<Rightarrow>
          (case dispatch_packet i pkt b of
             (stop, clean, b1) \<Rightarrow> if stop then (True, clean, pos', b1) else dispatch_loop i buf pos' b1))"
  by pat_completeness auto
termination
  by (relation "measure (\<lambda>(i, buf, pos, b). length buf - pos)")
     (auto dest!: try_parse_packet_progress)

declare dispatch_loop.simps [simp del]

definition process_input :: "sid \<Rightarrow> byte list \<Rightarrow> NativeBroker \<Rightarrow> bool \<times> bool \<times> NativeBroker" where
  "process_input i got b =
     (let buf = read_buf (heap b i) @ got in
      case dispatch_loop i buf 0 b of
        (stop, clean, pos, b1) \<Rightarrow> (stop, clean, with_session i (\<lambda>s. s\<lparr>read_buf := drop pos buf\<rparr>) b1))"

section \<open>Teardown\<close>

definition store_session :: "sid \<Rightarrow> NativeBroker \<Rightarrow> NativeBroker" where
  "store_session i b =
     (let s = heap b i; cid = client_id s in
      if cid = [] \<or> client_sessions b cid \<noteq> Some i then b
      else
        let b1 = b\<lparr>client_sessions := (client_sessions b)(cid := None)\<rparr> in
        if clean_session s then b1
        else b1\<lparr>stored_sessions := (stored_sessions b1)(cid \<mapsto>
               \<lparr>ss_subs = subs s, ss_queued = [],
                ss_expires_at = map_option (\<lambda>n. now b + unat n * second) (s_session_expiry_interval s)\<rparr>)\<rparr>)"

definition close_session :: "Session \<Rightarrow> Session" where
  "close_session s = (if is_reactor_session s then discard_outbound s else s)\<lparr>fd_open := False\<rparr>"

definition teardown_session :: "sid \<Rightarrow> bool \<Rightarrow> NativeBroker \<Rightarrow> NativeBroker" where
  "teardown_session i clean b =
     (let s = heap b i;
          b1 = (if \<not> clean \<and> has_will s
                then deliver_publish (will_topic s) (will_payload s) (will_qos s) (will_retain s) (will_extras s) b
                else b)
      in with_session i close_session (remove_session i (store_session i b1)))"

section \<open>Reading back a length-prefixed string\<close>

lemma read_field_put_str:
  assumes "length str < 65536"
  shows "read_field (put_str [] str @ rest) 0 = Some (bytes_of_string str, 2 + length str)"
proof -
  have two: "be_bytes 2 (of_nat (length str) :: u16) = [put_str [] str ! 0, put_str [] str ! 1]"
    by (simp add: put_str_def put_u16_be_def be_bytes_def numeral_2_eq_2)
  have "be_value (be_bytes 2 (of_nat (length str) :: u16)) = (of_nat (length str) :: u16)"
    by (rule be_value_be_bytes) simp
  then have v: "unat (be_value [put_str [] str ! 0, put_str [] str ! 1] :: u16) = length str"
    unfolding two [symmetric] using assms by (simp add: unat_of_nat)
  have l: "length (put_str [] str) = 2 + length str" "drop 2 (put_str [] str) = bytes_of_string str"
    by (simp_all add: put_str_def put_u16_be_def)
  then have "(put_str [] str @ rest) ! 0 = put_str [] str ! 0" "(put_str [] str @ rest) ! 1 = put_str [] str ! 1"
    by (simp_all add: nth_append)
  with l v show ?thesis by (simp add: read_field_def read_u16_at_def numeral_2_eq_2)
qed

end
