(* ===== verification/Broker_Machine.thy ===== *)
theory Broker_Machine
  imports Broker_Handlers
begin

text \<open>
  The broker as a machine. An event is one atomic call of the running program: a connection accepted,
  the reactor's readiness callback, its next posted task or its keep-alive timer, one round of a
  legacy session's thread, one round of a hand-off worker, a relayed PUBLISH, or time passing. What
  the operating system returns (the bytes received, the outcomes of future sends, the address of a
  new session object) is part of the event, so a run over all event lists is a run over all
  schedules at the granularity of these calls.
\<close>

section \<open>Reactor entry points\<close>

definition on_reactor_ready :: "sid \<Rightarrow> bool \<Rightarrow> bool \<Rightarrow> bool \<Rightarrow> rx \<Rightarrow> NativeBroker \<Rightarrow> NativeBroker" where
  "on_reactor_ready i ein eout ehup got b =
     (if teardown_scheduled (heap b i) then b
      else
        let b1 = (if eout then try_drain_reactor_send i b else b) in
        if teardown_scheduled (heap b1 i) then b1
        else if \<not> (ein \<or> ehup) then b1
        else case got of
          RxChunk bs \<Rightarrow>
            if bs = [] then schedule_reactor_teardown i False b1
            else (case process_input i bs b1 of
              (stop, clean, b2) \<Rightarrow> if stop then schedule_reactor_teardown i clean b2 else b2)
        | RxWouldBlock \<Rightarrow> if ehup then schedule_reactor_teardown i False b1 else b1
        | _ \<Rightarrow> schedule_reactor_teardown i False b1)"

definition keep_alive_sweep :: "sid \<Rightarrow> NativeBroker \<Rightarrow> NativeBroker" where
  "keep_alive_sweep i b =
     (if teardown_scheduled (heap b i) then b
      else if keep_alive_expired (now b) (heap b i)
      then schedule_reactor_teardown i False (send_disconnect i 0x8D b)
      else b)"

text \<open>The bodies of the posted tasks.\<close>

fun run_task :: "reactor_task \<Rightarrow> NativeBroker \<Rightarrow> NativeBroker" where
  "run_task (RegisterSession i) b = with_session i (\<lambda>s. s\<lparr>poll_in := True, poll_out := False\<rparr>) b"
| "run_task (ModFd i out) b = with_session i (\<lambda>s. s\<lparr>poll_out := out\<rparr>) b"
| "run_task (TeardownTask i clean) b =
     teardown_session i clean
       (with_session i (\<lambda>s. s\<lparr>poll_in := False, poll_out := False\<rparr>) (try_drain_reactor_send i b))"
| "run_task (FanoutTask topic payload extras ds offset) b =
     route_publish_reactor_batch topic payload extras ds offset b"

definition run_posted :: "NativeBroker \<Rightarrow> NativeBroker" where
  "run_posted b = (case posted b of [] \<Rightarrow> b | t # ts \<Rightarrow> run_task t (b\<lparr>posted := ts\<rparr>))"

section \<open>Legacy sessions\<close>

datatype legacy_input = PollFailed | PollTimeout | PollReady rx

text \<open>One round of \<open>session_loop\<close>; leaving the loop is the teardown.\<close>

definition session_round :: "sid \<Rightarrow> legacy_input \<Rightarrow> NativeBroker \<Rightarrow> NativeBroker" where
  "session_round i inp b =
     (if kicked (heap b i) then teardown_session i False (send_disconnect i 0x8E b)
      else case inp of
        PollFailed \<Rightarrow> teardown_session i False b
      | PollTimeout \<Rightarrow>
          if keep_alive_expired (now b) (heap b i) then teardown_session i False (send_disconnect i 0x8D b) else b
      | PollReady (RxChunk bs) \<Rightarrow>
          if bs = [] then teardown_session i False b
          else (case process_input i bs b of
            (stop, clean, b1) \<Rightarrow> if stop then teardown_session i clean b1 else b1)
      | PollReady RxWouldBlock \<Rightarrow> b
      | PollReady _ \<Rightarrow> teardown_session i False b)"

section \<open>Accepting\<close>

definition accept_plain :: "sid \<Rightarrow> send_script \<Rightarrow> NativeBroker \<Rightarrow> NativeBroker" where
  "accept_plain i sc b =
     post (RegisterSession i)
       (b\<lparr>heap := (heap b)(i := new_Session True (now b) sc), allocated := i # allocated b,
          sessions := sessions b @ [i]\<rparr>)"

definition accept_tls :: "sid \<Rightarrow> send_script \<Rightarrow> NativeBroker \<Rightarrow> NativeBroker" where
  "accept_tls i sc b =
     b\<lparr>heap := (heap b)(i := new_Session False (now b) sc), allocated := i # allocated b,
       sessions := sessions b @ [i]\<rparr>"

section \<open>Events\<close>

datatype event =
    Accept sid send_script
  | AcceptTls sid send_script
  | Ready sid bool bool bool rx
  | RunTask
  | KeepAliveTimer sid
  | LegacyRound sid legacy_input
  | HandoffRound
  | RemotePublish string "byte list" u8 "nat option" PublishProperties
  | Tick nat

definition on_reactor :: "NativeBroker \<Rightarrow> NativeBroker" where
  "on_reactor b = b\<lparr>on_reactor_thread := True\<rparr>"

definition off_reactor :: "NativeBroker \<Rightarrow> NativeBroker" where
  "off_reactor b = b\<lparr>on_reactor_thread := False\<rparr>"

fun handle_event :: "NativeBroker \<Rightarrow> event \<Rightarrow> NativeBroker" where
  "handle_event b (Accept i sc) = (if i \<in> set (allocated b) then b else accept_plain i sc (off_reactor b))"
| "handle_event b (AcceptTls i sc) = (if i \<in> set (allocated b) then b else accept_tls i sc (off_reactor b))"
| "handle_event b (Ready i ein eout ehup got) =
     (if i \<in> set (sessions b) \<and> poll_in (heap b i)
      then on_reactor_ready i ein eout ehup got (on_reactor b) else b)"
| "handle_event b RunTask = run_posted (on_reactor b)"
| "handle_event b (KeepAliveTimer i) =
     (if i \<in> set (sessions b) \<and> poll_in (heap b i) then keep_alive_sweep i (on_reactor b) else b)"
| "handle_event b (LegacyRound i inp) =
     (if i \<in> set (sessions b) \<and> \<not> is_reactor_session (heap b i)
      then session_round i inp (off_reactor b) else b)"
| "handle_event b HandoffRound = handoff_worker_step (off_reactor b)"
| "handle_event b (RemotePublish topic payload qos expiry props) =
     deliver_remote_publish topic payload qos expiry props (off_reactor b)"
| "handle_event b (Tick d) = b\<lparr>now := now b + d\<rparr>"

section \<open>Stopping\<close>

text \<open>
  \<open>stop()\<close> once the accept loops and the reactor have ended: the hand-off workers empty their queue,
  every legacy thread leaves its loop and tears its session down, then the remaining reactor sessions
  are torn down. Posted tasks no longer run.
\<close>

definition tear_all :: "sid list \<Rightarrow> NativeBroker \<Rightarrow> NativeBroker" where
  "tear_all is b = fold (\<lambda>i. teardown_session i False) is b"

definition stop_broker :: "NativeBroker \<Rightarrow> NativeBroker" where
  "stop_broker b0 =
     (let b = (handoff_worker_step ^^ length (handoff_queue b0)) (off_reactor (b0\<lparr>posted := []\<rparr>));
          b = tear_all (filter (\<lambda>i. \<not> is_reactor_session (heap b i)) (sessions b)) b;
          rs = filter (\<lambda>i. is_reactor_session (heap b i)) (sessions b)
      in tear_all rs (b\<lparr>sessions := []\<rparr>))"

end
