(* ===== verification/Broker_Frame.thy ===== *)
theory Broker_Frame
  imports Broker_Machine
begin

text \<open>
  What sending leaves alone. \<open>core\<close> is the broker without the outbound machinery: the queues, the
  socket scripts and wires, the packet-identifier counter and the reactor's tasks. Every operation that
  only sends keeps \<open>core\<close>, so a fact about subscriptions, tables or logs is a fact of \<open>core\<close>.
\<close>

section \<open>The core of a session and of the broker\<close>

definition erase_out :: "Session \<Rightarrow> Session" where
  "erase_out s =
     s\<lparr>out_queue := [], out_current := [], out_sent := 0, write_interest_armed := False,
       teardown_scheduled := False, outbound_topic_aliases := [], poll_out := False, sock_script := [],
       sock_wire := []\<rparr>"

definition core :: "NativeBroker \<Rightarrow> NativeBroker" where
  "core b = b\<lparr>heap := (\<lambda>i. erase_out (heap b i)), packet_id := 0, posted := [], handoff_queue := []\<rparr>"

lemma erase_out_simps [simp]:
  "erase_out (s\<lparr>out_queue := q\<rparr>) = erase_out s"
  "erase_out (s\<lparr>out_current := c\<rparr>) = erase_out s"
  "erase_out (s\<lparr>out_sent := n\<rparr>) = erase_out s"
  "erase_out (s\<lparr>write_interest_armed := x\<rparr>) = erase_out s"
  "erase_out (s\<lparr>teardown_scheduled := x\<rparr>) = erase_out s"
  "erase_out (s\<lparr>outbound_topic_aliases := al\<rparr>) = erase_out s"
  "erase_out (s\<lparr>poll_out := x\<rparr>) = erase_out s"
  "erase_out (s\<lparr>sock_script := sc\<rparr>) = erase_out s"
  "erase_out (s\<lparr>sock_wire := w\<rparr>) = erase_out s"
  by (simp_all add: erase_out_def)

lemma core_simps [simp]:
  "core (b\<lparr>packet_id := c\<rparr>) = core b"
  "core (b\<lparr>posted := ts\<rparr>) = core b"
  "core (b\<lparr>handoff_queue := q\<rparr>) = core b"
  by (simp_all add: core_def)

lemma core_heap_upd [simp]: "erase_out s = erase_out (heap b i) \<Longrightarrow> core (b\<lparr>heap := (heap b)(i := s)\<rparr>) = core b"
proof -
  assume "erase_out s = erase_out (heap b i)"
  then have "(\<lambda>j. erase_out (((heap b)(i := s)) j)) = (\<lambda>j. erase_out (heap b j))" by auto
  then show ?thesis by (simp add: core_def)
qed

lemma core_heap_upd2 [simp]:
  "erase_out s = erase_out (heap b i) \<Longrightarrow> core (b\<lparr>heap := (heap b)(i := s), packet_id := c\<rparr>) = core b"
  using core_heap_upd [of s b i] by (simp only: core_simps)

lemma core_post [simp]: "core (post t b) = core b"
  by (simp add: post_def)

lemma core_with_session [simp]: "(\<And>s. erase_out (f s) = erase_out s) \<Longrightarrow> core (with_session i f b) = core b"
  by (simp add: with_session_def)

text \<open>What \<open>core\<close> shows.\<close>

lemma core_sessions [simp]: "sessions (core b) = sessions b"
  and core_allocated [simp]: "allocated (core b) = allocated b"
  and core_exact [simp]: "exact_topic_index (core b) = exact_topic_index b"
  and core_wild [simp]: "wildcard_subscribers (core b) = wildcard_subscribers b"
  and core_cursor [simp]: "shared_group_cursor (core b) = shared_group_cursor b"
  and core_retained [simp]: "retained (core b) = retained b"
  and core_clients [simp]: "client_sessions (core b) = client_sessions b"
  and core_stored [simp]: "stored_sessions (core b) = stored_sessions b"
  and core_ingested [simp]: "ingested (core b) = ingested b"
  and core_forwarded [simp]: "forwarded (core b) = forwarded b"
  and core_now [simp]: "now (core b) = now b"
  and core_thread [simp]: "on_reactor_thread (core b) = on_reactor_thread b"
  and core_authn [simp]: "cfg_authenticate (core b) = cfg_authenticate b"
  and core_authz [simp]: "cfg_authorizer (core b) = cfg_authorizer b"
  and core_onpub [simp]: "on_publish_set (core b) = on_publish_set b"
  and core_fwd [simp]: "peer_forwarder_set (core b) = peer_forwarder_set b"
  and core_heap [simp]: "heap (core b) i = erase_out (heap b i)"
  by (simp_all add: core_def)

lemma erase_out_fields [simp]:
  "is_reactor_session (erase_out s) = is_reactor_session s"
  "subs (erase_out s) = subs s"
  "read_buf (erase_out s) = read_buf s"
  "client_id (erase_out s) = client_id s"
  "keep_alive_s (erase_out s) = keep_alive_s s"
  "clean_session (erase_out s) = clean_session s"
  "protocol_version (erase_out s) = protocol_version s"
  "s_session_expiry_interval (erase_out s) = s_session_expiry_interval s"
  "max_packet_size (erase_out s) = max_packet_size s"
  "last_activity (erase_out s) = last_activity s"
  "kicked (erase_out s) = kicked s"
  "has_will (erase_out s) = has_will s"
  "will_topic (erase_out s) = will_topic s"
  "will_payload (erase_out s) = will_payload s"
  "will_qos (erase_out s) = will_qos s"
  "will_retain (erase_out s) = will_retain s"
  "will_extras (erase_out s) = will_extras s"
  "s_principal (erase_out s) = s_principal s"
  "qos2_inflight (erase_out s) = qos2_inflight s"
  "topic_aliases (erase_out s) = topic_aliases s"
  "client_topic_alias_max (erase_out s) = client_topic_alias_max s"
  "fd_open (erase_out s) = fd_open s"
  "poll_in (erase_out s) = poll_in s"
  by (simp_all add: erase_out_def)

section \<open>Sending keeps the core\<close>

lemma erase_out_alias [simp]: "outbound_alias topic s = (a, f, s') \<Longrightarrow> erase_out s' = erase_out s"
  by (auto simp: outbound_alias_def Let_def split: option.splits if_splits)

lemma erase_out_build: "build_publish t topic payload qos extras s c = (r, s', c') \<Longrightarrow> erase_out s' = erase_out s"
  by (auto simp: build_publish_def publish_body_def Let_def split: option.splits if_splits prod.splits
      dest: erase_out_alias)

lemma erase_out_fill: "fill_current t q s c = (s', c') \<Longrightarrow> erase_out s' = erase_out s"
proof (induction t q s c arbitrary: s' c' rule: fill_current.induct)
  case (2 t item q s c)
  show ?case
  proof (cases item)
    case (QueuedOutboundRaw tf bs)
    with 2 show ?thesis by (fastforce split: if_splits)
  next
    case (QueuedOutboundPublish topic payload qos retain extras)
    obtain r s1 c1 where b: "build_publish t topic payload qos extras s c = (r, s1, c1)"
      by (metis prod_cases3)
    with 2 QueuedOutboundPublish erase_out_build [OF b] show ?thesis
      by (cases r) (fastforce split: if_splits)+
  qed
qed auto

lemma erase_out_discard [simp]: "erase_out (discard_outbound s) = erase_out s"
  by (simp add: discard_outbound_def)

lemma erase_out_accept [simp]: "erase_out (accept_bytes n s) = erase_out s"
  by (simp add: accept_bytes_def Let_def)

lemma erase_out_drain: "drain_send t sc s c = (e, s', c') \<Longrightarrow> erase_out s' = erase_out s"
proof (induction sc arbitrary: s c)
  case Nil
  obtain s1 c1 where f: "fill_current t (out_queue s) s c = (s1, c1)" by (metis surj_pair)
  with Nil erase_out_fill [OF f] show ?case by (subst (asm) drain_send.simps) (auto split: if_splits)
next
  case (Cons a sc)
  obtain s1 c1 where f: "fill_current t (out_queue s) s c = (s1, c1)" by (metis surj_pair)
  with Cons erase_out_fill [OF f] show ?case
    by (subst (asm) drain_send.simps) (cases a; fastforce split: if_splits send_outcome.splits)
qed

lemma core_schedule [simp]: "core (schedule_reactor_teardown i clean b) = core b"
  by (simp add: schedule_reactor_teardown_def)

lemma core_mod_fd [simp]: "core (mod_fd i out b) = core b"
  by (simp add: mod_fd_def)

lemma core_arm [simp]: "core (arm_write_interest i b) = core b"
  by (simp add: arm_write_interest_def)

lemma core_try_drain [simp]: "core (try_drain_reactor_send i b) = core b"
proof -
  obtain e s c where d: "drain_send (now b) (live_script (heap b i)) (heap b i) (packet_id b) = (e, s, c)"
    by (metis prod_cases3)
  from erase_out_drain [OF d] d show ?thesis
    by (simp add: try_drain_reactor_send_def Let_def split: drain_end.split)
qed

lemma core_enqueue_reactor [simp]: "core (enqueue_reactor_publish i topic payload qos retain extras b) = core b"
  by (simp add: enqueue_reactor_publish_def)

lemma core_send_packet [simp]: "core (snd (send_packet i tf bs b)) = core b"
  by (auto simp: send_packet_def legacy_write_def split: prod.split)

lemma core_send_packetD: "send_packet i tf bs b = (ok, b') \<Longrightarrow> core b' = core b"
  using core_send_packet [of i tf bs b] by simp

lemma core_send_disconnect [simp]: "core (send_disconnect i r b) = core b"
  by (simp add: send_disconnect_def)

lemma core_publish_to [simp]: "core (snd (publish_to i topic payload qos retain extras b)) = core b"
proof -
  obtain r s c where d: "build_publish (now b) topic payload qos extras (heap b i) (packet_id b) = (r, s, c)"
    by (metis prod_cases3)
  from erase_out_build [OF d] d show ?thesis
    by (simp add: publish_to_def Let_def split: option.split)
qed

lemma core_publish_toD: "publish_to i topic payload qos retain extras b = (ok, b') \<Longrightarrow> core b' = core b"
  using core_publish_to [of i topic payload qos retain extras b] by simp

lemma core_handoff_enqueue [simp]: "core (enqueue_legacy_handoff i topic payload qos retain extras b) = core b"
  by (simp add: enqueue_legacy_handoff_def Let_def)

lemma core_handoff_step [simp]: "core (handoff_worker_step b) = core b"
proof (cases "handoff_queue b")
  case Nil
  then show ?thesis by (simp add: handoff_worker_step_def)
next
  case (Cons item q)
  obtain r s c where d: "build_publish (now b) (lh_topic item) (lh_payload item) (lh_qos item) (lh_extras item)
      (heap b (lh_target item)) (packet_id b) = (r, s, c)"
    by (metis prod_cases3)
  have "core (b\<lparr>handoff_queue := q, heap := (heap b)(lh_target item := s), packet_id := c\<rparr>) = core b"
    using core_heap_upd2 [of s "b\<lparr>handoff_queue := q\<rparr>" "lh_target item" c] erase_out_build [OF d] by simp
  then show ?thesis using Cons d
    by (auto simp: handoff_worker_step_def Let_def split: option.split prod.split)
qed

lemma core_dispatch_on_reactor [simp]: "core (dispatch_on_reactor topic payload extras d b) = core b"
  by (simp add: dispatch_on_reactor_def split: prod.split)

lemma core_dispatch_inline [simp]: "core (dispatch_inline topic payload extras d b) = core b"
  by (simp add: dispatch_inline_def split: prod.split)

lemma core_fold_dispatch [simp]: "core (fold (dispatch_on_reactor topic payload extras) ds b) = core b"
  by (induction ds arbitrary: b) auto

lemma core_batch [simp]: "core (route_publish_reactor_batch topic payload extras ds offset b) = core b"
  by (simp add: route_publish_reactor_batch_def Let_def)

lemma core_flush [simp]: "core (snd (flush_queued i ms b)) = core b"
proof (induction ms arbitrary: b)
  case (Cons m ms)
  obtain ok b1 where p: "publish_to i (qm_topic m) (qm_payload m) (qm_qos m) False (qm_extras m) b = (ok, b1)"
    by (metis surj_pair)
  with Cons core_publish_toD [OF p] show ?case by simp
qed simp

lemma core_replay_one [simp]: "core (snd (replay_one i sub rs b)) = core b"
proof (induction i sub rs b rule: replay_one.induct)
  case (2 i sub topic msg rest b)
  obtain ok b1 where p: "publish_to i topic (rm_payload msg) (sub_qos sub) True (rm_extras msg) b = (ok, b1)"
    by (metis surj_pair)
  with 2 core_publish_toD [OF p] show ?case by simp
qed simp

lemma core_replay_retained [simp]: "core (snd (replay_retained i added b)) = core b"
proof (induction i added b rule: replay_retained.induct)
  case (2 i sub rest b)
  obtain ok b1 where p: "replay_one i sub (retained b) b = (ok, b1)" by (metis surj_pair)
  with 2 core_replay_one [of i sub "retained b" b] show ?case by simp
qed simp

section \<open>Routing and delivering\<close>

lemma core_upd [simp]:
  "core (b\<lparr>shared_group_cursor := cur\<rparr>) = (core b)\<lparr>shared_group_cursor := cur\<rparr>"
  "core (b\<lparr>stored_sessions := st\<rparr>) = (core b)\<lparr>stored_sessions := st\<rparr>"
  "core (b\<lparr>retained := r\<rparr>) = (core b)\<lparr>retained := r\<rparr>"
  "core (b\<lparr>ingested := g\<rparr>) = (core b)\<lparr>ingested := g\<rparr>"
  "core (b\<lparr>forwarded := f\<rparr>) = (core b)\<lparr>forwarded := f\<rparr>"
  "core (b\<lparr>client_sessions := cs\<rparr>) = (core b)\<lparr>client_sessions := cs\<rparr>"
  "core (b\<lparr>sessions := ss\<rparr>) = (core b)\<lparr>sessions := ss\<rparr>"
  "core (b\<lparr>exact_topic_index := e\<rparr>) = (core b)\<lparr>exact_topic_index := e\<rparr>"
  "core (b\<lparr>wildcard_subscribers := w\<rparr>) = (core b)\<lparr>wildcard_subscribers := w\<rparr>"
  by (simp_all add: core_def)

lemma core_inline_sub: "core (fst (inline_sub topic payload qos extras i sub st)) = core (fst st)"
  by (cases st) (simp split: option.split)

lemma core_inline_session: "core (fst (inline_session topic payload qos extras i st)) = core (fst st)"
proof -
  have "core (fst (fold (inline_sub topic payload qos extras i) ss st)) = core (fst st)" for ss
    by (induction ss arbitrary: st) (auto simp: core_inline_sub)
  then show ?thesis by (simp add: inline_session_def)
qed

lemma core_inline_sessions:
  "core (fst (fold (inline_session topic payload qos extras) is st)) = core (fst st)"
  by (induction "is" arbitrary: st) (auto simp: core_inline_session)

lemma core_inline_winners:
  "\<exists>cur. core (fold (inline_winner topic payload qos extras) gs b) = (core b)\<lparr>shared_group_cursor := cur\<rparr>"
proof (induction gs arbitrary: b)
  case Nil
  then show ?case by (auto intro: exI [of _ "shared_group_cursor b"])
next
  case (Cons g gs)
  obtain w cur where p: "pick_winner qos g (shared_group_cursor b) = (w, cur)" by (metis surj_pair)
  then have "core (inline_winner topic payload qos extras g b) = (core b)\<lparr>shared_group_cursor := cur\<rparr>"
    by (simp add: inline_winner_def)
  with Cons [of "inline_winner topic payload qos extras g b"] show ?case by auto
qed

text \<open>The stored sessions after a PUBLISH is routed.\<close>

definition offline ::
  "string \<Rightarrow> byte list \<Rightarrow> u8 \<Rightarrow> PublishExtras \<Rightarrow> (string \<rightharpoonup> StoredSession) \<Rightarrow> (string \<rightharpoonup> StoredSession)" where
  "offline topic payload qos extras st =
     (if qos = 0 then st else (\<lambda>cid. map_option (queue_offline topic payload qos extras) (st cid)))"

lemma core_route_live: "\<exists>cur. core (route_live topic payload qos extras b) = (core b)\<lparr>shared_group_cursor := cur\<rparr>"
proof (cases "on_reactor_thread b")
  case True
  then show ?thesis by (auto simp: route_live_def split: prod.split)
next
  case False
  obtain b' gs where f: "fold (inline_session topic payload qos extras) (topic_index_candidates topic b) (b, []) = (b', gs)"
    by (metis surj_pair)
  have "core b' = core b" using core_inline_sessions [of topic payload qos extras _ "(b, [])"] f
    by (metis fst_conv)
  with core_inline_winners [of topic payload qos extras gs b'] f False show ?thesis
    by (simp add: route_live_def)
qed

lemma stored_route_live [simp]: "stored_sessions (route_live topic payload qos extras b) = stored_sessions b"
proof -
  obtain cur where "core (route_live topic payload qos extras b) = (core b)\<lparr>shared_group_cursor := cur\<rparr>"
    using core_route_live by blast
  from arg_cong [OF this, of stored_sessions] show ?thesis by simp
qed

lemma core_route_publish:
  "\<exists>cur. core (route_publish topic payload qos extras b) =
     (core b)\<lparr>shared_group_cursor := cur, stored_sessions := offline topic payload qos extras (stored_sessions b)\<rparr>"
proof -
  obtain cur where c: "core (route_live topic payload qos extras b) = (core b)\<lparr>shared_group_cursor := cur\<rparr>"
    using core_route_live by blast
  have same: "(core b)\<lparr>shared_group_cursor := cur\<rparr> = (core b)\<lparr>shared_group_cursor := cur, stored_sessions := stored_sessions b\<rparr>"
    by (cases b) (simp add: core_def)
  show ?thesis
  proof (cases "qos = 0")
    case True
    then have "core (route_publish topic payload qos extras b) = core (route_live topic payload qos extras b)"
      and o: "offline topic payload qos extras (stored_sessions b) = stored_sessions b"
      by (simp_all add: route_publish_def offline_def)
    then show ?thesis unfolding o using c same by (intro exI [of _ cur]) (simp only:)
  next
    case False
    with c show ?thesis by (auto simp: route_publish_def Let_def offline_def)
  qed
qed

text \<open>Everything but the delivery bookkeeping of a PUBLISH: the core with four tables blanked.\<close>

definition quiet :: "NativeBroker \<Rightarrow> NativeBroker" where
  "quiet b = (core b)\<lparr>shared_group_cursor := (\<lambda>_. 0), stored_sessions := Map.empty, retained := [],
     ingested := [], forwarded := []\<rparr>"

lemma quiet_route [simp]: "quiet (route_publish topic payload qos extras b) = quiet b"
  using core_route_publish [of topic payload qos extras b] by (auto simp: quiet_def)

lemma core_route_fields [simp]:
  "retained (route_publish topic payload qos extras b) = retained b"
  "ingested (route_publish topic payload qos extras b) = ingested b"
  "forwarded (route_publish topic payload qos extras b) = forwarded b"
  "now (route_publish topic payload qos extras b) = now b"
  "peer_forwarder_set (route_publish topic payload qos extras b) = peer_forwarder_set b"
  "stored_sessions (route_publish topic payload qos extras b) = offline topic payload qos extras (stored_sessions b)"
proof -
  obtain cur where c: "core (route_publish topic payload qos extras b) =
     (core b)\<lparr>shared_group_cursor := cur, stored_sessions := offline topic payload qos extras (stored_sessions b)\<rparr>"
    using core_route_publish by blast
  show "retained (route_publish topic payload qos extras b) = retained b"
    "ingested (route_publish topic payload qos extras b) = ingested b"
    "forwarded (route_publish topic payload qos extras b) = forwarded b"
    "now (route_publish topic payload qos extras b) = now b"
    "peer_forwarder_set (route_publish topic payload qos extras b) = peer_forwarder_set b"
    "stored_sessions (route_publish topic payload qos extras b) = offline topic payload qos extras (stored_sessions b)"
    using arg_cong [OF c, of retained] arg_cong [OF c, of ingested] arg_cong [OF c, of forwarded]
      arg_cong [OF c, of now] arg_cong [OF c, of peer_forwarder_set] arg_cong [OF c, of stored_sessions]
    by simp_all
qed

lemma quiet_upd [simp]:
  "quiet (b\<lparr>retained := r\<rparr>) = quiet b"
  "quiet (b\<lparr>ingested := g\<rparr>) = quiet b"
  "quiet (b\<lparr>forwarded := f\<rparr>) = quiet b"
  by (simp_all add: quiet_def)

lemma quiet_deliver [simp]: "quiet (deliver_publish topic payload qos retain extras b) = quiet b"
  by (simp add: deliver_publish_def retain_message_def ingest_def forward_to_peers_def Let_def)

lemma quiet_remote [simp]: "quiet (deliver_remote_publish topic payload qos ex props b) = quiet b"
  by (simp add: deliver_remote_publish_def ingest_def Let_def)

lemma deliver_publish_fields:
  "retained (deliver_publish topic payload qos retain extras b)
     = (if retain then retained (retain_message topic payload extras b) else retained b)"
  "ingested (deliver_publish topic payload qos retain extras b)
     = ingested b @ (if on_publish_set b then [(topic, payload, qos, to_publish_properties extras)] else [])"
  "stored_sessions (deliver_publish topic payload qos retain extras b)
     = offline topic payload qos extras (stored_sessions b)"
  by (simp_all add: deliver_publish_def retain_message_def ingest_def forward_to_peers_def Let_def)

text \<open>A fact of \<open>quiet\<close> at a glance: what delivering a PUBLISH cannot change.\<close>

lemma quiet_fields [simp]:
  "sessions (quiet b) = sessions b"
  "allocated (quiet b) = allocated b"
  "exact_topic_index (quiet b) = exact_topic_index b"
  "wildcard_subscribers (quiet b) = wildcard_subscribers b"
  "client_sessions (quiet b) = client_sessions b"
  "heap (quiet b) i = erase_out (heap b i)"
  "now (quiet b) = now b"
  "on_reactor_thread (quiet b) = on_reactor_thread b"
  "cfg_authenticate (quiet b) = cfg_authenticate b"
  "cfg_authorizer (quiet b) = cfg_authorizer b"
  by (simp_all add: quiet_def)

lemma quiet_of_core: "core b' = core b \<Longrightarrow> quiet b' = quiet b"
  by (simp add: quiet_def)

end
