(* ===== verification/Broker_Inv.thy ===== *)
theory Broker_Inv
  imports Broker_Frame
begin

text \<open>
  The broker's invariant, kept by every event: each live session's subscriptions are in the topic
  index, every granted QoS is 0 or 1, each offline queue is within its cap, and the retained table has
  one non-empty message per topic. The consequence the routing rests on: scanning the index
  candidates delivers exactly what scanning all sessions would.
\<close>

section \<open>The invariant\<close>

definition indexed :: "NativeBroker \<Rightarrow> sid \<Rightarrow> string \<Rightarrow> bool" where
  "indexed b i f =
     (if filter_has_wildcard f then i \<in> set (wildcard_subscribers b)
      else (case exact_topic_index b f of None \<Rightarrow> False | Some l \<Rightarrow> i \<in> set l))"

definition subs_fine :: "Subscription list \<Rightarrow> bool" where
  "subs_fine ss \<longleftrightarrow> (\<forall>sub \<in> set ss. sub_qos sub \<le> 1)"

definition live_ok :: "NativeBroker \<Rightarrow> bool" where
  "live_ok b \<longleftrightarrow> distinct (sessions b) \<and> set (sessions b) \<subseteq> set (allocated b) \<and>
     (\<forall>i. subs_fine (subs (heap b i))) \<and>
     (\<forall>i \<in> set (sessions b). \<forall>sub \<in> set (subs (heap b i)). indexed b i (sub_filter sub))"

definition stored_fine :: "StoredSession \<Rightarrow> bool" where
  "stored_fine st \<longleftrightarrow> length (ss_queued st) \<le> kQueuedMessageCap \<and> subs_fine (ss_subs st) \<and>
     (\<forall>m \<in> set (ss_queued st). qm_qos m \<le> 1)"

definition stored_ok :: "(string \<rightharpoonup> StoredSession) \<Rightarrow> bool" where
  "stored_ok tbl \<longleftrightarrow> (\<forall>cid st. tbl cid = Some st \<longrightarrow> stored_fine st)"

definition retained_ok :: "(string \<times> RetainedMessage) list \<Rightarrow> bool" where
  "retained_ok rs \<longleftrightarrow> distinct (map fst rs) \<and> (\<forall>r \<in> set rs. rm_payload (snd r) \<noteq> [])"

definition broker_inv :: "NativeBroker \<Rightarrow> bool" where
  "broker_inv b \<longleftrightarrow> live_ok b \<and> stored_ok (stored_sessions b) \<and> retained_ok (retained b)"

lemma live_ok_quiet: "live_ok (quiet b) = live_ok b"
  by (simp add: live_ok_def indexed_def)

lemma live_ok_cong: "quiet b' = quiet b \<Longrightarrow> live_ok b' = live_ok b"
  by (metis live_ok_quiet)

lemma broker_inv_cong:
  assumes "core b' = core b"
  shows "broker_inv b' = broker_inv b"
proof -
  have "stored_sessions b' = stored_sessions b" "retained b' = retained b"
    using core_stored [of b'] core_retained [of b'] assms by simp_all
  with live_ok_cong [OF quiet_of_core [OF assms]] show ?thesis by (simp add: broker_inv_def)
qed

lemmas core_keeping =
  core_send_packet core_send_disconnect core_schedule core_try_drain core_publish_to core_flush
  core_replay_retained core_handoff_step core_batch core_post

lemmas inv_keeping [simp] = core_keeping [THEN broker_inv_cong]

lemma live_ok_with_session:
  "(\<And>s. subs (f s) = subs s) \<Longrightarrow> live_ok (with_session i f b) = live_ok b"
  by (auto simp: live_ok_def indexed_def with_session_def)

lemma broker_inv_with_session [simp]:
  "(\<And>s. subs (f s) = subs s) \<Longrightarrow> broker_inv (with_session i f b) = broker_inv b"
  using live_ok_with_session [of f i b] by (simp add: broker_inv_def with_session_def)

lemma broker_inv_upd [simp]:
  "broker_inv (b\<lparr>client_sessions := cs\<rparr>) = broker_inv b"
  "broker_inv (b\<lparr>now := t\<rparr>) = broker_inv b"
  "broker_inv (b\<lparr>on_reactor_thread := x\<rparr>) = broker_inv b"
  "broker_inv (b\<lparr>posted := ts\<rparr>) = broker_inv b"
  by (simp_all add: broker_inv_def live_ok_def indexed_def)

lemma live_ok_upd [simp]:
  "live_ok (b\<lparr>stored_sessions := st\<rparr>) = live_ok b"
  "live_ok (b\<lparr>retained := r\<rparr>) = live_ok b"
  "live_ok (b\<lparr>client_sessions := cs\<rparr>) = live_ok b"
  by (simp_all add: live_ok_def indexed_def)

lemma inv_send_packetD: "send_packet i tf bs b = (ok, b') \<Longrightarrow> broker_inv b' = broker_inv b"
  by (rule broker_inv_cong) (rule core_send_packetD)

section \<open>Delivering keeps it\<close>

lemma subs_fineI [simp]: "subs_fine []" "subs_fine (a @ c) = (subs_fine a \<and> subs_fine c)"
  by (auto simp: subs_fine_def)

lemma min_qos_le: "sq \<le> 1 \<Longrightarrow> min_qos q sq \<le> 1"
  by (auto simp: min_qos_def)

lemma queue_offline_fine:
  assumes "stored_fine st"
  shows "stored_fine (queue_offline topic payload qos extras st)"
proof (cases "find (\<lambda>sub. topic_matches (sub_filter sub) topic) (ss_subs st)")
  case None
  with assms show ?thesis by (simp add: queue_offline_def)
next
  case (Some sub)
  let ?q = "if length (ss_queued st) \<ge> kQueuedMessageCap then tl (ss_queued st) else ss_queued st"
  have "sub \<in> set (ss_subs st)" using Some by (auto simp: find_Some_iff)
  then have q: "min_qos qos (sub_qos sub) \<le> 1" using assms by (auto simp: stored_fine_def subs_fine_def intro: min_qos_le)
  have "length ?q < kQueuedMessageCap" using assms by (auto simp: stored_fine_def kQueuedMessageCap_def)
  moreover have "set ?q \<subseteq> set (ss_queued st)" by (cases "ss_queued st") auto
  ultimately show ?thesis using assms Some q
    by (auto simp: queue_offline_def stored_fine_def Let_def split: if_splits)
qed

lemma offline_ok: "stored_ok st \<Longrightarrow> stored_ok (offline topic payload qos extras st)"
  by (auto simp: stored_ok_def offline_def queue_offline_fine)

lemma retain_message_ok: "retained_ok (retained b) \<Longrightarrow> retained_ok (retained (retain_message topic payload extras b))"
proof -
  assume a: "retained_ok (retained b)"
  have u: "set (AList.update k v xs) \<subseteq> insert (k, v) (set xs)" for k :: string and v :: RetainedMessage and xs
    by (induction xs) auto
  have d: "set (AList.delete k xs) \<subseteq> set xs" for k :: string and xs :: "(string \<times> RetainedMessage) list"
    by (auto simp: AList.delete_eq)
  show ?thesis
    using a u [of topic "\<lparr>rm_payload = payload, rm_extras = extras\<rparr>" "retained b"] d [of topic "retained b"]
      AList.distinct_update [of "retained b" topic] AList.distinct_delete [of "retained b" topic]
    by (fastforce simp: retained_ok_def retain_message_def)
qed

lemma deliver_publish_inv: "broker_inv b \<Longrightarrow> broker_inv (deliver_publish topic payload qos retain extras b)"
  using live_ok_cong [OF quiet_deliver] retain_message_ok offline_ok
  by (auto simp: broker_inv_def deliver_publish_fields)

lemma deliver_remote_inv: "broker_inv b \<Longrightarrow> broker_inv (deliver_remote_publish topic payload qos ex props b)"
proof -
  have "retained (deliver_remote_publish topic payload qos ex props b) = retained b"
    by (simp add: deliver_remote_publish_def ingest_def Let_def)
  moreover have "\<exists>e. stored_sessions (deliver_remote_publish topic payload qos ex props b) = offline topic payload qos e (stored_sessions b)"
    by (auto simp: deliver_remote_publish_def ingest_def Let_def)
  ultimately show "broker_inv b \<Longrightarrow> ?thesis"
    using live_ok_cong [OF quiet_remote] offline_ok by (auto simp: broker_inv_def)
qed

section \<open>Indexing keeps it\<close>

lemma indexed_index [simp]: "indexed (index_subscription i f b) i f"
  by (simp add: indexed_def index_subscription_def Let_def)

lemma indexed_mono: "indexed b j g \<Longrightarrow> indexed (index_subscription i f b) j g"
  by (auto simp: indexed_def index_subscription_def Let_def split: option.splits if_splits)

lemma index_other [simp]:
  "sessions (index_subscription i f b) = sessions b"
  "allocated (index_subscription i f b) = allocated b"
  "heap (index_subscription i f b) = heap b"
  "stored_sessions (index_subscription i f b) = stored_sessions b"
  "retained (index_subscription i f b) = retained b"
  "client_sessions (index_subscription i f b) = client_sessions b"
  by (simp_all add: index_subscription_def Let_def)

abbreviation index_all :: "sid \<Rightarrow> Subscription list \<Rightarrow> NativeBroker \<Rightarrow> NativeBroker" where
  "index_all i ss b \<equiv> fold (\<lambda>sub. index_subscription i (sub_filter sub)) ss b"

lemma index_all_other [simp]:
  "sessions (index_all i ss b) = sessions b"
  "allocated (index_all i ss b) = allocated b"
  "heap (index_all i ss b) = heap b"
  "stored_sessions (index_all i ss b) = stored_sessions b"
  "retained (index_all i ss b) = retained b"
  "client_sessions (index_all i ss b) = client_sessions b"
  by (induction ss arbitrary: b) auto

lemma index_all_mono: "indexed b j g \<Longrightarrow> indexed (index_all i ss b) j g"
  by (induction ss arbitrary: b) (auto intro: indexed_mono)

lemma index_all_indexed: "sub \<in> set ss \<Longrightarrow> indexed (index_all i ss b) i (sub_filter sub)"
  by (induction ss arbitrary: b) (auto intro: index_all_mono)

lemma indexed_with_session [simp]: "indexed (with_session i f b) = indexed b"
  by (simp add: indexed_def with_session_def fun_eq_iff)

lemma with_session_fields [simp]:
  "sessions (with_session i f b) = sessions b"
  "allocated (with_session i f b) = allocated b"
  "stored_sessions (with_session i f b) = stored_sessions b"
  "retained (with_session i f b) = retained b"
  "client_sessions (with_session i f b) = client_sessions b"
  "now (with_session i f b) = now b"
  "cfg_authenticate (with_session i f b) = cfg_authenticate b"
  "cfg_authorizer (with_session i f b) = cfg_authorizer b"
  "ingested (with_session i f b) = ingested b"
  "forwarded (with_session i f b) = forwarded b"
  "packet_id (with_session i f b) = packet_id b"
  "on_reactor_thread (with_session i f b) = on_reactor_thread b"
  by (simp_all add: with_session_def)

lemma restore_subs_inv:
  assumes "broker_inv b" and "subs_fine rs"
  shows "broker_inv (restore_subs i rs b)"
  using assms index_all_mono index_all_indexed
  by (auto simp: broker_inv_def live_ok_def restore_subs_def)

lemma add_subs_inv:
  assumes "broker_inv b" and "subs_fine added"
  shows "broker_inv (index_all i added (with_session i (\<lambda>s. s\<lparr>subs := subs s @ added\<rparr>) b))"
  using assms index_all_mono index_all_indexed
  by (auto simp: broker_inv_def live_ok_def)

section \<open>Handlers keep it\<close>

lemma take_over_inv: "broker_inv b \<Longrightarrow> broker_inv (take_over i cid b)"
  by (auto simp: take_over_def Let_def split: option.split)

lemma take_over_stored [simp]: "stored_sessions (take_over i cid b) = stored_sessions b"
proof -
  have "stored_sessions (schedule_reactor_teardown j c (send_disconnect j r b')) = stored_sessions b'" for j c r b'
    using core_stored [of "schedule_reactor_teardown j c (send_disconnect j r b')"] core_stored [of b'] by simp
  then show ?thesis by (auto simp: take_over_def Let_def split: option.split)
qed

lemma restore_session_inv:
  assumes "broker_inv b" and "restore_session cid clean b = ((rs, fl, present), b')"
  shows "broker_inv b' \<and> subs_fine rs"
  using assms
  by (auto simp: restore_session_def Let_def broker_inv_def stored_ok_def stored_fine_def
      split: if_splits option.splits)

lemma set_connect_fields_subs [simp]: "subs (set_connect_fields t f s) = subs s"
  by (auto simp: set_connect_fields_def Let_def split: option.split)

lemma accept_connect_inv:
  assumes "broker_inv b0"
  shows "broker_inv (snd (accept_connect i is_v5 f b0))"
proof -
  let ?b = "with_session i (set_connect_fields (now b0) f) b0"
  have inv: "broker_inv ?b" using assms by simp
  obtain rs fl present b1 where r:
    "(if cf_client_id f = [] then (([], [], False), ?b)
      else restore_session (cf_client_id f) (cf_clean_session f) (take_over i (cf_client_id f) ?b)) = ((rs, fl, present), b1)"
    by (metis prod_cases4 surj_pair)
  have b1: "broker_inv b1 \<and> subs_fine rs"
  proof (cases "cf_client_id f = []")
    case True
    with r inv show ?thesis by auto
  next
    case False
    with r restore_session_inv [OF take_over_inv [OF inv]] show ?thesis by auto
  qed
  obtain ok b2 where s: "send_packet i 0x20 (connack_body is_v5 present) (restore_subs i rs b1) = (ok, b2)"
    by (metis surj_pair)
  have "broker_inv b2" using inv_send_packetD [OF s] b1 restore_subs_inv by blast
  then show ?thesis using r s by (simp add: accept_connect_def Let_def)
qed

lemma handle_connect_inv: "broker_inv b \<Longrightarrow> broker_inv (snd (handle_connect i pkt b))"
  by (auto simp: handle_connect_def reject_connect_def Let_def intro!: accept_connect_inv
      split: option.split)

lemma subscribe_one_fine: "subscribe_one b s raw req = Some (a, c) \<Longrightarrow> subs_fine a"
  by (auto simp: subscribe_one_def Let_def subs_fine_def split: option.splits if_splits)

lemma subscribe_loop_fine: "subscribe_loop b s bs pos = Some (a, c) \<Longrightarrow> subs_fine a"
proof (induction b s bs pos arbitrary: a c rule: subscribe_loop.induct)
  case (1 b s bs pos)
  let ?flen = "unat (be_value [bs ! pos, bs ! (pos + 1)] :: u16)"
  show ?case
  proof (cases "pos + 2 > length bs \<or> pos + 2 + ?flen + 1 > length bs")
    case True
    with "1.prems" show ?thesis by (subst (asm) subscribe_loop.simps) (auto simp: Let_def split: if_splits)
  next
    case False
    with "1.prems" obtain a1 c1 a2 c2 where
      one: "subscribe_one b s (string_of_bytes (take ?flen (drop (pos + 2) bs))) (bs ! (pos + 2 + ?flen)) = Some (a1, c1)"
      and rest: "subscribe_loop b s bs (pos + 2 + ?flen + 1) = Some (a2, c2)" and a: "a = a1 @ a2"
      by (subst (asm) subscribe_loop.simps) (auto simp: Let_def split: if_splits option.splits)
    have "subs_fine a2" using "1.IH" [OF _ refl refl _ one refl rest] False by simp
    with subscribe_one_fine [OF one] a show ?thesis by simp
  qed
qed

lemma handle_subscribe_inv:
  assumes "broker_inv b"
  shows "broker_inv (snd (handle_subscribe i pkt b))"
proof -
  have "broker_inv (snd (let (ok, b') = send_packet i 0x90 vh (index_all i added (with_session i (\<lambda>s. s\<lparr>subs := subs s @ added\<rparr>) b))
          in if ok then replay_retained i added b' else (False, b')))" if "subs_fine added" for added vh
    using add_subs_inv [OF assms that, of i] by (auto split: prod.split dest!: inv_send_packetD)
  then show ?thesis using assms
    by (auto simp: handle_subscribe_def Let_def split: option.split dest!: subscribe_loop_fine)
qed

lemma act_on_publish_inv: "broker_inv b \<Longrightarrow> broker_inv (snd (act_on_publish i qos retain topic extras f b))"
  by (auto simp: act_on_publish_def Let_def deliver_publish_inv)

lemma handle_publish_inv: "broker_inv b \<Longrightarrow> broker_inv (snd (handle_publish i pkt b))"
  by (auto simp: handle_publish_def Let_def act_on_publish_inv split: option.split)

lemma handle_pubrel_inv: "broker_inv b \<Longrightarrow> broker_inv (snd (handle_pubrel i pkt b))"
  by (auto simp: handle_pubrel_def Let_def deliver_publish_inv split: option.split)

lemma dispatch_packet_inv:
  assumes "broker_inv b" and "dispatch_packet i pkt b = (st, cl, b')"
  shows "broker_inv b'"
proof -
  let ?b = "with_session i (\<lambda>s. s\<lparr>last_activity := now b\<rparr>) b"
  have i: "broker_inv ?b" using assms(1) by simp
  have handled: "broker_inv b'" if "(case r of (ok, b'') \<Rightarrow> (\<not> ok, False, b'')) = (st, cl, b')" "broker_inv (snd r)" for r
    using that by (cases r) simp
  show ?thesis
    using assms(2) unfolding dispatch_packet_def Let_def
    by (auto split: if_splits intro: assms(1)
        elim!: handled [OF _ handle_connect_inv [OF i]] handled [OF _ handle_subscribe_inv [OF i]]
          handled [OF _ handle_publish_inv [OF i]] handled [OF _ handle_pubrel_inv [OF i]]
          handled [where r = "send_packet i 0xD0 [] ?b"])
qed

lemma dispatch_loop_inv: "broker_inv b \<Longrightarrow> dispatch_loop i buf pos b = (st, cl, p, b') \<Longrightarrow> broker_inv b'"
proof (induction i buf pos b rule: dispatch_loop.induct)
  case (1 i buf pos b)
  show ?case
  proof (cases "kicked (heap b i)")
    case True
    with 1 show ?thesis by (subst (asm) (2) dispatch_loop.simps) auto
  next
    case F: False
    show ?thesis
    proof (cases "try_parse_packet buf pos")
      case (Inl e)
      with 1 F show ?thesis by (subst (asm) (2) dispatch_loop.simps) auto
    next
      case (Inr r)
      obtain pkt pos' where r: "r = (pkt, pos')" by (cases r)
      obtain s1 c1 b1 where d: "dispatch_packet i pkt b = (s1, c1, b1)" by (metis prod_cases3)
      from 1(3) F Inr r d have "(if s1 then (True, c1, pos', b1) else dispatch_loop i buf pos' b1) = (st, cl, p, b')"
        by (subst (asm) dispatch_loop.simps) simp
      with dispatch_packet_inv [OF 1(2) d] 1(1) [OF F Inr r [symmetric] d [symmetric] refl] show ?thesis
        by (auto split: if_splits)
    qed
  qed
qed

lemma process_input_inv: "broker_inv b \<Longrightarrow> process_input i got b = (st, cl, b') \<Longrightarrow> broker_inv b'"
  by (auto simp: process_input_def Let_def split: prod.splits dest: dispatch_loop_inv)

section \<open>Teardown keeps it\<close>

lemma unindex_exact_keeps:
  "i \<noteq> j \<Longrightarrow> (case unindex_exact i f idx g of None \<Rightarrow> False | Some l \<Rightarrow> j \<in> set l)
     = (case idx g of None \<Rightarrow> False | Some l \<Rightarrow> j \<in> set l)"
  by (auto simp: unindex_exact_def Let_def removeAll_filter_not_eq filter_empty_conv split: option.splits if_splits)

lemma fold_unindex_keeps:
  "i \<noteq> j \<Longrightarrow> (case fold (unindex_exact i) fs idx g of None \<Rightarrow> False | Some l \<Rightarrow> j \<in> set l)
     = (case idx g of None \<Rightarrow> False | Some l \<Rightarrow> j \<in> set l)"
  by (induction fs arbitrary: idx) (auto simp: unindex_exact_keeps)

lemma indexed_remove: "i \<noteq> j \<Longrightarrow> indexed (remove_session i b) j f = indexed b j f"
  by (simp add: indexed_def remove_session_def Let_def fold_unindex_keeps)

lemma remove_session_fields [simp]:
  "sessions (remove_session i b) = removeAll i (sessions b)"
  "allocated (remove_session i b) = allocated b"
  "heap (remove_session i b) = heap b"
  "stored_sessions (remove_session i b) = stored_sessions b"
  "retained (remove_session i b) = retained b"
  "client_sessions (remove_session i b) = client_sessions b"
  "ingested (remove_session i b) = ingested b"
  "forwarded (remove_session i b) = forwarded b"
  by (simp_all add: remove_session_def Let_def)

lemma remove_session_inv: "broker_inv b \<Longrightarrow> broker_inv (remove_session i b)"
  by (auto simp: broker_inv_def live_ok_def indexed_remove distinct_removeAll)

lemma session_fine: "broker_inv b \<Longrightarrow> subs_fine (subs (heap b i))"
  by (simp add: broker_inv_def live_ok_def)

lemma store_session_inv: "broker_inv b \<Longrightarrow> broker_inv (store_session i b)"
  using session_fine [of b i]
  by (auto simp: store_session_def Let_def broker_inv_def stored_ok_def stored_fine_def)

lemma close_session_subs [simp]: "subs (close_session s) = subs s"
  by (simp add: close_session_def discard_outbound_def)

lemma teardown_session_inv: "broker_inv b \<Longrightarrow> broker_inv (teardown_session i clean b)"
  by (auto simp: teardown_session_def Let_def intro!: remove_session_inv store_session_inv deliver_publish_inv)

section \<open>Every event keeps it\<close>

lemma on_reactor_ready_inv: "broker_inv b \<Longrightarrow> broker_inv (on_reactor_ready i ein eout ehup got b)"
  by (auto simp: on_reactor_ready_def Let_def split: rx.split prod.split dest!: process_input_inv [rotated])

lemma run_task_inv: "broker_inv b \<Longrightarrow> broker_inv (run_task t b)"
  by (cases t) (auto intro!: teardown_session_inv)

lemma session_round_inv: "broker_inv b \<Longrightarrow> broker_inv (session_round i inp b)"
  by (auto simp: session_round_def intro!: teardown_session_inv split: legacy_input.split rx.split prod.split
      dest!: process_input_inv [rotated])

lemma accept_inv:
  assumes "broker_inv b" and "i \<notin> set (allocated b)"
  shows "broker_inv (b\<lparr>heap := (heap b)(i := new_Session r t sc), allocated := i # allocated b,
    sessions := sessions b @ [i]\<rparr>)"
  using assms by (auto simp: broker_inv_def live_ok_def indexed_def new_Session_def)

lemma thread_inv [simp]:
  "broker_inv (on_reactor b) = broker_inv b" "broker_inv (off_reactor b) = broker_inv b"
  "allocated (off_reactor b) = allocated b"
  by (simp_all add: on_reactor_def off_reactor_def)

lemma handle_event_inv:
  assumes "broker_inv b"
  shows "broker_inv (handle_event b ev)"
proof (cases ev)
  case (Accept i sc)
  with accept_inv [of "off_reactor b" i True "now (off_reactor b)" sc] assms show ?thesis
    by (simp add: accept_plain_def)
next
  case (AcceptTls i sc)
  with accept_inv [of "off_reactor b" i False "now (off_reactor b)" sc] assms show ?thesis
    by (simp add: accept_tls_def)
qed (use assms in \<open>auto simp: run_posted_def keep_alive_sweep_def split: list.split
       intro!: on_reactor_ready_inv run_task_inv session_round_inv deliver_remote_inv\<close>)

interpretation broker: machine handle_event broker_inv
  by unfold_locales (rule handle_event_inv)

lemma new_broker_inv: "broker_inv (new_NativeBroker authn authz onpub fwd)"
  by (simp add: new_NativeBroker_def broker_inv_def live_ok_def stored_ok_def retained_ok_def new_Session_def)

end
