(* ===== verification/Broker_Out.thy ===== *)
theory Broker_Out
  imports Broker_Send "HOL-Library.Sublist"
begin

text \<open>
  The outbound side's guarantees: what one delivery puts on the wire, the topic-alias table, the size
  limit, and the framing of the reactor's partial sends.
\<close>

section \<open>Size limit and packet identifiers\<close>

lemma next_packet_id_nonzero: "fst (next_packet_id c) \<noteq> 0"
  by (simp add: next_packet_id_def)

lemma length_serialize: "length (serialize_packet tf bs) = 1 + length (put_remaining_length [] (of_nat (length bs))) + length bs"
  using put_remaining_length_append [of "[tf]" "of_nat (length bs)"] by (simp add: serialize_packet_def)

lemma build_publish_size:
  assumes "build_publish t topic payload qos extras s c = (Some out, s', c')" and "max_packet_size s = Some mx"
  shows "length (serialize_packet tf out) \<le> unat mx"
  using assms
  by (auto simp: build_publish_def length_serialize not_less split: if_splits prod.splits)

text \<open>
  No PUBLISH is sent that the recipient declared too large or whose message expiry has passed: a
  message that is built fits the Maximum Packet Size as a whole packet, and its deadline is ahead.
\<close>
theorem built_publish_within_limits:
  assumes "build_publish t topic payload qos extras s c = (Some out, s', c')"
  shows "(case max_packet_size s of None \<Rightarrow> True | Some mx \<Rightarrow> length (serialize_packet tf out) \<le> unat mx) \<and>
    (case expiry_deadline extras of None \<Rightarrow> True | Some d \<Rightarrow> t < d)"
proof -
  have "\<not> expired t extras" using assms by (auto simp: build_publish_def split: if_splits)
  with build_publish_size [OF assms] show ?thesis
    by (auto simp: expired_def split: option.splits)
qed

theorem built_publish_within_limits_witness:
  "\<exists>out s' c'. build_publish 3 ''a'' [1, 2] 0 (no_extras\<lparr>expiry_deadline := Some 9\<rparr>)
      ((new_Session True 0 [])\<lparr>max_packet_size := Some 20\<rparr>) 1 = (Some out, s', c')
    \<and> length (serialize_packet 0x30 out) \<le> 20"
proof -
  let ?s = "(new_Session True 0 [])\<lparr>max_packet_size := Some 20\<rparr>"
  let ?e = "no_extras\<lparr>expiry_deadline := Some 9\<rparr>"
  have "build_publish 3 ''a'' [1, 2] 0 ?e ?s 1 = (Some (put_str [] ''a'' @ [1, 2]), ?s, 1)"
    by (simp add: build_publish_def publish_body_def expired_def no_extras_def outbound_alias_def new_Session_def Let_def
        put_str_def put_u16_be_def put_remaining_length.simps)
  with built_publish_within_limits [OF this, of "0x30"] show ?thesis by (auto simp: new_Session_def)
qed

section \<open>Outbound topic aliases\<close>

text \<open>
  The alias table is consecutive: entry number \<open>n\<close> (from 0) has alias \<open>n + 1\<close>, and topics are distinct.
\<close>

definition aliases_ok :: "(string \<times> u16) list \<Rightarrow> bool" where
  "aliases_ok al \<longleftrightarrow> distinct (map fst al) \<and> length al < 2 ^ 16 \<and> map snd al = map (\<lambda>n. of_nat (n + 1)) [0..<length al]"

lemma outbound_alias_ok:
  assumes "aliases_ok (outbound_topic_aliases s)" and "outbound_alias topic s = (a, full, s')"
  shows "aliases_ok (outbound_topic_aliases s')"
proof -
  have "length (outbound_topic_aliases s) < unat mx \<Longrightarrow> Suc (length (outbound_topic_aliases s)) < 2 ^ 16" for mx :: u16
    using unsigned_less [of mx, where ?'a = nat] by simp
  moreover have "map_of (outbound_topic_aliases s) topic = None \<Longrightarrow> topic \<notin> fst ` set (outbound_topic_aliases s)"
    by (simp add: map_of_eq_None_iff)
  ultimately show ?thesis using assms
    by (auto simp: outbound_alias_def aliases_ok_def Let_def split: option.splits if_splits)
qed

lemma build_publish_alias_step:
  assumes "protocol_version s = 5" and "client_topic_alias_max s = Some mx" and "mx > 0"
    and "map_of (outbound_topic_aliases s) topic = None" and "length (outbound_topic_aliases s) < unat mx"
  shows "outbound_alias topic s = (Some (of_nat (length (outbound_topic_aliases s) + 1)), True,
      s\<lparr>outbound_topic_aliases := outbound_topic_aliases s @ [(topic, of_nat (length (outbound_topic_aliases s) + 1))]\<rparr>)"
  using assms by (simp add: outbound_alias_def Let_def)

lemma put_str_empty: "put_str [] [] = [0, 0]"
  by (simp add: put_str_def put_u16_be_def be_bytes_def byte_at_def bytes_of_string_def numeral_2_eq_2)

text \<open>
  A PUBLISH dropped for its size still establishes the topic's alias. The next PUBLISH on that topic
  then goes out with an empty topic name and an alias the client never received: its bytes start with
  a zero-length topic.
\<close>
theorem size_drop_establishes_alias:
  assumes "protocol_version s = 5" and "client_topic_alias_max s = Some mx" and "mx > 0"
    and "map_of (outbound_topic_aliases s) topic = None" and "length (outbound_topic_aliases s) < unat mx"
    and "\<not> expired t extras" and "build_publish t topic payload qos extras s c = (None, s1, c1)"
    and "build_publish t topic payload' qos' extras' s1 c1 = (Some out, s2, c2)"
  shows "sock_wire s1 = sock_wire s \<and> out_queue s1 = out_queue s \<and> take 2 out = [0, 0]"
proof -
  note al = build_publish_alias_step [OF assms(1-5)]
  let ?a = "of_nat (length (outbound_topic_aliases s) + 1) :: u16"
  have s1: "s1 = s\<lparr>outbound_topic_aliases := outbound_topic_aliases s @ [(topic, ?a)]\<rparr>"
    using assms(6,7) al
    by (auto simp: build_publish_def publish_body_def Let_def split: if_splits option.splits prod.splits)
  have "map_of (outbound_topic_aliases s1) topic = Some ?a"
    using assms(4) by (simp add: s1 map_add_def)
  moreover have "protocol_version s1 = 5" "client_topic_alias_max s1 = Some mx"
    using assms(1,2) by (simp_all add: s1)
  ultimately have known: "outbound_alias topic s1 = (Some ?a, False, s1)"
    using assms(3) by (simp add: outbound_alias_def)
  obtain rest where "out = put_str [] [] @ rest"
    using assms(8) known
    by (auto simp: build_publish_def publish_body_def Let_def put_u16_be_def split: if_splits option.splits prod.splits)
  then show ?thesis using s1 by (simp add: put_str_empty)
qed

definition alias_example :: Session where
  "alias_example = (new_Session True 0 [])\<lparr>protocol_version := 5, client_topic_alias_max := Some 4, max_packet_size := Some 12\<rparr>"

theorem size_drop_establishes_alias_witness:
  "\<exists>s1 c1 out s2 c2.
     build_publish 0 ''a'' [1, 2, 3, 4, 5] 0 no_extras alias_example 1 = (None, s1, c1) \<and>
     build_publish 0 ''a'' [1] 0 no_extras s1 c1 = (Some out, s2, c2) \<and> take 2 out = [0, 0]"
proof -
  let ?s1 = "alias_example\<lparr>outbound_topic_aliases := [(''a'', 1)]\<rparr>"
  have al: "protocol_version alias_example = 5" "client_topic_alias_max alias_example = Some 4" "(4 :: u16) > 0"
    "map_of (outbound_topic_aliases alias_example) ''a'' = None" "length (outbound_topic_aliases alias_example) < unat (4 :: u16)"
    "\<not> expired 0 no_extras"
    by (simp_all add: alias_example_def new_Session_def expired_def no_extras_def)
  have two: "be_bytes 2 (1 :: u16) = [0, 1]"
    by (simp add: be_bytes_def byte_at_def numeral_2_eq_2)
  have "pw_records (publish_property_writer 0 (Some 1) no_extras) = [0x23, 0, 1]"
    by (simp add: publish_property_writer_def no_extras_def new_PropertyWriter_def pw_put_u16_def put_u16_be_def two)
  then have w: "pw_write (publish_property_writer 0 (Some 1) no_extras) [] = [3, 0x23, 0, 1]"
    by (simp add: pw_write_def varint_small)
  have str: "put_str [] ''a'' = [0, 1, 0x61]"
    by (simp add: put_str_def put_u16_be_def two bytes_of_string_def byte_of_char_def)
  have a1: "outbound_alias ''a'' alias_example = (Some 1, True, ?s1)" "outbound_alias ''a'' ?s1 = (Some 1, False, ?s1)"
    by (simp_all add: outbound_alias_def alias_example_def new_Session_def)
  have v: "protocol_version alias_example = 5" "max_packet_size alias_example = Some 12" "protocol_version ?s1 = 5" "max_packet_size ?s1 = Some 12"
    by (simp_all add: alias_example_def)
  have b1: "publish_body 0 ''a'' [1, 2, 3, 4, 5] 0 no_extras alias_example 1 = ([0, 1, 0x61, 3, 0x23, 0, 1, 1, 2, 3, 4, 5], ?s1, 1)"
    and b2: "publish_body 0 ''a'' [1] 0 no_extras ?s1 1 = ([0, 0, 3, 0x23, 0, 1, 1], ?s1, 1)"
    by (simp_all add: publish_body_def a1 v w str put_str_empty)
  have 1: "build_publish 0 ''a'' [1, 2, 3, 4, 5] 0 no_extras alias_example 1 = (None, ?s1, 1)"
    using al(6) by (simp add: build_publish_def b1 v varint_small)
  have 2: "build_publish 0 ''a'' [1] 0 no_extras ?s1 1 = (Some [0, 0, 3, 0x23, 0, 1, 1], ?s1, 1)"
    using al(6) by (simp add: build_publish_def b2 v varint_small)
  from size_drop_establishes_alias [OF al 1 2] 1 2 show ?thesis by blast
qed

section \<open>The reactor's outbound stream\<close>

text \<open>What is left of the packet being sent, and the bytes the queued items will become, in order.\<close>

definition pending_bytes :: "Session \<Rightarrow> byte list" where
  "pending_bytes s = drop (out_sent s) (out_current s)"

fun queue_bytes :: "nat \<Rightarrow> QueuedOutbound list \<Rightarrow> Session \<Rightarrow> u16 \<Rightarrow> byte list" where
  "queue_bytes t [] s c = []"
| "queue_bytes t (QueuedOutboundRaw tf bs # q) s c = serialize_packet tf bs @ queue_bytes t q s c"
| "queue_bytes t (QueuedOutboundPublish topic payload qos retain extras # q) s c =
     (case build_publish t topic payload qos extras s c of
        (None, s', c') \<Rightarrow> queue_bytes t q s' c'
      | (Some bs, s', c') \<Rightarrow> serialize_packet (publish_type_flags qos retain) bs @ queue_bytes t q s' c')"

definition outstanding :: "nat \<Rightarrow> Session \<Rightarrow> u16 \<Rightarrow> byte list" where
  "outstanding t s c = pending_bytes s @ queue_bytes t (out_queue s) s c"

text \<open>Two sessions that build the same packets.\<close>

definition same_build :: "Session \<Rightarrow> Session \<Rightarrow> bool" where
  "same_build s1 s2 \<longleftrightarrow> protocol_version s1 = protocol_version s2 \<and>
     client_topic_alias_max s1 = client_topic_alias_max s2 \<and>
     outbound_topic_aliases s1 = outbound_topic_aliases s2 \<and> max_packet_size s1 = max_packet_size s2"

lemma same_alias:
  assumes "same_build s1 s2"
  obtains a f s1' s2' where "outbound_alias topic s1 = (a, f, s1')" "outbound_alias topic s2 = (a, f, s2')" "same_build s1' s2'"
proof -
  obtain a f s1' where 1: "outbound_alias topic s1 = (a, f, s1')" by (metis prod_cases3)
  obtain a2 f2 s2' where 2: "outbound_alias topic s2 = (a2, f2, s2')" by (metis prod_cases3)
  have "a2 = a \<and> f2 = f \<and> same_build s1' s2'"
    using assms 1 2 by (auto simp: outbound_alias_def same_build_def Let_def split: option.splits if_splits)
  with 1 2 that show ?thesis by blast
qed

lemma same_body:
  assumes "same_build s1 s2" and "publish_body t topic payload qos extras s1 c = (out, s1', c')"
  shows "\<exists>s2'. publish_body t topic payload qos extras s2 c = (out, s2', c') \<and> same_build s1' s2'"
proof -
  obtain a f u1 u2 where al: "outbound_alias topic s1 = (a, f, u1)" "outbound_alias topic s2 = (a, f, u2)" "same_build u1 u2"
    using same_alias [OF assms(1)] by blast
  have v: "protocol_version s1 = protocol_version s2" using assms by (simp add: same_build_def)
  have "s1' = u1" using assms(2) al(1) by (auto simp: publish_body_def Let_def split: prod.splits)
  moreover have "publish_body t topic payload qos extras s2 c = (out, u2, c')"
    using assms(2) al v by (auto simp: publish_body_def Let_def split: prod.splits)
  ultimately show ?thesis using al(3) by blast
qed

lemma same_build_publish:
  assumes "same_build s1 s2" and "build_publish t topic payload qos extras s1 c = (r, s1', c')"
  shows "\<exists>s2'. build_publish t topic payload qos extras s2 c = (r, s2', c') \<and> same_build s1' s2'"
proof (cases "expired t extras")
  case True
  with assms show ?thesis by (auto simp: build_publish_def)
next
  case False
  obtain out u1 c1 where b1: "publish_body t topic payload qos extras s1 c = (out, u1, c1)" by (metis prod_cases3)
  then obtain u2 where b2: "publish_body t topic payload qos extras s2 c = (out, u2, c1)" "same_build u1 u2"
    using same_body [OF assms(1)] by blast
  have "max_packet_size s1 = max_packet_size s2" using assms by (simp add: same_build_def)
  with False b1 b2 assms(2) show ?thesis by (auto simp: build_publish_def split: option.splits if_splits)
qed

lemma queue_bytes_same: "same_build s1 s2 \<Longrightarrow> queue_bytes t q s1 c = queue_bytes t q s2 c"
proof (induction q arbitrary: s1 s2 c)
  case (Cons item q)
  show ?case
  proof (cases item)
    case (QueuedOutboundRaw tf bs)
    with Cons.IH [OF Cons.prems] show ?thesis by simp
  next
    case (QueuedOutboundPublish topic payload qos retain extras)
    obtain r s1' c' where b1: "build_publish t topic payload qos extras s1 c = (r, s1', c')" by (metis prod_cases3)
    then obtain s2' where b2: "build_publish t topic payload qos extras s2 c = (r, s2', c')" "same_build s1' s2'"
      using same_build_publish [OF Cons.prems] by blast
    from Cons.IH [OF b2(2)] b1 b2(1) QueuedOutboundPublish show ?thesis by (cases r) simp_all
  qed
qed simp

lemma same_build_upd [simp]:
  "same_build (s\<lparr>out_queue := q\<rparr>) s" "same_build (s\<lparr>out_current := p, out_sent := n\<rparr>) s"
  "same_build (s\<lparr>sock_wire := w\<rparr>) s" "same_build (s\<lparr>sock_script := sc\<rparr>) s"
  by (simp_all add: same_build_def)

lemma build_publish_keeps:
  "build_publish t topic payload qos extras s c = (r, s', c') \<Longrightarrow>
   out_current s' = out_current s \<and> out_sent s' = out_sent s \<and> sock_wire s' = sock_wire s"
  by (auto simp: build_publish_def publish_body_def outbound_alias_def Let_def
      split: if_splits option.splits prod.splits)

lemma fill_current_conserves:
  "fill_current t q s c = (s', c') \<Longrightarrow>
   sock_wire s' = sock_wire s \<and> outstanding t s' c' = pending_bytes s @ queue_bytes t q s c \<and>
   (out_current s' = [] \<longrightarrow> out_queue s' = [])"
proof (induction t q s c arbitrary: s' c' rule: fill_current.induct)
  case (1 t s c)
  then show ?case by (auto simp: outstanding_def pending_bytes_def)
next
  case (2 t item q s c)
  show ?case
  proof (cases "out_current s = []")
    case False
    with "2.prems" have "s' = s\<lparr>out_queue := item # q\<rparr>" "c' = c" by auto
    then show ?thesis using False queue_bytes_same [OF same_build_upd(1)]
      by (simp add: outstanding_def pending_bytes_def)
  next
    case True
    show ?thesis
    proof (cases item)
      case (QueuedOutboundRaw tf bs)
      let ?s = "s\<lparr>out_current := serialize_packet tf bs, out_sent := 0\<rparr>"
      have "fill_current t q ?s c = (s', c')" using "2.prems" True QueuedOutboundRaw by simp
      from "2.IH"(1) [OF _ QueuedOutboundRaw this] True QueuedOutboundRaw
        queue_bytes_same [OF same_build_upd(2) [where s = s and n = 0]]
      show ?thesis by (simp add: pending_bytes_def)
    next
      case (QueuedOutboundPublish topic payload qos retain extras)
      obtain r s1 c1 where b: "build_publish t topic payload qos extras s c = (r, s1, c1)" by (metis prod_cases3)
      note k = build_publish_keeps [OF b]
      show ?thesis
      proof (cases r)
        case None
        have "fill_current t q s1 c1 = (s', c')" using "2.prems" True QueuedOutboundPublish b None by simp
        from "2.IH"(2) [OF _ QueuedOutboundPublish b [unfolded None, symmetric] refl refl] this
          True QueuedOutboundPublish b None k
        show ?thesis by (simp add: pending_bytes_def)
      next
        case (Some bs)
        let ?s = "s1\<lparr>out_current := serialize_packet (publish_type_flags qos retain) bs, out_sent := 0\<rparr>"
        have "fill_current t q ?s c1 = (s', c')" using "2.prems" True QueuedOutboundPublish b Some by simp
        from "2.IH"(3) [OF _ QueuedOutboundPublish b [unfolded Some, symmetric] refl refl] this
          True QueuedOutboundPublish b Some k queue_bytes_same [OF same_build_upd(2) [where s = s1 and n = 0]]
        show ?thesis by (simp add: pending_bytes_def)
      qed
    qed
  qed
qed

lemma accept_bytes_conserves:
  "sock_wire (accept_bytes n s) @ pending_bytes (accept_bytes n s) = sock_wire s @ pending_bytes s"
  "out_queue (accept_bytes n s) = out_queue s" "same_build (accept_bytes n s) s"
proof -
  show "sock_wire (accept_bytes n s) @ pending_bytes (accept_bytes n s) = sock_wire s @ pending_bytes s"
  proof (cases "n \<ge> length (pending_bytes s)")
    case True
    then show ?thesis by (auto simp: accept_bytes_def pending_bytes_def Let_def)
  next
    case False
    then have "length (take n (drop (out_sent s) (out_current s))) = n" by (simp add: pending_bytes_def)
    with False show ?thesis
      using append_take_drop_id [of n "pending_bytes s"]
      by (auto simp: accept_bytes_def pending_bytes_def Let_def add.commute)
  qed
  show "out_queue (accept_bytes n s) = out_queue s" "same_build (accept_bytes n s) s"
    by (simp_all add: accept_bytes_def same_build_def Let_def)
qed

lemma drain_send_conserves:
  "drain_send t sc s c = (e, s', c') \<Longrightarrow>
   (if e = DrainFailed then prefix (sock_wire s') (sock_wire s @ outstanding t s c)
    else sock_wire s' @ outstanding t s' c' = sock_wire s @ outstanding t s c) \<and>
   (e = DrainEmpty \<longrightarrow> outstanding t s' c' = [])"
proof (induction sc arbitrary: s c)
  case Nil
  obtain s1 c1 where f: "fill_current t (out_queue s) s c = (s1, c1)" by (metis surj_pair)
  note k = fill_current_conserves [OF f]
  from Nil f k show ?case
    by (subst (asm) drain_send.simps)
       (auto simp: outstanding_def pending_bytes_def discard_outbound_def split: if_splits)
next
  case (Cons a sc)
  obtain u out where a: "a = (u, out)" by (cases a)
  obtain s1 c1 where f: "fill_current t (out_queue s) s c = (s1, c1)" by (metis surj_pair)
  have k: "sock_wire s1 = sock_wire s" "outstanding t s1 c1 = outstanding t s c" "out_current s1 = [] \<longrightarrow> out_queue s1 = []"
    using fill_current_conserves [OF f] by (simp_all add: outstanding_def)
  have q: "outstanding t (s1\<lparr>sock_script := x\<rparr>) c1 = outstanding t s1 c1" for x
    using queue_bytes_same [OF same_build_upd(4)] by (simp add: outstanding_def pending_bytes_def)
  show ?case
  proof (cases "out_current s1 = []")
    case True
    with Cons.prems f have "e = DrainEmpty" "s' = s1\<lparr>sock_script := a # sc\<rparr>" "c' = c1"
      by (subst (asm) drain_send.simps, simp)+
    with k q True show ?thesis by (simp add: outstanding_def pending_bytes_def)
  next
    case False
    show ?thesis
    proof (cases out)
      case (SendOk n)
      let ?s2 = "accept_bytes n s1"
      have "drain_send t sc ?s2 c1 = (e, s', c')"
        using Cons.prems f a False SendOk by (subst (asm) drain_send.simps) simp
      note ih = Cons.IH [OF this]
      have "sock_wire ?s2 @ outstanding t ?s2 c1 = (sock_wire ?s2 @ pending_bytes ?s2) @ queue_bytes t (out_queue s1) s1 c1"
        using accept_bytes_conserves(2) [of n s1] queue_bytes_same [OF accept_bytes_conserves(3) [of n s1], of t "out_queue s1" c1]
        by (simp add: outstanding_def)
      also have "\<dots> = sock_wire s @ outstanding t s c"
        unfolding accept_bytes_conserves(1) using k by (simp add: outstanding_def)
      finally have eq: "sock_wire ?s2 @ outstanding t ?s2 c1 = sock_wire s @ outstanding t s c" .
      show ?thesis using ih unfolding eq .
    next
      case SendError
      with Cons.prems f a False k show ?thesis
        by (subst (asm) drain_send.simps) (auto simp: discard_outbound_def)
    qed (use Cons.prems f a False k q in \<open>subst (asm) drain_send.simps, auto\<close>)+
  qed
qed

text \<open>
  C20: The reactor's outbound stream is the queued packets, whole and in order, however the socket
  splits the sends: after a drain attempt the bytes accepted by the socket followed by what is still
  outstanding are the bytes accepted before followed by what was outstanding before; when the attempt
  ends with nothing to send, everything is on the wire; after a hard error the wire has a prefix.
\<close>
theorem reactor_stream_in_order:
  assumes "drain_send t sc s c = (e, s', c')"
  shows "(e = DrainBlocked \<longrightarrow> sock_wire s' @ outstanding t s' c' = sock_wire s @ outstanding t s c) \<and>
    (e = DrainEmpty \<longrightarrow> sock_wire s' = sock_wire s @ outstanding t s c) \<and>
    (e = DrainFailed \<longrightarrow> prefix (sock_wire s') (sock_wire s @ outstanding t s c))"
  using drain_send_conserves [OF assms] by (auto split: if_splits)

theorem reactor_stream_in_order_witness:
  "\<exists>s' c'. drain_send 0 [(0, SendOk 1), (0, SendOk 3), (0, SendOk 5)]
      ((new_Session True 0 [])\<lparr>out_queue := [QueuedOutboundRaw 0xD0 [], QueuedOutboundRaw 0x40 [0, 7]]\<rparr>) 1
      = (DrainEmpty, s', c') \<and> sock_wire s' = [0xD0, 0, 0x40, 2, 0, 7]"
proof -
  let ?s = "(new_Session True 0 [])\<lparr>out_queue := [QueuedOutboundRaw 0xD0 [], QueuedOutboundRaw 0x40 [0, 7]]\<rparr>"
  have ser: "serialize_packet 0xD0 [] = [0xD0, 0]" "serialize_packet 0x40 [0, 7] = [0x40, 2, 0, 7]"
    by (simp_all add: serialize_packet_def put_remaining_length.simps Let_def)
  obtain e s' c' where d: "drain_send 0 [(0, SendOk 1), (0, SendOk 3), (0, SendOk 5)] ?s 1 = (e, s', c')"
    by (metis prod_cases3)
  then have "e = DrainEmpty"
    by (simp add: drain_send.simps ser accept_bytes_def new_Session_def Let_def)
  with reactor_stream_in_order [OF d] d show ?thesis
    by (simp add: outstanding_def pending_bytes_def ser new_Session_def)
qed

end
