(* ===== verification/Broker_Props.thy ===== *)
theory Broker_Props
  imports Broker_Inv Broker_Out "HOL-Library.Multiset"
begin

text \<open>
  What the broker promises, over its whole runs and per handler: routing through the index, bounded
  offline queues, the access-control and authentication gates, exactly-once QoS 2, the persistent
  session, the Will, and the boundary to peer nodes.
\<close>

section \<open>Routing\<close>

lemma collect_session_none: "matching_subs topic (h i) = [] \<Longrightarrow> collect_session topic qos h i acc = acc"
  by (simp add: collect_session_def)

lemma fold_skip:
  assumes "\<And>x a. x \<in> set xs \<Longrightarrow> \<not> P x \<Longrightarrow> f x a = a"
  shows "fold f xs acc = fold f (filter P xs) acc"
  using assms by (induction xs arbitrary: acc) auto

lemma set_candidates:
  "set (topic_index_candidates topic b) =
     (case exact_topic_index b topic of None \<Rightarrow> {} | Some l \<Rightarrow> set l) \<union> set (wildcard_subscribers b)"
  by (simp add: topic_index_candidates_def Let_def split: option.split)

lemma sorted_candidates: "sorted (topic_index_candidates topic b)" "distinct (topic_index_candidates topic b)"
  by (simp_all add: topic_index_candidates_def Let_def sorted_remdups_adj distinct_remdups_adj)

lemma filter_has_wildcard_topic: "filter_has_wildcard f = topic_name_has_wildcard f"
  by (simp add: filter_has_wildcard_def topic_name_has_wildcard_def)

lemma live_match_is_candidate:
  assumes "broker_inv b" and "i \<in> set (sessions b)" and "matching_subs topic (heap b i) \<noteq> []"
  shows "i \<in> set (topic_index_candidates topic b)"
proof -
  from assms(3) obtain sub where sub: "sub \<in> set (subs (heap b i))" "topic_matches (sub_filter sub) topic"
    by (auto simp: matching_subs_def filter_empty_conv)
  with assms(1,2) have ix: "indexed b i (sub_filter sub)" by (auto simp: broker_inv_def live_ok_def)
  show ?thesis
  proof (cases "filter_has_wildcard (sub_filter sub)")
    case True
    with ix show ?thesis by (simp add: indexed_def set_candidates)
  next
    case False
    then have "\<forall>l \<in> set (split_levels (sub_filter sub)). l \<noteq> ''#'' \<and> l \<noteq> ''+''"
      using levels_no_wildcard by (simp add: filter_has_wildcard_topic)
    with sub(2) have "sub_filter sub = topic"
      by (simp add: topic_matches_def match_levels_literal split_levels_inject)
    with ix False show ?thesis by (auto simp: indexed_def set_candidates split: option.splits)
  qed
qed

text \<open>
  The candidates of a shared group, and the part of what a scan collects that concerns the sessions in
  \<open>P\<close>: the deliveries and the candidates of every group, each in order.
\<close>

definition group_of :: "share_groups \<Rightarrow> string \<Rightarrow> (sid \<times> Subscription) list" where
  "group_of gs k = (case map_of gs k of None \<Rightarrow> [] | Some cs \<Rightarrow> cs)"

definition part_of ::
  "(sid \<Rightarrow> bool) \<Rightarrow> (sid \<times> u8) list \<times> share_groups \<Rightarrow> (sid \<times> u8) list \<times> (string \<Rightarrow> (sid \<times> Subscription) list)" where
  "part_of P acc = (filter (P \<circ> fst) (fst acc), \<lambda>k. filter (P \<circ> fst) (group_of (snd acc) k))"

lemma group_of_add: "group_of (add_candidate k c gs) k' = (if k' = k then group_of gs k @ [c] else group_of gs k')"
  by (induction gs) (auto simp: group_of_def)

lemma part_of_sub:
  "part_of P acc = part_of P acc' \<Longrightarrow> part_of P (collect_sub qos i sub acc) = part_of P (collect_sub qos i sub acc')"
  "\<not> P i \<Longrightarrow> part_of P (collect_sub qos i sub acc) = part_of P acc"
  by (cases acc; cases acc'; auto simp: part_of_def group_of_add fun_eq_iff split: option.split)+

lemma part_of_session:
  "part_of P acc = part_of P acc' \<Longrightarrow> part_of P (collect_session topic qos h i acc) = part_of P (collect_session topic qos h i acc')"
  "\<not> P i \<Longrightarrow> part_of P (collect_session topic qos h i acc) = part_of P acc"
proof -
  have "part_of P acc = part_of P acc' \<Longrightarrow> part_of P (fold (collect_sub qos i) ss acc) = part_of P (fold (collect_sub qos i) ss acc')"
    for ss acc acc'
  proof (induction ss arbitrary: acc acc')
    case (Cons x ss)
    show ?case using Cons.IH [OF part_of_sub(1) [OF Cons.prems, of qos i x]] by simp
  qed simp
  then show "part_of P acc = part_of P acc' \<Longrightarrow>
      part_of P (collect_session topic qos h i acc) = part_of P (collect_session topic qos h i acc')"
    unfolding collect_session_def .
  have "part_of P (fold (collect_sub qos i) ss acc) = part_of P acc" if "\<not> P i" for ss
    using that by (induction ss arbitrary: acc) (auto simp: part_of_sub(2))
  then show "\<not> P i \<Longrightarrow> part_of P (collect_session topic qos h i acc) = part_of P acc"
    unfolding collect_session_def .
qed

lemma part_of_scan:
  "part_of P (fold (collect_session topic qos h) is acc) = part_of P (fold (collect_session topic qos h) (filter P is) acc)"
proof -
  have "part_of P acc = part_of P acc' \<Longrightarrow>
      part_of P (fold (collect_session topic qos h) is acc) = part_of P (fold (collect_session topic qos h) (filter P is) acc')" for acc'
  proof (induction "is" arbitrary: acc acc')
    case (Cons i "is")
    show ?case
    proof (cases "P i")
      case True
      then show ?thesis using Cons.IH [OF part_of_session(1) [OF Cons.prems, of topic qos h i]] by simp
    next
      case False
      then have "part_of P (collect_session topic qos h i acc) = part_of P acc'"
        using part_of_session(2) [of P i topic qos h acc] Cons.prems by simp
      then show ?thesis using Cons.IH False by simp
    qed
  qed simp
  then show ?thesis by blast
qed

text \<open>A scan of sessions in \<open>P\<close> only collects entries of sessions in \<open>P\<close>.\<close>

lemma collect_only:
  assumes "\<forall>i \<in> set is. P i" "fold (collect_session topic qos h) is ([], []) = (ds, gs)"
  shows "part_of P (ds, gs) = (ds, group_of gs)"
proof -
  define all where "all acc \<longleftrightarrow> (\<forall>d \<in> set (fst acc). P (fst d)) \<and> (\<forall>k. \<forall>c \<in> set (group_of (snd acc) k). P (fst c))"
    for acc :: "(sid \<times> u8) list \<times> share_groups"
  have sub: "all (collect_sub qos i sub acc)" if "P i" "all acc" for i sub acc
    using that by (cases acc) (auto simp: all_def group_of_add split: option.split)
  have "all (fold (collect_sub qos i) ss acc)" if "P i" "all acc" for i ss acc
    using that(2) by (induction ss arbitrary: acc) (auto simp: sub [OF that(1)])
  then have "all (fold (collect_session topic qos h) is acc)" if "\<forall>i \<in> set is. P i" "all acc" for "is" acc
    using that by (induction "is" arbitrary: acc) (auto simp: collect_session_def)
  from this [OF assms(1), of "([], [])"] have "all (ds, gs)" using assms(2) by (simp add: all_def group_of_def)
  then show ?thesis by (auto simp: all_def part_of_def filter_id_conv fun_eq_iff)
qed

lemma index_scan:
  assumes "broker_inv b"
  shows "fold (collect_session topic qos (heap b)) (filter (\<lambda>i. i \<in> set (sessions b)) (topic_index_candidates topic b)) acc
       = fold (collect_session topic qos (heap b)) (sorted_list_of_set (set (sessions b))) acc"
proof -
  let ?c = "topic_index_candidates topic b" and ?l = "sorted_list_of_set (set (sessions b))"
  have "fold (collect_session topic qos (heap b)) ?l acc
      = fold (collect_session topic qos (heap b)) (filter (\<lambda>i. i \<in> set ?c) ?l) acc"
  proof (rule fold_skip)
    fix i a assume "i \<in> set ?l" "\<not> i \<in> set ?c"
    then show "collect_session topic qos (heap b) i a = a"
      using live_match_is_candidate [OF assms] by (metis List.finite_set collect_session_none set_sorted_list_of_set)
  qed
  moreover have "filter (\<lambda>i. i \<in> set ?c) ?l = filter (\<lambda>i. i \<in> set (sessions b)) ?c"
    using sorted_candidates [of topic b]
    by (intro sorted_distinct_set_unique) (auto simp: sorted_wrt_filter)
  ultimately show ?thesis by simp
qed

text \<open>
  C2: After any run of the broker, what routing a PUBLISH through the topic index collects for connected
  sessions is exactly what scanning every connected session collects, the deliveries and the candidates of
  every shared group in the same order. Entries of sessions that are gone may be there besides: a session whose
  subscriptions a CONNECT replaced stays in the index under the filters it had before.
\<close>
theorem index_routes_every_subscriber:
  "let b = foldl handle_event (new_NativeBroker authn authz onpub fwd) evs;
       (ds, gs) = fold (collect_session topic qos (heap b)) (topic_index_candidates topic b) ([], []);
       (ds', gs') = fold (collect_session topic qos (heap b)) (sorted_list_of_set (set (sessions b))) ([], [])
   in filter (\<lambda>d. fst d \<in> set (sessions b)) ds = ds' \<and>
      (\<forall>k. filter (\<lambda>c. fst c \<in> set (sessions b)) (group_of gs k) = group_of gs' k)"
proof -
  define b where "b = foldl handle_event (new_NativeBroker authn authz onpub fwd) evs"
  let ?P = "\<lambda>i. i \<in> set (sessions b)" and ?f = "fold (collect_session topic qos (heap b))"
  obtain ds gs where i: "?f (topic_index_candidates topic b) ([], []) = (ds, gs)" by fastforce
  obtain ds' gs' where l: "?f (sorted_list_of_set (set (sessions b))) ([], []) = (ds', gs')" by fastforce
  have "broker_inv b" unfolding b_def by (rule broker.inv_foldl [OF new_broker_inv])
  from index_scan [OF this] have "part_of ?P (ds, gs) = part_of ?P (ds', gs')"
    using part_of_scan [of ?P topic qos "heap b" "topic_index_candidates topic b" "([], [])"] i l by simp
  also have "\<dots> = (ds', group_of gs')" using l by (intro collect_only [OF _ l]) simp
  finally show ?thesis
    unfolding b_def [symmetric] Let_def i l by (simp add: part_of_def comp_def fun_eq_iff)
qed

text \<open>
  How such an entry comes about: a session subscribed to a wildcard filter restores other subscriptions at its
  CONNECT, none of them with a wildcard; its removal then looks for the restored filters only.
\<close>

lemma replaced_subs_stay_indexed:
  assumes "filter_has_wildcard flt" "rs \<noteq> []" "\<forall>sub \<in> set rs. \<not> filter_has_wildcard (sub_filter sub)"
    and "b' = remove_session i (restore_subs i rs (index_subscription i flt b))"
  shows "i \<in> set (topic_index_candidates topic b')" "i \<notin> set (sessions b')"
proof -
  let ?b = "restore_subs i rs (index_subscription i flt b)"
  have "wildcard_subscribers (fold (\<lambda>sub. index_subscription i (sub_filter sub)) rs c) = wildcard_subscribers c" for c
    using assms(3) by (induction rs arbitrary: c) (auto simp: index_subscription_def Let_def)
  then have w: "wildcard_subscribers ?b = wildcard_subscribers b @ [i]" "subs (heap ?b i) = rs"
    using assms(1,2) by (simp_all add: restore_subs_def with_session_def index_subscription_def)
  then have "wildcard_subscribers b' = wildcard_subscribers b @ [i]"
    using assms(2,3) by (simp add: assms(4) remove_session_def Let_def)
  then show "i \<in> set (topic_index_candidates topic b')" by (simp add: set_candidates)
  show "i \<notin> set (sessions b')" by (simp add: assms(4) remove_session_def Let_def)
qed

text \<open>
  C26: Whatever clients and peers do, no offline session ever queues more than 100 messages, none of
  its queued messages or subscriptions has a QoS above 1, and no live session has a subscription with
  a granted QoS above 1.
\<close>
theorem offline_queues_bounded:
  "let b = foldl handle_event (new_NativeBroker authn authz onpub fwd) evs in
   list_all (\<lambda>sub. sub_qos sub \<le> 1) (subs (heap b i)) \<and>
   (case stored_sessions b cid of
      None \<Rightarrow> True
    | Some st \<Rightarrow> length (ss_queued st) \<le> 100 \<and> list_all (\<lambda>m. qm_qos m \<le> 1) (ss_queued st) \<and>
        list_all (\<lambda>sub. sub_qos sub \<le> 1) (ss_subs st))"
  using broker.inv_foldl [OF new_broker_inv, of authn authz onpub fwd evs]
  by (auto simp: Let_def broker_inv_def live_ok_def stored_ok_def stored_fine_def subs_fine_def list_all_iff
      kQueuedMessageCap_def split: option.split)

section \<open>Shared subscriptions\<close>

lemma pick_winner_simp:
  "pick_winner qos (k, cs) cur =
     ((fst (cs ! unat (cur k mod of_nat (length cs))),
       min_qos qos (sub_qos (snd (cs ! unat (cur k mod of_nat (length cs)))))), cur(k := cur k + 1))"
  by (simp add: pick_winner_def Let_def split: prod.split)

text \<open>The winners of \<open>n\<close> successive publishes to one group.\<close>

fun winners :: "nat \<Rightarrow> u8 \<Rightarrow> string \<times> (sid \<times> Subscription) list \<Rightarrow> (string \<Rightarrow> u64) \<Rightarrow> sid list" where
  "winners 0 qos g cur = []"
| "winners (Suc n) qos g cur = (case pick_winner qos g cur of (w, cur') \<Rightarrow> fst w # winners n qos g cur')"

lemma winners_nth:
  assumes "length cs < 2 ^ 64" and "unat (cur k) + n < 2 ^ 64" and "cs \<noteq> []"
  shows "winners n qos (k, cs) cur = map (\<lambda>j. fst (cs ! ((unat (cur k) + j) mod length cs))) [0..<n]"
  using assms
proof (induction n arbitrary: cur)
  case 0
  then show ?case by simp
next
  case (Suc n)
  have len: "unat (of_nat (length cs) :: u64) = length cs"
    using Suc.prems(1) by (simp add: unat_of_nat)
  have next1: "unat (cur k + 1) = unat (cur k) + 1"
    using Suc.prems(2) by (simp add: unat_word_ariths)
  have "winners n qos (k, cs) (cur(k := cur k + 1))
      = map (\<lambda>j. fst (cs ! ((unat (cur k) + 1 + j) mod length cs))) [0..<n]"
    using Suc.IH [of "cur(k := cur k + 1)"] Suc.prems next1 by (simp add: fun_upd_def)
  moreover have "[0..<Suc n] = 0 # map Suc [0..<n]" by (simp add: upt_conv_Cons map_Suc_upt)
  ultimately show ?case by (simp add: pick_winner_simp unat_mod len o_def)
qed

lemma mod_window_neq: "i < j \<Longrightarrow> j < n \<Longrightarrow> (c + i) mod n \<noteq> (c + j) mod n" for c n :: nat
proof
  assume a: "i < j" "j < n" "(c + i) mod n = (c + j) mod n"
  have "n dvd (c + j) - (c + i)"
    using mod_eq_dvd_iff_nat [of "c + i" "c + j" n] a by simp
  with a(1,2) show False using dvd_imp_le [of n "j - i"] by simp
qed

lemma mod_window: "mset (map (\<lambda>j. (c + j) mod n) [0..<n]) = mset [0..<n]" for c n :: nat
proof -
  let ?xs = "map (\<lambda>j. (c + j) mod n) [0..<n]"
  have d: "distinct ?xs"
  proof (simp add: distinct_map, rule inj_onI)
    fix x y assume "x \<in> {0..<n}" "y \<in> {0..<n}" "(c + x) mod n = (c + y) mod n"
    then show "x = y" using mod_window_neq [of x y n c] mod_window_neq [of y x n c]
      by (cases x y rule: linorder_cases) auto
  qed
  have "set ?xs \<subseteq> {0..<n}" by (auto intro: mod_less_divisor)
  moreover have "card (set ?xs) = n" using distinct_card [OF d] by simp
  ultimately have "set ?xs = set [0..<n]" using card_subset_eq [of "{0..<n}" "set ?xs"] by simp
  from set_eq_iff_mset_eq_distinct [OF d distinct_upt [of 0 n]] this show ?thesis by (rule iffD1)
qed

text \<open>
  Over as many successive publishes as a shared-subscription group has members, each member is
  chosen exactly once, wherever the group's cursor stands.
\<close>
theorem shared_subscription_round_robin:
  assumes "cs \<noteq> []" and "unat (cur k) + length cs < 2 ^ 64"
  shows "mset (winners (length cs) qos (k, cs) cur) = mset (map fst cs)"
proof -
  have "winners (length cs) qos (k, cs) cur
      = map (\<lambda>j. fst (cs ! j)) (map (\<lambda>j. (unat (cur k) + j) mod length cs) [0..<length cs])"
    using winners_nth [of cs cur k "length cs"] assms by (simp add: o_def)
  then have "mset (winners (length cs) qos (k, cs) cur) = image_mset (\<lambda>j. fst (cs ! j)) (mset [0..<length cs])"
    using arg_cong [OF mod_window [of "unat (cur k)" "length cs"], of "image_mset (\<lambda>j. fst (cs ! j))"]
    by (simp only: mset_map)
  also have "\<dots> = mset (map (\<lambda>j. fst (cs ! j)) [0..<length cs])" by simp
  also have "map (\<lambda>j. fst (cs ! j)) [0..<length cs] = map fst cs"
    using arg_cong [OF map_nth [of cs], of "map fst"] by (simp add: o_def)
  finally show ?thesis .
qed

theorem shared_subscription_round_robin_witness:
  "let sub = \<lparr>sub_filter = ''t'', sub_qos = 1, sub_share_group = Some ''g''\<rparr>
   in mset (winners 3 1 (''k'', [(4, sub), (9, sub), (2, sub)]) (\<lambda>_. 5)) = {#4, 9, 2#}"
  using shared_subscription_round_robin
    [of "[(4, \<lparr>sub_filter = ''t'', sub_qos = 1, sub_share_group = Some ''g''\<rparr>),
          (9, \<lparr>sub_filter = ''t'', sub_qos = 1, sub_share_group = Some ''g''\<rparr>),
          (2, \<lparr>sub_filter = ''t'', sub_qos = 1, sub_share_group = Some ''g''\<rparr>)]" "\<lambda>_. 5" "''k''" 1]
  by (simp add: numeral_3_eq_3)

section \<open>Access control and authentication\<close>

text \<open>The part of a PUBLISH before the gate: the fields, the extras and the resolved topic.\<close>

definition publish_accepted ::
  "sid \<Rightarrow> Packet \<Rightarrow> NativeBroker \<Rightarrow> PublishFields \<Rightarrow> string \<Rightarrow> (u16 \<rightharpoonup> string) \<Rightarrow> bool" where
  "publish_accepted i pkt b f topic tbl \<longleftrightarrow>
     parse_publish (protocol_version (heap b i)) (drop_bit 1 (type_flags pkt) AND 0x03) (body pkt) = Some f \<and>
     \<not> bad_response_topic (extras_of (now b) (pf_props f)) \<and>
     resolve_alias (topic_alias (pf_props f)) (pf_topic f) (topic_aliases (heap b i)) = Some (topic, tbl)"

lemma handle_publish_accepted:
  assumes "publish_accepted i pkt b f topic tbl"
  shows "handle_publish i pkt b =
    act_on_publish i (drop_bit 1 (type_flags pkt) AND 0x03) (type_flags pkt AND 0x01 \<noteq> 0) topic
      (extras_of (now b) (pf_props f)) f (with_session i (\<lambda>s. s\<lparr>topic_aliases := tbl\<rparr>) b)"
  using assms by (simp add: publish_accepted_def handle_publish_def Let_def)

lemma acl_allows_with_session [simp]: "acl_allows (with_session i f b) = acl_allows b"
  by (simp add: acl_allows_def fun_eq_iff)

lemma log_of_core:
  assumes "core b' = core b"
  shows "ingested b' = ingested b" "retained b' = retained b" "forwarded b' = forwarded b"
    "stored_sessions b' = stored_sessions b" "client_sessions b' = client_sessions b"
    "sessions b' = sessions b" "subs (heap b' i) = subs (heap b i)"
    "qos2_inflight (heap b' i) = qos2_inflight (heap b i)"
    "topic_aliases (heap b' i) = topic_aliases (heap b i)"
    "s_principal (heap b' i) = s_principal (heap b i)" "now b' = now b"
    "protocol_version (heap b' i) = protocol_version (heap b i)"
    "cfg_authorizer b' = cfg_authorizer b" "on_publish_set b' = on_publish_set b"
proof -
  have h: "erase_out (heap b' i) = erase_out (heap b i)"
    using arg_cong [OF assms, of "\<lambda>b. heap b i"] by simp
  show "subs (heap b' i) = subs (heap b i)" "qos2_inflight (heap b' i) = qos2_inflight (heap b i)"
    "topic_aliases (heap b' i) = topic_aliases (heap b i)" "s_principal (heap b' i) = s_principal (heap b i)"
    "protocol_version (heap b' i) = protocol_version (heap b i)"
    using arg_cong [OF h, of subs] arg_cong [OF h, of qos2_inflight] arg_cong [OF h, of topic_aliases]
      arg_cong [OF h, of s_principal] arg_cong [OF h, of protocol_version] by simp_all
  show "ingested b' = ingested b" "retained b' = retained b" "forwarded b' = forwarded b"
    "stored_sessions b' = stored_sessions b" "client_sessions b' = client_sessions b"
    "sessions b' = sessions b" "now b' = now b" "cfg_authorizer b' = cfg_authorizer b"
    "on_publish_set b' = on_publish_set b"
    using arg_cong [OF assms, of ingested] arg_cong [OF assms, of retained] arg_cong [OF assms, of forwarded]
      arg_cong [OF assms, of stored_sessions] arg_cong [OF assms, of client_sessions]
      arg_cong [OF assms, of sessions] arg_cong [OF assms, of now] arg_cong [OF assms, of cfg_authorizer]
      arg_cong [OF assms, of on_publish_set] by simp_all
qed

text \<open>
  C17: A PUBLISH the authorizer denies does nothing but record its topic alias: no ingestion, no
  retained message, no routing, no acknowledgement, and the connection stays open. The decision is
  taken on the topic behind the alias, so an alias cannot hide a topic from the access-control list.
\<close>
theorem denied_publish_has_no_effect:
  assumes "publish_accepted i pkt b f topic tbl"
    and "cfg_authorizer b = Some authz" and "\<not> authz (s_principal (heap b i)) topic Publish"
  shows "handle_publish i pkt b = (True, with_session i (\<lambda>s. s\<lparr>topic_aliases := tbl\<rparr>) b)"
  using assms
  by (simp add: handle_publish_accepted act_on_publish_def Let_def acl_allows_def with_session_def)

theorem denied_publish_has_no_effect_witness:
  "let b = with_session 1 (\<lambda>s. s\<lparr>protocol_version := 5, topic_aliases := [2 \<mapsto> ''secret'']\<rparr>)
             (new_NativeBroker None (Some DenyAllAuthorizer) True False)
   in fst (handle_publish 1 \<lparr>type_flags = 0x30, body = [0, 0, 3, 0x23, 0, 2, 9]\<rparr> b)
      \<and> ingested (snd (handle_publish 1 \<lparr>type_flags = 0x30, body = [0, 0, 3, 0x23, 0, 2, 9]\<rparr> b)) = []"
proof -
  let ?b = "with_session 1 (\<lambda>s. s\<lparr>protocol_version := 5, topic_aliases := [2 \<mapsto> ''secret'']\<rparr>)
             (new_NativeBroker None (Some DenyAllAuthorizer) True False)"
  let ?pkt = "\<lparr>type_flags = 0x30, body = [0, 0, 3, 0x23, 0, 2, 9]\<rparr> :: Packet"
  let ?f = "\<lparr>pf_topic = [], pf_packet_id = 0, pf_props = no_properties\<lparr>topic_alias := Some 2\<rparr>, pf_payload = [9]\<rparr>"
  have "read_properties [0, 0, 3, 0x23, 0, 2, 9] 2 = Some (no_properties\<lparr>topic_alias := Some 2\<rparr>, 6)"
    by (simp add: read_properties_def read_varint_one read_records.simps read_record_def property_wire_type_def
        be_value_def)
  moreover have "read_field [0, 0, 3, 0x23, 0, 2, 9] 0 = Some ([], 2)"
    by (simp add: read_field_def read_u16_at_def be_value_def)
  ultimately have "parse_publish 5 0 [0, 0, 3, 0x23, 0, 2, 9] = Some ?f"
    by (simp add: parse_publish_def string_of_bytes_def)
  then have "publish_accepted 1 ?pkt ?b ?f ''secret'' [2 \<mapsto> ''secret'']"
    by (simp add: publish_accepted_def resolve_alias_def kTopicAliasMax_def no_properties_def extras_of_def
        bad_response_topic_def)
  from denied_publish_has_no_effect [OF this, of DenyAllAuthorizer] show ?thesis
    by (simp add: new_NativeBroker_def DenyAllAuthorizer_def)
qed

text \<open>
  C18: A CONNECT the authenticator rejects ends the connection and, apart from the negotiated protocol
  version and the CONNACK sent, leaves the broker as it was: no client identifier, Will, principal,
  takeover or stored-session change.
\<close>
theorem rejected_connect_leaves_no_trace:
  assumes "cfg_authenticate b = Some auth" and "connect_level (body pkt) = Some (level, pos)"
    and "level = 4 \<or> level = 5" and "connect_fields (now b) (level = 5) (body pkt) pos = Some f"
    and "auth (cf_username f) (cf_password f) = None"
  shows "fst (handle_connect i pkt b) = False \<and>
    core (snd (handle_connect i pkt b)) = core (with_session i (\<lambda>s. s\<lparr>protocol_version := level\<rparr>) b)"
  using assms by (auto simp: handle_connect_def Let_def reject_connect_def)

definition auth_example :: Packet where
  "auth_example = \<lparr>type_flags = 0x10, body = [0, 0, 4, 0x80, 0, 0, 0, 1, 0x63, 0, 1, 0x75]\<rparr>"

theorem rejected_connect_leaves_no_trace_witness:
  "fst (handle_connect 1 auth_example (new_NativeBroker (Some (\<lambda>_ _. None)) None True False)) = False"
proof -
  let ?b = "new_NativeBroker (Some (\<lambda>_ _. None)) None True False"
  let ?bs = "[0, 0, 4, 0x80, 0, 0, 0, 1, 0x63, 0, 1, 0x75] :: byte list"
  have f: "read_field ?bs 0 = Some ([], 2)" "read_u16_at ?bs 4 = Some (0, 6)"
    "read_field ?bs 6 = Some ([0x63], 9)" "read_field ?bs 9 = Some ([0x75], 12)"
    by (simp_all add: read_field_def read_u16_at_def be_value_def)
  have l: "connect_level (body auth_example) = Some (4, 3)"
    using f by (simp add: connect_level_def auth_example_def)
  obtain g where g: "connect_fields (now ?b) ((4 :: u8) = 5) (body auth_example) 3 = Some g"
    using f by (simp add: connect_fields_def auth_example_def optional_field_def)
  from rejected_connect_leaves_no_trace [OF _ l _ g] show ?thesis by (simp add: new_NativeBroker_def)
qed

section \<open>Exactly once\<close>

lemma core_with_session_upd:
  assumes "\<And>s. erase_out (g s) = g (erase_out s)"
  shows "core (with_session i g b) = with_session i g (core b)"
proof -
  have "(\<lambda>j. erase_out (((heap b)(i := g (heap b i))) j))
      = (\<lambda>j. erase_out (heap b j))(i := g (erase_out (heap b i)))"
    using assms by auto
  then show ?thesis by (simp add: core_def with_session_def)
qed

lemma erase_out_inbound [simp]:
  "erase_out (s\<lparr>topic_aliases := tbl\<rparr>) = (erase_out s)\<lparr>topic_aliases := tbl\<rparr>"
  "erase_out (s\<lparr>qos2_inflight := q\<rparr>) = (erase_out s)\<lparr>qos2_inflight := q\<rparr>"
  by (simp_all add: erase_out_def)

text \<open>The effect of an accepted QoS 2 PUBLISH on its session.\<close>

definition hold :: "(u16 \<rightharpoonup> string) \<Rightarrow> u16 \<Rightarrow> PendingQos2 \<Rightarrow> Session \<Rightarrow> Session" where
  "hold tbl pid p s = s\<lparr>topic_aliases := tbl, qos2_inflight := (qos2_inflight s)(pid \<mapsto> p)\<rparr>"

lemma erase_out_hold: "erase_out (hold tbl pid p s) = hold tbl pid p (erase_out s)"
  by (simp add: hold_def)

lemma resolve_alias_again:
  "resolve_alias a t tbl = Some (topic, tbl') \<Longrightarrow> resolve_alias a t tbl' = Some (topic, tbl')"
  by (auto simp: resolve_alias_def split: option.splits if_splits)

lemma publish_qos2_core:
  assumes "publish_accepted i pkt b f topic tbl" and "drop_bit 1 (type_flags pkt) AND 0x03 = 2"
    and "acl_allows b (s_principal (heap b i)) topic Publish"
    and "p = \<lparr>pq_topic = topic, pq_payload = pf_payload f, pq_retain = (type_flags pkt AND 0x01 \<noteq> 0),
              pq_extras = extras_of (now b) (pf_props f)\<rparr>"
  shows "core (snd (handle_publish i pkt b)) = with_session i (hold tbl (pf_packet_id f) p) (core b)"
proof -
  have "handle_publish i pkt b = send_packet i 0x50 (put_u16_be [] (pf_packet_id f)) (with_session i (hold tbl (pf_packet_id f) p) b)"
    using assms
    by (simp add: handle_publish_accepted act_on_publish_def Let_def with_session_def hold_def acl_allows_def)
  then show ?thesis by (simp add: core_with_session_upd erase_out_hold)
qed

lemma hold_twice: "with_session i (hold tbl pid p) (with_session i (hold tbl pid p) b) = with_session i (hold tbl pid p) b"
  by (simp add: with_session_def hold_def)

lemma publish_accepted_again:
  assumes "publish_accepted i pkt b f topic tbl" and "core b' = with_session i (hold tbl pid p) (core b)"
  shows "publish_accepted i pkt b' f topic tbl" and "now b' = now b"
    and "acl_allows b' (s_principal (heap b' i)) = acl_allows b (s_principal (heap b i))"
proof -
  have h: "erase_out (heap b' i) = hold tbl pid p (erase_out (heap b i))"
    using arg_cong [OF assms(2), of "\<lambda>b. heap b i"] by simp
  have f: "protocol_version (heap b' i) = protocol_version (heap b i)" "topic_aliases (heap b' i) = tbl"
    "s_principal (heap b' i) = s_principal (heap b i)"
    using arg_cong [OF h, of protocol_version] arg_cong [OF h, of topic_aliases] arg_cong [OF h, of s_principal]
    by (simp_all add: hold_def)
  show n: "now b' = now b" using arg_cong [OF assms(2), of now] by simp
  show "publish_accepted i pkt b' f topic tbl"
    using assms(1) f n resolve_alias_again by (auto simp: publish_accepted_def)
  show "acl_allows b' (s_principal (heap b' i)) = acl_allows b (s_principal (heap b i))"
    using arg_cong [OF assms(2), of cfg_authorizer] f by (simp add: acl_allows_def fun_eq_iff)
qed

lemma publish_qos2_repeated:
  assumes "publish_accepted i pkt b f topic tbl" and "drop_bit 1 (type_flags pkt) AND 0x03 = 2"
    and "acl_allows b (s_principal (heap b i)) topic Publish"
    and "p = \<lparr>pq_topic = topic, pq_payload = pf_payload f, pq_retain = (type_flags pkt AND 0x01 \<noteq> 0),
              pq_extras = extras_of (now b) (pf_props f)\<rparr>"
  shows "core (((\<lambda>b. snd (handle_publish i pkt b)) ^^ Suc n) b) = with_session i (hold tbl (pf_packet_id f) p) (core b)"
proof (induction n)
  case 0
  then show ?case using publish_qos2_core [OF assms] by simp
next
  case (Suc n)
  let ?b = "((\<lambda>b. snd (handle_publish i pkt b)) ^^ Suc n) b"
  note again = publish_accepted_again [OF assms(1) Suc.IH]
  have "core (snd (handle_publish i pkt ?b)) = with_session i (hold tbl (pf_packet_id f) p) (core ?b)"
    using publish_qos2_core [OF again(1) assms(2)] again(2,3) assms(3,4) by simp
  then show ?case by (simp add: Suc.IH [simplified] hold_twice)
qed

lemma pubrel_pid: "be_value [put_u16_be [] pid ! 0, put_u16_be [] pid ! 1] = pid"
proof -
  have "[put_u16_be [] pid ! 0, put_u16_be [] pid ! 1] = be_bytes 2 pid"
    by (simp add: put_u16_be_def be_bytes_def numeral_2_eq_2)
  then show ?thesis using be_value_be_bytes [of 2 pid] by simp
qed

lemma pubrel_unknown:
  assumes "body rel = put_u16_be [] pid" and "qos2_inflight (heap b i) pid = None"
  shows "core (snd (handle_pubrel i rel b)) = core b"
  using assms pubrel_pid [of pid] by (simp add: handle_pubrel_def Let_def put_u16_be_def)

lemma pubrel_known:
  assumes "body rel = put_u16_be [] pid" and "qos2_inflight (heap b i) pid = Some p" and "on_publish_set b"
  shows "ingested (snd (handle_pubrel i rel b)) = ingested b @ [(pq_topic p, pq_payload p, 2, to_publish_properties (pq_extras p))]"
    and "qos2_inflight (heap (snd (handle_pubrel i rel b)) i) pid = None"
proof -
  let ?b = "with_session i (\<lambda>s. s\<lparr>qos2_inflight := (qos2_inflight s)(pid := None)\<rparr>)
    (deliver_publish (pq_topic p) (pq_payload p) 2 (pq_retain p) (pq_extras p) b)"
  have c: "core (snd (handle_pubrel i rel b)) = core ?b"
    using assms pubrel_pid [of pid] by (simp add: handle_pubrel_def Let_def put_u16_be_def del: core_with_session)
  show "ingested (snd (handle_pubrel i rel b)) = ingested b @ [(pq_topic p, pq_payload p, 2, to_publish_properties (pq_extras p))]"
    using log_of_core(1) [OF c] assms(3) by (simp add: deliver_publish_fields)
  show "qos2_inflight (heap (snd (handle_pubrel i rel b)) i) pid = None"
    using log_of_core(8) [OF c, of i] by simp
qed

lemma pubrel_repeated:
  assumes "body rel = put_u16_be [] pid" and "qos2_inflight (heap b i) pid = None"
  shows "core (((\<lambda>b. snd (handle_pubrel i rel b)) ^^ m) b) = core b"
proof (induction m)
  case (Suc m)
  let ?b = "((\<lambda>b. snd (handle_pubrel i rel b)) ^^ m) b"
  have "qos2_inflight (heap ?b i) pid = None" using log_of_core(8) [OF Suc.IH, of i] assms(2) by simp
  with pubrel_unknown [OF assms(1)] Suc.IH show ?case by simp
qed simp

text \<open>
  C1: QoS 2 is exactly once. However often a client retransmits an accepted QoS 2 PUBLISH, and however
  often it then retransmits the PUBREL, the message is handed to ingestion exactly once, at the first
  PUBREL and not before, and the packet identifier is free again.
\<close>
theorem qos2_exactly_once:
  assumes "publish_accepted i pub b f topic tbl" and "drop_bit 1 (type_flags pub) AND 0x03 = 2"
    and "acl_allows b (s_principal (heap b i)) topic Publish" and "on_publish_set b"
    and "body rel = put_u16_be [] (pf_packet_id f)"
    and "b1 = ((\<lambda>b. snd (handle_publish i pub b)) ^^ Suc n) b"
    and "b2 = ((\<lambda>b. snd (handle_pubrel i rel b)) ^^ Suc m) b1"
  shows "ingested b1 = ingested b \<and>
    ingested b2 = ingested b @ [(topic, pf_payload f, 2, to_publish_properties (extras_of (now b) (pf_props f)))] \<and>
    qos2_inflight (heap b2 i) (pf_packet_id f) = None"
proof -
  let ?pid = "pf_packet_id f"
  obtain p where p: "p = \<lparr>pq_topic = topic, pq_payload = pf_payload f, pq_retain = (type_flags pub AND 0x01 \<noteq> 0),
      pq_extras = extras_of (now b) (pf_props f)\<rparr>" by blast
  have c1: "core b1 = with_session i (hold tbl ?pid p) (core b)"
    using publish_qos2_repeated [OF assms(1-3) p, of n] assms(6) by simp
  have ing1: "ingested b1 = ingested b" "on_publish_set b1"
    using arg_cong [OF c1, of ingested] arg_cong [OF c1, of on_publish_set] assms(4)
    by (simp_all add: with_session_def)
  have held: "qos2_inflight (heap b1 i) ?pid = Some p"
    using arg_cong [OF c1, of "\<lambda>b. qos2_inflight (heap b i) ?pid"] by (simp add: hold_def)
  let ?b2 = "snd (handle_pubrel i rel b1)"
  have b2: "b2 = ((\<lambda>b. snd (handle_pubrel i rel b)) ^^ m) ?b2"
    unfolding assms(7) by (simp only: funpow_Suc_right o_apply)
  note k = pubrel_known [OF assms(5) held ing1(2)]
  note c2 = pubrel_repeated [OF assms(5) k(2), of m, folded b2]
  show ?thesis using k log_of_core(1) [OF c2] log_of_core(8) [OF c2, of i] ing1 p by simp
qed

definition pub2_example :: Packet where
  "pub2_example = \<lparr>type_flags = 0x34, body = [0, 1, 0x74, 0, 9, 5]\<rparr>"

lemma pub2_accepted:
  "publish_accepted 1 pub2_example (new_NativeBroker None None True False)
     \<lparr>pf_topic = ''t'', pf_packet_id = 9, pf_props = no_properties, pf_payload = [5]\<rparr> ''t'' Map.empty"
proof -
  have "read_field [0, 1, 0x74, 0, 9, 5] 0 = Some ([0x74], 3)" "read_u16_at [0, 1, 0x74, 0, 9, 5] 3 = Some (9, 5)"
    by (simp_all add: read_field_def read_u16_at_def be_value_def)
  then show ?thesis
    by (simp add: publish_accepted_def pub2_example_def parse_publish_def new_NativeBroker_def new_Session_def
        string_of_bytes_def char_of_byte_def char_of_eq_iff resolve_alias_def no_properties_def extras_of_def bad_response_topic_def)
qed

theorem qos2_exactly_once_witness:
  "ingested (((\<lambda>b. snd (handle_pubrel 1 \<lparr>type_flags = 0x62, body = put_u16_be [] 9\<rparr> b)) ^^ Suc 1)
     (((\<lambda>b. snd (handle_publish 1 pub2_example b)) ^^ Suc 2) (new_NativeBroker None None True False)))
   = [(''t'', [5], 2, \<lparr>pp_response_topic = None, pp_correlation_data = None, pp_user_properties = []\<rparr>)]"
proof -
  let ?rel = "\<lparr>type_flags = 0x62, body = put_u16_be [] 9\<rparr> :: Packet"
  have "drop_bit 1 (type_flags pub2_example) AND 0x03 = 2" by (simp add: pub2_example_def)
  from qos2_exactly_once [OF pub2_accepted this, of ?rel, OF _ _ _ refl refl, of 2 1]
  show ?thesis
    by (simp add: new_NativeBroker_def acl_allows_def to_publish_properties_def extras_of_def no_properties_def
        del: funpow.simps)
qed

section \<open>Persistent sessions\<close>

lemma store_session_stored:
  assumes "client_id (heap b i) = cid" and "cid \<noteq> []" and "client_sessions b cid = Some i"
    and "\<not> clean_session (heap b i)"
  shows "stored_sessions (store_session i b) cid =
    Some \<lparr>ss_subs = subs (heap b i), ss_queued = [],
          ss_expires_at = map_option (\<lambda>n. now b + unat n * second) (s_session_expiry_interval (heap b i))\<rparr>"
  using assms by (simp add: store_session_def Let_def)

definition persistent_example :: NativeBroker where
  "persistent_example =
     with_session 2 (\<lambda>s. s\<lparr>client_id := ''c'', clean_session := False,
         subs := [\<lparr>sub_filter = ''#'', sub_qos = 1, sub_share_group = None\<rparr>]\<rparr>)
       ((new_NativeBroker None None True False)\<lparr>sessions := [2], client_sessions := [''c'' \<mapsto> 2],
         wildcard_subscribers := [2]\<rparr>)"

lemma persistent_example_facts:
  "client_id (heap persistent_example 2) = ''c''" "client_sessions persistent_example ''c'' = Some 2"
  "\<not> clean_session (heap persistent_example 2)"
  "subs (heap persistent_example 2) = [\<lparr>sub_filter = ''#'', sub_qos = 1, sub_share_group = None\<rparr>]"
  "s_session_expiry_interval (heap persistent_example 2) = None"
  by (simp_all add: persistent_example_def new_NativeBroker_def new_Session_def)

lemma hash_matches: "topic_matches ''#'' topic"
proof -
  have "split_levels ''#'' = [''#'']" by (rule split_levels_single) simp
  then show ?thesis by (simp add: topic_matches_def)
qed

lemma send_packet_core_fields:
  "send_packet i tf bs b = (ok, b') \<Longrightarrow> subs (heap b' j) = subs (heap b j)"
  "send_packet i tf bs b = (ok, b') \<Longrightarrow> stored_sessions b' = stored_sessions b"
  "send_packet i tf bs b = (ok, b') \<Longrightarrow> client_sessions b' = client_sessions b"
  "send_packet i tf bs b = (ok, b') \<Longrightarrow> client_id (heap b' j) = client_id (heap b j)"
proof -
  assume "send_packet i tf bs b = (ok, b')"
  from core_send_packetD [OF this] have c: "core b' = core b" .
  show "subs (heap b' j) = subs (heap b j)" "stored_sessions b' = stored_sessions b" "client_sessions b' = client_sessions b"
    by (rule log_of_core [OF c])+
  show "client_id (heap b' j) = client_id (heap b j)"
    using arg_cong [OF c, of "\<lambda>b. client_id (heap b j)"] by simp
qed

lemma take_over_fields:
  "client_sessions (take_over j cid b) cid = Some j"
  "subs (heap (take_over j cid b) k) = subs (heap b k)"
  "client_id (heap (take_over j cid b) k) = client_id (heap b k)"
proof -
  have "subs (heap (schedule_reactor_teardown i c (send_disconnect i r b')) k) = subs (heap b' k)"
    "client_id (heap (schedule_reactor_teardown i c (send_disconnect i r b')) k) = client_id (heap b' k)" for i c r b'
  proof -
    have c: "core (schedule_reactor_teardown i c (send_disconnect i r b')) = core b'" by simp
    show "subs (heap (schedule_reactor_teardown i c (send_disconnect i r b')) k) = subs (heap b' k)"
      by (rule log_of_core(7) [OF c])
    show "client_id (heap (schedule_reactor_teardown i c (send_disconnect i r b')) k) = client_id (heap b' k)"
      using arg_cong [OF c, of "\<lambda>b. client_id (heap b k)"] by (simp del: core_schedule core_send_disconnect)
  qed
  then show "subs (heap (take_over j cid b) k) = subs (heap b k)"
    "client_id (heap (take_over j cid b) k) = client_id (heap b k)"
    by (auto simp: take_over_def Let_def split: option.split)
  show "client_sessions (take_over j cid b) cid = Some j" by (simp add: take_over_def Let_def)
qed

lemma accept_connect_takeover:
  assumes "cf_client_id f = cid" and "cid \<noteq> []" and "\<not> cf_clean_session f" and "stored_sessions b cid = None"
  shows "\<exists>ok. accept_connect j is_v5 f b = (ok, snd (send_packet j 0x20 (connack_body is_v5 False)
    (take_over j cid (with_session j (set_connect_fields (now b) f) b))))"
  using assms by (auto simp: accept_connect_def restore_session_def restore_subs_def Let_def split: prod.split)

text \<open>
  When a client with a clean-session flag of 0 reconnects while its old connection is still
  registered, the takeover loses its session: the new connection starts with no subscription, and
  tearing the old one down stores nothing, so its subscriptions are gone.
\<close>
theorem takeover_drops_persistent_session:
  assumes "client_sessions b cid = Some i" and "i \<noteq> j" and "cid \<noteq> []" and "client_id (heap b i) = cid"
    and "cf_client_id f = cid" and "\<not> cf_clean_session f" and "stored_sessions b cid = None"
    and "subs (heap b j) = []" and "b1 = snd (accept_connect j is_v5 f b)"
  shows "subs (heap b1 j) = [] \<and> stored_sessions (teardown_session i clean b1) cid = None"
proof -
  let ?b = "take_over j cid (with_session j (set_connect_fields (now b) f) b)"
  have b1: "b1 = snd (send_packet j 0x20 (connack_body is_v5 False) ?b)"
    using accept_connect_takeover [OF assms(5,3,6,7), of j is_v5] assms(9) by auto
  obtain ok where s: "send_packet j 0x20 (connack_body is_v5 False) ?b = (ok, b1)"
    using b1 by (metis prod.collapse)
  note fl = send_packet_core_fields [OF s]
  have j: "subs (heap b1 j) = []" "stored_sessions b1 cid = None" "client_sessions b1 cid = Some j" "client_id (heap b1 i) = cid"
    using fl assms(2,4,7,8) by (simp_all add: take_over_fields)
  let ?d = "if \<not> clean \<and> has_will (heap b1 i) then deliver_publish (will_topic (heap b1 i)) (will_payload (heap b1 i))
      (will_qos (heap b1 i)) (will_retain (heap b1 i)) (will_extras (heap b1 i)) b1 else b1"
  have q: "quiet ?d = quiet b1" by simp
  have "client_sessions ?d cid = Some j" "client_id (heap ?d i) = cid"
    using arg_cong [OF q, of client_sessions] arg_cong [OF q, of "\<lambda>b. client_id (heap b i)"] j(3,4)
    by (simp_all del: quiet_deliver)
  then have "store_session i ?d = ?d" using assms(2) by (simp add: store_session_def Let_def)
  moreover have "stored_sessions ?d cid = None" using j(2) by (simp add: deliver_publish_fields offline_def)
  ultimately have "stored_sessions (teardown_session i clean b1) cid = None"
    by (simp add: teardown_session_def Let_def)
  with j(1) show ?thesis by simp
qed

theorem takeover_drops_persistent_session_witness:
  "let f = \<lparr>cf_keep_alive = 0, cf_session_expiry = None, cf_max_packet_size = None, cf_topic_alias_max = None,
            cf_client_id = ''c'', cf_will = None, cf_will_qos = 0, cf_will_retain = False,
            cf_clean_session = False, cf_username = [], cf_password = []\<rparr>
   in subs (heap persistent_example 2) \<noteq> [] \<and>
      subs (heap (snd (accept_connect 3 False f persistent_example)) 3) = []"
proof -
  let ?f = "\<lparr>cf_keep_alive = 0, cf_session_expiry = None, cf_max_packet_size = None, cf_topic_alias_max = None,
            cf_client_id = ''c'', cf_will = None, cf_will_qos = 0, cf_will_retain = False,
            cf_clean_session = False, cf_username = [], cf_password = []\<rparr>"
  have "stored_sessions persistent_example ''c'' = None" "subs (heap persistent_example 3) = []"
    by (simp_all add: persistent_example_def new_NativeBroker_def new_Session_def)
  from takeover_drops_persistent_session [OF persistent_example_facts(2) _ _ persistent_example_facts(1) _ _ this refl,
      of ?f False]
  show ?thesis by (simp add: persistent_example_facts)
qed

section \<open>A session that never connected\<close>

lemma publish_qos0_accepted:
  assumes "length topic < 65536" and "protocol_version (heap b i) = 4"
  shows "publish_accepted i \<lparr>type_flags = 0x30, body = put_str [] topic @ payload\<rparr> b
    \<lparr>pf_topic = topic, pf_packet_id = 0, pf_props = no_properties, pf_payload = payload\<rparr> topic (topic_aliases (heap b i))"
proof -
  have "drop (2 + length topic) (put_str [] topic @ payload) = payload"
    by (simp add: put_str_def put_u16_be_def)
  with assms read_field_put_str [OF assms(1), of payload] show ?thesis
    by (simp add: publish_accepted_def parse_publish_def resolve_alias_def no_properties_def extras_of_def
        bad_response_topic_def)
qed

text \<open>
  The state a fresh plaintext connection is in once the reactor has registered it: the session is new
  and nothing was negotiated.
\<close>

definition connected :: "(string \<Rightarrow> string \<Rightarrow> string option) \<Rightarrow> send_script \<Rightarrow> NativeBroker" where
  "connected auth sc = foldl handle_event (new_NativeBroker (Some auth) None True False) [Accept 2 sc, RunTask]"

lemma connected_facts:
  "sessions (connected auth sc) = [2]" "heap (connected auth sc) 2 = (new_Session True 0 sc)\<lparr>poll_in := True\<rparr>"
  "on_publish_set (connected auth sc)" "cfg_authorizer (connected auth sc) = None" "ingested (connected auth sc) = []"
  by (simp_all add: connected_def new_NativeBroker_def accept_plain_def off_reactor_def on_reactor_def post_def
      run_posted_def with_session_def new_Session_def)

lemma dispatch_one_publish:
  assumes "length topic < 65536" and "2 + length topic + length payload < 128 ^ 4"
    and "protocol_version (heap b i) = 4" and "\<not> kicked (heap b i)" and "cfg_authorizer b = None" and "on_publish_set b"
    and "buf = serialize_packet 0x30 (put_str [] topic @ payload)"
  shows "\<exists>b'. dispatch_loop i buf 0 b = (False, False, length buf, b')
    \<and> ingested b' = ingested b @ [(topic, payload, 0, to_publish_properties no_extras)]"
proof -
  let ?pkt = "\<lparr>type_flags = 0x30, body = put_str [] topic @ payload\<rparr>"
  have "packet_wf ?pkt" using assms(2) by (simp add: packet_wf_def put_str_def put_u16_be_def)
  then have parse: "try_parse_packet buf 0 = Inr (?pkt, length buf)"
    using try_parse_packet_bytes [of ?pkt "[]" "[]"] assms(7) by (simp add: packet_bytes_def)
  let ?b1 = "with_session i (\<lambda>s. s\<lparr>last_activity := now b\<rparr>) b"
  let ?f = "\<lparr>pf_topic = topic, pf_packet_id = 0, pf_props = no_properties, pf_payload = payload\<rparr>"
  have acc: "publish_accepted i ?pkt ?b1 ?f topic (topic_aliases (heap ?b1 i))"
    using publish_qos0_accepted [OF assms(1), of ?b1 i] assms(3) by simp
  let ?b2 = "deliver_publish topic payload 0 False (extras_of (now ?b1) no_properties)
    (with_session i (\<lambda>s. s\<lparr>topic_aliases := topic_aliases (heap ?b1 i)\<rparr>) ?b1)"
  have "handle_publish i ?pkt ?b1 = (True, ?b2)"
    using handle_publish_accepted [OF acc] assms(5) by (simp add: act_on_publish_def acl_allows_def Let_def)
  then have d: "dispatch_packet i ?pkt b = (False, False, ?b2)"
    by (simp add: dispatch_packet_def Let_def)
  have k: "\<not> kicked (heap ?b2 i)"
  proof -
    have q: "quiet ?b2 = quiet (with_session i (\<lambda>s. s\<lparr>topic_aliases := topic_aliases (heap ?b1 i)\<rparr>) ?b1)" by (rule quiet_deliver)
    from arg_cong [OF q, of "\<lambda>b. kicked (heap b i)"] assms(4) show ?thesis by (simp del: quiet_deliver)
  qed
  have "ingested ?b2 = ingested b @ [(topic, payload, 0, to_publish_properties no_extras)]"
    using assms(6) by (simp add: deliver_publish_fields to_publish_properties_def extras_of_def no_properties_def no_extras_def with_session_def)
  moreover have "dispatch_loop i buf (length buf) ?b2 = (False, False, length buf, ?b2)"
    using k by (subst dispatch_loop.simps) (simp add: try_parse_packet_def)
  ultimately show ?thesis
    using parse d assms(4) by (subst dispatch_loop.simps) simp
qed

text \<open>
  C33: The authentication gate is only in CONNECT. A peer that opens a connection and sends a PUBLISH as
  its first packet, without any CONNECT, has it ingested, whatever the configured authenticator
  answers, here one that rejects every credential.
\<close>
theorem unauthenticated_publish_ingested:
  assumes "length topic < 65536" and "2 + length topic + length payload < 128 ^ 4" and "auth = (\<lambda>_ _. None)"
  shows "ingested (foldl handle_event (new_NativeBroker (Some auth) None True False)
      [Accept 2 sc, RunTask, Ready 2 True False False (RxChunk (serialize_packet 0x30 (put_str [] topic @ payload)))])
    = [(topic, payload, 0, to_publish_properties no_extras)]"
proof -
  let ?buf = "serialize_packet 0x30 (put_str [] topic @ payload)"
  let ?b = "on_reactor (connected auth sc)"
  have b: "heap ?b 2 = (new_Session True 0 sc)\<lparr>poll_in := True\<rparr>" "cfg_authorizer ?b = None" "on_publish_set ?b" "ingested ?b = []"
    by (simp_all add: on_reactor_def connected_facts)
  obtain b' where d: "dispatch_loop 2 ?buf 0 ?b = (False, False, length ?buf, b')"
    "ingested b' = [(topic, payload, 0, to_publish_properties no_extras)]"
    using dispatch_one_publish [OF assms(1,2), of ?b 2 ?buf] b by (auto simp: new_Session_def)
  have "?buf \<noteq> []" using length_serialize [of "0x30" "put_str [] topic @ payload"] by auto
  with d b have "ingested (on_reactor_ready 2 True False False (RxChunk ?buf) ?b) = [(topic, payload, 0, to_publish_properties no_extras)]"
    by (simp add: on_reactor_ready_def process_input_def Let_def new_Session_def)
  then show ?thesis using connected_facts(1,2) [of auth sc] by (simp add: connected_def)
qed

theorem unauthenticated_publish_ingested_witness:
  "ingested (foldl handle_event (new_NativeBroker (Some (\<lambda>_ _. None)) None True False)
      [Accept 2 [], RunTask, Ready 2 True False False (RxChunk (serialize_packet 0x30 (put_str [] ''plant/stop'' @ [1])))])
    = [(''plant/stop'', [1], 0, to_publish_properties no_extras)]"
  by (rule unauthenticated_publish_ingested) simp_all

section \<open>The Will\<close>

text \<open>
  The Will of a session is handed to ingestion exactly once when the session ends ungracefully and
  never after a DISCONNECT. The authorizer is not consulted: a Will is published even on a topic its
  client may not publish to.
\<close>
theorem will_published_unchecked:
  assumes "has_will (heap b i)" and "on_publish_set b"
    and "cfg_authorizer b = Some authz" and "\<not> authz (s_principal (heap b i)) (will_topic (heap b i)) Publish"
  shows "ingested (teardown_session i False b) = ingested b @
      [(will_topic (heap b i), will_payload (heap b i), will_qos (heap b i), to_publish_properties (will_extras (heap b i)))] \<and>
    ingested (teardown_session i True b) = ingested b"
proof -
  have "ingested (store_session i b') = ingested b'" for b'
    by (simp add: store_session_def Let_def)
  with assms(1,2) show ?thesis by (simp add: teardown_session_def Let_def deliver_publish_fields)
qed

theorem will_published_unchecked_witness:
  "let b = with_session 1 (\<lambda>s. s\<lparr>has_will := True, will_topic := ''admin'', will_payload := [1]\<rparr>)
             (new_NativeBroker None (Some DenyAllAuthorizer) True False)
   in map fst (ingested (teardown_session 1 False b)) = [''admin'']"
proof -
  let ?b = "with_session 1 (\<lambda>s. s\<lparr>has_will := True, will_topic := ''admin'', will_payload := [1]\<rparr>)
             (new_NativeBroker None (Some DenyAllAuthorizer) True False)"
  have "has_will (heap ?b 1)" "on_publish_set ?b" "cfg_authorizer ?b = Some DenyAllAuthorizer"
    "\<not> DenyAllAuthorizer (s_principal (heap ?b 1)) (will_topic (heap ?b 1)) Publish"
    by (simp_all add: new_NativeBroker_def DenyAllAuthorizer_def with_session_def)
  from will_published_unchecked [OF this] show ?thesis
    by (simp add: new_NativeBroker_def)
qed

section \<open>Peers\<close>

text \<open>
  A PUBLISH relayed from a peer is ingested and routed like a local one but is never forwarded to
  peers and never retained, while a local PUBLISH is forwarded exactly once: a relayed message cannot
  bounce between nodes.
\<close>
theorem relay_never_forwards:
  "forwarded (deliver_remote_publish topic payload qos ex props b) = forwarded b \<and>
   retained (deliver_remote_publish topic payload qos ex props b) = retained b \<and>
   length (forwarded (deliver_publish topic payload qos retain extras b))
     = length (forwarded b) + (if peer_forwarder_set b then 1 else 0)"
  by (simp add: deliver_remote_publish_def deliver_publish_def forward_to_peers_def ingest_def retain_message_def Let_def)

section \<open>Stopping\<close>

lemma fd_open_teardown: "fd_open (heap (teardown_session j c b) i) = (i \<noteq> j \<and> fd_open (heap b i))"
  and reactor_teardown: "is_reactor_session (heap (teardown_session j c b) i) = is_reactor_session (heap b i)"
  and sessions_teardown: "sessions (teardown_session j c b) = removeAll j (sessions b)"
proof -
  let ?d = "if \<not> c \<and> has_will (heap b j) then deliver_publish (will_topic (heap b j)) (will_payload (heap b j))
      (will_qos (heap b j)) (will_retain (heap b j)) (will_extras (heap b j)) b else b"
  have q: "quiet ?d = quiet b" by simp
  have st: "heap (store_session j x) = heap x" "sessions (store_session j x) = sessions x" for x
    by (simp_all add: store_session_def Let_def)
  have cl: "is_reactor_session (close_session x) = is_reactor_session x" "\<not> fd_open (close_session x)" for x
    by (simp_all add: close_session_def discard_outbound_def)
  have "fd_open (heap ?d k) = fd_open (heap b k)" "is_reactor_session (heap ?d k) = is_reactor_session (heap b k)"
    "sessions ?d = sessions b" for k
    using arg_cong [OF q, of "\<lambda>b. fd_open (heap b k)"] arg_cong [OF q, of "\<lambda>b. is_reactor_session (heap b k)"]
      arg_cong [OF q, of sessions] by (simp_all del: quiet_deliver)
  then show "fd_open (heap (teardown_session j c b) i) = (i \<noteq> j \<and> fd_open (heap b i))"
    "is_reactor_session (heap (teardown_session j c b) i) = is_reactor_session (heap b i)"
    "sessions (teardown_session j c b) = removeAll j (sessions b)"
    by (simp_all add: teardown_session_def Let_def st cl)
qed

lemma tear_all_facts:
  "fd_open (heap (tear_all is b) i) = (i \<notin> set is \<and> fd_open (heap b i))"
  "is_reactor_session (heap (tear_all is b) i) = is_reactor_session (heap b i)"
  "set (sessions (tear_all is b)) = set (sessions b) - set is"
  by (induction "is" arbitrary: b)
     (auto simp: tear_all_def fd_open_teardown reactor_teardown sessions_teardown)

lemma handoff_rounds_core: "core ((handoff_worker_step ^^ n) b) = core b"
  by (induction n) simp_all

text \<open>
  Stopping the broker closes the socket of every connected session, plaintext or TLS, and leaves no
  session registered.
\<close>
theorem stop_closes_every_session:
  assumes "i \<in> set (sessions b)"
  shows "\<not> fd_open (heap (stop_broker b) i) \<and> sessions (stop_broker b) = []"
proof -
  let ?b1 = "(handoff_worker_step ^^ length (handoff_queue b)) (off_reactor (b\<lparr>posted := []\<rparr>))"
  have c: "core ?b1 = core (off_reactor (b\<lparr>posted := []\<rparr>))" by (rule handoff_rounds_core)
  have s: "sessions ?b1 = sessions b"
    using log_of_core(6) [OF c] by (simp add: off_reactor_def)
  let ?ls = "filter (\<lambda>i. \<not> is_reactor_session (heap ?b1 i)) (sessions ?b1)"
  let ?b2 = "tear_all ?ls ?b1"
  let ?rs = "filter (\<lambda>i. is_reactor_session (heap ?b2 i)) (sessions ?b2)"
  have st: "stop_broker b = tear_all ?rs (?b2\<lparr>sessions := []\<rparr>)" by (simp add: stop_broker_def Let_def)
  have "i \<in> set ?ls \<or> i \<in> set ?rs" using assms s by (auto simp: tear_all_facts)
  then have "\<not> fd_open (heap (stop_broker b) i)" unfolding st by (auto simp: tear_all_facts)
  moreover have "set (sessions (stop_broker b)) = {}" unfolding st by (simp add: tear_all_facts)
  ultimately show ?thesis by simp
qed

theorem stop_closes_every_session_witness:
  "let b = foldl handle_event (new_NativeBroker None None True False) [Accept 4 [], AcceptTls 5 []]
   in \<not> fd_open (heap (stop_broker b) 4) \<and> \<not> fd_open (heap (stop_broker b) 5)"
proof -
  let ?b = "foldl handle_event (new_NativeBroker None None True False) [Accept 4 [], AcceptTls 5 []]"
  have "4 \<in> set (sessions ?b)" "5 \<in> set (sessions ?b)"
    by (simp_all add: accept_plain_def accept_tls_def off_reactor_def post_def new_NativeBroker_def)
  then show ?thesis unfolding Let_def using stop_closes_every_session by blast
qed

end
