(* ===== verification/Broker_Persist.thy ===== *)
theory Broker_Persist
  imports Broker_Props
begin

text \<open>
  What a client with a persistent session gets when it comes back: the bytes the broker commits to its new
  connection, by the non-blocking queue of a reactor session or the blocking writes of a legacy one, up to
  the first send that fails.
\<close>

section \<open>The stream of a session\<close>

text \<open>
  The bytes accepted by the socket, the rest of the packet being sent and the packets still queued. The
  packets of a CONNECT are queued with their bytes already built, and a legacy session queues nothing.
\<close>

fun raw_bytes :: "QueuedOutbound \<Rightarrow> byte list" where
  "raw_bytes (QueuedOutboundRaw tf bs) = serialize_packet tf bs"
| "raw_bytes _ = []"

fun is_raw :: "QueuedOutbound \<Rightarrow> bool" where
  "is_raw (QueuedOutboundRaw tf bs) = True"
| "is_raw _ = False"

definition stream_of :: "Session \<Rightarrow> byte list" where
  "stream_of s = sock_wire s @ pending_bytes s @ concat (map raw_bytes (out_queue s))"

definition raw_out :: "Session \<Rightarrow> bool" where
  "raw_out s \<longleftrightarrow> list_all is_raw (out_queue s) \<and> (\<not> is_reactor_session s \<longrightarrow> out_queue s = [] \<and> out_current s = [])"

lemma queue_bytes_raw: "list_all is_raw q \<Longrightarrow> queue_bytes t q s c = concat (map raw_bytes q)"
proof (induction q)
  case (Cons x q)
  then show ?case by (cases x) simp_all
qed simp

lemma stream_of_outstanding: "raw_out s \<Longrightarrow> stream_of s = sock_wire s @ outstanding t s c"
  by (simp add: stream_of_def outstanding_def raw_out_def queue_bytes_raw)

lemma fill_current_raw:
  assumes "list_all is_raw q" "fill_current t q s c = (s', c')"
  shows "list_all is_raw (out_queue s') \<and> c' = c \<and> teardown_scheduled s' = teardown_scheduled s \<and> same_build s' s"
  using assms
proof (induction q arbitrary: s)
  case Nil
  then show ?case by auto
next
  case (Cons x q)
  obtain tf bs where x: "x = QueuedOutboundRaw tf bs" using Cons.prems(1) by (cases x) simp_all
  show ?case
  proof (cases "out_current s = []")
    case True
    then have "fill_current t q (s\<lparr>out_current := serialize_packet tf bs, out_sent := 0\<rparr>) c = (s', c')"
      using Cons.prems(2) by (simp add: x)
    from Cons.IH [OF _ this] Cons.prems(1) show ?thesis by (simp add: same_build_def)
  next
    case False
    then show ?thesis using Cons.prems by (auto simp: same_build_def)
  qed
qed

lemma drain_send_raw:
  assumes "list_all is_raw (out_queue s)" "drain_send t sc s c = (e, s', c')"
  shows "list_all is_raw (out_queue s') \<and> c' = c \<and> teardown_scheduled s' = teardown_scheduled s \<and> same_build s' s"
  using assms
proof (induction sc arbitrary: s c)
  case Nil
  obtain s1 c1 where f: "fill_current t (out_queue s) s c = (s1, c1)" by fastforce
  from fill_current_raw [OF Nil.prems(1) f] Nil.prems(2) f show ?case
    by (subst (asm) drain_send.simps) (auto simp: discard_outbound_def same_build_def split: if_splits)
next
  case (Cons a sc)
  obtain s1 c1 where f: "fill_current t (out_queue s) s c = (s1, c1)" by fastforce
  note k = fill_current_raw [OF Cons.prems(1) f]
  obtain u out where a: "a = (u, out)" by fastforce
  show ?case
  proof (cases "out_current s1 \<noteq> [] \<and> (\<exists>n. out = SendOk n)")
    case True
    then obtain n where n: "out = SendOk n" by blast
    have "drain_send t sc (accept_bytes n s1) c1 = (e, s', c')"
      using Cons.prems(2) f a n True by (subst (asm) drain_send.simps) simp
    moreover have "list_all is_raw (out_queue (accept_bytes n s1))" using k accept_bytes_conserves(2) by simp
    moreover have "teardown_scheduled (accept_bytes n s1) = teardown_scheduled s1" by (simp add: accept_bytes_def Let_def)
    ultimately show ?thesis
      using Cons.IH [of "accept_bytes n s1" c1] k accept_bytes_conserves(3) [of n s1] by (auto simp: same_build_def)
  next
    case False
    then show ?thesis using Cons.prems(2) f a k
      by (subst (asm) drain_send.simps)
         (auto simp: discard_outbound_def same_build_def split: if_splits send_outcome.splits)
  qed
qed

section \<open>Sending on a session\<close>

lemma stream_upd [simp]:
  "stream_of (s\<lparr>write_interest_armed := x\<rparr>) = stream_of s" "stream_of (s\<lparr>poll_out := x\<rparr>) = stream_of s"
  "raw_out (s\<lparr>write_interest_armed := x\<rparr>) = raw_out s" "raw_out (s\<lparr>poll_out := x\<rparr>) = raw_out s"
  "same_build (s\<lparr>write_interest_armed := x\<rparr>) u = same_build s u" "same_build (s\<lparr>poll_out := x\<rparr>) u = same_build s u"
  by (simp_all add: stream_of_def raw_out_def pending_bytes_def same_build_def)

text \<open>What a state keeps of the session \<open>j\<close> and the packet counter while packets are appended to its stream.\<close>

definition out_extends :: "sid \<Rightarrow> byte list \<Rightarrow> NativeBroker \<Rightarrow> NativeBroker \<Rightarrow> bool" where
  "out_extends j bs b b' \<longleftrightarrow> raw_out (heap b' j) \<and> stream_of (heap b' j) = stream_of (heap b j) @ bs \<and>
     same_build (heap b' j) (heap b j) \<and> packet_id b' = packet_id b"

lemma mod_fd_session:
  "\<exists>x. heap (mod_fd j out b) j = heap b j \<or> heap (mod_fd j out b) j = (heap b j)\<lparr>poll_out := x\<rparr>"
  "packet_id (mod_fd j out b) = packet_id b"
  by (auto simp: mod_fd_def post_def with_session_def)

lemma out_extends_mod_fd:
  assumes "out_extends j bs b b'"
  shows "out_extends j bs b (mod_fd j out b')"
  using mod_fd_session(1) [of j out b'] mod_fd_session(2) [of j out b'] assms by (auto simp: out_extends_def)

lemma teardown_mod_fd [simp]: "teardown_scheduled (heap (mod_fd j out b) j) = teardown_scheduled (heap b j)"
  by (simp add: mod_fd_def post_def)

lemma out_extends_flag:
  "out_extends j bs b b' \<Longrightarrow> out_extends j bs b (with_session j (\<lambda>s. s\<lparr>write_interest_armed := x\<rparr>) b')"
  by (simp add: out_extends_def with_session_def)

lemma try_drain_extends:
  assumes "raw_out (heap b j)" "is_reactor_session (heap b j)" "b' = try_drain_reactor_send j b" "\<not> teardown_scheduled (heap b' j)"
  shows "out_extends j [] b b' \<and> \<not> teardown_scheduled (heap b j)"
proof -
  let ?s = "heap b j"
  obtain e s c where d: "drain_send (now b) (live_script ?s) ?s (packet_id b) = (e, s, c)" by (metis prod_cases3)
  have r: "list_all is_raw (out_queue s)" "c = packet_id b" "teardown_scheduled s = teardown_scheduled ?s" "same_build s ?s"
    using drain_send_raw [OF _ d] assms(1) by (simp_all add: raw_out_def)
  have er: "is_reactor_session s"
    using arg_cong [OF erase_out_drain [OF d], of is_reactor_session] assms(2) by simp
  let ?b = "b\<lparr>heap := (heap b)(j := s), packet_id := c\<rparr>"
  have "e \<noteq> DrainFailed"
    using assms(3,4) d by (auto simp: try_drain_reactor_send_def schedule_reactor_teardown_def Let_def post_def split: if_splits)
  then have "sock_wire s @ outstanding (now b) s c = sock_wire ?s @ outstanding (now b) ?s (packet_id b)"
    using drain_send_conserves [OF d] by simp
  then have st: "stream_of s = stream_of ?s"
    using stream_of_outstanding [OF assms(1)] stream_of_outstanding [of s] r(1) er by (simp add: raw_out_def)
  then have ex: "out_extends j [] b ?b" using r er by (simp add: out_extends_def raw_out_def)
  have ex_flag: "out_extends j [] b (with_session j (\<lambda>s. s\<lparr>write_interest_armed := x\<rparr>) ?b)" for x
    using ex by (rule out_extends_flag)
  have "out_extends j [] b b' \<and> teardown_scheduled (heap b' j) = teardown_scheduled s"
    using \<open>e \<noteq> DrainFailed\<close> assms(3) d ex out_extends_mod_fd [OF ex_flag]
    by (cases e) (auto simp: try_drain_reactor_send_def arm_write_interest_def Let_def)
  then show ?thesis using assms(4) r(3) by simp
qed

lemma send_packet_extends:
  assumes "raw_out (heap b j)" "send_packet j tf bs b = (True, b')" "\<not> teardown_scheduled (heap b' j)"
  shows "out_extends j (serialize_packet tf bs) b b' \<and> \<not> teardown_scheduled (heap b j)"
proof (cases "is_reactor_session (heap b j)")
  case True
  let ?b = "with_session j (\<lambda>s. s\<lparr>out_queue := out_queue s @ [QueuedOutboundRaw tf bs]\<rparr>) b"
  have b': "b' = try_drain_reactor_send j ?b" using assms(2) True by (simp add: send_packet_def)
  have raw: "raw_out (heap ?b j)" "is_reactor_session (heap ?b j)" using assms(1) True by (simp_all add: raw_out_def)
  from try_drain_extends [OF raw b' assms(3)] show ?thesis
    by (auto simp: out_extends_def stream_of_def pending_bytes_def same_build_def with_session_def)
next
  case False
  obtain sc w where w: "write_packet (live_script (heap b j)) (sock_wire (heap b j)) tf bs = (True, sc, w)"
      "b' = b\<lparr>heap := (heap b)(j := (heap b j)\<lparr>sock_script := sc, sock_wire := w\<rparr>)\<rparr>"
    using assms(2) False by (auto simp: send_packet_def legacy_write_def split: prod.splits)
  have "w = sock_wire (heap b j) @ serialize_packet tf bs" using write_packet_wire [OF w(1)] by auto
  then show ?thesis
    using assms(1,3) False w(2) by (simp add: out_extends_def raw_out_def stream_of_def pending_bytes_def same_build_def)
qed

text \<open>Whatever the outcome, the queue keeps built packets only, and a scheduled teardown stays scheduled.\<close>

lemma raw_out_teardown [simp]: "raw_out (s\<lparr>teardown_scheduled := x\<rparr>) = raw_out s"
  by (simp add: raw_out_def)

lemma raw_mod_fd [simp]: "raw_out (heap (mod_fd j out b) j) = raw_out (heap b j)"
  using mod_fd_session(1) [of j out b] by auto

lemma try_drain_raw:
  assumes "raw_out (heap b j)" "is_reactor_session (heap b j)"
  shows "raw_out (heap (try_drain_reactor_send j b) j) \<and>
    (teardown_scheduled (heap b j) \<longrightarrow> teardown_scheduled (heap (try_drain_reactor_send j b) j))"
proof -
  obtain e s c where d: "drain_send (now b) (live_script (heap b j)) (heap b j) (packet_id b) = (e, s, c)" by (metis prod_cases3)
  have "list_all is_raw (out_queue s)" "teardown_scheduled s = teardown_scheduled (heap b j)"
    using drain_send_raw [OF _ d] assms(1) by (simp_all add: raw_out_def)
  moreover have "is_reactor_session s" using arg_cong [OF erase_out_drain [OF d], of is_reactor_session] assms(2) by simp
  ultimately have "raw_out s" "teardown_scheduled s = teardown_scheduled (heap b j)" by (simp_all add: raw_out_def)
  then show ?thesis
    using d by (cases e) (auto simp: try_drain_reactor_send_def arm_write_interest_def schedule_reactor_teardown_def Let_def post_def)
qed

lemma send_packet_raw:
  assumes "raw_out (heap b j)" "send_packet j tf bs b = (good, b')"
  shows "raw_out (heap b' j) \<and> (teardown_scheduled (heap b j) \<longrightarrow> teardown_scheduled (heap b' j))"
proof (cases "is_reactor_session (heap b j)")
  case True
  let ?b = "with_session j (\<lambda>s. s\<lparr>out_queue := out_queue s @ [QueuedOutboundRaw tf bs]\<rparr>) b"
  have "raw_out (heap ?b j)" "is_reactor_session (heap ?b j)" using assms(1) True by (simp_all add: raw_out_def)
  from try_drain_raw [OF this] show ?thesis using assms(2) True by (auto simp: send_packet_def)
next
  case False
  then show ?thesis using assms by (auto simp: send_packet_def legacy_write_def raw_out_def split: prod.splits)
qed

lemma out_extends_trans: "out_extends j xs a b \<Longrightarrow> out_extends j ys b c \<Longrightarrow> out_extends j (xs @ ys) a c"
  by (auto simp: out_extends_def same_build_def)

section \<open>Queued messages\<close>

text \<open>The bytes the queued messages become for a client with the settings of \<open>s\<close>, from packet counter \<open>c\<close> on.\<close>

definition queued_publish :: "QueuedMessage \<Rightarrow> QueuedOutbound" where
  "queued_publish m = QueuedOutboundPublish (qm_topic m) (qm_payload m) (qm_qos m) False (qm_extras m)"

lemma now_send_packet: "send_packet j tf bs b = (ok, b') \<Longrightarrow> now b' = now b"
  using arg_cong [OF core_send_packetD, of j tf bs b ok b' now] by simp

text \<open>Building a packet leaves the session's stream as it is.\<close>

lemma build_publish_session:
  assumes "build_publish t topic payload qos extras u c = (r, s, c')"
  shows "raw_out s = raw_out u" "stream_of s = stream_of u" "teardown_scheduled s = teardown_scheduled u"
proof -
  have "is_reactor_session s = is_reactor_session u"
    using arg_cong [OF erase_out_build [OF assms], of is_reactor_session] by simp
  moreover have "out_queue s = out_queue u" "teardown_scheduled s = teardown_scheduled u"
    using assms by (auto simp: build_publish_def publish_body_def outbound_alias_def Let_def split: if_splits option.splits prod.splits)
  ultimately show "raw_out s = raw_out u" "stream_of s = stream_of u" "teardown_scheduled s = teardown_scheduled u"
    using build_publish_keeps [OF assms] by (simp_all add: raw_out_def stream_of_def pending_bytes_def)
qed

lemma flush_teardown:
  assumes "raw_out (heap b j)" "flush_queued j ms b = (good, b')" "teardown_scheduled (heap b j)"
  shows "teardown_scheduled (heap b' j)"
  using assms
proof (induction ms arbitrary: b)
  case (Cons m ms)
  obtain r s c where d: "build_publish (now b) (qm_topic m) (qm_payload m) (qm_qos m) (qm_extras m) (heap b j) (packet_id b) = (r, s, c)"
    by (metis prod_cases3)
  let ?b = "b\<lparr>heap := (heap b)(j := s), packet_id := c\<rparr>"
  have s: "raw_out (heap ?b j)" "teardown_scheduled (heap ?b j)"
    using Cons.prems(1,3) build_publish_session [OF d] by simp_all
  show ?case
  proof (cases r)
    case None
    then show ?thesis using Cons.IH [OF s(1) _ s(2)] Cons.prems(2) d by (simp add: publish_to_def Let_def)
  next
    case (Some bs)
    obtain g1 b1 where p: "send_packet j (publish_type_flags (qm_qos m) False) bs ?b = (g1, b1)" by fastforce
    then have "raw_out (heap b1 j)" "teardown_scheduled (heap b1 j)" using send_packet_raw [OF s(1) p] s(2) by auto
    then show ?thesis using Cons.IH [of b1] Cons.prems(2) d Some p by (auto simp: publish_to_def Let_def split: if_splits)
  qed
qed simp

lemma flush_extends:
  assumes "raw_out (heap b j)" "flush_queued j ms b = (True, b')" "\<not> teardown_scheduled (heap b' j)"
  shows "raw_out (heap b' j) \<and> \<not> teardown_scheduled (heap b j) \<and>
    stream_of (heap b' j) = stream_of (heap b j) @ queue_bytes (now b) (map queued_publish ms) (heap b j) (packet_id b)"
  using assms
proof (induction ms arbitrary: b)
  case Nil
  then show ?case by simp
next
  case (Cons m ms)
  obtain r s c where d: "build_publish (now b) (qm_topic m) (qm_payload m) (qm_qos m) (qm_extras m) (heap b j) (packet_id b) = (r, s, c)"
    by (metis prod_cases3)
  let ?b = "b\<lparr>heap := (heap b)(j := s), packet_id := c\<rparr>"
  have s: "raw_out (heap ?b j)" "stream_of (heap ?b j) = stream_of (heap b j)" "teardown_scheduled (heap ?b j) = teardown_scheduled (heap b j)"
    using Cons.prems(1) build_publish_session [OF d] by simp_all
  show ?case
  proof (cases r)
    case None
    then have "flush_queued j ms ?b = (True, b')" using Cons.prems(2) d by (simp add: publish_to_def Let_def)
    from Cons.IH [OF s(1) this Cons.prems(3)] s None d show ?thesis by (simp add: queued_publish_def)
  next
    case (Some bs)
    obtain b1 where p: "send_packet j (publish_type_flags (qm_qos m) False) bs ?b = (True, b1)" "flush_queued j ms b1 = (True, b')"
      using Cons.prems(2) d Some by (auto simp: publish_to_def Let_def split: prod.splits if_splits)
    have raw1: "raw_out (heap b1 j)" using send_packet_raw [OF s(1) p(1)] by blast
    then have t1: "\<not> teardown_scheduled (heap b1 j)" using flush_teardown [OF _ p(2)] Cons.prems(3) by blast
    note x = send_packet_extends [OF s(1) p(1) t1]
    have "now b1 = now b" using now_send_packet [OF p(1)] by simp
    moreover have "queue_bytes t q (heap b1 j) (packet_id b1) = queue_bytes t q s c" for t q
      using x queue_bytes_same [of "heap b1 j" s] by (simp add: out_extends_def)
    ultimately show ?thesis
      using Cons.IH [OF raw1 p(2) Cons.prems(3)] x s d Some by (auto simp: out_extends_def queued_publish_def)
  qed
qed

section \<open>Coming back\<close>

lemma index_fold_fields:
  "heap (fold (\<lambda>sub. index_subscription i (sub_filter sub)) rs b) = heap b"
  "packet_id (fold (\<lambda>sub. index_subscription i (sub_filter sub)) rs b) = packet_id b"
  "now (fold (\<lambda>sub. index_subscription i (sub_filter sub)) rs b) = now b"
  by (induction rs arbitrary: b) (auto simp: index_subscription_def Let_def)

lemma accept_connect_gets:
  assumes "cf_client_id f = cid" "cid \<noteq> []" "\<not> cf_clean_session f" "client_sessions b cid = None" "stored_sessions b cid = Some st"
    and "raw_out (heap b j)" "stream_of (heap b j) = []" "subs (heap b j) = []"
    and "accept_connect j is_v5 f b = (True, b')" "\<not> teardown_scheduled (heap b' j)"
    and "gone = stored_expired (now b) st"
  shows "raw_out (heap b' j) \<and> subs (heap b' j) = (if gone then [] else ss_subs st) \<and>
    stream_of (heap b' j) = serialize_packet 0x20 (connack_body is_v5 (\<not> gone)) @
      queue_bytes (now b) (map queued_publish (if gone then [] else ss_queued st)) (set_connect_fields (now b) f (heap b j)) (packet_id b)"
proof -
  let ?u = "set_connect_fields (now b) f (heap b j)"
  let ?b1 = "with_session j (set_connect_fields (now b) f) b"
  let ?b2 = "?b1\<lparr>client_sessions := (client_sessions ?b1)(cid \<mapsto> j), stored_sessions := (stored_sessions ?b1)(cid := None)\<rparr>"
  let ?rs = "if gone then [] else ss_subs st" and ?ms = "if gone then [] else ss_queued st"
  have "take_over j cid ?b1 = ?b1\<lparr>client_sessions := (client_sessions ?b1)(cid \<mapsto> j)\<rparr>"
    using assms(4) by (simp add: take_over_def with_session_def)
  then have "restore_session cid (cf_clean_session f) (take_over j cid ?b1) = ((?rs, ?ms, \<not> gone), ?b2)"
    using assms(3,5,11) by (simp add: restore_session_def with_session_def)
  then have ac: "accept_connect j is_v5 f b =
      (case send_packet j 0x20 (connack_body is_v5 (\<not> gone)) (restore_subs j ?rs ?b2) of (good, b) \<Rightarrow>
        if good then flush_queued j ?ms b else (False, b))"
    using assms(1,2) by (simp add: accept_connect_def Let_def)
  let ?b3 = "restore_subs j ?rs ?b2"
  have u: "raw_out ?u = raw_out (heap b j)" "stream_of ?u = stream_of (heap b j)" "subs ?u = subs (heap b j)"
    by (auto simp: set_connect_fields_def raw_out_def stream_of_def pending_bytes_def Let_def split: option.split)
  have b3: "heap ?b3 j = ?u\<lparr>subs := ?rs\<rparr>" "packet_id ?b3 = packet_id b" "now ?b3 = now b"
    using u(3) assms(8) by (simp_all add: restore_subs_def with_session_def index_fold_fields)
  have raw3: "raw_out (heap ?b3 j)" "stream_of (heap ?b3 j) = []"
    using u assms(6,7) unfolding b3(1) by (simp_all add: raw_out_def stream_of_def pending_bytes_def)
  obtain b4 where p: "send_packet j 0x20 (connack_body is_v5 (\<not> gone)) ?b3 = (True, b4)" "flush_queued j ?ms b4 = (True, b')"
    using assms(9) unfolding ac by (auto split: prod.splits if_splits)
  have raw4: "raw_out (heap b4 j)" using send_packet_raw [OF raw3(1) p(1)] by blast
  then have t4: "\<not> teardown_scheduled (heap b4 j)" using flush_teardown [OF _ p(2)] assms(10) by blast
  note x = send_packet_extends [OF raw3(1) p(1) t4]
  have "same_build (heap b4 j) ?u" using x unfolding out_extends_def b3(1) by (simp add: same_build_def)
  then have "queue_bytes t q (heap b4 j) (packet_id b4) = queue_bytes t q ?u (packet_id b)" for t q
    using queue_bytes_same x b3(2) by (simp add: out_extends_def)
  moreover have "now b4 = now b" using now_send_packet [OF p(1)] b3(3) by simp
  moreover have "subs (heap b' j) = ?rs"
    using log_of_core(7) [OF core_send_packetD [OF p(1)], of j] core_flush [of j ?ms b4] p(2) log_of_core(7) [of b' b4 j] b3(1) by simp
  ultimately show ?thesis
    using flush_extends [OF raw4 p(2) assms(10)] x raw3(2) by (simp add: out_extends_def)
qed

text \<open>A CONNECT the broker reads and, if it has an authenticator, whose credentials it accepts.\<close>

definition connect_accepted :: "NativeBroker \<Rightarrow> Packet \<Rightarrow> u8 \<Rightarrow> ConnectFields \<Rightarrow> bool" where
  "connect_accepted b pkt level f \<longleftrightarrow> level \<in> {4, 5} \<and>
     (\<exists>pos. connect_level (body pkt) = Some (level, pos) \<and> connect_fields (now b) (level = 5) (body pkt) pos = Some f) \<and>
     (case cfg_authenticate b of None \<Rightarrow> True | Some auth \<Rightarrow> auth (cf_username f) (cf_password f) \<noteq> None)"

lemma handle_connect_accepted:
  assumes "connect_accepted b pkt level f"
  obtains prin where "handle_connect j pkt b =
    accept_connect j (level = 5) f (with_session j (\<lambda>s. s\<lparr>protocol_version := level, s_principal := prin s\<rparr>) b)"
proof -
  obtain pos where p: "connect_level (body pkt) = Some (level, pos)" "connect_fields (now b) (level = 5) (body pkt) pos = Some f" "level \<in> {4, 5}"
    using assms by (auto simp: connect_accepted_def)
  let ?b = "with_session j (\<lambda>s. s\<lparr>protocol_version := level\<rparr>) b"
  have v: "(if level = 5 then 5 else 4) = level" using p(3) by auto
  have h: "handle_connect j pkt b = (case cfg_authenticate b of
      None \<Rightarrow> accept_connect j (level = 5) f ?b
    | Some auth \<Rightarrow> (case auth (cf_username f) (cf_password f) of
        None \<Rightarrow> (False, reject_connect j (level = 5) ?b)
      | Some prin \<Rightarrow> accept_connect j (level = 5) f (with_session j (\<lambda>s. s\<lparr>s_principal := prin\<rparr>) ?b)))"
    using p by (auto simp: handle_connect_def Let_def v with_session_def split: option.split)
  show thesis
  proof (cases "cfg_authenticate b")
    case None
    then show thesis using that [of s_principal] h by simp
  next
    case (Some auth)
    then obtain prin where "auth (cf_username f) (cf_password f) = Some prin" using assms by (auto simp: connect_accepted_def)
    then show thesis using that [of "\<lambda>_. prin"] h Some by (simp add: with_session_def)
  qed
qed

section \<open>Properties\<close>

text \<open>
  C19: The persistent session. A client with a clean-session flag of 0 disconnects; while it is away a
  PUBLISH of QoS 1 or 2 arrives on a topic it subscribed to; at the time \<open>t\<close> it comes back on a new
  connection, plain or TLS, with a CONNECT that is accepted and has a clean-session flag of 0. Unless its
  session has expired by then it has its subscriptions again, and as long as no send fails the bytes the
  broker commits to the connection are a CONNACK with session-present set and then the message, once, at the
  lower of the two QoS levels and not as a retained one; the message is left out when its own expiry has
  passed or the client's maximum packet size is exceeded. After the session's expiry it has no subscriptions
  and gets a CONNACK without session-present only.
\<close>

theorem offline_message_survives:
  assumes "client_id (heap b i) = cid" "cid \<noteq> []" "client_sessions b cid = Some i" "\<not> clean_session (heap b i)" "qos \<noteq> 0"
    and "find (\<lambda>sub. topic_matches (sub_filter sub) topic) (subs (heap b i)) = Some sub"
    and "b1 = route_publish topic payload qos extras (teardown_session i True b)"
    and "b2 = (if tls then accept_tls j sc else accept_plain j sc) (b1\<lparr>now := t\<rparr>)"
    and "connect_accepted b2 pkt level f" "cf_client_id f = cid" "\<not> cf_clean_session f"
    and "handle_connect j pkt b2 = (True, b3)" "\<not> teardown_scheduled (heap b3 j)"
  shows "let s = heap b3 j; q = min_qos qos (sub_qos sub);
             gone = (case s_session_expiry_interval (heap b i) of None \<Rightarrow> False | Some n \<Rightarrow> now b + unat n * second \<le> t);
             client = set_connect_fields t f ((new_Session (\<not> tls) t sc)\<lparr>protocol_version := level\<rparr>)
         in subs s = (if gone then [] else subs (heap b i)) \<and>
            sock_wire s @ outstanding t s (packet_id b3) =
              serialize_packet 0x20 (connack_body (level = 5) (\<not> gone)) @
              (if gone \<or> expired t extras then []
               else case build_publish t topic payload q extras client (packet_id b1) of
                   (None, _) \<Rightarrow> []
                 | (Some bs, _) \<Rightarrow> serialize_packet (publish_type_flags q False) bs)"
proof -
  let ?st = "\<lparr>ss_subs = subs (heap b i), ss_queued = [\<lparr>qm_topic = topic, qm_payload = payload,
      qm_qos = min_qos qos (sub_qos sub), qm_extras = extras\<rparr>],
    ss_expires_at = map_option (\<lambda>n. now b + unat n * second) (s_session_expiry_interval (heap b i))\<rparr>"
  let ?s0 = "(new_Session (\<not> tls) t sc)\<lparr>protocol_version := level\<rparr>"
  have td: "stored_sessions (teardown_session i True b) = stored_sessions (store_session i b)"
    "client_sessions (teardown_session i True b) = client_sessions (store_session i b)"
    by (simp_all add: teardown_session_def Let_def)
  have st: "stored_sessions b1 cid = Some ?st"
    using store_session_stored [OF assms(1-4)] assms(5-7) td(1)
    by (simp add: offline_def queue_offline_def kQueuedMessageCap_def)
  have "client_sessions b1 = client_sessions (teardown_session i True b)"
    using arg_cong [OF quiet_route [of topic payload qos extras "teardown_session i True b"], of client_sessions]
    unfolding assms(7) by (simp del: quiet_route)
  then have cl: "client_sessions b1 cid = None" using assms(1-4) td(2) by (simp add: store_session_def Let_def)
  have b2: "heap b2 j = new_Session (\<not> tls) t sc" "now b2 = t" "packet_id b2 = packet_id b1"
      "client_sessions b2 cid = None" "stored_sessions b2 cid = Some ?st"
    using st cl unfolding assms(8) by (auto simp: accept_tls_def accept_plain_def post_def)
  obtain prin where h: "handle_connect j pkt b2 =
      accept_connect j (level = 5) f (with_session j (\<lambda>s. s\<lparr>protocol_version := level, s_principal := prin s\<rparr>) b2)"
    using handle_connect_accepted [OF assms(9)] by blast
  let ?b = "with_session j (\<lambda>s. s\<lparr>protocol_version := level, s_principal := prin s\<rparr>) b2"
  have b: "heap ?b j = ?s0\<lparr>s_principal := prin (new_Session (\<not> tls) t sc)\<rparr>" "now ?b = t" "packet_id ?b = packet_id b1"
      "client_sessions ?b cid = None" "stored_sessions ?b cid = Some ?st"
    using b2 by (simp_all add: with_session_def)
  have s0: "raw_out (heap ?b j)" "stream_of (heap ?b j) = []" "subs (heap ?b j) = []"
    unfolding b(1) by (simp_all add: raw_out_def stream_of_def pending_bytes_def new_Session_def)
  define gone where "gone = stored_expired t ?st"
  have g: "gone = (case s_session_expiry_interval (heap b i) of None \<Rightarrow> False | Some n \<Rightarrow> now b + unat n * second \<le> t)"
    by (simp add: gone_def stored_expired_def split: option.split)
  have same: "same_build (set_connect_fields t f (heap ?b j)) (set_connect_fields t f ?s0)"
    unfolding b(1) by (simp add: same_build_def set_connect_fields_def Let_def split: option.split)
  note gets = accept_connect_gets [OF assms(10,2,11) b(4,5) s0 assms(12) [unfolded h] assms(13) gone_def [unfolded b(2) [symmetric]],
      unfolded b(2,3) queue_bytes_same [OF same]]
  have "stream_of (heap b3 j) = sock_wire (heap b3 j) @ outstanding t (heap b3 j) (packet_id b3)"
    using gets stream_of_outstanding by blast
  moreover have "expired t extras \<Longrightarrow> build_publish t topic payload q extras u c = (None, u, c)" for q u c
    by (simp add: build_publish_def)
  ultimately show ?thesis
    using gets unfolding Let_def g [symmetric] by (auto simp: queued_publish_def split: prod.split option.split)
qed

text \<open>The CONNECT of client \<open>c\<close>, at protocol level 4 with no flags, on a TLS connection that takes every send whole.\<close>

definition comeback :: Packet where
  "comeback = \<lparr>type_flags = 0x10, body = [0, 4, 0x4D, 0x51, 0x54, 0x54, 4, 0, 0, 60, 0, 1, 0x63]\<rparr>"

definition comeback_fields :: ConnectFields where
  "comeback_fields = \<lparr>cf_keep_alive = 60, cf_session_expiry = None, cf_max_packet_size = None, cf_topic_alias_max = None,
     cf_client_id = ''c'', cf_will = None, cf_will_qos = 0, cf_will_retain = False, cf_clean_session = False,
     cf_username = [], cf_password = []\<rparr>"

definition client_away :: NativeBroker where
  "client_away = route_publish ''a'' [7] 2 no_extras (teardown_session 2 True persistent_example)"

definition client_back :: NativeBroker where
  "client_back = accept_tls 3 [(0, SendOk 100), (0, SendOk 100)] (client_away\<lparr>now := 10\<rparr>)"

lemma write_whole:
  assumes "length (serialize_packet tf bs) \<le> n" "serialize_packet tf bs \<noteq> []"
  shows "write_packet ((c, SendOk n) # sc) w tf bs = (True, sc, w @ serialize_packet tf bs)"
  using assms by (simp add: write_packet_def write_loop.simps)

lemma comeback_accepted:
  assumes "cfg_authenticate b = None"
  shows "connect_accepted b comeback 4 comeback_fields"
proof -
  have "connect_level (body comeback) = Some (4, 7)"
    by (simp add: connect_level_def comeback_def read_field_def read_u16_at_def be_value_def)
  moreover have "connect_fields (now b) (4 = (5 :: u8)) (body comeback) 7 = Some comeback_fields"
    by (simp add: connect_fields_def comeback_def comeback_fields_def read_field_def read_u16_at_def be_value_def
        optional_field_def no_properties_def string_of_bytes_def char_of_byte_def char_of_eq_iff)
  ultimately show ?thesis using assms by (simp add: connect_accepted_def)
qed

lemma legacy_send:
  assumes "\<not> is_reactor_session (heap b j)" "live_script (heap b j) = (c, SendOk n) # sc"
    and "length (serialize_packet tf bs) \<le> n" "serialize_packet tf bs \<noteq> []"
  shows "send_packet j tf bs b = (True, b\<lparr>heap := (heap b)(j := (heap b j)\<lparr>sock_script := sc,
    sock_wire := sock_wire (heap b j) @ serialize_packet tf bs\<rparr>)\<rparr>)"
  using assms by (simp add: send_packet_def legacy_write_def write_whole)

lemma small_packet:
  assumes "length bs < 128"
  shows "serialize_packet tf bs = [tf, of_nat (length bs)] @ bs"
proof -
  let ?n = "of_nat (length bs) :: u32"
  have u: "unat ?n = length bs" using assms by (simp add: unat_of_nat)
  then have z: "?n div 128 = 0" using assms by (simp add: unat_eq_zero [symmetric] unat_div)
  then have "?n mod 128 = ?n" using div_mult_mod_eq [of ?n 128] by simp
  moreover have "(ucast ?n :: byte) = of_nat (unat ?n)" by simp
  ultimately show ?thesis using varint_small [OF z] unfolding u
    by (simp add: serialize_packet_def put_remaining_length_append [of "[tf]"])
qed

lemma client_away_facts:
  "packet_id client_away = 1" "cfg_authenticate client_away = None"
  "client_sessions client_away ''c'' = None"
  "stored_sessions client_away ''c'' = Some \<lparr>ss_subs = [\<lparr>sub_filter = ''#'', sub_qos = 1, sub_share_group = None\<rparr>],
     ss_queued = [\<lparr>qm_topic = ''a'', qm_payload = [7], qm_qos = 1, qm_extras = no_extras\<rparr>], ss_expires_at = None\<rparr>"
proof -
  let ?b = "teardown_session 2 True persistent_example"
  have w: "filter_has_wildcard ''#''" by (simp add: filter_has_wildcard_def)
  have b: "topic_index_candidates ''a'' ?b = []" "on_reactor_thread ?b = False" "packet_id ?b = 1" "cfg_authenticate ?b = None"
      "client_sessions ?b ''c'' = None"
    by (simp_all add: teardown_session_def persistent_example_def new_NativeBroker_def new_Session_def store_session_def
        remove_session_def with_session_def topic_index_candidates_def w Let_def)
  have "stored_sessions ?b = stored_sessions (store_session 2 persistent_example)" by (simp add: teardown_session_def Let_def)
  then have st: "stored_sessions ?b ''c'' = Some \<lparr>ss_subs = [\<lparr>sub_filter = ''#'', sub_qos = 1, sub_share_group = None\<rparr>], ss_queued = [], ss_expires_at = None\<rparr>"
    using store_session_stored [OF persistent_example_facts(1) _ persistent_example_facts(2,3)] persistent_example_facts(4,5) by simp
  have l: "route_live ''a'' [7] 2 no_extras ?b = ?b" using b(1,2) by (simp add: route_live_def)
  show "packet_id client_away = 1" "cfg_authenticate client_away = None" "client_sessions client_away ''c'' = None"
    using b by (simp_all add: client_away_def route_publish_def l Let_def)
  show "stored_sessions client_away ''c'' = Some \<lparr>ss_subs = [\<lparr>sub_filter = ''#'', sub_qos = 1, sub_share_group = None\<rparr>],
     ss_queued = [\<lparr>qm_topic = ''a'', qm_payload = [7], qm_qos = 1, qm_extras = no_extras\<rparr>], ss_expires_at = None\<rparr>"
    using st by (simp add: client_away_def route_publish_def l queue_offline_def hash_matches kQueuedMessageCap_def min_qos_def Let_def)
qed

lemma comeback_publish:
  "build_publish 10 ''a'' [7] 1 no_extras u c = (r, u', c') \<Longrightarrow> protocol_version u = 4 \<Longrightarrow> client_topic_alias_max u = None \<Longrightarrow>
   max_packet_size u = None \<Longrightarrow> c = 1 \<Longrightarrow> r = Some [0, 1, 0x61, 0, 1, 7] \<and> u' = u"
  by (auto simp: build_publish_def publish_body_def outbound_alias_def expired_def no_extras_def next_packet_id_def put_str_def
      put_u16_be_def be_bytes_def byte_at_def bytes_of_string_def byte_of_char_def numeral_2_eq_2 Let_def)

lemma comeback_runs:
  "\<exists>b3. handle_connect 3 comeback client_back = (True, b3) \<and> \<not> teardown_scheduled (heap b3 3)"
proof -
  have n: "now client_back = 10" "heap client_back 3 = new_Session False 10 [(0, SendOk 100), (0, SendOk 100)]"
      "packet_id client_back = 1" "cfg_authenticate client_back = None" "client_sessions client_back ''c'' = None"
      "stored_sessions client_back ''c'' = stored_sessions client_away ''c''"
    using client_away_facts by (simp_all add: client_back_def accept_tls_def)
  obtain prin where h: "handle_connect 3 comeback client_back =
      accept_connect 3 False comeback_fields (with_session 3 (\<lambda>s. s\<lparr>protocol_version := 4, s_principal := prin s\<rparr>) client_back)"
    using handle_connect_accepted [OF comeback_accepted [OF n(4)]] by auto
  let ?b = "with_session 3 (\<lambda>s. s\<lparr>protocol_version := 4, s_principal := prin s\<rparr>) client_back"
  let ?s = "set_connect_fields 10 comeback_fields (heap ?b 3)"
  let ?b2 = "(with_session 3 (set_connect_fields 10 comeback_fields) ?b)\<lparr>client_sessions := (client_sessions ?b)(''c'' \<mapsto> 3),
    stored_sessions := (stored_sessions ?b)(''c'' := None)\<rparr>"
  let ?rs = "[\<lparr>sub_filter = ''#'', sub_qos = 1, sub_share_group = None\<rparr>]"
  have ac: "accept_connect 3 False comeback_fields ?b = (case send_packet 3 0x20 (connack_body False True) (restore_subs 3 ?rs ?b2) of
      (good, b) \<Rightarrow> if good then flush_queued 3 [\<lparr>qm_topic = ''a'', qm_payload = [7], qm_qos = 1, qm_extras = no_extras\<rparr>] b else (False, b))"
    using n client_away_facts(4)
    by (simp add: accept_connect_def comeback_fields_def take_over_def restore_session_def stored_expired_def with_session_def Let_def)
  let ?b3 = "restore_subs 3 ?rs ?b2"
  have b3: "heap ?b3 3 = ?s\<lparr>subs := ?rs\<rparr>" "packet_id ?b3 = 1" "now ?b3 = 10"
    using n by (simp_all add: restore_subs_def with_session_def index_fold_fields index_subscription_def)
  have s: "\<not> is_reactor_session ?s" "live_script ?s = [(0, SendOk 100), (0, SendOk 100)]" "protocol_version ?s = 4"
      "client_topic_alias_max ?s = None" "max_packet_size ?s = None" "\<not> teardown_scheduled ?s" "fd_open ?s"
    using n(2) by (simp_all add: set_connect_fields_def comeback_fields_def new_Session_def live_script_def Let_def)
  define u where "u = ?s\<lparr>subs := ?rs, sock_script := [(0, SendOk 100)], sock_wire := sock_wire ?s @ serialize_packet 0x20 (connack_body False True)\<rparr>"
  let ?b4 = "?b3\<lparr>heap := (heap ?b3)(3 := u)\<rparr>"
  have sp: "send_packet 3 0x20 (connack_body False True) ?b3 = (True, ?b4)"
    using s b3(1) by (subst legacy_send [where c = 0 and n = 100 and sc = "[(0, SendOk 100)]"])
      (simp_all add: connack_body_def small_packet u_def live_script_def)
  have u: "\<not> is_reactor_session u" "live_script u = [(0, SendOk 100)]" "protocol_version u = 4" "client_topic_alias_max u = None"
      "max_packet_size u = None" "\<not> teardown_scheduled u"
    using s by (simp_all add: u_def live_script_def)
  obtain r u' c' where bp: "build_publish 10 ''a'' [7] 1 no_extras u 1 = (r, u', c')" by (metis prod_cases3)
  then have r: "r = Some [0, 1, 0x61, 0, 1, 7]" "u' = u" using comeback_publish [OF bp u(3-5)] by simp_all
  let ?b5 = "?b4\<lparr>heap := (heap ?b4)(3 := u), packet_id := c'\<rparr>"
  let ?b6 = "?b5\<lparr>heap := (heap ?b5)(3 := u\<lparr>sock_script := [], sock_wire := sock_wire u @ serialize_packet (publish_type_flags 1 False) [0, 1, 0x61, 0, 1, 7]\<rparr>)\<rparr>"
  have "send_packet 3 (publish_type_flags 1 False) [0, 1, 0x61, 0, 1, 7] ?b5 = (True, ?b6)"
    using u by (subst legacy_send [where c = 0 and n = 100 and sc = "[]"]) (simp_all add: small_packet)
  then have "flush_queued 3 [\<lparr>qm_topic = ''a'', qm_payload = [7], qm_qos = 1, qm_extras = no_extras\<rparr>] ?b4 = (True, ?b6)"
    using b3(2,3) bp r by (simp add: publish_to_def)
  then show ?thesis unfolding h ac sp using u(6) by simp
qed

theorem offline_message_survives_witness:
  "\<exists>b3. handle_connect 3 comeback client_back = (True, b3) \<and>
     subs (heap b3 3) = [\<lparr>sub_filter = ''#'', sub_qos = 1, sub_share_group = None\<rparr>] \<and>
     sock_wire (heap b3 3) @ outstanding 10 (heap b3 3) (packet_id b3) = [0x20, 2, 1, 0] @ [0x32, 6, 0, 1, 0x61, 0, 1, 7]"
proof -
  obtain b3 where h: "handle_connect 3 comeback client_back = (True, b3)" "\<not> teardown_scheduled (heap b3 3)" using comeback_runs by blast
  let ?u = "set_connect_fields 10 comeback_fields ((new_Session False 10 [(0, SendOk 100), (0, SendOk 100)])\<lparr>protocol_version := 4\<rparr>)"
  obtain r u' c' where bp: "build_publish 10 ''a'' [7] 1 no_extras ?u 1 = (r, u', c')" by (metis prod_cases3)
  then have r: "r = Some [0, 1, 0x61, 0, 1, 7]"
    using comeback_publish [OF bp] by (simp add: set_connect_fields_def comeback_fields_def new_Session_def Let_def)
  have acc: "connect_accepted client_back comeback 4 comeback_fields"
    using client_away_facts(2) by (intro comeback_accepted) (simp add: client_back_def accept_tls_def)
  have cb: "client_back = (if True then accept_tls 3 [(0, SendOk 100), (0, SendOk 100)] else accept_plain 3 [(0, SendOk 100), (0, SendOk 100)]) (client_away\<lparr>now := 10\<rparr>)"
    by (simp add: client_back_def)
  have f: "find (\<lambda>sub. topic_matches (sub_filter sub) ''a'') (subs (heap persistent_example 2)) =
      Some \<lparr>sub_filter = ''#'', sub_qos = 1, sub_share_group = None\<rparr>"
    by (simp add: persistent_example_facts hash_matches)
  note th = offline_message_survives [OF persistent_example_facts(1) _ persistent_example_facts(2,3) _ f client_away_def cb acc _ _ h]
  have "subs (heap b3 3) = [\<lparr>sub_filter = ''#'', sub_qos = 1, sub_share_group = None\<rparr>] \<and>
     sock_wire (heap b3 3) @ outstanding 10 (heap b3 3) (packet_id b3) = [0x20, 2, 1, 0] @ [0x32, 6, 0, 1, 0x61, 0, 1, 7]"
    using th bp r client_away_facts(1) by (simp add: comeback_fields_def persistent_example_facts min_qos_def expired_def no_extras_def
        connack_body_def small_packet publish_type_flags_def Let_def)
  with h(1) show ?thesis by blast
qed

end
