(* ===== verification/Flow_Context.thy ===== *)
theory Flow_Context
  imports Aero_Prelude
begin

text \<open>
  The per-command state of a flow: \<open>sdk/processing_context.hpp\<close> and the node contract of
  \<open>sdk/node.hpp\<close>. The arithmetic of the processor's \<open>double\<close> type and the \<open>libm\<close> functions are an
  argument, the record \<open>fp\<close>, of every definition that computes with them; nothing is assumed about
  them except where a lemma names a hypothesis. The steady clock is an argument too: the value of
  its \<open>n\<close>-th reading, with the number of readings so far kept beside the context.
\<close>

section \<open>Double arithmetic\<close>

record 'd fp =
  d_zero :: 'd
  d_one :: 'd
  d_neg :: "'d \<Rightarrow> 'd"
  d_add :: "'d \<Rightarrow> 'd \<Rightarrow> 'd"
  d_sub :: "'d \<Rightarrow> 'd \<Rightarrow> 'd"
  d_mul :: "'d \<Rightarrow> 'd \<Rightarrow> 'd"
  d_div :: "'d \<Rightarrow> 'd \<Rightarrow> 'd"
  d_fmod :: "'d \<Rightarrow> 'd \<Rightarrow> 'd"
  d_pow :: "'d \<Rightarrow> 'd \<Rightarrow> 'd"
  d_lt :: "'d \<Rightarrow> 'd \<Rightarrow> bool"
  d_le :: "'d \<Rightarrow> 'd \<Rightarrow> bool"
  d_eq :: "'d \<Rightarrow> 'd \<Rightarrow> bool"
  d_isnan :: "'d \<Rightarrow> bool"
  d_fabs :: "'d \<Rightarrow> 'd"
  d_floor :: "'d \<Rightarrow> 'd"
  d_ceil :: "'d \<Rightarrow> 'd"
  d_round :: "'d \<Rightarrow> 'd"
  d_sqrt :: "'d \<Rightarrow> 'd"
  d_sin :: "'d \<Rightarrow> 'd"
  d_cos :: "'d \<Rightarrow> 'd"
  d_tan :: "'d \<Rightarrow> 'd"
  d_asin :: "'d \<Rightarrow> 'd"
  d_acos :: "'d \<Rightarrow> 'd"
  d_atan :: "'d \<Rightarrow> 'd"
  d_log :: "'d \<Rightarrow> 'd"
  d_log10 :: "'d \<Rightarrow> 'd"
  d_exp :: "'d \<Rightarrow> 'd"
  d_of_int :: "int \<Rightarrow> 'd"
  d_to_word :: "'d \<Rightarrow> u64"
  d_stod :: "string \<Rightarrow> ('d \<times> nat) option"

text \<open>\<open>std::min\<close> and \<open>std::max\<close> in terms of \<open><\<close>, as the standard defines them; \<open>d_stod\<close> is
  \<open>std::stod\<close> with the number of characters consumed, \<open>None\<close> when it throws.\<close>

definition d_min :: "'d fp \<Rightarrow> 'd \<Rightarrow> 'd \<Rightarrow> 'd" where
  "d_min F a b = (if d_lt F b a then b else a)"

definition d_max :: "'d fp \<Rightarrow> 'd \<Rightarrow> 'd \<Rightarrow> 'd" where
  "d_max F a b = (if d_lt F a b then b else a)"

definition d_bool :: "'d fp \<Rightarrow> bool \<Rightarrow> 'd" where
  "d_bool F b = (if b then d_one F else d_zero F)"

definition d_nonzero :: "'d fp \<Rightarrow> 'd \<Rightarrow> bool" where
  "d_nonzero F a \<longleftrightarrow> \<not> d_eq F a (d_zero F)"

definition d_sum :: "'d fp \<Rightarrow> 'd list \<Rightarrow> 'd" where
  "d_sum F xs = foldl (d_add F) (d_zero F) xs"

section \<open>Frames, tags, events and staged outputs\<close>

record Frame =
  raw :: "64 word"
  payload_len :: u16
  fr_payload :: "byte list"

definition kMaxFramePayload :: nat where
  "kMaxFramePayload = 128"

record 'd Tag =
  tag_name :: string
  tag_val :: 'd

record 'd Event =
  ev_type :: string
  ev_val :: 'd

datatype StagedMesKind = Production | Alarm | TagSample

record 'd StagedMesReport =
  smr_kind :: StagedMesKind
  smr_line :: string
  smr_label :: string
  smr_val :: 'd

record StagedHttpRequest =
  shr_url :: string
  shr_method :: string
  shr_headers_json :: string
  shr_timeout_ms :: int
  shr_body :: string

section \<open>The processing context\<close>

record 'd ProcessingContext =
  frame :: "Frame option"
  payload :: "byte list"
  tags :: "'d Tag list"
  outputs :: "'d list"
  events :: "'d Event list"
  mes_reports :: "'d StagedMesReport list"
  http_requests :: "StagedHttpRequest list"
  active_branch :: string
  loop_continue :: bool
  loop_iterations_remaining :: nat
  loop_deadline :: "int option"
  failed :: bool
  failed_step :: nat
  clock_reads :: nat

text \<open>\<open>reset\<close> lists every field; \<open>clock_reads\<close> is not a field of the class but counts the readings
  of the clock, so it goes on.\<close>

definition reset :: "Frame option \<Rightarrow> 'd ProcessingContext \<Rightarrow> 'd ProcessingContext" where
  "reset f c = c\<lparr>frame := f,
     payload := (case f of None \<Rightarrow> [] | Some fr \<Rightarrow> take (unat (payload_len fr)) (fr_payload fr)),
     tags := [], outputs := [], events := [], mes_reports := [], http_requests := [],
     active_branch := [],
     loop_continue := False, loop_iterations_remaining := 0, loop_deadline := None,
     failed := False, failed_step := 0\<rparr>"

definition new_context :: "'d ProcessingContext" where
  "new_context = \<lparr>frame = None, payload = [], tags = [], outputs = [], events = [],
     mes_reports = [], http_requests = [], active_branch = [], loop_continue = False,
     loop_iterations_remaining = 0, loop_deadline = None, failed = False, failed_step = 0,
     clock_reads = 0\<rparr>"

definition steady_now :: "(nat \<Rightarrow> int) \<Rightarrow> 'd ProcessingContext \<Rightarrow> int \<times> 'd ProcessingContext" where
  "steady_now now c = (now (clock_reads c), c\<lparr>clock_reads := Suc (clock_reads c)\<rparr>)"

definition push_tag :: "string \<Rightarrow> 'd \<Rightarrow> 'd ProcessingContext \<Rightarrow> 'd ProcessingContext" where
  "push_tag n v c = c\<lparr>tags := tags c @ [\<lparr>tag_name = n, tag_val = v\<rparr>]\<rparr>"

definition push_output :: "'d \<Rightarrow> 'd ProcessingContext \<Rightarrow> 'd ProcessingContext" where
  "push_output v c = c\<lparr>outputs := outputs c @ [v]\<rparr>"

definition push_event :: "string \<Rightarrow> 'd \<Rightarrow> 'd ProcessingContext \<Rightarrow> 'd ProcessingContext" where
  "push_event t v c = c\<lparr>events := events c @ [\<lparr>ev_type = t, ev_val = v\<rparr>]\<rparr>"

definition tag_vals :: "'d ProcessingContext \<Rightarrow> 'd list" where
  "tag_vals c = map tag_val (tags c)"

text \<open>The first tag of a name, and the write in place that \<open>SetNode\<close> and the loop nodes share.\<close>

fun find_tag :: "string \<Rightarrow> 'd Tag list \<Rightarrow> 'd option" where
  "find_tag n [] = None"
| "find_tag n (t # ts) = (if tag_name t = n then Some (tag_val t) else find_tag n ts)"

fun write_tag :: "string \<Rightarrow> 'd \<Rightarrow> 'd Tag list \<Rightarrow> 'd Tag list" where
  "write_tag n v [] = [\<lparr>tag_name = n, tag_val = v\<rparr>]"
| "write_tag n v (t # ts) = (if tag_name t = n then t\<lparr>tag_val := v\<rparr> # ts else t # write_tag n v ts)"

definition overwrite_or_append :: "string \<Rightarrow> 'd \<Rightarrow> 'd ProcessingContext \<Rightarrow> 'd ProcessingContext" where
  "overwrite_or_append n v c = c\<lparr>tags := write_tag n v (tags c)\<rparr>"

section \<open>The node contract\<close>

datatype NodeResult = Continue | Stop | Error

datatype NodeCategory = Source | Transform | Rule | Output

record NodeDescriptor =
  category :: NodeCategory
  nd_type_id :: string
  terminal :: bool

section \<open>Reading back what was written\<close>

lemma find_write_tag: "find_tag m (write_tag n v ts) = (if m = n then Some v else find_tag m ts)"
  by (induction ts) auto

lemma write_tag_keeps_names:
  "map tag_name (write_tag n v ts) =
     (if n \<in> tag_name ` set ts then map tag_name ts else map tag_name ts @ [n])"
  by (induction ts) auto

lemma overwrite_or_append_simps [simp]:
  "tags (overwrite_or_append n v c) = write_tag n v (tags c)"
  "loop_iterations_remaining (overwrite_or_append n v c) = loop_iterations_remaining c"
  "loop_continue (overwrite_or_append n v c) = loop_continue c"
  "loop_deadline (overwrite_or_append n v c) = loop_deadline c"
  "active_branch (overwrite_or_append n v c) = active_branch c"
  "clock_reads (overwrite_or_append n v c) = clock_reads c"
  "failed (overwrite_or_append n v c) = failed c"
  by (simp_all add: overwrite_or_append_def)

text \<open>\<open>reset\<close> leaves nothing of the previous command: the context after it depends on the new
  frame (and the clock) alone.\<close>

lemma reset_forgets:
  assumes "clock_reads c = clock_reads c'"
  shows "reset f c = reset f (c' :: 'd ProcessingContext)"
  using assms by (simp add: reset_def)

end
