(* ===== verification/Expr_Dsl.thy ===== *)
theory Expr_Dsl
  imports Flow_Context
begin

text \<open>
  The low-code rule language, \<open>nodes/expr_rule_node.hpp\<close>: the RPN program, its evaluator over a
  fixed value stack, and the recursive-descent parser that emits the program as it recurses.
  The evaluator returns \<open>None\<close> where the C++ array access would be out of bounds. The parser's
  methods are the values of \<open>pcall\<close>: one equation of \<open>parse_method\<close> per method. The methods call each
  other on states they computed, so \<open>run\<close> ties the knot with fuel; \<open>parse\<close> supplies \<open>10 * length src + 10\<close>, and
  \<open>Expr_Props\<close> proves that this is always enough.
\<close>

section \<open>The program\<close>

datatype Op = OpConst | OpTag
  | OpNeg | OpNot
  | OpAbs | OpFloor | OpCeil | OpRound | OpSqrt
  | OpSin | OpCos | OpTan | OpAsin | OpAcos | OpAtan
  | OpLn | OpLog | OpExp
  | OpAdd | OpSub | OpMul | OpDiv | OpMod
  | OpPow | OpMin | OpMax
  | OpLt | OpGt | OpLe | OpGe | OpEq | OpNe
  | OpAnd | OpOr

record 'd Instr =
  op :: Op
  ik :: 'd
  itag :: u32

datatype ExprError = TrailingInput nat | ExpectedClose | UnexpectedChar char nat
  | MalformedNumber string | ExpectedOpenAfterTag | ExpectedQuotedName | ExpectedCloseTag
  | UnknownFunction string | ExpectedOpenAfter string | NeedsTwoArguments string
  | ExpectedCloseCall string | ExpectedQuote | UnterminatedString | EmptyTagName

record 'd Program =
  code :: "'d Instr list"
  names :: "string list"
  max_depth :: nat
  ok :: bool
  prog_error :: "ExprError option"

definition is_unary_op :: "Op \<Rightarrow> bool" where
  "is_unary_op c = (case c of OpNeg \<Rightarrow> True | OpNot \<Rightarrow> True
     | OpAbs \<Rightarrow> True | OpFloor \<Rightarrow> True | OpCeil \<Rightarrow> True | OpRound \<Rightarrow> True | OpSqrt \<Rightarrow> True
     | OpSin \<Rightarrow> True | OpCos \<Rightarrow> True | OpTan \<Rightarrow> True | OpAsin \<Rightarrow> True | OpAcos \<Rightarrow> True | OpAtan \<Rightarrow> True
     | OpLn \<Rightarrow> True | OpLog \<Rightarrow> True | OpExp \<Rightarrow> True | _ \<Rightarrow> False)"

section \<open>Evaluation\<close>

definition kMaxStack :: nat where
  "kMaxStack = 128"

fun apply_unary :: "'d fp \<Rightarrow> Op \<Rightarrow> 'd \<Rightarrow> 'd" where
  "apply_unary F OpNeg a = d_neg F a"
| "apply_unary F OpNot a = d_bool F (d_eq F a (d_zero F))"
| "apply_unary F OpAbs a = d_fabs F a"
| "apply_unary F OpFloor a = d_floor F a"
| "apply_unary F OpCeil a = d_ceil F a"
| "apply_unary F OpRound a = d_round F a"
| "apply_unary F OpSqrt a = d_sqrt F a"
| "apply_unary F OpSin a = d_sin F a"
| "apply_unary F OpCos a = d_cos F a"
| "apply_unary F OpTan a = d_tan F a"
| "apply_unary F OpAsin a = d_asin F a"
| "apply_unary F OpAcos a = d_acos F a"
| "apply_unary F OpAtan a = d_atan F a"
| "apply_unary F OpLn a = d_log F a"
| "apply_unary F OpLog a = d_log10 F a"
| "apply_unary F OpExp a = d_exp F a"
| "apply_unary F _ a = a"

fun apply_binary :: "'d fp \<Rightarrow> Op \<Rightarrow> 'd \<Rightarrow> 'd \<Rightarrow> 'd" where
  "apply_binary F OpAdd a b = d_add F a b"
| "apply_binary F OpSub a b = d_sub F a b"
| "apply_binary F OpMul a b = d_mul F a b"
| "apply_binary F OpDiv a b = (if d_eq F b (d_zero F) then d_zero F else d_div F a b)"
| "apply_binary F OpMod a b = (if d_eq F b (d_zero F) then d_zero F else d_fmod F a b)"
| "apply_binary F OpPow a b = d_pow F a b"
| "apply_binary F OpMin a b = d_min F a b"
| "apply_binary F OpMax a b = d_max F a b"
| "apply_binary F OpLt a b = d_bool F (d_lt F a b)"
| "apply_binary F OpGt a b = d_bool F (d_lt F b a)"
| "apply_binary F OpLe a b = d_bool F (d_le F a b)"
| "apply_binary F OpGe a b = d_bool F (d_le F b a)"
| "apply_binary F OpEq a b = d_bool F (d_eq F a b)"
| "apply_binary F OpNe a b = d_bool F (\<not> d_eq F a b)"
| "apply_binary F OpAnd a b = d_bool F (d_nonzero F a \<and> d_nonzero F b)"
| "apply_binary F OpOr a b = d_bool F (d_nonzero F a \<or> d_nonzero F b)"
| "apply_binary F _ a b = d_zero F"

definition tag_value :: "'d fp \<Rightarrow> 'd ProcessingContext \<Rightarrow> string list \<Rightarrow> u32 \<Rightarrow> 'd option" where
  "tag_value F ctx nms idx = (if unat idx < length nms
     then Some (case find_tag (nms ! unat idx) (tags ctx) of Some v \<Rightarrow> v | None \<Rightarrow> d_zero F)
     else None)"

text \<open>The stack is a list, top first; \<open>sp\<close> is its length.\<close>

definition push_value :: "'d \<Rightarrow> 'd list \<Rightarrow> 'd list option" where
  "push_value v stk = (if length stk < kMaxStack then Some (v # stk) else None)"

definition exec_instr :: "'d fp \<Rightarrow> 'd ProcessingContext \<Rightarrow> string list \<Rightarrow> 'd Instr \<Rightarrow> 'd list \<Rightarrow> 'd list option" where
  "exec_instr F ctx nms i stk = (case op i of
       OpConst \<Rightarrow> push_value (ik i) stk
     | OpTag \<Rightarrow> (case tag_value F ctx nms (itag i) of None \<Rightarrow> None | Some v \<Rightarrow> push_value v stk)
     | c \<Rightarrow> (if is_unary_op c
             then (case stk of a # st \<Rightarrow> Some (apply_unary F c a # st) | _ \<Rightarrow> None)
             else (case stk of b # a # st \<Rightarrow> push_value (apply_binary F c a b) st | _ \<Rightarrow> None)))"

fun eval_loop :: "'d fp \<Rightarrow> 'd ProcessingContext \<Rightarrow> string list \<Rightarrow> 'd Instr list \<Rightarrow> 'd list \<Rightarrow> bool \<Rightarrow> ('d list \<times> bool) option" where
  "eval_loop F ctx nms [] stk nan = Some (stk, nan)"
| "eval_loop F ctx nms (i # is) stk nan = (case exec_instr F ctx nms i stk of
       None \<Rightarrow> None
     | Some stk \<Rightarrow>
         (let nan = (nan \<or> (stk \<noteq> [] \<and> d_isnan F (hd stk)))
          in if kMaxStack \<le> length stk then Some (stk, nan) else eval_loop F ctx nms is stk nan))"

definition evaluate :: "'d fp \<Rightarrow> 'd Program \<Rightarrow> 'd ProcessingContext \<Rightarrow> ('d \<times> bool) option" where
  "evaluate F p ctx = (case eval_loop F ctx (names p) (code p) [] False of
       None \<Rightarrow> None
     | Some (stk, nan) \<Rightarrow> Some (if stk \<noteq> [] then hd stk else d_zero F, nan))"

section \<open>The parser: lexing primitives\<close>

record 'd Parser =
  src :: string
  pos :: nat
  p_failed :: bool
  p_error :: "ExprError option"
  depth :: nat
  p_max_depth :: nat
  p_code :: "'d Instr list"
  p_names :: "string list"

definition is_space :: "char \<Rightarrow> bool" where
  "is_space c \<longleftrightarrow> c = CHR '' '' \<or> c = CHR 0x09 \<or> c = CHR 0x0A \<or> c = CHR 0x0D"

definition is_digit :: "char \<Rightarrow> bool" where
  "is_digit c \<longleftrightarrow> c \<in> set ''0123456789''"

definition is_ident_start :: "char \<Rightarrow> bool" where
  "is_ident_start c \<longleftrightarrow> c \<in> set ''abcdefghijklmnopqrstuvwxyzABCDEFGHIJKLMNOPQRSTUVWXYZ_''"

definition is_ident_char :: "char \<Rightarrow> bool" where
  "is_ident_char c \<longleftrightarrow> is_ident_start c \<or> is_digit c \<or> c = CHR ''.''"

definition rest :: "'d Parser \<Rightarrow> string" where
  "rest s = drop (pos s) (src s)"

definition advance :: "nat \<Rightarrow> 'd Parser \<Rightarrow> 'd Parser" where
  "advance n s = s\<lparr>pos := pos s + n\<rparr>"

definition peek :: "'d Parser \<Rightarrow> char" where
  "peek s = (if pos s < length (src s) then src s ! pos s else CHR 0x00)"

definition skip_ws :: "'d Parser \<Rightarrow> 'd Parser" where
  "skip_ws s = advance (length (takeWhile is_space (rest s))) s"

definition match1 :: "char \<Rightarrow> 'd Parser \<Rightarrow> bool \<times> 'd Parser" where
  "match1 c s = (let s = skip_ws s in if peek s = c then (True, advance 1 s) else (False, s))"

definition match2 :: "char \<Rightarrow> char \<Rightarrow> 'd Parser \<Rightarrow> bool \<times> 'd Parser" where
  "match2 a b s = (let s = skip_ws s in
     if pos s + 1 < length (src s) \<and> src s ! pos s = a \<and> src s ! (pos s + 1) = b
     then (True, advance 2 s) else (False, s))"

definition fail :: "ExprError \<Rightarrow> 'd Parser \<Rightarrow> 'd Parser" where
  "fail msg s = (if p_failed s then s else s\<lparr>p_failed := True, p_error := Some msg\<rparr>)"

section \<open>The parser: emitting\<close>

definition push_depth :: "'d Parser \<Rightarrow> 'd Parser" where
  "push_depth s = (let s = s\<lparr>depth := Suc (depth s)\<rparr>
     in if p_max_depth s < depth s then s\<lparr>p_max_depth := depth s\<rparr> else s)"

definition emit_const :: "'d \<Rightarrow> 'd Parser \<Rightarrow> 'd Parser" where
  "emit_const v s = push_depth (s\<lparr>p_code := p_code s @ [\<lparr>op = OpConst, ik = v, itag = 0\<rparr>]\<rparr>)"

fun index_of :: "string \<Rightarrow> string list \<Rightarrow> nat option" where
  "index_of n [] = None"
| "index_of n (m # ms) = (if m = n then Some 0 else map_option Suc (index_of n ms))"

definition emit_tag :: "'d fp \<Rightarrow> string \<Rightarrow> 'd Parser \<Rightarrow> 'd Parser" where
  "emit_tag F n s = (let (idx, nms) = (case index_of n (p_names s) of
         Some i \<Rightarrow> (of_nat i :: u32, p_names s)
       | None \<Rightarrow> (of_nat (length (p_names s)), p_names s @ [n]))
     in push_depth (s\<lparr>p_names := nms, p_code := p_code s @ [\<lparr>op = OpTag, ik = d_zero F, itag = idx\<rparr>]\<rparr>))"

definition emit :: "'d fp \<Rightarrow> Op \<Rightarrow> 'd Parser \<Rightarrow> 'd Parser" where
  "emit F c s = (if p_failed s then s
     else (let s = s\<lparr>p_code := p_code s @ [\<lparr>op = c, ik = d_zero F, itag = 0\<rparr>]\<rparr>
           in if is_unary_op c then s else s\<lparr>depth := depth s - 1\<rparr>))"

section \<open>The parser: leaves\<close>

text \<open>The extent of a numeric literal: a sign belongs to it right after an exponent letter.\<close>

fun num_span :: "char option \<Rightarrow> string \<Rightarrow> nat" where
  "num_span prev [] = 0"
| "num_span prev (c # cs) =
     (if is_digit c \<or> c = CHR ''.'' \<or> c = CHR ''e'' \<or> c = CHR ''E'' \<or>
         (c = CHR ''+'' \<or> c = CHR ''-'') \<and> (prev = Some (CHR ''e'') \<or> prev = Some (CHR ''E''))
      then Suc (num_span (Some c) cs) else 0)"

definition parse_number :: "'d fp \<Rightarrow> 'd Parser \<Rightarrow> 'd Parser" where
  "parse_number F s = (let n = num_span None (rest s); num = take n (rest s); s = advance n s
     in case d_stod F num of
          None \<Rightarrow> fail (MalformedNumber num) s
        | Some (v, consumed) \<Rightarrow>
            (if consumed \<noteq> length num then fail (MalformedNumber num) s else emit_const v s))"

definition parse_string_body :: "'d fp \<Rightarrow> 'd Parser \<Rightarrow> 'd Parser" where
  "parse_string_body F s = (let (m, s) = match1 (CHR 0x22) s in
     if \<not> m then fail ExpectedQuote s
     else (let nm = takeWhile (\<lambda>c. c \<noteq> CHR 0x22) (rest s); s = advance (length nm) s in
       if length (src s) \<le> pos s then fail UnterminatedString s
       else (let s = advance 1 s in
         if nm = [] then fail EmptyTagName s else emit_tag F nm s)))"

definition parse_tag_call :: "'d fp \<Rightarrow> 'd Parser \<Rightarrow> 'd Parser" where
  "parse_tag_call F s = (let (m, s) = match1 (CHR ''('') (skip_ws s) in
     if \<not> m then fail ExpectedOpenAfterTag s
     else (let s = skip_ws s in
       if peek s \<noteq> CHR 0x22 then fail ExpectedQuotedName s
       else (let (m, s) = match1 (CHR '')'') (skip_ws (parse_string_body F s)) in
         if \<not> m then fail ExpectedCloseTag s else s)))"

definition kUnary :: "(string \<times> Op) list" where
  "kUnary = [(''abs'', OpAbs), (''floor'', OpFloor), (''ceil'', OpCeil), (''round'', OpRound),
     (''sqrt'', OpSqrt), (''sin'', OpSin), (''cos'', OpCos), (''tan'', OpTan),
     (''asin'', OpAsin), (''acos'', OpAcos), (''atan'', OpAtan),
     (''ln'', OpLn), (''log'', OpLog), (''exp'', OpExp)]"

definition kBinary :: "(string \<times> Op) list" where
  "kBinary = [(''pow'', OpPow), (''min'', OpMin), (''max'', OpMax)]"

text \<open>The operator a function name stands for, and whether it takes two arguments.\<close>

definition fn_op :: "string \<Rightarrow> (Op \<times> bool) option" where
  "fn_op nm = (case map_of kUnary nm of
       Some c \<Rightarrow> Some (c, False)
     | None \<Rightarrow> map_option (\<lambda>c. (c, True)) (map_of kBinary nm))"

definition close_call :: "'d fp \<Rightarrow> string \<Rightarrow> Op \<Rightarrow> 'd Parser \<Rightarrow> 'd Parser" where
  "close_call F nm c s = (let (m, s) = match1 (CHR '')'') (skip_ws s)
     in if \<not> m then fail (ExpectedCloseCall nm) s else emit F c s)"

section \<open>The parser: the recursive methods\<close>

datatype level = L_or | L_and | L_equ | L_cmp | L_add | L_mul

text \<open>\<open>parse_or\<close> to \<open>parse_mul\<close> are \<open>C_level L_or\<close> to \<open>C_level L_mul\<close>, and \<open>C_loop l\<close> is the
  \<open>for (;;)\<close> inside each.\<close>

datatype pcall = C_level level | C_loop level | C_unary | C_primary | C_ident | C_call string

fun operand :: "level \<Rightarrow> pcall" where
  "operand L_or = C_level L_and"
| "operand L_and = C_level L_equ"
| "operand L_equ = C_level L_cmp"
| "operand L_cmp = C_level L_add"
| "operand L_add = C_level L_mul"
| "operand L_mul = C_unary"

text \<open>The chain of \<open>if (match..)\<close> tests of each level, in the order of the code.\<close>

datatype token = T1 char | T2 char char

fun match_token :: "token \<Rightarrow> 'd Parser \<Rightarrow> bool \<times> 'd Parser" where
  "match_token (T1 a) s = match1 a s"
| "match_token (T2 a b) s = match2 a b s"

fun tests :: "level \<Rightarrow> (token \<times> Op) list" where
  "tests L_or = [(T2 (CHR ''|'') (CHR ''|''), OpOr)]"
| "tests L_and = [(T2 (CHR ''&'') (CHR ''&''), OpAnd)]"
| "tests L_equ = [(T2 (CHR ''='') (CHR ''=''), OpEq), (T2 (CHR ''!'') (CHR ''=''), OpNe)]"
| "tests L_cmp = [(T2 (CHR ''<'') (CHR ''=''), OpLe), (T2 (CHR ''>'') (CHR ''=''), OpGe),
                  (T1 (CHR ''<''), OpLt), (T1 (CHR ''>''), OpGt)]"
| "tests L_add = [(T1 (CHR ''+''), OpAdd), (T1 (CHR ''-''), OpSub)]"
| "tests L_mul = [(T1 (CHR ''*''), OpMul), (T1 (CHR ''/''), OpDiv), (T1 (CHR ''%''), OpMod)]"

fun first_match :: "(token \<times> Op) list \<Rightarrow> 'd Parser \<Rightarrow> Op option \<times> 'd Parser" where
  "first_match [] s = (None, s)"
| "first_match ((t, c) # ts) s = (let (m, s) = match_token t s
     in if m then (Some c, s) else first_match ts s)"

text \<open>One method; \<open>rec\<close> stands for the calls it makes.\<close>

fun parse_method :: "'d fp \<Rightarrow> (pcall \<Rightarrow> 'd Parser \<Rightarrow> 'd Parser option) \<Rightarrow> pcall \<Rightarrow> 'd Parser \<Rightarrow> 'd Parser option" where
  "parse_method F rec (C_level l) s = Option.bind (rec (operand l) s) (rec (C_loop l))"
| "parse_method F rec (C_loop l) s = (case first_match (tests l) (skip_ws s) of
       (None, s) \<Rightarrow> Some s
     | (Some c, s) \<Rightarrow> Option.bind (rec (operand l) s) (\<lambda>s. rec (C_loop l) (emit F c s)))"
| "parse_method F rec C_unary s = (let (m, s) = match1 (CHR ''!'') (skip_ws s) in
     if m then map_option (emit F OpNot) (rec C_unary s)
     else (let (m, s) = match1 (CHR ''-'') s in
       if m then map_option (emit F OpNeg) (rec C_unary s)
       else rec C_primary s))"
| "parse_method F rec C_primary s = (let s = skip_ws s in
     if p_failed s then Some s
     else (let c = peek s in
       if c = CHR ''('' then
         map_option (\<lambda>s. let (m, s) = match1 (CHR '')'') (skip_ws s)
                         in if \<not> m then fail ExpectedClose s else s)
           (rec (C_level L_or) (advance 1 s))
       else if c = CHR 0x22 then Some (parse_string_body F s)
       else if is_digit c \<or> c = CHR ''.'' then Some (parse_number F s)
       else if is_ident_start c then rec C_ident s
       else Some (fail (UnexpectedChar c (pos s)) s)))"
| "parse_method F rec C_ident s = (let nm = takeWhile is_ident_char (rest s); s = advance (length nm) s in
     if nm = ''tag'' then Some (parse_tag_call F s)
     else (let s = skip_ws s in
       if peek s = CHR ''('' then rec (C_call nm) s
       else Some (emit_tag F nm s)))"
| "parse_method F rec (C_call nm) s = (case fn_op nm of
       None \<Rightarrow> Some (fail (UnknownFunction nm) s)
     | Some (c, binary) \<Rightarrow>
         (let (m, s) = match1 (CHR ''('') s in
          if \<not> m then Some (fail (ExpectedOpenAfter nm) s)
          else Option.bind (rec (C_level L_or) s) (\<lambda>s.
            if binary then
              (let (m, s) = match1 (CHR '','') (skip_ws s) in
               if \<not> m then Some (fail (NeedsTwoArguments nm) s)
               else map_option (close_call F nm c) (rec (C_level L_or) s))
            else Some (close_call F nm c s))))"

fun run :: "'d fp \<Rightarrow> nat \<Rightarrow> pcall \<Rightarrow> 'd Parser \<Rightarrow> 'd Parser option" where
  "run F 0 c s = None"
| "run F (Suc n) c s = parse_method F (run F n) c s"

definition new_Parser :: "string \<Rightarrow> 'd Parser" where
  "new_Parser x = \<lparr>src = x, pos = 0, p_failed = False, p_error = None, depth = 0,
     p_max_depth = 0, p_code = [], p_names = []\<rparr>"

definition finish :: "'d Parser \<Rightarrow> 'd Program" where
  "finish s = (let s = skip_ws s;
       s = (if \<not> p_failed s \<and> pos s \<noteq> length (src s) then fail (TrailingInput (pos s)) s else s)
     in if p_failed s
        then \<lparr>code = [], names = [], max_depth = 0, ok = False, prog_error = p_error s\<rparr>
        else \<lparr>code = p_code s, names = p_names s, max_depth = p_max_depth s, ok = True,
              prog_error = None\<rparr>)"

definition parse :: "'d fp \<Rightarrow> nat \<Rightarrow> string \<Rightarrow> 'd Program option" where
  "parse F n x = map_option finish (run F n (C_level L_or) (new_Parser x))"

definition compile :: "'d fp \<Rightarrow> string \<Rightarrow> 'd Program" where
  "compile F x = (case parse F (10 * length x + 10) x of
       Some p \<Rightarrow> p
     | None \<Rightarrow> \<lparr>code = [], names = [], max_depth = 0, ok = False, prog_error = None\<rparr>)"

end
