(* ===== verification/Expr_Parser.thy ===== *)
theory Expr_Parser
  imports Expr_Dsl
begin

text \<open>
  The parser of the rule language returns on every input: each method, given fuel above ten times
  the unread length plus its rank, returns a state with no more left to read.
\<close>

section \<open>What the primitives do to the position\<close>

lemma advance_simps [simp]:
  "src (advance n s) = src s" "pos (advance n s) = pos s + n"
  "p_failed (advance n s) = p_failed s" "p_error (advance n s) = p_error s"
  "depth (advance n s) = depth s" "p_max_depth (advance n s) = p_max_depth s"
  "p_code (advance n s) = p_code s" "p_names (advance n s) = p_names s"
  by (simp_all add: advance_def)

lemma rest_advance [simp]: "rest (advance n s) = drop n (rest s)"
  by (simp add: rest_def add.commute)

lemma advance_advance [simp]: "advance m (advance n s) = advance (n + m) s"
  by (simp add: advance_def)

lemma advance_0 [simp]: "advance 0 s = s"
  by (simp add: advance_def)

lemma peek_rest: "peek s = (case rest s of [] \<Rightarrow> CHR 0x00 | c # _ \<Rightarrow> c)"
  by (auto simp: peek_def rest_def Cons_nth_drop_Suc [symmetric])

lemma rest_skip_ws: "rest (skip_ws s) = dropWhile is_space (rest s)"
  by (simp add: skip_ws_def dropWhile_eq_drop)

lemma skip_ws_simps [simp]:
  "src (skip_ws s) = src s" "p_failed (skip_ws s) = p_failed s" "p_error (skip_ws s) = p_error s"
  "depth (skip_ws s) = depth s" "p_max_depth (skip_ws s) = p_max_depth s"
  "p_code (skip_ws s) = p_code s" "p_names (skip_ws s) = p_names s"
  by (simp_all add: skip_ws_def)

lemma length_rest_skip_ws: "length (rest (skip_ws s)) \<le> length (rest s)"
  by (simp add: rest_skip_ws length_dropWhile_le)

text \<open>A step that only moves the position: everything but \<open>pos\<close> is kept.\<close>

definition moved :: "'d Parser \<Rightarrow> 'd Parser \<Rightarrow> bool" where
  "moved s t \<longleftrightarrow> (\<exists>n. t = advance n s)"

lemma moved_refl [simp, intro]: "moved s s"
  unfolding moved_def by (rule exI [of _ 0]) simp

lemma moved_advance [simp, intro]: "moved s (advance n s)"
  unfolding moved_def by blast

lemma moved_skip_ws [simp, intro]: "moved s (skip_ws s)"
  by (simp add: skip_ws_def)

lemma moved_trans [trans]: "moved s t \<Longrightarrow> moved t u \<Longrightarrow> moved s u"
  unfolding moved_def by auto

lemma moved_failed: "moved s t \<Longrightarrow> p_failed t = p_failed s"
  unfolding moved_def by auto

lemma match1_moved: "match1 c s = (m, t) \<Longrightarrow> moved s t"
  by (auto simp: match1_def Let_def split: if_splits intro: moved_trans [OF moved_skip_ws])

lemma match2_moved: "match2 a b s = (m, t) \<Longrightarrow> moved s t"
  by (auto simp: match2_def Let_def split: if_splits intro: moved_trans [OF moved_skip_ws])

lemma match_token_moved: "match_token a s = (m, t) \<Longrightarrow> moved s t"
  by (cases a) (auto dest: match1_moved match2_moved)

lemma first_match_moved: "first_match ts s = (m, t) \<Longrightarrow> moved s t"
proof (induction ts s rule: first_match.induct)
  case (2 a c ts s)
  obtain b u where u: "match_token a s = (b, u)" by fastforce
  then show ?case
    using 2 match_token_moved [OF u] by (auto simp: Let_def split: if_splits intro: moved_trans)
qed simp

lemma moved_length: "moved s t \<Longrightarrow> length (rest t) \<le> length (rest s)"
  unfolding moved_def by auto

lemma match1_true_length:
  assumes "match1 c s = (True, t)" "c \<noteq> CHR 0x00"
  shows "length (rest t) < length (rest s)"
proof -
  have "rest (skip_ws s) \<noteq> []" "t = advance 1 (skip_ws s)"
    using assms by (auto simp: match1_def Let_def peek_rest split: if_splits list.splits)
  then show ?thesis
    using length_rest_skip_ws [of s] by (cases "rest (skip_ws s)") auto
qed

lemma match2_true_length:
  assumes "match2 a b s = (True, t)"
  shows "length (rest t) < length (rest s)"
proof -
  have "pos (skip_ws s) + 1 < length (src s)" "t = advance 2 (skip_ws s)"
    using assms by (auto simp: match2_def Let_def split: if_splits)
  then show ?thesis
    using length_rest_skip_ws [of s] by (simp add: rest_def del: length_drop) simp
qed

lemma first_match_some_length:
  assumes "first_match ts s = (Some c, t)" "\<forall>(a, _) \<in> set ts. a \<noteq> T1 (CHR 0x00)"
  shows "length (rest t) < length (rest s)"
  using assms
proof (induction ts s rule: first_match.induct)
  case (2 a c' ts s)
  obtain b u where u: "match_token a s = (b, u)" by fastforce
  have "b \<Longrightarrow> length (rest u) < length (rest s)"
    using u 2(3) by (cases a) (auto intro: match1_true_length match2_true_length)
  moreover have "length (rest u) \<le> length (rest s)"
    by (rule moved_length [OF match_token_moved [OF u]])
  ultimately show ?case
    using 2 u by (fastforce simp: Let_def split: if_splits)
qed simp

lemma tests_nonzero: "\<forall>(a, _) \<in> set (tests l). a \<noteq> T1 (CHR 0x00)"
  by (cases l) auto

text \<open>Emitting and failing keep the position.\<close>

lemma rest_emit [simp]: "rest (emit F c s) = rest s"
  by (simp add: emit_def rest_def Let_def)

lemma rest_fail [simp]: "rest (fail e s) = rest s"
  by (simp add: fail_def rest_def)

lemma rest_push_depth [simp]: "rest (push_depth s) = rest s"
  by (simp add: push_depth_def rest_def Let_def)

lemma rest_emit_const [simp]: "rest (emit_const v s) = rest s"
  by (simp add: emit_const_def) (simp add: rest_def)

lemma rest_emit_tag [simp]: "rest (emit_tag F n s) = rest s"
  by (simp add: emit_tag_def split_beta Let_def) (simp add: rest_def)

lemma length_parse_number: "length (rest (parse_number F s)) \<le> length (rest s)"
  by (auto simp: parse_number_def Let_def split: option.splits)

lemma length_parse_string_body: "length (rest (parse_string_body F s)) \<le> length (rest s)"
proof -
  obtain m t where t: "match1 (CHR 0x22) s = (m, t)" by fastforce
  have "length (rest t) \<le> length (rest s)"
    by (rule moved_length [OF match1_moved [OF t]])
  then show ?thesis
    using t by (auto simp: parse_string_body_def Let_def)
qed

lemma length_match1: "match1 c s = (m, t) \<Longrightarrow> length (rest t) \<le> length (rest s)"
  by (rule moved_length [OF match1_moved])

lemma length_parse_tag_call: "length (rest (parse_tag_call F s)) \<le> length (rest s)"
proof -
  obtain m t where t: "match1 (CHR ''('') (skip_ws s) = (m, t)" by fastforce
  obtain m' u where u: "match1 (CHR '')'') (skip_ws (parse_string_body F (skip_ws t))) = (m', u)"
    by fastforce
  have "length (rest t) \<le> length (rest s)"
    using length_match1 [OF t] length_rest_skip_ws [of s] by simp
  moreover have "length (rest u) \<le> length (rest t)"
    using length_match1 [OF u] length_rest_skip_ws [of "parse_string_body F (skip_ws t)"]
      length_parse_string_body [of F "skip_ws t"] length_rest_skip_ws [of t] by simp
  ultimately show ?thesis
    using t u length_rest_skip_ws [of t] by (auto simp: parse_tag_call_def Let_def)
qed

lemma length_close_call: "length (rest (close_call F nm c s)) \<le> length (rest s)"
proof -
  obtain m t where t: "match1 (CHR '')'') (skip_ws s) = (m, t)" by fastforce
  then show ?thesis
    using length_match1 [OF t] length_rest_skip_ws [of s] by (auto simp: close_call_def)
qed

section \<open>The parser always returns\<close>

fun rank :: "pcall \<Rightarrow> nat" where
  "rank (C_level L_or) = 9"
| "rank (C_level L_and) = 8"
| "rank (C_level L_equ) = 7"
| "rank (C_level L_cmp) = 6"
| "rank (C_level L_add) = 5"
| "rank (C_level L_mul) = 4"
| "rank C_unary = 3"
| "rank C_primary = 2"
| "rank C_ident = 1"
| "rank (C_call _) = 0"
| "rank (C_loop _) = 0"

lemma rank_operand: "rank (operand l) < rank (C_level l)"
  by (cases l) auto

lemma rank_le: "rank c \<le> 9"
  by (cases c rule: rank.cases) auto

definition returns :: "'d fp \<Rightarrow> nat \<Rightarrow> pcall \<Rightarrow> 'd Parser \<Rightarrow> bool" where
  "returns F n c s \<longleftrightarrow> (\<exists>t. run F n c s = Some t \<and> length (rest t) \<le> length (rest s))"

lemma returnsE:
  assumes "returns F n c s"
  obtains t where "run F n c s = Some t" "length (rest t) \<le> length (rest s)"
  using assms unfolding returns_def by blast

lemma returns_level:
  assumes IH: "\<And>c s. 10 * length (rest s) + rank c < n \<Longrightarrow> returns F n c s"
    and bound: "10 * length (rest s) + rank (C_level l) < Suc n"
  shows "returns F (Suc n) (C_level l) s"
proof -
  have lt: "rank (operand l) < rank (C_level l)" by (rule rank_operand)
  then have "10 * length (rest s) + rank (operand l) < n"
    using bound by simp
  then obtain u where u: "run F n (operand l) s = Some u" "length (rest u) \<le> length (rest s)"
    by (rule IH [THEN returnsE])
  have "10 * length (rest u) + rank (C_loop l) < n"
    using bound lt u(2) by simp
  then obtain t where "run F n (C_loop l) u = Some t" "length (rest t) \<le> length (rest u)"
    by (rule IH [THEN returnsE])
  then show ?thesis
    using u unfolding returns_def by simp
qed

lemma returns_loop:
  assumes IH: "\<And>c s. 10 * length (rest s) + rank c < n \<Longrightarrow> returns F n c s"
    and bound: "10 * length (rest s) + rank (C_loop l) < Suc n"
  shows "returns F (Suc n) (C_loop l) s"
proof -
  obtain m u where u: "first_match (tests l) (skip_ws s) = (m, u)" by fastforce
  have le: "length (rest u) \<le> length (rest s)"
    using moved_length [OF first_match_moved [OF u]] length_rest_skip_ws [of s] by simp
  show ?thesis
  proof (cases m)
    case None
    then show ?thesis using u le unfolding returns_def by simp
  next
    case (Some op)
    have lt: "length (rest u) < length (rest s)"
      using first_match_some_length [OF u [unfolded Some] tests_nonzero] length_rest_skip_ws [of s]
      by simp
    then have "10 * length (rest u) + rank (operand l) < n"
      using bound rank_le [of "operand l"] by simp
    then obtain v where v: "run F n (operand l) u = Some v" "length (rest v) \<le> length (rest u)"
      by (rule IH [THEN returnsE])
    have "10 * length (rest (emit F op v)) + rank (C_loop l) < n"
      using bound lt v(2) by simp
    then obtain t where "run F n (C_loop l) (emit F op v) = Some t"
      "length (rest t) \<le> length (rest (emit F op v))"
      by (rule IH [THEN returnsE])
    then show ?thesis
      using u Some v lt unfolding returns_def by simp
  qed
qed

lemma returns_unary:
  assumes IH: "\<And>c s. 10 * length (rest s) + rank c < n \<Longrightarrow> returns F n c s"
    and bound: "10 * length (rest s) + rank C_unary < Suc n"
  shows "returns F (Suc n) C_unary s"
proof -
  obtain m u where u: "match1 (CHR ''!'') (skip_ws s) = (m, u)" by fastforce
  obtain m' v where v: "match1 (CHR ''-'') u = (m', v)" by fastforce
  have le: "length (rest u) \<le> length (rest s)" "length (rest v) \<le> length (rest u)"
    using length_match1 [OF u] length_match1 [OF v] length_rest_skip_ws [of s] by simp_all
  show ?thesis
  proof (cases m)
    case True
    then have "10 * length (rest u) + rank C_unary < n"
      using match1_true_length [of "CHR ''!''" "skip_ws s" u] u bound         length_rest_skip_ws [of s] by simp
    then obtain t where "run F n C_unary u = Some t" "length (rest t) \<le> length (rest u)"
      by (rule IH [THEN returnsE])
    then show ?thesis
      using u True le unfolding returns_def by simp
  next
    case no: False
    show ?thesis
    proof (cases m')
      case True
      then have "10 * length (rest v) + rank C_unary < n"
        using match1_true_length [of "CHR ''-''" u v] v bound le by simp
      then obtain t where "run F n C_unary v = Some t" "length (rest t) \<le> length (rest v)"
        by (rule IH [THEN returnsE])
      then show ?thesis
        using u v no True le unfolding returns_def by simp
    next
      case False
      have "10 * length (rest v) + rank C_primary < n"
        using bound le by simp
      then obtain t where "run F n C_primary v = Some t" "length (rest t) \<le> length (rest v)"
        by (rule IH [THEN returnsE])
      then show ?thesis
        using u v no False le unfolding returns_def by simp
    qed
  qed
qed

lemma returns_primary:
  assumes IH: "\<And>c s. 10 * length (rest s) + rank c < n \<Longrightarrow> returns F n c s"
    and bound: "10 * length (rest s) + rank C_primary < Suc n"
  shows "returns F (Suc n) C_primary s"
proof -
  let ?u = "skip_ws s"
  have le: "length (rest ?u) \<le> length (rest s)" by (rule length_rest_skip_ws)
  show ?thesis
  proof (cases "\<not> p_failed s \<and> peek ?u = CHR ''(''")
    case True
    then have "rest ?u \<noteq> []" by (auto simp: peek_rest)
    then have "length (rest (advance 1 ?u)) < length (rest s)"
      using le by (cases "rest ?u") auto
    then have "10 * length (rest (advance 1 ?u)) + rank (C_level L_or) < n"
      using bound by simp
    then obtain v where v: "run F n (C_level L_or) (advance 1 ?u) = Some v"
      "length (rest v) \<le> length (rest (advance 1 ?u))"
      by (rule IH [THEN returnsE])
    obtain m t where t: "match1 (CHR '')'') (skip_ws v) = (m, t)" by fastforce
    have "length (rest t) \<le> length (rest s)"
      using length_match1 [OF t] length_rest_skip_ws [of v] v(2) le by simp
    then show ?thesis
      using True v t unfolding returns_def by simp
  next
    case False
    have "10 * length (rest ?u) + rank C_ident < n"
      using bound le by simp
    then obtain t where t: "run F n C_ident ?u = Some t" "length (rest t) \<le> length (rest ?u)"
      by (rule IH [THEN returnsE])
    show ?thesis
      using False t le length_parse_number [of F ?u] length_parse_string_body [of F ?u]
      unfolding returns_def by (auto simp: Let_def)
  qed
qed

lemma returns_ident:
  assumes IH: "\<And>c s. 10 * length (rest s) + rank c < n \<Longrightarrow> returns F n c s"
    and bound: "10 * length (rest s) + rank C_ident < Suc n"
  shows "returns F (Suc n) C_ident s"
proof -
  let ?u = "advance (length (takeWhile is_ident_char (rest s))) s"
  have le: "length (rest (skip_ws ?u)) \<le> length (rest s)"
    using length_rest_skip_ws [of ?u] by simp
  have "10 * length (rest (skip_ws ?u)) + rank (C_call nm) < n" for nm
    using bound le by simp
  then have call: "returns F n (C_call nm) (skip_ws ?u)" for nm
    by (rule IH)
  show ?thesis
    using le call [of "takeWhile is_ident_char (rest s)"] length_parse_tag_call [of F ?u]
    unfolding returns_def by (auto simp: Let_def)
qed

lemma returns_call:
  assumes IH: "\<And>c s. 10 * length (rest s) + rank c < n \<Longrightarrow> returns F n c s"
    and bound: "10 * length (rest s) + rank (C_call nm) < Suc n"
  shows "returns F (Suc n) (C_call nm) s"
proof -
  obtain m u where u: "match1 (CHR ''('') s = (m, u)" by fastforce
  have le: "length (rest u) \<le> length (rest s)" by (rule length_match1 [OF u])
  show ?thesis
  proof (cases "m \<and> fn_op nm \<noteq> None")
    case False
    then show ?thesis
      using u le unfolding returns_def by (auto split: option.splits)
  next
    case True
    then obtain c binary where f: "fn_op nm = Some (c, binary)" and m by auto
    then have lt: "length (rest u) < length (rest s)"
      using match1_true_length [of "CHR ''(''" s u] u by simp
    then have "10 * length (rest u) + rank (C_level L_or) < n"
      using bound by simp
    then obtain v where v: "run F n (C_level L_or) u = Some v" "length (rest v) \<le> length (rest u)"
      by (rule IH [THEN returnsE])
    obtain m' w where w: "match1 (CHR '','') (skip_ws v) = (m', w)" by fastforce
    have lw: "length (rest w) \<le> length (rest u)"
      using length_match1 [OF w] length_rest_skip_ws [of v] v(2) by simp
    then have "10 * length (rest w) + rank (C_level L_or) < n"
      using bound lt by simp
    then obtain x where x: "run F n (C_level L_or) w = Some x" "length (rest x) \<le> length (rest w)"
      by (rule IH [THEN returnsE])
    show ?thesis
      using u f \<open>m\<close> v w x lw le lt length_close_call [of F nm c v] length_close_call [of F nm c x]
      unfolding returns_def by auto
  qed
qed

lemma run_returns: "10 * length (rest s) + rank c < n \<Longrightarrow> returns F n c s"
proof (induction n arbitrary: c s)
  case (Suc n)
  then show ?case
    by (cases c) (auto intro!: returns_level returns_loop returns_unary returns_primary
      returns_ident returns_call)
qed simp

lemma parse_returns: "parse F (10 * length x + 10) x \<noteq> None"
proof -
  have "returns F (10 * length x + 10) (C_level L_or) (new_Parser x)"
    by (rule run_returns) (simp add: new_Parser_def rest_def)
  then show ?thesis
    by (auto simp: parse_def elim: returnsE)
qed

end
