(* ===== verification/Expr_Tree.thy ===== *)
theory Expr_Tree
  imports Expr_Parser
begin

text \<open>
  What the rule language means: expression trees, their value, their postfix form and the stack
  depth they need. An accepted program is the postfix form of a tree (\<open>run_emits\<close>), evaluating it
  never leaves the value stack, and as long as the peak depth stays below \<open>kMaxStack\<close> it computes
  the value of the tree and reports a NaN exactly when a subexpression has that value.
\<close>

section \<open>Trees\<close>

datatype expr = Lit string | TagRef string | Unary Op expr | Binary Op expr expr

definition lit_value :: "'d fp \<Rightarrow> string \<Rightarrow> 'd" where
  "lit_value F l = (case d_stod F l of Some (v, _) \<Rightarrow> v | None \<Rightarrow> d_zero F)"

definition is_operator :: "Op \<Rightarrow> bool" where
  "is_operator c \<longleftrightarrow> c \<noteq> OpConst \<and> c \<noteq> OpTag"

fun wf_expr :: "'d fp \<Rightarrow> expr \<Rightarrow> bool" where
  "wf_expr F (Lit l) \<longleftrightarrow> (\<exists>v. d_stod F l = Some (v, length l))"
| "wf_expr F (TagRef n) \<longleftrightarrow> True"
| "wf_expr F (Unary c a) \<longleftrightarrow> is_unary_op c \<and> wf_expr F a"
| "wf_expr F (Binary c a b) \<longleftrightarrow> is_operator c \<and> \<not> is_unary_op c \<and> wf_expr F a \<and> wf_expr F b"

fun denote :: "'d fp \<Rightarrow> 'd ProcessingContext \<Rightarrow> expr \<Rightarrow> 'd" where
  "denote F ctx (Lit l) = lit_value F l"
| "denote F ctx (TagRef n) = (case find_tag n (tags ctx) of Some v \<Rightarrow> v | None \<Rightarrow> d_zero F)"
| "denote F ctx (Unary c a) = apply_unary F c (denote F ctx a)"
| "denote F ctx (Binary c a b) = apply_binary F c (denote F ctx a) (denote F ctx b)"

text \<open>Whether some subexpression evaluates to NaN.\<close>

fun nan_inside :: "'d fp \<Rightarrow> 'd ProcessingContext \<Rightarrow> expr \<Rightarrow> bool" where
  "nan_inside F ctx (Lit l) \<longleftrightarrow> d_isnan F (lit_value F l)"
| "nan_inside F ctx (TagRef n) \<longleftrightarrow> d_isnan F (denote F ctx (TagRef n))"
| "nan_inside F ctx (Unary c a) \<longleftrightarrow> nan_inside F ctx a \<or> d_isnan F (denote F ctx (Unary c a))"
| "nan_inside F ctx (Binary c a b) \<longleftrightarrow>
     nan_inside F ctx a \<or> nan_inside F ctx b \<or> d_isnan F (denote F ctx (Binary c a b))"

fun peak :: "expr \<Rightarrow> nat" where
  "peak (Lit _) = 1"
| "peak (TagRef _) = 1"
| "peak (Unary _ a) = peak a"
| "peak (Binary _ a b) = max (peak a) (Suc (peak b))"

lemma peak_pos: "0 < peak e"
  by (induction e) auto

section \<open>Postfix form\<close>

datatype 'd sym = SConst 'd | STag string | SOp Op

fun rpn :: "'d fp \<Rightarrow> expr \<Rightarrow> 'd sym list" where
  "rpn F (Lit l) = [SConst (lit_value F l)]"
| "rpn F (TagRef n) = [STag n]"
| "rpn F (Unary c a) = rpn F a @ [SOp c]"
| "rpn F (Binary c a b) = rpn F a @ rpn F b @ [SOp c]"

definition resolve :: "string list \<Rightarrow> 'd Instr \<Rightarrow> 'd sym" where
  "resolve nms i = (if op i = OpConst then SConst (ik i)
     else if op i = OpTag then STag (nms ! unat (itag i)) else SOp (op i))"

definition in_range :: "string list \<Rightarrow> 'd Instr \<Rightarrow> bool" where
  "in_range nms i \<longleftrightarrow> (op i = OpTag \<longrightarrow> unat (itag i) < length nms)"

lemma in_range_append: "in_range nms i \<Longrightarrow> in_range (nms @ ms) i"
  by (auto simp: in_range_def)

lemma resolve_append: "in_range nms i \<Longrightarrow> resolve (nms @ ms) i = resolve nms i"
  by (auto simp: in_range_def resolve_def nth_append)

section \<open>What a parse emits\<close>

text \<open>\<open>emitted F e s t\<close>: going from \<open>s\<close> to \<open>t\<close> the parser appended the postfix form of \<open>e\<close>, one
  value deeper, and raised the recorded maximum by exactly the peak of \<open>e\<close>.\<close>

definition emitted :: "'d fp \<Rightarrow> expr \<Rightarrow> 'd Parser \<Rightarrow> 'd Parser \<Rightarrow> bool" where
  "emitted F e s t \<longleftrightarrow> \<not> p_failed t \<and>
     (\<exists>c ns. p_code t = p_code s @ c \<and> p_names t = p_names s @ ns \<and>
        list_all (in_range (p_names t)) c \<and>
        (length (p_names t) \<le> 2 ^ 32 \<longrightarrow> map (resolve (p_names t)) c = rpn F e)) \<and>
     depth t = Suc (depth s) \<and> p_max_depth t = max (p_max_depth s) (depth s + peak e)"

lemma emitted_moved_right: "moved t u \<Longrightarrow> emitted F e s t \<Longrightarrow> emitted F e s u"
  by (auto simp: emitted_def moved_def)

lemma emitted_moved_left: "moved s u \<Longrightarrow> emitted F e u t \<Longrightarrow> emitted F e s t"
  by (auto simp: emitted_def moved_def)

lemma in_range_all_append: "list_all (in_range nms) c \<Longrightarrow> list_all (in_range (nms @ ms)) c"
  by (auto simp: list_all_iff intro: in_range_append)

lemma map_resolve_append:
  "list_all (in_range nms) c \<Longrightarrow> map (resolve (nms @ ms)) c = map (resolve nms) c"
  by (auto simp: list_all_iff resolve_append)

lemma emitted_const:
  assumes "\<not> p_failed s" "d_stod F l = Some (v, length l)"
  shows "emitted F (Lit l) s (emit_const v s)"
  using assms
  by (auto simp: emitted_def emit_const_def push_depth_def Let_def in_range_def resolve_def lit_value_def)

lemma index_of_Some: "index_of n ms = Some i \<Longrightarrow> i < length ms \<and> ms ! i = n"
  by (induction ms arbitrary: i) (auto split: if_splits)

lemma unat_of_nat_u32_le: "unat (of_nat i :: u32) \<le> i"
  by (simp add: unat_of_nat)

lemma unat_of_nat_u32: "i < 2 ^ 32 \<Longrightarrow> unat (of_nat i :: u32) = i"
  by (simp add: unat_of_nat)

lemma emitted_tag:
  assumes "\<not> p_failed s"
  shows "emitted F (TagRef n) s (emit_tag F n s)"
proof (cases "index_of n (p_names s)")
  case None
  have "in_range (p_names s @ [n]) \<lparr>op = OpTag, ik = d_zero F, itag = of_nat (length (p_names s))\<rparr>"
    using unat_of_nat_u32_le [of "length (p_names s)"] by (simp add: in_range_def le_imp_less_Suc)
  moreover have "Suc (length (p_names s)) \<le> 2 ^ 32 \<Longrightarrow>
    resolve (p_names s @ [n]) \<lparr>op = OpTag, ik = d_zero F, itag = of_nat (length (p_names s))\<rparr> = STag n"
    by (simp only: Suc_le_eq unat_of_nat_u32 resolve_def Instr.simps) simp
  ultimately show ?thesis
    using assms None by (auto simp: emitted_def emit_tag_def push_depth_def Let_def)
next
  case (Some i)
  note i = index_of_Some [OF Some]
  have "in_range (p_names s) \<lparr>op = OpTag, ik = d_zero F, itag = of_nat i\<rparr>"
    using unat_of_nat_u32_le [of i] i by (simp add: in_range_def)
  moreover have "resolve (p_names s) \<lparr>op = OpTag, ik = d_zero F, itag = of_nat i\<rparr> = STag n"
    if "length (p_names s) \<le> 2 ^ 32"
  proof -
    have "i < 2 ^ 32" using i that by simp
    then show ?thesis using i by (simp only: unat_of_nat_u32 resolve_def Instr.simps) simp
  qed
  ultimately show ?thesis
    using assms Some by (auto simp: emitted_def emit_tag_def push_depth_def Let_def)
qed

lemma emitted_unary:
  assumes "emitted F a s t" "is_unary_op c"
  shows "emitted F (Unary c a) s (emit F c t)"
proof -
  have c: "c \<noteq> OpConst" "c \<noteq> OpTag" using assms(2) by (auto simp: is_unary_op_def)
  then show ?thesis
    using assms by (auto simp: emitted_def emit_def Let_def in_range_def resolve_def)
qed

lemma emitted_binary:
  assumes a: "emitted F a s t" and b: "emitted F b t u"
    and c: "is_operator c" "\<not> is_unary_op c"
  shows "emitted F (Binary c a b) s (emit F c u)"
proof -
  obtain ca na where ca: "p_code t = p_code s @ ca" "p_names t = p_names s @ na"
    "list_all (in_range (p_names t)) ca"
    "length (p_names t) \<le> 2 ^ 32 \<longrightarrow> map (resolve (p_names t)) ca = rpn F a"
    using a unfolding emitted_def by blast
  obtain cb nb where cb: "p_code u = p_code t @ cb" "p_names u = p_names t @ nb"
    "list_all (in_range (p_names u)) cb"
    "length (p_names u) \<le> 2 ^ 32 \<longrightarrow> map (resolve (p_names u)) cb = rpn F b"
    using b unfolding emitted_def by blast
  let ?i = "\<lparr>op = c, ik = d_zero F, itag = 0\<rparr>"
  have i: "in_range (p_names u) ?i" "resolve (p_names u) ?i = SOp c"
    using c by (auto simp: in_range_def resolve_def is_operator_def)
  have "list_all (in_range (p_names u)) (ca @ cb @ [?i])"
    using in_range_all_append [OF ca(3), of nb] cb(2,3) i by simp
  moreover have "map (resolve (p_names u)) (ca @ cb @ [?i]) = rpn F (Binary c a b)"
    if "length (p_names u) \<le> 2 ^ 32"
  proof -
    have "length (p_names t) \<le> 2 ^ 32" using that cb(2) by simp
    then show ?thesis
      using that ca(4) cb(2,4) i map_resolve_append [OF ca(3), of nb] by simp
  qed
  moreover have "p_code (emit F c u) = p_code s @ (ca @ cb @ [?i])" "p_names (emit F c u) = p_names u"
    "\<not> p_failed (emit F c u)" "depth (emit F c u) = Suc (depth s)"
    "p_max_depth (emit F c u) = max (p_max_depth s) (depth s + peak (Binary c a b))"
    using a b c ca(1) cb(1) by (auto simp: emitted_def emit_def Let_def)
  ultimately show ?thesis
    unfolding emitted_def using ca(2) cb(2) by auto
qed

section \<open>Failure is final\<close>

lemma failed_fail [simp]: "p_failed (fail e s)"
  by (simp add: fail_def)

lemma failed_emit [simp]: "p_failed (emit F c s) = p_failed s"
  by (simp add: emit_def Let_def)

lemma failed_push_depth [simp]: "p_failed (push_depth s) = p_failed s"
  by (simp add: push_depth_def Let_def)

lemma failed_emit_const [simp]: "p_failed (emit_const v s) = p_failed s"
  by (simp add: emit_const_def)

lemma failed_emit_tag [simp]: "p_failed (emit_tag F n s) = p_failed s"
  by (simp add: emit_tag_def split_beta Let_def)

lemma failed_snd_match1 [simp]: "p_failed (snd (match1 c s)) = p_failed s"
  by (simp add: match1_def Let_def)

lemma failed_match1: "match1 c s = (m, t) \<Longrightarrow> p_failed t = p_failed s"
  by (rule moved_failed [OF match1_moved])

lemma failed_parse_number: "p_failed s \<Longrightarrow> p_failed (parse_number F s)"
  by (auto simp: parse_number_def Let_def split: option.splits)

lemma failed_parse_string_body: "p_failed s \<Longrightarrow> p_failed (parse_string_body F s)"
  by (auto simp: parse_string_body_def Let_def split_beta)

lemma failed_parse_tag_call: "p_failed s \<Longrightarrow> p_failed (parse_tag_call F s)"
proof -
  assume s: "p_failed s"
  obtain m t where t: "match1 (CHR ''('') (skip_ws s) = (m, t)" by fastforce
  obtain m' u where u: "match1 (CHR '')'') (skip_ws (parse_string_body F (skip_ws t))) = (m', u)"
    by fastforce
  have "p_failed t" using failed_match1 [OF t] s by simp
  then have "p_failed u"
    using failed_match1 [OF u] failed_parse_string_body [of "skip_ws t" F] by simp
  then show ?thesis using t u by (simp add: parse_tag_call_def Let_def)
qed

lemma failed_close_call: "p_failed s \<Longrightarrow> p_failed (close_call F nm c s)"
  by (auto simp: close_call_def split_beta Let_def)

lemmas failed_leaves =
  failed_parse_number failed_parse_string_body failed_parse_tag_call failed_close_call

lemma failed_first_match: "first_match ts s = (m, t) \<Longrightarrow> p_failed t = p_failed s"
  by (rule moved_failed [OF first_match_moved])

lemma run_call_cases:
  assumes run: "run F (Suc n) (C_call nm) s = Some t" and nf: "\<not> p_failed t"
  obtains c u v where "fn_op nm = Some (c, False)" "match1 (CHR ''('') s = (True, u)"
      "run F n (C_level L_or) u = Some v" "t = close_call F nm c v"
  | c u v w x where "fn_op nm = Some (c, True)" "match1 (CHR ''('') s = (True, u)"
      "run F n (C_level L_or) u = Some v" "match1 (CHR '','') (skip_ws v) = (True, w)"
      "run F n (C_level L_or) w = Some x" "t = close_call F nm c x"
proof -
  obtain c b where f: "fn_op nm = Some (c, b)"
    using run nf by (cases "fn_op nm") auto
  obtain m u where u: "match1 (CHR ''('') s = (m, u)" by fastforce
  have m using run nf f u by (cases m) auto
  obtain v where v: "run F n (C_level L_or) u = Some v"
    using run f u \<open>m\<close> by (cases "run F n (C_level L_or) u") auto
  show thesis
  proof (cases b)
    case False
    then show thesis using that(1) [of c u v] run f u v \<open>m\<close> by simp
  next
    case True
    obtain m' w where w: "match1 (CHR '','') (skip_ws v) = (m', w)" by fastforce
    have m' using run nf f u v w True \<open>m\<close> by (cases m') auto
    obtain x where x: "run F n (C_level L_or) w = Some x"
      using run f u v w True \<open>m\<close> \<open>m'\<close> by (cases "run F n (C_level L_or) w") auto
    show thesis using that(2) [of c u v w x] run f u v w x True \<open>m\<close> \<open>m'\<close> by simp
  qed
qed

lemma run_failed: "run F n c s = Some t \<Longrightarrow> p_failed s \<Longrightarrow> p_failed t"
proof (induction n arbitrary: c s t)
  case (Suc n)
  show ?case
  proof (cases c)
    case (C_level l)
    then show ?thesis using Suc by (auto simp: bind_eq_Some_conv)
  next
    case (C_loop l)
    obtain m u where u: "first_match (tests l) (skip_ws s) = (m, u)" by fastforce
    have "p_failed u" using failed_first_match [OF u] Suc.prems by simp
    then show ?thesis
      using Suc u C_loop by (cases m) (auto simp: bind_eq_Some_conv)
  next
    case C_unary
    obtain m u where u: "match1 (CHR ''!'') (skip_ws s) = (m, u)" by fastforce
    obtain m' v where v: "match1 (CHR ''-'') u = (m', v)" by fastforce
    have "p_failed u" "p_failed v" using failed_match1 [OF u] failed_match1 [OF v] Suc.prems by simp_all
    then show ?thesis
      using Suc u v C_unary by (auto split: if_splits)
  next
    case C_primary
    then show ?thesis using Suc.prems by auto
  next
    case C_ident
    then show ?thesis
      using Suc by (auto simp: Let_def failed_leaves split: if_splits)
  next
    case (C_call nm)
    show ?thesis
    proof (rule ccontr)
      assume nf: "\<not> p_failed t"
      from Suc.prems(1) have "run F (Suc n) (C_call nm) s = Some t" using C_call by simp
      from this nf show False
      proof (cases rule: run_call_cases)
        case (1 c u v)
        then have "p_failed v" using Suc.IH [OF 1(3)] failed_match1 [OF 1(2)] Suc.prems(2) by simp
        then show False using 1 nf by (simp add: failed_close_call)
      next
        case (2 c u v w x)
        then have "p_failed v" using Suc.IH [OF 2(3)] failed_match1 [OF 2(2)] Suc.prems(2) by simp
        then have "p_failed x" using Suc.IH [OF 2(5)] failed_match1 [OF 2(4)] by simp
        then show False using 2 nf by (simp add: failed_close_call)
      qed
    qed
  qed
qed simp

section \<open>An accepted program is the postfix form of a tree\<close>

text \<open>\<open>yields F s t\<close>: some well-formed tree was emitted between the two states.\<close>

definition yields :: "'d fp \<Rightarrow> 'd Parser \<Rightarrow> 'd Parser \<Rightarrow> bool" where
  "yields F s t \<longleftrightarrow> (\<exists>e. wf_expr F e \<and> emitted F e s t)"

lemma yields_moved: "moved s u \<Longrightarrow> yields F u t \<Longrightarrow> yields F s t"
  unfolding yields_def using emitted_moved_left by blast

lemma yields_moved_right: "yields F s t \<Longrightarrow> moved t u \<Longrightarrow> yields F s u"
  unfolding yields_def using emitted_moved_right by blast

lemma yields_unary: "yields F s t \<Longrightarrow> is_unary_op c \<Longrightarrow> yields F s (emit F c t)"
  unfolding yields_def using emitted_unary wf_expr.simps(3) by blast

lemma yields_binary:
  assumes "yields F s t" "yields F t u" "is_operator c" "\<not> is_unary_op c"
  shows "yields F s (emit F c u)"
  using assms emitted_binary wf_expr.simps(4) unfolding yields_def by blast

lemma yields_parse_number:
  "\<not> p_failed (parse_number F s) \<Longrightarrow> yields F s (parse_number F s)"
proof -
  let ?n = "num_span None (rest s)"
  assume nf: "\<not> p_failed (parse_number F s)"
  then obtain v where v: "d_stod F (take ?n (rest s)) = Some (v, length (take ?n (rest s)))"
    and eq: "parse_number F s = emit_const v (advance ?n s)"
    by (auto simp: parse_number_def Let_def split: option.splits if_splits)
  have "emitted F (Lit (take ?n (rest s))) (advance ?n s) (emit_const v (advance ?n s))"
    using nf eq v by (intro emitted_const) simp_all
  then have "yields F (advance ?n s) (parse_number F s)"
    unfolding yields_def eq using v wf_expr.simps(1) by blast
  then show ?thesis by (rule yields_moved [OF moved_advance])
qed

lemma yields_emit_tag: "\<not> p_failed s \<Longrightarrow> yields F s (emit_tag F n s)"
  unfolding yields_def using emitted_tag wf_expr.simps(2) by blast

lemma yields_parse_string_body:
  assumes "\<not> p_failed (parse_string_body F s)"
  shows "yields F s (parse_string_body F s)"
proof -
  obtain m u where u: "match1 (CHR 0x22) s = (m, u)" by fastforce
  obtain n nm where eq: "parse_string_body F s = emit_tag F nm (advance n u)"
    using assms u by (auto simp: parse_string_body_def Let_def split: if_splits)
  have "yields F (advance n u) (parse_string_body F s)"
    using assms unfolding eq by (intro yields_emit_tag) simp
  then show ?thesis
    by (rule yields_moved [OF moved_trans [OF match1_moved [OF u] moved_advance]])
qed

lemma yields_parse_tag_call:
  assumes "\<not> p_failed (parse_tag_call F s)"
  shows "yields F s (parse_tag_call F s)"
proof -
  obtain m t where t: "match1 (CHR ''('') (skip_ws s) = (m, t)" by fastforce
  let ?b = "parse_string_body F (skip_ws t)"
  obtain m' u where u: "match1 (CHR '')'') (skip_ws ?b) = (m', u)" by fastforce
  have eq: "parse_tag_call F s = u"
    using assms t u by (auto simp: parse_tag_call_def Let_def split: if_splits)
  then have "\<not> p_failed ?b"
    using assms failed_match1 [OF u] by simp
  then have "yields F (skip_ws t) ?b" by (rule yields_parse_string_body)
  then have "yields F (skip_ws t) u"
    by (rule yields_moved_right [OF _ moved_trans [OF moved_skip_ws match1_moved [OF u]]])
  moreover have "moved s (skip_ws t)"
    by (rule moved_trans [OF moved_skip_ws moved_trans [OF match1_moved [OF t] moved_skip_ws]])
  ultimately show ?thesis unfolding eq by (rule yields_moved [rotated])
qed

lemma close_call_cases:
  assumes "\<not> p_failed (close_call F nm c s)"
  obtains u where "close_call F nm c s = emit F c u" "moved s u"
proof -
  obtain m u where u: "match1 (CHR '')'') (skip_ws s) = (m, u)" by fastforce
  then have "close_call F nm c s = emit F c u"
    using assms by (auto simp: close_call_def split: if_splits)
  moreover have "moved s u" by (rule moved_trans [OF moved_skip_ws match1_moved [OF u]])
  ultimately show thesis by (rule that)
qed

lemma fn_op_shape: "fn_op nm = Some (c, binary) \<Longrightarrow> is_operator c \<and> is_unary_op c = (\<not> binary)"
  by (auto simp: fn_op_def kUnary_def kBinary_def is_operator_def is_unary_op_def
      split: option.splits if_splits)

lemma tests_binary: "(a, c) \<in> set (tests l) \<Longrightarrow> is_operator c \<and> \<not> is_unary_op c"
  by (cases l) (auto simp: is_operator_def is_unary_op_def)

lemma first_match_op: "first_match ts s = (Some c, t) \<Longrightarrow> \<exists>a. (a, c) \<in> set ts"
proof (induction ts s rule: first_match.induct)
  case (2 a c' ts s)
  then show ?case
    by (cases "match_token a s") (fastforce split: if_splits)
qed simp

text \<open>What a method owes: a loop extends the tree before it, every other method emits one.\<close>

definition owes :: "'d fp \<Rightarrow> pcall \<Rightarrow> 'd Parser \<Rightarrow> 'd Parser \<Rightarrow> bool" where
  "owes F c s t = (case c of
       C_loop l \<Rightarrow> (\<forall>s0. yields F s0 s \<longrightarrow> yields F s0 t)
     | _ \<Rightarrow> yields F s t)"

lemma owes_simps [simp]:
  "owes F (C_level l) s t = yields F s t" "owes F C_unary s t = yields F s t"
  "owes F C_primary s t = yields F s t" "owes F C_ident s t = yields F s t"
  "owes F (C_call nm) s t = yields F s t" "owes F (operand l) s t = yields F s t"
  by (simp_all add: owes_def) (cases l; simp)

lemma owes_loop: "owes F (C_loop l) s t \<Longrightarrow> yields F s0 s \<Longrightarrow> yields F s0 t"
  by (simp add: owes_def)

lemma owes_loop_step:
  assumes IH: "\<And>c s t. run F n c s = Some t \<Longrightarrow> \<not> p_failed t \<Longrightarrow> owes F c s t"
    and run: "run F (Suc n) (C_loop l) s = Some t" and nf: "\<not> p_failed t"
  shows "owes F (C_loop l) s t"
proof -
  obtain m u where u: "first_match (tests l) (skip_ws s) = (m, u)" by fastforce
  have mv: "moved s u" by (rule moved_trans [OF moved_skip_ws first_match_moved [OF u]])
  show ?thesis
  proof (cases m)
    case None
    then have "t = u" using run u by simp
    then show ?thesis using mv yields_moved_right by (auto simp: owes_def)
  next
    case (Some c)
    then obtain v where v: "run F n (operand l) u = Some v" "run F n (C_loop l) (emit F c v) = Some t"
      using run u by (auto simp: bind_eq_Some_conv)
    have c: "is_operator c" "\<not> is_unary_op c"
      using first_match_op [OF u [unfolded Some]] tests_binary by blast+
    have nfv: "\<not> p_failed v"
      using run_failed [OF v(2)] nf by auto
    have arg: "yields F u v"
      using IH [OF v(1) nfv] by simp
    have "yields F s0 t" if "yields F s0 s" for s0
    proof -
      have "yields F s0 u" by (rule yields_moved_right [OF that mv])
      then have "yields F s0 (emit F c v)" using arg c by (rule yields_binary)
      then show ?thesis by (rule owes_loop [OF IH [OF v(2) nf]])
    qed
    then show ?thesis by (simp add: owes_def)
  qed
qed

lemma yields_unary_step:
  assumes IH: "\<And>c s t. run F n c s = Some t \<Longrightarrow> \<not> p_failed t \<Longrightarrow> owes F c s t"
    and run: "run F (Suc n) C_unary s = Some t" and nf: "\<not> p_failed t"
  shows "yields F s t"
proof -
  obtain m u where u: "match1 (CHR ''!'') (skip_ws s) = (m, u)" by fastforce
  obtain m' v where v: "match1 (CHR ''-'') u = (m', v)" by fastforce
  have mu: "moved s u" by (rule moved_trans [OF moved_skip_ws match1_moved [OF u]])
  have mv: "moved s v" by (rule moved_trans [OF mu match1_moved [OF v]])
  have ops: "is_unary_op OpNot" "is_unary_op OpNeg" by (simp_all add: is_unary_op_def)
  consider x where "run F n C_unary u = Some x" "t = emit F OpNot x"
    | x where "run F n C_unary v = Some x" "t = emit F OpNeg x"
    | "run F n C_primary v = Some t"
    using run u v by (auto split: if_splits)
  then show ?thesis
  proof cases
    case 1
    then have "yields F u x" using IH [OF 1(1)] nf by simp
    then show ?thesis using 1 ops yields_unary yields_moved [OF mu] by blast
  next
    case 2
    then have "yields F v x" using IH [OF 2(1)] nf by simp
    then show ?thesis using 2 ops yields_unary yields_moved [OF mv] by blast
  next
    case 3
    then show ?thesis using IH [OF 3 nf] yields_moved [OF mv] by simp
  qed
qed

lemma yields_primary_step:
  assumes IH: "\<And>c s t. run F n c s = Some t \<Longrightarrow> \<not> p_failed t \<Longrightarrow> owes F c s t"
    and run: "run F (Suc n) C_primary s = Some t" and nf: "\<not> p_failed t"
  shows "yields F s t"
proof -
  let ?u = "skip_ws s"
  have nfs: "\<not> p_failed s" using run_failed [OF run] nf by blast
  have "yields F ?u t"
  proof (cases "peek ?u = CHR ''(''")
    case True
    then obtain v where v: "run F n (C_level L_or) (advance 1 ?u) = Some v"
      and t: "t = (let (m, s) = match1 (CHR '')'') (skip_ws v) in if \<not> m then fail ExpectedClose s else s)"
      using run nfs by auto
    obtain m w where w: "match1 (CHR '')'') (skip_ws v) = (m, w)" by fastforce
    have tw: "t = w" using t w nf by (auto split: if_splits)
    have mv: "moved v w" by (rule moved_trans [OF moved_skip_ws match1_moved [OF w]])
    then have "\<not> p_failed v" using nf tw moved_failed by blast
    then have "yields F (advance 1 ?u) v" using IH [OF v] by simp
    then show ?thesis
      unfolding tw using yields_moved [OF moved_advance] yields_moved_right [OF _ mv] by blast
  next
    case False
    have "Some t = Some (parse_string_body F ?u) \<or> Some t = Some (parse_number F ?u) \<or>
        run F n C_ident ?u = Some t \<or> Some t = Some (fail (UnexpectedChar (peek ?u) (pos ?u)) ?u)"
      using False nfs unfolding run [symmetric] run.simps parse_method.simps Let_def by simp
    then consider "t = parse_string_body F ?u" | "t = parse_number F ?u"
      | "run F n C_ident ?u = Some t"
      using nf failed_fail by fast
    then show ?thesis
    proof cases
      case 1
      then show ?thesis using nf yields_parse_string_body by blast
    next
      case 2
      then show ?thesis using nf yields_parse_number by blast
    next
      case 3
      then show ?thesis using IH [OF 3 nf] by simp
    qed
  qed
  then show ?thesis by (rule yields_moved [OF moved_skip_ws])
qed

lemma yields_ident_step:
  assumes IH: "\<And>c s t. run F n c s = Some t \<Longrightarrow> \<not> p_failed t \<Longrightarrow> owes F c s t"
    and run: "run F (Suc n) C_ident s = Some t" and nf: "\<not> p_failed t"
  shows "yields F s t"
proof -
  let ?nm = "takeWhile is_ident_char (rest s)"
  let ?u = "advance (length ?nm) s"
  have mv: "moved s (skip_ws ?u)" by (rule moved_trans [OF moved_advance moved_skip_ws])
  have "Some t = Some (parse_tag_call F ?u) \<or> run F n (C_call ?nm) (skip_ws ?u) = Some t \<or>
      Some t = Some (emit_tag F ?nm (skip_ws ?u))"
    unfolding run [symmetric] run.simps parse_method.simps Let_def by simp
  then consider "t = parse_tag_call F ?u" | "run F n (C_call ?nm) (skip_ws ?u) = Some t"
    | "t = emit_tag F ?nm (skip_ws ?u)"
    by fast
  then show ?thesis
  proof cases
    case 1
    then show ?thesis using nf yields_parse_tag_call yields_moved [OF moved_advance] by blast
  next
    case 2
    then show ?thesis using IH [OF 2 nf] yields_moved [OF mv] by simp
  next
    case 3
    then have "\<not> p_failed (skip_ws ?u)" using nf by simp
    then show ?thesis using 3 yields_emit_tag yields_moved [OF mv] by blast
  qed
qed

lemma yields_call_step:
  assumes IH: "\<And>c s t. run F n c s = Some t \<Longrightarrow> \<not> p_failed t \<Longrightarrow> owes F c s t"
    and run: "run F (Suc n) (C_call nm) s = Some t" and nf: "\<not> p_failed t"
  shows "yields F s t"
  using run nf
proof (cases rule: run_call_cases)
  case (1 c u v)
  obtain w where w: "t = emit F c w" "moved v w"
    using close_call_cases [OF nf [unfolded 1(4)]] 1(4) by metis
  then have "\<not> p_failed v" using nf moved_failed [OF w(2)] by simp
  then have "yields F u v" using IH [OF 1(3)] by simp
  then have "yields F s w"
    using yields_moved [OF match1_moved [OF 1(2)]] yields_moved_right [OF _ w(2)] by blast
  then show ?thesis using w(1) fn_op_shape [OF 1(1)] yields_unary by blast
next
  case (2 c u v w x)
  obtain y where y: "t = emit F c y" "moved x y"
    using close_call_cases [OF nf [unfolded 2(6)]] 2(6) by metis
  have mw: "moved v w" by (rule moved_trans [OF moved_skip_ws match1_moved [OF 2(4)]])
  have nfx: "\<not> p_failed x" using nf moved_failed [OF y(2)] y(1) by simp
  then have "\<not> p_failed v" using run_failed [OF 2(5)] moved_failed [OF mw] by blast
  then have "yields F u v" using IH [OF 2(3)] by simp
  then have "yields F s w"
    using yields_moved [OF match1_moved [OF 2(2)]] yields_moved_right [OF _ mw] by blast
  moreover have "yields F w y"
    using IH [OF 2(5) nfx] yields_moved_right [OF _ y(2)] by simp
  ultimately show ?thesis using y(1) fn_op_shape [OF 2(1)] yields_binary by blast
qed

theorem run_emits: "run F n c s = Some t \<Longrightarrow> \<not> p_failed t \<Longrightarrow> owes F c s t"
proof (induction n arbitrary: c s t)
  case (Suc n)
  show ?case
  proof (cases c)
    case (C_level l)
    then obtain u where u: "run F n (operand l) s = Some u" "run F n (C_loop l) u = Some t"
      using Suc.prems by (auto simp: bind_eq_Some_conv)
    then have "\<not> p_failed u" using run_failed Suc.prems(2) by blast
    then have "yields F s u" using Suc.IH [OF u(1)] by simp
    then show ?thesis using owes_loop [OF Suc.IH [OF u(2) Suc.prems(2)]] C_level by simp
  qed (use Suc owes_loop_step [of F n] yields_unary_step [of F n] yields_primary_step [of F n]
        yields_ident_step [of F n] yields_call_step [of F n] in auto)
qed simp

end
