(* ===== verification/Expr_Eval.thy ===== *)
theory Expr_Eval
  imports Expr_Tree
begin

text \<open>
  Evaluation of compiled programs: on the postfix form of a tree the evaluator either pushes the
  value of the tree, when the tree fits in the value stack, or stops with a full stack.
\<close>

section \<open>One instruction\<close>

lemma resolve_SConst: "resolve nms i = SConst v \<longleftrightarrow> op i = OpConst \<and> ik i = v"
  by (auto simp: resolve_def)

lemma resolve_STag: "resolve nms i = STag n \<longleftrightarrow> op i = OpTag \<and> nms ! unat (itag i) = n"
  by (auto simp: resolve_def)

lemma resolve_SOp: "SOp c = resolve nms i \<longleftrightarrow> op i = c \<and> is_operator c"
  by (auto simp: resolve_def is_operator_def)

lemma unary_is_operator: "is_unary_op c \<Longrightarrow> is_operator c"
  by (auto simp: is_unary_op_def is_operator_def)

lemma exec_const:
  "op i = OpConst \<Longrightarrow> length stk < kMaxStack \<Longrightarrow> exec_instr F ctx nms i stk = Some (ik i # stk)"
  by (simp add: exec_instr_def push_value_def)

lemma exec_tag:
  assumes "op i = OpTag" "in_range nms i" "nms ! unat (itag i) = n" "length stk < kMaxStack"
  shows "exec_instr F ctx nms i stk = Some (denote F ctx (TagRef n) # stk)"
  using assms by (simp add: exec_instr_def push_value_def tag_value_def in_range_def)

lemma exec_unary:
  "is_unary_op (op i) \<Longrightarrow> exec_instr F ctx nms i (a # stk) = Some (apply_unary F (op i) a # stk)"
  by (cases "op i") (simp_all add: exec_instr_def is_unary_op_def)

lemma exec_binary:
  assumes "is_operator (op i)" "\<not> is_unary_op (op i)" "length stk < kMaxStack"
  shows "exec_instr F ctx nms i (b # a # stk) = Some (apply_binary F (op i) a b # stk)"
  using assms
  by (cases "op i") (simp_all add: exec_instr_def is_operator_def push_value_def is_unary_op_def)

lemma eval_loop_step:
  assumes "exec_instr F ctx nms i stk = Some (v # st)"
  shows "eval_loop F ctx nms (i # ins) stk nan =
    (if kMaxStack \<le> Suc (length st) then Some (v # st, nan \<or> d_isnan F v)
     else eval_loop F ctx nms ins (v # st) (nan \<or> d_isnan F v))"
  using assms by simp

section \<open>A whole tree\<close>

text \<open>The evaluator stopped early, with a full stack.\<close>

definition overflowed :: "('d list \<times> bool) option \<Rightarrow> bool" where
  "overflowed r \<longleftrightarrow> (\<exists>stk b. r = Some (stk, b) \<and> length stk = kMaxStack)"

definition eval_ok :: "'d fp \<Rightarrow> 'd ProcessingContext \<Rightarrow> string list \<Rightarrow> 'd Instr list \<Rightarrow> expr \<Rightarrow> bool" where
  "eval_ok F ctx nms c e \<longleftrightarrow> (\<forall>ins stk nan. length stk < kMaxStack \<longrightarrow>
     (if length stk + peak e < kMaxStack
      then eval_loop F ctx nms (c @ ins) stk nan =
             eval_loop F ctx nms ins (denote F ctx e # stk) (nan \<or> nan_inside F ctx e)
      else overflowed (eval_loop F ctx nms (c @ ins) stk nan)))"

lemma eval_okD:
  assumes "eval_ok F ctx nms c e" "length stk + peak e < kMaxStack"
  shows "eval_loop F ctx nms (c @ ins) stk nan =
    eval_loop F ctx nms ins (denote F ctx e # stk) (nan \<or> nan_inside F ctx e)"
  using assms by (simp add: eval_ok_def)

lemma eval_ok_overflow:
  assumes "eval_ok F ctx nms c e" "length stk < kMaxStack" "kMaxStack \<le> length stk + peak e"
  shows "overflowed (eval_loop F ctx nms (c @ ins) stk nan)"
  using assms unfolding eval_ok_def by (metis not_le)

lemma eval_ok_leaf:
  assumes v: "\<And>stk. length stk < kMaxStack \<Longrightarrow> exec_instr F ctx nms i stk = Some (denote F ctx e # stk)"
    and e: "peak e = 1" "nan_inside F ctx e = d_isnan F (denote F ctx e)"
  shows "eval_ok F ctx nms [i] e"
  unfolding eval_ok_def
proof (intro allI impI)
  fix ins stk nan
  assume "length (stk :: 'a list) < kMaxStack"
  then show "if length stk + peak e < kMaxStack
      then eval_loop F ctx nms ([i] @ ins) stk nan =
             eval_loop F ctx nms ins (denote F ctx e # stk) (nan \<or> nan_inside F ctx e)
      else overflowed (eval_loop F ctx nms ([i] @ ins) stk nan)"
    using eval_loop_step [OF v] e by (auto simp: overflowed_def)
qed

lemma eval_ok_unary:
  assumes a: "eval_ok F ctx nms c e" and i: "is_unary_op (op i)"
  shows "eval_ok F ctx nms (c @ [i]) (Unary (op i) e)"
  unfolding eval_ok_def
proof (intro allI impI)
  fix ins stk nan
  assume len: "length (stk :: 'a list) < kMaxStack"
  let ?v = "denote F ctx e"
  show "if length stk + peak (Unary (op i) e) < kMaxStack
      then eval_loop F ctx nms ((c @ [i]) @ ins) stk nan =
             eval_loop F ctx nms ins (denote F ctx (Unary (op i) e) # stk) (nan \<or> nan_inside F ctx (Unary (op i) e))
      else overflowed (eval_loop F ctx nms ((c @ [i]) @ ins) stk nan)"
  proof (cases "length stk + peak e < kMaxStack")
    case True
    have "eval_loop F ctx nms ((c @ [i]) @ ins) stk nan =
        eval_loop F ctx nms (i # ins) (?v # stk) (nan \<or> nan_inside F ctx e)"
      using eval_okD [OF a True, of "i # ins" nan] by simp
    also have "\<dots> = eval_loop F ctx nms ins (apply_unary F (op i) ?v # stk)
        ((nan \<or> nan_inside F ctx e) \<or> d_isnan F (apply_unary F (op i) ?v))"
      using eval_loop_step [OF exec_unary [OF i]] True peak_pos [of e] by simp
    finally show ?thesis using True by (simp add: disj_assoc)
  next
    case False
    then show ?thesis
      using eval_ok_overflow [OF a len, of "i # ins" nan] by simp
  qed
qed

lemma eval_ok_binary:
  assumes a: "eval_ok F ctx nms ca ea" and b: "eval_ok F ctx nms cb eb"
    and i: "is_operator (op i)" "\<not> is_unary_op (op i)"
  shows "eval_ok F ctx nms (ca @ cb @ [i]) (Binary (op i) ea eb)"
  unfolding eval_ok_def
proof (intro allI impI)
  fix ins stk nan
  assume len: "length (stk :: 'a list) < kMaxStack"
  let ?va = "denote F ctx ea" and ?vb = "denote F ctx eb" and ?e = "Binary (op i) ea eb"
  show "if length stk + peak ?e < kMaxStack
      then eval_loop F ctx nms ((ca @ cb @ [i]) @ ins) stk nan =
             eval_loop F ctx nms ins (denote F ctx ?e # stk) (nan \<or> nan_inside F ctx ?e)
      else overflowed (eval_loop F ctx nms ((ca @ cb @ [i]) @ ins) stk nan)"
  proof (cases "length stk + peak ea < kMaxStack")
    case False
    then show ?thesis
      using eval_ok_overflow [OF a len, of "cb @ i # ins" nan] by auto
  next
    case fits: True
    have first: "eval_loop F ctx nms ((ca @ cb @ [i]) @ ins) stk nan =
        eval_loop F ctx nms (cb @ i # ins) (?va # stk) (nan \<or> nan_inside F ctx ea)"
      using eval_okD [OF a fits, of "cb @ i # ins" nan] by simp
    have len': "length (?va # stk) < kMaxStack" using fits peak_pos [of ea] by simp
    show ?thesis
    proof (cases "length (?va # stk) + peak eb < kMaxStack")
      case False
      then show ?thesis
        using eval_ok_overflow [OF b len', of "i # ins"] first by auto
    next
      case True
      have "eval_loop F ctx nms (cb @ i # ins) (?va # stk) (nan \<or> nan_inside F ctx ea) =
          eval_loop F ctx nms (i # ins) (?vb # ?va # stk) ((nan \<or> nan_inside F ctx ea) \<or> nan_inside F ctx eb)"
        by (rule eval_okD [OF b True])
      also have "\<dots> = eval_loop F ctx nms ins (apply_binary F (op i) ?va ?vb # stk)
          (((nan \<or> nan_inside F ctx ea) \<or> nan_inside F ctx eb) \<or> d_isnan F (apply_binary F (op i) ?va ?vb))"
        using eval_loop_step [OF exec_binary [OF i len]] len' by simp
      finally show ?thesis using first fits True by (simp add: disj_assoc max_def)
    qed
  qed
qed

lemma map_split:
  assumes "map f c = xs @ ys"
  obtains ca cb where "c = ca @ cb" "map f ca = xs" "map f cb = ys"
  using assms map_eq_append_conv [of f c xs ys] by metis

lemma eval_ok_rpn:
  assumes "wf_expr F e" "map (resolve nms) c = rpn F e" "list_all (in_range nms) c"
  shows "eval_ok F ctx nms c e"
  using assms
proof (induction e arbitrary: c)
  case (Lit l)
  then obtain i where c: "c = [i]" "op i = OpConst" "ik i = lit_value F l"
    by (auto simp: resolve_SConst)
  show ?case
    unfolding c(1) by (rule eval_ok_leaf) (simp_all add: exec_const c)
next
  case (TagRef n)
  then obtain i where c: "c = [i]" "op i = OpTag" "nms ! unat (itag i) = n" "in_range nms i"
    by (auto simp: resolve_STag)
  show ?case
    unfolding c(1) by (rule eval_ok_leaf) (simp_all only: exec_tag [OF c(2,4,3)] peak.simps nan_inside.simps)
next
  case (Unary o1 e)
  then obtain ca i where c: "c = ca @ [i]" "map (resolve nms) ca = rpn F e" "op i = o1"
    by (auto simp: map_eq_append_conv resolve_SOp)
  then show ?case
    using Unary eval_ok_unary [of F ctx nms ca e i] by simp
next
  case (Binary o2 a b)
  from Binary.prems(2) obtain ca cd where split: "c = ca @ cd" "map (resolve nms) ca = rpn F a"
    "map (resolve nms) cd = rpn F b @ [SOp o2]"
    unfolding rpn.simps by (rule map_split)
  from split(3) obtain cb ci where "cd = cb @ ci" "map (resolve nms) cb = rpn F b"
    "map (resolve nms) ci = [SOp o2]"
    by (rule map_split)
  with split obtain i where c: "c = ca @ cb @ [i]" "map (resolve nms) ca = rpn F a"
    "map (resolve nms) cb = rpn F b" "op i = o2"
    by (auto simp: resolve_SOp dest!: sym [of "resolve nms _"])
  then show ?case
    using Binary eval_ok_binary [of F ctx nms ca a cb b i] by simp
qed

section \<open>Compiled programs\<close>

text \<open>The tree of an accepted program.\<close>

definition program_of :: "'d fp \<Rightarrow> 'd Program \<Rightarrow> expr \<Rightarrow> bool" where
  "program_of F p e \<longleftrightarrow> wf_expr F e \<and> max_depth p = peak e \<and>
     list_all (in_range (names p)) (code p) \<and>
     (length (names p) \<le> 2 ^ 32 \<longrightarrow> map (resolve (names p)) (code p) = rpn F e)"

lemma compile_parses: "\<exists>t. run F (10 * length x + 10) (C_level L_or) (new_Parser x) = Some t \<and>
    compile F x = finish t"
  using parse_returns [of F x] by (auto simp: parse_def compile_def)

lemma compile_program:
  assumes "ok (compile F x)"
  shows "\<exists>e. program_of F (compile F x) e"
proof -
  obtain t where t: "run F (10 * length x + 10) (C_level L_or) (new_Parser x) = Some t"
    "compile F x = finish t"
    using compile_parses by blast
  have nf: "\<not> p_failed t" and fin: "finish t = \<lparr>code = p_code t, names = p_names t,
      max_depth = p_max_depth t, ok = True, prog_error = None\<rparr>"
    using assms unfolding t(2) by (auto simp: finish_def Let_def split: if_splits)
  have "yields F (new_Parser x) t"
    using run_emits [OF t(1) nf] by simp
  then obtain e where "wf_expr F e" "emitted F e (new_Parser x) t"
    unfolding yields_def by blast
  then have "program_of F (finish t) e"
    unfolding fin program_of_def emitted_def by (auto simp: new_Parser_def)
  then show ?thesis unfolding t(2) by blast
qed

lemma evaluate_fits:
  assumes "program_of F p e" "length (names p) \<le> 2 ^ 32" "max_depth p < kMaxStack"
  shows "evaluate F p ctx = Some (denote F ctx e, nan_inside F ctx e)"
proof -
  have "eval_ok F ctx (names p) (code p) e"
    using assms(1,2) by (intro eval_ok_rpn) (auto simp: program_of_def)
  from eval_okD [OF this, of "[]" "[]" False] show ?thesis
    using assms by (simp add: evaluate_def program_of_def)
qed

lemma evaluate_defined:
  assumes "program_of F p e" "length (names p) \<le> 2 ^ 32"
  shows "evaluate F p ctx \<noteq> None"
proof (cases "max_depth p < kMaxStack")
  case True
  then show ?thesis using evaluate_fits [OF assms] by simp
next
  case False
  have "eval_ok F ctx (names p) (code p) e"
    using assms by (intro eval_ok_rpn) (auto simp: program_of_def)
  then have "overflowed (eval_loop F ctx (names p) (code p @ []) [] False)"
    using False assms(1) by (intro eval_ok_overflow) (auto simp: kMaxStack_def program_of_def)
  then show ?thesis
    by (auto simp: overflowed_def evaluate_def)
qed

end
