(* ===== verification/Json.thy ===== *)
theory Json
  imports Aero_Prelude
begin

text \<open>
  JSON values as the sources use them through \<open>nlohmann::json\<close>: the value kinds the code tests for,
  \<open>contains\<close>, and the conversions \<open>get<T>()\<close> and \<open>value(key, default)\<close> with the exception they throw
  on a value of another kind. Parsing text into a value and printing one are parameters of the
  definitions that need them.
\<close>

datatype 'd json = JNull | JBool bool | JUInt u64 | JInt "64 word" | JFloat 'd
  | JString string | JArray "'d json list" | JObject "(string \<times> 'd json) list"

text \<open>A non-negative integer literal is stored unsigned, a negative one signed.\<close>

fun is_null :: "'d json \<Rightarrow> bool" where
  "is_null JNull = True" | "is_null _ = False"

fun is_string :: "'d json \<Rightarrow> bool" where
  "is_string (JString _) = True" | "is_string _ = False"

fun is_object :: "'d json \<Rightarrow> bool" where
  "is_object (JObject _) = True" | "is_object _ = False"

fun is_array :: "'d json \<Rightarrow> bool" where
  "is_array (JArray _) = True" | "is_array _ = False"

fun is_number_integer :: "'d json \<Rightarrow> bool" where
  "is_number_integer (JUInt _) = True" | "is_number_integer (JInt _) = True" | "is_number_integer _ = False"

fun is_number :: "'d json \<Rightarrow> bool" where
  "is_number (JFloat _) = True" | "is_number j = is_number_integer j"

fun members :: "'d json \<Rightarrow> (string \<times> 'd json) list" where
  "members (JObject ms) = ms" | "members _ = []"

fun elements :: "'d json \<Rightarrow> 'd json list" where
  "elements (JArray js) = js" | "elements _ = []"

definition lookup :: "string \<Rightarrow> 'd json \<Rightarrow> 'd json option" where
  "lookup key j = map_of (members j) key"

definition contains :: "'d json \<Rightarrow> string \<Rightarrow> bool" where
  "contains j key \<longleftrightarrow> lookup key j \<noteq> None"

text \<open>\<open>j[key]\<close>, read only where \<open>contains\<close> holds.\<close>

definition at :: "'d json \<Rightarrow> string \<Rightarrow> 'd json" where
  "at j key = (case lookup key j of Some v \<Rightarrow> v | None \<Rightarrow> JNull)"

section \<open>Conversions\<close>

text \<open>\<open>get<T>()\<close>: \<open>None\<close> where the library throws \<open>type_error\<close>. Integers convert like a C++ cast.\<close>

fun get_string :: "'d json \<Rightarrow> string option" where
  "get_string (JString s) = Some s" | "get_string _ = None"

fun get_word :: "'d json \<Rightarrow> ('d \<Rightarrow> u64) \<Rightarrow> u64 option" where
  "get_word (JUInt u) cast = Some u"
| "get_word (JInt i) cast = Some i"
| "get_word (JFloat d) cast = Some (cast d)"
| "get_word _ cast = None"

text \<open>\<open>get<int>()\<close> also accepts a boolean.\<close>

fun get_int :: "'d json \<Rightarrow> ('d \<Rightarrow> u64) \<Rightarrow> 32 word option" where
  "get_int (JBool b) cast = Some (if b then 1 else 0)"
| "get_int j cast = map_option ucast (get_word j cast)"

fun get_double :: "(int \<Rightarrow> 'd) \<Rightarrow> 'd json \<Rightarrow> 'd option" where
  "get_double of_i (JUInt u) = Some (of_i (uint u))"
| "get_double of_i (JInt i) = Some (of_i (sint i))"
| "get_double of_i (JFloat d) = Some d"
| "get_double of_i _ = None"

text \<open>\<open>c.value(key, default)\<close>: throws when \<open>c\<close> is not an object or the member has another kind.\<close>

definition value_or :: "('d json \<Rightarrow> 'a option) \<Rightarrow> 'd json \<Rightarrow> string \<Rightarrow> 'a \<Rightarrow> 'a option" where
  "value_or get j key dflt = (if is_object j
     then (case lookup key j of Some v \<Rightarrow> get v | None \<Rightarrow> Some dflt)
     else None)"

definition value_string :: "'d json \<Rightarrow> string \<Rightarrow> string \<Rightarrow> string option" where
  "value_string = value_or get_string"

lemma lookup_nil [simp]: "lookup key (JObject []) = None"
  by (simp add: lookup_def)

lemma lookup_cons [simp]:
  "lookup key (JObject ((n, v) # ms)) = (if key = n then Some v else lookup key (JObject ms))"
  by (simp add: lookup_def)

lemma at_contains: "contains j key \<Longrightarrow> lookup key j = Some (at j key)"
  by (auto simp: contains_def at_def)

end
