(* ===== verification/Flow_Nodes.thy ===== *)
theory Flow_Nodes
  imports Expr_Eval Json "HOL-Library.AList"
begin

text \<open>
  The built-in nodes: \<open>nodes/builtin_nodes.hpp\<close>, \<open>compute_nodes.hpp\<close>, \<open>mes_nodes.hpp\<close>,
  \<open>http_output_node.hpp\<close>, \<open>expr_rule_node.hpp\<close>, \<open>switch_node.hpp\<close>, \<open>set_node.hpp\<close> and
  \<open>loop_nodes.hpp\<close>. A node is a value of \<open>Node\<close> holding what its class keeps between commands, and
  \<open>process\<close> is the virtual call: the result, the node afterwards and the context afterwards, \<open>None\<close>
  only where an expression evaluation would leave its stack. The environment gives the double
  arithmetic, the clock, and the JSON library's parser and printer.
\<close>

record 'd env =
  e_fp :: "'d fp"
  e_now :: "nat \<Rightarrow> int"
  e_json_parse :: "byte list \<Rightarrow> 'd json option"
  e_json_dump :: "'d json \<Rightarrow> string"

section \<open>The nodes\<close>

datatype 'd Node = DecodeSourceNode
  | ScaleNode 'd
  | RuntimeMovingAverageNode "'d list" nat nat
  | SumOutputNode
  | MeanNode
  | MinMaxNode
  | SumNode
  | CrcNode
  | ModbusDecodeNode "string list"
  | ModbusBitsDecodeNode "string list"
  | JsonParseNode
  | MesReportNode string string StagedMesKind
  | MesOrderSourceNode 'd
  | HttpOutputNode string string string int
  | ExprRuleNode "'d Program" string
  | SwitchNode "'d Program"
  | SetNode "'d Program" string
  | LoopStartNode "'d Program" string nat int
  | LoopBackNode string "'d Program" "'d Program"

definition desc :: "NodeCategory \<Rightarrow> string \<Rightarrow> NodeDescriptor" where
  "desc cat tid = \<lparr>category = cat, nd_type_id = tid, terminal = False\<rparr>"

fun descriptor :: "'d Node \<Rightarrow> NodeDescriptor" where
  "descriptor DecodeSourceNode = desc Source ''aero.source.decode''"
| "descriptor (ScaleNode _) = desc Transform ''aero.transform.scale''"
| "descriptor (RuntimeMovingAverageNode _ _ _) = desc Transform ''aero.transform.moving_average''"
| "descriptor SumOutputNode = (desc Output ''aero.output.sum'')\<lparr>terminal := True\<rparr>"
| "descriptor MeanNode = desc Transform ''aero.transform.mean''"
| "descriptor MinMaxNode = desc Transform ''aero.transform.minmax''"
| "descriptor SumNode = desc Transform ''aero.transform.sum''"
| "descriptor CrcNode = desc Transform ''aero.transform.crc''"
| "descriptor (ModbusDecodeNode _) = desc Source ''aero.source.modbus''"
| "descriptor (ModbusBitsDecodeNode _) = desc Source ''aero.source.modbus_bits''"
| "descriptor JsonParseNode = desc Source ''aero.source.json''"
| "descriptor (MesReportNode _ _ _) = desc Output ''aero.output.mes''"
| "descriptor (MesOrderSourceNode _) = desc Source ''aero.source.mes_order''"
| "descriptor (HttpOutputNode _ _ _ _) = desc Output ''aero.output.http''"
| "descriptor (ExprRuleNode _ _) = desc Rule ''aero.rule.expr''"
| "descriptor (SwitchNode _) = desc Rule ''aero.flow.switch''"
| "descriptor (SetNode _ _) = desc Transform ''aero.transform.set''"
| "descriptor (LoopStartNode _ _ _ _) = desc Rule ''aero.flow.loop_start''"
| "descriptor (LoopBackNode _ _ _) = desc Rule ''aero.flow.loop_back''"

section \<open>Sources and transforms\<close>

definition decode_source :: "'d fp \<Rightarrow> 'd ProcessingContext \<Rightarrow> NodeResult \<times> 'd ProcessingContext" where
  "decode_source F c = (case frame c of
       None \<Rightarrow> (Error, c)
     | Some f \<Rightarrow> (Continue, push_tag ''raw'' (d_of_int F (sint (raw f))) c))"

definition scale :: "'d fp \<Rightarrow> 'd \<Rightarrow> 'd ProcessingContext \<Rightarrow> 'd ProcessingContext" where
  "scale F factor c = c\<lparr>tags := map (\<lambda>t. t\<lparr>tag_val := d_mul F (tag_val t) factor\<rparr>) (tags c)\<rparr>"

text \<open>The ring, its head and the fill count; the constructor sizes the ring, at least one slot.\<close>

definition new_RuntimeMovingAverageNode :: "'d fp \<Rightarrow> nat \<Rightarrow> 'd Node" where
  "new_RuntimeMovingAverageNode F window =
     RuntimeMovingAverageNode (replicate (if window = 0 then 1 else window) (d_zero F)) 0 0"

definition ring_push :: "'d \<Rightarrow> 'd list \<times> nat \<times> nat \<Rightarrow> 'd list \<times> nat \<times> nat" where
  "ring_push v = (\<lambda>(ring, head, count). (ring[head := v], (head + 1) mod length ring,
     if count < length ring then count + 1 else count))"

definition moving_average :: "'d fp \<Rightarrow> 'd list \<times> nat \<times> nat \<Rightarrow> 'd ProcessingContext \<Rightarrow> ('d list \<times> nat \<times> nat) \<times> 'd ProcessingContext" where
  "moving_average F rs c = (let sample = d_sum F (tag_vals c);
       (ring, head, count) = ring_push sample rs;
       avg = d_div F (d_sum F (take count ring)) (d_of_int F (int count))
     in ((ring, head, count), push_event ''MovingAverage'' avg (push_output avg c)))"

definition sum_output :: "'d fp \<Rightarrow> 'd ProcessingContext \<Rightarrow> 'd ProcessingContext" where
  "sum_output F c = (let sum = d_sum F (tag_vals c) in push_event ''TagChanged'' sum (push_output sum c))"

definition mean_node :: "'d fp \<Rightarrow> 'd ProcessingContext \<Rightarrow> 'd ProcessingContext" where
  "mean_node F c = (let sum = d_sum F (tag_vals c);
       mean = (if tags c = [] then d_zero F else d_div F sum (d_of_int F (int (length (tags c)))))
     in push_event ''Mean'' mean (push_output mean c))"

fun min_max :: "'d fp \<Rightarrow> 'd list \<Rightarrow> 'd \<times> 'd" where
  "min_max F [] = (d_zero F, d_zero F)"
| "min_max F (v # vs) = foldl (\<lambda>(lo, hi) v. (d_min F lo v, d_max F hi v)) (v, v) vs"

definition minmax_node :: "'d fp \<Rightarrow> 'd ProcessingContext \<Rightarrow> 'd ProcessingContext" where
  "minmax_node F c = (let (lo, hi) = min_max F (tag_vals c)
     in push_event ''MinMax'' hi (push_output hi (push_output lo c)))"

definition sum_node :: "'d fp \<Rightarrow> 'd ProcessingContext \<Rightarrow> 'd ProcessingContext" where
  "sum_node F c = (let sum = d_sum F (tag_vals c) in push_event ''Sum'' sum (push_output sum c))"

section \<open>The frame checksum\<close>

definition crc_shift :: "u16 \<Rightarrow> u16" where
  "crc_shift crc = (if crc AND 0x8000 \<noteq> 0 then push_bit 1 crc XOR 0x1021 else push_bit 1 crc)"

definition crc_byte :: "u16 \<Rightarrow> byte \<Rightarrow> u16" where
  "crc_byte crc b = (crc_shift ^^ 8) (crc XOR push_bit 8 (ucast b))"

definition crc16 :: "byte list \<Rightarrow> u16" where
  "crc16 bs = foldl crc_byte 0xFFFF bs"

definition crc_node :: "'d fp \<Rightarrow> 'd ProcessingContext \<Rightarrow> 'd ProcessingContext" where
  "crc_node F c = (let v = d_of_int F (uint (crc16 (payload c))) in push_output v (push_tag ''crc16'' v c))"

section \<open>Modbus payloads\<close>

text \<open>The cache of tag names grows with the widest payload seen.\<close>

definition grow_names :: "string \<Rightarrow> nat \<Rightarrow> string list \<Rightarrow> string list" where
  "grow_names prefix n nms = nms @ map (\<lambda>i. prefix @ to_string i) [length nms..<n]"

fun registers :: "byte list \<Rightarrow> u16 list" where
  "registers (hi # lo # bs) = (push_bit 8 (ucast hi) OR ucast lo) # registers bs"
| "registers _ = []"

definition push_tags :: "string list \<Rightarrow> 'd list \<Rightarrow> 'd ProcessingContext \<Rightarrow> 'd ProcessingContext" where
  "push_tags nms vs c = c\<lparr>tags := tags c @ map2 (\<lambda>n v. \<lparr>tag_name = n, tag_val = v\<rparr>) nms vs\<rparr>"

definition modbus_decode :: "'d fp \<Rightarrow> string list \<Rightarrow> 'd ProcessingContext \<Rightarrow> NodeResult \<times> string list \<times> 'd ProcessingContext" where
  "modbus_decode F nms c = (let n = length (payload c) in
     if n mod 2 \<noteq> 0 then (Error, nms, c)
     else (let nms = grow_names ''reg'' (n div 2) nms
           in (Continue, nms, push_tags nms (map (\<lambda>r. d_of_int F (uint r)) (registers (payload c))) c)))"

definition bit_count :: "'d ProcessingContext \<Rightarrow> nat" where
  "bit_count c = (let max_bits = length (payload c) * 8 in
     case frame c of
       Some f \<Rightarrow> (if 0 < sint (raw f) \<and> sint (raw f) \<le> int max_bits then nat (sint (raw f)) else max_bits)
     | None \<Rightarrow> max_bits)"

definition payload_bit :: "byte list \<Rightarrow> nat \<Rightarrow> bool" where
  "payload_bit bs i \<longleftrightarrow> drop_bit (i mod 8) (bs ! (i div 8)) AND 1 \<noteq> 0"

definition modbus_bits_decode :: "'d fp \<Rightarrow> string list \<Rightarrow> 'd ProcessingContext \<Rightarrow> string list \<times> 'd ProcessingContext" where
  "modbus_bits_decode F nms c = (let n = bit_count c; nms = grow_names ''bit'' n nms
     in (nms, push_tags nms (map (\<lambda>i. d_bool F (payload_bit (payload c) i)) [0..<n]) c))"

section \<open>JSON, MES and HTTP\<close>

definition json_parse_node :: "'d env \<Rightarrow> 'd ProcessingContext \<Rightarrow> NodeResult \<times> 'd ProcessingContext" where
  "json_parse_node E c = (case e_json_parse E (payload c) of
       None \<Rightarrow> (Error, c)
     | Some j \<Rightarrow> (if \<not> is_object j then (Error, c)
         else (Continue, foldl (\<lambda>c (key, v). case (if is_number v then get_double (d_of_int (e_fp E)) v else None) of
                 Some d \<Rightarrow> push_tag key d c | None \<Rightarrow> c) c (members j))))"

definition mes_report :: "'d fp \<Rightarrow> string \<Rightarrow> string \<Rightarrow> StagedMesKind \<Rightarrow> 'd ProcessingContext \<Rightarrow> 'd ProcessingContext" where
  "mes_report F line label kind c = (let v = d_sum F (tag_vals c)
     in push_output v (c\<lparr>mes_reports := mes_reports c @
          [\<lparr>smr_kind = kind, smr_line = line, smr_label = label, smr_val = v\<rparr>]\<rparr>))"

text \<open>\<open>body[name] = value\<close> for every tag: a later tag of the same name wins.\<close>

definition http_body :: "'d ProcessingContext \<Rightarrow> 'd json" where
  "http_body c = JObject (foldl (\<lambda>ms t. AList.update (tag_name t) (JFloat (tag_val t)) ms) [] (tags c))"

definition http_output :: "'d env \<Rightarrow> string \<Rightarrow> string \<Rightarrow> string \<Rightarrow> int \<Rightarrow> 'd ProcessingContext \<Rightarrow> 'd ProcessingContext" where
  "http_output E url verb headers timeout c = c\<lparr>http_requests := http_requests c @
     [\<lparr>shr_url = url, shr_method = verb, shr_headers_json = headers, shr_timeout_ms = timeout,
       shr_body = e_json_dump E (http_body c)\<rparr>]\<rparr>"

section \<open>Rules\<close>

definition kNaNEventType :: string where
  "kNaNEventType = ''ExprNaN''"

definition expr_rule :: "'d fp \<Rightarrow> 'd Program \<Rightarrow> string \<Rightarrow> 'd ProcessingContext \<Rightarrow> (NodeResult \<times> 'd ProcessingContext) option" where
  "expr_rule F prog alarm c = (if \<not> ok prog then Some (Error, c)
     else (case evaluate F prog c of
         None \<Rightarrow> None
       | Some (v, saw_nan) \<Rightarrow>
           (let c = (if saw_nan then push_event kNaNEventType v c else c)
            in Some (if d_nonzero F v then (Stop, push_event alarm v c) else (Continue, c)))))"

definition switch_node :: "'d fp \<Rightarrow> 'd Program \<Rightarrow> 'd ProcessingContext \<Rightarrow> (NodeResult \<times> 'd ProcessingContext) option" where
  "switch_node F prog c = (if \<not> ok prog then Some (Error, c)
     else (case evaluate F prog c of
         None \<Rightarrow> None
       | Some (v, saw_nan) \<Rightarrow>
           (let c = (if saw_nan then push_event kNaNEventType v c else c)
            in Some (Continue, c\<lparr>active_branch := (if d_nonzero F v then ''true'' else ''false'')\<rparr>))))"

definition set_node :: "'d fp \<Rightarrow> 'd Program \<Rightarrow> string \<Rightarrow> 'd ProcessingContext \<Rightarrow> (NodeResult \<times> 'd ProcessingContext) option" where
  "set_node F prog tag c = (if \<not> ok prog then Some (Error, c)
     else (case evaluate F prog c of
         None \<Rightarrow> None
       | Some (v, _) \<Rightarrow> Some (Continue, overwrite_or_append tag v c)))"

section \<open>Loops\<close>

definition loop_start :: "'d env \<Rightarrow> 'd Program \<Rightarrow> string \<Rightarrow> nat \<Rightarrow> int \<Rightarrow> 'd ProcessingContext \<Rightarrow> (NodeResult \<times> 'd ProcessingContext) option" where
  "loop_start E prog counter max_iterations max_duration c = (if \<not> ok prog then Some (Error, c)
     else (case evaluate (e_fp E) prog c of
         None \<Rightarrow> None
       | Some (v, _) \<Rightarrow>
           (let c = (overwrite_or_append counter v c)\<lparr>loop_iterations_remaining := max_iterations\<rparr>;
                (now, c) = steady_now (e_now E) c
            in Some (Continue, c\<lparr>loop_deadline := Some (now + max_duration)\<rparr>))))"

text \<open>\<open>time_up\<close> reads the clock only when a deadline is set.\<close>

definition time_up :: "'d env \<Rightarrow> 'd ProcessingContext \<Rightarrow> bool \<times> 'd ProcessingContext" where
  "time_up E c = (case loop_deadline c of
       None \<Rightarrow> (False, c)
     | Some dl \<Rightarrow> (let (now, c) = steady_now (e_now E) c in (dl \<le> now, c)))"

text \<open>Every pass consumes one unit of budget, saturating; wanting another pass without budget or
  time is the failure.\<close>

definition loop_decide :: "'d env \<Rightarrow> bool \<Rightarrow> 'd ProcessingContext \<Rightarrow> NodeResult \<times> 'd ProcessingContext" where
  "loop_decide E wants_continue c =
     (let c = c\<lparr>loop_iterations_remaining := loop_iterations_remaining c - 1\<rparr>;
          (up, c) = time_up E c
      in if wants_continue \<and> (loop_iterations_remaining c = 0 \<or> up) then (Error, c)
         else (Continue, c\<lparr>loop_continue := wants_continue\<rparr>))"

definition loop_back :: "'d env \<Rightarrow> string \<Rightarrow> 'd Program \<Rightarrow> 'd Program \<Rightarrow> 'd ProcessingContext \<Rightarrow> (NodeResult \<times> 'd ProcessingContext) option" where
  "loop_back E counter step_prog end_prog c = (let F = e_fp E in
     if \<not> ok step_prog \<or> \<not> ok end_prog then Some (Error, c)
     else (case evaluate F step_prog c of
         None \<Rightarrow> None
       | Some (step_v, _) \<Rightarrow>
           (let old_counter = (case find_tag counter (tags c) of Some v \<Rightarrow> v | None \<Rightarrow> d_zero F);
                new_counter = d_add F old_counter step_v;
                c = overwrite_or_append counter new_counter c
            in case evaluate F end_prog c of
                 None \<Rightarrow> None
               | Some (end_v, _) \<Rightarrow>
                   Some (loop_decide E (if d_le F (d_zero F) step_v then d_le F new_counter end_v
                                        else d_le F end_v new_counter) c))))"

section \<open>The virtual call\<close>

fun process :: "'d env \<Rightarrow> 'd Node \<Rightarrow> 'd ProcessingContext \<Rightarrow> (NodeResult \<times> 'd Node \<times> 'd ProcessingContext) option" where
  "process E DecodeSourceNode c = (let (r, c) = decode_source (e_fp E) c in Some (r, DecodeSourceNode, c))"
| "process E (ScaleNode f) c = Some (Continue, ScaleNode f, scale (e_fp E) f c)"
| "process E (RuntimeMovingAverageNode ring head count) c =
     (let ((ring, head, count), c) = moving_average (e_fp E) (ring, head, count) c
      in Some (Continue, RuntimeMovingAverageNode ring head count, c))"
| "process E SumOutputNode c = Some (Continue, SumOutputNode, sum_output (e_fp E) c)"
| "process E MeanNode c = Some (Continue, MeanNode, mean_node (e_fp E) c)"
| "process E MinMaxNode c = Some (Continue, MinMaxNode, minmax_node (e_fp E) c)"
| "process E SumNode c = Some (Continue, SumNode, sum_node (e_fp E) c)"
| "process E CrcNode c = Some (Continue, CrcNode, crc_node (e_fp E) c)"
| "process E (ModbusDecodeNode nms) c =
     (let (r, nms, c) = modbus_decode (e_fp E) nms c in Some (r, ModbusDecodeNode nms, c))"
| "process E (ModbusBitsDecodeNode nms) c =
     (let (nms, c) = modbus_bits_decode (e_fp E) nms c in Some (Continue, ModbusBitsDecodeNode nms, c))"
| "process E JsonParseNode c = (let (r, c) = json_parse_node E c in Some (r, JsonParseNode, c))"
| "process E (MesReportNode line label kind) c =
     Some (Continue, MesReportNode line label kind, mes_report (e_fp E) line label kind c)"
| "process E (MesOrderSourceNode qty) c =
     Some (Continue, MesOrderSourceNode qty, push_tag ''order.qty'' qty c)"
| "process E (HttpOutputNode url verb headers timeout) c =
     Some (Continue, HttpOutputNode url verb headers timeout, http_output E url verb headers timeout c)"
| "process E (ExprRuleNode prog alarm) c =
     map_option (\<lambda>(r, c). (r, ExprRuleNode prog alarm, c)) (expr_rule (e_fp E) prog alarm c)"
| "process E (SwitchNode prog) c =
     map_option (\<lambda>(r, c). (r, SwitchNode prog, c)) (switch_node (e_fp E) prog c)"
| "process E (SetNode prog tag) c =
     map_option (\<lambda>(r, c). (r, SetNode prog tag, c)) (set_node (e_fp E) prog tag c)"
| "process E (LoopStartNode prog counter mx dur) c =
     map_option (\<lambda>(r, c). (r, LoopStartNode prog counter mx dur, c)) (loop_start E prog counter mx dur c)"
| "process E (LoopBackNode counter sp ep) c =
     map_option (\<lambda>(r, c). (r, LoopBackNode counter sp ep, c)) (loop_back E counter sp ep c)"

end
