(* ===== verification/Flow_Exec.thy ===== *)
theory Flow_Exec
  imports Flow_Nodes
begin

text \<open>
  The executor, \<open>core/compiled_flow.hpp\<close>: a flat plan of steps, each naming a node by its index in
  the plan's node vector, walked with an index that a loop step may move back. \<open>exec_loop\<close> is the
  \<open>while\<close> with fuel, \<open>None\<close> when the fuel runs out; \<open>Undefined\<close> marks an evaluation that would leave
  its stack. \<open>exec_weight\<close> bounds the fuel a plan needs when its loop jumps behind every loop start.
\<close>

record Step =
  node :: nat
  required_label :: string
  loop_back_target :: "nat option"

type_synonym CompiledFlow = "Step list"

definition add :: "nat \<Rightarrow> string \<Rightarrow> nat option \<Rightarrow> CompiledFlow \<Rightarrow> CompiledFlow" where
  "add n label target fl = fl @ [\<lparr>node = n, required_label = label, loop_back_target = target\<rparr>]"

datatype 'd exec_result = Done "'d Node list" "'d ProcessingContext" | Undefined

definition skipped :: "Step \<Rightarrow> 'd ProcessingContext \<Rightarrow> bool" where
  "skipped st c \<longleftrightarrow> required_label st \<noteq> [] \<and> required_label st \<noteq> active_branch c"

text \<open>What one pass of the loop body decides: stop with a result, or go on at an index.\<close>

datatype 'd pass = Halt "'d exec_result" | Go nat "'d Node list" "'d ProcessingContext"

definition exec_pass :: "'d env \<Rightarrow> CompiledFlow \<Rightarrow> nat \<Rightarrow> 'd Node list \<Rightarrow> 'd ProcessingContext \<Rightarrow> 'd pass" where
  "exec_pass E fl i ns c = (let st = fl ! i in
     if skipped st c then Go (i + 1) ns c
     else (case process E (ns ! node st) c of
         None \<Rightarrow> Halt Undefined
       | Some (r, n, c) \<Rightarrow>
           (let ns = ns[node st := n] in
            case r of
              Stop \<Rightarrow> Halt (Done ns c)
            | Error \<Rightarrow> Halt (Done ns (c\<lparr>failed := True, failed_step := i\<rparr>))
            | Continue \<Rightarrow>
                (case loop_back_target st of
                   Some target \<Rightarrow> (if loop_continue c then Go target ns (c\<lparr>loop_continue := False\<rparr>)
                                   else Go (i + 1) ns c)
                 | None \<Rightarrow> Go (i + 1) ns c))))"

fun exec_loop :: "'d env \<Rightarrow> nat \<Rightarrow> CompiledFlow \<Rightarrow> nat \<Rightarrow> 'd Node list \<Rightarrow> 'd ProcessingContext \<Rightarrow> 'd exec_result option" where
  "exec_loop E 0 fl i ns c = None"
| "exec_loop E (Suc n) fl i ns c = (if i < length fl
     then (case exec_pass E fl i ns c of
         Halt r \<Rightarrow> Some r
       | Go i ns c \<Rightarrow> exec_loop E n fl i ns c)
     else Some (Done ns c))"

definition execute :: "'d env \<Rightarrow> nat \<Rightarrow> CompiledFlow \<Rightarrow> 'd Node list \<Rightarrow> 'd ProcessingContext \<Rightarrow> 'd exec_result option" where
  "execute E n fl ns c = exec_loop E n fl 0 ns c"

section \<open>What a node may do to the loop state\<close>

fun is_loop_start :: "'d Node \<Rightarrow> bool" where
  "is_loop_start (LoopStartNode _ _ _ _) = True" | "is_loop_start _ = False"

fun loop_budget :: "'d Node \<Rightarrow> nat" where
  "loop_budget (LoopStartNode _ _ mx _) = mx" | "loop_budget _ = 0"

definition flag :: "'d ProcessingContext \<Rightarrow> nat" where
  "flag c = (if loop_continue c then 1 else 0)"

text \<open>Twice the remaining budget plus the pending flag: only a loop start raises it.\<close>

definition loop_fuel :: "'d ProcessingContext \<Rightarrow> nat" where
  "loop_fuel c = 2 * loop_iterations_remaining c + flag c"

lemma loop_fuel_updates [simp]:
  "loop_fuel (push_tag n v c) = loop_fuel c" "loop_fuel (push_output v c) = loop_fuel c"
  "loop_fuel (push_event t v c) = loop_fuel c" "loop_fuel (push_tags ns vs c) = loop_fuel c"
  "loop_fuel (overwrite_or_append n v c) = loop_fuel c"
  "loop_fuel (c\<lparr>active_branch := b\<rparr>) = loop_fuel c"
  "loop_fuel (c\<lparr>mes_reports := m\<rparr>) = loop_fuel c" "loop_fuel (c\<lparr>http_requests := h\<rparr>) = loop_fuel c"
  "loop_fuel (c\<lparr>tags := ts\<rparr>) = loop_fuel c"
  by (simp_all add: loop_fuel_def flag_def push_tag_def push_output_def push_event_def push_tags_def)

lemma loop_fuel_json: "loop_fuel (snd (json_parse_node E c)) = loop_fuel c"
proof -
  have "loop_fuel (foldl (\<lambda>c (key, v). case (if is_number v then get_double (d_of_int (e_fp E)) v else None) of
      Some d \<Rightarrow> push_tag key d c | None \<Rightarrow> c) c ms) = loop_fuel c" for ms :: "(string \<times> 'a json) list"
    by (induction ms arbitrary: c) (auto split: option.splits)
  then show ?thesis by (auto simp: json_parse_node_def split: option.splits)
qed

lemma remaining_time_up:
  "loop_iterations_remaining (snd (time_up E c)) = loop_iterations_remaining c"
  by (simp add: time_up_def steady_now_def split: option.splits)

lemma loop_decide_fuel:
  assumes "loop_decide E wants c = (Continue, c')"
  shows "loop_fuel c' \<le> loop_fuel c \<and> (loop_continue c' \<longrightarrow> loop_fuel c' < loop_fuel c)"
proof -
  define c1 where "c1 = snd (time_up E (c\<lparr>loop_iterations_remaining := loop_iterations_remaining c - 1\<rparr>))"
  have r: "loop_iterations_remaining c1 = loop_iterations_remaining c - 1"
    unfolding c1_def remaining_time_up by simp
  have "c' = c1\<lparr>loop_continue := wants\<rparr>" "\<not> (wants \<and> loop_iterations_remaining c1 = 0)"
    using assms unfolding loop_decide_def Let_def split_beta c1_def by (auto split: if_splits)
  then show ?thesis using r by (auto simp: loop_fuel_def flag_def)
qed

lemma process_loop_back_cases:
  assumes "process E (LoopBackNode counter sp ep) c = Some (Continue, n, c')"
  obtains v wants where "loop_decide E wants (overwrite_or_append counter v c) = (Continue, c')"
  using assms by (auto simp: loop_back_def Let_def split: if_splits option.splits prod.splits)

lemma process_loop_back_fuel:
  assumes "process E (LoopBackNode counter sp ep) c = Some (Continue, n, c')"
  shows "loop_fuel c' \<le> loop_fuel c \<and> (loop_continue c' \<longrightarrow> loop_fuel c' < loop_fuel c)"
  using assms by (rule process_loop_back_cases) (drule loop_decide_fuel, simp)

lemma process_loop_start_fuel:
  assumes "process E (LoopStartNode p t m d) c = Some (Continue, n, c')"
  shows "loop_fuel c' \<le> 2 * m + flag c"
  using assms
  by (auto simp: loop_start_def Let_def split_beta steady_now_def loop_fuel_def flag_def
      split: if_splits option.splits)

lemma process_other_fuel:
  assumes "process E nd c = Some (Continue, n, c')" "\<not> is_loop_start nd"
  shows "loop_fuel c' \<le> loop_fuel c"
proof (cases nd)
  case LoopBackNode
  then show ?thesis using process_loop_back_fuel assms by blast
next
  case JsonParseNode
  then show ?thesis using assms loop_fuel_json [of E c] by (auto simp: split_beta)
qed (use assms in \<open>auto simp: decode_source_def scale_def moving_average_def sum_output_def mean_node_def
    minmax_node_def sum_node_def crc_node_def modbus_decode_def modbus_bits_decode_def mes_report_def
    http_output_def expr_rule_def switch_node_def set_node_def Let_def split_beta
    split: option.splits if_splits\<close>)

section \<open>What a call keeps of a node\<close>

text \<open>The programs a node evaluates.\<close>

fun programs :: "'d Node \<Rightarrow> 'd Program list" where
  "programs (ExprRuleNode p _) = [p]"
| "programs (SwitchNode p) = [p]"
| "programs (SetNode p _) = [p]"
| "programs (LoopStartNode p _ _ _) = [p]"
| "programs (LoopBackNode _ p q) = [p, q]"
| "programs _ = []"

definition kept :: "'d Node \<Rightarrow> bool \<times> nat \<times> 'd Program list" where
  "kept n = (is_loop_start n, loop_budget n, programs n)"

lemma process_kept: "process E nd c = Some (r, n, c') \<Longrightarrow> kept n = kept nd"
  by (cases nd) (auto simp: kept_def split_beta Let_def split: prod.splits)

definition safe_program :: "'d fp \<Rightarrow> 'd Program \<Rightarrow> bool" where
  "safe_program F p \<longleftrightarrow> (ok p \<longrightarrow> (\<exists>e. program_of F p e) \<and> length (names p) \<le> 2 ^ 32)"

lemma safe_evaluate: "safe_program F p \<Longrightarrow> ok p \<Longrightarrow> evaluate F p c \<noteq> None"
  using evaluate_defined unfolding safe_program_def by blast

lemma process_defined:
  assumes "list_all (safe_program (e_fp E)) (programs nd)"
  shows "process E nd c \<noteq> None"
proof -
  have safe: "p \<in> set (programs nd) \<Longrightarrow> ok p \<Longrightarrow> \<exists>v b. evaluate (e_fp E) p c' = Some (v, b)" for p c'
    using assms safe_evaluate [of "e_fp E" p c'] by (fastforce simp: list_all_iff)
  show ?thesis
  proof (cases nd)
    case (LoopBackNode counter sp ep)
    show ?thesis
    proof (cases "ok sp \<and> ok ep")
      case True
      then obtain v b where v: "evaluate (e_fp E) sp c = Some (v, b)"
        using safe [of sp c] LoopBackNode by auto
      have "\<exists>w b'. evaluate (e_fp E) ep c' = Some (w, b')" for c'
        using True safe [of ep c'] LoopBackNode by auto
      then show ?thesis using v LoopBackNode True
        by (auto simp: loop_back_def Let_def split: option.splits)
    qed (auto simp: LoopBackNode loop_back_def)
  next
    case (ExprRuleNode p al)
    then show ?thesis using safe [of p c] by (cases "ok p") (auto simp: expr_rule_def Let_def)
  next
    case (SwitchNode p)
    then show ?thesis using safe [of p c] by (cases "ok p") (auto simp: switch_node_def Let_def)
  next
    case (SetNode p tg)
    then show ?thesis using safe [of p c] by (cases "ok p") (auto simp: set_node_def Let_def)
  next
    case (LoopStartNode p tg m d)
    then show ?thesis using safe [of p c] by (cases "ok p") (auto simp: loop_start_def Let_def split_beta)
  qed (auto simp: split_beta Let_def)
qed

section \<open>The executor returns\<close>

definition well_indexed :: "CompiledFlow \<Rightarrow> 'd Node list \<Rightarrow> bool" where
  "well_indexed fl ns \<longleftrightarrow> (\<forall>st \<in> set fl. node st < length ns)"

text \<open>Every jump lands behind every loop start of the plan.\<close>

definition jumps_behind_starts :: "CompiledFlow \<Rightarrow> 'd Node list \<Rightarrow> bool" where
  "jumps_behind_starts fl ns \<longleftrightarrow> (\<forall>st \<in> set fl. case loop_back_target st of None \<Rightarrow> True
     | Some target \<Rightarrow> target < length fl \<and>
         (\<forall>k < length fl. is_loop_start (ns ! node (fl ! k)) \<longrightarrow> k < target))"

definition budget_from :: "CompiledFlow \<Rightarrow> 'd Node list \<Rightarrow> nat \<Rightarrow> nat" where
  "budget_from fl ns i = sum_list (map (\<lambda>st. 2 * loop_budget (ns ! node st)) (drop i fl))"

definition exec_weight :: "CompiledFlow \<Rightarrow> 'd Node list \<Rightarrow> nat \<Rightarrow> 'd ProcessingContext \<Rightarrow> nat" where
  "exec_weight fl ns i c = budget_from fl ns i + loop_fuel c"

lemma budget_from_step:
  "i < length fl \<Longrightarrow> budget_from fl ns i = 2 * loop_budget (ns ! node (fl ! i)) + budget_from fl ns (Suc i)"
  by (simp add: budget_from_def Cons_nth_drop_Suc [symmetric])

lemma budget_no_start: "\<not> is_loop_start n \<Longrightarrow> loop_budget n = 0"
  by (cases n) auto

lemma budget_behind:
  assumes "\<forall>k < length fl. is_loop_start (ns ! node (fl ! k)) \<longrightarrow> k < target"
  shows "budget_from fl ns target = 0"
proof -
  have "2 * loop_budget (ns ! node st) = 0" if "st \<in> set (drop target fl)" for st
  proof -
    from that obtain m where m: "m < length fl - target" "fl ! (target + m) = st"
      by (auto simp: in_set_conv_nth)
    then have "\<not> is_loop_start (ns ! node st)" using assms [rule_format, of "target + m"] by fastforce
    then show ?thesis by (simp add: budget_no_start)
  qed
  then show ?thesis unfolding budget_from_def by (simp add: sum_list_eq_0_iff)
qed

lemma kept_update:
  assumes "kept n = kept (ns ! k)"
  shows "map kept (ns[k := n]) = map kept ns"
  using assms by (cases "k < length ns") (simp_all add: map_update list_update_same_conv list_update_beyond)

lemma kept_nth: "map kept ns' = map kept ns \<Longrightarrow> j < length ns \<Longrightarrow> kept (ns' ! j) = kept (ns ! j)"
  by (metis length_map nth_map)

lemma kept_budget:
  assumes "map kept ns' = map kept ns" "well_indexed fl ns"
  shows "budget_from fl ns' i = budget_from fl ns i" "well_indexed fl ns'"
    "jumps_behind_starts fl ns' = jumps_behind_starts fl ns"
proof -
  have len: "length ns' = length ns" using assms(1) by (metis length_map)
  have nth: "st \<in> set fl \<Longrightarrow> kept (ns' ! node st) = kept (ns ! node st)" for st
    using kept_nth [OF assms(1)] assms(2) by (simp add: well_indexed_def)
  then have "st \<in> set (drop i fl) \<Longrightarrow> loop_budget (ns' ! node st) = loop_budget (ns ! node st)" for st
    using in_set_dropD [of st i fl] by (simp add: kept_def)
  then show "budget_from fl ns' i = budget_from fl ns i"
    unfolding budget_from_def by (auto intro!: arg_cong [of _ _ sum_list])
  show "well_indexed fl ns'" using assms(2) len by (simp add: well_indexed_def)
  have "k < length fl \<Longrightarrow> is_loop_start (ns' ! node (fl ! k)) = is_loop_start (ns ! node (fl ! k))" for k
    using nth [of "fl ! k"] by (simp add: kept_def)
  then show "jumps_behind_starts fl ns' = jumps_behind_starts fl ns"
    unfolding jumps_behind_starts_def by (auto split: option.splits)
qed

lemma exec_pass_go:
  assumes go: "exec_pass E fl i ns c = Go i' ns' c'" and i: "i < length fl"
    and wi: "well_indexed fl ns" and jb: "jumps_behind_starts fl ns"
  shows "map kept ns' = map kept ns \<and>
    (i' = Suc i \<and> exec_weight fl ns i' c' \<le> exec_weight fl ns i c \<or>
     i' < length fl \<and> exec_weight fl ns i' c' < exec_weight fl ns i c)"
proof (cases "skipped (fl ! i) c")
  case True
  then show ?thesis
    using go budget_from_step [OF i, of ns] by (simp add: exec_pass_def exec_weight_def)
next
  case False
  let ?st = "fl ! i" and ?nd = "ns ! node (fl ! i)"
  obtain r n c1 where p: "process E ?nd c = Some (r, n, c1)"
    using go False by (cases "process E ?nd c") (auto simp: exec_pass_def)
  then have r: "r = Continue" using go False by (cases r) (auto simp: exec_pass_def Let_def)
  have ns': "ns' = ns[node ?st := n]"
    using go False p r by (auto simp: exec_pass_def Let_def split: option.splits if_splits)
  have kept: "map kept ns' = map kept ns"
    unfolding ns' by (rule kept_update [OF process_kept [OF p]])
  have w: "budget_from fl ns (Suc i) + loop_fuel c1 \<le> exec_weight fl ns i c"
  proof (cases "is_loop_start ?nd")
    case True
    then obtain q t m d where nd: "?nd = LoopStartNode q t m d" by (cases ?nd) auto
    have "loop_fuel c1 \<le> 2 * m + flag c"
      using process_loop_start_fuel p r unfolding nd by blast
    then show ?thesis
      using budget_from_step [OF i, of ns] nd by (simp add: exec_weight_def loop_fuel_def)
  next
    case False
    then show ?thesis
      using process_other_fuel [of E ?nd c n c1] p r budget_from_step [OF i, of ns]
      by (simp add: exec_weight_def)
  qed
  consider (walk) "i' = Suc i" "c' = c1"
    | (jump) target where "loop_back_target ?st = Some target" "loop_continue c1" "i' = target"
        "c' = c1\<lparr>loop_continue := False\<rparr>"
    using go False p r by (auto simp: exec_pass_def Let_def split: option.splits if_splits)
  then show ?thesis
  proof cases
    case walk
    then show ?thesis using kept w by (simp add: exec_weight_def)
  next
    case jump
    have "?st \<in> set fl" using i by simp
    with jb jump(1) have tgt: "target < length fl"
      and behind: "\<forall>k < length fl. is_loop_start (ns ! node (fl ! k)) \<longrightarrow> k < target"
      unfolding jumps_behind_starts_def by (auto split: option.splits)
    have "loop_fuel c' < loop_fuel c1" using jump by (simp add: loop_fuel_def flag_def)
    then show ?thesis
      using kept w tgt budget_behind [OF behind] jump(3) by (simp add: exec_weight_def)
  qed
qed

lemma exec_loop_returns:
  assumes "well_indexed fl ns" "jumps_behind_starts fl ns"
    "exec_weight fl ns i c * Suc (length fl) + (length fl - i) < n"
  shows "exec_loop E n fl i ns c \<noteq> None"
  using assms
proof (induction n arbitrary: i ns c)
  case (Suc n)
  show ?case
  proof (cases "i < length fl")
    case i: True
    show ?thesis
    proof (cases "exec_pass E fl i ns c")
      case (Go i' ns' c')
      note g = exec_pass_go [OF Go i Suc.prems(1,2)]
      note k = kept_budget [OF conjunct1 [OF g] Suc.prems(1)]
      have "exec_weight fl ns' i' c' * Suc (length fl) + (length fl - i') < n"
      proof (cases "i' = Suc i \<and> exec_weight fl ns i' c' \<le> exec_weight fl ns i c")
        case True
        then have "exec_weight fl ns i' c' * Suc (length fl) \<le> exec_weight fl ns i c * Suc (length fl)"
          by (intro mult_le_mono1) (rule conjunct2)
        then show ?thesis using True i Suc.prems(3) k(1) by (simp add: exec_weight_def)
      next
        case False
        then have lt: "Suc (exec_weight fl ns i' c') \<le> exec_weight fl ns i c" using g by auto
        have "Suc (exec_weight fl ns i' c') * Suc (length fl) \<le> exec_weight fl ns i c * Suc (length fl)"
          using lt by (rule mult_le_mono1)
        then show ?thesis using i Suc.prems(3) k(1) by (simp add: exec_weight_def)
      qed
      then show ?thesis using Suc.IH [OF k(2)] k(3) Suc.prems(2) i Go by simp
    qed (use i in simp)
  qed simp
qed simp

lemma exec_loop_defined:
  assumes "list_all (\<lambda>n. list_all (safe_program (e_fp E)) (programs n)) ns" "well_indexed fl ns"
  shows "exec_loop E n fl i ns c \<noteq> Some Undefined"
  using assms
proof (induction n arbitrary: i ns c)
  case (Suc n)
  show ?case
  proof (cases "i < length fl")
    case i: True
    have nd: "node (fl ! i) < length ns" using Suc.prems(2) i by (simp add: well_indexed_def)
    then have "list_all (safe_program (e_fp E)) (programs (ns ! node (fl ! i)))"
      using Suc.prems(1) by (simp add: list_all_length)
    then obtain r n' c' where p: "process E (ns ! node (fl ! i)) c = Some (r, n', c')"
      using process_defined by (metis not_Some_eq prod_cases3)
    have "programs n' = programs (ns ! node (fl ! i))" using process_kept [OF p] by (simp add: kept_def)
    then have "list_all (\<lambda>n. list_all (safe_program (e_fp E)) (programs n)) (ns[node (fl ! i) := n'])"
      using Suc.prems(1) nd by (auto simp: list_all_length nth_list_update)
    then show ?thesis
      using Suc p i by (auto simp: exec_pass_def well_indexed_def Let_def split: option.splits if_splits NodeResult.splits)
  qed simp
qed simp

end
