(* ===== verification/Application.thy ===== *)
theory Application
  imports Json
begin

text \<open>
  The declarative application and its loader, \<open>schema/application.hpp\<close>. The JSON library's parser is
  outside: \<open>load_application\<close> takes its result, \<open>None\<close> when the text does not parse, and returns the
  application or the message.
\<close>

section \<open>The schema\<close>

record 'd NodeSpec =
  ns_id :: string
  ns_type_id :: string
  ns_config :: "'d json"

record EdgeSpec =
  es_from :: string
  es_from_port :: string
  es_to :: string

record 'd DriverSpec =
  ds_type_id :: string
  ds_config :: "'d json"

record ActorSpec =
  as_kind :: string
  as_key :: u64

record PersistenceSpec =
  ps_model :: string
  ps_mode :: string

record 'd Application =
  app_name :: string
  version :: string
  actor :: ActorSpec
  flow :: "'d NodeSpec list"
  edges :: "EdgeSpec list"
  driver :: "'d DriverSpec option"
  persistence :: "PersistenceSpec option"

section \<open>The loader\<close>

text \<open>A word between single quotes, as the messages have it.\<close>

definition ticks :: "string \<Rightarrow> string" where
  "ticks s = CHR 0x27 # s @ [CHR 0x27]"

text \<open>\<open>present j key\<close>: the optional block is given and not null.\<close>

definition present :: "'d json \<Rightarrow> string \<Rightarrow> bool" where
  "present j key \<longleftrightarrow> contains j key \<and> \<not> is_null (at j key)"

definition has_string :: "'d json \<Rightarrow> string \<Rightarrow> bool" where
  "has_string j key \<longleftrightarrow> contains j key \<and> is_string (at j key)"

definition string_at :: "'d json \<Rightarrow> string \<Rightarrow> string" where
  "string_at j key = (case get_string (at j key) of Some s \<Rightarrow> s | None \<Rightarrow> [])"

definition load_actor :: "'d json \<Rightarrow> string + ActorSpec" where
  "load_actor j = (let dflt = \<lparr>as_kind = ''edge'', as_key = 0\<rparr> in
     if \<not> present j ''actor'' then Inr dflt
     else (let a = at j ''actor'' in
       if \<not> is_object a then Inl ''Application.actor must be an object''
       else if contains a ''kind'' \<and> \<not> is_string (at a ''kind'') then Inl ''actor.kind must be a string''
       else (let s = (if contains a ''kind'' then dflt\<lparr>as_kind := string_at a ''kind''\<rparr> else dflt) in
         if contains a ''key'' then
           (case at a ''key'' of
              JUInt u \<Rightarrow> Inr (s\<lparr>as_key := u\<rparr>)
            | JInt i \<Rightarrow> Inr (s\<lparr>as_key := i\<rparr>)
            | _ \<Rightarrow> Inl ''actor.key must be an integer'')
         else Inr s)))"

definition load_node :: "nat \<Rightarrow> 'd json \<Rightarrow> string + 'd NodeSpec" where
  "load_node node_index n = (if \<not> (is_object n \<and> has_string n ''type_id'')
     then Inl (''each flow node needs a string '' @ ticks ''type_id'')
     else if present n ''id'' \<and> \<not> is_string (at n ''id'') then Inl ''node.id must be a string''
     else if present n ''config'' \<and> \<not> is_object (at n ''config'') then Inl ''node.config must be an object''
     else Inr \<lparr>ns_id = (if present n ''id'' then string_at n ''id'' else ''n'' @ to_string node_index),
               ns_type_id = string_at n ''type_id'',
               ns_config = (if present n ''config'' then at n ''config'' else JObject [])\<rparr>)"

fun load_nodes :: "nat \<Rightarrow> 'd json list \<Rightarrow> string + 'd NodeSpec list" where
  "load_nodes i [] = Inr []"
| "load_nodes i (n # ns) = (case load_node i n of
       Inl m \<Rightarrow> Inl m
     | Inr spec \<Rightarrow> map_sum id ((#) spec) (load_nodes (Suc i) ns))"

definition load_edge :: "'d json \<Rightarrow> string + EdgeSpec" where
  "load_edge e = (if \<not> (is_object e \<and> has_string e ''from'' \<and> has_string e ''to'')
     then Inl (''each edge needs string '' @ ticks ''from'' @ '' and '' @ ticks ''to'')
     else if present e ''from_port'' \<and> \<not> is_string (at e ''from_port'') then Inl ''edge.from_port must be a string''
     else Inr \<lparr>es_from = string_at e ''from'',
               es_from_port = (if present e ''from_port'' then string_at e ''from_port'' else []),
               es_to = string_at e ''to''\<rparr>)"

fun load_edges :: "'d json list \<Rightarrow> string + EdgeSpec list" where
  "load_edges [] = Inr []"
| "load_edges (e # es) = (case load_edge e of
       Inl m \<Rightarrow> Inl m
     | Inr spec \<Rightarrow> map_sum id ((#) spec) (load_edges es))"

definition load_driver :: "'d json \<Rightarrow> string + 'd DriverSpec option" where
  "load_driver j = (if \<not> present j ''driver'' then Inr None
     else (let d = at j ''driver'' in
       if \<not> (is_object d \<and> has_string d ''type_id'') then Inl (''driver needs a string '' @ ticks ''type_id'')
       else if present d ''config'' \<and> \<not> is_object (at d ''config'') then Inl ''driver.config must be an object''
       else Inr (Some \<lparr>ds_type_id = string_at d ''type_id'',
                       ds_config = (if present d ''config'' then at d ''config'' else JObject [])\<rparr>)))"

definition load_persistence :: "'d json \<Rightarrow> string + PersistenceSpec option" where
  "load_persistence j = (if \<not> present j ''persistence'' then Inr None
     else (let p = at j ''persistence'' in
       if \<not> is_object p then Inl ''Application.persistence must be an object''
       else Inr (Some \<lparr>ps_model = (if has_string p ''model'' then string_at p ''model'' else []),
                       ps_mode = (if has_string p ''mode'' then string_at p ''mode'' else [])\<rparr>)))"

definition load_application :: "'d json option \<Rightarrow> string + 'd Application" where
  "load_application parsed = (case parsed of
       None \<Rightarrow> Inl ''invalid JSON: parse error''
     | Some j \<Rightarrow>
       if \<not> is_object j then Inl ''Application must be a JSON object''
       else if \<not> has_string j ''name'' then Inl ''Application.name (string) is required''
       else if \<not> has_string j ''version'' then Inl ''Application.version (string) is required''
       else (case load_actor j of
           Inl m \<Rightarrow> Inl m
         | Inr a \<Rightarrow>
           if \<not> (contains j ''flow'' \<and> is_array (at j ''flow'') \<and> elements (at j ''flow'') \<noteq> [])
           then Inl ''Application.flow (non-empty array) is required''
           else (case load_nodes 0 (elements (at j ''flow'')) of
               Inl m \<Rightarrow> Inl m
             | Inr ns \<Rightarrow>
               (case (if present j ''edges'' then
                        (if \<not> is_array (at j ''edges'') then Inl ''Application.edges must be an array''
                         else load_edges (elements (at j ''edges'')))
                      else Inr []) of
                  Inl m \<Rightarrow> Inl m
                | Inr es \<Rightarrow>
                  (case load_driver j of
                     Inl m \<Rightarrow> Inl m
                   | Inr d \<Rightarrow>
                     map_sum id (\<lambda>p. \<lparr>app_name = string_at j ''name'', version = string_at j ''version'',
                       actor = a, flow = ns, edges = es, driver = d, persistence = p\<rparr>)
                       (load_persistence j))))))"

section \<open>The loader reads back a printed application\<close>

definition node_json :: "'d NodeSpec \<Rightarrow> 'd json" where
  "node_json n = JObject [(''id'', JString (ns_id n)), (''type_id'', JString (ns_type_id n)), (''config'', ns_config n)]"

definition edge_json :: "EdgeSpec \<Rightarrow> 'd json" where
  "edge_json e = JObject [(''from'', JString (es_from e)), (''from_port'', JString (es_from_port e)), (''to'', JString (es_to e))]"

definition driver_json :: "'d DriverSpec \<Rightarrow> 'd json" where
  "driver_json d = JObject [(''type_id'', JString (ds_type_id d)), (''config'', ds_config d)]"

definition persistence_json :: "PersistenceSpec \<Rightarrow> 'd json" where
  "persistence_json p = JObject [(''model'', JString (ps_model p)), (''mode'', JString (ps_mode p))]"

fun opt_json :: "('a \<Rightarrow> 'd json) \<Rightarrow> 'a option \<Rightarrow> 'd json" where
  "opt_json f None = JNull" | "opt_json f (Some a) = f a"

definition application_json :: "'d Application \<Rightarrow> 'd json" where
  "application_json app = JObject
     [(''name'', JString (app_name app)), (''version'', JString (version app)),
      (''actor'', JObject [(''kind'', JString (as_kind (actor app))), (''key'', JUInt (as_key (actor app)))]),
      (''flow'', JArray (map node_json (flow app))),
      (''edges'', JArray (map edge_json (edges app))),
      (''driver'', opt_json driver_json (driver app)),
      (''persistence'', opt_json persistence_json (persistence app))]"

lemmas json_read = present_def has_string_def string_at_def contains_def at_def

lemma load_node_json: "is_object (ns_config n) \<Longrightarrow> load_node i (node_json n) = Inr n"
  by (cases "ns_config n") (auto simp: load_node_def node_json_def json_read)

lemma load_nodes_json:
  "\<forall>n \<in> set ns. is_object (ns_config n) \<Longrightarrow> load_nodes i (map node_json ns) = Inr ns"
  by (induction ns arbitrary: i) (auto simp: load_node_json)

lemma load_edge_json: "load_edge (edge_json e) = Inr e"
  by (simp add: load_edge_def edge_json_def json_read)

lemma load_edges_json: "load_edges (map edge_json es) = Inr es"
  by (induction es) (auto simp: load_edge_json)

text \<open>
  The loader is the inverse of the printed form. An application with at least one node and
  object configurations, written as JSON with every block, is loaded back as itself: ids,
  configurations, edges with their ports, actor key, driver and persistence declaration.
\<close>

theorem load_application_roundtrip:
  assumes "flow app \<noteq> []" "\<forall>n \<in> set (flow app). is_object (ns_config n)"
    "case driver app of None \<Rightarrow> True | Some d \<Rightarrow> is_object (ds_config d)"
  shows "load_application (Some (application_json app)) = Inr app"
proof -
  let ?j = "application_json app"
  have "load_actor ?j = Inr (actor app)"
    by (simp add: load_actor_def application_json_def json_read)
  moreover have "load_driver ?j = Inr (driver app)"
    using assms(3)
    by (cases "driver app"; cases "ds_config (the (driver app))")
       (auto simp: load_driver_def application_json_def json_read driver_json_def)
  moreover have "load_persistence ?j = Inr (persistence app)"
    by (cases "persistence app") (auto simp: load_persistence_def application_json_def json_read persistence_json_def)
  moreover have "contains ?j ''flow''" "at ?j ''flow'' = JArray (map node_json (flow app))"
    "present ?j ''edges''" "at ?j ''edges'' = JArray (map edge_json (edges app))"
    "has_string ?j ''name''" "string_at ?j ''name'' = app_name app"
    "has_string ?j ''version''" "string_at ?j ''version'' = version app" "is_object ?j"
    by (simp_all add: application_json_def json_read)
  ultimately show ?thesis
    using assms(1) load_nodes_json [OF assms(2)]
    by (simp add: load_application_def load_edges_json)
qed

definition sample_app :: "int Application" where
  "sample_app = \<lparr>app_name = ''a'', version = ''1'', actor = \<lparr>as_kind = ''edge'', as_key = 7\<rparr>,
     flow = [\<lparr>ns_id = ''s'', ns_type_id = ''aero.source.decode'', ns_config = JObject []\<rparr>],
     edges = [], driver = None, persistence = None\<rparr>"

theorem load_application_roundtrip_witness:
  "load_application (Some (application_json sample_app)) = Inr sample_app"
  by (rule load_application_roundtrip) (simp_all add: sample_app_def)

text \<open>
  What the loader accepts: an accepted application has a flow of at least one node, every node
  carries an id (the given one, or \<open>n\<close> with its position) and an object configuration, and the
  number and order of the nodes are those of the JSON array.
\<close>

theorem load_application_shape:
  "case load_application parsed of
     Inl _ \<Rightarrow> True
   | Inr app \<Rightarrow> flow app \<noteq> [] \<and>
       (\<exists>j. parsed = Some j \<and> load_nodes 0 (elements (at j ''flow'')) = Inr (flow app) \<and>
          length (flow app) = length (elements (at j ''flow''))) \<and>
       list_all (\<lambda>n. is_object (ns_config n)) (flow app)"
proof -
  have shape: "load_nodes i js = Inr ns \<Longrightarrow> length ns = length js \<and> list_all (\<lambda>n. is_object (ns_config n)) ns"
    for i ns and js :: "'a json list"
  proof (induction js arbitrary: i ns)
    case (Cons n js)
    then show ?case
      by (auto simp: load_node_def map_sum_def split: sum.splits if_splits)
  qed simp
  show ?thesis
  proof (cases "load_application parsed")
    case (Inr app)
    then obtain j where j: "parsed = Some j" by (cases parsed) (auto simp: load_application_def)
    with Inr have "load_nodes 0 (elements (at j ''flow'')) = Inr (flow app)" "elements (at j ''flow'') \<noteq> []"
      by (auto simp: load_application_def map_sum_def split: if_splits sum.splits)
    then show ?thesis using Inr j shape [of 0 "elements (at j ''flow'')" "flow app"] by auto
  qed simp
qed

end
