(* ===== verification/Flow_Compiler.thy ===== *)
theory Flow_Compiler
  imports Flow_Exec Application
begin

text \<open>
  The flow compiler, \<open>runtime/flow_compiler.hpp\<close>, the registry of \<open>core/registry.hpp\<close> and the
  built-in node factories of \<open>runtime/runtime.hpp\<close>. A compilation is accepted with a plan, rejected
  with an error value, or ends in the JSON library's type exception, which no code here catches.
\<close>

section \<open>Outcomes\<close>

datatype FlowError = MissingField string string | WrongType string string | TooSmall string string
  | InvalidExpr string string "ExprError option"
  | EmptyFlow | UnknownTypeId string | FactoryReturnedNull string | NoSource | NoOutput
  | TerminalNotLast string nat | TerminalHasEdge string string
  | LoopNeedsGraph string | TagCollision string string string
  | DuplicateId string | UnknownEndpoint string | SecondLoopEdge | UnsupportedPort string
  | SecondBranchSource string string | NotOneRoot nat | RootNotSource string | HasCycle
  | ConflictingLabels string | LoopStartInBranch string

datatype 'a outcome = Throws | Rejected FlowError | Accepted 'a

section \<open>The registry\<close>

text \<open>A factory: \<open>None\<close> when it throws, a null node when it fails.\<close>

type_synonym 'd factory = "'d json \<Rightarrow> 'd Node option option"

type_synonym 'd NodeRegistry = "string \<rightharpoonup> NodeDescriptor \<times> 'd factory"

definition register_type :: "string \<Rightarrow> NodeDescriptor \<Rightarrow> 'd factory \<Rightarrow> 'd NodeRegistry \<Rightarrow> 'd NodeRegistry" where
  "register_type tid d f reg = reg(tid \<mapsto> (d, f))"

definition reg_contains :: "'d NodeRegistry \<Rightarrow> string \<Rightarrow> bool" where
  "reg_contains reg tid \<longleftrightarrow> reg tid \<noteq> None"

definition create :: "'d NodeRegistry \<Rightarrow> string \<Rightarrow> 'd json \<Rightarrow> 'd Node option outcome" where
  "create reg tid cfg = (case reg tid of
       None \<Rightarrow> Rejected (UnknownTypeId tid)
     | Some (_, f) \<Rightarrow> (case f cfg of None \<Rightarrow> Throws | Some n \<Rightarrow> Accepted n))"

section \<open>The built-in factories\<close>

definition plain :: "'d Node \<Rightarrow> 'd factory" where
  "plain n = (\<lambda>_. Some (Some n))"

definition scale_factory :: "'d fp \<Rightarrow> 'd factory" where
  "scale_factory F c = map_option (\<lambda>f. Some (ScaleNode f)) (value_or (get_double (d_of_int F)) c ''factor'' (d_one F))"

definition moving_average_factory :: "'d fp \<Rightarrow> 'd factory" where
  "moving_average_factory F c = map_option (\<lambda>w. Some (new_RuntimeMovingAverageNode F (unat w)))
     (value_or (\<lambda>j. get_word j (d_to_word F)) c ''window'' 1)"

definition expr_rule_factory :: "'d fp \<Rightarrow> 'd factory" where
  "expr_rule_factory F c = (case value_string c ''expr'' [] of
       None \<Rightarrow> None
     | Some x \<Rightarrow> map_option (\<lambda>al. Some (ExprRuleNode (compile F x) al)) (value_string c ''alarm'' ''AlarmRaised''))"

definition mes_report_factory :: "'d factory" where
  "mes_report_factory c = (case value_string c ''kind'' ''production'' of
       None \<Rightarrow> None
     | Some kind \<Rightarrow> (case value_string c ''line'' ''line-1'' of
         None \<Rightarrow> None
       | Some line \<Rightarrow> map_option (\<lambda>label. Some (MesReportNode line label
           (if kind = ''alarm'' then Alarm else if kind = ''tag_sample'' then TagSample else Production)))
           (value_string c ''label'' ''produced'')))"

definition mes_order_factory :: "'d fp \<Rightarrow> 'd factory" where
  "mes_order_factory F c = map_option (\<lambda>q. Some (MesOrderSourceNode q))
     (value_or (get_double (d_of_int F)) c ''order_qty'' (d_zero F))"

definition switch_factory :: "'d fp \<Rightarrow> 'd factory" where
  "switch_factory F c = map_option (\<lambda>x. Some (SwitchNode (compile F x))) (value_string c ''expr'' [])"

definition set_factory :: "'d fp \<Rightarrow> 'd factory" where
  "set_factory F c = (case value_string c ''expr'' [] of
       None \<Rightarrow> None
     | Some x \<Rightarrow> map_option (\<lambda>tag. Some (SetNode (compile F x) tag)) (value_string c ''tag'' []))"

text \<open>\<open>c.value("max_iterations", 0)\<close> is an \<open>int\<close>: 32 bits, then widened with its sign to \<open>size_t\<close>.\<close>

definition loop_start_factory :: "'d fp \<Rightarrow> 'd factory" where
  "loop_start_factory F c = (case value_string c ''start_expr'' [] of
       None \<Rightarrow> None
     | Some x \<Rightarrow> (case value_string c ''counter_tag'' [] of
         None \<Rightarrow> None
       | Some tag \<Rightarrow> (case value_or (\<lambda>j. get_int j (d_to_word F)) c ''max_iterations'' 0 of
           None \<Rightarrow> None
         | Some m \<Rightarrow> map_option (\<lambda>d. Some (LoopStartNode (compile F x) tag
               (unat (scast (m :: 32 word) :: u64)) (sint (d :: 32 word))))
             (value_or (\<lambda>j. get_int j (d_to_word F)) c ''max_duration_ms'' 0))))"

definition loop_back_factory :: "'d fp \<Rightarrow> 'd factory" where
  "loop_back_factory F c = (case value_string c ''step_expr'' ''1'' of
       None \<Rightarrow> None
     | Some st \<Rightarrow> (case value_string c ''end_expr'' [] of
         None \<Rightarrow> None
       | Some en \<Rightarrow> map_option (\<lambda>tag. Some (LoopBackNode tag (compile F st) (compile F en)))
           (value_string c ''counter_tag'' [])))"

definition http_factory :: "'d fp \<Rightarrow> ('d json \<Rightarrow> string) \<Rightarrow> 'd factory" where
  "http_factory F dump c = (case value_string c ''url'' [] of
       None \<Rightarrow> None
     | Some url \<Rightarrow> (case value_string c ''method'' ''POST'' of
         None \<Rightarrow> None
       | Some verb \<Rightarrow> map_option (\<lambda>t. Some (HttpOutputNode url verb
             (if contains c ''headers'' \<and> is_object (at c ''headers'') then dump (at c ''headers'') else ''{}'')
             (sint (t :: 32 word))))
           (value_or (\<lambda>j. get_int j (d_to_word F)) c ''timeout_ms'' 2000)))"

definition register_builtins :: "'d fp \<Rightarrow> ('d json \<Rightarrow> string) \<Rightarrow> 'd NodeRegistry \<Rightarrow> 'd NodeRegistry" where
  "register_builtins F dump reg = foldl (\<lambda>reg (d, f). register_type (nd_type_id d) d f reg) reg
     [(desc Source ''aero.source.decode'', plain DecodeSourceNode),
      (desc Transform ''aero.transform.scale'', scale_factory F),
      (desc Transform ''aero.transform.moving_average'', moving_average_factory F),
      ((desc Output ''aero.output.sum'')\<lparr>terminal := True\<rparr>, plain SumOutputNode),
      (desc Rule ''aero.rule.expr'', expr_rule_factory F),
      (desc Transform ''aero.transform.mean'', plain MeanNode),
      (desc Transform ''aero.transform.minmax'', plain MinMaxNode),
      (desc Transform ''aero.transform.sum'', plain SumNode),
      (desc Transform ''aero.transform.crc'', plain CrcNode),
      (desc Source ''aero.source.modbus'', plain (ModbusDecodeNode [])),
      (desc Source ''aero.source.modbus_bits'', plain (ModbusBitsDecodeNode [])),
      (desc Source ''aero.source.json'', plain JsonParseNode),
      (desc Output ''aero.output.mes'', mes_report_factory),
      (desc Source ''aero.source.mes_order'', mes_order_factory F),
      (desc Rule ''aero.flow.switch'', switch_factory F),
      (desc Transform ''aero.transform.set'', set_factory F),
      (desc Rule ''aero.flow.loop_start'', loop_start_factory F),
      (desc Rule ''aero.flow.loop_back'', loop_back_factory F),
      (desc Output ''aero.output.http'', http_factory F dump)]"

section \<open>Configuration checks\<close>

definition need_string :: "string \<Rightarrow> string \<Rightarrow> 'd json \<Rightarrow> FlowError option" where
  "need_string tid key cfg = (if has_string cfg key then None else Some (MissingField tid key))"

definition need_name :: "string \<Rightarrow> string \<Rightarrow> 'd json \<Rightarrow> FlowError option" where
  "need_name tid key cfg = (if has_string cfg key \<and> string_at cfg key \<noteq> [] then None else Some (MissingField tid key))"

definition need_expr :: "'d fp \<Rightarrow> string \<Rightarrow> string \<Rightarrow> string \<Rightarrow> FlowError option" where
  "need_expr F tid key x = (let prog = compile F x in
     if ok prog then None else Some (InvalidExpr tid key (prog_error prog)))"

text \<open>An integer of at least one, read as \<open>long long\<close>.\<close>

definition as_long_long :: "'d json \<Rightarrow> int" where
  "as_long_long j = (case j of JUInt u \<Rightarrow> sint u | JInt i \<Rightarrow> sint i | _ \<Rightarrow> 0)"

definition need_positive :: "string \<Rightarrow> string \<Rightarrow> 'd json \<Rightarrow> FlowError option" where
  "need_positive tid key cfg =
     (if \<not> contains cfg key \<or> \<not> is_number_integer (at cfg key) then Some (MissingField tid key)
      else if as_long_long (at cfg key) < 1 then Some (TooSmall tid key) else None)"

fun first_error :: "FlowError option list \<Rightarrow> FlowError option" where
  "first_error [] = None"
| "first_error (Some e # es) = Some e"
| "first_error (None # es) = first_error es"

definition validate_node_config :: "'d fp \<Rightarrow> string \<Rightarrow> 'd json \<Rightarrow> FlowError option" where
  "validate_node_config F tid cfg =
    (if tid = ''aero.transform.scale'' then
       (if \<not> contains cfg ''factor'' then Some (MissingField tid ''factor'')
        else if \<not> is_number (at cfg ''factor'') then Some (WrongType tid ''factor'') else None)
     else if tid = ''aero.transform.moving_average'' then
       (if \<not> contains cfg ''window'' then Some (MissingField tid ''window'')
        else if \<not> is_number_integer (at cfg ''window'') then Some (WrongType tid ''window'')
        else if as_long_long (at cfg ''window'') < 1 then Some (TooSmall tid ''window'') else None)
     else if tid = ''aero.rule.expr'' \<or> tid = ''aero.flow.switch'' then
       first_error [need_string tid ''expr'' cfg, need_expr F tid ''expr'' (string_at cfg ''expr'')]
     else if tid = ''aero.transform.set'' then
       first_error [need_name tid ''tag'' cfg, need_string tid ''expr'' cfg,
                    need_expr F tid ''expr'' (string_at cfg ''expr'')]
     else if tid = ''aero.flow.loop_start'' then
       first_error [need_name tid ''counter_tag'' cfg, need_string tid ''start_expr'' cfg,
                    need_expr F tid ''start_expr'' (string_at cfg ''start_expr''),
                    need_positive tid ''max_iterations'' cfg, need_positive tid ''max_duration_ms'' cfg]
     else if tid = ''aero.flow.loop_back'' then
       first_error [need_name tid ''counter_tag'' cfg,
                    (if contains cfg ''step_expr'' \<and> \<not> is_string (at cfg ''step_expr'')
                     then Some (WrongType tid ''step_expr'') else None),
                    need_expr F tid ''step_expr'' (if contains cfg ''step_expr'' then string_at cfg ''step_expr'' else ''1''),
                    need_string tid ''end_expr'' cfg,
                    need_expr F tid ''end_expr'' (string_at cfg ''end_expr'')]
     else None)"

section \<open>Tag writers\<close>

definition static_tag_write :: "string \<Rightarrow> 'd json \<Rightarrow> string option" where
  "static_tag_write tid cfg =
     (if tid = ''aero.source.decode'' then Some ''raw''
      else if tid = ''aero.transform.crc'' then Some ''crc16''
      else if tid = ''aero.source.mes_order'' then Some ''order.qty''
      else if tid = ''aero.transform.set'' \<and> has_string cfg ''tag'' then Some (string_at cfg ''tag'')
      else None)"

definition writer_at :: "'d Application \<Rightarrow> nat \<Rightarrow> string option" where
  "writer_at app i = static_tag_write (ns_type_id (flow app ! i)) (ns_config (flow app ! i))"

definition label_at :: "string list \<Rightarrow> nat \<Rightarrow> string" where
  "label_at labels i = (if i < length labels then labels ! i else [])"

definition mutually_exclusive :: "string \<Rightarrow> string \<Rightarrow> bool" where
  "mutually_exclusive a b \<longleftrightarrow> a \<noteq> [] \<and> b \<noteq> [] \<and> a \<noteq> b"

text \<open>The writers are grouped by tag in a hash map; which of several collisions is reported depends
  on its order, so the pair of smallest indices is taken.\<close>

definition collides :: "'d Application \<Rightarrow> string list \<Rightarrow> nat \<times> nat \<Rightarrow> bool" where
  "collides app labels = (\<lambda>(a, b). writer_at app a \<noteq> None \<and> writer_at app a = writer_at app b \<and>
     \<not> mutually_exclusive (label_at labels a) (label_at labels b))"

definition index_pairs :: "nat \<Rightarrow> (nat \<times> nat) list" where
  "index_pairs n = concat (map (\<lambda>a. map (\<lambda>b. (a, b)) [Suc a..<n]) [0..<n])"

definition validate_tag_writers :: "'d Application \<Rightarrow> string list \<Rightarrow> FlowError option" where
  "validate_tag_writers app labels = (case find (collides app labels) (index_pairs (length (flow app))) of
       None \<Rightarrow> None
     | Some (a, b) \<Rightarrow> Some (TagCollision (ns_id (flow app ! a)) (ns_id (flow app ! b)) (the (writer_at app a))))"

section \<open>Terminal nodes\<close>

definition id_to_index :: "'d Application \<Rightarrow> string \<rightharpoonup> nat" where
  "id_to_index app = map_of (zip (map ns_id (flow app)) [0..<length (flow app)])"

definition validate_terminal_placement :: "'d Application \<Rightarrow> 'd Node list \<Rightarrow> FlowError option" where
  "validate_terminal_placement app ns =
     (if edges app = [] then
        (case find (\<lambda>i. terminal (descriptor (ns ! i))) [0..<length ns - 1] of
           None \<Rightarrow> None
         | Some i \<Rightarrow> Some (TerminalNotLast (ns_type_id (flow app ! i)) i))
      else
        (case find (\<lambda>e. case id_to_index app (es_from e) of None \<Rightarrow> False
                        | Some i \<Rightarrow> terminal (descriptor (ns ! i))) (edges app) of
           None \<Rightarrow> None
         | Some e \<Rightarrow> Some (TerminalHasEdge (es_from e) (es_to e))))"

end
