(* ===== verification/Flow_Graph.thy ===== *)
theory Flow_Graph
  imports Flow_Compiler
begin

text \<open>
  Ordering a flow graph: \<open>order_flow_graph\<close>, \<open>CompiledPlan::wire\<close> and \<open>compile_flow\<close> of
  \<open>runtime/flow_compiler.hpp\<close>. Kahn's algorithm is the function \<open>kahn\<close> on the queue still to be
  processed; it terminates because every node enters the queue when its counter reaches zero.
\<close>

section \<open>Reading the edges\<close>

record edge_state =
  adj :: "(nat \<times> string) list list"
  in_degree :: "int list"
  branch_source :: "nat option"
  loop_edge :: "(nat \<times> nat) option"

definition new_edge_state :: "nat \<Rightarrow> edge_state" where
  "new_edge_state n = \<lparr>adj = replicate n [], in_degree = replicate n 0, branch_source = None, loop_edge = None\<rparr>"

definition link_edge :: "nat \<Rightarrow> nat \<Rightarrow> string \<Rightarrow> edge_state \<Rightarrow> edge_state" where
  "link_edge u v label s = s\<lparr>adj := (adj s)[u := adj s ! u @ [(v, label)]],
     in_degree := (in_degree s)[v := in_degree s ! v + 1]\<rparr>"

definition read_edge :: "'d Application \<Rightarrow> EdgeSpec \<Rightarrow> edge_state \<Rightarrow> FlowError + edge_state" where
  "read_edge app e s = (case id_to_index app (es_from e) of
       None \<Rightarrow> Inl (UnknownEndpoint (es_from e))
     | Some u \<Rightarrow> (case id_to_index app (es_to e) of
         None \<Rightarrow> Inl (UnknownEndpoint (es_to e))
       | Some v \<Rightarrow>
         if es_from_port e = ''loop_back'' then
           (if loop_edge s \<noteq> None then Inl SecondLoopEdge else Inr (s\<lparr>loop_edge := Some (u, v)\<rparr>))
         else if es_from_port e = [] then Inr (link_edge u v [] s)
         else if es_from_port e \<noteq> ''true'' \<and> es_from_port e \<noteq> ''false'' then Inl (UnsupportedPort (es_from_port e))
         else (case branch_source s of
             None \<Rightarrow> Inr (link_edge u v (es_from_port e) (s\<lparr>branch_source := Some u\<rparr>))
           | Some b \<Rightarrow> (if b \<noteq> u then Inl (SecondBranchSource (ns_id (flow app ! b)) (es_from e))
                        else Inr (link_edge u v (es_from_port e) s)))))"

fun read_edges :: "'d Application \<Rightarrow> EdgeSpec list \<Rightarrow> edge_state \<Rightarrow> FlowError + edge_state" where
  "read_edges app [] s = Inr s"
| "read_edges app (e # es) s = (case read_edge app e s of Inl x \<Rightarrow> Inl x | Inr s \<Rightarrow> read_edges app es s)"

section \<open>Kahn's algorithm\<close>

text \<open>The inner loop over the successors of one node: the labels reaching each node, the remaining
  counters, and the nodes pushed.\<close>

fun relax :: "(nat \<times> string) list \<Rightarrow> int list \<Rightarrow> string list list \<Rightarrow> nat list \<Rightarrow> int list \<times> string list list \<times> nat list" where
  "relax [] rem inc pushed = (rem, inc, pushed)"
| "relax ((v, label) # vs) rem inc pushed =
     (if v < length rem then
        (let inc = inc[v := inc ! v @ [label]]; r = rem ! v - 1; rem = rem[v := r]
         in relax vs rem inc (if r = 0 then pushed @ [v] else pushed))
      else relax vs rem inc pushed)"

definition positives :: "int list \<Rightarrow> nat" where
  "positives rem = length (filter (\<lambda>r. 0 < r) rem)"

lemma positives_update:
  assumes "v < length rem"
  shows "positives (rem[v := rem ! v - 1]) + (if rem ! v - 1 = 0 then 1 else 0) \<le> positives rem"
proof -
  obtain xs x ys where rem: "rem = xs @ x # ys" "length xs = v"
    using assms id_take_nth_drop [OF assms] by (metis length_take min.absorb4)
  then show ?thesis by (auto simp: positives_def nth_append list_update_append)
qed

lemma relax_positives:
  assumes "relax vs rem inc pushed = (rem', inc', pushed')"
  shows "length pushed' + positives rem' \<le> length pushed + positives rem"
  using assms
proof (induction vs rem inc pushed rule: relax.induct)
  case (2 v label vs rem inc pushed)
  show ?case
  proof (cases "v < length rem")
    case True
    then show ?thesis
      using 2 positives_update [OF True] by (fastforce simp: Let_def split: if_splits)
  qed (use 2 in simp)
qed simp

text \<open>\<open>for (qi = 0; qi < queue.size(); ++qi)\<close>: the queue from \<open>qi\<close> on.\<close>

function kahn :: "(nat \<times> string) list list \<Rightarrow> nat list \<Rightarrow> nat list \<Rightarrow> int list \<Rightarrow> string list list \<Rightarrow> nat list \<times> string list list" where
  "kahn adjl [] order rem inc = (order, inc)"
| "kahn adjl (u # queue) order rem inc =
     (let (rem, inc, pushed) = relax (if u < length adjl then adjl ! u else []) rem inc []
      in kahn adjl (queue @ pushed) (order @ [u]) rem inc)"
  by pat_completeness auto

termination
proof (relation "measure (\<lambda>(adjl, queue, order, rem, inc). length queue + positives rem)")
  fix adjl :: "(nat \<times> string) list list" and u queue order rem inc x rem' y inc' pushed
  assume "x = relax (if u < length adjl then adjl ! u else []) rem inc []" "(rem', y) = x" "(inc', pushed) = y"
  then show "((adjl, queue @ pushed, order @ [u], rem', inc'), adjl, u # queue, order, rem, inc)
      \<in> measure (\<lambda>(adjl, queue, order, rem, inc). length queue + positives rem)"
    using relax_positives [of "if u < length adjl then adjl ! u else []" rem inc "[]" rem' inc' pushed] by simp
qed simp

section \<open>The order\<close>

record GraphOrder =
  go_order :: "nat list"
  go_labels :: "string list"
  go_loop_edge :: "(nat \<times> nat) option"

fun first_duplicate :: "string list \<Rightarrow> string list \<Rightarrow> string option" where
  "first_duplicate seen [] = None"
| "first_duplicate seen (x # xs) = (if x \<in> set seen then Some x else first_duplicate (x # seen) xs)"

definition conflicting :: "string list \<Rightarrow> bool" where
  "conflicting ls \<longleftrightarrow> ls \<noteq> [] \<and> (\<exists>l \<in> set ls. l \<noteq> hd ls)"

definition label_of :: "string list \<Rightarrow> string" where
  "label_of ls = (if ls = [] then [] else hd ls)"

definition order_flow_graph :: "'d Application \<Rightarrow> 'd Node list \<Rightarrow> FlowError + GraphOrder" where
  "order_flow_graph app ns = (let n = length (flow app) in
     case first_duplicate [] (map ns_id (flow app)) of
       Some x \<Rightarrow> Inl (DuplicateId x)
     | None \<Rightarrow>
       (case read_edges app (edges app) (new_edge_state n) of
          Inl x \<Rightarrow> Inl x
        | Inr s \<Rightarrow>
          (let queue = filter (\<lambda>i. in_degree s ! i = 0) [0..<n] in
           if length queue \<noteq> 1 then Inl (NotOneRoot (length queue))
           else if category (descriptor (ns ! hd queue)) \<noteq> Source then Inl (RootNotSource (ns_id (flow app ! hd queue)))
           else (let (order, inc) = kahn (adj s) queue [] (in_degree s) (replicate n []) in
             if length order \<noteq> n then Inl HasCycle
             else (case find (\<lambda>i. conflicting (inc ! i)) [0..<n] of
                 Some i \<Rightarrow> Inl (ConflictingLabels (ns_id (flow app ! i)))
               | None \<Rightarrow>
                 (let labels = map label_of inc in
                  case find (\<lambda>i. nd_type_id (descriptor (ns ! i)) = ''aero.flow.loop_start'' \<and> labels ! i \<noteq> []) [0..<n] of
                    Some i \<Rightarrow> Inl (LoopStartInBranch (ns_id (flow app ! i)))
                  | None \<Rightarrow> Inr \<lparr>go_order = order, go_labels = labels, go_loop_edge = loop_edge s\<rparr>))))))"

section \<open>The plan\<close>

record 'd CompiledPlan =
  nodes :: "'d Node list"
  plan_flow :: CompiledFlow

text \<open>\<open>position_of\<close> inverts the order.\<close>

definition position_of :: "nat list \<Rightarrow> nat \<Rightarrow> nat \<Rightarrow> nat" where
  "position_of order n idx = foldl (\<lambda>ps k. ps[order ! k := k]) (replicate n 0) [0..<length order] ! idx"

definition wire :: "nat list \<Rightarrow> string list \<Rightarrow> (nat \<times> nat) option \<Rightarrow> 'd Node list \<Rightarrow> 'd CompiledPlan" where
  "wire order labels le ns = (if order = []
     then \<lparr>nodes = ns, plan_flow = foldl (\<lambda>fl i. add i [] None fl) [] [0..<length ns]\<rparr>
     else \<lparr>nodes = ns, plan_flow = foldl (\<lambda>fl idx. add idx (label_at labels idx)
       (case le of Some (u, v) \<Rightarrow> (if u = idx then Some (position_of order (length ns) v) else None)
        | None \<Rightarrow> None) fl) [] order\<rparr>)"

section \<open>compile\_flow\<close>

fun build_nodes :: "'d fp \<Rightarrow> 'd NodeRegistry \<Rightarrow> 'd NodeSpec list \<Rightarrow> 'd Node list outcome" where
  "build_nodes F reg [] = Accepted []"
| "build_nodes F reg (ns # specs) =
     (if \<not> reg_contains reg (ns_type_id ns) then Rejected (UnknownTypeId (ns_type_id ns))
      else (case validate_node_config F (ns_type_id ns) (ns_config ns) of
          Some e \<Rightarrow> Rejected e
        | None \<Rightarrow> (case create reg (ns_type_id ns) (ns_config ns) of
            Throws \<Rightarrow> Throws
          | Rejected e \<Rightarrow> Rejected e
          | Accepted None \<Rightarrow> Rejected (FactoryReturnedNull (ns_type_id ns))
          | Accepted (Some n) \<Rightarrow> (case build_nodes F reg specs of
              Throws \<Rightarrow> Throws | Rejected e \<Rightarrow> Rejected e | Accepted more_ns \<Rightarrow> Accepted (n # more_ns)))))"

definition has_category :: "NodeCategory \<Rightarrow> 'd Node list \<Rightarrow> bool" where
  "has_category cat ns \<longleftrightarrow> (\<exists>n \<in> set ns. category (descriptor n) = cat)"

definition is_loop_type :: "string \<Rightarrow> bool" where
  "is_loop_type tid \<longleftrightarrow> tid = ''aero.flow.loop_start'' \<or> tid = ''aero.flow.loop_back''"

definition compile_flow :: "'d fp \<Rightarrow> 'd NodeRegistry \<Rightarrow> 'd Application \<Rightarrow> 'd CompiledPlan outcome" where
  "compile_flow F reg app = (if flow app = [] then Rejected EmptyFlow
     else (case build_nodes F reg (flow app) of
         Throws \<Rightarrow> Throws
       | Rejected e \<Rightarrow> Rejected e
       | Accepted ns \<Rightarrow>
         if \<not> has_category Source ns then Rejected NoSource
         else if \<not> has_category Output ns then Rejected NoOutput
         else (case validate_terminal_placement app ns of
             Some e \<Rightarrow> Rejected e
           | None \<Rightarrow>
             if edges app = [] then
               (case find (\<lambda>n. is_loop_type (nd_type_id (descriptor n))) ns of
                  Some n \<Rightarrow> Rejected (LoopNeedsGraph (nd_type_id (descriptor n)))
                | None \<Rightarrow> (case validate_tag_writers app (replicate (length (flow app)) []) of
                    Some e \<Rightarrow> Rejected e
                  | None \<Rightarrow> Accepted (wire [] [] None ns)))
             else (case order_flow_graph app ns of
                 Inl e \<Rightarrow> Rejected e
               | Inr go \<Rightarrow> (case validate_tag_writers app (go_labels go) of
                   Some e \<Rightarrow> Rejected e
                 | None \<Rightarrow> Accepted (wire (go_order go) (go_labels go) (go_loop_edge go) ns))))))"

end
