(* ===== verification/Flow_Order.thy ===== *)
theory Flow_Order
  imports Flow_Graph
begin

text \<open>
  Correctness of the ordering: \<open>kahn_inv\<close> is the invariant of the queue loop, and an accepted order
  lists every node once with every edge but the loop edge going forward.
\<close>

section \<open>Counting edges\<close>

definition edges_to :: "(nat \<times> string) list list \<Rightarrow> nat \<Rightarrow> nat \<Rightarrow> nat" where
  "edges_to adjl u v = count_list (map fst (adjl ! u)) v"

definition labels_to :: "(nat \<times> string) list list \<Rightarrow> nat \<Rightarrow> nat \<Rightarrow> string set" where
  "labels_to adjl u v = {l. (v, l) \<in> set (adjl ! u)}"

lemma edges_to_pos: "0 < edges_to adjl u v \<longleftrightarrow> labels_to adjl u v \<noteq> {}"
  unfolding edges_to_def labels_to_def by (force simp: count_list_0_iff zero_less_iff_neq_zero)

lemma distinct_count_list: "(\<And>x. count_list xs x \<le> 1) \<Longrightarrow> distinct xs"
proof (induction xs)
  case (Cons a xs)
  have "count_list xs x \<le> 1" for x
    using Cons.prems [of x] by (auto split: if_splits)
  moreover have "a \<notin> set xs" using Cons.prems [of a] by (simp add: count_list_0_iff)
  ultimately show ?case using Cons.IH by simp
qed simp

section \<open>One node's successors\<close>

lemma relax_shape:
  assumes "relax vs rem inc pushed = (rem', inc', pushed')" "\<forall>(v, _) \<in> set vs. v < length rem"
    "length inc = length rem"
  shows "length rem' = length rem \<and> length inc' = length rem \<and>
    (\<forall>w < length rem. rem' ! w = rem ! w - int (count_list (map fst vs) w) \<and>
       set (inc' ! w) = set (inc ! w) \<union> {l. (w, l) \<in> set vs} \<and>
       count_list pushed' w = count_list pushed w +
         (if 0 < rem ! w \<and> rem ! w \<le> int (count_list (map fst vs) w) then 1 else 0))"
  using assms
proof (induction vs arbitrary: rem inc pushed)
  case (Cons vl vs)
  obtain v l where vl: "vl = (v, l)" by fastforce
  then have v: "v < length rem" using Cons.prems(2) by auto
  let ?rem = "rem[v := rem ! v - 1]" and ?inc = "inc[v := inc ! v @ [l]]"
  let ?pushed = "if rem ! v - 1 = 0 then pushed @ [v] else pushed"
  have "relax vs ?rem ?inc ?pushed = (rem', inc', pushed')"
    using Cons.prems(1) vl v by (simp add: Let_def)
  from Cons.IH [OF this] have IH: "length rem' = length rem" "length inc' = length rem"
    "\<And>w. w < length rem \<Longrightarrow> rem' ! w = ?rem ! w - int (count_list (map fst vs) w)"
    "\<And>w. w < length rem \<Longrightarrow> set (inc' ! w) = set (?inc ! w) \<union> {l. (w, l) \<in> set vs}"
    "\<And>w. w < length rem \<Longrightarrow> count_list pushed' w = count_list ?pushed w +
       (if 0 < ?rem ! w \<and> ?rem ! w \<le> int (count_list (map fst vs) w) then 1 else 0)"
    using Cons.prems(2,3) by auto
  have "count_list pushed' w = count_list pushed w +
      (if 0 < rem ! w \<and> rem ! w \<le> int (count_list (map fst (vl # vs)) w) then 1 else 0)"
    if w: "w < length rem" for w
    using IH(5) [OF w] v vl by (cases "w = v") auto
  then show ?case
    using IH(1-4) v vl Cons.prems(3) by (auto simp: nth_list_update)
qed simp

lemma relax_pushed_subset:
  "relax vs rem inc pushed = (rem', inc', pushed') \<Longrightarrow> set pushed' \<subseteq> set pushed \<union> {..<length rem}"
proof (induction vs arbitrary: rem inc pushed)
  case (Cons vl vs)
  obtain v l where vl: "vl = (v, l)" by fastforce
  show ?case
  proof (cases "v < length rem")
    case True
    then have "relax vs (rem[v := rem ! v - 1]) (inc[v := inc ! v @ [l]])
        (if rem ! v - 1 = 0 then pushed @ [v] else pushed) = (rem', inc', pushed')"
      using Cons.prems vl by (simp add: Let_def)
    from Cons.IH [OF this] show ?thesis using True by (auto split: if_splits)
  next
    case False
    then show ?thesis using Cons vl by simp
  qed
qed simp

section \<open>The invariant of the queue loop\<close>

definition sources_done :: "(nat \<times> string) list list \<Rightarrow> nat list \<Rightarrow> bool" where
  "sources_done adjl order \<longleftrightarrow> (\<forall>i < length order. \<forall>u < length adjl.
     labels_to adjl u (order ! i) \<noteq> {} \<longrightarrow> u \<in> set (take i order))"

definition kahn_inv :: "(nat \<times> string) list list \<Rightarrow> nat list \<Rightarrow> nat list \<Rightarrow> int list \<Rightarrow> string list list \<Rightarrow> bool" where
  "kahn_inv adjl queue order rem inc \<longleftrightarrow>
     length rem = length adjl \<and> length inc = length adjl \<and>
     distinct (order @ queue) \<and> set (order @ queue) \<subseteq> {..<length adjl} \<and>
     (\<forall>v < length adjl. rem ! v = int (\<Sum>u<length adjl. edges_to adjl u v) - int (\<Sum>u\<in>set order. edges_to adjl u v)) \<and>
     (\<forall>v < length adjl. v \<in> set (order @ queue) \<longleftrightarrow> rem ! v = 0) \<and>
     (\<forall>v < length adjl. set (inc ! v) = (\<Union>u\<in>set order. labels_to adjl u v)) \<and>
     sources_done adjl order"

definition in_bounds :: "(nat \<times> string) list list \<Rightarrow> bool" where
  "in_bounds adjl \<longleftrightarrow> (\<forall>u < length adjl. \<forall>(v, _) \<in> set (adjl ! u). v < length adjl)"

lemma remaining_zero_all_done:
  assumes sub: "set order \<subseteq> {..<n}"
    and eq: "int (\<Sum>u<n. edges_to adjl u v) - int (\<Sum>u\<in>set order. edges_to adjl u v) = 0"
    and u: "u < n" "labels_to adjl u v \<noteq> {}"
  shows "u \<in> set order"
proof (rule ccontr)
  assume "u \<notin> set order"
  then have "(\<Sum>u\<in>set order. edges_to adjl u v) + edges_to adjl u v = (\<Sum>u\<in>insert u (set order). edges_to adjl u v)"
    by simp
  also have "\<dots> \<le> (\<Sum>u<n. edges_to adjl u v)"
    using sub u(1) by (intro sum_mono2) auto
  finally show False using eq u(2) edges_to_pos [of adjl u v] by (simp del: of_nat_sum)
qed

lemma kahn_inv_step:
  assumes inv: "kahn_inv adjl (u # queue) order rem inc" and bounds: "in_bounds adjl"
    and r: "relax (adjl ! u) rem inc [] = (rem', inc', pushed)"
  shows "kahn_inv adjl (queue @ pushed) (order @ [u]) rem' inc'"
proof -
  let ?n = "length adjl"
  have len: "length rem = ?n" "length inc = ?n" and dist: "distinct (order @ u # queue)"
    and sub: "set (order @ u # queue) \<subseteq> {..<?n}"
    and rem: "\<And>v. v < ?n \<Longrightarrow> rem ! v = int (\<Sum>u<?n. edges_to adjl u v) - int (\<Sum>u\<in>set order. edges_to adjl u v)"
    and zero: "\<And>v. v < ?n \<Longrightarrow> v \<in> set (order @ u # queue) \<longleftrightarrow> rem ! v = 0"
    and inc: "\<And>v. v < ?n \<Longrightarrow> set (inc ! v) = (\<Union>u\<in>set order. labels_to adjl u v)"
    and src: "sources_done adjl order"
    using inv unfolding kahn_inv_def by auto
  have u: "u < ?n" "u \<notin> set order" using sub dist by auto
  have vs: "\<forall>(v, _) \<in> set (adjl ! u). v < length rem"
    using bounds u(1) len by (auto simp: in_bounds_def)
  note shape = relax_shape [OF r vs]
  have rem': "rem' ! v = int (\<Sum>u<?n. edges_to adjl u v) - int (\<Sum>u\<in>set (order @ [u]). edges_to adjl u v)"
    if "v < ?n" for v
    using shape rem [OF that] u(2) len that by (simp add: edges_to_def)
  have nonneg: "0 \<le> rem' ! v" if "v < ?n" for v
  proof -
    have "(\<Sum>u\<in>set (order @ [u]). edges_to adjl u v) \<le> (\<Sum>u<?n. edges_to adjl u v)"
      using sub by (intro sum_mono2) auto
    then show ?thesis using rem' [OF that] by (simp del: of_nat_sum)
  qed
  have cnt: "count_list pushed v = (if 0 < rem ! v \<and> rem' ! v = 0 then 1 else 0)" if "v < ?n" for v
    using shape len that nonneg [OF that] by auto
  have pushed: "set pushed \<subseteq> {..<?n}"
    using relax_pushed_subset [OF r] len by simp
  have mem: "v \<in> set pushed \<longleftrightarrow> 0 < rem ! v \<and> rem' ! v = 0" if "v < ?n" for v
    using cnt [OF that] count_list_0_iff [of pushed v] by (auto split: if_splits)
  have "distinct pushed"
  proof (rule distinct_count_list)
    fix v
    show "count_list pushed v \<le> 1"
    proof (cases "v < ?n")
      case False
      then have "v \<notin> set pushed" using pushed by auto
      then show ?thesis by (simp add: count_list_0_iff [THEN iffD2])
    qed (simp add: cnt)
  qed
  have zero': "v \<in> set (order @ [u] @ queue @ pushed) \<longleftrightarrow> rem' ! v = 0" if "v < ?n" for v
  proof -
    have "rem' ! v \<le> rem ! v" using shape len that by simp
    then show ?thesis using zero [OF that] mem [OF that] nonneg [OF that] by auto
  qed
  have "distinct (order @ [u] @ queue @ pushed)"
  proof -
    have "set pushed \<inter> set (order @ u # queue) = {}"
    proof (rule ccontr)
      assume "set pushed \<inter> set (order @ u # queue) \<noteq> {}"
      then obtain v where v: "v \<in> set pushed" "v \<in> set (order @ u # queue)" by blast
      then have "v < ?n" using pushed by auto
      then show False using zero mem v by fastforce
    qed
    then show ?thesis using dist \<open>distinct pushed\<close> by auto
  qed
  moreover have "set (inc' ! v) = (\<Union>u\<in>set (order @ [u]). labels_to adjl u v)" if "v < ?n" for v
    using shape len inc [OF that] that by (auto simp: labels_to_def)
  moreover have "sources_done adjl (order @ [u])"
  proof -
    have "w \<in> set order" if "w < ?n" "labels_to adjl w u \<noteq> {}" for w
    proof (rule remaining_zero_all_done [of order ?n adjl u w])
      show "set order \<subseteq> {..<?n}" using sub by auto
      show "int (\<Sum>w<?n. edges_to adjl w u) - int (\<Sum>w\<in>set order. edges_to adjl w u) = 0"
        using rem [OF u(1)] zero [OF u(1)] by simp
    qed (use that in auto)
    then show ?thesis using src unfolding sources_done_def by (auto simp: nth_append less_Suc_eq)
  qed
  ultimately show ?thesis
    using shape len sub pushed rem' zero' unfolding kahn_inv_def by auto
qed

lemma kahn_invariant:
  assumes "kahn_inv adjl queue order rem inc" "in_bounds adjl"
    "kahn adjl queue order rem inc = (order', inc')"
  shows "\<exists>rem'. kahn_inv adjl [] order' rem' inc'"
  using assms
proof (induction adjl queue order rem inc rule: kahn.induct)
  case (2 adjl u queue order rem inc)
  have "u < length adjl" using 2(2) by (auto simp: kahn_inv_def)
  obtain rem1 inc1 pushed where r: "relax (adjl ! u) rem inc [] = (rem1, inc1, pushed)" by (metis prod_cases3)
  have "kahn adjl (queue @ pushed) (order @ [u]) rem1 inc1 = (order', inc')"
    using 2(4) r \<open>u < length adjl\<close> by simp
  then show ?case
    using "2.IH" [OF _ refl refl kahn_inv_step [OF 2(2,3) r] 2(3)] r \<open>u < length adjl\<close> by simp
qed auto

section \<open>What reading the edges builds\<close>

definition edge_inv :: "nat \<Rightarrow> edge_state \<Rightarrow> bool" where
  "edge_inv n s \<longleftrightarrow> length (adj s) = n \<and> length (in_degree s) = n \<and> in_bounds (adj s) \<and>
     (\<forall>v < n. in_degree s ! v = int (\<Sum>u<n. edges_to (adj s) u v)) \<and>
     (case loop_edge s of None \<Rightarrow> True | Some (u, v) \<Rightarrow> u < n \<and> v < n)"

lemma edge_inv_new: "edge_inv n (new_edge_state n)"
  by (simp add: edge_inv_def new_edge_state_def in_bounds_def edges_to_def)

lemma edges_to_link:
  assumes "u < length (adj s)"
  shows "edges_to (adj (link_edge u v l s)) w x = edges_to (adj s) w x + (if w = u \<and> x = v then 1 else 0)"
  using assms by (simp add: edges_to_def link_edge_def nth_list_update)

lemma labels_to_link:
  assumes "u < length (adj s)"
  shows "labels_to (adj (link_edge u v l s)) w x = labels_to (adj s) w x \<union> (if w = u \<and> x = v then {l} else {})"
  using assms by (auto simp: labels_to_def link_edge_def nth_list_update)

lemma edge_inv_link:
  assumes "edge_inv n s" "u < n" "v < n"
  shows "edge_inv n (link_edge u v l s)"
proof -
  have len: "length (adj s) = n" "length (in_degree s) = n" using assms(1) by (auto simp: edge_inv_def)
  have "(\<Sum>w<n. edges_to (adj (link_edge u v l s)) w x) = (\<Sum>w<n. edges_to (adj s) w x) + (if x = v then 1 else 0)" for x
    using assms(2) len by (simp add: edges_to_link sum.distrib)
  moreover have "in_degree (link_edge u v l s) ! x = in_degree s ! x + (if x = v then 1 else 0)" if "x < n" for x
    using len that assms(3) by (simp add: link_edge_def nth_list_update)
  moreover have "in_bounds (adj (link_edge u v l s))"
    using assms len by (fastforce simp: edge_inv_def in_bounds_def link_edge_def nth_list_update)
  ultimately show ?thesis
    using assms len by (auto simp: edge_inv_def link_edge_def)
qed

lemma id_to_index_less: "id_to_index app x = Some i \<Longrightarrow> i < length (flow app)"
  unfolding id_to_index_def by (auto dest!: map_of_SomeD simp: in_set_zip)

text \<open>The edge \<open>e\<close>, resolved to indices.\<close>

definition resolved :: "'d Application \<Rightarrow> EdgeSpec \<Rightarrow> nat \<Rightarrow> nat \<Rightarrow> bool" where
  "resolved app e u v \<longleftrightarrow> id_to_index app (es_from e) = Some u \<and> id_to_index app (es_to e) = Some v"

lemma read_edge_cases:
  assumes "read_edge app e s = Inr s'"
  obtains (loop) u v where "resolved app e u v" "es_from_port e = ''loop_back''" "loop_edge s = None"
      "s' = s\<lparr>loop_edge := Some (u, v)\<rparr>"
  | (edge) u v b where "resolved app e u v" "es_from_port e \<in> {[], ''true'', ''false''}"
      "s' = link_edge u v (es_from_port e) (s\<lparr>branch_source := b\<rparr>)"
      "es_from_port e \<noteq> [] \<longrightarrow> b = Some u" "branch_source s \<noteq> None \<longrightarrow> b = branch_source s"
proof -
  obtain u v where uv: "id_to_index app (es_from e) = Some u" "id_to_index app (es_to e) = Some v"
    using assms by (auto simp: read_edge_def split: option.splits)
  then have r: "resolved app e u v" by (simp add: resolved_def)
  consider "es_from_port e = ''loop_back''" | "es_from_port e = []"
    | "es_from_port e \<noteq> ''loop_back''" "es_from_port e \<noteq> []" by blast
  then show thesis
  proof cases
    case 1
    then show thesis
      using assms uv loop [OF r] by (cases "loop_edge s") (auto simp: read_edge_def split: if_splits)
  next
    case 2
    then have "s' = link_edge u v (es_from_port e) (s\<lparr>branch_source := branch_source s\<rparr>)"
      using assms uv by (simp add: read_edge_def)
    then show thesis by (rule edge [OF r, rotated]) (use 2 in simp_all)
  next
    case 3
    then have tf: "es_from_port e = ''true'' \<or> es_from_port e = ''false''"
      using assms uv by (auto simp: read_edge_def split: if_splits)
    show thesis
    proof (cases "branch_source s")
      case None
      then show thesis using assms uv 3 tf edge [OF r, of "Some u"] by (auto simp: read_edge_def)
    next
      case (Some b)
      then have b: "b = u" and s': "s' = link_edge u v (es_from_port e) s"
        using assms uv 3 tf by (auto simp: read_edge_def split: if_splits)
      have "s\<lparr>branch_source := Some u\<rparr> = s" using Some b by (cases s) simp
      then have "s' = link_edge u v (es_from_port e) (s\<lparr>branch_source := Some u\<rparr>)"
        using s' by simp
      then show thesis by (rule edge [OF r, rotated]) (use tf Some b in auto)
    qed
  qed
qed

text \<open>States only gain edges and keep the branch source; what an edge has left in the state.\<close>

definition extends :: "edge_state \<Rightarrow> edge_state \<Rightarrow> bool" where
  "extends s s' \<longleftrightarrow> (\<forall>u v. labels_to (adj s) u v \<subseteq> labels_to (adj s') u v) \<and>
     (branch_source s \<noteq> None \<longrightarrow> branch_source s' = branch_source s)"

definition edge_read :: "'d Application \<Rightarrow> EdgeSpec \<Rightarrow> edge_state \<Rightarrow> bool" where
  "edge_read app e s \<longleftrightarrow> (\<exists>u v. resolved app e u v \<and>
     (es_from_port e \<noteq> ''loop_back'' \<longrightarrow> es_from_port e \<in> labels_to (adj s) u v) \<and>
     (es_from_port e \<in> {''true'', ''false''} \<longrightarrow> branch_source s = Some u))"

lemma extends_trans: "extends s t \<Longrightarrow> extends t u \<Longrightarrow> extends s u"
  unfolding extends_def by (metis subset_trans)

lemma edge_read_extends:
  assumes "edge_read app e s" "extends s t"
  shows "edge_read app e t"
proof -
  obtain u v where uv: "resolved app e u v"
    "es_from_port e \<noteq> ''loop_back'' \<longrightarrow> es_from_port e \<in> labels_to (adj s) u v"
    "es_from_port e \<in> {''true'', ''false''} \<longrightarrow> branch_source s = Some u"
    using assms(1) unfolding edge_read_def by blast
  have "labels_to (adj s) u v \<subseteq> labels_to (adj t) u v" "branch_source s = Some u \<longrightarrow> branch_source t = Some u"
    using assms(2) unfolding extends_def by auto
  with uv show ?thesis unfolding edge_read_def by blast
qed

lemma read_edge_step:
  assumes "read_edge app e s = Inr s'" "edge_inv (length (flow app)) s"
  shows "edge_inv (length (flow app)) s' \<and> extends s s' \<and> edge_read app e s'"
  using assms(1)
proof (cases rule: read_edge_cases)
  case (loop u v)
  then have "u < length (flow app)" "v < length (flow app)"
    using id_to_index_less by (auto simp: resolved_def)
  then show ?thesis using loop assms(2) by (auto simp: edge_inv_def extends_def edge_read_def)
next
  case (edge u v b)
  let ?s = "s\<lparr>branch_source := b\<rparr>" and ?n = "length (flow app)"
  have uv: "u < ?n" "v < ?n" using edge(1) id_to_index_less by (auto simp: resolved_def)
  have inv: "edge_inv ?n ?s" using assms(2) by (simp add: edge_inv_def)
  then have "edge_inv ?n s'" using edge_inv_link uv edge(3) by blast
  moreover have u: "u < length (adj ?s)" using inv uv by (simp add: edge_inv_def)
  have lab: "labels_to (adj s') w x = labels_to (adj s) w x \<union> (if w = u \<and> x = v then {es_from_port e} else {})" for w x
    unfolding edge(3) labels_to_link [OF u] by simp
  have b: "branch_source s' = b" by (simp add: edge(3) link_edge_def)
  have "extends s s'" using lab b edge(5) unfolding extends_def by auto
  moreover have "edge_read app e s'"
    unfolding edge_read_def using edge(1,2,4) lab b by (intro exI [of _ u] exI [of _ v]) auto
  ultimately show ?thesis by blast
qed

lemma read_edges_inv:
  assumes "read_edges app es s = Inr s'" "edge_inv (length (flow app)) s"
  shows "edge_inv (length (flow app)) s' \<and> extends s s' \<and> list_all (\<lambda>e. edge_read app e s') es"
  using assms
proof (induction es arbitrary: s)
  case Nil
  then show ?case by (simp add: extends_def)
next
  case (Cons e es)
  then obtain s1 where s1: "read_edge app e s = Inr s1" "read_edges app es s1 = Inr s'"
    by (auto split: sum.splits)
  note step = read_edge_step [OF s1(1) Cons.prems(2)]
  note IH = Cons.IH [OF s1(2) conjunct1 [OF step]]
  show ?case
    using step IH extends_trans [of s s1 s'] edge_read_extends [of app e s1 s'] by simp
qed

section \<open>An accepted order\<close>

lemma kahn_inv_start:
  assumes "edge_inv n s"
  shows "kahn_inv (adj s) (filter (\<lambda>i. in_degree s ! i = 0) [0..<n]) [] (in_degree s) (replicate n [])"
  using assms by (auto simp: kahn_inv_def edge_inv_def sources_done_def)

lemma order_flow_graph_cases:
  assumes "order_flow_graph app ns = Inr go"
  obtains s inc where "first_duplicate [] (map ns_id (flow app)) = None"
    "read_edges app (edges app) (new_edge_state (length (flow app))) = Inr s"
    "kahn (adj s) (filter (\<lambda>i. in_degree s ! i = 0) [0..<length (flow app)]) [] (in_degree s)
       (replicate (length (flow app)) []) = (go_order go, inc)"
    "length (go_order go) = length (flow app)"
    "find (\<lambda>i. conflicting (inc ! i)) [0..<length (flow app)] = None"
    "go_labels go = map label_of inc" "go_loop_edge go = loop_edge s"
    "find (\<lambda>i. nd_type_id (descriptor (ns ! i)) = ''aero.flow.loop_start'' \<and> go_labels go ! i \<noteq> [])
       [0..<length (flow app)] = None"
    "length (filter (\<lambda>i. in_degree s ! i = 0) [0..<length (flow app)]) = 1"
    "category (descriptor (ns ! hd (filter (\<lambda>i. in_degree s ! i = 0) [0..<length (flow app)]))) = Source"
  using assms unfolding order_flow_graph_def Let_def
  by (auto split: option.splits sum.splits if_splits prod.splits)

text \<open>What \<open>order_flow_graph\<close> promises: every node once; every edge but the loop edge forward, and the
  node it reaches carries its label; all labelled edges leave one node; the loop edge in range.\<close>

definition good_order :: "'d Application \<Rightarrow> GraphOrder \<Rightarrow> bool" where
  "good_order app go \<longleftrightarrow>
     distinct (go_order go) \<and> set (go_order go) = {..<length (flow app)} \<and>
     length (go_labels go) = length (flow app) \<and>
     (\<forall>e \<in> set (edges app). \<exists>u v. resolved app e u v \<and>
        (es_from_port e \<noteq> ''loop_back'' \<longrightarrow>
           (\<exists>j < length (go_order go). go_order go ! j = v \<and> u \<in> set (take j (go_order go))) \<and>
           go_labels go ! v = es_from_port e)) \<and>
     (\<exists>b. \<forall>e \<in> set (edges app). es_from_port e \<in> {''true'', ''false''} \<longrightarrow> id_to_index app (es_from e) = Some b) \<and>
     (case go_loop_edge go of None \<Rightarrow> True | Some (u, v) \<Rightarrow> u < length (flow app) \<and> v < length (flow app))"

lemma same_label:
  assumes "\<not> conflicting ls" "l \<in> set ls"
  shows "label_of ls = l"
  using assms by (auto simp: conflicting_def label_of_def)

lemma order_flow_graph_good:
  assumes ok: "order_flow_graph app ns = Inr go"
  shows "good_order app go"
proof -
  let ?n = "length (flow app)"
  from ok obtain s inc where s: "read_edges app (edges app) (new_edge_state ?n) = Inr s"
    and k: "kahn (adj s) (filter (\<lambda>i. in_degree s ! i = 0) [0..<?n]) [] (in_degree s) (replicate ?n []) = (go_order go, inc)"
    and len: "length (go_order go) = ?n" and conf: "find (\<lambda>i. conflicting (inc ! i)) [0..<?n] = None"
    and labels: "go_labels go = map label_of inc" and le: "go_loop_edge go = loop_edge s"
    by (rule order_flow_graph_cases)
  from read_edges_inv [OF s edge_inv_new] have inv: "edge_inv ?n s"
    and read: "\<And>e. e \<in> set (edges app) \<Longrightarrow> edge_read app e s"
    by (auto simp: list_all_iff)
  have adj: "length (adj s) = ?n" "in_bounds (adj s)" using inv by (auto simp: edge_inv_def)
  obtain rem where kinv: "kahn_inv (adj s) [] (go_order go) rem inc"
    using kahn_invariant [OF kahn_inv_start [OF inv] adj(2) k] by blast
  have dist: "distinct (go_order go)" "set (go_order go) \<subseteq> {..<?n}" and linc: "length inc = ?n"
    and inc: "\<And>v. v < ?n \<Longrightarrow> set (inc ! v) = (\<Union>u\<in>set (go_order go). labels_to (adj s) u v)"
    and src: "sources_done (adj s) (go_order go)"
    using kinv adj by (auto simp: kahn_inv_def)
  have all: "set (go_order go) = {..<?n}"
    using dist len by (intro card_subset_eq) (simp_all add: distinct_card)
  have edge: "(\<exists>j < length (go_order go). go_order go ! j = v \<and> u \<in> set (take j (go_order go))) \<and>
      go_labels go ! v = l" if uv: "u < ?n" "v < ?n" "l \<in> labels_to (adj s) u v" for u v l
  proof -
    obtain j where j: "j < length (go_order go)" "go_order go ! j = v"
      using all uv(2) by (metis in_set_conv_nth lessThan_iff)
    then have "u \<in> set (take j (go_order go))"
      using src uv adj unfolding sources_done_def by auto
    moreover have "l \<in> set (inc ! v)" using inc [OF uv(2)] all uv by auto
    then have "label_of (inc ! v) = l"
      using conf uv(2) same_label [of "inc ! v" l] by (auto simp: find_None_iff)
    ultimately show ?thesis using j labels linc uv(2) by auto
  qed
  have "\<exists>u v. resolved app e u v \<and> (es_from_port e \<noteq> ''loop_back'' \<longrightarrow>
      (\<exists>j < length (go_order go). go_order go ! j = v \<and> u \<in> set (take j (go_order go))) \<and>
      go_labels go ! v = es_from_port e)" if e: "e \<in> set (edges app)" for e
  proof -
    obtain u v where uv: "resolved app e u v" "es_from_port e \<noteq> ''loop_back'' \<longrightarrow> es_from_port e \<in> labels_to (adj s) u v"
      using read [OF e] unfolding edge_read_def by blast
    then show ?thesis using edge [of u v] id_to_index_less unfolding resolved_def by blast
  qed
  moreover have "\<exists>b. \<forall>e \<in> set (edges app). es_from_port e \<in> {''true'', ''false''} \<longrightarrow> id_to_index app (es_from e) = Some b"
    using read unfolding edge_read_def resolved_def by (cases "branch_source s") fastforce+
  ultimately show ?thesis
    using dist(1) all labels linc inv le unfolding good_order_def by (auto simp: edge_inv_def)
qed

end
