(* ===== verification/Flow_Plan.thy ===== *)
theory Flow_Plan
  imports Flow_Order
begin

text \<open>
  Compiled plans: the steps \<open>wire\<close> lays out, what an accepted compilation guarantees of them, and
  that the built-in factories only build nodes whose programs the parser produced.
\<close>

section \<open>Wiring\<close>

definition jump_target :: "nat list \<Rightarrow> nat \<Rightarrow> (nat \<times> nat) option \<Rightarrow> nat \<Rightarrow> nat option" where
  "jump_target order n le idx = (case le of Some (u, v) \<Rightarrow> (if u = idx then Some (position_of order n v) else None)
     | None \<Rightarrow> None)"

definition step_for :: "nat list \<Rightarrow> string list \<Rightarrow> (nat \<times> nat) option \<Rightarrow> nat \<Rightarrow> nat \<Rightarrow> Step" where
  "step_for order labels le n idx =
     \<lparr>node = idx, required_label = label_at labels idx, loop_back_target = jump_target order n le idx\<rparr>"

lemma foldl_add: "foldl (\<lambda>fl i. add (f i) (g i) (h i) fl) fl is =
    fl @ map (\<lambda>i. \<lparr>node = f i, required_label = g i, loop_back_target = h i\<rparr>) is"
  by (induction "is" arbitrary: fl) (simp_all add: add_def)

lemma wire_linear:
  "wire [] labels le ns = \<lparr>nodes = ns, plan_flow =
     map (\<lambda>i. \<lparr>node = i, required_label = [], loop_back_target = None\<rparr>) [0..<length ns]\<rparr>"
  using foldl_add [of "\<lambda>i. i" "\<lambda>_. []" "\<lambda>_. None" "[]" "[0..<length ns]"] by (simp add: wire_def)

lemma wire_graph:
  "order \<noteq> [] \<Longrightarrow> wire order labels le ns =
     \<lparr>nodes = ns, plan_flow = map (step_for order labels le (length ns)) order\<rparr>"
  using foldl_add [of "\<lambda>i. i" "label_at labels" "jump_target order (length ns) le" "[]" order]
  by (simp add: wire_def jump_target_def step_for_def [abs_def])

lemma position_of_nth:
  assumes "distinct order" "set order \<subseteq> {..<n}" "k < length order"
  shows "position_of order n (order ! k) = k"
proof -
  have "j \<le> length order \<Longrightarrow> k < j \<Longrightarrow>
      foldl (\<lambda>ps k. ps[order ! k := k]) (replicate n 0) [0..<j] ! (order ! k) = k" for j
  proof (induction j)
    case (Suc j)
    have len: "length (foldl (\<lambda>ps k. ps[order ! k := k]) xs ks) = length xs" for xs :: "nat list" and ks
      by (induction ks arbitrary: xs) auto
    have "order ! k < n" using assms(2) nth_mem [OF assms(3)] by blast
    then show ?case
      using Suc assms(1,3) len [of "replicate n 0" "[0..<j]"]
      by (cases "k = j") (auto simp: nth_list_update nth_eq_iff_index_eq)
  qed simp
  from this [of "length order"] show ?thesis
    using assms(3) by (simp add: position_of_def)
qed

section \<open>What the factories build\<close>

lemma value_or_Some: "value_or g j key d = Some v \<Longrightarrow> is_object j"
  by (simp add: value_or_def split: if_splits)

definition compiled_program :: "'d fp \<Rightarrow> 'd Program \<Rightarrow> bool" where
  "compiled_program F p \<longleftrightarrow> (\<exists>x. p = compile F x)"

lemma compiled_program_compile [simp]: "compiled_program F (compile F x)"
  by (auto simp: compiled_program_def)

lemma factory_programs:
  assumes "register_builtins F dump Map.empty tid = Some (d, f)" "f cfg = Some (Some n)"
  shows "\<forall>p \<in> set (programs n). compiled_program F p"
  using assms unfolding register_builtins_def
  by (auto simp: register_type_def desc_def plain_def scale_factory_def moving_average_factory_def
      new_RuntimeMovingAverageNode_def expr_rule_factory_def mes_report_factory_def mes_order_factory_def
      switch_factory_def set_factory_def loop_start_factory_def loop_back_factory_def http_factory_def
      split: if_splits option.splits)

lemma build_nodes_length: "build_nodes F reg specs = Accepted ns \<Longrightarrow> length ns = length specs"
  by (induction specs arbitrary: ns) (auto split: if_splits option.splits outcome.splits)

lemma build_nodes_programs:
  assumes "build_nodes F (register_builtins F dump Map.empty) specs = Accepted ns"
  shows "\<forall>n \<in> set ns. \<forall>p \<in> set (programs n). compiled_program F p"
  using assms
proof (induction specs arbitrary: ns)
  case (Cons spec specs)
  then obtain n ns' where n: "create (register_builtins F dump Map.empty) (ns_type_id spec) (ns_config spec) = Accepted (Some n)"
    and ns: "build_nodes F (register_builtins F dump Map.empty) specs = Accepted ns'" "ns = n # ns'"
    by (auto split: if_splits option.splits outcome.splits)
  from n obtain d f where "register_builtins F dump Map.empty (ns_type_id spec) = Some (d, f)"
    "f (ns_config spec) = Some (Some n)"
    by (auto simp: create_def split: option.splits)
  then have "\<forall>p \<in> set (programs n). compiled_program F p" by (rule factory_programs)
  then show ?case using Cons.IH [OF ns(1)] ns(2) by auto
qed simp

section \<open>Accepted compilations\<close>

lemma compile_flow_cases:
  assumes "compile_flow F reg app = Accepted plan"
  obtains (linear) ns where "build_nodes F reg (flow app) = Accepted ns" "edges app = []"
      "validate_tag_writers app (replicate (length (flow app)) []) = None" "plan = wire [] [] None ns"
      "flow app \<noteq> []" "has_category Source ns" "has_category Output ns" "validate_terminal_placement app ns = None"
  | (graph) ns go where "build_nodes F reg (flow app) = Accepted ns" "edges app \<noteq> []"
      "order_flow_graph app ns = Inr go" "validate_tag_writers app (go_labels go) = None"
      "plan = wire (go_order go) (go_labels go) (go_loop_edge go) ns"
      "flow app \<noteq> []" "has_category Source ns" "has_category Output ns" "validate_terminal_placement app ns = None"
  using assms unfolding compile_flow_def
  by (auto split: if_splits outcome.splits option.splits sum.splits)

lemma tag_writers_ok:
  assumes "validate_tag_writers app labels = None" "a < b" "b < length (flow app)"
    "writer_at app a = Some tag" "writer_at app b = Some tag"
  shows "mutually_exclusive (label_at labels a) (label_at labels b)"
proof -
  have "(a, b) \<in> set (index_pairs (length (flow app)))"
    using assms(2,3) unfolding index_pairs_def by force
  then have "\<not> collides app labels (a, b)"
    using assms(1) by (auto simp: validate_tag_writers_def find_None_iff split: option.splits)
  then show ?thesis using assms(4,5) by (simp add: collides_def)
qed

lemma plan_steps_graph:
  assumes "good_order app go" "flow app \<noteq> []" "length ns = length (flow app)"
  shows "wire (go_order go) (go_labels go) (go_loop_edge go) ns = \<lparr>nodes = ns, plan_flow =
      map (step_for (go_order go) (go_labels go) (go_loop_edge go) (length (flow app))) (go_order go)\<rparr>"
proof -
  have "go_order go \<noteq> []" using assms by (auto simp: good_order_def)
  then show ?thesis using assms(3) wire_graph by metis
qed

lemma compiled_well_indexed:
  assumes "compile_flow F reg app = Accepted plan"
  shows "well_indexed (plan_flow plan) (nodes plan)"
  using assms
proof (cases rule: compile_flow_cases)
  case (linear ns)
  then show ?thesis by (auto simp: wire_linear well_indexed_def)
next
  case (graph ns go)
  have len: "length ns = length (flow app)" by (rule build_nodes_length [OF graph(1)])
  have good: "good_order app go" by (rule order_flow_graph_good [OF graph(3)])
  then show ?thesis
    using plan_steps_graph [OF good graph(6) len] graph(5) len
    by (auto simp: well_indexed_def step_for_def good_order_def)
qed

lemma compiled_safe:
  assumes "compile_flow F (register_builtins F dump Map.empty) app = Accepted plan"
    "list_all (\<lambda>n. list_all (\<lambda>p. length (names p) \<le> 2 ^ 32) (programs n)) (nodes plan)"
  shows "list_all (\<lambda>n. list_all (safe_program F) (programs n)) (nodes plan)"
proof -
  obtain ns where ns: "build_nodes F (register_builtins F dump Map.empty) (flow app) = Accepted ns" "nodes plan = ns"
    using assms(1) by (cases rule: compile_flow_cases) (auto simp: wire_def split: if_splits)
  have "compiled_program F p" if "n \<in> set ns" "p \<in> set (programs n)" for n p
    using build_nodes_programs [OF ns(1)] that by blast
  then show ?thesis
    using assms(2) compile_program ns(2) unfolding list_all_iff safe_program_def compiled_program_def by metis
qed

end
