(* ===== verification/Expr_Print.thy ===== *)
theory Expr_Print
  imports Expr_Eval
begin

text \<open>
  The documented grammar, read the other way: a tree is printed with its infix operators at the six
  precedence levels, parentheses only where a looser operator stands under a tighter one, and the
  parser reads the text back as the same tree. So the parser implements the precedences and the
  left associativity the grammar comment of \<open>expr_rule_node.hpp\<close> states.
\<close>

section \<open>Printing\<close>

fun level_no :: "level \<Rightarrow> nat" where
  "level_no L_or = 0"
| "level_no L_and = 1"
| "level_no L_equ = 2"
| "level_no L_cmp = 3"
| "level_no L_add = 4"
| "level_no L_mul = 5"

fun infix_op :: "Op \<Rightarrow> (level \<times> string) option" where
  "infix_op OpOr = Some (L_or, ''||'')"
| "infix_op OpAnd = Some (L_and, ''&&'')"
| "infix_op OpEq = Some (L_equ, ''=='')"
| "infix_op OpNe = Some (L_equ, ''!='')"
| "infix_op OpLe = Some (L_cmp, ''<='')"
| "infix_op OpGe = Some (L_cmp, ''>='')"
| "infix_op OpLt = Some (L_cmp, ''<'')"
| "infix_op OpGt = Some (L_cmp, ''>'')"
| "infix_op OpAdd = Some (L_add, ''+'')"
| "infix_op OpSub = Some (L_add, ''-'')"
| "infix_op OpMul = Some (L_mul, ''*'')"
| "infix_op OpDiv = Some (L_mul, ''/'')"
| "infix_op OpMod = Some (L_mul, ''%'')"
| "infix_op _ = None"

fun prefix_op :: "Op \<Rightarrow> string option" where
  "prefix_op OpNot = Some ''!''"
| "prefix_op OpNeg = Some ''-''"
| "prefix_op _ = None"

definition fn_name :: "Op \<Rightarrow> string" where
  "fn_name c = (case find (\<lambda>(_, c'). c' = c) (kUnary @ kBinary) of Some (n, _) \<Rightarrow> n | None \<Rightarrow> [])"

definition quoted :: "string \<Rightarrow> string" where
  "quoted n = CHR 0x22 # n @ [CHR 0x22]"

definition parens :: "string \<Rightarrow> string" where
  "parens x = CHR ''('' # x @ [CHR '')'']"

text \<open>\<open>print j e\<close> may stand as an operand of level \<open>j\<close>; level 6 is \<open>unary\<close>.\<close>

fun print :: "nat \<Rightarrow> expr \<Rightarrow> string" where
  "print j (Lit l) = l"
| "print j (TagRef n) = quoted n"
| "print j (Unary c a) = (case prefix_op c of
       Some p \<Rightarrow> p @ print 6 a
     | None \<Rightarrow> fn_name c @ parens (print 0 a))"
| "print j (Binary c a b) = (case infix_op c of
       Some (l, p) \<Rightarrow> (let x = print (level_no l) a @ p @ print (Suc (level_no l)) b
                       in if j \<le> level_no l then x else parens x)
     | None \<Rightarrow> fn_name c @ parens (print 0 a @ '','' @ print 0 b))"

text \<open>
  A decimal constant: digits, optionally with a point among them or at either end, and optionally an
  exponent with or without a sign.
\<close>

fun exponent_wf :: "string \<Rightarrow> bool" where
  "exponent_wf [] \<longleftrightarrow> True"
| "exponent_wf (c # cs) \<longleftrightarrow> (c = CHR ''e'' \<or> c = CHR ''E'') \<and>
     (let ds = (if cs \<noteq> [] \<and> hd cs \<in> set ''+-'' then tl cs else cs) in ds \<noteq> [] \<and> list_all is_digit ds)"

definition fraction_of :: "string \<Rightarrow> string" where
  "fraction_of l = (let t = dropWhile is_digit l in
     if t \<noteq> [] \<and> hd t = CHR ''.'' then takeWhile is_digit (tl t) else [])"

definition exponent_of :: "string \<Rightarrow> string" where
  "exponent_of l = (let t = dropWhile is_digit l in
     if t \<noteq> [] \<and> hd t = CHR ''.'' then dropWhile is_digit (tl t) else t)"

definition decimal_lit :: "string \<Rightarrow> bool" where
  "decimal_lit l \<longleftrightarrow> (takeWhile is_digit l \<noteq> [] \<or> fraction_of l \<noteq> []) \<and> exponent_wf (exponent_of l)"

text \<open>Literals are decimal constants the library reads in full; tag names are those a quoted reference
  can hold.\<close>

fun printable :: "'d fp \<Rightarrow> expr \<Rightarrow> bool" where
  "printable F (Lit l) \<longleftrightarrow> decimal_lit l \<and> (\<exists>v. d_stod F l = Some (v, length l))"
| "printable F (TagRef n) \<longleftrightarrow> n \<noteq> [] \<and> CHR 0x22 \<notin> set n"
| "printable F (Unary c a) \<longleftrightarrow> is_unary_op c \<and> printable F a"
| "printable F (Binary c a b) \<longleftrightarrow> is_operator c \<and> \<not> is_unary_op c \<and> printable F a \<and> printable F b"

lemma printable_wf: "printable F e \<Longrightarrow> wf_expr F e"
  by (induction e) auto

section \<open>What may follow an operand\<close>

fun op_chars :: "level \<Rightarrow> string" where
  "op_chars L_or = ''|''"
| "op_chars L_and = ''&''"
| "op_chars L_equ = ''=!''"
| "op_chars L_cmp = ''<>''"
| "op_chars L_add = ''+-''"
| "op_chars L_mul = ''*/%''"

definition stop_chars :: "nat \<Rightarrow> char set" where
  "stop_chars j = set '',)'' \<union> (\<Union>l \<in> {l. level_no l \<le> j}. set (op_chars l))"

text \<open>The text after an operand of level \<open>j\<close>: nothing, a closing delimiter, or an operator that
  binds no tighter than \<open>j\<close>.\<close>

definition follow :: "nat \<Rightarrow> string \<Rightarrow> bool" where
  "follow j r \<longleftrightarrow> (case r of [] \<Rightarrow> True | c # _ \<Rightarrow> c \<in> stop_chars j)"

lemma follow_mono: "follow i r \<Longrightarrow> i \<le> j \<Longrightarrow> follow j r"
  by (auto simp: follow_def stop_chars_def split: list.splits)

lemma follow_close [simp]: "follow j (CHR '')'' # r)" "follow j (CHR '','' # r)" "follow j []"
  by (auto simp: follow_def stop_chars_def)

lemma all_levels: "{L_or, L_and, L_equ, L_cmp, L_add, L_mul} = UNIV"
  by (auto intro: level.exhaust)

lemma op_chars_disjoint: "c \<in> set (op_chars l) \<Longrightarrow> c \<in> set (op_chars l') \<Longrightarrow> l = l'"
  by (cases l; cases l'; auto)

lemma stop_chars_not_op:
  assumes "c \<in> stop_chars j" "j < level_no l"
  shows "c \<notin> set (op_chars l)"
proof
  assume c: "c \<in> set (op_chars l)"
  then have "c \<notin> set '',)''" by (cases l) auto
  then obtain l' where "level_no l' \<le> j" "c \<in> set (op_chars l')"
    using assms(1) by (auto simp: stop_chars_def)
  then show False using op_chars_disjoint [OF c] assms(2) by fastforce
qed

lemma stop_chars_plain:
  assumes "c \<in> stop_chars j"
  shows "\<not> is_space c \<and> \<not> is_digit c \<and> c \<noteq> CHR ''.'' \<and> c \<noteq> CHR ''e'' \<and> c \<noteq> CHR ''E'' \<and> c \<noteq> CHR ''(''"
proof -
  consider "c \<in> set '',)''" | l where "c \<in> set (op_chars l)"
    using assms by (auto simp: stop_chars_def)
  then show ?thesis
  proof cases
    case (2 l)
    then show ?thesis by (cases l) (auto simp: is_space_def is_digit_def)
  qed (auto simp: is_space_def is_digit_def)
qed

section \<open>Lexing on known text\<close>

lemma skip_ws_id: "(case rest s of [] \<Rightarrow> True | c # _ \<Rightarrow> \<not> is_space c) \<Longrightarrow> skip_ws s = s"
  by (cases "rest s") (simp_all add: skip_ws_def)

lemma match1_eq:
  assumes "(case rest s of [] \<Rightarrow> True | c # _ \<Rightarrow> \<not> is_space c)" "c \<noteq> CHR 0x00"
  shows "match1 c s = (case rest s of
    d # _ \<Rightarrow> if d = c then (True, advance 1 s) else (False, s) | [] \<Rightarrow> (False, s))"
  using assms by (cases "rest s") (auto simp: match1_def skip_ws_id peek_rest Let_def)

lemma match2_eq:
  assumes "(case rest s of [] \<Rightarrow> True | c # _ \<Rightarrow> \<not> is_space c)"
  shows "match2 a b s = (case rest s of
    c # d # _ \<Rightarrow> if c = a \<and> d = b then (True, advance 2 s) else (False, s) | _ \<Rightarrow> (False, s))"
proof -
  have s: "skip_ws s = s" by (rule skip_ws_id [OF assms])
  show ?thesis
  proof (cases "pos s + 1 < length (src s)")
    case True
    then have "rest s = src s ! pos s # src s ! (pos s + 1) # drop (pos s + 2) (src s)"
      by (simp add: rest_def Cons_nth_drop_Suc)
    then show ?thesis using s True by (simp add: match2_def)
  next
    case False
    then have "length (rest s) \<le> 1" by (simp add: rest_def)
    then show ?thesis using s False by (auto simp: match2_def split: list.splits)
  qed
qed

lemma first_match_none:
  assumes "follow j (rest s)" "j < level_no l"
  shows "first_match (tests l) (skip_ws s) = (None, s)"
proof (cases "rest s")
  case Nil
  then have "skip_ws s = s" by (simp add: skip_ws_id)
  with Nil show ?thesis by (cases l) (simp_all add: match1_eq match2_eq)
next
  case (Cons c r)
  then have c: "c \<in> stop_chars j" using assms(1) by (simp add: follow_def)
  have sp: "\<not> is_space c" using stop_chars_plain [OF c] by blast
  have "c \<notin> set (op_chars l)" by (rule stop_chars_not_op [OF c assms(2)])
  moreover have "skip_ws s = s" using Cons sp by (simp add: skip_ws_id)
  ultimately show ?thesis
    using Cons sp by (cases l) (auto simp: match1_eq match2_eq split: list.splits)
qed

lemma first_match_infix:
  assumes "infix_op c = Some (l, p)" "rest s = p @ r" "r \<noteq> []" "hd r \<noteq> CHR ''=''"
  shows "first_match (tests l) (skip_ws s) = (Some c, advance (length p) s)"
proof -
  have "skip_ws s = s"
    using assms by (cases c) (auto simp: skip_ws_id is_space_def)
  then show ?thesis
    using assms by (cases c) (auto simp: match1_eq match2_eq is_space_def neq_Nil_conv split: list.splits)
qed

lemma infix_op_first:
  "infix_op c = Some (l, p) \<Longrightarrow> p \<noteq> [] \<and> hd p \<in> set (op_chars l)"
  by (cases c) auto

lemma follow_infix: "infix_op c = Some (l, p) \<Longrightarrow> follow (level_no l) (p @ r)"
  using infix_op_first [of c l p] by (cases p) (auto simp: follow_def stop_chars_def)

section \<open>Big steps\<close>

text \<open>\<open>steps F c s t\<close>: with enough fuel the method \<open>c\<close> takes \<open>s\<close> to \<open>t\<close>.\<close>

definition steps :: "'d fp \<Rightarrow> pcall \<Rightarrow> 'd Parser \<Rightarrow> 'd Parser \<Rightarrow> bool" where
  "steps F c s t \<longleftrightarrow> (\<exists>n. run F n c s = Some t)"

lemma parse_method_mono:
  assumes up: "\<And>d w x. f d w = Some x \<Longrightarrow> g d w = Some x"
    and f: "parse_method F f c s = Some t"
  shows "parse_method F g c s = Some t"
proof (cases c)
  case (C_call nm)
  obtain m u where u: "match1 (CHR ''('') s = (m, u)" by fastforce
  show ?thesis
  proof (cases "m \<and> fn_op nm \<noteq> None")
    case False
    then show ?thesis using f u C_call by (auto split: option.splits)
  next
    case True
    then obtain o2 b where o2: "fn_op nm = Some (o2, b)" "m" by auto
    then obtain v where v: "f (C_level L_or) u = Some v"
      using f u C_call by (auto simp: bind_eq_Some_conv)
    obtain m' w where w: "match1 (CHR '','') (skip_ws v) = (m', w)" by fastforce
    show ?thesis
      using f o2 u w v up [OF v] up [of "C_level L_or" w] C_call by (auto split: if_splits)
  qed
next
  case C_unary
  obtain m u where u: "match1 (CHR ''!'') (skip_ws s) = (m, u)" by fastforce
  obtain m' v where v: "match1 (CHR ''-'') u = (m', v)" by fastforce
  show ?thesis
    using f u v up C_unary by (auto split: if_splits)
next
  case (C_loop l)
  obtain m u where u: "first_match (tests l) (skip_ws s) = (m, u)" by fastforce
  then show ?thesis
    using f up C_loop by (cases m) (auto simp: bind_eq_Some_conv)
qed (use f up in \<open>auto simp: bind_eq_Some_conv Let_def split: if_splits\<close>)

lemma run_mono_Suc: "run F n c s = Some t \<Longrightarrow> run F (Suc n) c s = Some t"
proof (induction n arbitrary: c s t)
  case (Suc n)
  have "parse_method F (run F (Suc n)) c s = Some t"
    by (rule parse_method_mono [OF Suc.IH]) (use Suc.prems in simp_all)
  then show ?case by (simp only: run.simps(2) [of F "Suc n"])
qed simp

lemma run_mono: "run F n c s = Some t \<Longrightarrow> n \<le> m \<Longrightarrow> run F m c s = Some t"
proof (induction m)
  case (Suc m)
  then show ?case using run_mono_Suc [of F m c s t] by (cases "n = Suc m") (auto simp del: run.simps)
qed simp

lemma steps_both:
  assumes "steps F d1 w1 x1" "steps F d2 w2 x2"
  obtains n where "run F n d1 w1 = Some x1" "run F n d2 w2 = Some x2"
proof -
  obtain n1 n2 where "run F n1 d1 w1 = Some x1" "run F n2 d2 w2 = Some x2"
    using assms unfolding steps_def by blast
  then show thesis
    by (intro that [of "max n1 n2"]) (auto intro: run_mono)
qed

lemma steps_intro: "parse_method F (run F n) c s = Some t \<Longrightarrow> steps F c s t"
  unfolding steps_def by (rule exI [of _ "Suc n"]) simp

text \<open>The introduction rules, one per path through a method.\<close>

lemma steps_level:
  assumes "steps F (operand l) s u" "steps F (C_loop l) u t"
  shows "steps F (C_level l) s t"
proof -
  obtain n where "run F n (operand l) s = Some u" "run F n (C_loop l) u = Some t"
    by (rule steps_both [OF assms])
  then show ?thesis by (intro steps_intro [of F n]) simp
qed

lemma steps_loop_stop:
  "first_match (tests l) (skip_ws s) = (None, t) \<Longrightarrow> steps F (C_loop l) s t"
  unfolding steps_def by (rule exI [of _ 1]) simp

lemma steps_loop_step:
  assumes "first_match (tests l) (skip_ws s) = (Some c, u)" "steps F (operand l) u v"
    "steps F (C_loop l) (emit F c v) t"
  shows "steps F (C_loop l) s t"
proof -
  obtain n where "run F n (operand l) u = Some v" "run F n (C_loop l) (emit F c v) = Some t"
    by (rule steps_both [OF assms(2,3)])
  then show ?thesis using assms(1) by (intro steps_intro [of F n]) simp
qed

text \<open>The text starts with the character \<open>c\<close>, not a space.\<close>

lemma match1_hit: "rest s = c # r \<Longrightarrow> \<not> is_space c \<Longrightarrow> c \<noteq> CHR 0x00 \<Longrightarrow> match1 c s = (True, advance 1 s)"
  by (simp add: match1_eq)

lemma match1_miss: "rest s = d # r \<Longrightarrow> \<not> is_space d \<Longrightarrow> d \<noteq> c \<Longrightarrow> c \<noteq> CHR 0x00 \<Longrightarrow> match1 c s = (False, s)"
  by (simp add: match1_eq)

lemma skip_ws_hit: "rest s = c # r \<Longrightarrow> \<not> is_space c \<Longrightarrow> skip_ws s = s"
  by (simp add: skip_ws_id)

lemma steps_not:
  assumes "rest s = CHR ''!'' # r" "steps F C_unary (advance 1 s) t"
  shows "steps F C_unary s (emit F OpNot t)"
proof -
  obtain n where "run F n C_unary (advance 1 s) = Some t"
    using assms(2) unfolding steps_def by blast
  then show ?thesis
    using match1_hit [OF assms(1)] skip_ws_hit [OF assms(1)]
    by (intro steps_intro [of F n]) (simp add: is_space_def)
qed

lemma steps_neg:
  assumes "rest s = CHR ''-'' # r" "steps F C_unary (advance 1 s) t"
  shows "steps F C_unary s (emit F OpNeg t)"
proof -
  obtain n where "run F n C_unary (advance 1 s) = Some t"
    using assms(2) unfolding steps_def by blast
  then show ?thesis
    using match1_hit [OF assms(1)] match1_miss [OF assms(1), of "CHR ''!''"] skip_ws_hit [OF assms(1)]
    by (intro steps_intro [of F n]) (simp add: is_space_def)
qed

lemma steps_to_primary:
  assumes "rest s = c # r" "\<not> is_space c" "c \<noteq> CHR ''!''" "c \<noteq> CHR ''-''" "steps F C_primary s t"
  shows "steps F C_unary s t"
proof -
  obtain n where "run F n C_primary s = Some t"
    using assms(5) unfolding steps_def by blast
  then show ?thesis
    using match1_miss [OF assms(1,2)] assms(3,4) skip_ws_hit [OF assms(1,2)]
    by (intro steps_intro [of F n]) simp
qed

lemma steps_paren:
  assumes "\<not> p_failed s" "rest s = CHR ''('' # r" "steps F (C_level L_or) (advance 1 s) t"
    "rest t = CHR '')'' # r'"
  shows "steps F C_unary s (advance 1 t)"
proof (rule steps_to_primary [OF assms(2)])
  obtain n where n: "run F n (C_level L_or) (advance 1 s) = Some t"
    using assms(3) unfolding steps_def by blast
  have "skip_ws s = s" "skip_ws t = t" "match1 (CHR '')'') t = (True, advance 1 t)"
    using assms(2,4) by (simp_all add: skip_ws_hit is_space_def match1_hit)
  then show "steps F C_primary s (advance 1 t)"
    using assms(1,2) n by (intro steps_intro [of F n]) (simp add: peek_rest)
qed (simp_all add: is_space_def)

lemma steps_string:
  assumes "\<not> p_failed s" "rest s = quoted nm @ r" "nm \<noteq> []" "CHR 0x22 \<notin> set nm"
  shows "steps F C_unary s (emit_tag F nm (advance (length (quoted nm)) s))"
proof -
  have s: "rest s = CHR 0x22 # nm @ CHR 0x22 # r" using assms(2) by (simp add: quoted_def)
  have sk: "skip_ws s = s" "match1 (CHR 0x22) s = (True, advance 1 s)"
    using s by (simp_all add: skip_ws_hit is_space_def match1_hit)
  have tw: "takeWhile (\<lambda>c. c \<noteq> CHR 0x22) (rest (advance 1 s)) = nm"
    using s assms(4) by (simp add: takeWhile_append takeWhile_eq_all_conv [THEN iffD2])
  have "pos s + 1 + length nm < length (src s)"
  proof -
    have "length (rest s) \<ge> length nm + 2" using s by simp
    then show ?thesis by (simp add: rest_def)
  qed
  then have body: "parse_string_body F s = emit_tag F nm (advance (length (quoted nm)) s)"
    using sk tw assms(3) by (simp add: parse_string_body_def Let_def quoted_def)
  show ?thesis
  proof (rule steps_to_primary [OF s])
    show "steps F C_primary s (emit_tag F nm (advance (length (quoted nm)) s))"
      using assms(1) s sk body by (intro steps_intro [of F 0]) (simp add: peek_rest)
  qed (simp_all add: is_space_def)
qed

lemma decimal_lit_parts:
  assumes "decimal_lit l"
  obtains m where "l = m @ exponent_of l" "m \<noteq> []" "list_all (\<lambda>c. is_digit c \<or> c = CHR ''.'') m"
proof -
  let ?w = "takeWhile is_digit l" and ?t = "dropWhile is_digit l"
  have w: "list_all is_digit ?w" "list_all is_digit (fraction_of l)"
    by (auto simp: list_all_iff fraction_of_def Let_def dest: set_takeWhileD)
  show thesis
  proof (cases "?t \<noteq> [] \<and> hd ?t = CHR ''.''")
    case True
    then have "?t = CHR ''.'' # fraction_of l @ exponent_of l"
      by (cases ?t) (simp_all add: fraction_of_def exponent_of_def)
    then have "l = (?w @ CHR ''.'' # fraction_of l) @ exponent_of l" by (metis append.assoc append_Cons takeWhile_dropWhile_id)
    then show thesis by (rule that) (use w in \<open>auto simp: list_all_iff\<close>)
  next
    case False
    then have "exponent_of l = ?t" "fraction_of l = []" unfolding exponent_of_def fraction_of_def Let_def by (simp_all only: if_False)
    then have "l = ?w @ exponent_of l" "?w \<noteq> []" using assms by (simp_all add: decimal_lit_def)
    then show thesis by (rule that) (use w(1) in \<open>auto simp: list_all_iff\<close>)
  qed
qed

lemma digit_not_e: "is_digit c \<or> c = CHR ''.'' \<Longrightarrow> c \<noteq> CHR ''e'' \<and> c \<noteq> CHR ''E''"
  by (auto simp: is_digit_def)

definition not_e :: "char option \<Rightarrow> bool" where
  "not_e prev \<longleftrightarrow> prev \<noteq> Some (CHR ''e'') \<and> prev \<noteq> Some (CHR ''E'')"

lemma num_span_mantissa:
  assumes "list_all (\<lambda>c. is_digit c \<or> c = CHR ''.'') m" "m \<noteq> []"
  shows "\<exists>prev'. not_e prev' \<and> num_span prev (m @ r) = length m + num_span prev' r"
  using assms
proof (induction m arbitrary: prev)
  case (Cons c m)
  have c: "is_digit c \<or> c = CHR ''.''" using Cons.prems(1) by simp
  then have n: "num_span prev ((c # m) @ r) = Suc (num_span (Some c) (m @ r))" by auto
  show ?case
  proof (cases "m = []")
    case True
    then show ?thesis using n digit_not_e [OF c] by (intro exI [of _ "Some c"]) (simp add: not_e_def)
  next
    case False
    then show ?thesis using Cons.IH [of "Some c"] Cons.prems(1) n by simp
  qed
qed simp

lemma num_span_stop: "follow j r \<Longrightarrow> not_e prev \<Longrightarrow> num_span prev r = 0"
  using stop_chars_plain [of _ j] by (cases r) (auto simp: follow_def not_e_def)

lemma num_span_digits:
  assumes "list_all is_digit l" "l \<noteq> []" "follow j r"
  shows "num_span prev (l @ r) = length l"
proof -
  have "list_all (\<lambda>c. is_digit c \<or> c = CHR ''.'') l" using assms(1) by (auto simp: list_all_iff)
  from num_span_mantissa [OF this assms(2), of prev r] show ?thesis using num_span_stop [OF assms(3)] by auto
qed

lemma num_span_exponent:
  assumes "exponent_wf ex" "follow j r" "not_e prev"
  shows "num_span prev (ex @ r) = length ex"
proof (cases ex)
  case Nil
  then show ?thesis using num_span_stop [OF assms(2,3)] by simp
next
  case (Cons c cs)
  then have c: "c = CHR ''e'' \<or> c = CHR ''E''" using assms(1) by simp
  have head: "num_span prev (ex @ r) = Suc (num_span (Some c) (cs @ r))" using c Cons by auto
  show ?thesis
  proof (cases "cs \<noteq> [] \<and> hd cs \<in> set ''+-''")
    case True
    then obtain d ds where d: "cs = d # ds" "d = CHR ''+'' \<or> d = CHR ''-''" by (cases cs) auto
    then have "num_span (Some c) (cs @ r) = Suc (num_span (Some d) (ds @ r))" using c by auto
    moreover have "ds \<noteq> []" "list_all is_digit ds" using assms(1) Cons True d by (auto simp: Let_def)
    ultimately show ?thesis using head Cons d num_span_digits [OF _ _ assms(2)] by simp
  next
    case False
    then have "cs \<noteq> []" "list_all is_digit cs" using assms(1) Cons by (auto simp: Let_def)
    then show ?thesis using head Cons num_span_digits [OF _ _ assms(2)] by simp
  qed
qed

lemma num_span_decimal:
  assumes "decimal_lit l" "follow j r"
  shows "num_span None (l @ r) = length l"
proof -
  obtain m where m: "l = m @ exponent_of l" "m \<noteq> []" "list_all (\<lambda>c. is_digit c \<or> c = CHR ''.'') m"
    using decimal_lit_parts [OF assms(1)] by blast
  obtain prev where p: "not_e prev" "num_span None (m @ exponent_of l @ r) = length m + num_span prev (exponent_of l @ r)"
    using num_span_mantissa [OF m(3,2)] by blast
  have "num_span None (l @ r) = num_span None (m @ exponent_of l @ r)" using m(1) by (metis append.assoc)
  also have "\<dots> = length m + length (exponent_of l)"
    using p num_span_exponent [OF _ assms(2) p(1)] assms(1) by (simp add: decimal_lit_def)
  also have "\<dots> = length l" using m(1) by (metis length_append)
  finally show ?thesis .
qed

lemma decimal_lit_start:
  assumes "decimal_lit l"
  obtains d l' where "l = d # l'" "is_digit d \<or> d = CHR ''.''"
proof -
  obtain m where "l = m @ exponent_of l" "m \<noteq> []" "list_all (\<lambda>c. is_digit c \<or> c = CHR ''.'') m"
    using decimal_lit_parts [OF assms] by blast
  then show thesis using that [of "hd m" "tl m @ exponent_of l"] by (cases m) auto
qed

lemma steps_literal:
  assumes "\<not> p_failed s" "rest s = l @ r" "decimal_lit l" "follow j r"
    "d_stod F l = Some (v, length l)"
  shows "steps F C_unary s (emit_const v (advance (length l) s))"
proof -
  obtain d l' where l: "l = d # l'" and d: "is_digit d \<or> d = CHR ''.''" by (rule decimal_lit_start [OF assms(3)])
  then have other: "\<not> is_space d" "d \<noteq> CHR ''!''" "d \<noteq> CHR ''-''" "d \<noteq> CHR ''(''" "d \<noteq> CHR 0x22"
    by (auto simp: is_space_def is_digit_def)
  have s: "rest s = d # (l' @ r)" using assms(2) l by simp
  have "num_span None (rest s) = length l"
    unfolding assms(2) by (rule num_span_decimal [OF assms(3,4)])
  then have num: "parse_number F s = emit_const v (advance (length l) s)"
    using assms(2,5) by (simp add: parse_number_def)
  show ?thesis
  proof (rule steps_to_primary [OF s other(1-3)])
    show "steps F C_primary s (emit_const v (advance (length l) s))"
      using assms(1) s d other skip_ws_hit [OF s other(1)] num
      by (intro steps_intro [of F 0]) (simp add: peek_rest)
  qed
qed

section \<open>Function calls\<close>

text \<open>The operators written as functions.\<close>

definition is_function :: "Op \<Rightarrow> bool" where
  "is_function c \<longleftrightarrow> is_operator c \<and> infix_op c = None \<and> prefix_op c = None"

lemma fn_name_facts:
  assumes "is_function c"
  shows "fn_op (fn_name c) = Some (c, \<not> is_unary_op c)" "fn_name c \<noteq> ''tag''" "fn_name c \<noteq> []"
    "list_all is_ident_start (fn_name c)"
  using assms
  by (cases c; simp add: is_function_def is_operator_def fn_name_def fn_op_def kUnary_def kBinary_def
      is_unary_op_def is_ident_start_def)+

lemma steps_call:
  assumes nf: "\<not> p_failed s" and s: "rest s = fn_name c @ CHR ''('' # r" and c: "is_function c"
    and call: "steps F (C_call (fn_name c)) (advance (length (fn_name c)) s) t"
  shows "steps F C_unary s t"
proof -
  note f = fn_name_facts [OF c]
  obtain d nm where nm: "fn_name c = d # nm" using f(3) by (cases "fn_name c") auto
  then have "is_ident_start d" using f(4) by simp
  then have d: "is_ident_start d" "\<not> is_space d" "d \<noteq> CHR ''!''" "d \<noteq> CHR ''-''" "d \<noteq> CHR ''(''"
    "d \<noteq> CHR 0x22" "\<not> is_digit d" "d \<noteq> CHR ''.''"
    by (auto simp: is_ident_start_def is_space_def is_digit_def)
  have s': "rest s = d # (nm @ CHR ''('' # r)" using s nm by simp
  have "list_all is_ident_char (fn_name c)"
    using f(4) by (auto simp: list_all_iff is_ident_char_def)
  moreover have "\<not> is_ident_char (CHR ''('')"
    by (simp add: is_ident_char_def is_ident_start_def is_digit_def)
  ultimately have tw: "takeWhile is_ident_char (rest s) = fn_name c"
    unfolding s by (simp add: takeWhile_append list_all_iff takeWhile_eq_all_conv [THEN iffD2])
  let ?u = "advance (length (fn_name c)) s"
  have u: "rest ?u = CHR ''('' # r" using s by simp
  have sk: "skip_ws ?u = ?u" using u by (simp add: skip_ws_hit is_space_def)
  obtain n where n: "run F n (C_call (fn_name c)) ?u = Some t"
    using call unfolding steps_def by blast
  have ident: "run F (Suc n) C_ident s = Some t"
    using tw f(2) sk u n by (simp add: peek_rest Let_def)
  show ?thesis
  proof (rule steps_to_primary [OF s' d(2-4)])
    show "steps F C_primary s t"
      using nf s' d skip_ws_hit [OF s' d(2)] ident
      by (intro steps_intro [of F "Suc n"]) (simp add: peek_rest del: run.simps)
  qed
qed

lemma close_call_hit:
  assumes "rest v = CHR '')'' # r"
  shows "close_call F nm c v = emit F c (advance 1 v)"
  using assms by (simp add: close_call_def skip_ws_hit is_space_def match1_hit)

lemma steps_call1:
  assumes "fn_op nm = Some (c, False)" "rest s = CHR ''('' # r" "steps F (C_level L_or) (advance 1 s) v"
    "rest v = CHR '')'' # r'"
  shows "steps F (C_call nm) s (emit F c (advance 1 v))"
proof -
  obtain n where "run F n (C_level L_or) (advance 1 s) = Some v"
    using assms(3) unfolding steps_def by blast
  then show ?thesis
    using assms(1,2) close_call_hit [OF assms(4)] match1_hit [OF assms(2)]
    by (intro steps_intro [of F n]) (simp add: is_space_def)
qed

lemma steps_call2:
  assumes "fn_op nm = Some (c, True)" "rest s = CHR ''('' # r" "steps F (C_level L_or) (advance 1 s) v"
    "rest v = CHR '','' # r'" "steps F (C_level L_or) (advance 1 v) w" "rest w = CHR '')'' # r''"
  shows "steps F (C_call nm) s (emit F c (advance 1 w))"
proof -
  obtain n where n: "run F n (C_level L_or) (advance 1 s) = Some v"
    "run F n (C_level L_or) (advance 1 v) = Some w"
    by (rule steps_both [OF assms(3,5)])
  have "skip_ws v = v" "match1 (CHR '','') v = (True, advance 1 v)"
    using assms(4) by (simp_all add: skip_ws_hit is_space_def match1_hit)
  then show ?thesis
    using n assms(1,2) close_call_hit [OF assms(6)] match1_hit [OF assms(2)]
    by (intro steps_intro [of F n]) (simp add: is_space_def)
qed

section \<open>Reading a printed tree\<close>

text \<open>What the parser emits for a tree, as one function of the state.\<close>

fun emit_expr :: "'d fp \<Rightarrow> expr \<Rightarrow> 'd Parser \<Rightarrow> 'd Parser" where
  "emit_expr F (Lit l) s = emit_const (lit_value F l) s"
| "emit_expr F (TagRef n) s = emit_tag F n s"
| "emit_expr F (Unary c a) s = emit F c (emit_expr F a s)"
| "emit_expr F (Binary c a b) s = emit F c (emit_expr F b (emit_expr F a s))"

lemma advance_emit: "emit F c (advance n s) = advance n (emit F c s)"
  by (simp add: emit_def advance_def Let_def)

lemma advance_push_depth: "push_depth (advance n s) = advance n (push_depth s)"
  by (simp add: push_depth_def advance_def Let_def)

lemma advance_emit_const: "emit_const v (advance n s) = advance n (emit_const v s)"
  by (simp add: emit_const_def advance_def push_depth_def Let_def)

lemma advance_emit_tag: "emit_tag F nm (advance n s) = advance n (emit_tag F nm s)"
  by (simp add: emit_tag_def advance_def push_depth_def Let_def split: option.split)

lemma advance_emit_expr: "emit_expr F e (advance n s) = advance n (emit_expr F e s)"
  by (induction e arbitrary: s) (simp_all add: advance_emit advance_emit_const advance_emit_tag)

lemma rest_emit_expr [simp]: "rest (emit_expr F e s) = rest s"
  by (induction e arbitrary: s) simp_all

lemma failed_emit_expr [simp]: "p_failed (emit_expr F e s) = p_failed s"
  by (induction e arbitrary: s) simp_all

definition after :: "'d fp \<Rightarrow> nat \<Rightarrow> expr \<Rightarrow> 'd Parser \<Rightarrow> 'd Parser" where
  "after F n e s = advance n (emit_expr F e s)"

text \<open>From \<open>s\<close> the method of level \<open>i\<close> has read one operand and stands at its loop in \<open>u\<close>.\<close>

definition level_of :: "nat \<Rightarrow> level" where
  "level_of n = [L_or, L_and, L_equ, L_cmp, L_add, L_mul] ! n"

definition reaches :: "'d fp \<Rightarrow> nat \<Rightarrow> 'd Parser \<Rightarrow> 'd Parser \<Rightarrow> bool" where
  "reaches F i s u \<longleftrightarrow> (if i < 6
     then (\<forall>t. steps F (C_loop (level_of i)) u t \<longrightarrow> steps F (C_level (level_of i)) s t)
     else steps F C_unary s u)"

lemma less_6_cases: "i < 6 \<Longrightarrow> i = 0 \<or> i = 1 \<or> i = 2 \<or> i = 3 \<or> i = 4 \<or> i = (5 :: nat)"
  by auto

lemma level_of_no: "i < 6 \<Longrightarrow> level_no (level_of i) = i"
  by (auto simp: level_of_def dest!: less_6_cases)

lemma level_no_less [simp]: "level_no l < 6"
  by (cases l) auto

lemma level_no_le [simp]: "level_no l \<le> 5" "level_no l \<le> 6"
  by (cases l; simp)+

lemma level_of_level_no [simp]: "level_of (level_no l) = l"
  by (cases l) (auto simp: level_of_def)

lemma level_of_0 [simp]: "level_of 0 = L_or"
  by (simp add: level_of_def)

lemma operand_level_of:
  "i < 6 \<Longrightarrow> operand (level_of i) = (if Suc i < 6 then C_level (level_of (Suc i)) else C_unary)"
  by (auto simp: level_of_def dest!: less_6_cases)

lemma steps_loop_end: "follow j (rest u) \<Longrightarrow> j < level_no l \<Longrightarrow> steps F (C_loop l) u u"
  by (rule steps_loop_stop [OF first_match_none])

lemma reaches_operand:
  assumes "reaches F (Suc i) s u" "follow i (rest u)" "i < 6"
  shows "steps F (operand (level_of i)) s u"
proof (cases "Suc i < 6")
  case True
  then have "steps F (C_loop (level_of (Suc i))) u u"
    using steps_loop_end [OF assms(2)] level_of_no [OF True] by simp
  then show ?thesis
    using assms(1,3) True operand_level_of by (simp add: reaches_def)
next
  case False
  then show ?thesis
    using assms(1,3) operand_level_of by (simp add: reaches_def)
qed

lemma reaches_down:
  assumes "reaches F i s u" "follow j (rest u)" "j \<le> i" "i \<le> 6"
  shows "reaches F j s u"
  using assms(3,1,4)
proof (induction i rule: dec_induct)
  case (step n)
  have "steps F (operand (level_of n)) s u"
    using step.prems step.hyps follow_mono [OF assms(2)] by (intro reaches_operand) simp_all
  then have "reaches F n s u"
    using step.prems step.hyps by (simp add: reaches_def steps_level)
  then show ?case using step by simp
qed simp

lemma reaches_level0: "reaches F 0 s u \<Longrightarrow> rest u = c # r \<Longrightarrow> c = CHR '')'' \<or> c = CHR '','' \<Longrightarrow> steps F (C_level L_or) s u"
proof -
  assume a: "reaches F 0 s u" "rest u = c # r" "c = CHR '')'' \<or> c = CHR '',''"
  have "first_match (tests L_or) (skip_ws u) = (None, u)"
    using a(2,3) by (auto simp: skip_ws_hit is_space_def match2_eq split: list.splits)
  then have "steps F (C_loop L_or) u u" by (rule steps_loop_stop)
  then show ?thesis using a(1) by (simp add: reaches_def)
qed

lemma reaches_unary: "steps F C_unary s u \<Longrightarrow> follow j (rest u) \<Longrightarrow> j \<le> 6 \<Longrightarrow> reaches F j s u"
  by (rule reaches_down [of F 6]) (simp_all add: reaches_def)

lemma prefix_op_iff: "prefix_op c = Some p \<longleftrightarrow> c = OpNot \<and> p = ''!'' \<or> c = OpNeg \<and> p = ''-''"
  by (cases c) auto

lemma unary_cases:
  assumes "is_unary_op c"
  obtains "c = OpNot" | "c = OpNeg" | "is_function c" "prefix_op c = None"
  using assms by (cases c) (auto simp: is_unary_op_def is_function_def is_operator_def)

lemma print_start: "printable F e \<Longrightarrow> print j e \<noteq> [] \<and> hd (print j e) \<noteq> CHR ''=''"
proof (induction e arbitrary: j)
  case (Lit l)
  then have "decimal_lit l" by simp
  then obtain d l' where "l = d # l'" "is_digit d \<or> d = CHR ''.''" by (rule decimal_lit_start)
  then show ?case by (auto simp: is_digit_def)
next
  case (TagRef n)
  then show ?case by (simp add: quoted_def)
next
  case (Unary c a)
  then show ?case
    using fn_name_facts(3,4) [of c] by (cases "fn_name c")
      (auto simp: is_ident_start_def prefix_op_iff elim!: unary_cases split: option.splits)
next
  case (Binary c a b)
  show ?case
  proof (cases "infix_op c")
    case None
    then have "is_function c"
      using Binary.prems by (cases c) (auto simp: is_function_def is_unary_op_def)
    then show ?thesis
      using None fn_name_facts(3,4) [of c] by (cases "fn_name c") (auto simp: is_ident_start_def)
  next
    case (Some lp)
    then show ?thesis
      using Binary by (cases lp) (auto simp: Let_def parens_def)
  qed
qed

lemma rest_after [simp]: "rest (after F n e s) = drop n (rest s)"
  by (simp add: after_def)

lemma failed_after [simp]: "p_failed (after F n e s) = p_failed s"
  by (simp add: after_def)

lemma after_advance: "after F n e (advance m s) = advance (m + n) (emit_expr F e s)"
  by (simp add: after_def advance_emit_expr)

text \<open>An argument between delimiters: a whole \<open>expr\<close>.\<close>

definition reads :: "'d fp \<Rightarrow> expr \<Rightarrow> bool" where
  "reads F e \<longleftrightarrow> (\<forall>j s r. \<not> p_failed s \<longrightarrow> rest s = print j e @ r \<longrightarrow> follow j r \<longrightarrow> j \<le> 6 \<longrightarrow>
     reaches F j s (after F (length (print j e)) e s))"

lemma readsD:
  assumes "reads F e" "\<not> p_failed s" "rest s = print j e @ r" "follow j r" "j \<le> 6"
  shows "reaches F j s (after F (length (print j e)) e s)"
  using assms unfolding reads_def by blast

lemma reads_argument:
  assumes "reads F e" "\<not> p_failed s" "rest s = print 0 e @ c # r" "c = CHR '')'' \<or> c = CHR '',''"
  shows "steps F (C_level L_or) s (after F (length (print 0 e)) e s)"
proof -
  have "follow 0 (c # r)" using assms(4) by auto
  then have "reaches F 0 s (after F (length (print 0 e)) e s)"
    using assms(1-3) by (intro readsD) simp_all
  then show ?thesis
    by (rule reaches_level0 [of _ _ _ c r]) (use assms(3,4) in simp_all)
qed

lemma reads_leaf:
  assumes "\<And>j s r. \<not> p_failed s \<Longrightarrow> rest s = print j e @ r \<Longrightarrow> follow j r \<Longrightarrow>
    steps F C_unary s (after F (length (print j e)) e s)"
  shows "reads F e"
  unfolding reads_def using assms by (auto intro!: reaches_unary)

lemma reads_Lit: "printable F (Lit l) \<Longrightarrow> reads F (Lit l)"
  using steps_literal [where l = l and F = F]
  by (intro reads_leaf) (auto simp: after_def advance_emit_const lit_value_def)

lemma reads_TagRef: "printable F (TagRef n) \<Longrightarrow> reads F (TagRef n)"
  using steps_string [where nm = n and F = F]
  by (intro reads_leaf) (simp add: after_def advance_emit_tag)

lemma reads_Unary:
  assumes a: "reads F a" and c: "is_unary_op c"
  shows "reads F (Unary c a)"
proof (rule reads_leaf)
  fix j r and s :: "'a Parser"
  assume nf: "\<not> p_failed s" and s: "rest s = print j (Unary c a) @ r" and fol: "follow j r"
  have prefix: "steps F C_unary (advance 1 s) (after F (length (print 6 a)) a (advance 1 s))"
    if "prefix_op c = Some [d]" for d
  proof -
    have "follow 6 r"
      using fol by (auto simp: follow_def stop_chars_def less_imp_le split: list.splits)
    then show ?thesis
      using readsD [OF a, of "advance 1 s" 6 r] nf s that by (simp add: reaches_def)
  qed
  from c show "steps F C_unary s (after F (length (print j (Unary c a))) (Unary c a) s)"
  proof (cases rule: unary_cases)
    case 1
    have "steps F C_unary s (emit F OpNot (after F (length (print 6 a)) a (advance 1 s)))"
      by (rule steps_not [OF _ prefix]) (use s 1 in simp_all)
    then show ?thesis using 1 by (simp add: after_def advance_emit_expr advance_emit add.commute)
  next
    case 2
    have "steps F C_unary s (emit F OpNeg (after F (length (print 6 a)) a (advance 1 s)))"
      by (rule steps_neg [OF _ prefix]) (use s 2 in simp_all)
    then show ?thesis using 2 by (simp add: after_def advance_emit_expr advance_emit add.commute)
  next
    case 3
    let ?n = "length (fn_name c)"
    let ?v = "after F (length (print 0 a)) a (advance (Suc ?n) s)"
    have s': "rest s = fn_name c @ CHR ''('' # print 0 a @ CHR '')'' # r"
      using s 3 by (simp add: parens_def)
    have "steps F (C_level L_or) (advance (Suc ?n) s) ?v"
      by (rule reads_argument [OF a, of _ "CHR '')''" r]) (use nf s' in simp_all)
    then have "steps F (C_call (fn_name c)) (advance ?n s) (emit F c (advance 1 ?v))"
      using fn_name_facts(1) [OF 3(1)] c s' by (intro steps_call1) simp_all
    then have "steps F C_unary s (emit F c (advance 1 ?v))"
      using 3(1) nf s' by (intro steps_call) simp_all
    then show ?thesis
      using 3 by (simp add: after_def advance_emit_expr advance_emit parens_def add.assoc add.commute)
  qed
qed

text \<open>The left operand, the operator, the right operand one level tighter.\<close>

lemma reads_infix:
  assumes a: "reads F a" and b: "reads F b" and pb: "printable F b" and o: "infix_op c = Some (l, p)"
    and nf: "\<not> p_failed s" and s: "rest s = x @ r" and fol: "follow (level_no l) r"
    and x: "x = print (level_no l) a @ p @ print (Suc (level_no l)) b"
  shows "reaches F (level_no l) s (after F (length x) (Binary c a b) s)"
proof -
  let ?i = "level_no l"
  let ?la = "length (print ?i a)" and ?lb = "length (print (Suc ?i) b)" and ?lp = "length p"
  let ?u = "after F ?la a s"
  let ?v = "after F ?lb b (advance ?lp ?u)"
  have i: "?i < 6" "level_of ?i = l" by simp_all
  have ru: "rest ?u = p @ print (Suc ?i) b @ r" using s x by simp
  have "reaches F ?i s ?u"
    using nf s x follow_infix [OF o] i by (intro readsD [OF a]) simp_all
  moreover have "steps F (C_loop l) ?u t" if t: "steps F (C_loop l) (emit F c ?v) t" for t
  proof (rule steps_loop_step [OF _ _ t])
    show "first_match (tests l) (skip_ws ?u) = (Some c, advance ?lp ?u)"
      using print_start [OF pb, of "Suc ?i"] by (intro first_match_infix [OF o ru]) auto
    have "reaches F (Suc ?i) (advance ?lp ?u) ?v"
      using nf ru follow_mono [OF fol, of "Suc ?i"] level_no_less [of l] by (intro readsD [OF b]) simp_all
    moreover have "rest ?v = r" using ru by (simp del: rest_after add: rest_after [of _ ?lb])
    ultimately show "steps F (operand l) (advance ?lp ?u) ?v"
      using reaches_operand [of F ?i "advance ?lp ?u" ?v] fol i by simp
  qed
  moreover have "emit F c ?v = after F (length x) (Binary c a b) s"
    by (simp add: x after_def advance_emit_expr advance_emit add.assoc)
  ultimately show ?thesis
    using i by (simp add: reaches_def)
qed

lemma reads_Binary:
  assumes a: "reads F a" "printable F a" and b: "reads F b" "printable F b"
    and c: "is_operator c" "\<not> is_unary_op c"
  shows "reads F (Binary c a b)"
proof (cases "infix_op c")
  case (Some lp)
  obtain l p where lp: "lp = (l, p)" by fastforce
  define x where "x = print (level_no l) a @ p @ print (Suc (level_no l)) b"
  have o: "infix_op c = Some (l, p)" using Some lp by simp
  note core = reads_infix [OF a(1) b o _ _ _ x_def]
  show ?thesis
    unfolding reads_def
  proof (intro allI impI)
    fix j r and s :: "'a Parser"
    assume nf: "\<not> p_failed s" and s: "rest s = print j (Binary c a b) @ r" and fol: "follow j r" and j: "j \<le> 6"
    show "reaches F j s (after F (length (print j (Binary c a b))) (Binary c a b) s)"
    proof (cases "j \<le> level_no l")
      case True
      then have pr: "print j (Binary c a b) = x" using o by (simp add: x_def)
      have "reaches F (level_no l) s (after F (length x) (Binary c a b) s)"
        using core [OF nf] s pr follow_mono [OF fol True] by simp
      then show ?thesis
        unfolding pr by (rule reaches_down) (use True fol s pr in simp_all)
    next
      case False
      then have pr: "print j (Binary c a b) = parens x" using o by (simp add: x_def)
      let ?v = "after F (length x) (Binary c a b) (advance 1 s)"
      have s': "rest s = CHR ''('' # x @ CHR '')'' # r" using s pr by (simp add: parens_def)
      have "reaches F (level_no l) (advance 1 s) ?v"
        using core [of "advance 1 s" "CHR '')'' # r"] nf s' by simp
      then have "reaches F 0 (advance 1 s) ?v"
        by (rule reaches_down) (use s' in simp_all)
      then have "steps F (C_level L_or) (advance 1 s) ?v"
        by (rule reaches_level0 [of _ _ _ "CHR '')''" r]) (use s' in simp_all)
      then have "steps F C_unary s (advance 1 ?v)"
        using nf s' by (intro steps_paren) simp_all
      moreover have "advance 1 ?v = after F (length (parens x)) (Binary c a b) s"
        by (simp add: after_def advance_emit_expr advance_emit parens_def)
      ultimately show ?thesis
        unfolding pr using fol j s pr by (intro reaches_unary) simp_all
    qed
  qed
next
  case None
  then have f: "is_function c" "prefix_op c = None"
    using c by (cases c; simp add: is_function_def is_unary_op_def)+
  show ?thesis
  proof (rule reads_leaf)
    fix j r and s :: "'a Parser"
    assume nf: "\<not> p_failed s" and s: "rest s = print j (Binary c a b) @ r"
    let ?n = "length (fn_name c)"
    let ?v = "after F (length (print 0 a)) a (advance (Suc ?n) s)"
    let ?w = "after F (length (print 0 b)) b (advance 1 ?v)"
    have s': "rest s = fn_name c @ CHR ''('' # print 0 a @ CHR '','' # print 0 b @ CHR '')'' # r"
      using s None by (simp add: parens_def)
    have "steps F (C_level L_or) (advance (Suc ?n) s) ?v"
      by (rule reads_argument [OF a(1), of _ "CHR '',''" "print 0 b @ CHR '')'' # r"]) (use nf s' in simp_all)
    moreover have "steps F (C_level L_or) (advance 1 ?v) ?w"
      by (rule reads_argument [OF b(1), of _ "CHR '')''" r]) (use nf s' in simp_all)
    ultimately have "steps F (C_call (fn_name c)) (advance ?n s) (emit F c (advance 1 ?w))"
      using fn_name_facts(1) [OF f(1)] c s' by (intro steps_call2) simp_all
    then have "steps F C_unary s (emit F c (advance 1 ?w))"
      using f(1) nf s' by (intro steps_call) simp_all
    then show "steps F C_unary s (after F (length (print j (Binary c a b))) (Binary c a b) s)"
      using None by (simp add: after_def advance_emit_expr advance_emit parens_def add.assoc add.commute add.left_commute)
  qed
qed

lemma printable_reads: "printable F e \<Longrightarrow> reads F e"
  by (induction e) (auto intro: reads_Lit reads_TagRef reads_Unary reads_Binary simp del: printable.simps(1,2))

end
