(* ===== verification/Expr_Props.thy ===== *)
theory Expr_Props
  imports Expr_Print
begin

text \<open>
  The properties of the rule language, with their witnesses over integer arithmetic, and the depth
  that the evaluator's stack does not hold although the parser accepts it.
\<close>

section \<open>From the text to the program\<close>

lemma emitted_emit_expr: "printable F e \<Longrightarrow> \<not> p_failed s \<Longrightarrow> emitted F e s (emit_expr F e s)"
proof (induction e arbitrary: s)
  case (Lit l)
  then show ?case using emitted_const [of s F l] by (auto simp: lit_value_def)
next
  case (TagRef n)
  then show ?case by (simp add: emitted_tag)
next
  case (Unary c a)
  then show ?case by (simp add: emitted_unary)
next
  case (Binary c a b)
  then have "emitted F a s (emit_expr F a s)"
    "emitted F b (emit_expr F a s) (emit_expr F b (emit_expr F a s))" by simp_all
  then show ?case using Binary.prems by (simp add: emitted_binary)
qed

lemma compile_print:
  assumes "printable F e"
  shows "compile F (print 0 e) = finish (after F (length (print 0 e)) e (new_Parser (print 0 e)))"
proof -
  let ?x = "print 0 e"
  let ?s = "new_Parser ?x"
  let ?u = "after F (length ?x) e ?s"
  have s: "rest ?s = ?x @ []" "\<not> p_failed ?s" by (simp_all add: new_Parser_def rest_def)
  have "reaches F 0 ?s ?u"
    using readsD [OF printable_reads [OF assms] s(2,1)] by simp
  moreover have "steps F (C_loop L_or) ?u ?u"
  proof (rule steps_loop_stop)
    have r: "rest ?u = []" unfolding rest_after s(1) by simp
    then have "skip_ws ?u = ?u" by (simp add: skip_ws_id)
    then show "first_match (tests L_or) (skip_ws ?u) = (None, ?u)"
      using r by (simp add: match2_eq)
  qed
  ultimately have "steps F (C_level L_or) ?s ?u"
    by (simp add: reaches_def)
  then obtain n where n: "run F n (C_level L_or) ?s = Some ?u" unfolding steps_def by blast
  obtain t where t: "run F (10 * length ?x + 10) (C_level L_or) ?s = Some t" "compile F ?x = finish t"
    using compile_parses by blast
  have "t = ?u"
    using run_mono [OF n, of "max n (10 * length ?x + 10)"]
      run_mono [OF t(1), of "max n (10 * length ?x + 10)"] by simp
  then show ?thesis using t(2) by simp
qed

lemma compile_print_program:
  assumes "printable F e"
  shows "compile F (print 0 e) = (let u = emit_expr F e (new_Parser (print 0 e)) in
    \<lparr>code = p_code u, names = p_names u, max_depth = p_max_depth u, ok = True, prog_error = None\<rparr>)"
proof -
  let ?x = "print 0 e"
  let ?u = "emit_expr F e (new_Parser ?x)"
  have "pos (emit_expr F e s) = pos s \<and> src (emit_expr F e s) = src s" for s :: "'a Parser"
    by (induction e arbitrary: s)
      (simp_all add: emit_def emit_const_def emit_tag_def push_depth_def Let_def split: option.split)
  then have pos: "pos ?u = 0" "src ?u = ?x" by (simp_all add: new_Parser_def)
  then have "rest (advance (length ?x) ?u) = []" by (simp add: rest_def)
  then have "skip_ws (advance (length ?x) ?u) = advance (length ?x) ?u" by (simp add: skip_ws_id)
  moreover have "\<not> p_failed ?u" by (simp add: new_Parser_def)
  ultimately show ?thesis
    using pos unfolding compile_print [OF assms] after_def by (simp add: finish_def Let_def)
qed

lemma program_of_print:
  assumes "printable F e"
  shows "ok (compile F (print 0 e)) \<and> program_of F (compile F (print 0 e)) e"
proof -
  have "emitted F e (new_Parser (print 0 e)) (emit_expr F e (new_Parser (print 0 e)))"
    using assms by (intro emitted_emit_expr) (simp_all add: new_Parser_def)
  then show ?thesis
    using printable_wf [OF assms]
    unfolding compile_print_program [OF assms] program_of_def emitted_def Let_def
    by (auto simp: new_Parser_def)
qed

section \<open>Integer arithmetic as an instance\<close>

definition digit_value :: "char \<Rightarrow> int" where
  "digit_value c = int (of_char c) - 48"

definition int_stod :: "string \<Rightarrow> (int \<times> nat) option" where
  "int_stod l = (if l \<noteq> [] \<and> list_all is_digit l
     then Some (foldl (\<lambda>v c. 10 * v + digit_value c) 0 l, length l) else None)"

definition int_fp :: "int fp" where
  "int_fp = \<lparr>d_zero = 0, d_one = 1, d_neg = uminus, d_add = (+), d_sub = (-), d_mul = (*),
     d_div = (div), d_fmod = (mod), d_pow = (\<lambda>a b. a ^ nat b), d_lt = (<), d_le = (\<le>), d_eq = (=),
     d_isnan = (\<lambda>_. False), d_fabs = abs, d_floor = id, d_ceil = id, d_round = id, d_sqrt = id,
     d_sin = id, d_cos = id, d_tan = id, d_asin = id, d_acos = id, d_atan = id, d_log = id,
     d_log10 = id, d_exp = id, d_of_int = id, d_to_word = of_int, d_stod = int_stod\<rparr>"

text \<open>Decimal constants cut to their integer part, for the literals with a point or an exponent.\<close>

definition digits_value :: "string \<Rightarrow> int" where
  "digits_value = foldl (\<lambda>v c. 10 * v + digit_value c) 0"

definition exponent_value :: "string \<Rightarrow> int" where
  "exponent_value ex = (case ex of
       _ # CHR ''-'' # ds \<Rightarrow> - digits_value ds
     | _ # CHR ''+'' # ds \<Rightarrow> digits_value ds
     | _ # ds \<Rightarrow> digits_value ds
     | [] \<Rightarrow> 0)"

definition dec_stod :: "string \<Rightarrow> (int \<times> nat) option" where
  "dec_stod l = (if decimal_lit l
     then let n = digits_value (takeWhile is_digit l @ fraction_of l);
              e = exponent_value (exponent_of l) - int (length (fraction_of l))
          in Some (if 0 \<le> e then n * 10 ^ nat e else n div 10 ^ nat (- e), length l)
     else None)"

section \<open>Right-nested sums\<close>

definition one_lit :: string where
  "one_lit = ''1''"

fun deep :: "nat \<Rightarrow> expr" where
  "deep 0 = Lit one_lit"
| "deep (Suc n) = Binary OpAdd (Lit one_lit) (deep n)"

lemma peak_deep: "peak (deep n) = Suc n"
  by (induction n) auto

lemma rpn_deep:
  "rpn F (deep n) = replicate (Suc n) (SConst (lit_value F one_lit)) @ replicate n (SOp OpAdd)"
  by (induction n) (simp_all add: replicate_append_same)

lemma decimal_digits: "l \<noteq> [] \<Longrightarrow> list_all is_digit l \<Longrightarrow> decimal_lit l"
  by (simp add: decimal_lit_def exponent_of_def list_all_iff takeWhile_eq_all_conv [THEN iffD2] dropWhile_eq_Nil_conv [THEN iffD2])

lemma printable_deep:
  assumes "d_stod F one_lit = Some (v, 1)"
  shows "printable F (deep n)"
  using assms by (induction n) (simp_all add: one_lit_def decimal_digits is_digit_def is_operator_def is_unary_op_def)

lemma names_deep:
  assumes "d_stod F one_lit = Some (v, 1)"
  shows "names (compile F (print 0 (deep n))) = []"
proof -
  have "p_names (emit_expr F (deep n) s) = p_names s" for s :: "'a Parser"
    by (induction n arbitrary: s) (simp_all add: emit_def emit_const_def push_depth_def Let_def)
  then show ?thesis
    by (simp add: compile_print_program [OF printable_deep [OF assms]] new_Parser_def Let_def)
qed

lemma eval_consts:
  assumes "map (resolve nms) c = replicate m (SConst v) @ ys" "length stk + m = kMaxStack" "0 < m"
  shows "eval_loop F ctx nms c stk nan = Some (replicate m v @ stk, nan \<or> d_isnan F v)"
  using assms
proof (induction m arbitrary: c stk nan)
  case (Suc m)
  then obtain i c' where c: "c = i # c'" "op i = OpConst" "ik i = v"
    "map (resolve nms) c' = replicate m (SConst v) @ ys"
    by (auto simp: resolve_SConst)
  have ex: "exec_instr F ctx nms i stk = Some (v # stk)"
    using Suc.prems(2) c by (simp add: exec_const)
  show ?case
  proof (cases "m = 0")
    case True
    then show ?thesis using eval_loop_step [OF ex] Suc.prems(2) c(1) by simp
  next
    case False
    then have "eval_loop F ctx nms c' (v # stk) (nan \<or> d_isnan F v) =
        Some (replicate m v @ v # stk, (nan \<or> d_isnan F v) \<or> d_isnan F v)"
      using Suc.IH [OF c(4), of "v # stk"] Suc.prems(2) by simp
    then show ?thesis
      using eval_loop_step [OF ex] Suc.prems(2) False c(1)
      by (simp add: replicate_app_Cons_same)
  qed
qed simp

lemma denote_deep: "denote int_fp ctx (deep n) = int (Suc n)"
  by (induction n)
     (simp_all add: lit_value_def int_fp_def int_stod_def one_lit_def is_digit_def digit_value_def)

lemma int_stod_one: "d_stod int_fp one_lit = Some (1, 1)"
  by (simp add: int_fp_def int_stod_def one_lit_def is_digit_def digit_value_def)

section \<open>Properties\<close>

text \<open>
  C14: The parser reads back what the grammar prints. For every expression tree whose literals are decimal
  constants, with or without a fraction and an exponent, that the library reads in full and whose tag names
  are not empty and without a quote, the text with the documented precedences (tags quoted, parentheses only
  under a tighter operator) is accepted, and the emitted program is the postfix form of that very tree, with
  the tree's stack need recorded.
\<close>

theorem compile_reads_back:
  assumes "printable F e"
  shows "ok (compile F (print 0 e)) \<and> program_of F (compile F (print 0 e)) e"
  using assms by (rule program_of_print)

definition mixed_expr :: expr where
  "mixed_expr = Binary OpMul (Binary OpSub (Lit ''2.50e+1'') (TagRef ''t'')) (Unary OpNeg (Lit ''.75E2''))"

theorem compile_reads_back_witness:
  "print 0 mixed_expr = ''(2.50e+1-'' @ CHR 0x22 # ''t'' @ CHR 0x22 # '')*-.75E2'' \<and>
   program_of (int_fp\<lparr>d_stod := dec_stod\<rparr>) (compile (int_fp\<lparr>d_stod := dec_stod\<rparr>) (print 0 mixed_expr)) mixed_expr \<and>
   dec_stod ''2.50e+1'' = Some (25, 7) \<and> dec_stod ''.75E2'' = Some (75, 5)"
proof -
  have d: "decimal_lit ''2.50e+1''" "decimal_lit ''.75E2''"
    by (simp_all add: decimal_lit_def fraction_of_def exponent_of_def is_digit_def)
  have v: "dec_stod ''2.50e+1'' = Some (25, 7)" "dec_stod ''.75E2'' = Some (75, 5)"
    by (simp_all add: dec_stod_def d) (simp_all add: fraction_of_def exponent_of_def is_digit_def exponent_value_def digits_value_def digit_value_def)
  have "printable (int_fp\<lparr>d_stod := dec_stod\<rparr>) mixed_expr"
    by (simp add: mixed_expr_def d v is_operator_def is_unary_op_def)
  from compile_reads_back [OF this] v show ?thesis
    by (simp add: mixed_expr_def parens_def quoted_def)
qed

text \<open>
  C13: What an accepted rule means. It is the postfix form of some expression tree; its evaluation
  never reads or writes outside the value stack, whatever the context; and when its recorded depth
  is below the stack size the result is the value of the tree, with the NaN flag raised exactly
  when some subexpression is NaN.
\<close>

theorem accepted_rule_evaluates:
  assumes "ok (compile F x)" "length (names (compile F x)) \<le> 2 ^ 32"
  shows "\<exists>e. program_of F (compile F x) e \<and>
    (\<forall>ctx. evaluate F (compile F x) ctx \<noteq> None \<and>
      (max_depth (compile F x) < kMaxStack \<longrightarrow>
        evaluate F (compile F x) ctx = Some (denote F ctx e, nan_inside F ctx e)))"
proof -
  obtain e where e: "program_of F (compile F x) e" using compile_program [OF assms(1)] by blast
  show ?thesis
    using e evaluate_defined [OF e assms(2)] evaluate_fits [OF e assms(2)] by blast
qed

theorem accepted_rule_evaluates_witness:
  "evaluate int_fp (compile int_fp (print 0 (deep 3))) new_context \<noteq> None"
  using accepted_rule_evaluates [of int_fp "print 0 (deep 3)"]
    program_of_print [OF printable_deep [OF int_stod_one]] names_deep [OF int_stod_one] by auto

text \<open>
  The parser does not bound the depth. A sum nested to the right \<open>n \<ge> 127\<close> times is accepted,
  with depth \<open>n + 1\<close> recorded; evaluating it stops when the stack is full and returns the last
  operand pushed, not the sum.
\<close>

theorem deep_rule_truncated:
  assumes "d_stod F one_lit = Some (v, 1)" "127 \<le> n"
  shows "ok (compile F (print 0 (deep n))) \<and> max_depth (compile F (print 0 (deep n))) = Suc n \<and>
    evaluate F (compile F (print 0 (deep n))) ctx = Some (v, d_isnan F v)"
proof -
  let ?p = "compile F (print 0 (deep n))"
  have p: "ok ?p" "program_of F ?p (deep n)"
    using program_of_print [OF printable_deep [OF assms(1)]] by blast+
  have lv: "lit_value F one_lit = v" using assms(1) by (simp add: lit_value_def)
  have n: "Suc n = kMaxStack + (n - 127)" using assms(2) by (simp add: kMaxStack_def)
  have "map (resolve (names ?p)) (code ?p) = rpn F (deep n)"
    using p(2) names_deep [OF assms(1), of n] by (simp add: program_of_def)
  also have "\<dots> = replicate kMaxStack (SConst v) @
      replicate (n - 127) (SConst v) @ replicate n (SOp OpAdd)"
    unfolding rpn_deep lv n replicate_add by simp
  finally have "eval_loop F ctx (names ?p) (code ?p) [] False =
      Some (replicate kMaxStack v @ [], False \<or> d_isnan F v)"
    by (rule eval_consts) (simp_all add: kMaxStack_def)
  then have "evaluate F ?p ctx = Some (v, d_isnan F v)"
    by (simp add: evaluate_def kMaxStack_def)
  then show ?thesis using p peak_deep [of n] by (simp add: program_of_def)
qed

theorem deep_rule_truncated_witness:
  "evaluate int_fp (compile int_fp (print 0 (deep 127))) new_context = Some (1, False) \<and>
   denote int_fp new_context (deep 127) = 128"
  using deep_rule_truncated [OF int_stod_one, of 127 new_context] denote_deep [of new_context 127]
  by (simp add: int_fp_def)

end
