(* ===== verification/Flow_Props.thy ===== *)
theory Flow_Props
  imports Flow_Plan Expr_Props
begin

text \<open>
  The properties of the flow runtime: what an accepted application's plan looks like, that executing
  it returns, how a linear plan runs, and what the compiler accepts although its execution goes wrong.
\<close>

section \<open>The pipeline a linear plan runs\<close>

fun run_pipeline :: "'d env \<Rightarrow> nat \<Rightarrow> 'd Node list \<Rightarrow> 'd Node list \<Rightarrow> 'd ProcessingContext \<Rightarrow> 'd exec_result" where
  "run_pipeline E i before [] c = Done before c"
| "run_pipeline E i before (n # ns) c = (case process E n c of
       None \<Rightarrow> Undefined
     | Some (Stop, n, c) \<Rightarrow> Done (before @ n # ns) c
     | Some (Error, n, c) \<Rightarrow> Done (before @ n # ns) (c\<lparr>failed := True, failed_step := i\<rparr>)
     | Some (Continue, n, c) \<Rightarrow> run_pipeline E (Suc i) (before @ [n]) ns c)"

definition linear_steps :: "nat \<Rightarrow> CompiledFlow" where
  "linear_steps n = map (\<lambda>i. \<lparr>node = i, required_label = [], loop_back_target = None\<rparr>) [0..<n]"

lemma linear_exec_pass:
  assumes "process E n c = p"
  shows "exec_pass E (linear_steps (length before + Suc m)) (length before) (before @ n # ns) c =
    (case p of None \<Rightarrow> Halt Undefined
     | Some (Stop, n', c') \<Rightarrow> Halt (Done (before @ n' # ns) c')
     | Some (Error, n', c') \<Rightarrow> Halt (Done (before @ n' # ns) (c'\<lparr>failed := True, failed_step := length before\<rparr>))
     | Some (Continue, n', c') \<Rightarrow> Go (Suc (length before)) (before @ n' # ns) c')"
proof -
  have "linear_steps (length before + Suc m) ! length before =
      \<lparr>node = length before, required_label = [], loop_back_target = None\<rparr>"
    unfolding linear_steps_def by (subst nth_map) (simp_all del: upt_Suc add_Suc_right)
  then show ?thesis
    using assms by (auto simp: exec_pass_def skipped_def Let_def split: option.splits prod.splits NodeResult.splits)
qed

lemma linear_exec_loop:
  "exec_loop E (Suc (length ns)) (linear_steps (length before + length ns)) (length before) (before @ ns) c =
     Some (run_pipeline E (length before) before ns c)"
proof (induction ns arbitrary: before c)
  case Nil
  then show ?case by (simp add: linear_steps_def)
next
  case (Cons n ns)
  have len: "length (linear_steps (Suc (length before + length ns))) = Suc (length before + length ns)"
    by (simp add: linear_steps_def)
  have step: "exec_loop E (Suc (length (n # ns))) (linear_steps (Suc (length before + length ns))) (length before) (before @ n # ns) c =
      (case exec_pass E (linear_steps (Suc (length before + length ns))) (length before) (before @ n # ns) c of
         Halt r \<Rightarrow> Some r
       | Go i ns' c \<Rightarrow> exec_loop E (Suc (length ns)) (linear_steps (Suc (length before + length ns))) i ns' c)"
    using len by simp
  show ?case
  proof (cases "process E n c")
    case None
    then show ?thesis using step linear_exec_pass [OF None] by simp
  next
    case (Some rnc)
    obtain r n' c' where rnc: "rnc = (r, n', c')" by (metis prod_cases3)
    note pass = linear_exec_pass [OF Some [unfolded rnc], of before "length ns" ns]
    show ?thesis
    proof (cases r)
      case Continue
      then show ?thesis
        using step pass Some rnc Cons.IH [of "before @ [n']" c'] by simp
    qed (use step pass Some rnc in simp_all)
  qed
qed

section \<open>Fuel for a plan\<close>

definition exec_fuel :: "'d CompiledPlan \<Rightarrow> 'd ProcessingContext \<Rightarrow> nat" where
  "exec_fuel plan c = Suc (exec_weight (plan_flow plan) (nodes plan) 0 c * Suc (length (plan_flow plan)) +
     length (plan_flow plan))"

section \<open>Literal programs over integers\<close>

definition lit_program :: "int \<Rightarrow> int Program" where
  "lit_program v = \<lparr>code = [\<lparr>op = OpConst, ik = v, itag = 0\<rparr>], names = [], max_depth = 1, ok = True, prog_error = None\<rparr>"

lemma compile_lit:
  assumes "int_stod l = Some (v, length l)"
  shows "compile int_fp l = lit_program v"
proof -
  have "printable int_fp (Lit l)"
    using assms by (auto simp: decimal_digits int_stod_def int_fp_def split: if_splits)
  from compile_print_program [OF this] show ?thesis
    using assms by (simp add: lit_program_def lit_value_def int_fp_def new_Parser_def emit_const_def push_depth_def)
qed

lemma evaluate_lit: "evaluate F (lit_program v) c = Some (v, d_isnan F v)"
  by (simp add: evaluate_def lit_program_def exec_instr_def push_value_def kMaxStack_def)

lemma ok_lit [simp]: "ok (lit_program v)"
  by (simp add: lit_program_def)

lemma int_literals [simp]:
  "compile int_fp ''0'' = lit_program 0" "compile int_fp ''1'' = lit_program 1"
  "compile int_fp ''7'' = lit_program 7" "compile int_fp ''9'' = lit_program 9"
  by (simp_all add: compile_lit int_stod_def is_digit_def digit_value_def)

lemma int_fp_simps [simp]:
  "d_zero int_fp = 0" "d_one int_fp = 1" "d_add int_fp a b = a + b" "d_le int_fp a b = (a \<le> b)"
  "d_eq int_fp a b = (a = b)" "d_isnan int_fp a = False" "d_of_int int_fp i = i"
  by (simp_all add: int_fp_def)

abbreviation builtins :: "int fp \<Rightarrow> (int json \<Rightarrow> string) \<Rightarrow> int NodeRegistry" where
  "builtins F dump \<equiv> register_builtins F dump Map.empty"

lemma builtins_lookup:
  "builtins int_fp dump ''aero.source.decode'' = Some (desc Source ''aero.source.decode'', plain DecodeSourceNode)"
  "builtins int_fp dump ''aero.flow.loop_start'' = Some (desc Rule ''aero.flow.loop_start'', loop_start_factory int_fp)"
  "builtins int_fp dump ''aero.flow.loop_back'' = Some (desc Rule ''aero.flow.loop_back'', loop_back_factory int_fp)"
  "builtins int_fp dump ''aero.output.sum'' = Some ((desc Output ''aero.output.sum'')\<lparr>terminal := True\<rparr>, plain SumOutputNode)"
  "builtins int_fp dump ''aero.flow.switch'' = Some (desc Rule ''aero.flow.switch'', switch_factory int_fp)"
  "builtins int_fp dump ''aero.transform.set'' = Some (desc Transform ''aero.transform.set'', set_factory int_fp)"
  "builtins int_fp dump ''aero.output.mes'' = Some (desc Output ''aero.output.mes'', mes_report_factory)"
  by (simp_all add: register_builtins_def register_type_def desc_def)

lemmas config_simps = validate_node_config_def need_string_def need_name_def need_expr_def need_positive_def
  as_long_long_def has_string_def string_at_def contains_def at_def

lemmas factory_simps = create_def plain_def loop_start_factory_def loop_back_factory_def switch_factory_def
  set_factory_def value_string_def value_or_def

lemma small_lists:
  "replicate 4 x = [x, x, x, x]" "replicate 6 x = [x, x, x, x, x, x]"
  "[0..<4] = [0, 1, 2, 3]" "[0..<6] = [0, 1, 2, 3, 4, 5]"
  by (simp_all add: numeral_eq_Suc upt_rec)

lemma list_update_numeral:
  "(x # xs)[numeral n := y] = x # xs[pred_numeral n := y]" "(x # xs)[1 := y] = x # xs[0 := y]"
  by (simp_all add: numeral_eq_Suc)

lemmas graph_eval = small_lists list_update_numeral conflicting_def label_of_def desc_def

section \<open>An application whose loop edge goes back to the loop start\<close>

definition spec :: "string \<Rightarrow> string \<Rightarrow> (string \<times> int json) list \<Rightarrow> int NodeSpec" where
  "spec i t ms = \<lparr>ns_id = i, ns_type_id = t, ns_config = JObject ms\<rparr>"

definition edge :: "string \<Rightarrow> string \<Rightarrow> string \<Rightarrow> EdgeSpec" where
  "edge u p v = \<lparr>es_from = u, es_from_port = p, es_to = v\<rparr>"

definition app_of :: "int NodeSpec list \<Rightarrow> EdgeSpec list \<Rightarrow> int Application" where
  "app_of ns es = \<lparr>app_name = ''app'', version = ''1'', actor = \<lparr>as_kind = ''edge'', as_key = 0\<rparr>, flow = ns,
     edges = es, driver = None, persistence = None\<rparr>"

definition loop_specs :: "int NodeSpec list" where
  "loop_specs = [spec ''src'' ''aero.source.decode'' [],
     spec ''ls'' ''aero.flow.loop_start'' [(''counter_tag'', JString ''i''), (''start_expr'', JString ''0''),
       (''max_iterations'', JUInt 5), (''max_duration_ms'', JUInt 1000)],
     spec ''lb'' ''aero.flow.loop_back'' [(''counter_tag'', JString ''i''), (''end_expr'', JString ''9'')],
     spec ''out'' ''aero.output.sum'' []]"

definition runaway_app :: "int Application" where
  "runaway_app = app_of loop_specs [edge ''src'' [] ''ls'', edge ''ls'' [] ''lb'', edge ''lb'' [] ''out'',
     edge ''lb'' ''loop_back'' ''ls'']"

definition loop_nodes :: "int Node list" where
  "loop_nodes = [DecodeSourceNode, LoopStartNode (lit_program 0) ''i'' 5 1000,
     LoopBackNode ''i'' (lit_program 1) (lit_program 9), SumOutputNode]"

definition runaway_plan :: "int CompiledPlan" where
  "runaway_plan = \<lparr>nodes = loop_nodes, plan_flow =
     [\<lparr>node = 0, required_label = [], loop_back_target = None\<rparr>,
      \<lparr>node = 1, required_label = [], loop_back_target = None\<rparr>,
      \<lparr>node = 2, required_label = [], loop_back_target = Some 1\<rparr>,
      \<lparr>node = 3, required_label = [], loop_back_target = None\<rparr>]\<rparr>"

lemma loop_nodes_built: "build_nodes int_fp (builtins int_fp dump) loop_specs = Accepted loop_nodes"
  by (simp add: loop_specs_def spec_def loop_nodes_def reg_contains_def builtins_lookup config_simps factory_simps)

lemma runaway_compiled: "compile_flow int_fp (builtins int_fp dump) runaway_app = Accepted runaway_plan"
proof -
  have f: "flow runaway_app = loop_specs" "edges runaway_app = [edge ''src'' [] ''ls'', edge ''ls'' [] ''lb'',
      edge ''lb'' [] ''out'', edge ''lb'' ''loop_back'' ''ls'']"
    by (simp_all add: runaway_app_def app_of_def)
  have ids: "map ns_id (flow runaway_app) = [''src'', ''ls'', ''lb'', ''out'']" "length (flow runaway_app) = 4"
    by (simp_all add: f loop_specs_def spec_def)
  have idx: "id_to_index runaway_app ''src'' = Some 0" "id_to_index runaway_app ''ls'' = Some 1"
    "id_to_index runaway_app ''lb'' = Some 2" "id_to_index runaway_app ''out'' = Some 3"
    by (simp_all add: id_to_index_def ids upt_rec)
  have read: "read_edges runaway_app (edges runaway_app) (new_edge_state 4) =
      Inr \<lparr>adj = [[(1, [])], [(2, [])], [(3, [])], []], in_degree = [0, 1, 1, 1], branch_source = None,
           loop_edge = Some (2, 1)\<rparr>"
    by (simp add: f read_edge_def edge_def idx link_edge_def new_edge_state_def graph_eval)
  have "order_flow_graph runaway_app loop_nodes =
      Inr \<lparr>go_order = [0, 1, 2, 3], go_labels = [[], [], [], []], go_loop_edge = Some (2, 1)\<rparr>"
    by (simp add: order_flow_graph_def ids read loop_nodes_def graph_eval)
  moreover have "validate_terminal_placement runaway_app loop_nodes = None"
    by (simp add: validate_terminal_placement_def f edge_def idx loop_nodes_def graph_eval)
  moreover have "validate_tag_writers runaway_app [[], [], [], []] = None"
    by (simp add: validate_tag_writers_def ids index_pairs_def graph_eval collides_def writer_at_def f loop_specs_def
        spec_def static_tag_write_def upt_rec)
  moreover have "wire [0, 1, 2, 3] [[], [], [], []] (Some (2, 1)) loop_nodes = runaway_plan"
    by (simp add: wire_graph runaway_plan_def step_for_def label_at_def jump_target_def position_of_def loop_nodes_def
        graph_eval)
  ultimately show ?thesis
    using loop_nodes_built [of dump]
    by (simp add: compile_flow_def f loop_specs_def has_category_def loop_nodes_def desc_def)
qed

text \<open>A clock on which no pass takes a second.\<close>

definition fast_clock :: "'d env \<Rightarrow> bool" where
  "fast_clock E \<longleftrightarrow> (\<forall>k. e_now E (Suc k) < e_now E k + 1000)"

lemma runaway_start:
  assumes "e_fp E = int_fp"
  shows "\<exists>c'. exec_pass E (plan_flow runaway_plan) 1 loop_nodes c = Go 2 loop_nodes c' \<and>
    find_tag ''i'' (tags c') = Some 0 \<and> loop_iterations_remaining c' = 5 \<and>
    loop_deadline c' = Some (e_now E (clock_reads c) + 1000) \<and> clock_reads c' = Suc (clock_reads c)"
  using assms
  by (simp add: exec_pass_def runaway_plan_def loop_nodes_def skipped_def loop_start_def evaluate_lit
      steady_now_def Let_def list_update_numeral find_write_tag)

lemma runaway_back:
  assumes "e_fp E = int_fp" "find_tag ''i'' (tags c) = Some 0" "loop_iterations_remaining c = 5"
    "loop_deadline c = Some d" "e_now E (clock_reads c) < d"
  shows "\<exists>c'. exec_pass E (plan_flow runaway_plan) 2 loop_nodes c = Go 1 loop_nodes c'"
  using assms
  by (simp add: exec_pass_def runaway_plan_def loop_nodes_def skipped_def loop_back_def loop_decide_def time_up_def
      evaluate_lit steady_now_def Let_def list_update_numeral)

lemma runaway_cycle:
  assumes "e_fp E = int_fp" "fast_clock E"
  shows "exec_loop E n (plan_flow runaway_plan) 1 loop_nodes c = None"
proof (induction n arbitrary: c rule: less_induct)
  case (less n)
  obtain c1 where c1: "exec_pass E (plan_flow runaway_plan) 1 loop_nodes c = Go 2 loop_nodes c1"
    "find_tag ''i'' (tags c1) = Some 0" "loop_iterations_remaining c1 = 5"
    "loop_deadline c1 = Some (e_now E (clock_reads c) + 1000)" "clock_reads c1 = Suc (clock_reads c)"
    using runaway_start [OF assms(1)] by blast
  have "e_now E (clock_reads c1) < e_now E (clock_reads c) + 1000"
    using assms(2) c1(5) by (simp add: fast_clock_def)
  then obtain c2 where c2: "exec_pass E (plan_flow runaway_plan) 2 loop_nodes c1 = Go 1 loop_nodes c2"
    using runaway_back [OF assms(1) c1(2-4)] by blast
  have len: "length (plan_flow runaway_plan) = 4" by (simp add: runaway_plan_def)
  show ?case
  proof (cases n)
    case (Suc m)
    show ?thesis
    proof (cases m)
      case (Suc m')
      then have "exec_loop E n (plan_flow runaway_plan) 1 loop_nodes c =
          exec_loop E m' (plan_flow runaway_plan) 1 loop_nodes c2"
        using \<open>n = Suc m\<close> c1(1) c2 len by simp
      then show ?thesis using less.IH [of m' c2] \<open>n = Suc m\<close> Suc by simp
    qed (use Suc c1(1) len in simp)
  qed simp
qed

section \<open>Two switches\<close>

definition two_switch_app :: "int Application" where
  "two_switch_app = app_of
     [spec ''src'' ''aero.source.decode'' [], spec ''a'' ''aero.flow.switch'' [(''expr'', JString ''1'')],
      spec ''b'' ''aero.flow.switch'' [(''expr'', JString ''0'')],
      spec ''x'' ''aero.transform.set'' [(''tag'', JString ''x''), (''expr'', JString ''7'')],
      spec ''y'' ''aero.transform.set'' [(''tag'', JString ''y''), (''expr'', JString ''7'')],
      spec ''out'' ''aero.output.sum'' []]
     [edge ''src'' [] ''a'', edge ''src'' [] ''b'', edge ''a'' ''true'' ''x'', edge ''a'' ''false'' ''y'',
      edge ''x'' [] ''out'', edge ''y'' [] ''out'', edge ''b'' [] ''out'']"

definition two_switch_nodes :: "int Node list" where
  "two_switch_nodes = [DecodeSourceNode, SwitchNode (lit_program 1), SwitchNode (lit_program 0),
     SetNode (lit_program 7) ''x'', SetNode (lit_program 7) ''y'', SumOutputNode]"

definition two_switch_plan :: "int CompiledPlan" where
  "two_switch_plan = \<lparr>nodes = two_switch_nodes, plan_flow =
     [\<lparr>node = 0, required_label = [], loop_back_target = None\<rparr>,
      \<lparr>node = 1, required_label = [], loop_back_target = None\<rparr>,
      \<lparr>node = 2, required_label = [], loop_back_target = None\<rparr>,
      \<lparr>node = 3, required_label = ''true'', loop_back_target = None\<rparr>,
      \<lparr>node = 4, required_label = ''false'', loop_back_target = None\<rparr>,
      \<lparr>node = 5, required_label = [], loop_back_target = None\<rparr>]\<rparr>"

lemma two_switch_built:
  "build_nodes int_fp (builtins int_fp dump) (flow two_switch_app) = Accepted two_switch_nodes"
  by (simp add: two_switch_app_def app_of_def spec_def two_switch_nodes_def reg_contains_def builtins_lookup
      config_simps factory_simps)

lemma two_switch_compiled:
  "compile_flow int_fp (builtins int_fp dump) two_switch_app = Accepted two_switch_plan"
proof -
  let ?app = two_switch_app
  have es: "edges ?app = [edge ''src'' [] ''a'', edge ''src'' [] ''b'', edge ''a'' ''true'' ''x'',
      edge ''a'' ''false'' ''y'', edge ''x'' [] ''out'', edge ''y'' [] ''out'', edge ''b'' [] ''out'']"
    by (simp add: two_switch_app_def app_of_def)
  have ids: "map ns_id (flow ?app) = [''src'', ''a'', ''b'', ''x'', ''y'', ''out'']" "length (flow ?app) = 6"
    by (simp_all add: two_switch_app_def app_of_def spec_def)
  have idx: "id_to_index ?app ''src'' = Some 0" "id_to_index ?app ''a'' = Some 1" "id_to_index ?app ''b'' = Some 2"
    "id_to_index ?app ''x'' = Some 3" "id_to_index ?app ''y'' = Some 4" "id_to_index ?app ''out'' = Some 5"
    by (simp_all add: id_to_index_def ids upt_rec)
  have read: "read_edges ?app (edges ?app) (new_edge_state 6) =
      Inr \<lparr>adj = [[(1, []), (2, [])], [(3, ''true''), (4, ''false'')], [(5, [])], [(5, [])], [(5, [])], []],
           in_degree = [0, 1, 1, 1, 1, 3], branch_source = Some 1, loop_edge = None\<rparr>"
    by (simp add: es read_edge_def edge_def idx link_edge_def new_edge_state_def graph_eval)
  have "order_flow_graph ?app two_switch_nodes = Inr \<lparr>go_order = [0, 1, 2, 3, 4, 5],
      go_labels = [[], [], [], ''true'', ''false'', []], go_loop_edge = None\<rparr>"
    by (simp add: order_flow_graph_def ids read two_switch_nodes_def graph_eval)
  moreover have "validate_terminal_placement ?app two_switch_nodes = None"
    by (simp add: validate_terminal_placement_def es edge_def idx two_switch_nodes_def graph_eval)
  moreover have "validate_tag_writers ?app [[], [], [], ''true'', ''false'', []] = None"
    by (simp add: validate_tag_writers_def index_pairs_def graph_eval collides_def writer_at_def two_switch_app_def
        app_of_def spec_def static_tag_write_def upt_rec config_simps)
  moreover have "wire [0, 1, 2, 3, 4, 5] [[], [], [], ''true'', ''false'', []] None two_switch_nodes = two_switch_plan"
    by (simp add: wire_graph two_switch_plan_def step_for_def label_at_def jump_target_def)
  ultimately show ?thesis
    using two_switch_built [of dump] ids(2)
    by (auto simp: compile_flow_def es has_category_def two_switch_nodes_def desc_def)
qed

section \<open>Loop start configurations\<close>

definition loop_config :: "u64 \<Rightarrow> int json" where
  "loop_config m = JObject [(''counter_tag'', JString ''i''), (''start_expr'', JString ''0''),
     (''max_iterations'', JUInt m), (''max_duration_ms'', JUInt 1000)]"

section \<open>Properties\<close>

text \<open>
  C8: The plan of an accepted application. It holds one node per flow entry, a Source and an Output
  among them. Without edges the steps are the nodes in array order, unconditional and without
  jumps. With edges the steps are the nodes in an order in which every node occurs once, every edge
  but the loop edge goes forward and its label is the required label of the node it reaches, and all
  labelled edges leave a single node. In both cases two nodes that write the same statically known
  tag carry different branch labels.
\<close>

theorem compiled_plan_correct:
  "case compile_flow F reg app of
     Throws \<Rightarrow> True | Rejected _ \<Rightarrow> True
   | Accepted plan \<Rightarrow>
       length (nodes plan) = length (flow app) \<and> has_category Source (nodes plan) \<and> has_category Output (nodes plan) \<and>
       (\<exists>labels.
          (if edges app = [] then plan_flow plan = linear_steps (length (flow app)) \<and> labels = []
           else (\<exists>go. good_order app go \<and> labels = go_labels go \<and>
             plan_flow plan = map (step_for (go_order go) labels (go_loop_edge go) (length (flow app))) (go_order go))) \<and>
          list_all (\<lambda>(a, b). \<not> collides app labels (a, b)) (index_pairs (length (flow app))))"
proof (cases "compile_flow F reg app")
  case (Accepted plan)
  have none: "list_all (\<lambda>(a, b). \<not> collides app labels (a, b)) (index_pairs (length (flow app)))"
    if "validate_tag_writers app labels = None" for labels
    using that by (auto simp: validate_tag_writers_def find_None_iff list_all_iff split: option.splits)
  from Accepted show ?thesis
  proof (cases rule: compile_flow_cases)
    case (linear ns)
    have "collides app (replicate (length (flow app)) []) = collides app []"
      by (simp add: collides_def label_at_def fun_eq_iff mutually_exclusive_def)
    with none [OF linear(3)] have "list_all (\<lambda>(a, b). \<not> collides app [] (a, b)) (index_pairs (length (flow app)))"
      by simp
    then show ?thesis
      using Accepted linear build_nodes_length [OF linear(1)] by (auto simp: wire_linear linear_steps_def)
  next
    case (graph ns go)
    have len: "length ns = length (flow app)" by (rule build_nodes_length [OF graph(1)])
    have good: "good_order app go" by (rule order_flow_graph_good [OF graph(3)])
    note plan = plan_steps_graph [OF good graph(6) len]
    have "\<exists>labels. (\<exists>go. good_order app go \<and> labels = go_labels go \<and>
        plan_flow plan = map (step_for (go_order go) labels (go_loop_edge go) (length (flow app))) (go_order go)) \<and>
        list_all (\<lambda>(a, b). \<not> collides app labels (a, b)) (index_pairs (length (flow app)))"
      using good none [OF graph(4)] plan graph(5) by (intro exI [of _ "go_labels go"] conjI exI [of _ go]) simp_all
    then show ?thesis
      using Accepted graph(2,5,7,8) plan len by simp
  qed
qed simp_all

text \<open>
  C11: Executing a deployed flow returns. When the loop edge, if there is one, jumps behind every
  loop start, the execution of an accepted plan ends within an explicit number of passes, for every
  context, every clock and every arithmetic, and never evaluates an expression outside its stack.
\<close>

theorem deployed_flow_terminates:
  assumes "compile_flow F (register_builtins F dump Map.empty) app = Accepted plan"
    "jumps_behind_starts (plan_flow plan) (nodes plan)" "e_fp E = F"
    "list_all (\<lambda>n. list_all (\<lambda>p. length (names p) \<le> 2 ^ 32) (programs n)) (nodes plan)"
  shows "\<exists>ns c'. execute E (exec_fuel plan c) (plan_flow plan) (nodes plan) c = Some (Done ns c')"
proof -
  have wi: "well_indexed (plan_flow plan) (nodes plan)" by (rule compiled_well_indexed [OF assms(1)])
  have "execute E (exec_fuel plan c) (plan_flow plan) (nodes plan) c \<noteq> None"
    unfolding execute_def by (rule exec_loop_returns [OF wi assms(2)]) (simp add: exec_fuel_def)
  moreover have "execute E (exec_fuel plan c) (plan_flow plan) (nodes plan) c \<noteq> Some Undefined"
    unfolding execute_def
    using compiled_safe [OF assms(1,4)] assms(3) by (intro exec_loop_defined [OF _ wi]) simp
  ultimately show ?thesis by (metis exec_result.exhaust not_Some_eq)
qed

definition int_env :: "int env" where
  "int_env = \<lparr>e_fp = int_fp, e_now = (\<lambda>_. 0), e_json_parse = (\<lambda>_. None), e_json_dump = (\<lambda>_. [])\<rparr>"

theorem deployed_flow_terminates_witness:
  "\<exists>ns c'. execute int_env (exec_fuel two_switch_plan new_context) (plan_flow two_switch_plan)
     (nodes two_switch_plan) new_context = Some (Done ns c')"
  by (rule deployed_flow_terminates [OF two_switch_compiled])
     (simp_all add: jumps_behind_starts_def two_switch_plan_def int_env_def two_switch_nodes_def lit_program_def)

text \<open>
  A linear plan is the pipeline of its nodes. Executing the plan wired without edges calls the
  nodes once each in array order, stops at the first Stop, records the position of the first Error,
  and needs exactly one pass per node.
\<close>

theorem linear_plan_is_pipeline:
  "execute E (Suc (length ns)) (plan_flow (wire [] [] None ns)) ns c = Some (run_pipeline E 0 [] ns c)"
  using linear_exec_loop [of E ns "[]" c] by (simp add: execute_def wire_linear linear_steps_def)

text \<open>
  C40: A loop that never ends is accepted. The compiler does not check where the loop edge goes: when
  it goes back to the loop start itself, each pass resets the counter, the iteration budget and the
  deadline, so on any clock on which a pass takes less than \<open>max_duration_ms\<close> no number of passes ends
  the execution of the accepted plan.
\<close>

theorem runaway_loop_accepted:
  assumes "e_fp E = int_fp" "fast_clock E"
  shows "compile_flow int_fp (builtins int_fp dump) runaway_app = Accepted runaway_plan \<and>
    (\<forall>n. execute E n (plan_flow runaway_plan) (nodes runaway_plan) (reset (Some f) c) = None)"
proof (intro conjI allI)
  show "compile_flow int_fp (builtins int_fp dump) runaway_app = Accepted runaway_plan"
    by (rule runaway_compiled)
  fix n
  have nodes: "nodes runaway_plan = loop_nodes" by (simp add: runaway_plan_def)
  obtain c' where "exec_pass E (plan_flow runaway_plan) 0 loop_nodes (reset (Some f) c) = Go 1 loop_nodes c'"
    by (simp add: exec_pass_def runaway_plan_def loop_nodes_def skipped_def decode_source_def reset_def)
  then show "execute E n (plan_flow runaway_plan) (nodes runaway_plan) (reset (Some f) c) = None"
    using runaway_cycle [OF assms, of "n - 1" c'] unfolding execute_def nodes
    by (cases n) (simp_all add: runaway_plan_def)
qed

theorem runaway_loop_accepted_witness:
  "execute int_env 1000 (plan_flow runaway_plan) (nodes runaway_plan)
     (reset (Some \<lparr>raw = 3, payload_len = 0, fr_payload = []\<rparr>) new_context) = None"
proof -
  have e: "e_fp int_env = int_fp" "fast_clock int_env" by (simp_all add: int_env_def fast_clock_def)
  show ?thesis using runaway_loop_accepted [OF e, of "\<lambda>_. []"] by blast
qed

text \<open>
  A second switch overrides the first. The compiler counts branch-producing nodes by their
  labelled edges, so a second switch without labelled edges is accepted. Ordered between the first
  switch and its branches it overwrites the active branch: the node under the first switch's false
  edge runs although that switch is constantly true, and the node under its true edge does not.
\<close>

theorem second_switch_overrides:
  "compile_flow int_fp (builtins int_fp dump) two_switch_app = Accepted two_switch_plan \<and>
   (\<exists>ns c'. execute int_env 7 (plan_flow two_switch_plan) (nodes two_switch_plan) (reset (Some f) c) = Some (Done ns c') \<and>
      \<not> failed c' \<and> find_tag ''x'' (tags c') = None \<and> find_tag ''y'' (tags c') = Some 7)"
proof -
  have "\<exists>ns c'. execute int_env 7 (plan_flow two_switch_plan) (nodes two_switch_plan) (reset (Some f) c) = Some (Done ns c') \<and>
      \<not> failed c' \<and> find_tag ''x'' (tags c') = None \<and> find_tag ''y'' (tags c') = Some 7"
    by (simp add: execute_def two_switch_plan_def two_switch_nodes_def numeral_eq_Suc exec_pass_def skipped_def
        decode_source_def reset_def switch_node_def set_node_def evaluate_lit int_env_def d_nonzero_def push_tag_def
        sum_output_def push_event_def push_output_def Let_def overwrite_or_append_def)
  then show ?thesis using two_switch_compiled by blast
qed

text \<open>
  The iteration cap is truncated. \<open>max_iterations\<close> is validated as a 64-bit integer of at least
  one, but the factory reads it as a 32-bit \<open>int\<close>: the accepted value \<open>2 ^ 32\<close> builds a loop with no
  budget at all, and \<open>3 * 10 ^ 9\<close> one with a budget of more than \<open>10 ^ 19\<close> passes.
\<close>

theorem max_iterations_truncated:
  "validate_node_config int_fp ''aero.flow.loop_start'' (loop_config 4294967296) = None \<and>
   validate_node_config int_fp ''aero.flow.loop_start'' (loop_config 3000000000) = None \<and>
   loop_start_factory int_fp (loop_config 4294967296) = Some (Some (LoopStartNode (lit_program 0) ''i'' 0 1000)) \<and>
   loop_start_factory int_fp (loop_config 3000000000) =
     Some (Some (LoopStartNode (lit_program 0) ''i'' 18446744072414584320 1000))"
  by (simp add: loop_config_def config_simps factory_simps)

text \<open>
  Compilation can throw. A configuration value of the wrong JSON kind on a node type that
  \<open>validate_node_config\<close> does not know reaches the factory, where the JSON library throws; the
  compilation ends in the exception instead of an error value.
\<close>

theorem compile_flow_throws:
  "compile_flow int_fp (builtins int_fp dump) (app_of [spec ''src'' ''aero.source.decode'' [],
     spec ''m'' ''aero.output.mes'' [(''line'', JUInt 5)], spec ''out'' ''aero.output.sum'' []] []) = Throws"
  by (simp add: compile_flow_def app_of_def spec_def reg_contains_def builtins_lookup config_simps factory_simps
      mes_report_factory_def)

end
