(* ===== verification/Node_Props.thy ===== *)
theory Node_Props
  imports Flow_Nodes
begin

text \<open>
  Properties of single nodes: the frame checksum, the register decoder and the moving average.
\<close>

section \<open>The checksum\<close>

lemma crc_shift_low: "\<not> bit x 15 \<Longrightarrow> crc_shift x = push_bit 1 x"
proof -
  assume "\<not> bit x 15"
  have "bit (0x8000 :: u16) n \<Longrightarrow> n = 15" for n
    using bit_exp_iff [where 'a = "16 word", of 15 n] by simp
  then have "x AND 0x8000 = 0"
    using \<open>\<not> bit x 15\<close> by (intro bit_word_eqI) (auto simp: bit_and_iff)
  then show ?thesis by (simp add: crc_shift_def)
qed

lemma crc_shifts_low:
  assumes "\<And>n. bit x n \<Longrightarrow> n < 8" "i \<le> 8"
  shows "(crc_shift ^^ i) x = push_bit i x"
  using assms(2)
proof (induction i)
  case (Suc i)
  then have "\<not> bit (push_bit i x) 15"
    using assms(1) [of "15 - i"] by (auto simp: bit_simps)
  then show ?case using Suc by (simp add: crc_shift_low)
qed simp

lemma crc_high_byte: "s XOR push_bit 8 (ucast (byte_at 1 s)) = ucast (byte_at 0 s)"
  for s :: u16
proof (rule bit_word_eqI)
  fix n
  assume "n < LENGTH(16)"
  then show "bit (s XOR push_bit 8 (ucast (byte_at 1 s))) n = bit (ucast (byte_at 0 s) :: u16) n"
    by (auto simp: bit_simps bit_byte_at not_less dest: le_Suc_ex)
qed

lemma crc_byte_own_high: "crc_byte s (byte_at 1 s) = push_bit 8 (ucast (byte_at 0 s))"
  unfolding crc_byte_def crc_high_byte
  by (rule crc_shifts_low) (auto simp: bit_simps bit_byte_at)

lemma crc_byte_clear: "crc_byte (push_bit 8 (ucast b)) b = 0"
proof -
  have "(crc_shift ^^ 8) 0 = push_bit 8 0" by (rule crc_shifts_low) simp_all
  then show ?thesis by (simp add: crc_byte_def)
qed

text \<open>
  A frame that carries its own checksum sums to zero. Appending the CRC-16 of a payload, high
  byte first, gives a payload whose CRC-16 is zero.
\<close>

theorem crc16_residue_zero: "crc16 (bs @ be_bytes 2 (crc16 bs)) = 0"
  unfolding be_bytes_2 crc16_def foldl_append foldl.simps crc_byte_own_high crc_byte_clear ..

section \<open>The register decoder\<close>

lemma registers_be: "registers (concat (map (be_bytes 2) rs)) = rs"
proof (induction rs)
  case (Cons r rs)
  have "push_bit 8 (ucast (byte_at 1 r)) OR ucast (byte_at 0 r) = r" for r :: u16
    by (rule bit_word_eqI) (auto simp: bit_simps bit_byte_at not_less dest: le_Suc_ex)
  then show ?case using Cons by (simp add: be_bytes_2)
qed simp

section \<open>The moving average\<close>

text \<open>The ring after a run of samples: slot \<open>i\<close> holds the last sample whose number is \<open>i\<close> modulo
  the window.\<close>

definition ring_run :: "'d fp \<Rightarrow> nat \<Rightarrow> 'd list \<Rightarrow> 'd list \<times> nat \<times> nat" where
  "ring_run F w xs = foldl (\<lambda>rs x. ring_push x rs) (replicate w (d_zero F), 0, 0) xs"

lemma ring_run_shape:
  assumes "0 < w"
  shows "\<exists>ring. ring_run F w xs = (ring, length xs mod w, min (length xs) w) \<and> length ring = w \<and>
    (\<forall>m < length xs. length xs \<le> m + w \<longrightarrow> ring ! (m mod w) = xs ! m)"
proof (induction xs rule: rev_induct)
  case Nil
  then show ?case using assms by (simp add: ring_run_def)
next
  case (snoc x xs)
  then obtain ring where ring: "ring_run F w xs = (ring, length xs mod w, min (length xs) w)" "length ring = w"
    and slots: "\<And>m. m < length xs \<Longrightarrow> length xs \<le> m + w \<Longrightarrow> ring ! (m mod w) = xs ! m" by blast
  let ?ring = "ring[length xs mod w := x]"
  have "ring_run F w (xs @ [x]) = (?ring, Suc (length xs) mod w, min (Suc (length xs)) w)"
    using ring by (simp add: ring_run_def ring_push_def mod_Suc_eq min_def)
  moreover have "?ring ! (m mod w) = (xs @ [x]) ! m" if m: "m < Suc (length xs)" "Suc (length xs) \<le> m + w" for m
  proof (cases "m = length xs")
    case True
    then show ?thesis using ring(2) assms by simp
  next
    case False
    then have less: "m < length xs" using m(1) by simp
    have "m mod w \<noteq> length xs mod w"
    proof
      assume "m mod w = length xs mod w"
      then have "w dvd length xs - m" using less mod_eq_dvd_iff_nat [of m "length xs" w] by simp
      then show False using less m(2) by (auto dest: dvd_imp_le)
    qed
    then show ?thesis using slots [OF less] m(2) less by (simp add: nth_append)
  qed
  ultimately show ?case using ring(2) by (intro exI [of _ ?ring]) simp
qed

text \<open>
  The moving average is over the last samples. After any samples the ring holds exactly the last
  \<open>min\<close> of their number and the window: as many slots are filled, and the sample number \<open>m\<close> of those
  is found in slot \<open>m\<close> modulo the window.
\<close>

theorem moving_average_window:
  "case ring_run F (Suc w) xs of (ring, head, count) \<Rightarrow>
     length ring = Suc w \<and> head = length xs mod Suc w \<and> count = min (length xs) (Suc w) \<and>
     list_all (\<lambda>m. ring ! (m mod Suc w) = xs ! m) [length xs - Suc w..<length xs]"
  using ring_run_shape [of "Suc w" F xs] by (auto simp: list_all_iff)

end
