(* ===== verification/Bridge_Codec.thy ===== *)
theory Bridge_Codec
  imports Aero_Prelude
begin

text \<open>
  The helpers of \<open>include/aero/broker/bridge.hpp\<close>: the UTF-8 test that decides how a payload crosses
  the JSON boundary, the base64 encoder, and the address parser of the MQTT sink with the \<open>std::stoul\<close>
  it calls. An exception is the value \<open>None\<close>.
\<close>

section \<open>The UTF-8 test\<close>

text \<open>The number of continuation bytes a lead byte announces.\<close>

definition utf8_extra :: "byte \<Rightarrow> nat option" where
  "utf8_extra b0 =
     (if b0 AND 0x80 = 0x00 then Some 0
      else if b0 AND 0xE0 = 0xC0 then Some 1
      else if b0 AND 0xF0 = 0xE0 then Some 2
      else if b0 AND 0xF8 = 0xF0 then Some 3
      else None)"

definition is_continuation :: "byte \<Rightarrow> bool" where
  "is_continuation b \<longleftrightarrow> b AND 0xC0 = 0x80"

function is_valid_utf8 :: "byte list \<Rightarrow> bool" where
  "is_valid_utf8 [] = True"
| "is_valid_utf8 (b0 # bs) =
     (case utf8_extra b0 of
        None \<Rightarrow> False
      | Some extra \<Rightarrow>
          if length bs < extra then False
          else if \<not> list_all is_continuation (take extra bs) then False
          else is_valid_utf8 (drop extra bs))"
  by pat_completeness auto
termination
  by (relation "measure length") auto

section \<open>Base64\<close>

definition kTable :: string where
  "kTable = ''ABCDEFGHIJKLMNOPQRSTUVWXYZabcdefghijklmnopqrstuvwxyz0123456789+/''"

definition sextet :: "u32 \<Rightarrow> nat \<Rightarrow> char" where
  "sextet n k = kTable ! unat (drop_bit k n AND 0x3F)"

fun base64_encode :: "byte list \<Rightarrow> string" where
  "base64_encode [] = []"
| "base64_encode [a] =
     (let n = push_bit 16 (ucast a) :: u32
      in [sextet n 18, sextet n 12, CHR ''='', CHR ''=''])"
| "base64_encode [a, b] =
     (let n = push_bit 16 (ucast a) OR push_bit 8 (ucast b) :: u32
      in [sextet n 18, sextet n 12, sextet n 6, CHR ''=''])"
| "base64_encode (a # b # c # bs) =
     (let n = push_bit 16 (ucast a) OR push_bit 8 (ucast b) OR ucast c :: u32
      in [sextet n 18, sextet n 12, sextet n 6, sextet n 0] @ base64_encode bs)"

section \<open>Broker addresses\<close>

text \<open>
  \<open>std::stoul\<close> in base 10: leading white space, an optional sign, then digits; anything after them is
  ignored. No digit, or a value beyond 64 bits, throws. A minus sign negates modulo \<open>2 ^ 64\<close>.
\<close>

definition is_space_char :: "char \<Rightarrow> bool" where
  "is_space_char c \<longleftrightarrow> c = CHR '' '' \<or> (9 \<le> (of_char c :: nat) \<and> (of_char c :: nat) \<le> 13)"

definition stoul :: "string \<Rightarrow> u64 option" where
  "stoul s =
     (let t = dropWhile is_space_char s;
          neg = (t \<noteq> [] \<and> hd t = CHR ''-'');
          t = (if t \<noteq> [] \<and> (hd t = CHR ''-'' \<or> hd t = CHR ''+'') then tl t else t);
          ds = takeWhile is_dec_digit t
      in if ds = [] \<or> 2 ^ 64 \<le> dec_value ds then None
         else Some (if neg then - of_nat (dec_value ds) else of_nat (dec_value ds)))"

text \<open>\<open>rfind\<close>: the position of the last occurrence.\<close>

definition rfind_char :: "char \<Rightarrow> string \<Rightarrow> nat option" where
  "rfind_char c s = map_option (\<lambda>k. length s - 1 - k) (find_char c (rev s))"

definition uri_prefix :: string where
  "uri_prefix = ''tcp://''"

text \<open>\<open>None\<close>: \<open>std::stoul\<close> throws. \<open>Some None\<close>: answered false.\<close>

definition parse_broker_uri :: "string \<Rightarrow> (string \<times> u16) option option" where
  "parse_broker_uri uri =
     (if take (length uri_prefix) uri \<noteq> uri_prefix then Some None
      else
        let rest = drop (length uri_prefix) uri in
        case rfind_char (CHR '':'') rest of
          None \<Rightarrow> Some None
        | Some colon \<Rightarrow>
            let host = take colon rest; ps = drop (colon + 1) rest in
            if ps = [] then Some None
            else (case stoul ps of
                None \<Rightarrow> None
              | Some v \<Rightarrow>
                  let port = ucast v :: u16
                  in if host \<noteq> [] \<and> port \<noteq> 0 then Some (Some (host, port)) else Some None))"

section \<open>The UTF-8 test against the standard\<close>

text \<open>
  Well-formed UTF-8 as RFC 3629 defines it: no overlong form, no surrogate, nothing beyond
  \<open>U+10FFFF\<close>. The code's test is the same shape without these exclusions.
\<close>

fun utf8_seq :: "byte list \<Rightarrow> bool" where
  "utf8_seq [b] \<longleftrightarrow> b AND 0x80 = 0x00"
| "utf8_seq [b, c] \<longleftrightarrow> b AND 0xE0 = 0xC0 \<and> 0xC2 \<le> b \<and> is_continuation c"
| "utf8_seq [b, c, d] \<longleftrightarrow> b AND 0xF0 = 0xE0 \<and> is_continuation c \<and> is_continuation d \<and>
     (b = 0xE0 \<longrightarrow> 0xA0 \<le> c) \<and> (b = 0xED \<longrightarrow> c \<le> 0x9F)"
| "utf8_seq [b, c, d, e] \<longleftrightarrow> b AND 0xF8 = 0xF0 \<and> b \<le> 0xF4 \<and>
     is_continuation c \<and> is_continuation d \<and> is_continuation e \<and>
     (b = 0xF0 \<longrightarrow> 0x90 \<le> c) \<and> (b = 0xF4 \<longrightarrow> c \<le> 0x8F)"
| "utf8_seq _ \<longleftrightarrow> False"

inductive utf8 :: "byte list \<Rightarrow> bool" where
  utf8_empty: "utf8 []"
| utf8_more: "utf8_seq u \<Longrightarrow> utf8 bs \<Longrightarrow> utf8 (u @ bs)"

inductive_cases utf8_ConsE: "utf8 (b # bs)"

section \<open>A base64 decoder\<close>

text \<open>The decoder of RFC 4648, for padded input; the pad character counts as zero.\<close>

definition b64_value :: "char \<Rightarrow> u32" where
  "b64_value c = (case find_char c kTable of Some k \<Rightarrow> of_nat k | None \<Rightarrow> 0)"

fun base64_decode :: "string \<Rightarrow> byte list" where
  "base64_decode (p # q # r # s # cs) =
     (let n = push_bit 18 (b64_value p) OR push_bit 12 (b64_value q) OR push_bit 6 (b64_value r) OR b64_value s;
          at = (\<lambda>k. ucast (drop_bit k n) :: byte)
      in if s = CHR ''='' then (if r = CHR ''='' then [at 16] else [at 16, at 8])
         else [at 16, at 8, at 0] @ base64_decode cs)"
| "base64_decode _ = []"

definition pack3 :: "byte \<Rightarrow> byte \<Rightarrow> byte \<Rightarrow> u32" where
  "pack3 a b c = push_bit 16 (ucast a) OR push_bit 8 (ucast b) OR ucast c"

section \<open>Lemmas\<close>

lemma lead_byte:
  "b AND 0x80 = 0 \<Longrightarrow> utf8_extra b = Some 0"
  "b AND 0xE0 = 0xC0 \<Longrightarrow> utf8_extra b = Some 1"
  "b AND 0xF0 = 0xE0 \<Longrightarrow> utf8_extra b = Some 2"
  "b AND 0xF8 = 0xF0 \<Longrightarrow> utf8_extra b = Some 3"
proof -
  have m: "b AND 0x80 = (b AND 0xE0) AND 0x80" "b AND 0x80 = (b AND 0xF0) AND 0x80" "b AND 0xE0 = (b AND 0xF0) AND 0xE0"
    "b AND 0x80 = (b AND 0xF8) AND 0x80" "b AND 0xE0 = (b AND 0xF8) AND 0xE0" "b AND 0xF0 = (b AND 0xF8) AND 0xF0"
    by (simp_all add: and.assoc)
  show "b AND 0x80 = 0 \<Longrightarrow> utf8_extra b = Some 0" by (simp add: utf8_extra_def)
  show "b AND 0xE0 = 0xC0 \<Longrightarrow> utf8_extra b = Some 1" unfolding utf8_extra_def m(1) by simp
  show "b AND 0xF0 = 0xE0 \<Longrightarrow> utf8_extra b = Some 2" unfolding utf8_extra_def m(2,3) by simp
  show "b AND 0xF8 = 0xF0 \<Longrightarrow> utf8_extra b = Some 3" unfolding utf8_extra_def m(4,5,6) by simp
qed



lemma utf8_accepted: "utf8 bs \<Longrightarrow> is_valid_utf8 bs"
proof (induction rule: utf8.induct)
  case (utf8_more u bs)
  then show ?case by (cases u rule: utf8_seq.cases) (simp_all add: lead_byte)
qed simp

text \<open>\<open>0xC0\<close> starts only overlong forms and \<open>0xFF\<close> nothing; the code's test lets the first pass.\<close>

lemma not_utf8_lead: "\<not> utf8 (0xC0 # bs)" "\<not> utf8 (0xFF # bs)"
proof -
  have "b = 0xC0 \<or> b = 0xFF \<Longrightarrow> \<not> utf8 (b # bs)" for b :: byte
  proof
    assume b: "b = 0xC0 \<or> b = 0xFF" and "utf8 (b # bs)"
    from this(2) obtain u vs where u: "b # bs = u @ vs" "utf8_seq u" by (rule utf8_ConsE)
    with b show False by (cases u rule: utf8_seq.cases) auto
  qed
  then show "\<not> utf8 (0xC0 # bs)" "\<not> utf8 (0xFF # bs)" by blast+
qed

lemma overlong_accepted: "is_valid_utf8 [0xC0, 0x80]"
  by (simp add: utf8_extra_def is_continuation_def)

lemma kTable_index: "k < 64 \<Longrightarrow> find_char (kTable ! k) kTable = Some k \<and> kTable ! k \<noteq> CHR ''=''"
proof -
  have "list_all (\<lambda>k. find_char (kTable ! k) kTable = Some k \<and> kTable ! k \<noteq> CHR ''='') [0..<64]"
    by code_simp
  then show "k < 64 \<Longrightarrow> ?thesis" by (simp add: list_all_iff)
qed

lemma sextet_index: "unat (drop_bit k (n :: u32) AND 0x3F) < 64"
proof -
  have "drop_bit k n AND 0x3F = take_bit 6 (drop_bit k n)"
    using take_bit_eq_mask [of 6 "drop_bit k n"] by (simp add: mask_eq_exp_minus_1)
  then show ?thesis by (simp add: unsigned_take_bit_eq take_bit_nat_less_exp [of 6, simplified])
qed

lemma b64_value_sextet: "b64_value (sextet n k) = take_bit 6 (drop_bit k n)"
  using kTable_index [OF sextet_index [of k n]] take_bit_eq_mask [of 6 "drop_bit k n"]
  by (simp add: b64_value_def sextet_def mask_eq_exp_minus_1)

lemma sextet_not_pad: "sextet n k \<noteq> CHR ''=''"
  using kTable_index [OF sextet_index [of k n]] by (simp add: sextet_def)

lemma sextets_join:
  fixes n :: u32
  assumes "\<And>j. 24 \<le> j \<Longrightarrow> \<not> bit n j"
  shows "push_bit 18 (b64_value (sextet n 18)) OR push_bit 12 (b64_value (sextet n 12)) OR
         push_bit 6 (b64_value (sextet n 6)) OR b64_value (sextet n 0) = n"
  unfolding b64_value_sextet
proof (rule bit_word_eqI)
  fix j assume "j < LENGTH(32)"
  consider "j < 6" | "6 \<le> j" "j < 12" | "12 \<le> j" "j < 18" | "18 \<le> j" "j < 24" | "24 \<le> j" by linarith
  then show "bit (push_bit 18 (take_bit 6 (drop_bit 18 n)) OR push_bit 12 (take_bit 6 (drop_bit 12 n)) OR
      push_bit 6 (take_bit 6 (drop_bit 6 n)) OR take_bit 6 (drop_bit 0 n)) j = bit n j"
    using assms [of j] \<open>j < LENGTH(32)\<close>
    by cases (simp_all add: bit_or_iff bit_push_bit_iff bit_take_bit_iff bit_drop_bit_eq less_diff_conv2)
qed

lemma bit_pack3:
  "bit (pack3 a b c) j \<longleftrightarrow>
     (16 \<le> j \<and> bit a (j - 16)) \<or> (8 \<le> j \<and> bit b (j - 8) \<and> j < 16) \<or> bit c j"
  by (auto simp: pack3_def bit_or_iff bit_push_bit_iff bit_ucast_iff dest: bit_imp_le_length)

lemma pack3_high: "24 \<le> j \<Longrightarrow> \<not> bit (pack3 a b c) j"
  unfolding bit_pack3 by (auto dest: bit_imp_le_length)

lemma pack3_bytes:
  "ucast (drop_bit 16 (pack3 a b c)) = a" "ucast (drop_bit 8 (pack3 a b c)) = b" "ucast (pack3 a b c) = c"
  by (rule bit_word_eqI; simp add: bit_ucast_iff bit_drop_bit_eq bit_pack3; auto dest: bit_imp_le_length)+


lemma b64_value_pad: "b64_value (CHR ''='') = 0"
  by code_simp

lemma pad_value:
  "b64_value (sextet (pack3 a b 0) 0) = 0" "b64_value (sextet (pack3 a 0 0) 6) = 0"
  by (rule bit_word_eqI; simp add: b64_value_sextet bit_take_bit_iff bit_drop_bit_eq bit_pack3)+

text \<open>An address is cut at its last colon.\<close>

lemma stoul_to_string:
  assumes "n < 2 ^ 64"
  shows "stoul (to_string n) = Some (of_nat n)"
proof -
  obtain c cs where c: "to_string n = c # cs" by (cases "to_string n") simp_all
  have d: "\<forall>x \<in> set (to_string n). is_dec_digit x"
    using to_string_digit by (fastforce simp: is_dec_digit_def)
  then have "is_dec_digit c" by (simp add: c)
  then have "\<not> is_space_char c" "c \<noteq> CHR ''-''" "c \<noteq> CHR ''+''"
    by (auto simp: is_dec_digit_def is_space_char_def)
  moreover have "takeWhile is_dec_digit (to_string n) = to_string n"
    using d by (simp add: takeWhile_eq_all_conv)
  ultimately show ?thesis
    using assms dec_value_to_string [of n] by (simp add: stoul_def c Let_def not_le)
qed

lemma rfind_char_last: "c \<notin> set v \<Longrightarrow> rfind_char c (u @ c # v) = Some (length u)"
  using find_char_append_Cons [of c "rev v" "rev u"] by (simp add: rfind_char_def)

lemma parse_broker_uri_shape:
  assumes "CHR '':'' \<notin> set ps" "ps \<noteq> []"
  shows "parse_broker_uri (uri_prefix @ host @ CHR '':'' # ps) =
    (case stoul ps of None \<Rightarrow> None
     | Some v \<Rightarrow> Some (if host \<noteq> [] \<and> (ucast v :: u16) \<noteq> 0 then Some (host, ucast v) else None))"
  using assms rfind_char_last [OF assms(1), of host]
  by (simp add: parse_broker_uri_def Let_def split: option.split)

section \<open>Properties\<close>

text \<open>
  An address written with its port in decimal is read back when the port is below 65536. Beyond, the
  port is taken modulo 65536: \<open>tcp://h:70000\<close> is dialled on port 4464. A port that is not a number
  makes \<open>std::stoul\<close> throw.
\<close>

theorem parse_broker_uri_reads:
  assumes "host \<noteq> []" "n < 2 ^ 64"
  shows "parse_broker_uri (uri_prefix @ host @ CHR '':'' # to_string n) =
    Some (if n mod 65536 = 0 then None else Some (host, of_nat n))"
proof -
  have "(ucast (of_nat n :: u64) :: u16) = of_nat n" using assms(2) by (simp add: unsigned_of_nat take_bit_nat_eq_self)
  moreover have "(of_nat n :: u16) = 0 \<longleftrightarrow> n mod 65536 = 0"
    by (simp add: word_of_nat_eq_0_iff dvd_eq_mod_eq_0)
  ultimately show ?thesis
    using assms parse_broker_uri_shape [of "to_string n" host] by (simp add: stoul_to_string)
qed

theorem parse_broker_uri_throws:
  "parse_broker_uri (uri_prefix @ host @ '':x'') = None"
  using parse_broker_uri_shape [of "''x''" host]
  by (simp add: stoul_def is_space_char_def is_dec_digit_def)

text \<open>
  No byte of a binary payload is lost in base64: decoding the encoder's output with the standard
  decoder gives the payload back, whatever its length.
\<close>

theorem base64_roundtrip: "base64_decode (base64_encode bs) = bs"
proof (induction bs rule: base64_encode.induct)
  case (2 a)
  have "push_bit 16 (ucast a) = pack3 a 0 0" by (simp add: pack3_def)
  then show ?case
    using sextets_join [of "pack3 a 0 0"] pack3_high [of _ a 0 0]
    by (simp add: b64_value_pad pad_value pack3_bytes Let_def)
next
  case (3 a b)
  have "push_bit 16 (ucast a) OR push_bit 8 (ucast b) = pack3 a b 0" by (simp add: pack3_def)
  then show ?case
    using sextets_join [of "pack3 a b 0"] pack3_high [of _ a b 0]
    by (simp add: b64_value_pad pad_value pack3_bytes sextet_not_pad Let_def)
next
  case (4 a b c bs)
  then show ?case
    using sextets_join [of "pack3 a b c"] pack3_high [of _ a b c]
    by (simp add: pack3_bytes Let_def pack3_def [symmetric] sextet_not_pad)
qed simp

end
