(* ===== verification/Bridge.thy ===== *)
theory Bridge
  imports Bridge_Codec Broker_Handlers Flow_Nodes Expr_Props Json
begin

text \<open>
  Bridging and the rule engine over the broker's \<open>on_publish\<close> callback,
  \<open>include/aero/broker/bridge.hpp\<close>: the sink interface \<open>IBridgeSink\<close>, its MQTT and webhook
  implementations, and \<open>BrokerRuleEngine\<close>. Dialling, the HTTP client and the JSON library's parser and
  printer are arguments. \<open>None\<close> stands for an exception (a \<open>noexcept\<close> caller then ends the process);
  for an expression also for leaving the evaluation stack.
\<close>

record BridgeConfig =
  bc_endpoint :: string
  bc_port :: int
  bc_path :: string
  bc_token :: string
  bc_client_id :: string
  bc_username :: string
  bc_password :: string
  bc_vhost :: string
  bc_exchange :: string

definition default_BridgeConfig :: BridgeConfig where
  "default_BridgeConfig = \<lparr>bc_endpoint = [], bc_port = 0, bc_path = ''/bridge'', bc_token = [],
     bc_client_id = ''aero-bridge'', bc_username = ''guest'', bc_password = ''guest'', bc_vhost = ''/'',
     bc_exchange = []\<rparr>"

section \<open>MqttBridgeSink\<close>

text \<open>\<open>mb_fd\<close> is whether \<open>fd_\<close> is a valid descriptor; its socket is the script of its send attempts,
  the outcomes of its receives and the bytes it has accepted.\<close>

record MqttBridgeSink =
  mb_fd :: bool
  mb_running :: bool
  mb_packet_id :: u16
  mb_send :: send_script
  mb_recv :: "rx list"
  mb_wire :: "byte list"

definition new_MqttBridgeSink :: MqttBridgeSink where
  "new_MqttBridgeSink = \<lparr>mb_fd = False, mb_running = False, mb_packet_id = 1, mb_send = [], mb_recv = [], mb_wire = []\<rparr>"

definition mb_close :: "MqttBridgeSink \<Rightarrow> MqttBridgeSink" where
  "mb_close s = s\<lparr>mb_running := False, mb_fd := False\<rparr>"

definition mb_connect_body :: "string \<Rightarrow> byte list" where
  "mb_connect_body cid =
     put_str (put_u16_be (put_str [] ''MQTT'' @ [0x04] @ [0x02]) 60) cid"

definition mb_write :: "u8 \<Rightarrow> byte list \<Rightarrow> MqttBridgeSink \<Rightarrow> bool \<times> MqttBridgeSink" where
  "mb_write tf bs s =
     (let (ok, sc, w) = write_packet (mb_send s) (mb_wire s) tf bs in (ok, s\<lparr>mb_send := sc, mb_wire := w\<rparr>))"

definition mqtt_connect :: "string \<Rightarrow> MqttBridgeSink \<Rightarrow> bool \<times> MqttBridgeSink" where
  "mqtt_connect cid s =
     (let (ok, s) = mb_write 0x10 (mb_connect_body cid) s
      in if \<not> ok then (False, s)
         else
           let (pkt, rxs) = read_packet (mb_recv s); s = s\<lparr>mb_recv := rxs\<rparr>
           in case pkt of
                None \<Rightarrow> (False, s)
              | Some p \<Rightarrow> (type_flags p AND 0xF0 = 0x20 \<and> 2 \<le> length (body p) \<and> body p ! 1 = 0, s))"

text \<open>\<open>dial\<close>: the new connection's socket, or \<open>None\<close>. The packet counter survives a reconnect.\<close>

definition mb_connect ::
  "(string \<Rightarrow> u16 \<Rightarrow> (send_script \<times> rx list) option) \<Rightarrow> BridgeConfig \<Rightarrow> MqttBridgeSink \<Rightarrow> (bool \<times> MqttBridgeSink) option" where
  "mb_connect dial cfg s0 =
     (let s = mb_close s0 in
      case parse_broker_uri (bc_endpoint cfg) of
        None \<Rightarrow> None
      | Some None \<Rightarrow> Some (False, s)
      | Some (Some (host, port)) \<Rightarrow>
          (case dial host port of
             None \<Rightarrow> Some (False, s)
           | Some (sc, rxs) \<Rightarrow>
               let s = s\<lparr>mb_fd := True, mb_send := sc, mb_recv := rxs, mb_wire := [], mb_running := True\<rparr>;
                   (ok, s) = mqtt_connect (if bc_client_id cfg = [] then ''aero-bridge'' else bc_client_id cfg) s
               in if ok then Some (True, s) else Some (False, mb_close s)))"

definition bridge_qos :: "u8 \<Rightarrow> u8" where
  "bridge_qos qos = (if qos > 1 then 1 else qos)"

definition mb_publish :: "string \<Rightarrow> byte list \<Rightarrow> u8 \<Rightarrow> MqttBridgeSink \<Rightarrow> bool \<times> MqttBridgeSink" where
  "mb_publish topic pl qos s =
     (if \<not> mb_fd s then (False, s)
      else
        let q = bridge_qos qos;
            vh = put_str [] topic;
            (vh, s) = (if q > 0
              then let (pid, c) = next_packet_id (mb_packet_id s) in (put_u16_be vh pid, s\<lparr>mb_packet_id := c\<rparr>)
              else (vh, s))
        in mb_write (0x30 OR push_bit 1 q) (vh @ pl) s)"

section \<open>HttpWebhookBridgeSink\<close>

text \<open>The configured client; \<open>None\<close> before \<open>connect\<close>.\<close>

record HttpWebhookBridgeSink =
  hw_cfg :: "BridgeConfig option"

definition hw_connect :: "BridgeConfig \<Rightarrow> HttpWebhookBridgeSink \<Rightarrow> bool \<times> HttpWebhookBridgeSink" where
  "hw_connect cfg s = (True, s\<lparr>hw_cfg := Some cfg\<rparr>)"

text \<open>The members in the order they are assigned; the library prints them by key.\<close>

definition webhook_body :: "string \<Rightarrow> byte list \<Rightarrow> u8 \<Rightarrow> PublishProperties \<Rightarrow> 'd json" where
  "webhook_body topic pl qos props = JObject
     ([(''topic'', JString topic), (''qos'', JUInt (ucast qos))]
      @ (if is_valid_utf8 pl
         then [(''payload'', JString (string_of_bytes pl)), (''payload_encoding'', JString ''utf8'')]
         else [(''payload'', JString (base64_encode pl)), (''payload_encoding'', JString ''base64'')])
      @ (case pp_response_topic props of None \<Rightarrow> [] | Some r \<Rightarrow> [(''response_topic'', JString r)])
      @ (case pp_correlation_data props of None \<Rightarrow> [] | Some c \<Rightarrow> [(''correlation_data'', JString (base64_encode c))])
      @ (if pp_user_properties props = [] then []
         else [(''user_properties'', JArray (map (\<lambda>(k, v).
                  JObject [(''key'', JString k), (''value'', JString v)]) (pp_user_properties props)))]))"

text \<open>\<open>Post\<close> on the outside world: the status, \<open>None\<close> for a transport error.\<close>

type_synonym 'w http_post = "string \<Rightarrow> (string \<times> string) list \<Rightarrow> string \<Rightarrow> 'w \<Rightarrow> int option \<times> 'w"

definition hw_publish ::
  "('d json \<Rightarrow> string option) \<Rightarrow> 'w http_post \<Rightarrow> HttpWebhookBridgeSink \<Rightarrow>
   string \<Rightarrow> byte list \<Rightarrow> u8 \<Rightarrow> PublishProperties \<Rightarrow> 'w \<Rightarrow> (bool \<times> 'w) option" where
  "hw_publish dump http s topic pl qos props w =
     (case hw_cfg s of
        None \<Rightarrow> Some (False, w)
      | Some cfg \<Rightarrow>
          (case dump (webhook_body topic pl qos props) of
             None \<Rightarrow> None
           | Some text \<Rightarrow>
               let headers = (if bc_token cfg = [] then [] else [(''Authorization'', ''Bearer '' @ bc_token cfg)]);
                   (res, w) = http (if bc_path cfg = [] then ''/'' else bc_path cfg) headers text w
               in case res of
                    None \<Rightarrow> Some (False, w)
                  | Some status \<Rightarrow> Some (200 \<le> status \<and> status < 300, w)))"

section \<open>BrokerRuleEngine\<close>

text \<open>A rule's sink is an index into the sinks the world holds, \<open>None\<close> the null pointer.\<close>

record 'd BrokerRule =
  br_filter :: string
  br_expr :: "'d Program option"
  br_sink :: "nat option"

definition kFiredEventType :: string where
  "kFiredEventType = ''aero.broker.rule.fired''"

text \<open>The answer, the error reported when it is false, and the rules after.\<close>

definition engine_add_rule ::
  "'d fp \<Rightarrow> string \<Rightarrow> string \<Rightarrow> nat option \<Rightarrow> 'd BrokerRule list \<Rightarrow> bool \<times> ExprError option \<times> 'd BrokerRule list" where
  "engine_add_rule F flt expr_text sink rl =
     (if expr_text = [] then (True, None, rl @ [\<lparr>br_filter = flt, br_expr = None, br_sink = sink\<rparr>])
      else
        let prog = compile F expr_text
        in if \<not> ok prog then (False, prog_error prog, rl)
           else (True, None, rl @ [\<lparr>br_filter = flt, br_expr = Some prog, br_sink = sink\<rparr>]))"

text \<open>The number and boolean members of a payload that is a JSON object, in its order, then the QoS.\<close>

definition numeric_field :: "'d fp \<Rightarrow> string \<times> 'd json \<Rightarrow> (string \<times> 'd) list" where
  "numeric_field F kv =
     (case get_double (d_of_int F) (snd kv) of
        Some d \<Rightarrow> [(fst kv, d)]
      | None \<Rightarrow> (case snd kv of JBool b \<Rightarrow> [(fst kv, d_bool F b)] | _ \<Rightarrow> []))"

definition payload_fields :: "'d fp \<Rightarrow> (byte list \<Rightarrow> 'd json option) \<Rightarrow> byte list \<Rightarrow> (string \<times> 'd) list" where
  "payload_fields F parse_json pl =
     (case parse_json pl of
        Some j \<Rightarrow> (if is_object j then concat (map (numeric_field F) (members j)) else [])
      | None \<Rightarrow> [])"

definition populate_tags ::
  "'d fp \<Rightarrow> (byte list \<Rightarrow> 'd json option) \<Rightarrow> byte list \<Rightarrow> u8 \<Rightarrow> 'd ProcessingContext \<Rightarrow> 'd ProcessingContext" where
  "populate_tags F parse_json pl qos c =
     c\<lparr>tags := map (\<lambda>(k, d). \<lparr>tag_name = k, tag_val = d\<rparr>)
         (payload_fields F parse_json pl @ [(''qos'', d_of_int F (uint qos))])\<rparr>"

definition fires :: "'d fp \<Rightarrow> (byte list \<Rightarrow> 'd json option) \<Rightarrow> 'd Program \<Rightarrow> byte list \<Rightarrow> u8 \<Rightarrow> bool option" where
  "fires F parse_json prog pl qos =
     (case expr_rule F prog kFiredEventType (populate_tags F parse_json pl qos new_context) of
        None \<Rightarrow> None
      | Some (r, _) \<Rightarrow> Some (r = Stop))"

type_synonym 'w sink_publish = "nat \<Rightarrow> string \<Rightarrow> byte list \<Rightarrow> u8 \<Rightarrow> PublishProperties \<Rightarrow> 'w \<Rightarrow> (bool \<times> 'w) option"

fun engine_handle_publish ::
  "'d fp \<Rightarrow> (byte list \<Rightarrow> 'd json option) \<Rightarrow> 'w sink_publish \<Rightarrow>
   string \<Rightarrow> byte list \<Rightarrow> u8 \<Rightarrow> PublishProperties \<Rightarrow> 'd BrokerRule list \<Rightarrow> 'w \<Rightarrow> 'w option" where
  "engine_handle_publish F parse_json pub topic pl qos props [] w = Some w"
| "engine_handle_publish F parse_json pub topic pl qos props (r # rs) w =
     (if \<not> topic_matches (br_filter r) topic then engine_handle_publish F parse_json pub topic pl qos props rs w
      else
        (case (case br_expr r of None \<Rightarrow> Some True | Some e \<Rightarrow> fires F parse_json e pl qos) of
           None \<Rightarrow> None
         | Some go \<Rightarrow>
             if \<not> go then engine_handle_publish F parse_json pub topic pl qos props rs w
             else (case br_sink r of
                None \<Rightarrow> engine_handle_publish F parse_json pub topic pl qos props rs w
              | Some k \<Rightarrow>
                  (case pub k topic pl qos props w of
                     None \<Rightarrow> None
                   | Some (_, w) \<Rightarrow> engine_handle_publish F parse_json pub topic pl qos props rs w))))"

end
