(* ===== verification/Bridge_Props.thy ===== *)
theory Bridge_Props
  imports Bridge Broker_Props
begin

text \<open>
  Theorems on the bridge: the interface \<open>IBridgeSink\<close> as a locale whose contract is that \<open>publish\<close>
  never throws, with the rule engine's behaviour proved once for every such sink and interpreted on the
  MQTT sink; the webhook sink, which breaks the contract; and the stream an MQTT sink writes as a broker
  reads it.
\<close>

section \<open>Which rules a publication clears\<close>

definition clears ::
  "'d fp \<Rightarrow> (byte list \<Rightarrow> 'd json option) \<Rightarrow> string \<Rightarrow> byte list \<Rightarrow> u8 \<Rightarrow> 'd BrokerRule \<Rightarrow> bool" where
  "clears F parse_json topic pl qos r \<longleftrightarrow> topic_matches (br_filter r) topic \<and>
     (case br_expr r of None \<Rightarrow> True | Some e \<Rightarrow> fires F parse_json e pl qos = Some True)"

definition chosen_sinks ::
  "'d fp \<Rightarrow> (byte list \<Rightarrow> 'd json option) \<Rightarrow> string \<Rightarrow> byte list \<Rightarrow> u8 \<Rightarrow> 'd BrokerRule list \<Rightarrow> nat list" where
  "chosen_sinks F parse_json topic pl qos rs =
     concat (map (\<lambda>r. if clears F parse_json topic pl qos r then case_option [] (\<lambda>k. [k]) (br_sink r) else []) rs)"

text \<open>A rule whose expression, if it has one, was accepted by the parser.\<close>

definition rule_accepted :: "'d fp \<Rightarrow> 'd BrokerRule \<Rightarrow> bool" where
  "rule_accepted F r \<longleftrightarrow> (case br_expr r of None \<Rightarrow> True
     | Some p \<Rightarrow> ok p \<and> (\<exists>e. program_of F p e) \<and> length (names p) \<le> 2 ^ 32)"

text \<open>The sinks of a process are a bank of MQTT sinks; the answer of a sink is ignored by the engine.\<close>

definition bank_publish :: "(nat \<Rightarrow> MqttBridgeSink) sink_publish" where
  "bank_publish k topic pl qos props w =
     Some (let (ok, s) = mb_publish topic pl qos (w k) in (ok, w(k := s)))"

text \<open>Rules as they are registered: a filter, the text of an expression or none, a sink or none.\<close>

type_synonym rule_spec = "string \<times> string \<times> nat option"

definition engine_of :: "'d fp \<Rightarrow> rule_spec list \<Rightarrow> 'd BrokerRule list" where
  "engine_of F specs = foldl (\<lambda>rl (flt, rtext, k). snd (snd (engine_add_rule F flt rtext k rl))) [] specs"

definition spec_fits :: "'d fp \<Rightarrow> rule_spec \<Rightarrow> bool" where
  "spec_fits F sp \<longleftrightarrow> (case sp of (flt, rtext, k) \<Rightarrow> rtext = [] \<or> \<not> ok (compile F rtext) \<or>
     max_depth (compile F rtext) < kMaxStack \<and> length (names (compile F rtext)) \<le> 2 ^ 32)"

definition spec_clears ::
  "'d fp \<Rightarrow> (byte list \<Rightarrow> 'd json option) \<Rightarrow> string \<Rightarrow> byte list \<Rightarrow> u8 \<Rightarrow> rule_spec \<Rightarrow> bool" where
  "spec_clears F parse_json topic pl qos sp \<longleftrightarrow> (case sp of (flt, rtext, k) \<Rightarrow> topic_matches flt topic \<and>
     (rtext = [] \<or> ok (compile F rtext) \<and> (\<exists>e. program_of F (compile F rtext) e \<and>
        d_nonzero F (denote F (populate_tags F parse_json pl qos new_context) e))))"

definition spec_sinks ::
  "'d fp \<Rightarrow> (byte list \<Rightarrow> 'd json option) \<Rightarrow> string \<Rightarrow> byte list \<Rightarrow> u8 \<Rightarrow> rule_spec list \<Rightarrow> nat list" where
  "spec_sinks F parse_json topic pl qos specs =
     concat (map (\<lambda>sp. if spec_clears F parse_json topic pl qos sp then case_option [] (\<lambda>k. [k]) (snd (snd sp)) else []) specs)"

text \<open>Every string inside a JSON value is UTF-8.\<close>

fun json_utf8 :: "'d json \<Rightarrow> bool" where
  "json_utf8 (JString s) \<longleftrightarrow> utf8 (bytes_of_string s)"
| "json_utf8 (JArray js) \<longleftrightarrow> list_all json_utf8 js"
| "json_utf8 (JObject ms) \<longleftrightarrow> list_all (\<lambda>m. utf8 (bytes_of_string (fst m)) \<and> json_utf8 (snd m)) ms"
| "json_utf8 _ \<longleftrightarrow> True"

section \<open>The sink interface\<close>

lemma fires_evaluate:
  assumes "ok p" "evaluate F p (populate_tags F parse_json pl qos new_context) = Some (v, saw_nan)"
  shows "fires F parse_json p pl qos = Some (d_nonzero F v)"
  using assms by (simp add: fires_def expr_rule_def Let_def)

lemma fires_defined:
  assumes "ok p" "program_of F p e" "length (names p) \<le> 2 ^ 32"
  shows "fires F parse_json p pl qos \<noteq> None"
  using evaluate_defined [OF assms(2,3), of "populate_tags F parse_json pl qos new_context"]
    fires_evaluate [OF assms(1), of F parse_json pl qos] by fastforce

locale bridge_sinks =
  fixes pub :: "nat \<Rightarrow> string \<Rightarrow> byte list \<Rightarrow> u8 \<Rightarrow> PublishProperties \<Rightarrow> 'w \<Rightarrow> (bool \<times> 'w) option"
  assumes never_throws: "pub k topic pl qos props w \<noteq> None"
begin

definition hand_to :: "string \<Rightarrow> byte list \<Rightarrow> u8 \<Rightarrow> PublishProperties \<Rightarrow> 'w \<Rightarrow> nat \<Rightarrow> 'w" where
  "hand_to topic pl qos props w k = snd (the (pub k topic pl qos props w))"

lemma pub_hand_to: "\<exists>a. pub k topic pl qos props w = Some (a, hand_to topic pl qos props w k)"
  using never_throws [of k topic pl qos props w] by (auto simp: hand_to_def)

lemma engine_hands_on:
  assumes "list_all (rule_accepted F) rs"
  shows "engine_handle_publish F parse_json pub topic pl qos props rs w =
    Some (foldl (hand_to topic pl qos props) w (chosen_sinks F parse_json topic pl qos rs))"
  using assms
proof (induction rs arbitrary: w)
  case (Cons r rs)
  let ?go = "case br_expr r of None \<Rightarrow> Some True | Some e \<Rightarrow> fires F parse_json e pl qos"
  have "?go \<noteq> None"
    using Cons.prems fires_defined by (fastforce simp: rule_accepted_def split: option.splits)
  then obtain go where go: "?go = Some go" by blast
  then have c: "clears F parse_json topic pl qos r \<longleftrightarrow> topic_matches (br_filter r) topic \<and> go"
    by (auto simp: clears_def split: option.splits)
  show ?case
  proof (cases "br_sink r")
    case None
    then show ?thesis using Cons go c by (simp add: chosen_sinks_def)
  next
    case (Some k)
    from pub_hand_to obtain a where "pub k topic pl qos props w = Some (a, hand_to topic pl qos props w k)" by blast
    then show ?thesis using Some Cons go c by (simp add: chosen_sinks_def)
  qed
qed (simp add: chosen_sinks_def)

end

interpretation mqtt_bank: bridge_sinks bank_publish
  by unfold_locales (simp add: bank_publish_def)

section \<open>Registered rules\<close>

text \<open>The rule a text becomes, when it is accepted.\<close>

definition spec_rule :: "'d fp \<Rightarrow> rule_spec \<Rightarrow> 'd BrokerRule list" where
  "spec_rule F sp = (case sp of (flt, rtext, k) \<Rightarrow>
     if rtext = [] then [\<lparr>br_filter = flt, br_expr = None, br_sink = k\<rparr>]
     else if ok (compile F rtext) then [\<lparr>br_filter = flt, br_expr = Some (compile F rtext), br_sink = k\<rparr>] else [])"

lemma engine_of_specs: "engine_of F specs = concat (map (spec_rule F) specs)"
proof (induction specs rule: rev_induct)
  case (snoc sp specs)
  obtain flt rtext k where sp: "sp = (flt, rtext, k)" by (cases sp) auto
  with snoc show ?case by (simp add: engine_of_def spec_rule_def engine_add_rule_def Let_def)
qed (simp add: engine_of_def)

lemma spec_rule_accepted:
  assumes "spec_fits F sp"
  shows "list_all (rule_accepted F) (spec_rule F sp)"
  using assms compile_program [of F] by (auto simp: rule_accepted_def spec_fits_def spec_rule_def split: prod.splits)

lemma spec_rule_sinks:
  assumes "spec_fits F sp"
  shows "chosen_sinks F parse_json topic pl qos (spec_rule F sp) =
    (if spec_clears F parse_json topic pl qos sp then case_option [] (\<lambda>k. [k]) (snd (snd sp)) else [])"
proof -
  obtain flt rtext k where sp: "sp = (flt, rtext, k)" by (cases sp) auto
  let ?p = "compile F rtext" and ?c = "populate_tags F parse_json pl qos new_context"
  show ?thesis
  proof (cases "rtext \<noteq> [] \<and> ok ?p")
    case True
    have f: "max_depth ?p < kMaxStack" "length (names ?p) \<le> 2 ^ 32"
      using assms sp True by (auto simp: spec_fits_def)
    have fires: "fires F parse_json ?p pl qos = Some (d_nonzero F (denote F ?c e))" if "program_of F ?p e" for e
      using True by (intro fires_evaluate [OF _ evaluate_fits [OF that f(2,1)]]) simp
    obtain e where e: "program_of F ?p e" using compile_program True by blast
    have "(\<exists>e. program_of F ?p e \<and> d_nonzero F (denote F ?c e)) \<longleftrightarrow> d_nonzero F (denote F ?c e)"
      using fires e by (metis option.inject)
    then show ?thesis
      using True fires [OF e] by (simp add: sp spec_rule_def chosen_sinks_def clears_def spec_clears_def)
  qed (auto simp: sp spec_rule_def chosen_sinks_def clears_def spec_clears_def)
qed

lemma chosen_sinks_append:
  "chosen_sinks F parse_json topic pl qos (rs @ rs') =
     chosen_sinks F parse_json topic pl qos rs @ chosen_sinks F parse_json topic pl qos rs'"
  by (simp add: chosen_sinks_def)

lemma chosen_sinks_spec:
  assumes "list_all (spec_fits F) specs"
  shows "chosen_sinks F parse_json topic pl qos (engine_of F specs) = spec_sinks F parse_json topic pl qos specs"
  unfolding engine_of_specs using assms
proof (induction specs)
  case (Cons sp specs)
  then show ?case using spec_rule_sinks [of F sp] by (simp add: chosen_sinks_append spec_sinks_def)
qed (simp add: chosen_sinks_def spec_sinks_def)

section \<open>Properties\<close>

text \<open>
  C16: With sinks that keep the interface's promise not to throw, the rule engine returns and hands a
  publication to exactly the sinks of the rules it clears, in the order the rules were registered. Rules are
  registered from any texts: a text that is not accepted leaves no rule, one without text clears on its filter
  alone, and an accepted one, of a depth below the evaluator's stack of 128, when its filter matches the topic
  and the value of its expression tree is not zero, with the number and boolean members of a JSON payload and
  then the QoS as tags, of which the first of a name counts.
\<close>

theorem rule_engine_forwards:
  assumes "bridge_sinks pub" "list_all (spec_fits F) specs"
  shows "engine_handle_publish F parse_json pub topic pl qos props (engine_of F specs) w =
    Some (foldl (\<lambda>w k. snd (the (pub k topic pl qos props w))) w (spec_sinks F parse_json topic pl qos specs))"
proof -
  have "list_all (rule_accepted F) (engine_of F specs)"
    using assms(2) spec_rule_accepted unfolding engine_of_specs by (fastforce simp: list_all_iff)
  from bridge_sinks.engine_hands_on [OF assms(1) this] show ?thesis
    by (simp add: chosen_sinks_spec [OF assms(2)] bridge_sinks.hand_to_def [OF assms(1), abs_def])
qed

definition hot_rule :: expr where
  "hot_rule = Binary OpGt (TagRef ''t'') (Lit ''9'')"

lemma hot_rule_program:
  "ok (compile int_fp (print 0 hot_rule))" "program_of int_fp (compile int_fp (print 0 hot_rule)) hot_rule"
  "length (names (compile int_fp (print 0 hot_rule))) \<le> 1"
proof -
  have p: "printable int_fp hot_rule"
    by (simp add: hot_rule_def is_digit_def is_operator_def is_unary_op_def int_fp_def int_stod_def decimal_digits)
  show "ok (compile int_fp (print 0 hot_rule))" "program_of int_fp (compile int_fp (print 0 hot_rule)) hot_rule"
    using program_of_print [OF p] by blast+
  show "length (names (compile int_fp (print 0 hot_rule))) \<le> 1"
    unfolding compile_print_program [OF p]
    by (simp add: hot_rule_def new_Parser_def emit_def emit_const_def emit_tag_def push_depth_def Let_def)
qed

theorem rule_engine_forwards_witness:
  "engine_handle_publish int_fp (\<lambda>_. Some (JObject [(''t'', JUInt 95)])) bank_publish ''plant/a'' [] 0
     (to_publish_properties no_extras) (engine_of int_fp [(''#'', print 0 hot_rule, Some 3), (''#'', ''1 +'', Some 4)]) (\<lambda>_. new_MqttBridgeSink)
   = Some ((\<lambda>_. new_MqttBridgeSink)(3 := snd (mb_publish ''plant/a'' [] 0 new_MqttBridgeSink)))"
proof -
  let ?specs = "[(''#'', print 0 hot_rule, Some 3), (''#'', ''1 +'', Some 4)]"
  have bad: "\<not> ok (compile int_fp ''1 +'')" by code_simp
  have "max_depth (compile int_fp (print 0 hot_rule)) < kMaxStack"
    using hot_rule_program(2) by (simp add: program_of_def hot_rule_def kMaxStack_def)
  then have fits: "list_all (spec_fits int_fp) ?specs" using hot_rule_program(3) bad by (simp add: spec_fits_def)
  have "d_nonzero int_fp (denote int_fp (populate_tags int_fp (\<lambda>_. Some (JObject [(''t'', JUInt 95)])) [] 0 new_context) hot_rule)"
    by (simp add: hot_rule_def populate_tags_def payload_fields_def
        numeric_field_def int_fp_def int_stod_def lit_value_def d_bool_def d_nonzero_def is_digit_def digit_value_def)
  then have "spec_sinks int_fp (\<lambda>_. Some (JObject [(''t'', JUInt 95)])) ''plant/a'' [] 0 ?specs = [3]"
    using hot_rule_program(1,2) bad by (auto simp: spec_sinks_def spec_clears_def hash_matches)
  with rule_engine_forwards [OF mqtt_bank.bridge_sinks_axioms fits] show ?thesis
    by (simp add: bank_publish_def split: prod.split)
qed

lemma mb_write_packet:
  assumes "mb_write tf bs s = (True, s')"
  shows "mb_wire s' = mb_wire s @ packet_bytes \<lparr>type_flags = tf, body = bs\<rparr>"
proof -
  obtain sc w where "write_packet (mb_send s) (mb_wire s) tf bs = (True, sc, w)" "mb_wire s' = w"
    using assms by (auto simp: mb_write_def Let_def split: prod.splits)
  with write_packet_wire show ?thesis by (fastforce simp: packet_bytes_def)
qed

text \<open>The variable header and payload of a PUBLISH, read back at either QoS.\<close>

lemma parse_publish_header:
  assumes "length topic < 65536"
  shows "parse_publish 4 0 (put_str [] topic @ pl) =
      Some \<lparr>pf_topic = topic, pf_packet_id = 0, pf_props = no_properties, pf_payload = pl\<rparr>"
    and "parse_publish 4 1 (put_u16_be (put_str [] topic) pid @ pl) =
      Some \<lparr>pf_topic = topic, pf_packet_id = pid, pf_props = no_properties, pf_payload = pl\<rparr>"
proof -
  have l: "length (put_str [] topic) = 2 + length topic" by (simp add: put_str_def put_u16_be_def)
  have d: "drop (2 + length topic) (put_str [] topic @ r) = r" for r using l by simp
  show "parse_publish 4 0 (put_str [] topic @ pl) =
      Some \<lparr>pf_topic = topic, pf_packet_id = 0, pf_props = no_properties, pf_payload = pl\<rparr>"
    using read_field_put_str [OF assms, of pl] d [of pl] by (simp add: parse_publish_def)
  have bs: "put_u16_be (put_str [] topic) pid @ pl = put_str [] topic @ be_bytes 2 pid @ pl"
    by (simp add: put_u16_be_def)
  have "read_u16_at (put_str [] topic @ be_bytes 2 pid @ pl) (2 + length topic) = Some (pid, 4 + length topic)"
    using be_value_at_2 [of "put_str [] topic" pid pl] l by (simp add: read_u16_at_def)
  moreover have "drop (4 + length topic) (put_str [] topic @ be_bytes 2 pid @ pl) = pl"
    using l by simp
  ultimately show "parse_publish 4 1 (put_u16_be (put_str [] topic) pid @ pl) =
      Some \<lparr>pf_topic = topic, pf_packet_id = pid, pf_props = no_properties, pf_payload = pl\<rparr>"
    unfolding bs using read_field_put_str [OF assms, of "be_bytes 2 pid @ pl"] by (simp add: parse_publish_def)
qed

text \<open>
  What the MQTT sink reports as sent is, on the wire, one whole MQTT 3.1.1 PUBLISH that a broker
  carves out of the stream and reads as the same topic and payload at QoS 0 or 1, with a packet
  identifier other than zero at QoS 1.
\<close>

theorem bridged_publish_received:
  assumes "mb_publish topic pl qos s = (True, s')"
    and "length topic < 65536" and "length topic + length pl + 4 < 128 ^ 4"
  shows "\<exists>pkt f. mb_wire s' = mb_wire s @ packet_bytes pkt
    \<and> carve_packet (packet_bytes pkt @ later) = Some (pkt, later)
    \<and> type_flags pkt AND 0xF0 = 0x30 \<and> drop_bit 1 (type_flags pkt) AND 0x03 = bridge_qos qos
    \<and> parse_publish 4 (bridge_qos qos) (body pkt) = Some f \<and> pf_topic f = topic \<and> pf_payload f = pl
    \<and> (bridge_qos qos = 1 \<longrightarrow> pf_packet_id f \<noteq> 0)"
proof -
  let ?pid = "fst (next_packet_id (mb_packet_id s))"
  let ?f = "\<lambda>pid. \<lparr>pf_topic = topic, pf_packet_id = pid, pf_props = no_properties, pf_payload = pl\<rparr>"
  have "qos \<le> 1 \<Longrightarrow> qos = 0 \<or> qos = 1"
    by (metis le_zero_eq order_le_less word_less_1)
  then have "bridge_qos qos = 0 \<or> bridge_qos qos = 1" by (auto simp: bridge_qos_def)
  then obtain tf bs pid s1 where w: "mb_write tf bs s1 = (True, s')" "mb_wire s1 = mb_wire s"
      "length bs \<le> length topic + length pl + 4" "tf = 0x30 OR push_bit 1 (bridge_qos qos)"
    and f: "parse_publish 4 (bridge_qos qos) bs = Some (?f pid)" "bridge_qos qos = 1 \<longrightarrow> pid \<noteq> 0"
  proof cases
    assume q: "bridge_qos qos = 0"
    show thesis
      using that [of "0x30 OR push_bit 1 (bridge_qos qos)" "put_str [] topic @ pl" s 0] assms(1)
        parse_publish_header(1) [OF assms(2), of pl] q
      by (auto simp: mb_publish_def Let_def put_str_def put_u16_be_def split: if_splits)
  next
    assume "\<not> bridge_qos qos = 0"
    then have q: "bridge_qos qos = 1" using \<open>bridge_qos qos = 0 \<or> bridge_qos qos = 1\<close> by blast
    show thesis
      using that [of "0x30 OR push_bit 1 (bridge_qos qos)" "put_u16_be (put_str [] topic) ?pid @ pl"
          "s\<lparr>mb_packet_id := snd (next_packet_id (mb_packet_id s))\<rparr>" ?pid] assms(1)
        parse_publish_header(2) [OF assms(2), of ?pid pl] q next_packet_id_nonzero
      by (auto simp: mb_publish_def Let_def put_str_def put_u16_be_def split: if_splits prod.splits)
  qed
  let ?pkt = "\<lparr>type_flags = tf, body = bs\<rparr>"
  have "packet_wf ?pkt" using w(3) assms(3) by (simp add: packet_wf_def)
  moreover have "tf AND 0xF0 = 0x30" "drop_bit 1 tf AND 0x03 = bridge_qos qos"
    using w(4) \<open>bridge_qos qos = 0 \<or> bridge_qos qos = 1\<close> by auto
  ultimately show ?thesis
    using mb_write_packet [OF w(1)] w(2) f mqtt_stream.decode_encode [of ?pkt later]
    by (intro exI [of _ ?pkt] exI [of _ "?f pid"]) simp
qed

theorem bridged_publish_received_witness:
  "\<exists>pkt f. mb_wire (snd (mb_publish ''a'' [7] 2 (new_MqttBridgeSink\<lparr>mb_fd := True, mb_send := [(0, SendOk 99)]\<rparr>)))
       = packet_bytes pkt \<and> parse_publish 4 1 (body pkt) = Some f \<and> pf_topic f = ''a'' \<and> pf_payload f = [7]"
proof -
  let ?s = "new_MqttBridgeSink\<lparr>mb_fd := True, mb_send := [(0, SendOk 99)]\<rparr>"
  have "serialize_packet 0x32 (put_u16_be (put_str [] ''a'') 1 @ [7]) = [0x32, 6] @ put_u16_be (put_str [] ''a'') 1 @ [7]"
    by (simp add: serialize_packet_def put_remaining_length.simps put_str_def put_u16_be_def Let_def)
  then have "fst (mb_publish ''a'' [7] 2 ?s)"
    by (simp add: mb_publish_def new_MqttBridgeSink_def bridge_qos_def next_packet_id_def mb_write_def write_packet_def
        write_loop.simps Let_def put_str_def put_u16_be_def)
  then have "mb_publish ''a'' [7] 2 ?s = (True, snd (mb_publish ''a'' [7] 2 ?s))" by (simp add: prod_eq_iff)
  from bridged_publish_received [OF this, of "[]"] show ?thesis
    by (simp add: bridge_qos_def new_MqttBridgeSink_def) blast
qed

text \<open>
  The webhook sink breaks the interface's promise not to throw. With a JSON library that, as
  documented, refuses to print a string that is not UTF-8, one PUBLISH of a client on such a topic, or
  with a payload that passes the code's weaker test, is accepted by the broker and, forwarded by a rule
  with a webhook sink, ends the process.
\<close>

theorem webhook_ends_process:
  assumes "\<forall>j. \<not> json_utf8 j \<longrightarrow> dump j = None"
    and "\<not> utf8 (bytes_of_string topic) \<or> is_valid_utf8 pl \<and> \<not> utf8 pl"
    and "length topic < 65536" and "2 + length topic + length pl < 128 ^ 4"
    and "protocol_version (heap b i) = 4" and "\<not> kicked (heap b i)" and "cfg_authorizer b = None" and "on_publish_set b"
    and "hw_cfg hook = Some cfg" and "topic_matches (br_filter r) topic" and "br_expr r = None" and "br_sink r = Some k"
  shows "\<exists>b'. dispatch_loop i (serialize_packet 0x30 (put_str [] topic @ pl)) 0 b
        = (False, False, length (serialize_packet 0x30 (put_str [] topic @ pl)), b')
    \<and> ingested b' = ingested b @ [(topic, pl, 0, to_publish_properties no_extras)]
    \<and> engine_handle_publish F parse_json (\<lambda>_. hw_publish dump http hook) topic pl 0
        (to_publish_properties no_extras) (r # rs) w = None"
proof -
  have "\<not> json_utf8 (webhook_body topic pl 0 (to_publish_properties no_extras))"
    using assms(2) by (auto simp: webhook_body_def)
  with assms(1) have "dump (webhook_body topic pl 0 (to_publish_properties no_extras)) = None" by blast
  then have "engine_handle_publish F parse_json (\<lambda>_. hw_publish dump http hook) topic pl 0
      (to_publish_properties no_extras) (r # rs) w = None"
    using assms(9-12) by (simp add: hw_publish_def)
  with dispatch_one_publish [OF assms(3-8)] show ?thesis by blast
qed

theorem webhook_ends_process_witness:
  "engine_handle_publish int_fp (\<lambda>_. None) (\<lambda>_. hw_publish (\<lambda>j :: int json. if json_utf8 j then Some [] else None) (\<lambda>_ _ _ w. (None, w))
     \<lparr>hw_cfg = Some default_BridgeConfig\<rparr>) [char_of (255 :: nat)] [] 0 (to_publish_properties no_extras)
     [\<lparr>br_filter = ''#'', br_expr = None, br_sink = Some 0\<rparr>] () = None"
proof -
  let ?b = "new_NativeBroker None None True False"
  have "bytes_of_string [char_of (255 :: nat)] = [0xFF]"
    by (simp add: bytes_of_string_def byte_of_char_def)
  then have "\<not> utf8 (bytes_of_string [char_of (255 :: nat)]) \<or> is_valid_utf8 [] \<and> \<not> utf8 []"
    using not_utf8_lead(2) by simp
  note bad = this
  have d: "\<forall>j :: int json. \<not> json_utf8 j \<longrightarrow> (if json_utf8 j then Some [] else None) = None" by simp
  have b: "protocol_version (heap ?b 0) = 4" "\<not> kicked (heap ?b 0)" "cfg_authorizer ?b = None" "on_publish_set ?b"
    by (simp_all add: new_NativeBroker_def new_Session_def)
  show ?thesis
    using webhook_ends_process [OF d bad _ _ b, of "\<lparr>hw_cfg = Some default_BridgeConfig\<rparr>" default_BridgeConfig
        "\<lparr>br_filter = ''#'', br_expr = None, br_sink = Some 0\<rparr>" 0 int_fp "\<lambda>_. None" "\<lambda>_ _ _ w. (None, w)" "[]" "()"]
      hash_matches by (simp del: engine_handle_publish.simps) blast
qed

end
