(* ===== verification/Broker_Cluster.thy ===== *)
theory Broker_Cluster
  imports Frame_Codec Broker_Props
begin

text \<open>
  Cross-node PUBLISH broadcast, \<open>include/aero/broker/broker_cluster.hpp\<close>: the static roster, the relay
  message, \<open>broadcast\<close> on the sending side and \<open>BrokerRelayActor\<close> on the receiving one, over the
  \<open>NativeBroker\<close> of each node. The actor runtime is an argument: its default frame, the codes of the
  relay actor and message, the encoder, and what its router hands to the actor for a frame it receives.
  The encrypted link (\<open>SecureTransport\<close>, the handshake priming) is the runtime's as well and not
  modelled; a frame sent is in flight until the network delivers or loses it.
\<close>

section \<open>The roster\<close>

record PeerSpec =
  ps_id :: u64
  ps_host :: string
  ps_port :: u16

definition all_node_ids :: "u64 \<Rightarrow> PeerSpec list \<Rightarrow> u64 list" where
  "all_node_ids self peers = self # map ps_id peers"

text \<open>\<open>StaticBrokerMembership\<close>: sorted, duplicates erased, never republished.\<close>

definition static_view :: "u64 list \<Rightarrow> u64 list" where
  "static_view nodes = remdups_adj (sort nodes)"

record BrokerCluster =
  cl_self :: u64
  cl_peers :: "PeerSpec list"
  cl_view :: "u64 list"

definition new_BrokerCluster :: "u64 \<Rightarrow> PeerSpec list \<Rightarrow> BrokerCluster" where
  "new_BrokerCluster self peers =
     \<lparr>cl_self = self, cl_peers = peers, cl_view = static_view (all_node_ids self peers)\<rparr>"

section \<open>The relay message\<close>

record RelayUserProperty =
  ru_key :: string
  ru_value :: string

record BrokerRelayMsg =
  rm_topic :: string
  rm_body :: "byte list"
  rm_response_topic :: string
  rm_correlation_data :: "byte list"
  rm_user_properties :: "RelayUserProperty list"
  rm_message_expiry_remaining_s :: u32
  rm_qos :: u8
  rm_has_message_expiry :: bool
  rm_has_response_topic :: bool
  rm_has_correlation_data :: bool

definition kBrokerRelayKey :: u64 where
  "kBrokerRelayKey = 1"

definition relay_msg ::
  "string \<Rightarrow> byte list \<Rightarrow> u8 \<Rightarrow> nat option \<Rightarrow> PublishProperties \<Rightarrow> BrokerRelayMsg" where
  "relay_msg topic pl qos remaining props =
     \<lparr>rm_topic = topic, rm_body = pl,
      rm_response_topic = (case pp_response_topic props of None \<Rightarrow> [] | Some r \<Rightarrow> r),
      rm_correlation_data = (case pp_correlation_data props of None \<Rightarrow> [] | Some c \<Rightarrow> c),
      rm_user_properties = map (\<lambda>(k, v). \<lparr>ru_key = k, ru_value = v\<rparr>) (pp_user_properties props),
      rm_message_expiry_remaining_s = (case remaining of None \<Rightarrow> 0 | Some r \<Rightarrow> of_nat r),
      rm_qos = qos,
      rm_has_message_expiry = (remaining \<noteq> None),
      rm_has_response_topic = (pp_response_topic props \<noteq> None),
      rm_has_correlation_data = (pp_correlation_data props \<noteq> None)\<rparr>"

text \<open>The actor runtime.\<close>

record relay_runtime =
  rt_blank :: MessageFrame
  rt_actor_type :: u64
  rt_msg_type :: u64
  rt_tagless :: u8
  rt_encode :: "BrokerRelayMsg \<Rightarrow> byte list"
  rt_receive :: "MessageFrame \<Rightarrow> BrokerRelayMsg option"

definition relay_frame :: "relay_runtime \<Rightarrow> u64 \<Rightarrow> u64 \<Rightarrow> BrokerRelayMsg \<Rightarrow> MessageFrame" where
  "relay_frame R self n m =
     (rt_blank R)\<lparr>mf_from := self, mf_to := n, mf_target_type := rt_actor_type R, mf_target_key := kBrokerRelayKey,
        mf_msg_type := rt_msg_type R, mf_mode := rt_tagless R, mf_payload := rt_encode R m\<rparr>"

text \<open>The frames \<open>broadcast\<close> hands to the transport, with their destinations, in order.\<close>

definition broadcast ::
  "relay_runtime \<Rightarrow> BrokerCluster \<Rightarrow> string \<Rightarrow> byte list \<Rightarrow> u8 \<Rightarrow> nat option \<Rightarrow> PublishProperties \<Rightarrow> (u64 \<times> MessageFrame) list" where
  "broadcast R cl topic pl qos remaining props =
     (let m = relay_msg topic pl qos remaining props
      in map (\<lambda>n. (n, relay_frame R (cl_self cl) n m)) (filter (\<lambda>n. n \<noteq> cl_self cl) (cl_view cl)))"

text \<open>\<open>BrokerRelayActor::handle\<close> with its broker set.\<close>

definition relay_handle :: "BrokerRelayMsg \<Rightarrow> NativeBroker \<Rightarrow> NativeBroker" where
  "relay_handle m b =
     (let remaining = (if rm_has_message_expiry m then Some (unat (rm_message_expiry_remaining_s m)) else None);
          props = \<lparr>pp_response_topic = (if rm_has_response_topic m then Some (rm_response_topic m) else None),
                   pp_correlation_data = (if rm_has_correlation_data m then Some (rm_correlation_data m) else None),
                   pp_user_properties = map (\<lambda>p. (ru_key p, ru_value p)) (rm_user_properties m)\<rparr>
      in deliver_remote_publish (rm_topic m) (rm_body m) (rm_qos m) remaining props b)"

text \<open>\<open>start\<close> once the engine runs: the forwarder is set only when the transport could start.\<close>

definition cluster_start :: "bool \<Rightarrow> NativeBroker \<Rightarrow> bool \<times> NativeBroker" where
  "cluster_start transport_started b =
     (if transport_started then (True, b\<lparr>peer_forwarder_set := True\<rparr>) else (False, b))"

definition cluster_stop :: "NativeBroker \<Rightarrow> NativeBroker" where
  "cluster_stop b = b\<lparr>peer_forwarder_set := False\<rparr>"

section \<open>A cluster of brokers\<close>

text \<open>
  The forwarder runs inside the call that delivers a PUBLISH, so whatever a node does, its new
  \<open>forwarded\<close> entries are broadcast; \<open>cw_sent\<close> keeps every frame ever sent.
\<close>

record cluster_world =
  cw_brokers :: "u64 \<Rightarrow> NativeBroker"
  cw_flight :: "(u64 \<times> MessageFrame) list"
  cw_sent :: "(u64 \<times> MessageFrame) list"

definition broadcasts ::
  "relay_runtime \<Rightarrow> BrokerCluster \<Rightarrow> (string \<times> byte list \<times> u8 \<times> nat option \<times> PublishProperties) list \<Rightarrow> (u64 \<times> MessageFrame) list" where
  "broadcasts R cl new = concat (map (\<lambda>(t, p, q, remaining, props). broadcast R cl t p q remaining props) new)"

definition at_node ::
  "relay_runtime \<Rightarrow> (u64 \<Rightarrow> BrokerCluster) \<Rightarrow> u64 \<Rightarrow> (NativeBroker \<Rightarrow> NativeBroker) \<Rightarrow> cluster_world \<Rightarrow> cluster_world" where
  "at_node R cfg n f w =
     (let b = cw_brokers w n; b' = f b;
          fs = broadcasts R (cfg n) (drop (length (forwarded b)) (forwarded b'))
      in w\<lparr>cw_brokers := (cw_brokers w)(n := b'), cw_flight := cw_flight w @ fs, cw_sent := cw_sent w @ fs\<rparr>)"

datatype cluster_event = Local u64 event | Deliver nat | Lose nat

definition without :: "nat \<Rightarrow> 'a list \<Rightarrow> 'a list" where
  "without k xs = take k xs @ drop (Suc k) xs"

fun cluster_step ::
  "relay_runtime \<Rightarrow> (u64 \<Rightarrow> BrokerCluster) \<Rightarrow> cluster_world \<Rightarrow> cluster_event \<Rightarrow> cluster_world" where
  "cluster_step R cfg w (Local n e) = at_node R cfg n (\<lambda>b. handle_event b e) w"
| "cluster_step R cfg w (Deliver k) =
     (if k < length (cw_flight w)
      then (let (n, f) = cw_flight w ! k; w = w\<lparr>cw_flight := without k (cw_flight w)\<rparr>
            in case rt_receive R f of None \<Rightarrow> w | Some m \<Rightarrow> at_node R cfg n (\<lambda>b. relay_handle m (off_reactor b)) w)
      else w)"
| "cluster_step R cfg w (Lose k) = w\<lparr>cw_flight := without k (cw_flight w)\<rparr>"

section \<open>The relay message carries everything\<close>

definition remaining_fits :: "nat option \<Rightarrow> bool" where
  "remaining_fits r \<longleftrightarrow> (case r of None \<Rightarrow> True | Some n \<Rightarrow> n < 2 ^ 32)"

definition remaining_of :: "NativeBroker \<Rightarrow> PublishExtras \<Rightarrow> nat option" where
  "remaining_of b x = map_option (\<lambda>d. (d - now b) div second) (expiry_deadline x)"

text \<open>A world in the middle of relaying one message \<open>g\<close> from node \<open>a\<close> to the nodes \<open>N\<close>: what is still
  in flight goes to nodes that have not changed, every other node has got it once or lost it.\<close>

definition settled :: "u64 set \<Rightarrow> BrokerRelayMsg \<Rightarrow> bool \<Rightarrow> u64 \<Rightarrow> NativeBroker \<Rightarrow> NativeBroker \<Rightarrow> bool" where
  "settled N g lossless n b0 b \<longleftrightarrow>
     b = b0 \<and> \<not> (lossless \<and> n \<in> N) \<or> n \<in> N \<and> b = relay_handle g (off_reactor b0)"

definition pending ::
  "relay_runtime \<Rightarrow> u64 set \<Rightarrow> u64 \<Rightarrow> BrokerRelayMsg \<Rightarrow> (u64 \<Rightarrow> NativeBroker) \<Rightarrow> (u64 \<Rightarrow> NativeBroker) \<Rightarrow> u64 \<times> MessageFrame \<Rightarrow> bool" where
  "pending R N a g b0 b nf \<longleftrightarrow> fst nf \<in> N \<and> fst nf \<noteq> a \<and> snd nf = relay_frame R a (fst nf) g \<and> b (fst nf) = b0 (fst nf)"

definition relaying ::
  "relay_runtime \<Rightarrow> u64 set \<Rightarrow> u64 \<Rightarrow> BrokerRelayMsg \<Rightarrow> cluster_world \<Rightarrow> bool \<Rightarrow> cluster_world \<Rightarrow> bool" where
  "relaying R N a g w0 lossless w \<longleftrightarrow>
     cw_sent w = cw_sent w0 \<and> cw_brokers w a = cw_brokers w0 a \<and> distinct (map fst (cw_flight w)) \<and>
     (\<forall>nf \<in> set (cw_flight w). pending R N a g (cw_brokers w0) (cw_brokers w) nf) \<and>
     (\<forall>n. n \<noteq> a \<longrightarrow> n \<notin> fst ` set (cw_flight w) \<longrightarrow> settled N g lossless n (cw_brokers w0 n) (cw_brokers w n))"

fun is_lose :: "cluster_event \<Rightarrow> bool" where
  "is_lose (Lose k) = True" | "is_lose _ = False"

fun is_network :: "cluster_event \<Rightarrow> bool" where
  "is_network (Local n e) = False" | "is_network _ = True"

lemma relay_handle_msg:
  assumes "remaining_fits remaining"
  shows "relay_handle (relay_msg topic pl qos remaining props) b = deliver_remote_publish topic pl qos remaining props b"
proof -
  have "map (\<lambda>p. (ru_key p, ru_value p)) (rm_user_properties (relay_msg topic pl qos remaining props)) = pp_user_properties props"
    by (simp add: relay_msg_def comp_def case_prod_unfold)
  then show ?thesis
    using assms by (cases props) (auto simp: relay_handle_def relay_msg_def remaining_fits_def unat_of_nat split: option.splits)
qed

lemma forwarded_relay_handle: "forwarded (relay_handle m b) = forwarded b"
  by (simp add: relay_handle_def deliver_remote_publish_def ingest_def Let_def)

lemma forwarded_deliver_publish:
  assumes "peer_forwarder_set b"
  shows "forwarded (deliver_publish topic pl qos retain x b) =
    forwarded b @ [(topic, pl, qos, remaining_of b x, to_publish_properties x)]"
  using assms
  by (auto simp: deliver_publish_def forward_to_peers_def ingest_def retain_message_def remaining_of_def Let_def split: option.splits)

lemma static_view_simps [simp]:
  "distinct (static_view ns)" "set (static_view ns) = set ns"
  by (simp_all add: static_view_def distinct_remdups_adj)

section \<open>Delivering and losing frames\<close>

lemma fst_without: "map fst (without k xs) = without k (map fst xs)"
  by (simp add: without_def take_map drop_map)

lemma set_without_distinct:
  assumes "distinct xs" "k < length xs"
  shows "set (without k xs) = set xs - {xs ! k}" "distinct (without k xs)"
proof -
  have x: "xs = take k xs @ xs ! k # drop (Suc k) xs" by (rule id_take_nth_drop [OF assms(2)])
  have "distinct (take k xs @ xs ! k # drop (Suc k) xs)" using x assms(1) by simp
  then show "set (without k xs) = set xs - {xs ! k}" "distinct (without k xs)"
    using arg_cong [OF x, of set] by (auto simp: without_def)
qed

lemma without_beyond: "length xs \<le> k \<Longrightarrow> without k xs = xs"
  by (simp add: without_def)

text \<open>Taking one frame out of the flight: its node is settled when what happened to it settles it.\<close>

lemma relaying_remove:
  assumes r: "relaying R N a g w0 l w" and k: "k < length (cw_flight w)"
    and sent: "cw_sent w' = cw_sent w" and fl: "cw_flight w' = without k (cw_flight w)"
    and others: "\<And>m. m \<noteq> fst (cw_flight w ! k) \<Longrightarrow> cw_brokers w' m = cw_brokers w m"
    and this_one: "settled N g l' (fst (cw_flight w ! k)) (cw_brokers w0 (fst (cw_flight w ! k)))
      (cw_brokers w' (fst (cw_flight w ! k)))"
    and weaker: "l' \<Longrightarrow> l"
  shows "relaying R N a g w0 l' w'"
proof -
  let ?n = "fst (cw_flight w ! k)"
  have d: "distinct (map fst (cw_flight w))" and p: "pending R N a g (cw_brokers w0) (cw_brokers w) (cw_flight w ! k)"
    and ps: "\<And>nf. nf \<in> set (cw_flight w) \<Longrightarrow> pending R N a g (cw_brokers w0) (cw_brokers w) nf"
    and st: "\<And>n. n \<noteq> a \<Longrightarrow> n \<notin> fst ` set (cw_flight w) \<Longrightarrow> settled N g l n (cw_brokers w0 n) (cw_brokers w n)"
    using r nth_mem [OF k] by (auto simp: relaying_def)
  have na: "?n \<noteq> a" using p by (simp add: pending_def)
  have sub: "set (without k (cw_flight w)) \<subseteq> set (cw_flight w)"
    by (auto simp: without_def dest: in_set_takeD in_set_dropD)
  have img: "fst ` set (without k (cw_flight w)) = fst ` set (cw_flight w) - {?n}"
    using set_without_distinct(1) [OF d, of k] k by (simp flip: set_map fst_without)
  have "pending R N a g (cw_brokers w0) (cw_brokers w') nf" if "nf \<in> set (cw_flight w')" for nf
  proof -
    have "fst nf \<noteq> ?n" using that img fl by auto
    then show ?thesis using ps [of nf] that sub fl others [of "fst nf"] by (auto simp: pending_def)
  qed
  moreover have "settled N g l' n (cw_brokers w0 n) (cw_brokers w' n)" if "n \<noteq> a" "n \<notin> fst ` set (cw_flight w')" for n
  proof (cases "n = ?n")
    case False
    then have "n \<notin> fst ` set (cw_flight w)" using that img fl by auto
    from st [OF that(1) this] show ?thesis using others [OF False] weaker by (auto simp: settled_def)
  qed (use this_one in simp)
  ultimately show ?thesis
    using r sent fl others [of a] na set_without_distinct(2) [OF d, of k] k by (simp add: relaying_def fst_without)
qed

lemma relaying_flight:
  assumes "relaying R N a g w0 l w" "k < length (cw_flight w)"
  shows "pending R N a g (cw_brokers w0) (cw_brokers w) (cw_flight w ! k)"
  using assms nth_mem by (auto simp: relaying_def)

lemma relaying_lose:
  assumes "relaying R N a g w0 l w"
  shows "relaying R N a g w0 False (cluster_step R cfg w (Lose k))"
proof (cases "k < length (cw_flight w)")
  case True
  from relaying_remove [OF assms True, of "cluster_step R cfg w (Lose k)" False] relaying_flight [OF assms True]
  show ?thesis by (simp add: settled_def pending_def)
next
  case False
  then show ?thesis using assms by (auto simp: relaying_def settled_def without_beyond)
qed

lemma relaying_deliver:
  assumes r: "relaying R N a g w0 l w" and codec: "\<And>n. rt_receive R (relay_frame R a n g) = Some g"
  shows "relaying R N a g w0 l (cluster_step R cfg w (Deliver k))"
proof (cases "k < length (cw_flight w)")
  case True
  let ?w = "cluster_step R cfg w (Deliver k)" and ?n = "fst (cw_flight w ! k)"
  have p: "?n \<in> N" "snd (cw_flight w ! k) = relay_frame R a ?n g" "cw_brokers w ?n = cw_brokers w0 ?n"
    using relaying_flight [OF r True] by (simp_all add: pending_def)
  have step: "cw_brokers ?w = (cw_brokers w)(?n := relay_handle g (off_reactor (cw_brokers w0 ?n)))"
      "cw_flight ?w = without k (cw_flight w)" "cw_sent ?w = cw_sent w"
    using True p codec
    by (simp_all add: at_node_def forwarded_relay_handle broadcasts_def off_reactor_def case_prod_unfold Let_def)
  show ?thesis
    by (rule relaying_remove [OF r True step(3,2)]) (use p step(1) in \<open>simp_all add: settled_def\<close>)
qed (use r in simp)

lemma relaying_run:
  assumes "list_all is_network es" "\<And>n. rt_receive R (relay_frame R a n g) = Some g"
    and "relaying R N a g w0 l w"
  shows "relaying R N a g w0 (l \<and> \<not> list_ex is_lose es) (foldl (cluster_step R cfg) w es)"
  using assms(1,3)
proof (induction es arbitrary: l w)
  case (Cons e es)
  then have "is_network e" by simp
  then show ?case
  proof (cases e)
    case (Deliver k)
    then show ?thesis using Cons relaying_deliver [OF Cons.prems(2) assms(2)] by simp
  next
    case (Lose k)
    then show ?thesis using Cons relaying_lose [OF Cons.prems(2)] by fastforce
  qed simp
qed simp

lemma relaying_start:
  assumes "peer_forwarder_set (cw_brokers w a)" "cw_flight w = []"
    and "cfg a = new_BrokerCluster a peers" "set (all_node_ids a peers) = N"
    and w1: "w1 = at_node R cfg a (deliver_publish topic pl qos retain x) w"
    and g: "g = relay_msg topic pl qos (remaining_of (cw_brokers w a) x) (to_publish_properties x)"
  shows "relaying R N a g w1 True w1" "length (cw_sent w1) = length (cw_sent w) + (card N - 1)"
    "n \<noteq> a \<Longrightarrow> cw_brokers w1 n = cw_brokers w n"
proof -
  let ?v = "filter (\<lambda>n. n \<noteq> a) (static_view (all_node_ids a peers))"
  have fs: "cw_flight w1 = map (\<lambda>n. (n, relay_frame R a n g)) ?v"
      "cw_sent w1 = cw_sent w @ map (\<lambda>n. (n, relay_frame R a n g)) ?v"
    using assms by (simp_all add: at_node_def forwarded_deliver_publish broadcasts_def broadcast_def
        new_BrokerCluster_def Let_def)
  have v: "distinct ?v" "set ?v = N - {a}" using assms(4) by auto
  then have "length ?v = card (N - {a})" by (metis distinct_card)
  moreover have "a \<in> N" using assms(4) by (auto simp: all_node_ids_def)
  ultimately show "length (cw_sent w1) = length (cw_sent w) + (card N - 1)" by (simp add: fs)
  show "n \<noteq> a \<Longrightarrow> cw_brokers w1 n = cw_brokers w n" by (simp add: w1 at_node_def Let_def)
  have "fst ` set (cw_flight w1) = N - {a}" using v(2) by (simp add: fs image_image)
  then show "relaying R N a g w1 True w1"
    using v by (auto simp: relaying_def pending_def settled_def fs comp_def)
qed

section \<open>Properties\<close>

text \<open>
  C15: A PUBLISH of a client of node \<open>a\<close> is sent once to every other node of the roster, and no delivery
  of it sends anything: whatever the network delivers and loses, in any order, every other node has
  either not changed or processed the message exactly once, with its properties and remaining expiry;
  with no loss, once nothing is in flight every node has processed it.
\<close>

theorem cluster_relays_once:
  assumes "g = relay_msg topic pl qos (remaining_of (cw_brokers w a) x) (to_publish_properties x)"
    and "\<And>n. rt_receive R (relay_frame R a n g) = Some g"
    and "peer_forwarder_set (cw_brokers w a)" "cw_flight w = []"
    and "cfg a = new_BrokerCluster a peers" "set (all_node_ids a peers) = N"
    and "remaining_fits (remaining_of (cw_brokers w a) x)"
    and "w1 = at_node R cfg a (deliver_publish topic pl qos retain x) w"
    and "list_all is_network es" "w2 = foldl (cluster_step R cfg) w1 es"
  shows "length (cw_sent w2) = length (cw_sent w) + (card N - 1) \<and> cw_brokers w2 a = cw_brokers w1 a \<and>
    (\<forall>n. n \<noteq> a \<longrightarrow> cw_brokers w2 n = cw_brokers w n \<or>
       n \<in> N \<and> cw_brokers w2 n = deliver_remote_publish topic pl qos (remaining_of (cw_brokers w a) x)
         (to_publish_properties x) (off_reactor (cw_brokers w n))) \<and>
    (\<not> list_ex is_lose es \<and> cw_flight w2 = [] \<longrightarrow>
       (\<forall>n \<in> N - {a}. cw_brokers w2 n = deliver_remote_publish topic pl qos (remaining_of (cw_brokers w a) x)
         (to_publish_properties x) (off_reactor (cw_brokers w n))))"
proof -
  note st = relaying_start [OF assms(3-6,8,1)]
  have "relaying R N a g w1 (\<not> list_ex is_lose es) w2"
    using relaying_run [OF assms(9) assms(2) st(1), of cfg] assms(10) by simp
  then have r: "cw_sent w2 = cw_sent w1" "cw_brokers w2 a = cw_brokers w1 a"
    and p: "\<And>nf. nf \<in> set (cw_flight w2) \<Longrightarrow> pending R N a g (cw_brokers w1) (cw_brokers w2) nf"
    and s: "\<And>n. n \<noteq> a \<Longrightarrow> n \<notin> fst ` set (cw_flight w2) \<Longrightarrow>
      settled N g (\<not> list_ex is_lose es) n (cw_brokers w1 n) (cw_brokers w2 n)"
    by (auto simp: relaying_def)
  have "cw_brokers w2 n = cw_brokers w n \<or> n \<in> N \<and> cw_brokers w2 n =
      deliver_remote_publish topic pl qos (remaining_of (cw_brokers w a) x) (to_publish_properties x) (off_reactor (cw_brokers w n))"
    if "n \<noteq> a" for n
    using s [OF that] p st(3) [OF that] relay_handle_msg [OF assms(7)] assms(1)
    by (cases "n \<in> fst ` set (cw_flight w2)") (auto simp: pending_def settled_def)
  moreover have "cw_brokers w2 n =
      deliver_remote_publish topic pl qos (remaining_of (cw_brokers w a) x) (to_publish_properties x) (off_reactor (cw_brokers w n))"
    if "\<not> list_ex is_lose es \<and> cw_flight w2 = []" "n \<in> N - {a}" for n
    using s [of n] st(3) [of n] that relay_handle_msg [OF assms(7)] assms(1) by (auto simp: settled_def)
  ultimately show ?thesis using r st(2) by simp
qed

text \<open>Two nodes, and a runtime that hands over the one message of the example.\<close>

definition blank_frame :: MessageFrame where
  "blank_frame = \<lparr>mf_from = 0, mf_to = 0, mf_target_type = 0, mf_target_key = 0, mf_msg_type = 0, mf_mode = 0,
     mf_kind = 0, mf_deadline_ns = 0, mf_trace_id = 0, mf_subject = 0, mf_rights = 0, mf_payload = []\<rparr>"

definition two_nodes :: cluster_world where
  "two_nodes = \<lparr>cw_brokers = (\<lambda>_. new_NativeBroker None None True True), cw_flight = [], cw_sent = []\<rparr>"

definition one_message :: relay_runtime where
  "one_message = \<lparr>rt_blank = blank_frame, rt_actor_type = 7, rt_msg_type = 8, rt_tagless = 1, rt_encode = (\<lambda>_. []),
     rt_receive = (\<lambda>_. Some (relay_msg ''a'' [1] 0 None (to_publish_properties no_extras)))\<rparr>"

theorem cluster_relays_once_witness:
  "length (cw_sent (foldl (cluster_step one_message (\<lambda>n. new_BrokerCluster n [\<lparr>ps_id = 2, ps_host = ''b'', ps_port = 1\<rparr>]))
     (at_node one_message (\<lambda>n. new_BrokerCluster n [\<lparr>ps_id = 2, ps_host = ''b'', ps_port = 1\<rparr>]) 1
       (deliver_publish ''a'' [1] 0 False no_extras) two_nodes) [Deliver 0])) = 1"
proof -
  let ?p = "[\<lparr>ps_id = 2, ps_host = ''b'', ps_port = 1\<rparr>]"
  have rem: "remaining_of (cw_brokers two_nodes 1) no_extras = None" by (simp add: remaining_of_def no_extras_def)
  have g: "relay_msg ''a'' [1] 0 None (to_publish_properties no_extras) =
      relay_msg ''a'' [1] 0 (remaining_of (cw_brokers two_nodes 1) no_extras) (to_publish_properties no_extras)"
    by (simp add: rem)
  have "set (all_node_ids 1 ?p) = {1, 2}" by (simp add: all_node_ids_def)
  note N = this
  have codec: "\<And>n. rt_receive one_message (relay_frame one_message 1 n (relay_msg ''a'' [1] 0 None (to_publish_properties no_extras)))
      = Some (relay_msg ''a'' [1] 0 None (to_publish_properties no_extras))"
    and fwd: "peer_forwarder_set (cw_brokers two_nodes 1)" "cw_flight two_nodes = []"
    and fits: "remaining_fits (remaining_of (cw_brokers two_nodes 1) no_extras)" "list_all is_network [Deliver 0]"
    by (simp_all add: one_message_def two_nodes_def new_NativeBroker_def remaining_fits_def remaining_of_def no_extras_def)
  note once = cluster_relays_once [where cfg = "\<lambda>n. new_BrokerCluster n ?p", OF g codec fwd refl N fits(1) refl fits(2) refl]
  from once [of False]
  have "length (cw_sent (foldl (cluster_step one_message (\<lambda>n. new_BrokerCluster n ?p))
     (at_node one_message (\<lambda>n. new_BrokerCluster n ?p) 1 (deliver_publish ''a'' [1] 0 False no_extras) two_nodes) [Deliver 0]))
     = length (cw_sent two_nodes) + (card {1, 2 :: u64} - 1)"
    by blast
  then show ?thesis by (simp add: two_nodes_def)
qed

end
