(* ===== verification/Modbus_Common.thy ===== *)
theory Modbus_Common
  imports Flow_Context Durable_State
begin

text \<open>
  What the two Modbus drivers share: the function codes, the size of a reply, the write command of
  \<open>DeviceCommand::target\<close>, and the reconnect back-off. Both driver classes repeat this code word for
  word; the line references are to \<open>include/aero/drivers/modbus_tcp_driver.hpp\<close>. A link to the device
  (a socket or a serial port) is what its future calls return, and the bytes it has accepted.
\<close>

section \<open>Function codes and sizes\<close>

datatype ReadFunction = Coils | DiscreteInputs | HoldingRegisters | InputRegisters

fun fc_of :: "ReadFunction \<Rightarrow> u8" where
  "fc_of Coils = 0x01" | "fc_of DiscreteInputs = 0x02" | "fc_of HoldingRegisters = 0x03" | "fc_of InputRegisters = 0x04"

definition kFcWriteSingleRegister :: u8 where
  "kFcWriteSingleRegister = 0x06"

definition kFcWriteMultipleRegisters :: u8 where
  "kFcWriteMultipleRegisters = 0x10"

definition kFcExceptionBit :: u8 where
  "kFcExceptionBit = 0x80"

definition kMaxWriteMultipleRegisters :: nat where
  "kMaxWriteMultipleRegisters = 123"

definition is_bit_packed :: "ReadFunction \<Rightarrow> bool" where
  "is_bit_packed fn \<longleftrightarrow> fn = Coils \<or> fn = DiscreteInputs"

definition expected_response_bytes :: "ReadFunction \<Rightarrow> u16 \<Rightarrow> nat" where
  "expected_response_bytes fn count = (if is_bit_packed fn then (unat count + 7) div 8 else unat count * 2)"

section \<open>Write commands\<close>

text \<open>
  \<open>std::from_chars\<close> into a 16-bit unsigned: digits only, no sign and no white space; a value beyond 16
  bits is an error, and \<open>parse_u16\<close> wants the whole field.
\<close>

definition parse_u16 :: "string \<Rightarrow> u16 option" where
  "parse_u16 s =
     (if s = [] then None
      else if \<not> list_all is_dec_digit s then None
      else if 65536 \<le> dec_value s then None
      else Some (of_nat (dec_value s)))"

text \<open>The loop over the comma-separated values, with the values read so far.\<close>

function parse_values :: "string \<Rightarrow> u16 list \<Rightarrow> u16 list option" where
  "parse_values rest vs =
     (if rest = [] then Some vs
      else if kMaxWriteMultipleRegisters \<le> length vs then None
      else
        (case find_char (CHR '','') rest of
           None \<Rightarrow> (case parse_u16 rest of None \<Rightarrow> None | Some v \<Rightarrow> Some (vs @ [v]))
         | Some p \<Rightarrow>
             (case parse_u16 (take p rest) of None \<Rightarrow> None | Some v \<Rightarrow> parse_values (drop (Suc p) rest) (vs @ [v]))))"
  by pat_completeness auto
termination
  by (relation "measure (\<lambda>(rest, vs). length rest)") (auto dest: find_char_SomeD)

declare parse_values.simps [simp del]

datatype write_request = WriteSingle u16 u16 | WriteMultiple u16 "u16 list"

record DeviceCommand =
  dc_target :: string
  dc_value :: int

definition parse_write :: "DeviceCommand \<Rightarrow> write_request option" where
  "parse_write cmd =
     (case find_char (CHR '','') (dc_target cmd) of
        None \<Rightarrow>
          if dc_value cmd < 0 \<or> dc_value cmd > 0xFFFF then None
          else map_option (\<lambda>a. WriteSingle a (of_int (dc_value cmd))) (parse_u16 (dc_target cmd))
      | Some comma \<Rightarrow>
          (case parse_u16 (take comma (dc_target cmd)) of
             None \<Rightarrow> None
           | Some a \<Rightarrow>
               (case parse_values (drop (Suc comma) (dc_target cmd)) [] of
                  None \<Rightarrow> None
                | Some vs \<Rightarrow> if vs = [] then None else Some (WriteMultiple a vs))))"

section \<open>The link\<close>

text \<open>
  What a receive attempt meets: bytes, nothing yet and more time, nothing yet and the deadline of the
  call has passed, a failed poll, an error. When the list is used up the link stays silent until the
  deadline.
\<close>

datatype io_rx = IoChunk "byte list" | IoRetry | IoDeadline | IoPollError | IoError

datatype io_tx = IoSent nat | IoSendRetry | IoSendDeadline | IoSendPollError | IoSendError

record link =
  ln_recv :: "io_rx list"
  ln_send :: "io_tx list"
  ln_wire :: "byte list"

section \<open>Reconnecting\<close>

definition kInitialBackoffMs :: int where
  "kInitialBackoffMs = 200"

definition kMaxBackoffMs :: int where
  "kMaxBackoffMs = 5000"

record reconnect =
  backoff_ms :: int
  next_attempt_at :: int

text \<open>\<open>ensure_connected\<close> on the clock in milliseconds: whether an attempt is made, and the state after it
  fails or succeeds.\<close>

definition attempt_due :: "int \<Rightarrow> reconnect \<Rightarrow> bool" where
  "attempt_due t r \<longleftrightarrow> \<not> t < next_attempt_at r"

definition attempt_failed :: "int \<Rightarrow> reconnect \<Rightarrow> reconnect" where
  "attempt_failed t r =
     \<lparr>backoff_ms = (if backoff_ms r * 2 < kMaxBackoffMs then backoff_ms r * 2 else kMaxBackoffMs),
      next_attempt_at = t + backoff_ms r\<rparr>"

definition attempt_succeeded :: "int \<Rightarrow> reconnect \<Rightarrow> reconnect" where
  "attempt_succeeded t r = \<lparr>backoff_ms = kInitialBackoffMs, next_attempt_at = t\<rparr>"

text \<open>The outcome of one transaction: the connection is no longer trusted (\<open>io_ok\<close> false), the device
  answered with an exception, or the answer.\<close>

datatype 'a reply = Lost | Exc u8 | Got 'a

section \<open>The bytes a link delivers\<close>

fun io_bytes :: "io_rx list \<Rightarrow> byte list" where
  "io_bytes [] = []"
| "io_bytes (IoChunk bs # rxs) = bs @ io_bytes rxs"
| "io_bytes (_ # rxs) = io_bytes rxs"

text \<open>A link that stays up: bytes, in chunks of any size, and waits.\<close>

fun io_live :: "io_rx \<Rightarrow> bool" where
  "io_live (IoChunk bs) \<longleftrightarrow> bs \<noteq> []"
| "io_live IoRetry \<longleftrightarrow> True"
| "io_live _ \<longleftrightarrow> False"

section \<open>Interface: reading a number of bytes\<close>

text \<open>
  What both drivers rely on of their \<open>recv_exact\<close>: a read that succeeds takes exactly the next bytes of
  the stream, and on a link that stays up it succeeds as soon as they are there.
\<close>

locale link_reader =
  fixes rd :: "io_rx list \<Rightarrow> nat \<Rightarrow> byte list \<Rightarrow> byte list option \<times> io_rx list"
  assumes rd_sound: "rd rxs n got = (Some bs, rxs') \<Longrightarrow>
      \<exists>x. bs = got @ x \<and> length x = n \<and> io_bytes rxs = x @ io_bytes rxs'"
    and rd_live: "list_all io_live rxs \<Longrightarrow> n \<le> length (io_bytes rxs) \<Longrightarrow>
      \<exists>rxs'. rd rxs n got = (Some (got @ take n (io_bytes rxs)), rxs') \<and>
        io_bytes rxs' = drop n (io_bytes rxs) \<and> list_all io_live rxs'"
begin

definition recv :: "nat \<Rightarrow> link \<Rightarrow> byte list option \<times> link" where
  "recv n l = (let (r, rxs) = rd (ln_recv l) n [] in (r, l\<lparr>ln_recv := rxs\<rparr>))"

lemma recv_sound:
  assumes "recv n l = (Some bs, l')"
  shows "length bs = n" "io_bytes (ln_recv l) = bs @ io_bytes (ln_recv l')"
  using assms rd_sound [of "ln_recv l" n "[]" bs] by (auto simp: recv_def Let_def split: prod.splits)

lemma recv_live:
  assumes "list_all io_live (ln_recv l)" "io_bytes (ln_recv l) = bs @ later" "n = length bs"
  shows "\<exists>l'. recv n l = (Some bs, l') \<and> io_bytes (ln_recv l') = later \<and> list_all io_live (ln_recv l')"
  using rd_live [OF assms(1), of n "[]"] assms(2,3) by (auto simp: recv_def)

end

section \<open>Writing a command\<close>

definition print_values :: "u16 list \<Rightarrow> string" where
  "print_values vs = concat (map (\<lambda>v. CHR '','' # to_string (unat v)) vs)"

definition print_write :: "u16 \<Rightarrow> u16 list \<Rightarrow> string" where
  "print_write a vs = to_string (unat a) @ print_values vs"

lemma comma_not_digit [simp]: "CHR '','' \<notin> set (to_string n)"
  using to_string_digit [of "CHR '',''" n] by auto

lemma parse_u16_to_string: "parse_u16 (to_string (unat v)) = Some v"
proof -
  have "unat v < 65536" using unsigned_less [of v, where ?'a = nat] by simp
  then show ?thesis by (simp add: parse_u16_def to_string_digits dec_value_to_string)
qed

lemma parse_values_print:
  assumes "vs \<noteq> []"
  shows "parse_values (tl (print_values vs)) acc =
    (if length acc + length vs \<le> kMaxWriteMultipleRegisters then Some (acc @ vs) else None)"
  using assms
proof (induction vs arbitrary: acc)
  case (Cons v vs)
  let ?s = "to_string (unat v)"
  show ?case
  proof (cases vs)
    case Nil
    have "find_char (CHR '','') ?s = None" by (simp add: find_char_None_iff)
    then show ?thesis
      using Nil by (subst parse_values.simps) (auto simp: print_values_def parse_u16_to_string)
  next
    case (Cons w ws)
    have r: "tl (print_values (v # vs)) = ?s @ CHR '','' # tl (print_values vs)"
      by (simp add: print_values_def Cons)
    have "find_char (CHR '','') (?s @ CHR '','' # tl (print_values vs)) = Some (length ?s)"
      by (rule find_char_append_Cons) simp
    moreover have "length (print_values vs) > 0" by (simp add: print_values_def Cons)
    ultimately show ?thesis
      unfolding r using Cons.IH [of "acc @ [v]"] Cons
      by (subst parse_values.simps) (auto simp: parse_u16_to_string)
  qed
qed simp

text \<open>The back-off never leaves its bounds, and the attempts that failed in a row double it.\<close>

definition backoff_inv :: "reconnect \<Rightarrow> bool" where
  "backoff_inv r \<longleftrightarrow> kInitialBackoffMs \<le> backoff_ms r \<and> backoff_ms r \<le> kMaxBackoffMs"

datatype attempt = Attempt int bool

fun reconnect_step :: "reconnect \<Rightarrow> attempt \<Rightarrow> reconnect" where
  "reconnect_step r (Attempt t up) =
     (if \<not> attempt_due t r then r else if up then attempt_succeeded t r else attempt_failed t r)"

interpretation backoff: machine reconnect_step backoff_inv
proof unfold_locales
  fix r a assume "backoff_inv r"
  then show "backoff_inv (reconnect_step r a)"
    by (cases a) (auto simp: backoff_inv_def attempt_failed_def attempt_succeeded_def kInitialBackoffMs_def kMaxBackoffMs_def)
qed

section \<open>Properties\<close>

text \<open>
  A write command printed with an address and any number of values is read back as itself, up to
  the protocol's 123 values; a longer one is refused before anything is sent.
\<close>

theorem write_command_roundtrip:
  assumes "vs \<noteq> []"
  shows "parse_write \<lparr>dc_target = print_write a vs, dc_value = x\<rparr> =
    (if length vs \<le> kMaxWriteMultipleRegisters then Some (WriteMultiple a vs) else None)"
proof -
  let ?s = "to_string (unat a)"
  have r: "print_write a vs = ?s @ CHR '','' # tl (print_values vs)"
    using assms by (cases vs) (simp_all add: print_write_def print_values_def)
  have "find_char (CHR '','') (?s @ CHR '','' # tl (print_values vs)) = Some (length ?s)"
    by (rule find_char_append_Cons) simp
  then show ?thesis
    using parse_values_print [OF assms, of "[]"] assms by (simp add: parse_write_def r parse_u16_to_string)
qed

theorem write_command_roundtrip_witness:
  "parse_write \<lparr>dc_target = print_write 100 [1, 65535], dc_value = 0\<rparr> = Some (WriteMultiple 100 [1, 65535])"
  using write_command_roundtrip [of "[1, 65535]" 100 0] by (simp add: kMaxWriteMultipleRegisters_def)

text \<open>
  Whatever the attempts and their times, the wait between two attempts stays between 200 and 5000
  milliseconds, and an attempt is made only once the wait of the previous failure is over.
\<close>

theorem backoff_bounded:
  assumes "200 \<le> backoff_ms r" "backoff_ms r \<le> 5000"
  shows "200 \<le> backoff_ms (foldl reconnect_step r as) \<and> backoff_ms (foldl reconnect_step r as) \<le> 5000"
  using backoff.inv_foldl [of r as] assms
  by (simp add: backoff_inv_def kInitialBackoffMs_def kMaxBackoffMs_def)

end
