(* ===== verification/Modbus_Rtu.thy ===== *)
theory Modbus_Rtu
  imports Modbus_Common
begin

text \<open>
  \<open>include/aero/drivers/modbus_rtu_driver.hpp\<close>: Modbus over a serial line. The code sends a request,
  reads the two-byte head of the answer and branches three times in the same way for the three
  transactions; here the common beginning is one definition. The serial port is a \<open>link\<close> of
  \<open>Modbus_Common\<close>; a read that fails counts as no bytes, as in \<open>RealSerialTransport::read_some\<close>.
\<close>

section \<open>The CRC\<close>

definition crc_bit :: "u16 \<Rightarrow> u16" where
  "crc_bit crc = (if crc AND 0x0001 \<noteq> 0 then drop_bit 1 crc XOR 0xA001 else drop_bit 1 crc)"

definition crc_feed :: "u16 \<Rightarrow> byte \<Rightarrow> u16" where
  "crc_feed crc b = (crc_bit ^^ 8) (crc XOR ucast b)"

definition modbus_crc16 :: "byte list \<Rightarrow> u16" where
  "modbus_crc16 data = foldl crc_feed 0xFFFF data"

definition crc_bytes :: "u16 \<Rightarrow> byte list" where
  "crc_bytes crc = [ucast (crc AND 0xFF), ucast (drop_bit 8 crc AND 0xFF)]"

definition get_u16_le :: "byte list \<Rightarrow> u16" where
  "get_u16_le p = ucast (p ! 0) OR push_bit 8 (ucast (p ! 1))"

definition with_crc :: "byte list \<Rightarrow> byte list" where
  "with_crc bs = bs @ crc_bytes (modbus_crc16 bs)"

section \<open>The serial port\<close>

fun serial_write :: "io_tx list \<Rightarrow> byte list \<Rightarrow> byte list \<Rightarrow> bool \<times> io_tx list \<times> byte list" where
  "serial_write txs [] w = (True, txs, w)"
| "serial_write (IoSent n # txs) (b # bs) w =
     (if n = 0 then (False, txs, w) else serial_write txs (drop n (b # bs)) (w @ take n (b # bs)))"
| "serial_write (_ # txs) (b # bs) w = (False, txs, w)"
| "serial_write [] (b # bs) w = (False, [], w)"

definition rtu_write_all :: "byte list \<Rightarrow> link \<Rightarrow> bool \<times> link" where
  "rtu_write_all bs l =
     (let (ok, txs, w) = serial_write (ln_send l) bs (ln_wire l) in (ok, l\<lparr>ln_send := txs, ln_wire := w\<rparr>))"

text \<open>\<open>recv_exact\<close>: \<open>n\<close> bytes still missing, \<open>got\<close> already read.\<close>

fun serial_read :: "io_rx list \<Rightarrow> nat \<Rightarrow> byte list \<Rightarrow> byte list option \<times> io_rx list" where
  "serial_read rxs 0 got = (Some got, rxs)"
| "serial_read [] (Suc n) got = (None, [])"
| "serial_read (IoDeadline # rxs) (Suc n) got = (None, rxs)"
| "serial_read (IoChunk bs # rxs) (Suc n) got =
     (if length bs \<le> Suc n then serial_read rxs (Suc n - length bs) (got @ bs)
      else (Some (got @ take (Suc n) bs), IoChunk (drop (Suc n) bs) # rxs))"
| "serial_read (_ # rxs) (Suc n) got = serial_read rxs (Suc n) got"

definition rtu_recv_exact :: "nat \<Rightarrow> link \<Rightarrow> byte list option \<times> link" where
  "rtu_recv_exact n l = (let (r, rxs) = serial_read (ln_recv l) n [] in (r, l\<lparr>ln_recv := rxs\<rparr>))"

section \<open>Transactions\<close>

record ModbusRtuDriver =
  slave_address :: u8
  rtu_start_address :: u16
  rtu_register_count :: u16
  rtu_read_fn :: ReadFunction
  rtu_link :: "link option"
  rtu_opened :: bool
  rtu_exception :: u8
  rtu_reconnect :: reconnect

text \<open>Send the request; read the head; a wrong address, a bad exception frame or another function code
  is a lost connection.\<close>

definition rtu_begin :: "u8 \<Rightarrow> u8 \<Rightarrow> byte list \<Rightarrow> link \<Rightarrow> byte list reply \<times> link" where
  "rtu_begin slave want req l =
     (let (ok, l) = rtu_write_all req l in
      if \<not> ok then (Lost, l)
      else
        case rtu_recv_exact 2 l of
          (None, l) \<Rightarrow> (Lost, l)
        | (Some head, l) \<Rightarrow>
            if head ! 0 \<noteq> slave then (Lost, l)
            else if head ! 1 AND kFcExceptionBit \<noteq> 0 then
              (case rtu_recv_exact 3 l of
                 (None, l) \<Rightarrow> (Lost, l)
               | (Some rest, l) \<Rightarrow>
                   if modbus_crc16 [head ! 0, head ! 1, rest ! 0] \<noteq> get_u16_le (drop 1 rest) then (Lost, l)
                   else (Exc (rest ! 0), l))
            else if head ! 1 \<noteq> want then (Lost, l)
            else (Got head, l))"

definition rtu_read_request :: "ModbusRtuDriver \<Rightarrow> byte list" where
  "rtu_read_request d =
     with_crc ([slave_address d, fc_of (rtu_read_fn d)] @ be_bytes 2 (rtu_start_address d) @ be_bytes 2 (rtu_register_count d))"

definition rtu_frame :: "ModbusRtuDriver \<Rightarrow> byte list \<Rightarrow> Frame" where
  "rtu_frame d data =
     \<lparr>raw = (if is_bit_packed (rtu_read_fn d) then ucast (rtu_register_count d) else 0),
      payload_len = of_nat (length data), fr_payload = data\<rparr>"

definition rtu_do_transaction :: "ModbusRtuDriver \<Rightarrow> link \<Rightarrow> Frame reply \<times> link" where
  "rtu_do_transaction d l =
     (case rtu_begin (slave_address d) (fc_of (rtu_read_fn d)) (rtu_read_request d) l of
        (Lost, l) \<Rightarrow> (Lost, l)
      | (Exc e, l) \<Rightarrow> (Exc e, l)
      | (Got head, l) \<Rightarrow>
          (case rtu_recv_exact 1 l of
             (None, l) \<Rightarrow> (Lost, l)
           | (Some bc, l) \<Rightarrow>
               let expected = expected_response_bytes (rtu_read_fn d) (rtu_register_count d) in
               if unat (bc ! 0) \<noteq> expected then (Lost, l)
               else
                 (case rtu_recv_exact (expected + 2) l of
                    (None, l) \<Rightarrow> (Lost, l)
                  | (Some dc, l) \<Rightarrow>
                      if modbus_crc16 ([head ! 0, head ! 1, bc ! 0] @ take expected dc) \<noteq> get_u16_le (drop expected dc)
                      then (Lost, l)
                      else (Got (rtu_frame d (take expected dc)), l))))"

text \<open>The answer to both writes: address and value (or quantity), echoed.\<close>

definition rtu_echo :: "u16 \<Rightarrow> u16 \<Rightarrow> byte list reply \<times> link \<Rightarrow> unit reply \<times> link" where
  "rtu_echo address val r =
     (case r of
        (Lost, l) \<Rightarrow> (Lost, l)
      | (Exc e, l) \<Rightarrow> (Exc e, l)
      | (Got head, l) \<Rightarrow>
          (case rtu_recv_exact 6 l of
             (None, l) \<Rightarrow> (Lost, l)
           | (Some rest, l) \<Rightarrow>
               if modbus_crc16 (head @ take 4 rest) \<noteq> get_u16_le (drop 4 rest) then (Lost, l)
               else if be_value [rest ! 0, rest ! 1] \<noteq> address \<or> be_value [rest ! 2, rest ! 3] \<noteq> val then (Lost, l)
               else (Got (), l)))"

definition rtu_do_write_transaction :: "ModbusRtuDriver \<Rightarrow> u16 \<Rightarrow> u16 \<Rightarrow> link \<Rightarrow> unit reply \<times> link" where
  "rtu_do_write_transaction d address val l =
     rtu_echo address val
       (rtu_begin (slave_address d) kFcWriteSingleRegister
          (with_crc ([slave_address d, kFcWriteSingleRegister] @ be_bytes 2 address @ be_bytes 2 val)) l)"

definition rtu_do_write_multiple_transaction :: "ModbusRtuDriver \<Rightarrow> u16 \<Rightarrow> u16 list \<Rightarrow> link \<Rightarrow> unit reply \<times> link" where
  "rtu_do_write_multiple_transaction d address vs l =
     rtu_echo address (of_nat (length vs))
       (rtu_begin (slave_address d) kFcWriteMultipleRegisters
          (with_crc ([slave_address d, kFcWriteMultipleRegisters] @ be_bytes 2 address @ be_bytes 2 (of_nat (length vs) :: u16)
             @ [of_nat (length vs * 2)] @ concat (map (be_bytes 2) vs))) l)"

section \<open>The driver\<close>

text \<open>\<open>now\<close> and \<open>dial\<close> are the clock in milliseconds and what opening the port would give.\<close>

definition rtu_open :: "int \<Rightarrow> link option \<Rightarrow> ModbusRtuDriver \<Rightarrow> DriverStatus \<times> ModbusRtuDriver" where
  "rtu_open now dial d =
     (if kMaxFramePayload < expected_response_bytes (rtu_read_fn d) (rtu_register_count d) then (DsError, d)
      else
        let d = d\<lparr>rtu_opened := True, rtu_reconnect := \<lparr>backoff_ms = kInitialBackoffMs, next_attempt_at = now\<rparr>\<rparr>
        in case dial of None \<Rightarrow> (DsError, d) | Some l \<Rightarrow> (DsOk, d\<lparr>rtu_link := Some l\<rparr>))"

definition rtu_ensure_connected :: "int \<Rightarrow> link option \<Rightarrow> ModbusRtuDriver \<Rightarrow> bool \<times> ModbusRtuDriver" where
  "rtu_ensure_connected now dial d =
     (if \<not> attempt_due now (rtu_reconnect d) then (False, d)
      else case dial of
        None \<Rightarrow> (False, d\<lparr>rtu_reconnect := attempt_failed now (rtu_reconnect d)\<rparr>)
      | Some l \<Rightarrow> (True, d\<lparr>rtu_link := Some l, rtu_reconnect := attempt_succeeded now (rtu_reconnect d)\<rparr>))"

text \<open>One transaction on a driver that may have to reconnect first; \<open>io_ok\<close> false closes the port.\<close>

definition rtu_transact ::
  "int \<Rightarrow> link option \<Rightarrow> (ModbusRtuDriver \<Rightarrow> link \<Rightarrow> 'a reply \<times> link) \<Rightarrow> ModbusRtuDriver \<Rightarrow> 'a option \<times> ModbusRtuDriver" where
  "rtu_transact now dial f d0 =
     (let (up, d) = (case rtu_link d0 of Some _ \<Rightarrow> (True, d0) | None \<Rightarrow> rtu_ensure_connected now dial d0)
      in case rtu_link d of
           Some l \<Rightarrow>
             if up then
               (case f d l of
                  (Lost, l) \<Rightarrow> (None, d\<lparr>rtu_link := None\<rparr>)
                | (Exc e, l) \<Rightarrow> (None, d\<lparr>rtu_link := Some l, rtu_exception := e\<rparr>)
                | (Got x, l) \<Rightarrow> (Some x, d\<lparr>rtu_link := Some l\<rparr>))
             else (None, d)
         | None \<Rightarrow> (None, d))"

text \<open>\<open>poll\<close>: the frame it pushes into the sink, if any; the push waits for credit and never drops.\<close>

definition rtu_poll :: "int \<Rightarrow> link option \<Rightarrow> ModbusRtuDriver \<Rightarrow> DriverStatus \<times> Frame list \<times> ModbusRtuDriver" where
  "rtu_poll now dial d =
     (if \<not> rtu_opened d then (DsError, [], d)
      else case rtu_transact now dial rtu_do_transaction d of
        (None, d) \<Rightarrow> (DsError, [], d)
      | (Some f, d) \<Rightarrow> (DsOk, [f], d))"

definition rtu_write :: "int \<Rightarrow> link option \<Rightarrow> DeviceCommand \<Rightarrow> ModbusRtuDriver \<Rightarrow> DriverStatus \<times> ModbusRtuDriver" where
  "rtu_write now dial cmd d =
     (if \<not> rtu_opened d then (DsError, d)
      else case parse_write cmd of
        None \<Rightarrow> (DsError, d)
      | Some w \<Rightarrow>
          (case rtu_transact now dial
             (\<lambda>d. case w of WriteSingle a v \<Rightarrow> rtu_do_write_transaction d a v
                | WriteMultiple a vs \<Rightarrow> rtu_do_write_multiple_transaction d a vs) d of
             (None, d) \<Rightarrow> (DsError, d)
           | (Some _, d) \<Rightarrow> (DsOk, d)))"

definition rtu_close :: "ModbusRtuDriver \<Rightarrow> ModbusRtuDriver" where
  "rtu_close d = d\<lparr>rtu_link := None\<rparr>"

text \<open>The reply a device sends to a read.\<close>

definition rtu_response :: "ModbusRtuDriver \<Rightarrow> byte list \<Rightarrow> byte list" where
  "rtu_response d data = with_crc ([slave_address d, fc_of (rtu_read_fn d), of_nat (length data)] @ data)"

section \<open>The CRC is injective step by step\<close>

lemma odd_bit: "crc AND 0x0001 \<noteq> 0 \<longleftrightarrow> bit crc 0" for crc :: u16
  by (simp add: and_one_eq odd_iff_mod_2_eq_one bit_0 flip: one_word_def)

lemma bit_crc_bit: "n < 16 \<Longrightarrow> bit (crc_bit c) n \<longleftrightarrow> (bit c (Suc n) \<noteq> (bit c 0 \<and> bit (0xA001 :: u16) n))"
  by (auto simp: crc_bit_def odd_bit bit_xor_iff bit_drop_bit_eq)

lemma crc_bit_inj: "crc_bit c = crc_bit d \<Longrightarrow> c = d"
proof (rule bit_word_eqI)
  fix n assume eq: "crc_bit c = crc_bit d" and "n < LENGTH(16)"
  have top: "bit (0xA001 :: u16) 15" "\<not> bit c 16" "\<not> bit d 16"
    using bit_imp_le_length [of c 16] bit_imp_le_length [of d 16] by auto
  have "bit (crc_bit c) 15 \<longleftrightarrow> bit (crc_bit d) 15" using eq by simp
  then have z: "bit c 0 \<longleftrightarrow> bit d 0" using top by (simp add: bit_crc_bit)
  show "bit c n \<longleftrightarrow> bit d n"
  proof (cases n)
    case (Suc k)
    then have "k < 16" using \<open>n < LENGTH(16)\<close> by simp
    have "bit (crc_bit c) k \<longleftrightarrow> bit (crc_bit d) k" using eq by simp
    then show ?thesis using z Suc \<open>k < 16\<close> by (auto simp: bit_crc_bit)
  qed (use z in simp)
qed

lemma crc_feed_inj:
  "crc_feed c b = crc_feed d b \<Longrightarrow> c = d" "crc_feed c b = crc_feed c b' \<Longrightarrow> b = b'"
proof -
  have inj: "(crc_bit ^^ n) c = (crc_bit ^^ n) d \<Longrightarrow> c = d" for n c d
    by (induction n) (auto dest: crc_bit_inj)
  have x: "c XOR e = d XOR e \<Longrightarrow> c = d" for c d e :: u16
    by (metis xor.assoc xor_self_eq xor.right_neutral)
  show "crc_feed c b = crc_feed d b \<Longrightarrow> c = d"
    unfolding crc_feed_def using inj x by blast
  have "c XOR e = c XOR e' \<Longrightarrow> e = e'" for e e' :: u16
    by (metis xor.assoc xor_self_eq xor.left_neutral)
  moreover have "b = b'" if "(ucast b :: u16) = ucast b'"
  proof (rule bit_word_eqI)
    fix n assume "n < LENGTH(8)"
    then show "bit b n \<longleftrightarrow> bit b' n"
      using arg_cong [OF that, of "\<lambda>w. bit w n"] by (simp add: bit_ucast_iff)
  qed
  ultimately show "crc_feed c b = crc_feed c b' \<Longrightarrow> b = b'"
    unfolding crc_feed_def using inj by blast
qed

lemma crc_foldl_inj: "foldl crc_feed c bs = foldl crc_feed d bs \<Longrightarrow> c = d"
  by (induction bs arbitrary: c d) (auto dest: crc_feed_inj(1))

text \<open>Changing one byte changes the checksum.\<close>

lemma modbus_crc16_update:
  assumes "i < length bs" "modbus_crc16 (bs[i := b]) = modbus_crc16 bs"
  shows "b = bs ! i"
proof -
  have s: "bs = take i bs @ bs ! i # drop (Suc i) bs" "bs[i := b] = take i bs @ b # drop (Suc i) bs"
    using assms(1) by (simp_all add: id_take_nth_drop upd_conv_take_nth_drop)
  have "foldl crc_feed 0xFFFF (take i bs @ b # drop (Suc i) bs) = foldl crc_feed 0xFFFF (take i bs @ bs ! i # drop (Suc i) bs)"
    using assms(2) s by (simp add: modbus_crc16_def)
  then have "crc_feed (foldl crc_feed 0xFFFF (take i bs)) b = crc_feed (foldl crc_feed 0xFFFF (take i bs)) (bs ! i)"
    using crc_foldl_inj by (simp only: foldl_append foldl_Cons)
  then show ?thesis by (rule crc_feed_inj(2))
qed

lemma length_crc_bytes [simp]: "length (crc_bytes c) = 2"
  by (simp add: crc_bytes_def)

lemma get_crc_bytes: "get_u16_le (crc_bytes c) = c"
  by (rule bit_word_eqI) (auto simp: get_u16_le_def crc_bytes_def and_255 bit_simps)

lemma crc_bytes_get: "length p = 2 \<Longrightarrow> crc_bytes (get_u16_le p) = p"
proof -
  assume "length p = 2"
  then obtain a b where p: "p = [a, b]" by (auto simp: length_Suc_conv numeral_2_eq_2)
  have "ucast (get_u16_le [a, b] AND 0xFF) = a" "ucast (drop_bit 8 (get_u16_le [a, b]) AND 0xFF) = b"
    by (rule bit_word_eqI; auto simp: get_u16_le_def and_255 bit_simps dest: bit_imp_le_length)+
  then show ?thesis by (simp add: crc_bytes_def p)
qed

text \<open>Two frames of one length with good checksums do not differ in exactly one byte.\<close>

lemma with_crc_update:
  assumes "with_crc xs = (with_crc ys)[i := b]" "length xs = length ys" "i < length (with_crc ys)"
  shows "b = with_crc ys ! i"
proof (cases "i < length ys")
  case True
  then have "xs = ys[i := b]" "modbus_crc16 xs = modbus_crc16 ys"
    using assms(1,2) get_crc_bytes by (simp_all add: with_crc_def list_update_append) (metis)
  with modbus_crc16_update [OF True] show ?thesis using True by (simp add: with_crc_def nth_append)
next
  case False
  then have "xs @ crc_bytes (modbus_crc16 xs) = ys @ (crc_bytes (modbus_crc16 ys))[i - length ys := b]"
    using assms(1) list_update_append [of ys _ i b] unfolding with_crc_def by metis
  then have "xs = ys \<and> crc_bytes (modbus_crc16 xs) = (crc_bytes (modbus_crc16 ys))[i - length ys := b]"
    using append_eq_append_conv [OF disjI1 [OF assms(2)]] by blast
  then have "crc_bytes (modbus_crc16 ys) ! (i - length ys) = (crc_bytes (modbus_crc16 ys))[i - length ys := b] ! (i - length ys)"
    by (elim conjE) (simp only:)
  then show ?thesis using False assms(3) by (simp add: with_crc_def nth_append)
qed

section \<open>Reading\<close>

interpretation serial: link_reader serial_read
proof unfold_locales
  show "serial_read rxs n got = (Some bs, rxs') \<Longrightarrow> \<exists>x. bs = got @ x \<and> length x = n \<and> io_bytes rxs = x @ io_bytes rxs'"
    for rxs n got bs rxs'
  proof (induction rxs n got rule: serial_read.induct)
    case (4 cs rxs n got)
    show ?case
    proof (cases "length cs \<le> Suc n")
      case True
      with 4 show ?thesis by fastforce
    next
      case False
      then have "bs = got @ take (Suc n) cs" "rxs' = IoChunk (drop (Suc n) cs) # rxs" using "4.prems" by auto
      then show ?thesis using False by (intro exI [of _ "take (Suc n) cs"]) simp
    qed
  qed (auto split: if_splits)
  show "list_all io_live rxs \<Longrightarrow> n \<le> length (io_bytes rxs) \<Longrightarrow>
      \<exists>rxs'. serial_read rxs n got = (Some (got @ take n (io_bytes rxs)), rxs') \<and>
        io_bytes rxs' = drop n (io_bytes rxs) \<and> list_all io_live rxs'" for rxs n got
    by (induction rxs n got rule: serial_read.induct) auto
qed

lemma rtu_recv_eq: "rtu_recv_exact = serial.recv"
  by (simp add: fun_eq_iff rtu_recv_exact_def serial.recv_def)

lemmas rtu_recv_sound = serial.recv_sound [folded rtu_recv_eq]
lemmas rtu_recv_live = serial.recv_live [folded rtu_recv_eq]

lemma serial_write_recv [simp]: "ln_recv (snd (rtu_write_all bs l)) = ln_recv l"
  by (simp add: rtu_write_all_def Let_def split: prod.splits)

lemma rtu_begin_sound:
  assumes "rtu_begin slave want req l = (Got head, l')"
  shows "head = [slave, want]" "io_bytes (ln_recv l) = head @ io_bytes (ln_recv l')"
proof -
  obtain l1 where l1: "rtu_write_all req l = (True, l1)"
    using assms by (auto simp: rtu_begin_def Let_def split: prod.splits if_splits)
  then have r: "ln_recv l1 = ln_recv l" using serial_write_recv [of req l] by simp
  have h: "rtu_recv_exact 2 l1 = (Some head, l')" "head ! 0 = slave" "head ! 1 = want"
    using assms l1
    by (auto simp: rtu_begin_def Let_def split: prod.splits if_splits option.splits)
  show "io_bytes (ln_recv l) = head @ io_bytes (ln_recv l')" using rtu_recv_sound(2) [OF h(1)] r by simp
  show "head = [slave, want]"
    using rtu_recv_sound(1) [OF h(1)] h(2,3) by (auto simp: length_Suc_conv numeral_2_eq_2)
qed

lemma rtu_do_transaction_sound:
  assumes "rtu_do_transaction d l = (Got f, l')"
  shows "\<exists>data. length data = expected_response_bytes (rtu_read_fn d) (rtu_register_count d) \<and> f = rtu_frame d data \<and>
    io_bytes (ln_recv l) = rtu_response d data @ io_bytes (ln_recv l')"
proof -
  let ?n = "expected_response_bytes (rtu_read_fn d) (rtu_register_count d)"
  obtain head l1 where b: "rtu_begin (slave_address d) (fc_of (rtu_read_fn d)) (rtu_read_request d) l = (Got head, l1)"
    using assms by (auto simp: rtu_do_transaction_def split: prod.splits reply.splits)
  note h = rtu_begin_sound [OF b]
  obtain bc l2 where c: "rtu_recv_exact 1 l1 = (Some bc, l2)" "unat (bc ! 0) = ?n"
    using assms b by (auto simp: rtu_do_transaction_def Let_def split: prod.splits option.splits if_splits)
  obtain dc where e: "rtu_recv_exact (?n + 2) l2 = (Some dc, l')"
    "modbus_crc16 ([head ! 0, head ! 1, bc ! 0] @ take ?n dc) = get_u16_le (drop ?n dc)" "f = rtu_frame d (take ?n dc)"
    using assms b c by (auto simp: rtu_do_transaction_def Let_def split: prod.splits option.splits if_splits)
  have l: "length bc = 1" "length dc = ?n + 2" using rtu_recv_sound(1) [OF c(1)] rtu_recv_sound(1) [OF e(1)] by simp_all
  have bc: "bc = [of_nat ?n]"
    using l(1) c(2) by (auto simp: length_Suc_conv simp flip: c(2))
  have "crc_bytes (modbus_crc16 ([slave_address d, fc_of (rtu_read_fn d), of_nat ?n] @ take ?n dc)) = drop ?n dc"
    using e(2) h(1) bc l(2) crc_bytes_get [of "drop ?n dc"] by simp
  then have "rtu_response d (take ?n dc) = head @ bc @ dc"
    using l(2) h(1) bc by (simp add: rtu_response_def with_crc_def)
  then show ?thesis
    using e(3) l(2) h(2) rtu_recv_sound(2) [OF c(1)] rtu_recv_sound(2) [OF e(1)]
    by (intro exI [of _ "take ?n dc"]) simp
qed

lemma fc_not_exception: "fc_of fn AND kFcExceptionBit = 0"
  by (cases fn) (simp_all add: kFcExceptionBit_def)

lemma rtu_do_transaction_reads:
  assumes "fst (rtu_write_all (rtu_read_request d) l)" "list_all io_live (ln_recv l)"
    and "length data = expected_response_bytes (rtu_read_fn d) (rtu_register_count d)" "length data < 256"
    and "io_bytes (ln_recv l) = rtu_response d data @ later"
  shows "\<exists>l'. rtu_do_transaction d l = (Got (rtu_frame d data), l') \<and> io_bytes (ln_recv l') = later"
proof -
  let ?fc = "fc_of (rtu_read_fn d)" and ?n = "length data"
  let ?crc = "crc_bytes (modbus_crc16 ([slave_address d, ?fc, of_nat ?n] @ data))"
  obtain l0 where l0: "rtu_write_all (rtu_read_request d) l = (True, l0)" using assms(1) by (metis prod.collapse)
  have r0: "ln_recv l0 = ln_recv l" using serial_write_recv [of "rtu_read_request d" l] l0 by simp
  have "io_bytes (ln_recv l0) = [slave_address d, ?fc] @ [of_nat ?n] @ (data @ ?crc) @ later"
    using assms(5) r0 by (simp add: rtu_response_def with_crc_def)
  from rtu_recv_live [OF _ this, of 2] assms(2) r0 obtain l1 where l1: "rtu_recv_exact 2 l0 = (Some [slave_address d, ?fc], l1)"
    "io_bytes (ln_recv l1) = [of_nat ?n] @ (data @ ?crc) @ later" "list_all io_live (ln_recv l1)" by auto
  from rtu_recv_live [OF l1(3,2), of 1] obtain l2 where l2: "rtu_recv_exact 1 l1 = (Some [of_nat ?n], l2)"
    "io_bytes (ln_recv l2) = (data @ ?crc) @ later" "list_all io_live (ln_recv l2)" by auto
  from rtu_recv_live [OF l2(3,2), of "?n + 2"] obtain l3 where l3: "rtu_recv_exact (?n + 2) l2 = (Some (data @ ?crc), l3)"
    "io_bytes (ln_recv l3) = later" by auto
  have "rtu_begin (slave_address d) ?fc (rtu_read_request d) l = (Got [slave_address d, ?fc], l1)"
    using l0 l1(1) fc_not_exception by (simp add: rtu_begin_def)
  moreover have "unat (of_nat ?n :: byte) = ?n" using assms(4) by (simp add: unat_of_nat)
  ultimately show ?thesis
    using l2(1) l3 assms(3) get_crc_bytes by (simp add: rtu_do_transaction_def)
qed

text \<open>
  A connected driver whose device answers a read with the reply of the right size pushes exactly the
  data, in one frame, whatever the chunks in which the bytes arrive, and leaves what follows unread.
\<close>

lemma rtu_poll_frame:
  assumes "rtu_opened d" "rtu_link d = Some l" "fst (rtu_write_all (rtu_read_request d) l)"
    and "list_all io_live (ln_recv l)" "io_bytes (ln_recv l) = rtu_response d data @ later"
    and "length data = expected_response_bytes (rtu_read_fn d) (rtu_register_count d)" "length data \<le> kMaxFramePayload"
  shows "\<exists>l'. rtu_poll now dial d = (DsOk, [rtu_frame d data], d\<lparr>rtu_link := Some l'\<rparr>) \<and> io_bytes (ln_recv l') = later"
proof -
  have "length data < 256" using assms(7) by (simp add: kMaxFramePayload_def)
  from rtu_do_transaction_reads [OF assms(3,4,6) this assms(5)] obtain l' where
    "rtu_do_transaction d l = (Got (rtu_frame d data), l')" "io_bytes (ln_recv l') = later" by blast
  then show ?thesis using assms(1,2) by (intro exI [of _ l']) (simp add: rtu_poll_def rtu_transact_def)
qed

section \<open>Properties\<close>

text \<open>
  C30: No corrupted reading. When the bytes on the line are a device's reply to a read with any one byte
  changed (its checksum included), however they are chunked and whatever follows, the poll fails and
  pushes no frame.
\<close>

theorem rtu_corruption_detected:
  assumes "rtu_opened d" "rtu_link d = Some l"
    and "length data = expected_response_bytes (rtu_read_fn d) (rtu_register_count d)"
    and "io_bytes (ln_recv l) = (rtu_response d data)[i := b] @ later"
    and "i < length (rtu_response d data)" "b \<noteq> rtu_response d data ! i"
  shows "fst (rtu_poll now dial d) = DsError \<and> fst (snd (rtu_poll now dial d)) = []"
proof -
  have no: False if got: "rtu_do_transaction d l = (Got f, l')" for f l'
  proof -
    obtain data' where x: "length data' = length data" "io_bytes (ln_recv l) = rtu_response d data' @ io_bytes (ln_recv l')"
      using rtu_do_transaction_sound [OF got] assms(3) by auto
    have len: "length (rtu_response d data') = length ((rtu_response d data)[i := b])"
      unfolding length_list_update using x(1) by (simp add: rtu_response_def with_crc_def crc_bytes_def)
    have "rtu_response d data' = (rtu_response d data)[i := b]"
      using append_eq_append_conv [OF disjI1 [OF len]] x(2) assms(4) by metis
    then have "b = rtu_response d data ! i"
      using with_crc_update [of _ _ i b] x(1) assms(5) unfolding rtu_response_def by (metis length_append length_Cons)
    with assms(6) show False ..
  qed
  then show ?thesis
    using assms(1,2) by (auto simp: rtu_poll_def rtu_transact_def Let_def split: prod.splits reply.splits option.splits)
qed

text \<open>A driver on slave 17, one holding register, and its reply cut into two chunks.\<close>

definition two_chunks :: "byte list \<Rightarrow> link" where
  "two_chunks bs = \<lparr>ln_recv = [IoChunk (take 1 bs), IoRetry, IoChunk (drop 1 bs)], ln_send = [IoSent 99], ln_wire = []\<rparr>"

definition rtu_example :: "link \<Rightarrow> ModbusRtuDriver" where
  "rtu_example l = \<lparr>slave_address = 17, rtu_start_address = 0, rtu_register_count = 1, rtu_read_fn = HoldingRegisters,
     rtu_link = Some l, rtu_opened = True, rtu_exception = 0, rtu_reconnect = \<lparr>backoff_ms = 200, next_attempt_at = 0\<rparr>\<rparr>"

definition reply_example :: "byte list" where
  "reply_example = with_crc [17, 3, 2, 1, 2]"

lemma rtu_example_facts:
  "rtu_link (rtu_example l) = Some l" "rtu_opened (rtu_example l)"
  "expected_response_bytes (rtu_read_fn (rtu_example l)) (rtu_register_count (rtu_example l)) = 2"
  "rtu_response (rtu_example l) [1, 2] = reply_example" "length reply_example = 7" "reply_example ! 3 = 1"
  "io_bytes (ln_recv (two_chunks bs)) = bs"
  by (simp_all add: rtu_example_def reply_example_def rtu_response_def two_chunks_def expected_response_bytes_def
      is_bit_packed_def with_crc_def)

theorem rtu_corruption_detected_witness:
  "fst (rtu_poll 0 None (rtu_example (two_chunks (reply_example[3 := 9])))) = DsError"
  using rtu_corruption_detected [of "rtu_example (two_chunks (reply_example[3 := 9]))" "two_chunks (reply_example[3 := 9])" "[1, 2]" 3 9 "[]" 0 None]
  by (simp add: rtu_example_facts)

end
