(* ===== verification/Modbus_Tcp.thy ===== *)
theory Modbus_Tcp
  imports Modbus_Common
begin

text \<open>
  \<open>include/aero/drivers/modbus_tcp_driver.hpp\<close>: Modbus over TCP. Every transaction sends an MBAP header
  and a PDU and reads a header and a PDU back; the code repeats that three times, here it is
  \<open>tcp_exchange\<close> with the largest PDU the transaction accepts.
\<close>

section \<open>The socket\<close>

fun tcp_send :: "io_tx list \<Rightarrow> byte list \<Rightarrow> byte list \<Rightarrow> bool \<times> io_tx list \<times> byte list" where
  "tcp_send txs [] w = (True, txs, w)"
| "tcp_send (IoSent n # txs) (b # bs) w = tcp_send txs (drop n (b # bs)) (w @ take n (b # bs))"
| "tcp_send (IoSendRetry # txs) (b # bs) w = tcp_send txs (b # bs) w"
| "tcp_send (_ # txs) (b # bs) w = (False, txs, w)"
| "tcp_send [] (b # bs) w = (False, [], w)"

definition tcp_send_all :: "byte list \<Rightarrow> link \<Rightarrow> bool \<times> link" where
  "tcp_send_all bs l =
     (let (ok, txs, w) = tcp_send (ln_send l) bs (ln_wire l) in (ok, l\<lparr>ln_send := txs, ln_wire := w\<rparr>))"

fun tcp_recv :: "io_rx list \<Rightarrow> nat \<Rightarrow> byte list \<Rightarrow> byte list option \<times> io_rx list" where
  "tcp_recv rxs 0 got = (Some got, rxs)"
| "tcp_recv [] (Suc n) got = (None, [])"
| "tcp_recv (IoChunk bs # rxs) (Suc n) got =
     (if bs = [] then (None, rxs)
      else if length bs \<le> Suc n then tcp_recv rxs (Suc n - length bs) (got @ bs)
      else (Some (got @ take (Suc n) bs), IoChunk (drop (Suc n) bs) # rxs))"
| "tcp_recv (IoRetry # rxs) (Suc n) got = tcp_recv rxs (Suc n) got"
| "tcp_recv (_ # rxs) (Suc n) got = (None, rxs)"

definition tcp_recv_exact :: "nat \<Rightarrow> link \<Rightarrow> byte list option \<times> link" where
  "tcp_recv_exact n l = (let (r, rxs) = tcp_recv (ln_recv l) n [] in (r, l\<lparr>ln_recv := rxs\<rparr>))"

section \<open>Transactions\<close>

record ModbusTcpDriver =
  unit_id :: u8
  tcp_start_address :: u16
  tcp_register_count :: u16
  tcp_read_fn :: ReadFunction
  tcp_opened :: bool
  tcp_fd :: "link option"
  next_txn_id :: u16
  tcp_exception :: u8
  tcp_reconnect :: reconnect

definition mbap :: "u16 \<Rightarrow> u16 \<Rightarrow> u8 \<Rightarrow> byte list" where
  "mbap txn len unit = be_bytes 2 txn @ be_bytes 2 (0 :: u16) @ be_bytes 2 len @ [unit]"

definition read_request :: "ModbusTcpDriver \<Rightarrow> byte list" where
  "read_request d = mbap (next_txn_id d) 6 (unit_id d) @ [fc_of (tcp_read_fn d)]
     @ be_bytes 2 (tcp_start_address d) @ be_bytes 2 (tcp_register_count d)"

definition write_single_request :: "ModbusTcpDriver \<Rightarrow> u16 \<Rightarrow> u16 \<Rightarrow> byte list" where
  "write_single_request d address val = mbap (next_txn_id d) 6 (unit_id d) @ [kFcWriteSingleRegister]
     @ be_bytes 2 address @ be_bytes 2 val"

definition write_multiple_request :: "ModbusTcpDriver \<Rightarrow> u16 \<Rightarrow> u16 list \<Rightarrow> byte list" where
  "write_multiple_request d address vs =
     (let byte_count = of_nat (length vs * 2) :: u8
      in mbap (next_txn_id d) (6 + ucast byte_count) (unit_id d) @ [kFcWriteMultipleRegisters]
           @ be_bytes 2 address @ be_bytes 2 (of_nat (length vs) :: u16) @ [byte_count] @ concat (map (be_bytes 2) vs))"

text \<open>Send, then read the header and the PDU of the answer; an answer with the exception bit ends the
  transaction with its code.\<close>

definition tcp_exchange :: "u16 \<Rightarrow> nat \<Rightarrow> byte list \<Rightarrow> link \<Rightarrow> byte list reply \<times> link" where
  "tcp_exchange txn max_pdu req l =
     (let (ok, l) = tcp_send_all req l in
      if \<not> ok then (Lost, l)
      else
        case tcp_recv_exact 7 l of
          (None, l) \<Rightarrow> (Lost, l)
        | (Some hdr, l) \<Rightarrow>
            let resp_txn = be_value [hdr ! 0, hdr ! 1] :: u16; resp_len = be_value [hdr ! 4, hdr ! 5] :: u16 in
            if resp_txn \<noteq> txn \<or> resp_len = 0 then (Lost, l)
            else
              let pdu_len = unat resp_len - 1 in
              if pdu_len < 1 \<or> max_pdu < pdu_len then (Lost, l)
              else
                case tcp_recv_exact pdu_len l of
                  (None, l) \<Rightarrow> (Lost, l)
                | (Some pdu, l) \<Rightarrow>
                    if pdu ! 0 AND kFcExceptionBit \<noteq> 0
                    then (Exc (if 2 \<le> pdu_len then pdu ! 1 else 0), l)
                    else (Got pdu, l))"

definition tcp_frame :: "ModbusTcpDriver \<Rightarrow> byte list \<Rightarrow> Frame" where
  "tcp_frame d data =
     \<lparr>raw = (if is_bit_packed (tcp_read_fn d) then ucast (tcp_register_count d) else 0),
      payload_len = of_nat (length data), fr_payload = data\<rparr>"

definition kMaxPdu :: nat where
  "kMaxPdu = 2 + kMaxFramePayload"

definition tcp_do_transaction :: "ModbusTcpDriver \<Rightarrow> link \<Rightarrow> Frame reply \<times> link" where
  "tcp_do_transaction d l =
     (case tcp_exchange (next_txn_id d) kMaxPdu (read_request d) l of
        (Lost, l) \<Rightarrow> (Lost, l)
      | (Exc e, l) \<Rightarrow> (Exc e, l)
      | (Got pdu, l) \<Rightarrow>
          if pdu ! 0 \<noteq> fc_of (tcp_read_fn d) then (Lost, l)
          else
            let expected = expected_response_bytes (tcp_read_fn d) (tcp_register_count d) in
            if length pdu < 2 then (Lost, l)
            else if unat (pdu ! 1) \<noteq> expected \<or> length pdu \<noteq> 2 + expected then (Lost, l)
            else (Got (tcp_frame d (drop 2 pdu)), l))"

definition tcp_echo :: "u8 \<Rightarrow> u16 \<Rightarrow> u16 \<Rightarrow> byte list reply \<times> link \<Rightarrow> unit reply \<times> link" where
  "tcp_echo fc address val r =
     (case r of
        (Lost, l) \<Rightarrow> (Lost, l)
      | (Exc e, l) \<Rightarrow> (Exc e, l)
      | (Got pdu, l) \<Rightarrow>
          if pdu ! 0 \<noteq> fc \<or> length pdu \<noteq> 5 then (Lost, l)
          else if be_value [pdu ! 1, pdu ! 2] \<noteq> address \<or> be_value [pdu ! 3, pdu ! 4] \<noteq> val then (Lost, l)
          else (Got (), l))"

definition tcp_do_write_transaction :: "ModbusTcpDriver \<Rightarrow> u16 \<Rightarrow> u16 \<Rightarrow> link \<Rightarrow> unit reply \<times> link" where
  "tcp_do_write_transaction d address val l =
     tcp_echo kFcWriteSingleRegister address val
       (tcp_exchange (next_txn_id d) 5 (write_single_request d address val) l)"

definition tcp_do_write_multiple_transaction :: "ModbusTcpDriver \<Rightarrow> u16 \<Rightarrow> u16 list \<Rightarrow> link \<Rightarrow> unit reply \<times> link" where
  "tcp_do_write_multiple_transaction d address vs l =
     tcp_echo kFcWriteMultipleRegisters address (of_nat (length vs))
       (tcp_exchange (next_txn_id d) 5 (write_multiple_request d address vs) l)"

section \<open>The driver\<close>

definition tcp_open :: "int \<Rightarrow> link option \<Rightarrow> ModbusTcpDriver \<Rightarrow> DriverStatus \<times> ModbusTcpDriver" where
  "tcp_open now dial d =
     (if kMaxFramePayload < expected_response_bytes (tcp_read_fn d) (tcp_register_count d) then (DsError, d)
      else
        let d = d\<lparr>tcp_opened := True\<rparr>
        in case dial of
             None \<Rightarrow> (DsError, d)
           | Some l \<Rightarrow> (DsOk, d\<lparr>tcp_fd := Some l, tcp_reconnect := \<lparr>backoff_ms = kInitialBackoffMs, next_attempt_at = now\<rparr>\<rparr>))"

definition tcp_ensure_connected :: "int \<Rightarrow> link option \<Rightarrow> ModbusTcpDriver \<Rightarrow> bool \<times> ModbusTcpDriver" where
  "tcp_ensure_connected now dial d =
     (if \<not> attempt_due now (tcp_reconnect d) then (False, d)
      else case dial of
        None \<Rightarrow> (False, d\<lparr>tcp_reconnect := attempt_failed now (tcp_reconnect d)\<rparr>)
      | Some l \<Rightarrow> (True, d\<lparr>tcp_fd := Some l, tcp_reconnect := attempt_succeeded now (tcp_reconnect d)\<rparr>))"

text \<open>One transaction, with its own identifier; \<open>io_ok\<close> false closes the socket.\<close>

definition tcp_transact ::
  "int \<Rightarrow> link option \<Rightarrow> (ModbusTcpDriver \<Rightarrow> link \<Rightarrow> 'a reply \<times> link) \<Rightarrow> ModbusTcpDriver \<Rightarrow> 'a option \<times> ModbusTcpDriver" where
  "tcp_transact now dial f d0 =
     (let (up, d) = (case tcp_fd d0 of Some _ \<Rightarrow> (True, d0) | None \<Rightarrow> tcp_ensure_connected now dial d0)
      in case tcp_fd d of
           Some l \<Rightarrow>
             if up then
               let d1 = d\<lparr>next_txn_id := next_txn_id d + 1\<rparr> in
               (case f d l of
                  (Lost, l) \<Rightarrow> (None, d1\<lparr>tcp_fd := None\<rparr>)
                | (Exc e, l) \<Rightarrow> (None, d1\<lparr>tcp_fd := Some l, tcp_exception := e\<rparr>)
                | (Got x, l) \<Rightarrow> (Some x, d1\<lparr>tcp_fd := Some l\<rparr>))
             else (None, d)
         | None \<Rightarrow> (None, d))"

definition tcp_poll :: "int \<Rightarrow> link option \<Rightarrow> ModbusTcpDriver \<Rightarrow> DriverStatus \<times> Frame list \<times> ModbusTcpDriver" where
  "tcp_poll now dial d =
     (if \<not> tcp_opened d then (DsError, [], d)
      else case tcp_transact now dial tcp_do_transaction d of
        (None, d) \<Rightarrow> (DsError, [], d)
      | (Some f, d) \<Rightarrow> (DsOk, [f], d))"

definition tcp_write :: "int \<Rightarrow> link option \<Rightarrow> DeviceCommand \<Rightarrow> ModbusTcpDriver \<Rightarrow> DriverStatus \<times> ModbusTcpDriver" where
  "tcp_write now dial cmd d =
     (if \<not> tcp_opened d then (DsError, d)
      else case parse_write cmd of
        None \<Rightarrow> (DsError, d)
      | Some w \<Rightarrow>
          (case tcp_transact now dial
             (\<lambda>d. case w of WriteSingle a v \<Rightarrow> tcp_do_write_transaction d a v
                | WriteMultiple a vs \<Rightarrow> tcp_do_write_multiple_transaction d a vs) d of
             (None, d) \<Rightarrow> (DsError, d)
           | (Some _, d) \<Rightarrow> (DsOk, d)))"

definition tcp_close :: "ModbusTcpDriver \<Rightarrow> ModbusTcpDriver" where
  "tcp_close d = d\<lparr>tcp_fd := None\<rparr>"

section \<open>A device that frames by the header's length\<close>

text \<open>How a conforming device cuts its byte stream: six bytes, then as many as the length field says.\<close>

definition carve_adu :: "byte list \<Rightarrow> (byte list \<times> byte list) option" where
  "carve_adu bs =
     (if length bs < 6 then None
      else let n = 6 + unat (be_value [bs ! 4, bs ! 5] :: u16)
           in if length bs < n then None else Some (take n bs, drop n bs))"

lemma mbap_shape:
  "length (mbap txn len unit) = 7" "be_value [(mbap txn len unit @ r) ! 4, (mbap txn len unit @ r) ! 5] = len"
proof -
  show "length (mbap txn len unit) = 7" by (simp add: mbap_def)
  have "(mbap txn len unit @ r) ! 4 = be_bytes 2 len ! 0" "(mbap txn len unit @ r) ! 5 = be_bytes 2 len ! 1"
    by (simp_all add: mbap_def nth_append)
  then show "be_value [(mbap txn len unit @ r) ! 4, (mbap txn len unit @ r) ! 5] = len"
    using be_value_be_bytes [of 2 len] by (simp add: be_bytes_def upt_rec)
qed

lemma carve_adu_mbap:
  assumes "6 + unat len \<le> 7 + length pdu + length r"
  shows "carve_adu (mbap txn len unit @ pdu @ r) =
    Some (take (6 + unat len) (mbap txn len unit @ pdu @ r), drop (6 + unat len) (mbap txn len unit @ pdu @ r))"
proof -
  have "length (mbap txn len unit @ pdu @ r) = 7 + length pdu + length r" by (simp add: mbap_shape)
  then show ?thesis
    unfolding carve_adu_def Let_def mbap_shape(2) using assms by simp
qed

section \<open>Reading\<close>

interpretation tcp: link_reader tcp_recv
proof unfold_locales
  show "tcp_recv rxs n got = (Some bs, rxs') \<Longrightarrow> \<exists>x. bs = got @ x \<and> length x = n \<and> io_bytes rxs = x @ io_bytes rxs'"
    for rxs n got bs rxs'
  proof (induction rxs n got rule: tcp_recv.induct)
    case (3 cs rxs n got)
    show ?case
    proof (cases "length cs \<le> Suc n")
      case True
      with 3 show ?thesis by (fastforce split: if_splits)
    next
      case False
      then have "bs = got @ take (Suc n) cs" "rxs' = IoChunk (drop (Suc n) cs) # rxs" using "3.prems" by (auto split: if_splits)
      then show ?thesis using False by (intro exI [of _ "take (Suc n) cs"]) simp
    qed
  qed (auto split: if_splits)
  show "list_all io_live rxs \<Longrightarrow> n \<le> length (io_bytes rxs) \<Longrightarrow>
      \<exists>rxs'. tcp_recv rxs n got = (Some (got @ take n (io_bytes rxs)), rxs') \<and>
        io_bytes rxs' = drop n (io_bytes rxs) \<and> list_all io_live rxs'" for rxs n got
    by (induction rxs n got rule: tcp_recv.induct) auto
qed

lemma tcp_recv_eq: "tcp_recv_exact = tcp.recv"
  by (simp add: fun_eq_iff tcp_recv_exact_def tcp.recv_def)

lemmas tcp_recv_sound = tcp.recv_sound [folded tcp_recv_eq]

lemma tcp_send_recv [simp]: "ln_recv (snd (tcp_send_all bs l)) = ln_recv l"
  by (simp add: tcp_send_all_def Let_def split: prod.splits)

lemma tcp_exchange_sound:
  assumes "tcp_exchange txn mx req l = (Got pdu, l')"
  shows "\<exists>proto unit. length proto = 2 \<and> 1 \<le> length pdu \<and> length pdu \<le> mx \<and>
    io_bytes (ln_recv l) = be_bytes 2 txn @ proto @ be_bytes 2 (of_nat (Suc (length pdu)) :: u16) @ unit # pdu @ io_bytes (ln_recv l')"
proof -
  obtain l0 where l0: "tcp_send_all req l = (True, l0)"
    using assms by (auto simp: tcp_exchange_def Let_def split: prod.splits if_splits)
  then have r0: "ln_recv l0 = ln_recv l" using tcp_send_recv [of req l] by simp
  obtain hdr l1 where h: "tcp_recv_exact 7 l0 = (Some hdr, l1)"
    using assms l0 by (auto simp: tcp_exchange_def Let_def split: prod.splits if_splits option.splits)
  let ?len = "be_value [hdr ! 4, hdr ! 5] :: u16"
  have c: "be_value [hdr ! 0, hdr ! 1] = txn" "?len \<noteq> 0" "1 \<le> unat ?len - 1" "unat ?len - 1 \<le> mx"
      "tcp_recv_exact (unat ?len - 1) l1 = (Some pdu, l')"
    using assms l0 h by (auto simp: tcp_exchange_def Let_def split: prod.splits if_splits option.splits)
  have p: "length pdu = unat ?len - 1" using tcp_recv_sound(1) [OF c(5)] .
  obtain a0 a1 a2 a3 a4 a5 a6 where hdr: "hdr = [a0, a1, a2, a3, a4, a5, a6]"
    using tcp_recv_sound(1) [OF h] by (auto simp: length_Suc_conv numeral_eq_Suc)
  have "of_nat (Suc (length pdu)) = ?len" using p c(3) by simp
  then have "be_bytes 2 (of_nat (Suc (length pdu)) :: u16) = [a4, a5]" "be_bytes 2 txn = [a0, a1]"
    using be_bytes_be_value_2 [of a4 a5] be_bytes_be_value_2 [of a0 a1] c(1) hdr by simp_all
  then show ?thesis
    using p c(3,4) tcp_recv_sound(2) [OF h] tcp_recv_sound(2) [OF c(5)] r0 hdr
    by (intro exI [of _ "[a2, a3]"] exI [of _ a6]) simp
qed

section \<open>Properties\<close>

text \<open>
  A poll that succeeds has read, under its own transaction identifier, a reply with the function code
  and size of its request, and pushes exactly that reply's data; the identifier of the next transaction
  is the successor. So a reply that carries another identifier is never taken for the current one.
\<close>

theorem tcp_poll_own_reply:
  assumes "tcp_fd d = Some l" "tcp_poll now dial d = (DsOk, fs, d')"
  shows "\<exists>proto unit data l'. fs = [tcp_frame d data] \<and>
    length data = expected_response_bytes (tcp_read_fn d) (tcp_register_count d) \<and> length proto = 2 \<and>
    io_bytes (ln_recv l) = be_bytes 2 (next_txn_id d) @ proto @ be_bytes 2 (of_nat (length data + 3) :: u16) @
      [unit, fc_of (tcp_read_fn d), of_nat (length data)] @ data @ io_bytes (ln_recv l') \<and>
    tcp_fd d' = Some l' \<and> next_txn_id d' = next_txn_id d + 1"
proof -
  let ?n = "expected_response_bytes (tcp_read_fn d) (tcp_register_count d)"
  obtain f l' where t: "tcp_do_transaction d l = (Got f, l')" "fs = [f]" "tcp_fd d' = Some l'" "next_txn_id d' = next_txn_id d + 1"
    using assms by (auto simp: tcp_poll_def tcp_transact_def Let_def split: prod.splits reply.splits option.splits if_splits)
  obtain pdu where x: "tcp_exchange (next_txn_id d) kMaxPdu (read_request d) l = (Got pdu, l')"
      "pdu ! 0 = fc_of (tcp_read_fn d)" "unat (pdu ! 1) = ?n" "length pdu = 2 + ?n" "f = tcp_frame d (drop 2 pdu)"
    using t(1) by (auto simp: tcp_do_transaction_def Let_def split: prod.splits reply.splits if_splits)
  have bc: "pdu ! 1 = of_nat ?n" by (simp flip: x(3))
  obtain a b data where p: "pdu = a # b # data" using x(4) by (auto simp: length_Suc_conv numeral_2_eq_2)
  obtain proto unit where "length proto = 2"
      "io_bytes (ln_recv l) = be_bytes 2 (next_txn_id d) @ proto @ be_bytes 2 (of_nat (Suc (length pdu)) :: u16) @ unit # pdu @ io_bytes (ln_recv l')"
    using tcp_exchange_sound [OF x(1)] by blast
  then show ?thesis
    using t x bc p by (intro exI [of _ proto] exI [of _ unit] exI [of _ data] exI [of _ l'])
      (simp add: numeral_3_eq_3)
qed

lemma cut_before_last:
  assumes "xs \<noteq> []"
  shows "take (length xs - 1) (xs @ ys) = butlast xs" "drop (length xs - 1) (xs @ ys) = last xs # ys"
  using assms by (cases xs rule: rev_cases; simp)+

text \<open>
  C38: The length field of a write of several registers is one short. A device that cuts its stream by the
  header's length, as the protocol prescribes, gets the request without its last data byte and takes that
  byte for the start of the next request; reads and single writes are cut right.
\<close>

theorem write_multiple_misframed:
  assumes "vs \<noteq> []" "length vs \<le> kMaxWriteMultipleRegisters"
  shows "carve_adu (write_multiple_request d address vs @ later) =
      Some (butlast (write_multiple_request d address vs), last (write_multiple_request d address vs) # later) \<and>
    carve_adu (write_single_request d address val @ later) = Some (write_single_request d address val, later) \<and>
    carve_adu (read_request d @ later) = Some (read_request d, later)"
proof -
  let ?n = "length vs" and ?bc = "of_nat (length vs * 2) :: u8"
  have n: "1 \<le> ?n" "?n \<le> 123" using assms by (cases vs; simp add: kMaxWriteMultipleRegisters_def)+
  have bc: "unat ?bc = 2 * ?n" using n by (simp add: unat_of_nat del: of_nat_mult)
  then have len: "unat (6 + ucast ?bc :: u16) = 6 + 2 * ?n"
  proof -
    have "unat (ucast ?bc :: u16) = 2 * ?n" using bc n by (simp add: unsigned_ucast_eq take_bit_nat_eq_self del: of_nat_mult)
    then show ?thesis using n by (simp add: unat_word_ariths del: of_nat_mult)
  qed
  let ?pdu = "[kFcWriteMultipleRegisters] @ be_bytes 2 address @ be_bytes 2 (of_nat ?n :: u16) @ [?bc] @ concat (map (be_bytes 2) vs)"
  have req: "write_multiple_request d address vs = mbap (next_txn_id d) (6 + ucast ?bc) (unit_id d) @ ?pdu"
    by (simp add: write_multiple_request_def Let_def)
  have pl: "length ?pdu = 6 + 2 * ?n" by (simp add: length_concat comp_def sum_list_triv)
  have l: "length (write_multiple_request d address vs) = 13 + 2 * ?n" unfolding req using pl by (simp add: mbap_shape)
  then have ne: "write_multiple_request d address vs \<noteq> []" by auto
  have "carve_adu (write_multiple_request d address vs @ later) =
      Some (take (12 + 2 * ?n) (write_multiple_request d address vs @ later), drop (12 + 2 * ?n) (write_multiple_request d address vs @ later))"
    unfolding req append_assoc using carve_adu_mbap [of "6 + ucast ?bc" ?pdu later] len pl by simp
  also have "\<dots> = Some (butlast (write_multiple_request d address vs), last (write_multiple_request d address vs) # later)"
    using cut_before_last [OF ne, of later] l by simp
  finally show ?thesis
    using carve_adu_mbap [of 6 "[kFcWriteSingleRegister] @ be_bytes 2 address @ be_bytes 2 val" later "next_txn_id d" "unit_id d"]
      carve_adu_mbap [of 6 "[fc_of (tcp_read_fn d)] @ be_bytes 2 (tcp_start_address d) @ be_bytes 2 (tcp_register_count d)" later "next_txn_id d" "unit_id d"]
    by (simp add: write_single_request_def read_request_def mbap_shape)
qed

text \<open>A device answering transaction 1 with one holding register.\<close>

definition tcp_example :: "byte list \<Rightarrow> ModbusTcpDriver" where
  "tcp_example bs = \<lparr>unit_id = 1, tcp_start_address = 0, tcp_register_count = 1, tcp_read_fn = HoldingRegisters,
     tcp_opened = True, tcp_fd = Some \<lparr>ln_recv = [IoChunk bs], ln_send = [IoSent 99], ln_wire = []\<rparr>, next_txn_id = 1,
     tcp_exception = 0, tcp_reconnect = \<lparr>backoff_ms = 200, next_attempt_at = 0\<rparr>\<rparr>"

lemma tcp_example_poll:
  "fst (tcp_poll 0 None (tcp_example [0, 1, 0, 0, 0, 5, 1, 3, 2, 7, 8])) = DsOk"
  by code_simp

theorem tcp_poll_own_reply_witness:
  "\<exists>data. fst (snd (tcp_poll 0 None (tcp_example [0, 1, 0, 0, 0, 5, 1, 3, 2, 7, 8]))) = [tcp_frame (tcp_example []) data]"
proof -
  let ?d = "tcp_example [0, 1, 0, 0, 0, 5, 1, 3, 2, 7, 8]"
  have fd: "tcp_fd ?d = Some (the (tcp_fd ?d))" by (simp add: tcp_example_def)
  have p: "tcp_poll 0 None ?d = (DsOk, fst (snd (tcp_poll 0 None ?d)), snd (snd (tcp_poll 0 None ?d)))"
    using tcp_example_poll by (simp add: prod_eq_iff)
  have "tcp_frame ?d data = tcp_frame (tcp_example []) data" for data by (simp add: tcp_frame_def tcp_example_def)
  with tcp_poll_own_reply [OF fd p] show ?thesis by metis
qed

theorem write_multiple_misframed_witness:
  "carve_adu (write_multiple_request (tcp_example []) 9 [258] @ []) =
     Some ([0, 1, 0, 0, 0, 8, 1, 0x10, 0, 9, 0, 1, 2, 1], [2])"
  using write_multiple_misframed [of "[258]" "tcp_example []" 9 "[]" 0]
  by (simp add: kMaxWriteMultipleRegisters_def write_multiple_request_def tcp_example_def mbap_def be_bytes_2 byte_at_def
      kFcWriteMultipleRegisters_def)

end
