(* ===== verification/Modbus_Props.thy ===== *)
theory Modbus_Props
  imports Modbus_Rtu Modbus_Tcp Node_Props
begin

text \<open>
  From the serial line to the tags of a flow: a poll of the RTU driver, the context reset with its frame,
  and the decoding node.
\<close>

lemma payload_of_frame:
  assumes "length data < 65536"
  shows "payload (reset (Some (rtu_frame d data)) c) = data" "tags (reset (Some (rtu_frame d data)) c) = []"
  using assms by (simp_all add: reset_def rtu_frame_def unat_of_nat)

lemma map2_tags:
  assumes "length ns = length vs"
  shows "map tag_name (map2 (\<lambda>n v. \<lparr>tag_name = n, tag_val = v\<rparr>) ns vs) = ns"
    "map tag_val (map2 (\<lambda>n v. \<lparr>tag_name = n, tag_val = v\<rparr>) ns vs) = vs"
  using assms by (induction ns vs rule: list_induct2) simp_all

lemma modbus_decode_registers:
  fixes rs :: "u16 list"
  assumes "payload c = concat (map (be_bytes 2) rs)" "tags c = []"
  shows "fst (modbus_decode F [] c) = Continue"
    and "map tag_name (tags (snd (snd (modbus_decode F [] c)))) = map (\<lambda>i. ''reg'' @ to_string i) [0..<length rs]"
    and "map tag_val (tags (snd (snd (modbus_decode F [] c)))) = map (\<lambda>r. d_of_int F (uint r)) rs"
proof -
  have n: "length (payload c) = 2 * length rs" by (simp add: assms length_concat comp_def sum_list_triv)
  have r: "registers (payload c) = rs" by (simp add: assms registers_be)
  have "tags (snd (snd (modbus_decode F [] c))) = map2 (\<lambda>n v. \<lparr>tag_name = n, tag_val = v\<rparr>)
      (map (\<lambda>i. ''reg'' @ to_string i) [0..<length rs]) (map (\<lambda>r. d_of_int F (uint r)) rs)"
    by (simp add: modbus_decode_def n r push_tags_def grow_names_def assms(2) Let_def)
  then show "map tag_name (tags (snd (snd (modbus_decode F [] c)))) = map (\<lambda>i. ''reg'' @ to_string i) [0..<length rs]"
    and "map tag_val (tags (snd (snd (modbus_decode F [] c)))) = map (\<lambda>r. d_of_int F (uint r)) rs"
    by (simp_all only: map2_tags length_map length_upt diff_zero)
  show "fst (modbus_decode F [] c) = Continue" by (simp add: modbus_decode_def n Let_def)
qed

text \<open>
  C31: The registers of a device reach the flow as they are. When the device answers a poll of up to 64
  registers with their values, the decoding node run on the frame the driver pushes writes the tags
  \<open>reg0\<close>, \<open>reg1\<close>, ... with exactly these values.
\<close>

theorem polled_registers_decoded:
  fixes rs :: "u16 list"
  assumes "rtu_opened d" "rtu_link d = Some l" "fst (rtu_write_all (rtu_read_request d) l)"
    and "list_all io_live (ln_recv l)" "io_bytes (ln_recv l) = rtu_response d (concat (map (be_bytes 2) rs)) @ later"
    and "\<not> is_bit_packed (rtu_read_fn d)" "length rs = unat (rtu_register_count d)" "length rs \<le> 64"
  shows "\<exists>d' f. rtu_poll now dial d = (DsOk, [f], d') \<and>
    fst (modbus_decode F [] (reset (Some f) c)) = Continue \<and>
    map tag_name (tags (snd (snd (modbus_decode F [] (reset (Some f) c))))) = map (\<lambda>i. ''reg'' @ to_string i) [0..<length rs] \<and>
    map tag_val (tags (snd (snd (modbus_decode F [] (reset (Some f) c))))) = map (\<lambda>r. d_of_int F (uint r)) rs"
proof -
  let ?data = "concat (map (be_bytes 2) rs)"
  have n: "length ?data = 2 * length rs" by (simp add: length_concat comp_def sum_list_triv)
  obtain l' where p: "rtu_poll now dial d = (DsOk, [rtu_frame d ?data], d\<lparr>rtu_link := Some l'\<rparr>)"
    using rtu_poll_frame [OF assms(1-5), of now dial] assms(6-8) n
    by (auto simp: expected_response_bytes_def kMaxFramePayload_def)
  have "length ?data < 65536" using n assms(8) by simp
  from payload_of_frame [OF this, of d c] modbus_decode_registers [of _ rs F] p show ?thesis by blast
qed

theorem polled_registers_decoded_witness:
  "\<forall>F c. \<exists>d' f. rtu_poll 0 None (rtu_example (two_chunks reply_example)) = (DsOk, [f], d') \<and>
     fst (modbus_decode F [] (reset (Some f) c)) = Continue"
proof (intro allI)
  fix F c
  let ?l = "two_chunks reply_example" and ?d = "rtu_example (two_chunks reply_example)"
  have "length (rtu_read_request ?d) = 8"
    by (simp add: rtu_read_request_def with_crc_def)
  then obtain x xs where x: "rtu_read_request ?d = x # xs" "length xs = 7"
    by (auto simp: length_Suc_conv numeral_eq_Suc)
  have "list_all io_live (ln_recv ?l)"
    by (simp add: two_chunks_def reply_example_def with_crc_def)
  moreover have "fst (rtu_write_all (rtu_read_request ?d) ?l)"
    unfolding x(1) using x(2) by (simp add: rtu_write_all_def two_chunks_def)
  moreover have "concat (map (be_bytes 2) [258 :: u16]) = [1, 2]" by (simp add: be_bytes_2 byte_at_def)
  ultimately show "\<exists>d' f. rtu_poll 0 None ?d = (DsOk, [f], d') \<and> fst (modbus_decode F [] (reset (Some f) c)) = Continue"
    using polled_registers_decoded [of ?d ?l "[258]" "[]" 0 None F c]
    by (auto simp: rtu_example_facts) (auto simp: rtu_example_def is_bit_packed_def)
qed

end
