(* ===== verification/Ingest.thy ===== *)
theory Ingest
  imports Flow_Context
begin

text \<open>
  The ingestion lane of a deployment with a push driver: \<open>GeneratorDriver::run\<close>
  (\<open>drivers/generator_driver.hpp\<close>), the stream it pushes into, and the bridge thread of
  \<open>Runtime::deploy\<close> (\<open>runtime/runtime.hpp\<close>) that tells each frame into the actor's mailbox. The
  threads interleave: a step of the model is one access of one thread to what they share (the stop and
  done flags, the ring, the mailbox), and a run is any schedule. The stream channel belongs to the actor
  runtime: a push succeeds while fewer than \<open>capacity\<close> frames are in the ring, and the number of frames
  of one batch is an argument \<open>B\<close> of the occupancy and the budget, of which only \<open>batch_law\<close> is used.
\<close>

section \<open>The threads\<close>

text \<open>Where a thread is: at the loop test, before \<open>try_push\<close>, after it and before the frame or the stall is
  counted, in a stall, returned, after setting \<open>producer_done\<close>; the bridge with the value of \<open>producer_done\<close> it read at the top of its loop.\<close>

datatype producer_pc = PLoop nat | PPush nat | PCount nat | PStalled nat | PStall nat | PReturn | PExit

datatype bridge_pc = BTop | BDrain bool | BBatch bool nat | BRetire bool nat | BCheck bool | BLast bool | BExit

datatype lane = Producer | Bridge | Worker

datatype lane_event = Turn lane | Teardown

record GeneratorDriver =
  frame_count :: u32
  gen_opened :: bool
  produced :: u64
  stalls :: u64

record ingest_lane =
  gen :: GeneratorDriver
  producer :: producer_pc
  bridge :: bridge_pc
  ring :: "Frame list"
  producer_done :: bool
  stop_flag :: bool
  frames_in :: "Frame list"
  frames_done :: "Frame list"

definition capacity :: nat where
  "capacity = 256"

definition bridge_budget :: nat where
  "bridge_budget = 64"

definition batch_law :: "(nat \<Rightarrow> nat \<Rightarrow> nat) \<Rightarrow> bool" where
  "batch_law B \<longleftrightarrow> (\<forall>occ budget. B occ budget \<le> occ \<and> B occ budget \<le> budget \<and>
     (0 < occ \<and> 0 < budget \<longrightarrow> 0 < B occ budget))"

definition seq_frame :: "nat \<Rightarrow> Frame" where
  "seq_frame n = \<lparr>raw = of_nat n, payload_len = 0, fr_payload = replicate kMaxFramePayload 0\<rparr>"

definition gen_open :: "u32 \<Rightarrow> GeneratorDriver \<Rightarrow> GeneratorDriver" where
  "gen_open n d = d\<lparr>frame_count := n, gen_opened := True\<rparr>"

definition gen_close :: "GeneratorDriver \<Rightarrow> GeneratorDriver" where
  "gen_close d = d\<lparr>gen_opened := False\<rparr>"

section \<open>The producer\<close>

definition gen_exhausted :: "GeneratorDriver \<Rightarrow> nat \<Rightarrow> bool" where
  "gen_exhausted d n \<longleftrightarrow> frame_count d \<noteq> 0 \<and> unat (frame_count d) \<le> n"

definition try_push :: "Frame \<Rightarrow> Frame list \<Rightarrow> Frame list option" where
  "try_push f rs = (if length rs < capacity then Some (rs @ [f]) else None)"

fun producer_step :: "ingest_lane \<Rightarrow> ingest_lane" where
  "producer_step s = (case producer s of
       PLoop n \<Rightarrow> s\<lparr>producer := (if stop_flag s \<or> gen_exhausted (gen s) n then PReturn else PPush n)\<rparr>
     | PPush n \<Rightarrow> (case try_push (seq_frame n) (ring s) of
           Some rs \<Rightarrow> s\<lparr>ring := rs, producer := PCount n\<rparr>
         | None \<Rightarrow> s\<lparr>producer := PStalled n\<rparr>)
     | PCount n \<Rightarrow> s\<lparr>producer := PLoop (Suc n), gen := (gen s)\<lparr>produced := produced (gen s) + 1\<rparr>\<rparr>
     | PStalled n \<Rightarrow> s\<lparr>producer := PStall n, gen := (gen s)\<lparr>stalls := stalls (gen s) + 1\<rparr>\<rparr>
     | PStall n \<Rightarrow> s\<lparr>producer := (if stop_flag s then PReturn else PPush n)\<rparr>
     | PReturn \<Rightarrow> s\<lparr>producer := PExit, producer_done := True\<rparr>
     | PExit \<Rightarrow> s)"

section \<open>The bridge\<close>

text \<open>\<open>batch.next()\<close> leaves the frame in its slot; its credit returns with \<open>retire\<close>, after the tell.\<close>

fun bridge_step :: "(nat \<Rightarrow> nat \<Rightarrow> nat) \<Rightarrow> ingest_lane \<Rightarrow> ingest_lane" where
  "bridge_step B s = (case bridge s of
       BTop \<Rightarrow> s\<lparr>bridge := BDrain (producer_done s)\<rparr>
     | BDrain d \<Rightarrow> s\<lparr>bridge := (if ring s \<noteq> [] then BBatch d (B (length (ring s)) bridge_budget) else BCheck d)\<rparr>
     | BBatch d 0 \<Rightarrow> s\<lparr>bridge := BDrain d\<rparr>
     | BBatch d (Suc n) \<Rightarrow> (case ring s of
           [] \<Rightarrow> s\<lparr>bridge := BDrain d\<rparr>
         | f # _ \<Rightarrow> s\<lparr>frames_in := frames_in s @ [f], bridge := BRetire d n\<rparr>)
     | BRetire d n \<Rightarrow> s\<lparr>ring := tl (ring s), bridge := BBatch d n\<rparr>
     | BCheck d \<Rightarrow> s\<lparr>bridge := (if stop_flag s then BExit else BLast d)\<rparr>
     | BLast d \<Rightarrow> s\<lparr>bridge := (if d \<and> ring s = [] then BExit else BTop)\<rparr>
     | BExit \<Rightarrow> s)"

section \<open>The lane\<close>

text \<open>The engine's worker hands the oldest message to the actor; \<open>teardown\<close> raises the stop flag.\<close>

definition worker_step :: "ingest_lane \<Rightarrow> ingest_lane" where
  "worker_step s = (case frames_in s of [] \<Rightarrow> s
     | f # fs \<Rightarrow> s\<lparr>frames_in := fs, frames_done := frames_done s @ [f]\<rparr>)"

fun ingest_step :: "(nat \<Rightarrow> nat \<Rightarrow> nat) \<Rightarrow> ingest_lane \<Rightarrow> lane \<Rightarrow> ingest_lane" where
  "ingest_step B s Producer = producer_step s"
| "ingest_step B s Bridge = bridge_step B s"
| "ingest_step B s Worker = worker_step s"

definition lane_step :: "(nat \<Rightarrow> nat \<Rightarrow> nat) \<Rightarrow> ingest_lane \<Rightarrow> lane_event \<Rightarrow> ingest_lane" where
  "lane_step B s e = (case e of Turn l \<Rightarrow> ingest_step B s l | Teardown \<Rightarrow> s\<lparr>stop_flag := True\<rparr>)"

definition new_GeneratorDriver :: GeneratorDriver where
  "new_GeneratorDriver = \<lparr>frame_count = 0, gen_opened = False, produced = 0, stalls = 0\<rparr>"

text \<open>The lane as \<open>deploy\<close> starts it, the driver opened and the threads at their first test.\<close>

definition start_lane :: "u32 \<Rightarrow> ingest_lane" where
  "start_lane n = \<lparr>gen = gen_open n new_GeneratorDriver, producer = PLoop 0, bridge = BTop, ring = [],
     producer_done = False, stop_flag = False, frames_in = [], frames_done = []\<rparr>"

section \<open>What a run keeps\<close>

definition frames_upto :: "nat \<Rightarrow> Frame list" where
  "frames_upto n = map seq_frame [0..<n]"

text \<open>The frames pushed and not yet told: a frame told but not retired still fills its slot.\<close>

definition untold :: "ingest_lane \<Rightarrow> Frame list" where
  "untold s = (case bridge s of BRetire _ _ \<Rightarrow> tl (ring s) | _ \<Rightarrow> ring s)"

definition flowing :: "ingest_lane \<Rightarrow> Frame list" where
  "flowing s = frames_done s @ frames_in s @ untold s"

fun at_seq :: "producer_pc \<Rightarrow> nat \<Rightarrow> bool" where
  "at_seq (PLoop n) m = (n = m)" | "at_seq (PPush n) m = (n = m)" | "at_seq (PStall n) m = (n = m)"
| "at_seq (PCount n) m = (Suc n = m)" | "at_seq (PStalled n) m = (n = m)"
| "at_seq PReturn m = True" | "at_seq PExit m = True"

text \<open>The frames pushed and not yet counted.\<close>

fun uncounted :: "producer_pc \<Rightarrow> nat" where
  "uncounted (PCount _) = 1" | "uncounted _ = 0"

definition lane_inv :: "ingest_lane \<Rightarrow> bool" where
  "lane_inv s \<longleftrightarrow> flowing s = frames_upto (length (flowing s)) \<and> at_seq (producer s) (length (flowing s)) \<and>
     produced (gen s) + of_nat (uncounted (producer s)) = of_nat (length (flowing s)) \<and> length (ring s) \<le> capacity \<and>
     (\<forall>d n. bridge s = BRetire d n \<longrightarrow> ring s \<noteq> [])"

lemma frames_upto_Suc: "frames_upto (Suc n) = frames_upto n @ [seq_frame n]"
  by (simp add: frames_upto_def)

lemma flowing_other [simp]:
  "flowing (s\<lparr>producer := p\<rparr>) = flowing s" "flowing (s\<lparr>gen := g\<rparr>) = flowing s"
  "flowing (s\<lparr>producer_done := d\<rparr>) = flowing s" "flowing (s\<lparr>stop_flag := d\<rparr>) = flowing s"
  by (simp_all add: flowing_def untold_def cong: bridge_pc.case_cong)

lemma flowing_push:
  assumes "lane_inv s" "producer s = PPush n"
  shows "flowing (s\<lparr>ring := ring s @ [f], producer := p\<rparr>) = flowing s @ [f]"
  using assms by (auto simp: flowing_def untold_def lane_inv_def split: bridge_pc.splits)

lemma producer_step_inv:
  assumes "lane_inv s"
  shows "lane_inv (producer_step s)"
proof (cases "producer s")
  case (PPush n)
  show ?thesis
  proof (cases "length (ring s) < capacity")
    case True
    then have "lane_inv (s\<lparr>ring := ring s @ [seq_frame n], producer := PCount n\<rparr>)"
      using assms PPush flowing_push [OF assms PPush, where f = "seq_frame n"]
      by (auto simp: lane_inv_def frames_upto_Suc)
    then show ?thesis using PPush True by (simp add: try_push_def)
  next
    case False
    then show ?thesis using assms PPush
      by (simp add: try_push_def lane_inv_def)
  qed
qed (use assms in \<open>simp_all add: lane_inv_def\<close>)

text \<open>A turn of the bridge or of the worker moves frames along and neither adds nor loses one.\<close>

lemma bridge_step_flowing:
  assumes "lane_inv s"
  shows "flowing (bridge_step B s) = flowing s"
proof (cases "bridge s")
  case (BBatch d n)
  then show ?thesis by (cases n; cases "ring s") (simp_all add: flowing_def untold_def)
qed (use assms in \<open>auto simp: flowing_def untold_def lane_inv_def\<close>)

lemma bridge_step_inv:
  assumes "lane_inv s"
  shows "lane_inv (bridge_step B s)"
proof -
  have "producer (bridge_step B s) = producer s" "gen (bridge_step B s) = gen s"
    "length (ring (bridge_step B s)) \<le> length (ring s)"
    "bridge (bridge_step B s) = BRetire d n \<longrightarrow> ring (bridge_step B s) \<noteq> []" for d n
    by (auto split: bridge_pc.splits nat.splits list.splits)
  then show ?thesis
    using assms unfolding lane_inv_def bridge_step_flowing [OF assms] by auto
qed

lemma worker_step_inv:
  assumes "lane_inv s"
  shows "lane_inv (worker_step s)"
proof -
  have "flowing (worker_step s) = flowing s"
    by (auto simp: worker_step_def flowing_def untold_def split: list.splits bridge_pc.splits)
  then show ?thesis using assms by (auto simp: lane_inv_def worker_step_def split: list.splits)
qed

lemma lane_step_inv: "lane_inv s \<Longrightarrow> lane_inv (lane_step B s e)"
proof (cases e)
  case (Turn l)
  assume "lane_inv s"
  then show ?thesis using Turn producer_step_inv bridge_step_inv worker_step_inv
    by (cases l) (simp_all add: lane_step_def del: producer_step.simps bridge_step.simps)
qed (simp add: lane_step_def lane_inv_def)

lemma lane_inv_start: "lane_inv (start_lane n)"
  by (simp add: lane_inv_def start_lane_def flowing_def untold_def frames_upto_def gen_open_def new_GeneratorDriver_def)

interpretation lane: machine "lane_step B" lane_inv
  by unfold_locales (rule lane_step_inv)

section \<open>Why a bounded driver's frames all arrive\<close>

text \<open>What holds while nobody stops the lane, for a driver of \<open>n\<close> frames.\<close>

fun returned :: "producer_pc \<Rightarrow> bool" where
  "returned PReturn = True" | "returned PExit = True" | "returned _ = False"

fun read_done :: "bridge_pc \<Rightarrow> bool" where
  "read_done (BDrain d) = d" | "read_done (BBatch d _) = d" | "read_done (BRetire d _) = d"
| "read_done (BCheck d) = d" | "read_done (BLast d) = d" | "read_done BTop = False" | "read_done BExit = True"

definition lane_live :: "u32 \<Rightarrow> ingest_lane \<Rightarrow> bool" where
  "lane_live n s \<longleftrightarrow> lane_inv s \<and> \<not> stop_flag s \<and> frame_count (gen s) = n \<and> n \<noteq> 0 \<and>
     length (flowing s) \<le> unat n \<and> (\<forall>m. producer s \<in> {PPush m, PStalled m, PStall m} \<longrightarrow> m < unat n) \<and>
     (returned (producer s) \<longrightarrow> length (flowing s) = unat n) \<and> (producer_done s \<longleftrightarrow> producer s = PExit) \<and>
     (read_done (bridge s) \<longrightarrow> producer_done s) \<and> (bridge s = BExit \<longrightarrow> ring s = [])"

definition lane_goal :: "u32 \<Rightarrow> ingest_lane \<Rightarrow> bool" where
  "lane_goal n s \<longleftrightarrow> producer s = PExit \<and> bridge s = BExit \<and> ring s = [] \<and> frames_in s = []"

fun producer_left :: "producer_pc \<Rightarrow> nat" where
  "producer_left PExit = 0" | "producer_left PReturn = 1" | "producer_left _ = 2"

fun bridge_left :: "bridge_pc \<Rightarrow> nat" where
  "bridge_left BExit = 0" | "bridge_left (BRetire _ _) = 1" | "bridge_left _ = 3"

definition lane_left :: "u32 \<Rightarrow> ingest_lane \<Rightarrow> nat" where
  "lane_left n s = 4 * (unat n - length (flowing s)) + 3 * length (ring s) + length (frames_in s) +
     producer_left (producer s) + bridge_left (bridge s)"

definition lane_helpful :: "ingest_lane \<Rightarrow> lane" where
  "lane_helpful s = (if frames_in s \<noteq> [] then Worker
     else if ring s = [] \<and> producer s \<noteq> PExit then Producer else Bridge)"

text \<open>The turns the helpful thread needs before it makes progress.\<close>

fun producer_turns :: "producer_pc \<Rightarrow> nat" where
  "producer_turns (PLoop _) = 1" | "producer_turns (PStall _) = 1" | "producer_turns (PCount _) = 2"
| "producer_turns (PStalled _) = 2" | "producer_turns _ = 0"

fun tell_turns :: "bridge_pc \<Rightarrow> nat" where
  "tell_turns (BCheck _) = 4" | "tell_turns (BLast _) = 3" | "tell_turns BTop = 2" | "tell_turns (BDrain _) = 1"
| "tell_turns (BBatch _ n) = (if n = 0 then 2 else 0)" | "tell_turns _ = 0"

fun exit_turns :: "bridge_pc \<Rightarrow> nat" where
  "exit_turns (BBatch d _) = (if d then 3 else 7)" | "exit_turns (BDrain d) = (if d then 2 else 6)"
| "exit_turns (BCheck d) = (if d then 1 else 5)" | "exit_turns (BLast d) = (if d then 0 else 4)"
| "exit_turns BTop = 3" | "exit_turns _ = 0"

definition lane_turns :: "ingest_lane \<Rightarrow> nat" where
  "lane_turns s = (if frames_in s \<noteq> [] then 0
     else if ring s \<noteq> [] then tell_turns (bridge s)
     else if producer s \<noteq> PExit then producer_turns (producer s) else exit_turns (bridge s))"

definition lane_work :: "u32 \<Rightarrow> ingest_lane \<Rightarrow> nat" where
  "lane_work n s = 8 * lane_left n s + lane_turns s"

lemma lane_turns_less: "lane_turns s < 8"
  by (cases "bridge s"; cases "producer s") (simp_all add: lane_turns_def)

lemma lane_work_less: "lane_left n t < lane_left n s \<Longrightarrow> lane_work n t < lane_work n s"
  using lane_turns_less [of t] by (simp add: lane_work_def)

text \<open>A turn either lowers what is left, or changes nothing but the place of its thread.\<close>

definition idle_turn :: "u32 \<Rightarrow> ingest_lane \<Rightarrow> ingest_lane \<Rightarrow> bool" where
  "idle_turn n s t \<longleftrightarrow> lane_left n t = lane_left n s \<and> frames_in t = frames_in s \<and> ring t = ring s \<and>
     (producer t = PExit \<longleftrightarrow> producer s = PExit)"

lemma lane_left_producer:
  "lane_left n (s\<lparr>producer := p\<rparr>) + producer_left (producer s) = lane_left n s + producer_left p"
  by (simp add: lane_left_def)

lemma lane_left_bridge:
  assumes "\<And>d m. bridge s \<noteq> BRetire d m" "\<And>d m. b \<noteq> BRetire d m"
  shows "lane_left n (s\<lparr>bridge := b\<rparr>) + bridge_left (bridge s) = lane_left n s + bridge_left b"
proof -
  have "untold (s\<lparr>bridge := b\<rparr>) = untold s"
    using assms by (simp add: untold_def split: bridge_pc.splits)
  then show ?thesis by (simp add: lane_left_def flowing_def)
qed

lemma producer_turn:
  assumes "lane_live n s"
  shows "lane_live n (producer_step s)"
    and "lane_left n (producer_step s) < lane_left n s \<or> producer_step s = s \<or>
      idle_turn n s (producer_step s) \<and> bridge (producer_step s) = bridge s \<and>
      (ring s = [] \<longrightarrow> producer_turns (producer (producer_step s)) < producer_turns (producer s))"
proof -
  have "lane_live n (producer_step s) \<and> (lane_left n (producer_step s) < lane_left n s \<or> producer_step s = s \<or>
      idle_turn n s (producer_step s) \<and> bridge (producer_step s) = bridge s \<and>
      (ring s = [] \<longrightarrow> producer_turns (producer (producer_step s)) < producer_turns (producer s)))"
  proof (cases "producer s")
    case (PLoop m)
    have m: "m = length (flowing s)" using assms PLoop by (simp add: lane_live_def lane_inv_def)
    have i: "lane_inv (producer_step s)" using assms producer_step_inv by (simp add: lane_live_def)
    show ?thesis
    proof (cases "gen_exhausted (gen s) m")
      case True
      then show ?thesis using assms PLoop m i lane_left_producer [of n PReturn s]
        by (auto simp: lane_live_def gen_exhausted_def)
    next
      case False
      then show ?thesis using assms PLoop m i lane_left_producer [of n "PPush m" s]
        by (auto simp: lane_live_def gen_exhausted_def idle_turn_def)
    qed
  next
    case (PPush m)
    have m: "m = length (flowing s)" "m < unat n" using assms PPush by (auto simp: lane_live_def lane_inv_def)
    have i: "lane_inv (producer_step s)" using assms producer_step_inv by (simp add: lane_live_def)
    show ?thesis
    proof (cases "length (ring s) < capacity")
      case True
      let ?t = "s\<lparr>ring := ring s @ [seq_frame m], producer := PCount m\<rparr>"
      have t: "producer_step s = ?t" using PPush True by (simp add: try_push_def)
      have f: "flowing ?t = flowing s @ [seq_frame m]"
        using flowing_push [OF _ PPush] assms by (simp add: lane_live_def)
      have "lane_left n ?t < lane_left n s" using m f PPush by (simp add: lane_left_def)
      moreover have "lane_live n ?t" using assms i f m PPush unfolding t by (auto simp: lane_live_def)
      ultimately show ?thesis unfolding t by blast
    next
      case False
      then have "ring s \<noteq> []" by (auto simp: capacity_def)
      moreover have "producer_step s = s\<lparr>producer := PStalled m\<rparr>"
        using False PPush by (simp add: try_push_def)
      ultimately show ?thesis using assms i PPush by (auto simp: lane_live_def idle_turn_def lane_left_def)
    qed
  next
    case (PCount m)
    then show ?thesis using assms producer_step_inv [of s]
      by (auto simp: lane_live_def idle_turn_def lane_left_def)
  next
    case (PStalled m)
    then show ?thesis using assms producer_step_inv [of s]
      by (auto simp: lane_live_def idle_turn_def lane_left_def)
  next
    case (PStall m)
    then show ?thesis using assms producer_step_inv [of s] lane_left_producer [of n "PPush m" s]
      by (auto simp: lane_live_def lane_inv_def idle_turn_def)
  next
    case PReturn
    then show ?thesis using assms producer_step_inv [of s]
      by (auto simp: lane_live_def lane_left_def)
  next
    case PExit
    then show ?thesis using assms by simp
  qed
  then show "lane_live n (producer_step s)"
    and "lane_left n (producer_step s) < lane_left n s \<or> producer_step s = s \<or>
      idle_turn n s (producer_step s) \<and> bridge (producer_step s) = bridge s \<and>
      (ring s = [] \<longrightarrow> producer_turns (producer (producer_step s)) < producer_turns (producer s))"
    by blast+
qed

definition bridge_progress :: "u32 \<Rightarrow> ingest_lane \<Rightarrow> ingest_lane \<Rightarrow> bool" where
  "bridge_progress n s t \<longleftrightarrow> lane_left n t < lane_left n s \<or>
     idle_turn n s t \<and> producer t = producer s \<and>
     (ring s \<noteq> [] \<longrightarrow> tell_turns (bridge t) < tell_turns (bridge s)) \<and>
     (ring s = [] \<and> producer s = PExit \<longrightarrow> exit_turns (bridge t) < exit_turns (bridge s))"

text \<open>A turn that only moves the bridge between places where no frame is pinned.\<close>

lemma bridge_moves:
  assumes "lane_live n s" "bridge_step B s = s\<lparr>bridge := b\<rparr>" "\<And>d m. bridge s \<noteq> BRetire d m" "\<And>d m. b \<noteq> BRetire d m"
    and "read_done b \<Longrightarrow> producer_done s" "b = BExit \<Longrightarrow> ring s = []"
    and "bridge_left b < bridge_left (bridge s) \<or> bridge_left b = bridge_left (bridge s) \<and>
      (ring s \<noteq> [] \<longrightarrow> tell_turns b < tell_turns (bridge s)) \<and>
      (ring s = [] \<and> producer s = PExit \<longrightarrow> exit_turns b < exit_turns (bridge s))"
  shows "lane_live n (bridge_step B s) \<and> bridge_progress n s (bridge_step B s)"
proof -
  have i: "lane_inv (bridge_step B s)" "flowing (bridge_step B s) = flowing s"
    using assms(1) bridge_step_inv bridge_step_flowing by (simp_all add: lane_live_def del: bridge_step.simps)
  have "lane_live n (s\<lparr>bridge := b\<rparr>)"
    using assms(1,5,6) i unfolding assms(2) by (auto simp: lane_live_def)
  moreover have "bridge_progress n s (s\<lparr>bridge := b\<rparr>)"
    using assms(7) lane_left_bridge [OF assms(3,4), of n] by (auto simp: bridge_progress_def idle_turn_def)
  ultimately show ?thesis unfolding assms(2) ..
qed

lemma bridge_turn:
  assumes "batch_law B" "lane_live n s" "bridge s \<noteq> BExit"
  shows "lane_live n (bridge_step B s) \<and> bridge_progress n s (bridge_step B s)"
proof -
  have B: "0 < B (length (ring s)) bridge_budget" if "ring s \<noteq> []"
    using assms(1) that by (simp add: batch_law_def bridge_budget_def)
  have live: "read_done (bridge s) \<longrightarrow> producer_done s" "producer_done s \<longleftrightarrow> producer s = PExit" "\<not> stop_flag s"
    using assms(2) by (auto simp: lane_live_def)
  show ?thesis
  proof (cases "bridge s")
    case BTop
    show ?thesis using BTop live by (intro bridge_moves [OF assms(2)]) auto
  next
    case (BDrain d)
    show ?thesis
    proof (cases "ring s = []")
      case True
      then show ?thesis using BDrain live by (intro bridge_moves [OF assms(2), where b = "BCheck d"]) auto
    next
      case False
      then show ?thesis using BDrain live B
        by (intro bridge_moves [OF assms(2), where b = "BBatch d (B (length (ring s)) bridge_budget)"]) auto
    qed
  next
    case (BBatch d m)
    show ?thesis
    proof (cases "m = 0 \<or> ring s = []")
      case True
      then have "bridge_step B s = s\<lparr>bridge := BDrain d\<rparr>" using BBatch by (auto split: nat.splits)
      then show ?thesis using BBatch live True by (intro bridge_moves [OF assms(2)]) auto
    next
      case False
      then obtain f fs k where r: "ring s = f # fs" "m = Suc k" by (metis list.exhaust not0_implies_Suc)
      let ?t = "s\<lparr>frames_in := frames_in s @ [f], bridge := BRetire d k\<rparr>"
      have t: "bridge_step B s = ?t" using BBatch r by simp
      have i: "lane_inv ?t" "flowing ?t = flowing s"
        using bridge_step_inv [of s B] bridge_step_flowing [of s B] assms(2) unfolding t by (simp_all add: lane_live_def)
      then have "lane_live n ?t" using assms(2) BBatch by (auto simp: lane_live_def)
      moreover have "lane_left n ?t < lane_left n s" using i(2) BBatch by (simp add: lane_left_def)
      ultimately show ?thesis unfolding t bridge_progress_def by blast
    qed
  next
    case (BRetire d m)
    let ?t = "s\<lparr>ring := tl (ring s), bridge := BBatch d m\<rparr>"
    have t: "bridge_step B s = ?t" using BRetire by simp
    have r: "ring s \<noteq> []" using assms(2) BRetire by (simp add: lane_live_def lane_inv_def)
    have i: "lane_inv ?t" "flowing ?t = flowing s"
      using bridge_step_inv [of s B] bridge_step_flowing [of s B] assms(2) unfolding t by (simp_all add: lane_live_def)
    then have "lane_live n ?t" using assms(2) BRetire by (auto simp: lane_live_def)
    moreover have "lane_left n ?t < lane_left n s" using i(2) BRetire r by (cases "ring s") (simp_all add: lane_left_def)
    ultimately show ?thesis unfolding t bridge_progress_def by blast
  next
    case (BCheck d)
    show ?thesis using BCheck live by (intro bridge_moves [OF assms(2), where b = "BLast d"]) auto
  next
    case (BLast d)
    show ?thesis
    proof (cases "d \<and> ring s = []")
      case True
      then show ?thesis using BLast live by (intro bridge_moves [OF assms(2), where b = BExit]) auto
    next
      case False
      then show ?thesis using BLast live by (intro bridge_moves [OF assms(2), where b = BTop]) auto
    qed
  qed (use assms in simp)
qed

lemma worker_turn:
  assumes "lane_live n s"
  shows "lane_live n (worker_step s)" "frames_in s \<noteq> [] \<Longrightarrow> lane_left n (worker_step s) < lane_left n s"
    "frames_in s = [] \<Longrightarrow> worker_step s = s"
proof -
  have f: "flowing (worker_step s) = flowing s"
    by (auto simp: worker_step_def flowing_def untold_def split: list.splits bridge_pc.splits)
  have k: "producer (worker_step s) = producer s" "bridge (worker_step s) = bridge s" "gen (worker_step s) = gen s"
    "ring (worker_step s) = ring s" "stop_flag (worker_step s) = stop_flag s" "producer_done (worker_step s) = producer_done s"
    by (simp_all add: worker_step_def split: list.splits)
  show "lane_live n (worker_step s)"
    using assms worker_step_inv [of s] f k by (auto simp: lane_live_def)
  show "lane_left n (worker_step s) < lane_left n s" if "frames_in s \<noteq> []"
    using that f k by (cases "frames_in s") (simp_all add: lane_left_def worker_step_def)
  show "worker_step s = s" if "frames_in s = []"
    using that by (simp add: worker_step_def)
qed

lemma idle_turns:
  assumes "idle_turn n s t"
  shows "lane_helpful t = lane_helpful s"
    and "lane_work n t = lane_work n s + lane_turns t - lane_turns s"
  using assms by (auto simp: idle_turn_def lane_helpful_def lane_work_def)

lemma lane_progress:
  assumes "batch_law B" "lane_live n s" "\<not> lane_goal n s"
  shows "lane_work n (ingest_step B s l) < lane_work n s \<or>
    lane_work n (ingest_step B s l) = lane_work n s \<and> lane_helpful (ingest_step B s l) = lane_helpful s \<and> l \<noteq> lane_helpful s"
proof (cases l)
  case Producer
  let ?t = "producer_step s"
  consider "lane_left n ?t < lane_left n s" | "?t = s" |
    "idle_turn n s ?t" "bridge ?t = bridge s" "ring s = [] \<longrightarrow> producer_turns (producer ?t) < producer_turns (producer s)"
    using producer_turn(2) [OF assms(2)] by blast
  then have "lane_work n ?t < lane_work n s \<or> lane_work n ?t = lane_work n s \<and> lane_helpful ?t = lane_helpful s \<and> Producer \<noteq> lane_helpful s"
  proof cases
    case 1
    then show ?thesis by (simp add: lane_work_less del: producer_step.simps)
  next
    case 2
    then have "producer s = PExit"
      by (auto simp: try_push_def elim: ingest_lane.cases split: producer_pc.splits option.splits if_splits dest: arg_cong [where f = producer])
    then have "lane_helpful s \<noteq> Producer" by (simp add: lane_helpful_def)
    then show ?thesis using 2 by metis
  next
    case 3
    then show ?thesis
      using idle_turns [OF 3(1)] by (auto simp: idle_turn_def lane_turns_def lane_helpful_def lane_work_def simp del: producer_step.simps)
  qed
  then show ?thesis using Producer by (simp del: producer_step.simps)
next
  case Worker
  then show ?thesis
    using worker_turn(2,3) [OF assms(2)] lane_work_less by (cases "frames_in s = []") (auto simp: lane_helpful_def)
next
  case Bridge
  let ?t = "bridge_step B s"
  show ?thesis
  proof (cases "bridge s = BExit")
    case True
    then have "ring s = []" "producer s = PExit" using assms(2) by (auto simp: lane_live_def)
    then have "frames_in s \<noteq> []" using assms(3) True by (simp add: lane_goal_def)
    then show ?thesis using True Bridge by (simp add: lane_helpful_def)
  next
    case False
    from bridge_turn [OF assms(1,2) False] have "bridge_progress n s ?t" ..
    then consider "lane_left n ?t < lane_left n s" |
      "idle_turn n s ?t" "producer ?t = producer s" "ring s \<noteq> [] \<longrightarrow> tell_turns (bridge ?t) < tell_turns (bridge s)"
      "ring s = [] \<and> producer s = PExit \<longrightarrow> exit_turns (bridge ?t) < exit_turns (bridge s)"
      unfolding bridge_progress_def by blast
    then have "lane_work n ?t < lane_work n s \<or> lane_work n ?t = lane_work n s \<and> lane_helpful ?t = lane_helpful s \<and> Bridge \<noteq> lane_helpful s"
    proof cases
      case 1
      then show ?thesis by (simp add: lane_work_less del: bridge_step.simps)
    next
      case 2
      then show ?thesis
        using idle_turns [OF 2(1)] by (auto simp: idle_turn_def lane_turns_def lane_helpful_def lane_work_def simp del: bridge_step.simps)
    qed
    then show ?thesis using Bridge by (simp del: bridge_step.simps)
  qed
qed

lemma lane_live_step: "batch_law B \<Longrightarrow> lane_live n s \<Longrightarrow> lane_live n (ingest_step B s l)"
  using producer_turn(1) [of n s] worker_turn(1) [of n s] bridge_turn [of B n s]
  by (cases l; cases "bridge s = BExit") (simp_all del: producer_step.simps bridge_step.simps, simp)

lemma lane_goal_step:
  assumes "lane_live n s" "lane_goal n s"
  shows "lane_goal n (ingest_step B s l)"
  using assms(2) by (cases l) (simp_all add: lane_goal_def worker_step_def)

lemma lane_work_le: "batch_law B \<Longrightarrow> lane_live n s \<Longrightarrow> \<not> lane_goal n s \<Longrightarrow> lane_work n (ingest_step B s l) \<le> lane_work n s"
  using lane_progress [of B n s l] by linarith

interpretation lane_fair: fair_machine "ingest_step B" "\<lambda>s. batch_law B \<and> lane_live n s" "lane_goal n" "lane_work n" lane_helpful
proof unfold_locales
  fix s l
  assume a: "batch_law B \<and> lane_live n s"
  then show "batch_law B \<and> lane_live n (ingest_step B s l)" using lane_live_step by blast
  show "lane_goal n (ingest_step B s l)" if "lane_goal n s" using lane_goal_step a that by blast
  assume g: "\<not> lane_goal n s"
  show "lane_work n (ingest_step B s l) \<le> lane_work n s" using lane_work_le a g by blast
  show "lane_work n (ingest_step B s (lane_helpful s)) < lane_work n s" using lane_progress a g by blast
  show "lane_helpful (ingest_step B s l) = lane_helpful s" if "lane_work n (ingest_step B s l) = lane_work n s"
    using lane_progress [of B n s l] a g that by auto
qed

lemma lane_live_start: "n \<noteq> 0 \<Longrightarrow> lane_live n (start_lane n)"
  using lane_inv_start [of n]
  by (simp add: lane_live_def start_lane_def flowing_def untold_def gen_open_def)

lemma count_behind: "x + 1 = (of_nat k :: u64) \<Longrightarrow> Suc m = k \<Longrightarrow> x = of_nat m"
  by auto

section \<open>Properties\<close>

text \<open>
  C6: No frame is lost, repeated or reordered on the way. After any interleaving of the three threads and
  the teardown, the frames the actor has handled, then those in its mailbox, then those in the ring that
  are not yet told, are exactly the frames the driver has pushed, in the order it pushed them; the driver's
  counter is their number, or one less while the driver is between its push and the increment of the
  counter; and the ring never holds more than its capacity.
\<close>

theorem ingest_lossless:
  "\<exists>k. let s = foldl (lane_step B) (start_lane n) es in
     frames_done s @ frames_in s @ untold s = frames_upto k \<and>
     (case producer s of PCount m \<Rightarrow> k = Suc m \<and> produced (gen s) = of_nat m | _ \<Rightarrow> produced (gen s) = of_nat k) \<and>
     length (ring s) \<le> capacity"
proof -
  let ?s = "foldl (lane_step B) (start_lane n) es"
  have i: "lane_inv ?s" by (rule lane.inv_foldl [OF lane_inv_start])
  then have "case producer ?s of PCount m \<Rightarrow> length (flowing ?s) = Suc m \<and> produced (gen ?s) = of_nat m
      | _ \<Rightarrow> produced (gen ?s) = of_nat (length (flowing ?s))"
    by (auto simp: lane_inv_def split: producer_pc.split dest: sym intro: count_behind)
  moreover have "flowing ?s = frames_upto (length (flowing ?s))" "length (ring ?s) \<le> capacity"
    using i by (auto simp: lane_inv_def)
  ultimately show ?thesis
    unfolding Let_def flowing_def [symmetric] by (intro exI [of _ "length (flowing ?s)"] conjI)
qed

text \<open>
  C5: A bounded driver's frames all reach the actor. When the threads are scheduled in rounds in which each
  of them gets at least one turn, in any order and with any extra turns, then after \<open>32 n + 41\<close> rounds
  the actor has handled exactly the frames \<open>0 .. n - 1\<close> in order, both threads have returned, and nothing
  is left in the ring or the mailbox: backpressure stalls the driver but never the lane.
\<close>

theorem generator_delivers_all:
  assumes "n \<noteq> 0" "batch_law B" "\<forall>turns \<in> set rounds. {Producer, Bridge, Worker} \<subseteq> set turns"
    and "32 * unat n + 41 \<le> length rounds"
  shows "let s = foldl (ingest_step B) (start_lane n) (concat rounds) in
    frames_done s = frames_upto (unat n) \<and> frames_in s = [] \<and> ring s = [] \<and> producer s = PExit \<and> bridge s = BExit"
proof -
  let ?s = "foldl (ingest_step B) (start_lane n) (concat rounds)"
  have i: "batch_law B \<and> lane_live n (start_lane n)" using assms(1,2) lane_live_start by blast
  have "lane_work n (start_lane n) \<le> length rounds"
    using assms(4) by (simp add: lane_work_def lane_left_def lane_turns_def start_lane_def flowing_def untold_def)
  moreover have "lane_helpful s \<in> set turns" if "turns \<in> set rounds" for turns s
    using assms(3) that by (cases "lane_helpful s") auto
  ultimately have g: "lane_goal n ?s" by (rule lane_fair.goal_reached [OF i])
  have l: "lane_live n ?s" using lane_fair.inv_foldl [OF i] by blast
  then have "flowing ?s = frames_upto (unat n)" using g by (auto simp: lane_live_def lane_inv_def lane_goal_def)
  then show ?thesis using g by (simp add: Let_def lane_goal_def flowing_def untold_def)
qed

theorem generator_delivers_all_witness:
  "let s = foldl (ingest_step min) (start_lane 1) (concat (replicate 73 [Producer, Worker, Bridge])) in
    frames_done s = frames_upto 1 \<and> frames_in s = [] \<and> ring s = [] \<and> producer s = PExit \<and> bridge s = BExit"
  using generator_delivers_all [of 1 min "replicate 73 [Producer, Worker, Bridge]"]
  by (simp add: batch_law_def Let_def)

definition stranding :: "lane_event list" where
  "stranding = [Turn Producer, Teardown, Turn Bridge, Turn Bridge, Turn Bridge,
     Turn Producer, Turn Producer, Turn Producer, Turn Producer]"

text \<open>
  A teardown can strand a frame. When the bridge finds the ring empty and the stop flag up between the
  driver's last look at the flag and its push, it exits, and the frame the driver then pushes stays in
  the ring for good: the driver counts it as produced, and whatever runs afterwards the actor never gets it.
\<close>

theorem teardown_strands_frame:
  "let s = foldl (lane_step B) (start_lane n) (stranding @ later) in
     producer s = PExit \<and> bridge s = BExit \<and> produced (gen s) = 1 \<and> ring s = [seq_frame 0] \<and>
     frames_in s = [] \<and> frames_done s = []"
proof -
  define stuck where "stuck s \<longleftrightarrow> producer s = PExit \<and> bridge s = BExit \<and> produced (gen s) = 1 \<and>
    ring s = [seq_frame 0] \<and> frames_in s = [] \<and> frames_done s = []" for s :: ingest_lane
  have turn: "stuck (ingest_step B s l)" if "stuck s" for s l
    using that by (cases l) (simp_all add: stuck_def worker_step_def)
  have step: "stuck (lane_step B s e)" if "stuck s" for s e
    using that turn by (cases e) (simp_all add: lane_step_def, simp add: stuck_def)
  have "stuck (foldl (lane_step B) (start_lane n) stranding)"
    by (auto simp: stuck_def stranding_def lane_step_def start_lane_def gen_exhausted_def gen_open_def
        new_GeneratorDriver_def try_push_def capacity_def unat_eq_0)
  then have "stuck (foldl (lane_step B) (foldl (lane_step B) (start_lane n) stranding) later)"
    using step by (induction later rule: rev_induct) simp_all
  then show ?thesis by (simp add: stuck_def Let_def)
qed

end
