(* ===== verification/Tcp_Transport.thy ===== *)
theory Tcp_Transport
  imports "HOL-Library.Sublist" Frame_Codec Mqtt_Channel
begin

text \<open>
  \<open>include/aero/transport/tcp_transport.hpp\<close> and the selector of \<open>transport/transport.hpp\<close>. The
  transport is its record; the network is beside it, a list of the connections it has dialled, each
  with the bytes the sockets have accepted, so a descriptor is an index into that list. What the
  operating system answers is an input: the candidates a name resolves to and how the connect to each
  ends, and the outcomes of the single sends and receives of \<open>Mqtt_Channel\<close>.
\<close>

section \<open>State\<close>

record Peer =
  pr_host :: string
  pr_port :: u16

record TcpTransport =
  tt_self :: u64
  tt_bind_host :: string
  tt_listen_port :: u16
  tt_peers :: "u64 \<rightharpoonup> Peer"
  tt_listen_fd :: bool
  tt_resolved_port :: u16
  tt_running :: bool
  peer_fd :: "u64 \<rightharpoonup> nat option"
  tt_frames_sent :: u64
  tt_send_errors :: u64

definition new_TcpTransport :: "u64 \<Rightarrow> string \<Rightarrow> u16 \<Rightarrow> (u64 \<rightharpoonup> Peer) \<Rightarrow> TcpTransport" where
  "new_TcpTransport self host port peers = \<lparr>tt_self = self, tt_bind_host = host, tt_listen_port = port, tt_peers = peers,
     tt_listen_fd = False, tt_resolved_port = 0, tt_running = False, peer_fd = Map.empty, tt_frames_sent = 0, tt_send_errors = 0\<rparr>"

record tcp_conn =
  tc_to :: u64
  tc_written :: "byte list"
  tc_open :: bool

definition kMaxFrameBytes :: nat where
  "kMaxFrameBytes = 64 * 1024 * 1024"

section \<open>Operations\<close>

datatype StartError = BadBindHost string | ListenFailed string

text \<open>\<open>addr_ok\<close> is the answer of \<open>inet_pton\<close>, \<open>listen\<close> of \<open>tcp_listen\<close>, \<open>port\<close> of \<open>local_port\<close>.\<close>

definition tcp_start :: "bool \<Rightarrow> string + unit \<Rightarrow> u16 option \<Rightarrow> TcpTransport \<Rightarrow> StartError option \<times> TcpTransport" where
  "tcp_start addr_ok listen port t =
     (if \<not> addr_ok then (Some (BadBindHost (tt_bind_host t)), t)
      else case listen of
        Inl e \<Rightarrow> (Some (ListenFailed e), t)
      | Inr _ \<Rightarrow> (None, t\<lparr>tt_listen_fd := True,
          tt_resolved_port := (case port of Some p \<Rightarrow> p | None \<Rightarrow> tt_resolved_port t), tt_running := True\<rparr>))"

definition close_conn :: "nat \<Rightarrow> tcp_conn list \<Rightarrow> tcp_conn list" where
  "close_conn fd net = net[fd := (net ! fd)\<lparr>tc_open := False\<rparr>]"

definition tcp_stop :: "TcpTransport \<Rightarrow> tcp_conn list \<Rightarrow> TcpTransport \<times> tcp_conn list" where
  "tcp_stop t net = (if \<not> tt_running t then (t, net)
     else (t\<lparr>tt_running := False, tt_listen_fd := False, peer_fd := Map.empty\<rparr>,
           map (\<lambda>fd. if \<exists>p \<in> ran (peer_fd t). p = Some fd then (net ! fd)\<lparr>tc_open := False\<rparr> else net ! fd) [0..<length net]))"

definition add_peer :: "u64 \<Rightarrow> string \<Rightarrow> u16 \<Rightarrow> TcpTransport \<Rightarrow> TcpTransport" where
  "add_peer p host port t = t\<lparr>tt_peers := (tt_peers t)(p \<mapsto> \<lparr>pr_host = host, pr_port = port\<rparr>)\<rparr>"

text \<open>
  One candidate address of a name: not an IPv4 one, refused at once, started but not writable in time
  or with an error, or connected. \<open>None\<close>: the name does not resolve.
\<close>

datatype candidate = NotInet | Refused | NotConnected | IsConnected

fun dial :: "candidate list option \<Rightarrow> bool" where
  "dial None = False"
| "dial (Some []) = False"
| "dial (Some (NotInet # cs)) = dial (Some cs)"
| "dial (Some (Refused # cs)) = dial (Some cs)"
| "dial (Some (NotConnected # cs)) = dial (Some cs)"
| "dial (Some (IsConnected # cs)) = True"

type_synonym resolver = "Peer \<Rightarrow> candidate list option"

definition ensure_peer :: "resolver \<Rightarrow> u64 \<Rightarrow> TcpTransport \<Rightarrow> tcp_conn list \<Rightarrow> nat option \<times> TcpTransport \<times> tcp_conn list" where
  "ensure_peer R to t net =
     (case peer_fd t to of
        Some (Some fd) \<Rightarrow> (Some fd, t, net)
      | _ \<Rightarrow>
          (case tt_peers t to of
             None \<Rightarrow> (None, t, net)
           | Some p \<Rightarrow>
               if dial (R p)
               then (Some (length net), t\<lparr>peer_fd := (peer_fd t)(to \<mapsto> Some (length net))\<rparr>,
                     net @ [\<lparr>tc_to = to, tc_written = [], tc_open = True\<rparr>])
               else (None, t\<lparr>peer_fd := (peer_fd t)(to \<mapsto> None)\<rparr>, net)))"

definition put_le32 :: "u32 \<Rightarrow> byte list" where
  "put_le32 v = le_bytes 4 v"

definition get_le32 :: "byte list \<Rightarrow> u32" where
  "get_le32 bs = le_value bs"

text \<open>\<open>write_all\<close> and \<open>read_exact\<close> are the loops of \<open>Mqtt_Channel\<close> on their outcome lists.\<close>

definition write_all :: "send_script \<Rightarrow> byte list \<Rightarrow> byte list \<Rightarrow> bool \<times> send_script \<times> byte list" where
  "write_all sc bs w = write_loop sc bs w"

definition read_exact :: "rx list \<Rightarrow> nat \<Rightarrow> byte list option \<times> rx list" where
  "read_exact rxs n = read_n_loop rxs n []"

definition count_error :: "TcpTransport \<Rightarrow> TcpTransport" where
  "count_error t = t\<lparr>tt_send_errors := tt_send_errors t + 1\<rparr>"

definition write_frame :: "send_script \<Rightarrow> byte list \<Rightarrow> byte list \<Rightarrow> bool \<times> byte list" where
  "write_frame sc bs w =
     (case write_all sc (put_le32 (of_nat (length bs))) w of
        (False, _, w) \<Rightarrow> (False, w)
      | (True, sc, w) \<Rightarrow> (case write_all sc bs w of (ok, _, w) \<Rightarrow> (ok, w)))"

text \<open>The descriptor answered is the one the frame went out on whole; the code counts it in \<open>frames_sent_\<close>.\<close>

definition tcp_send_frame :: "resolver \<Rightarrow> send_script \<Rightarrow> u64 \<Rightarrow> MessageFrame \<Rightarrow> TcpTransport \<times> tcp_conn list \<Rightarrow>
    nat option \<times> TcpTransport \<times> tcp_conn list" where
  "tcp_send_frame R sc to f = (\<lambda>(t, net).
     let bs = encode_frame f in
     if kMaxFrameBytes < length bs then (None, count_error t, net)
     else case ensure_peer R to t net of
       (None, t, net) \<Rightarrow> (None, count_error t, net)
     | (Some fd, t, net) \<Rightarrow>
         let (ok, w) = write_frame sc bs (tc_written (net ! fd)); net = net[fd := (net ! fd)\<lparr>tc_written := w\<rparr>] in
         if ok then (Some fd, t\<lparr>tt_frames_sent := tt_frames_sent t + 1\<rparr>, net)
         else (None, count_error (t\<lparr>peer_fd := (peer_fd t)(to \<mapsto> None)\<rparr>), close_conn fd net))"

text \<open>
  The loop of the thread that reads one accepted connection: the frames it hands up and how many it
  counts. \<open>got_frame\<close> is one round up to the body.
\<close>

definition got_frame :: "rx list \<Rightarrow> (byte list \<times> rx list) option" where
  "got_frame rxs =
     (case read_exact rxs 4 of
        (None, _) \<Rightarrow> None
      | (Some lenbuf, rxs) \<Rightarrow>
          let len = unat (get_le32 lenbuf) in
          if len = 0 \<or> kMaxFrameBytes < len then None
          else case read_exact rxs len of (None, _) \<Rightarrow> None | (Some bs, rxs) \<Rightarrow> Some (bs, rxs))"

lemma read_n_loop_bytes:
  "read_n_loop rxs n got = (Some bs, rxs') \<Longrightarrow> \<exists>cs. bs = got @ cs \<and> length cs = n \<and> rx_bytes rxs = cs @ rx_bytes rxs'"
proof (induction rxs n got rule: read_n_loop.induct)
  case (4 cs rxs n got)
  then show ?case
    by (cases "length cs \<le> Suc n") (fastforce split: if_splits, auto split: if_splits)
qed auto

lemma read_exact_bytes:
  "read_exact rxs n = (Some bs, rxs') \<Longrightarrow> length bs = n \<and> rx_bytes rxs = bs @ rx_bytes rxs'"
  using read_n_loop_bytes [of rxs n "[]" bs rxs'] by (auto simp: read_exact_def)

lemma got_frame_bytes:
  assumes "got_frame rxs = Some (bs, rxs')"
  shows "\<exists>lb. length lb = 4 \<and> unat (get_le32 lb) = length bs \<and> rx_bytes rxs = lb @ bs @ rx_bytes rxs' \<and> 0 < length bs \<and> length bs \<le> kMaxFrameBytes"
  using assms
  by (auto simp: got_frame_def Let_def split: option.splits prod.splits if_splits dest!: read_exact_bytes)

function tcp_reader_loop :: "rx list \<Rightarrow> MessageFrame list \<times> nat" where
  "tcp_reader_loop rxs =
     (case got_frame rxs of
        None \<Rightarrow> ([], 0)
      | Some (bs, rxs) \<Rightarrow>
          (case tcp_reader_loop rxs of (fs, n) \<Rightarrow>
             ((case decode_frame bs of Some f \<Rightarrow> [f] | None \<Rightarrow> []) @ fs, Suc n)))"
  by pat_completeness auto
termination
  by (relation "measure (\<lambda>rxs. length (rx_bytes rxs))") (auto dest!: got_frame_bytes)

declare tcp_reader_loop.simps [simp del]

section \<open>Selecting a transport\<close>

datatype TransportClass = Loopback | Tcp | Grpc | Mqtt

fun class_rank :: "TransportClass \<Rightarrow> nat" where
  "class_rank Loopback = 0" | "class_rank Tcp = 1" | "class_rank Grpc = 2" | "class_rank Mqtt = 3"

lemma class_rank_inj: "class_rank a = class_rank b \<longleftrightarrow> a = b"
  by (cases a; cases b) simp_all

text \<open>The order of the enumeration, which is the order of preference.\<close>

instantiation TransportClass :: linorder
begin

definition less_eq_TransportClass :: "TransportClass \<Rightarrow> TransportClass \<Rightarrow> bool" where
  "less_eq_TransportClass a b \<longleftrightarrow> class_rank a \<le> class_rank b"

definition less_TransportClass :: "TransportClass \<Rightarrow> TransportClass \<Rightarrow> bool" where
  "less_TransportClass a b \<longleftrightarrow> class_rank a < class_rank b"

instance
  by standard (auto simp: less_eq_TransportClass_def less_TransportClass_def class_rank_inj)

end

record 't TransportSelector =
  local_transports :: "TransportClass \<rightharpoonup> 't"
  peer_classes :: "u64 \<rightharpoonup> TransportClass list"

definition register_transport :: "TransportClass \<Rightarrow> 't \<Rightarrow> 't TransportSelector \<Rightarrow> 't TransportSelector" where
  "register_transport c t s = s\<lparr>local_transports := (local_transports s)(c \<mapsto> t)\<rparr>"

definition set_peer_reachability :: "u64 \<Rightarrow> TransportClass list \<Rightarrow> 't TransportSelector \<Rightarrow> 't TransportSelector" where
  "set_peer_reachability p cs s = s\<lparr>peer_classes := (peer_classes s)(p \<mapsto> remdups_adj (sort cs))\<rparr>"

definition select_class :: "'t TransportSelector \<Rightarrow> u64 \<Rightarrow> TransportClass option" where
  "select_class s p = (case peer_classes s p of None \<Rightarrow> None | Some cs \<Rightarrow> find (\<lambda>c. local_transports s c \<noteq> None) cs)"

definition select :: "'t TransportSelector \<Rightarrow> u64 \<Rightarrow> 't option" where
  "select s p = (case select_class s p of None \<Rightarrow> None | Some c \<Rightarrow> local_transports s c)"


section \<open>Reading back what was written\<close>

definition framed :: "MessageFrame \<Rightarrow> byte list" where
  "framed f = put_le32 (of_nat (length (encode_frame f))) @ encode_frame f"

definition fits :: "MessageFrame \<Rightarrow> bool" where
  "fits f \<longleftrightarrow> length (encode_frame f) \<le> kMaxFrameBytes"

text \<open>What a send that gives up leaves on its connection.\<close>

definition torn :: "byte list \<Rightarrow> bool" where
  "torn part \<longleftrightarrow> (\<exists>g. fits g \<and> strict_prefix part (framed g))"

lemma encode_frame_length: "length (encode_frame f) = kFrameHeaderBytes + length (mf_payload f)"
  by (simp add: encode_frame_header length_frame_header)

lemma fits_length:
  assumes "fits f"
  shows "unat (of_nat (length (encode_frame f)) :: u32) = length (encode_frame f)" "0 < length (encode_frame f)"
proof -
  have "length (encode_frame f) < 2 ^ 32" using assms by (simp add: fits_def kMaxFrameBytes_def)
  then show "unat (of_nat (length (encode_frame f)) :: u32) = length (encode_frame f)" by (simp only: unat_of_nat) simp
  show "0 < length (encode_frame f)" by (simp add: encode_frame_length kFrameHeaderBytes_def)
qed

lemma decode_fits: "fits f \<Longrightarrow> decode_frame (encode_frame f) = Some f"
  using decode_encode_frame [of f "[]"] by (simp add: fits_def kMaxFrameBytes_def encode_frame_length)

lemma length_put_le32 [simp]: "length (put_le32 v) = 4"
  by (simp add: put_le32_def)

lemma get_put_le32 [simp]: "get_le32 (put_le32 v) = v"
  by (simp add: get_le32_def put_le32_def le_value_le_bytes_u32)

lemma torn_Nil [simp]: "torn []"
  unfolding torn_def
proof (intro exI conjI)
  let ?g = "\<lparr>mf_from = 0, mf_to = 0, mf_target_type = 0, mf_target_key = 0, mf_msg_type = 0, mf_mode = 0, mf_kind = 0,
    mf_deadline_ns = 0, mf_trace_id = 0, mf_subject = 0, mf_rights = 0, mf_payload = []\<rparr>"
  show "fits ?g" by (simp add: fits_def encode_frame_length kMaxFrameBytes_def kFrameHeaderBytes_def)
  then show "strict_prefix [] (framed ?g)" using fits_length(2) by (simp add: framed_def strict_prefix_def)
qed

text \<open>The first frame read off a stream that starts with a frame is that frame.\<close>

lemma got_frame_first:
  assumes "got_frame rxs = Some (bs, rxs')" "prefix (rx_bytes rxs) (framed f @ bs')" "fits f"
  shows "bs = encode_frame f \<and> prefix (rx_bytes rxs') bs'"
proof -
  obtain lb where lb: "length lb = 4" "unat (get_le32 lb) = length bs" "rx_bytes rxs = lb @ bs @ rx_bytes rxs'"
    using got_frame_bytes [OF assms(1)] by blast
  obtain cs where "framed f @ bs' = lb @ bs @ rx_bytes rxs' @ cs" using assms(2) lb(3) by (auto simp: prefix_def)
  then have e: "lb = put_le32 (of_nat (length (encode_frame f)))" "encode_frame f @ bs' = bs @ rx_bytes rxs' @ cs"
    using lb(1) by (simp_all add: framed_def append_eq_append_conv)
  then have "length bs = length (encode_frame f)" using lb(2) fits_length(1) [OF assms(3)] by simp
  then show ?thesis using e(2) by (auto simp: append_eq_append_conv prefix_def)
qed

lemma got_frame_torn:
  assumes "prefix (rx_bytes rxs) part" "torn part"
  shows "got_frame rxs = None"
proof (rule ccontr)
  assume "got_frame rxs \<noteq> None"
  then obtain bs rxs' where g: "got_frame rxs = Some (bs, rxs')" by auto
  obtain f where f: "fits f" "strict_prefix part (framed f)" using assms(2) by (auto simp: torn_def)
  have "prefix (rx_bytes rxs) (framed f @ [])" using assms(1) f(2) by (auto simp: strict_prefix_def intro: prefix_order.trans)
  from got_frame_first [OF g this f(1)] have "bs = encode_frame f" by simp
  moreover obtain lb where "length lb = 4" "rx_bytes rxs = lb @ bs @ rx_bytes rxs'" using got_frame_bytes [OF g] by blast
  ultimately have "length (framed f) \<le> length (rx_bytes rxs)" by (simp add: framed_def)
  then show False using assms(1) f(2) prefix_length_le prefix_length_less by fastforce
qed

lemma reader_prefix:
  assumes "prefix (rx_bytes rxs) (concat (map framed fs) @ part)" "torn part" "\<forall>f \<in> set fs. fits f"
  shows "prefix (fst (tcp_reader_loop rxs)) fs"
  using assms
proof (induction fs arbitrary: rxs)
  case Nil
  then have "got_frame rxs = None" using got_frame_torn by simp
  then show ?case by (simp add: tcp_reader_loop.simps)
next
  case (Cons f fs)
  show ?case
  proof (cases "got_frame rxs")
    case None
    then show ?thesis by (simp add: tcp_reader_loop.simps)
  next
    case (Some r)
    then obtain bs rxs' where r: "got_frame rxs = Some (bs, rxs')" by (cases r) auto
    have f: "bs = encode_frame f" "prefix (rx_bytes rxs') (concat (map framed fs) @ part)"
      using got_frame_first [OF r, of f "concat (map framed fs) @ part"] Cons.prems by simp_all
    then show ?thesis
      using Cons.IH [OF f(2)] Cons.prems decode_fits [of f] r
      by (subst tcp_reader_loop.simps) (auto split: prod.splits)
  qed
qed

lemma read_exact_live:
  assumes "rx_live rxs" "n \<le> length (rx_bytes rxs)"
  obtains rxs' where "read_exact rxs n = (Some (take n (rx_bytes rxs)), rxs')" "rx_live rxs'" "rx_bytes rxs' = drop n (rx_bytes rxs)"
  using read_n_loop_live [OF assms, of "[]"] by (auto simp: read_exact_def)

lemma got_frame_live:
  assumes "rx_live rxs" "rx_bytes rxs = framed f @ bs" "fits f"
  obtains rxs' where "got_frame rxs = Some (encode_frame f, rxs')" "rx_live rxs'" "rx_bytes rxs' = bs"
proof -
  obtain rxs1 where 1: "read_exact rxs 4 = (Some (put_le32 (of_nat (length (encode_frame f)))), rxs1)" "rx_live rxs1"
      "rx_bytes rxs1 = encode_frame f @ bs"
    by (rule read_exact_live [OF assms(1), of 4]) (simp_all add: assms(2) framed_def)
  obtain rxs2 where "read_exact rxs1 (length (encode_frame f)) = (Some (encode_frame f), rxs2)" "rx_live rxs2" "rx_bytes rxs2 = bs"
    by (rule read_exact_live [OF 1(2), of "length (encode_frame f)"]) (simp_all add: 1(3))
  then show thesis
    using that [of rxs2] 1(1) fits_length [OF assms(3)] assms(3) by (simp add: got_frame_def Let_def fits_def)
qed

lemma reader_exact:
  assumes "rx_live rxs" "rx_bytes rxs = concat (map framed fs) @ part" "torn part" "\<forall>f \<in> set fs. fits f"
  shows "tcp_reader_loop rxs = (fs, length fs)"
  using assms
proof (induction fs arbitrary: rxs)
  case Nil
  then have "got_frame rxs = None" by (intro got_frame_torn) auto
  then show ?case by (simp add: tcp_reader_loop.simps)
next
  case (Cons f fs)
  obtain rxs' where r: "got_frame rxs = Some (encode_frame f, rxs')" "rx_live rxs'" "rx_bytes rxs' = concat (map framed fs) @ part"
    by (rule got_frame_live [OF Cons.prems(1), of f]) (use Cons.prems in simp_all)
  then have "tcp_reader_loop rxs' = (fs, length fs)" using Cons.IH Cons.prems by simp
  then show ?case using r(1) decode_fits [of f] Cons.prems by (subst tcp_reader_loop.simps) simp
qed


section \<open>The sender over any answers of the network\<close>

text \<open>
  A run of the transport with the log of its sends: to whom, on which connection the frame went out
  whole (none when the send failed), and the frame.
\<close>

datatype tcp_event = SendFrame resolver send_script u64 MessageFrame | AddPeer u64 string u16

type_synonym send_log = "(u64 \<times> nat option \<times> MessageFrame) list"

fun tcp_step :: "send_log \<times> TcpTransport \<times> tcp_conn list \<Rightarrow> tcp_event \<Rightarrow> send_log \<times> TcpTransport \<times> tcp_conn list" where
  "tcp_step (log, s) (SendFrame R sc to f) = (case tcp_send_frame R sc to f s of (r, s') \<Rightarrow> (log @ [(to, r, f)], s'))"
| "tcp_step (log, t, net) (AddPeer p host port) = (log, add_peer p host port t, net)"

definition sent_on :: "nat \<Rightarrow> send_log \<Rightarrow> MessageFrame list" where
  "sent_on c log = map (\<lambda>(_, _, f). f) (filter (\<lambda>(_, r, _). r = Some c) log)"

definition sent_to :: "u64 \<Rightarrow> send_log \<Rightarrow> MessageFrame list" where
  "sent_to p log = map (\<lambda>(_, _, f). f) (filter (\<lambda>(to, r, _). to = p \<and> r \<noteq> None) log)"

definition no_failure :: "u64 \<Rightarrow> send_log \<Rightarrow> bool" where
  "no_failure p log \<longleftrightarrow> (\<forall>(to, r, f) \<in> set log. to = p \<longrightarrow> r \<noteq> None)"

definition log_inv :: "send_log \<Rightarrow> tcp_conn list \<Rightarrow> bool" where
  "log_inv log net \<longleftrightarrow> (\<forall>(to, r, f) \<in> set log. \<forall>c. r = Some c \<longrightarrow> c < length net \<and> tc_to (net ! c) = to \<and> fits f)"

definition conn_ok :: "send_log \<Rightarrow> nat \<Rightarrow> tcp_conn \<Rightarrow> bool" where
  "conn_ok log c k \<longleftrightarrow> (\<exists>part. tc_written k = concat (map framed (sent_on c log)) @ part \<and> torn part \<and> (tc_open k \<longrightarrow> part = []))"

definition cache_inv :: "send_log \<Rightarrow> TcpTransport \<Rightarrow> tcp_conn list \<Rightarrow> bool" where
  "cache_inv log t net \<longleftrightarrow>
     (\<forall>p c. peer_fd t p = Some (Some c) \<longrightarrow> c < length net \<and> tc_open (net ! c) \<and> tc_to (net ! c) = p) \<and>
     (\<forall>c < length net. no_failure (tc_to (net ! c)) log \<longrightarrow> peer_fd t (tc_to (net ! c)) = Some (Some c))"

fun tcp_inv :: "send_log \<times> TcpTransport \<times> tcp_conn list \<Rightarrow> bool" where
  "tcp_inv (log, t, net) \<longleftrightarrow> log_inv log net \<and> (\<forall>c < length net. conn_ok log c (net ! c)) \<and> cache_inv log t net \<and>
     tt_frames_sent t = of_nat (length (filter (\<lambda>(_, r, _). r \<noteq> None) log))"

lemma sent_on_snoc [simp]: "sent_on c (log @ [(to, r, f)]) = sent_on c log @ (if r = Some c then [f] else [])"
  by (simp add: sent_on_def)

lemma no_failure_snoc [simp]: "no_failure p (log @ [(to, r, f)]) \<longleftrightarrow> no_failure p log \<and> (to = p \<longrightarrow> r \<noteq> None)"
  by (auto simp: no_failure_def)

lemma log_inv_snoc [simp]:
  "log_inv (log @ [(to, r, f)]) net \<longleftrightarrow> log_inv log net \<and> (\<forall>c. r = Some c \<longrightarrow> c < length net \<and> tc_to (net ! c) = to \<and> fits f)"
  by (auto simp: log_inv_def)

lemma sent_on_fresh: "log_inv log net \<Longrightarrow> length net \<le> c \<Longrightarrow> sent_on c log = []"
  by (fastforce simp: sent_on_def log_inv_def filter_empty_conv)

lemma write_frame_wire:
  assumes "write_frame sc (encode_frame f) w = (ok, w')" "fits f"
  shows "if ok then w' = w @ framed f else (\<exists>part. w' = w @ part \<and> strict_prefix part (framed f))"
proof -
  let ?len = "put_le32 (of_nat (length (encode_frame f)))"
  obtain ok1 sc1 w1 where 1: "write_loop sc ?len w = (ok1, sc1, w1)" by (metis prod_cases3)
  obtain k1 where k1: "k1 \<le> 4" "w1 = w @ take k1 ?len" "ok1 \<longrightarrow> k1 = 4" "\<not> ok1 \<longrightarrow> k1 < 4"
    using write_loop_wire [OF 1] by auto
  show ?thesis
  proof (cases ok1)
    case False
    then have "\<not> ok" "w' = w @ take k1 ?len" using assms(1) 1 k1(2) by (simp_all add: write_frame_def write_all_def)
    moreover have "strict_prefix (take k1 ?len) (framed f)"
      using k1(4) False by (auto simp: framed_def strict_prefix_def prefix_def intro!: exI [of _ "drop k1 ?len @ encode_frame f"]
          dest: arg_cong [of _ _ length])
    ultimately show ?thesis by auto
  next
    case True
    obtain sc2 w2 where 2: "write_loop sc1 (encode_frame f) w1 = (ok, sc2, w2)" "w' = w2"
      using assms(1) 1 True by (auto simp: write_frame_def write_all_def split: prod.splits)
    obtain k2 where k2: "w2 = w1 @ take k2 (encode_frame f)" "ok \<longrightarrow> k2 = length (encode_frame f)" "\<not> ok \<longrightarrow> k2 < length (encode_frame f)"
      using write_loop_wire [OF 2(1)] by auto
    have w1: "w1 = w @ ?len" using k1 True by simp
    have "strict_prefix (?len @ take k2 (encode_frame f)) (framed f)" if "\<not> ok"
      using k2(3) that by (auto simp: framed_def strict_prefix_def take_is_prefix dest: arg_cong [of _ _ length])
    then show ?thesis using k2 w1 2(2) by (auto simp: framed_def)
  qed
qed

lemma ensure_peer_inv:
  assumes "tcp_inv (log, t, net)" "ensure_peer R to t net = (r, t', net')"
  shows "tcp_inv (log, t', net')" "r = Some c \<Longrightarrow> peer_fd t' to = Some (Some c)"
    "r = None \<Longrightarrow> net' = net" "tt_frames_sent t' = tt_frames_sent t"
proof -
  have dialled: "tcp_inv (log, t\<lparr>peer_fd := (peer_fd t)(to \<mapsto> Some (length net))\<rparr>, net @ [\<lparr>tc_to = to, tc_written = [], tc_open = True\<rparr>])"
    if n: "\<forall>c. peer_fd t to \<noteq> Some (Some c)"
  proof -
    let ?net = "net @ [\<lparr>tc_to = to, tc_written = [], tc_open = True\<rparr>]"
    have "conn_ok log c (?net ! c)" if "c < length ?net" for c
      using assms(1) that sent_on_fresh [of log net c] by (cases "c < length net") (auto simp: nth_append conn_ok_def)
    moreover have "log_inv log ?net" using assms(1) by (fastforce simp: log_inv_def nth_append)
    moreover have "cache_inv log (t\<lparr>peer_fd := (peer_fd t)(to \<mapsto> Some (length net))\<rparr>) ?net"
      using assms(1) n by (auto simp: cache_inv_def nth_append less_Suc_eq)
    ultimately show ?thesis using assms(1) by simp
  qed
  have refused: "tcp_inv (log, t\<lparr>peer_fd := (peer_fd t)(to \<mapsto> None)\<rparr>, net)" if "\<forall>c. peer_fd t to \<noteq> Some (Some c)"
    using assms(1) that by (auto simp: cache_inv_def)
  show "tcp_inv (log, t', net')" "r = Some c \<Longrightarrow> peer_fd t' to = Some (Some c)"
    "r = None \<Longrightarrow> net' = net" "tt_frames_sent t' = tt_frames_sent t"
    using assms dialled refused
    by (auto simp: ensure_peer_def simp del: tcp_inv.simps split: option.splits if_splits)
qed


lemma tcp_send_ok_inv:
  assumes "tcp_inv (log, t, net)" "peer_fd t to = Some (Some c)" "fits f"
  shows "tcp_inv (log @ [(to, Some c, f)], t\<lparr>tt_frames_sent := tt_frames_sent t + 1\<rparr>,
    net[c := (net ! c)\<lparr>tc_written := tc_written (net ! c) @ framed f\<rparr>])"
proof -
  let ?net = "net[c := (net ! c)\<lparr>tc_written := tc_written (net ! c) @ framed f\<rparr>]"
  have c: "c < length net" "tc_open (net ! c)" "tc_to (net ! c) = to" using assms(1,2) by (auto simp: cache_inv_def)
  have to: "tc_to (?net ! d) = tc_to (net ! d)" "tc_open (?net ! d) = tc_open (net ! d)" for d
    using c by (simp_all add: nth_list_update)
  have "conn_ok (log @ [(to, Some c, f)]) d (?net ! d)" if "d < length net" for d
    using assms(1) c that by (cases "d = c") (auto simp: conn_ok_def)
  moreover have "log_inv log ?net" using assms(1) to by (simp add: log_inv_def)
  moreover have "cache_inv (log @ [(to, Some c, f)]) (t\<lparr>tt_frames_sent := tt_frames_sent t + 1\<rparr>) ?net"
    using assms(1) to by (simp add: cache_inv_def)
  ultimately show ?thesis using assms c to by simp
qed

lemma tcp_send_fail_inv:
  assumes "tcp_inv (log, t, net)" "peer_fd t to = Some (Some c)" "fits f" "strict_prefix part (framed f)"
  shows "tcp_inv (log @ [(to, None, f)], count_error (t\<lparr>peer_fd := (peer_fd t)(to \<mapsto> None)\<rparr>),
    close_conn c (net[c := (net ! c)\<lparr>tc_written := tc_written (net ! c) @ part\<rparr>]))"
proof -
  have c: "c < length net" "tc_open (net ! c)" "tc_to (net ! c) = to" using assms(1,2) by (auto simp: cache_inv_def)
  let ?k = "(net ! c)\<lparr>tc_written := tc_written (net ! c) @ part, tc_open := False\<rparr>"
  have net: "close_conn c (net[c := (net ! c)\<lparr>tc_written := tc_written (net ! c) @ part\<rparr>]) = net[c := ?k]"
    using c by (simp add: close_conn_def)
  have to: "tc_to (net[c := ?k] ! d) = tc_to (net ! d)" for d using c by (simp add: nth_list_update)
  have open_other: "tc_open (net[c := ?k] ! d) = tc_open (net ! d)" if "d \<noteq> c" for d using that by simp
  have "torn part" using assms(3,4) by (auto simp: torn_def)
  then have "conn_ok (log @ [(to, None, f)]) d (net[c := ?k] ! d)" if "d < length net" for d
    using assms(1) c that by (cases "d = c") (auto simp: conn_ok_def)
  moreover have "log_inv log (net[c := ?k])" using assms(1) to by (simp add: log_inv_def)
  moreover have "cache_inv (log @ [(to, None, f)]) (count_error (t\<lparr>peer_fd := (peer_fd t)(to \<mapsto> None)\<rparr>)) (net[c := ?k])"
  proof -
    have fd: "d < length net \<and> tc_open (net[c := ?k] ! d) \<and> tc_to (net ! d) = p" if "p \<noteq> to" "peer_fd t p = Some (Some d)" for p d
    proof -
      have d: "d < length net" "tc_open (net ! d)" "tc_to (net ! d) = p" using assms(1) that(2) by (auto simp: cache_inv_def)
      then have "d \<noteq> c" using c(3) that(1) by auto
      then show ?thesis using d open_other by simp
    qed
    show ?thesis
      unfolding cache_inv_def
    proof (intro conjI allI impI)
      let ?t = "count_error (t\<lparr>peer_fd := (peer_fd t)(to \<mapsto> None)\<rparr>)"
      fix p d assume "peer_fd ?t p = Some (Some d)"
      then have "p \<noteq> to" "peer_fd t p = Some (Some d)" by (auto simp: count_error_def split: if_splits)
      from fd [OF this] show "d < length (net[c := ?k])" "tc_open (net[c := ?k] ! d)" "tc_to (net[c := ?k] ! d) = p"
        unfolding to by simp_all
    next
      let ?t = "count_error (t\<lparr>peer_fd := (peer_fd t)(to \<mapsto> None)\<rparr>)"
      fix d assume d: "d < length (net[c := ?k])" "no_failure (tc_to (net[c := ?k] ! d)) (log @ [(to, None, f)])"
      then have "no_failure (tc_to (net ! d)) log" "tc_to (net ! d) \<noteq> to" unfolding to by auto
      moreover from this have "peer_fd t (tc_to (net ! d)) = Some (Some d)" using assms(1) d(1) by (simp add: cache_inv_def)
      ultimately show "peer_fd ?t (tc_to (net[c := ?k] ! d)) = Some (Some d)" unfolding to by (simp add: count_error_def)
    qed
  qed
  ultimately show ?thesis using assms(1) by (simp add: net count_error_def)
qed

lemma tcp_inv_refused:
  assumes "tcp_inv (log, t, net)"
  shows "tcp_inv (log @ [(to, None, f)], count_error t, net)"
proof -
  have "sent_on c (log @ [(to, None, f)]) = sent_on c log" for c by simp
  then show ?thesis using assms by (auto simp: cache_inv_def count_error_def conn_ok_def)
qed

lemma tcp_send_inv:
  assumes "tcp_inv (log, t, net)"
  shows "tcp_inv (tcp_step (log, t, net) (SendFrame R sc to f))"
proof (cases "fits f")
  case False
  then show ?thesis using tcp_inv_refused [OF assms, of to f] by (simp add: tcp_send_frame_def fits_def Let_def not_le)
next
  case True
  obtain r t1 net1 where e: "ensure_peer R to t net = (r, t1, net1)" by (metis prod_cases3)
  note inv1 = ensure_peer_inv(1) [OF assms e]
  have small: "\<not> kMaxFrameBytes < length (encode_frame f)" using True by (simp add: fits_def)
  show ?thesis
  proof (cases r)
    case None
    then show ?thesis using tcp_inv_refused [OF inv1, of to f] e small by (simp add: tcp_send_frame_def Let_def)
  next
    case (Some c)
    note fd = ensure_peer_inv(2) [OF assms e Some]
    obtain ok w where w: "write_frame sc (encode_frame f) (tc_written (net1 ! c)) = (ok, w)" by fastforce
    note wire = write_frame_wire [OF w True]
    show ?thesis
    proof (cases ok)
      case True
      then show ?thesis
        using tcp_send_ok_inv [OF inv1 fd \<open>fits f\<close>] wire w e small Some by (simp add: tcp_send_frame_def Let_def del: tcp_inv.simps)
    next
      case False
      then obtain part where "w = tc_written (net1 ! c) @ part" "strict_prefix part (framed f)" using wire by auto
      then show ?thesis
        using tcp_send_fail_inv [OF inv1 fd \<open>fits f\<close>] w e small Some False by (simp add: tcp_send_frame_def Let_def del: tcp_inv.simps)
    qed
  qed
qed

interpretation tcp_sender: machine tcp_step tcp_inv
proof
  fix s e assume "tcp_inv s"
  obtain log t net where s: "s = (log, t, net)" by (metis prod_cases3)
  show "tcp_inv (tcp_step s e)"
  proof (cases e)
    case (SendFrame R sc to f)
    then show ?thesis using tcp_send_inv \<open>tcp_inv s\<close> s by (simp del: tcp_step.simps)
  next
    case (AddPeer p host port)
    then show ?thesis using \<open>tcp_inv s\<close> s by (simp add: add_peer_def cache_inv_def)
  qed
qed

text \<open>Without a failed send, what went out to a peer went out on one connection.\<close>

lemma sent_to_one_conn:
  assumes "log_inv log net" "cache_inv log t net" "no_failure p log" "c < length net" "tc_to (net ! c) = p"
  shows "sent_to p log = sent_on c log"
proof -
  have "to = p \<and> r \<noteq> None \<longleftrightarrow> r = Some c" if "(to, r, f) \<in> set log" for to r f
  proof
    assume a: "to = p \<and> r \<noteq> None"
    then obtain d where d: "r = Some d" by auto
    then have "d < length net" "tc_to (net ! d) = p" using that a assms(1) by (auto simp: log_inv_def)
    then have "peer_fd t p = Some (Some d)" using assms(2,3) unfolding cache_inv_def by blast
    moreover have "peer_fd t p = Some (Some c)" using assms(2-5) unfolding cache_inv_def by blast
    ultimately show "r = Some c" using d by simp
  next
    assume "r = Some c"
    then show "to = p \<and> r \<noteq> None" using that assms(1,5) by (auto simp: log_inv_def)
  qed
  then show ?thesis unfolding sent_to_def sent_on_def by (intro arg_cong [where f = "map _"] filter_cong) auto
qed

lemma sent_on_fits: "log_inv log net \<Longrightarrow> \<forall>f \<in> set (sent_on c log). fits f"
  by (auto simp: sent_on_def log_inv_def)

section \<open>Properties\<close>

text \<open>
  C4: Frames cross a TCP connection whole, once and in order. After any sends to any peers, with any
  partial writes, failed writes and redials, the reader of a connection hands up, however the bytes are
  chunked, exactly the frames the sender counts as sent on it, in sending order, once it has read
  what was written; stopped at any earlier byte it has handed up a prefix of them; and never a frame of
  which only a part was written. While no send to a peer fails, all its frames go out on one connection.
\<close>

theorem tcp_frames_whole_in_order:
  assumes "foldl tcp_step ([], new_TcpTransport self host port peers, []) evs = (log, t, net)" "c < length net"
  shows "(rx_live rxs \<and> rx_bytes rxs = tc_written (net ! c) \<longrightarrow> tcp_reader_loop rxs = (sent_on c log, length (sent_on c log))) \<and>
    (prefix (rx_bytes rxs) (tc_written (net ! c)) \<longrightarrow> prefix (fst (tcp_reader_loop rxs)) (sent_on c log)) \<and>
    (no_failure (tc_to (net ! c)) log \<longrightarrow> sent_to (tc_to (net ! c)) log = sent_on c log) \<and>
    tt_frames_sent t = of_nat (length (filter (\<lambda>(_, r, _). r \<noteq> None) log))"
proof -
  have "tcp_inv ([], new_TcpTransport self host port peers, [])"
    by (simp add: new_TcpTransport_def log_inv_def cache_inv_def)
  from tcp_sender.inv_foldl [OF this, of evs] assms(1) have inv: "tcp_inv (log, t, net)" by simp
  then obtain part where part: "tc_written (net ! c) = concat (map framed (sent_on c log)) @ part" "torn part"
    using assms(2) by (auto simp: conn_ok_def)
  have fit: "\<forall>f \<in> set (sent_on c log). fits f" using inv by (intro sent_on_fits [of log net]) simp
  show ?thesis
    using reader_exact [OF _ _ part(2) fit, of rxs] reader_prefix [OF _ part(2) fit, of rxs] inv part(1)
      sent_to_one_conn [of log net t "tc_to (net ! c)" c] assms(2) by auto
qed


definition frame_example :: "byte list \<Rightarrow> MessageFrame" where
  "frame_example bs = \<lparr>mf_from = 1, mf_to = 2, mf_target_type = 0, mf_target_key = 0, mf_msg_type = 0, mf_mode = 0, mf_kind = 0,
     mf_deadline_ns = 0, mf_trace_id = 0, mf_subject = 0, mf_rights = 0, mf_payload = bs\<rparr>"

definition one_peer :: "u64 \<rightharpoonup> Peer" where
  "one_peer = [2 \<mapsto> \<lparr>pr_host = ''b'', pr_port = 7000\<rparr>]"

text \<open>Three sends to one peer, of which the second stops after two bytes.\<close>

definition redial_events :: "tcp_event list" where
  "redial_events = [SendFrame (\<lambda>_. Some [IsConnected]) [(0, SendOk 4), (0, SendOk 99)] 2 (frame_example [1]),
     SendFrame (\<lambda>_. Some [IsConnected]) [(0, SendOk 2), (0, SendError)] 2 (frame_example [2]),
     SendFrame (\<lambda>_. Some [IsConnected]) [(0, SendOk 4), (0, SendOk 99)] 2 (frame_example [3])]"

lemma length_frame_example [simp]: "length (encode_frame (frame_example bs)) = 78 + length bs"
  by (simp add: encode_frame_length frame_example_def kFrameHeaderBytes_def)

lemma nonempty_example [simp]: "encode_frame (frame_example bs) \<noteq> []" "put_le32 v \<noteq> []"
  using length_frame_example [of bs] length_put_le32 [of v] by (metis add_is_0 list.size(3) zero_neq_numeral)+

lemma redial_run:
  "\<exists>t. foldl tcp_step ([], new_TcpTransport 1 ''a'' 0 one_peer, []) redial_events =
     ([(2, Some 0, frame_example [1]), (2, None, frame_example [2]), (2, Some 1, frame_example [3])], t,
      [\<lparr>tc_to = 2, tc_written = framed (frame_example [1]) @ take 2 (framed (frame_example [2])), tc_open = False\<rparr>,
       \<lparr>tc_to = 2, tc_written = framed (frame_example [3]), tc_open = True\<rparr>])"
  by (simp add: redial_events_def tcp_send_frame_def ensure_peer_def new_TcpTransport_def one_peer_def write_frame_def write_all_def
      write_loop.simps kMaxFrameBytes_def close_conn_def framed_def count_error_def Let_def)

theorem tcp_frames_whole_in_order_witness:
  "tcp_reader_loop [RxChunk (framed (frame_example [1])), RxWouldBlock, RxChunk (take 2 (framed (frame_example [2])))] = ([frame_example [1]], 1)"
proof -
  obtain t where r: "foldl tcp_step ([], new_TcpTransport 1 ''a'' 0 one_peer, []) redial_events =
     ([(2, Some 0, frame_example [1]), (2, None, frame_example [2]), (2, Some 1, frame_example [3])], t,
      [\<lparr>tc_to = 2, tc_written = framed (frame_example [1]) @ take 2 (framed (frame_example [2])), tc_open = False\<rparr>,
       \<lparr>tc_to = 2, tc_written = framed (frame_example [3]), tc_open = True\<rparr>])"
    using redial_run by blast
  have "framed f \<noteq> []" "take 2 (framed f) \<noteq> []" for f by (simp_all add: framed_def put_le32_def le_bytes_def)
  then show ?thesis
    using tcp_frames_whole_in_order [OF r, of 0 "[RxChunk (framed (frame_example [1])), RxWouldBlock, RxChunk (take 2 (framed (frame_example [2])))]"]
    by (simp add: sent_on_def)
qed

text \<open>
  After a failed write the next frame goes out on a second connection, which another thread reads. The
  two threads hand up in any interleaving, so a frame sent before the failure can arrive after one sent
  later.
\<close>

theorem tcp_redial_reorders:
  "\<exists>log t net rxs0 rxs1. foldl tcp_step ([], new_TcpTransport 1 ''a'' 0 one_peer, []) redial_events = (log, t, net) \<and>
     rx_bytes rxs0 = tc_written (net ! 0) \<and> rx_bytes rxs1 = tc_written (net ! 1) \<and>
     sent_to 2 log = [frame_example [1], frame_example [3]] \<and>
     [frame_example [3], frame_example [1]] \<in> shuffles (fst (tcp_reader_loop rxs0)) (fst (tcp_reader_loop rxs1))"
proof -
  let ?w0 = "framed (frame_example [1]) @ take 2 (framed (frame_example [2]))" and ?w1 = "framed (frame_example [3])"
  have fit: "fits (frame_example [b])" for b by (simp add: fits_def kMaxFrameBytes_def)
  have t: "torn (take 2 (framed (frame_example [2])))"
    unfolding torn_def using fit [of 2]
    by (intro exI [of _ "frame_example [2]"])
      (auto simp: strict_prefix_def take_is_prefix framed_def dest: arg_cong [of _ _ length])
  have ne: "?w0 \<noteq> []" "?w1 \<noteq> []" by (simp_all add: framed_def put_le32_def le_bytes_def)
  have 0: "tcp_reader_loop [RxChunk ?w0] = ([frame_example [1]], 1)"
    using reader_exact [of "[RxChunk ?w0]" "[frame_example [1]]", OF _ _ t] fit ne by simp
  have 1: "tcp_reader_loop [RxChunk ?w1] = ([frame_example [3]], 1)"
    using reader_exact [of "[RxChunk ?w1]" "[frame_example [3]]" "[]"] fit ne by simp
  obtain log t net where r: "foldl tcp_step ([], new_TcpTransport 1 ''a'' 0 one_peer, []) redial_events = (log, t, net)"
      "log = [(2, Some 0, frame_example [1]), (2, None, frame_example [2]), (2, Some 1, frame_example [3])]"
      "tc_written (net ! 0) = ?w0" "tc_written (net ! 1) = ?w1"
    using redial_run by fastforce
  have "sent_to 2 log = [frame_example [1], frame_example [3]]" by (simp add: r(2) sent_to_def)
  moreover have "[frame_example [3], frame_example [1]] \<in> shuffles (fst (tcp_reader_loop [RxChunk ?w0])) (fst (tcp_reader_loop [RxChunk ?w1]))"
    by (simp add: 0 1)
  moreover have "rx_bytes [RxChunk ?w0] = tc_written (net ! 0)" "rx_bytes [RxChunk ?w1] = tc_written (net ! 1)" using r(3,4) by simp_all
  ultimately show ?thesis using r(1) by blast
qed

section \<open>The selected transport\<close>

text \<open>
  The transport chosen for a peer is the most preferred class among those the peer advertised last and
  this node can drive; none is chosen exactly when there is no such class.
\<close>

lemma find_sorted_Min:
  assumes "sorted xs" "find P xs = Some x"
  shows "x \<in> set xs \<and> P x \<and> (\<forall>y \<in> set xs. P y \<longrightarrow> x \<le> y)"
  using assms by (induction xs) (auto split: if_splits)

lemma select_class_preferred:
  assumes "peer_classes s p = None"
  shows "case select_class (set_peer_reachability p cs s) p of
      Some c \<Rightarrow> c \<in> set cs \<and> local_transports s c \<noteq> None \<and> (\<forall>d \<in> set cs. local_transports s d \<noteq> None \<longrightarrow> c \<le> d)
    | None \<Rightarrow> \<forall>d \<in> set cs. local_transports s d = None"
proof -
  have "sorted (remdups_adj (sort cs))" by (simp add: sorted_remdups_adj)
  from find_sorted_Min [OF this] show ?thesis
    by (auto simp: select_class_def set_peer_reachability_def find_None_iff split: option.splits)
qed

end
