(* ===== verification/Mqtt_Link.thy ===== *)
theory Mqtt_Link
  imports Resequencer Bridge_Codec Tcp_Transport
begin

text \<open>
  \<open>include/aero/transport/mqtt_client_transport.hpp\<close> with the base of \<open>mqtt_transport.hpp\<close>: the client
  that carries frames between nodes through an MQTT broker. A frame is published with QoS 1 under a
  sequence number per destination, kept until its PUBACK and sent again by a timer; the receiver
  acknowledges and puts the frames of each source through a resequencer. The socket is part of the
  record: the outcomes of its future sends and the bytes it has accepted. Receiving is the packet list
  of \<open>Mqtt_Channel\<close>.
\<close>

section \<open>State\<close>

record MqttConfig =
  mq_broker_uri :: string
  mq_qos :: int
  mq_topic_prefix :: string
  mq_reorder_window :: u64
  mq_puback_timeout_ms :: int
  mq_max_publish_retries :: int
  mq_retry_check_interval_ms :: int

record InFlightPublish =
  ifp_vh :: "byte list"
  ifp_last_sent_at :: int
  ifp_retry_count :: int

record MqttClientTransport =
  mc_self :: u64
  mc_cfg :: MqttConfig
  mc_fd :: bool
  mc_running :: bool
  mc_sink :: bool
  mc_next_seq :: "u64 \<rightharpoonup> u64"
  mc_resequencers :: "u64 \<rightharpoonup> MessageFrame Resequencer"
  mc_inflight :: "u16 \<rightharpoonup> InFlightPublish"
  mc_packet_id :: u16
  mc_frames_sent :: u64
  mc_frames_recv :: u64
  mc_send_errors :: u64
  mc_dupes :: u64
  mc_retransmits :: u64
  mc_gaveup :: u64
  mc_script :: send_script
  mc_wire :: "byte list"

definition new_MqttClientTransport :: "u64 \<Rightarrow> MqttConfig \<Rightarrow> MqttClientTransport" where
  "new_MqttClientTransport self cfg = \<lparr>mc_self = self, mc_cfg = cfg, mc_fd = False, mc_running = False, mc_sink = False,
     mc_next_seq = Map.empty, mc_resequencers = Map.empty, mc_inflight = Map.empty, mc_packet_id = 1,
     mc_frames_sent = 0, mc_frames_recv = 0, mc_send_errors = 0, mc_dupes = 0, mc_retransmits = 0, mc_gaveup = 0,
     mc_script = [], mc_wire = []\<rparr>"

definition mc_on_receive :: "MqttClientTransport \<Rightarrow> MqttClientTransport" where
  "mc_on_receive t = t\<lparr>mc_sink := True\<rparr>"

definition inbox_topic :: "MqttConfig \<Rightarrow> u64 \<Rightarrow> string" where
  "inbox_topic cfg self = mq_topic_prefix cfg @ to_string (unat self)"

section \<open>Packets in and out\<close>

definition mc_write_packet :: "u8 \<Rightarrow> byte list \<Rightarrow> MqttClientTransport \<Rightarrow> bool \<times> MqttClientTransport" where
  "mc_write_packet tf bs t = (if \<not> mc_fd t then (False, t)
     else case write_packet (mc_script t) (mc_wire t) tf bs of
       (ok, sc, w) \<Rightarrow> (ok, t\<lparr>mc_script := sc, mc_wire := w\<rparr>))"

definition next_seq :: "u64 \<Rightarrow> MqttClientTransport \<Rightarrow> u64 \<times> MqttClientTransport" where
  "next_seq to t = (let s = (case mc_next_seq t to of None \<Rightarrow> 0 | Some s \<Rightarrow> s) in
     (s, t\<lparr>mc_next_seq := (mc_next_seq t)(to \<mapsto> s + 1)\<rparr>))"

definition mc_next_packet_id :: "MqttClientTransport \<Rightarrow> u16 \<times> MqttClientTransport" where
  "mc_next_packet_id t = (let i = mc_packet_id t in
     if i = 0 then (i + 1, t\<lparr>mc_packet_id := i + 2\<rparr>) else (i, t\<lparr>mc_packet_id := i + 1\<rparr>))"

section \<open>Handshake and life cycle\<close>

text \<open>
  The errors the calls answer with, the word the source puts behind its gate string; \<open>StoulThrows\<close> is
  the exception of \<open>std::stoul\<close> on the port.
\<close>

datatype GateError = MalformedUri string | CannotDial string u16 | ConnectWrite | NoConnack | ConnackRefused
  | SubscribeWrite | NoSuback | NotSuback | SubscribeDenied | StoulThrows

definition gate_err :: "GateError \<Rightarrow> MqttClientTransport \<Rightarrow> GateError option \<times> MqttClientTransport" where
  "gate_err e t = (Some e, t\<lparr>mc_running := False, mc_fd := False\<rparr>)"

definition connect_vh :: "u64 \<Rightarrow> byte list" where
  "connect_vh self = put_str (put_u16_be (put_str [] ''MQTT'' @ [0x04, 0x02]) 60) (''aero-'' @ to_string (unat self))"

definition mc_mqtt_connect :: "rx list \<Rightarrow> MqttClientTransport \<Rightarrow> (GateError option \<times> MqttClientTransport) \<times> rx list" where
  "mc_mqtt_connect rxs t =
     (case mc_write_packet 0x10 (connect_vh (mc_self t)) t of
        (False, t) \<Rightarrow> (gate_err ConnectWrite t, rxs)
      | (True, t) \<Rightarrow>
          (case read_packet rxs of
             (None, rxs) \<Rightarrow> (gate_err NoConnack t, rxs)
           | (Some p, rxs) \<Rightarrow>
               if type_flags p AND 0xF0 \<noteq> 0x20 \<or> length (body p) < 2 \<or> body p ! 1 \<noteq> 0
               then (gate_err ConnackRefused t, rxs) else ((None, t), rxs)))"

definition mqtt_subscribe_inbox :: "rx list \<Rightarrow> MqttClientTransport \<Rightarrow> (GateError option \<times> MqttClientTransport) \<times> rx list" where
  "mqtt_subscribe_inbox rxs t =
     (case mc_next_packet_id t of (pid, t) \<Rightarrow>
        (case mc_write_packet 0x82 (put_str (put_u16_be [] pid) (inbox_topic (mc_cfg t) (mc_self t)) @ [0x01]) t of
           (False, t) \<Rightarrow> (gate_err SubscribeWrite t, rxs)
         | (True, t) \<Rightarrow>
             (case read_packet rxs of
                (None, rxs) \<Rightarrow> (gate_err NoSuback t, rxs)
              | (Some p, rxs) \<Rightarrow>
                  if type_flags p AND 0xF0 \<noteq> 0x90 then (gate_err NotSuback t, rxs)
                  else if body p \<noteq> [] \<and> last (body p) = 0x80 then (gate_err SubscribeDenied t, rxs)
                  else ((None, t), rxs))))"

text \<open>\<open>dialled\<close> is what \<open>dial_tcp\<close> answers, with the outcomes of the sends on the new socket.\<close>

definition mc_start :: "(string \<Rightarrow> u16 \<Rightarrow> send_script option) \<Rightarrow> rx list \<Rightarrow> MqttClientTransport \<Rightarrow>
    (GateError option \<times> MqttClientTransport) \<times> rx list" where
  "mc_start dialled rxs t =
     (case parse_broker_uri (mq_broker_uri (mc_cfg t)) of
        None \<Rightarrow> ((Some StoulThrows, t), rxs)
      | Some None \<Rightarrow> (gate_err (MalformedUri (mq_broker_uri (mc_cfg t))) t, rxs)
      | Some (Some (host, port)) \<Rightarrow>
          (case dialled host port of
             None \<Rightarrow> (gate_err (CannotDial host port) (t\<lparr>mc_fd := False\<rparr>), rxs)
           | Some sc \<Rightarrow>
               (case mc_mqtt_connect rxs (t\<lparr>mc_fd := True, mc_script := sc, mc_wire := [], mc_running := True\<rparr>) of
                  ((Some e, t), rxs) \<Rightarrow> ((Some e, t), rxs)
                | ((None, t), rxs) \<Rightarrow> mqtt_subscribe_inbox rxs t)))"

definition mc_stop :: "MqttClientTransport \<Rightarrow> MqttClientTransport" where
  "mc_stop t = (if \<not> mc_running t then t
     else let t = t\<lparr>mc_running := False\<rparr>;
              t = (if mc_fd t then (case mc_script t of
                       (_, SendOk n) # sc \<Rightarrow> t\<lparr>mc_script := sc, mc_wire := mc_wire t @ take n [0xE0, 0x00]\<rparr>
                     | _ \<Rightarrow> t) else t)
          in t\<lparr>mc_fd := False\<rparr>)"

section \<open>Sending\<close>

definition mc_payload :: "u64 \<Rightarrow> MessageFrame \<Rightarrow> byte list" where
  "mc_payload s f = put_u64_be [] s @ encode_frame f"

definition publish_vh :: "string \<Rightarrow> u16 \<Rightarrow> byte list \<Rightarrow> byte list" where
  "publish_vh topic pid payload = put_u16_be (put_str [] topic) pid @ payload"

definition track :: "u16 \<Rightarrow> InFlightPublish \<Rightarrow> MqttClientTransport \<Rightarrow> MqttClientTransport" where
  "track pid e t = (if mc_inflight t pid = None then t\<lparr>mc_inflight := (mc_inflight t)(pid \<mapsto> e)\<rparr> else t)"

text \<open>Answered: the topic and the payload of a PUBLISH the socket has taken whole.\<close>

definition mc_send :: "int \<Rightarrow> u64 \<Rightarrow> MessageFrame \<Rightarrow> MqttClientTransport \<Rightarrow> (string \<times> byte list) option \<times> MqttClientTransport" where
  "mc_send now to f t =
     (case next_seq to t of (s, t) \<Rightarrow>
      (case mc_next_packet_id t of (pid, t) \<Rightarrow>
         let payload = mc_payload s f; topic = mq_topic_prefix (mc_cfg t) @ to_string (unat to); vh = publish_vh topic pid payload;
             t = track pid \<lparr>ifp_vh = vh, ifp_last_sent_at = now, ifp_retry_count = 0\<rparr> t
         in case mc_write_packet 0x32 vh t of
              (True, t) \<Rightarrow> (Some (topic, payload), t\<lparr>mc_frames_sent := mc_frames_sent t + 1\<rparr>)
            | (False, t) \<Rightarrow> (None, t\<lparr>mc_send_errors := mc_send_errors t + 1, mc_inflight := (mc_inflight t)(pid := None)\<rparr>)))"

section \<open>The retry thread\<close>

definition stale :: "int \<Rightarrow> MqttClientTransport \<Rightarrow> InFlightPublish \<Rightarrow> bool" where
  "stale now t e \<longleftrightarrow> \<not> now - ifp_last_sent_at e < mq_puback_timeout_ms (mc_cfg t)"

definition spent :: "MqttClientTransport \<Rightarrow> InFlightPublish \<Rightarrow> bool" where
  "spent t e \<longleftrightarrow> mq_max_publish_retries (mc_cfg t) \<le> ifp_retry_count e"

text \<open>\<open>order\<close> is the order in which the hash table is walked.\<close>

definition to_resend :: "int \<Rightarrow> u16 list \<Rightarrow> MqttClientTransport \<Rightarrow> u16 list" where
  "to_resend now order t = filter (\<lambda>pid. case mc_inflight t pid of None \<Rightarrow> False | Some e \<Rightarrow> stale now t e \<and> \<not> spent t e) order"

definition to_abandon :: "int \<Rightarrow> u16 list \<Rightarrow> MqttClientTransport \<Rightarrow> u16 list" where
  "to_abandon now order t = filter (\<lambda>pid. case mc_inflight t pid of None \<Rightarrow> False | Some e \<Rightarrow> stale now t e \<and> spent t e) order"

definition retry_mark :: "int \<Rightarrow> u16 list \<Rightarrow> MqttClientTransport \<Rightarrow> MqttClientTransport" where
  "retry_mark now order t = t\<lparr>mc_inflight := (\<lambda>pid.
     if pid \<in> set (to_abandon now order t) then None
     else if pid \<in> set (to_resend now order t)
       then map_option (\<lambda>e. e\<lparr>ifp_retry_count := ifp_retry_count e + 1, ifp_last_sent_at := now\<rparr>) (mc_inflight t pid)
     else mc_inflight t pid)\<rparr>"

definition resend :: "byte list \<Rightarrow> MqttClientTransport \<Rightarrow> MqttClientTransport" where
  "resend vh t = (case mc_write_packet 0x3A vh t of
     (True, t) \<Rightarrow> t\<lparr>mc_retransmits := mc_retransmits t + 1\<rparr> | (False, t) \<Rightarrow> t)"

text \<open>One wake-up of \<open>retry_loop\<close>.\<close>

definition retry_scan :: "int \<Rightarrow> u16 list \<Rightarrow> MqttClientTransport \<Rightarrow> MqttClientTransport" where
  "retry_scan now order t =
     (let vhs = map (\<lambda>pid. ifp_vh (the (mc_inflight t pid))) (to_resend now order t);
          dead = of_nat (length (to_abandon now order t));
          t = foldl (\<lambda>t vh. resend vh t) (retry_mark now order t) vhs
      in t\<lparr>mc_gaveup := mc_gaveup t + dead, mc_send_errors := mc_send_errors t + dead\<rparr>)"

section \<open>Receiving\<close>

definition handle_puback :: "Packet \<Rightarrow> MqttClientTransport \<Rightarrow> MqttClientTransport" where
  "handle_puback p t = (if length (body p) < 2 then t
     else t\<lparr>mc_inflight := (mc_inflight t)(be_value (take 2 (body p)) := None)\<rparr>)"

definition no_frame :: MessageFrame where
  "no_frame = \<lparr>mf_from = 0, mf_to = 0, mf_target_type = 0, mf_target_key = 0, mf_msg_type = 0, mf_mode = 0, mf_kind = 0,
     mf_deadline_ns = 0, mf_trace_id = 0, mf_subject = 0, mf_rights = 0, mf_payload = []\<rparr>"

definition resequencer_for :: "u64 \<Rightarrow> MqttClientTransport \<Rightarrow> MessageFrame Resequencer" where
  "resequencer_for from t = (case mc_resequencers t from of Some q \<Rightarrow> q
     | None \<Rightarrow> new_Resequencer no_frame (mq_reorder_window (mc_cfg t)))"

definition resequence :: "u64 \<Rightarrow> MessageFrame \<Rightarrow> MqttClientTransport \<Rightarrow> MessageFrame list \<times> MqttClientTransport" where
  "resequence s f t =
     (case offer (resequencer_for (mf_from f) t) s f of (oc, out, q) \<Rightarrow>
        (if mc_sink t then out else [],
         t\<lparr>mc_resequencers := (mc_resequencers t)(mf_from f \<mapsto> q),
           mc_dupes := (if oc = Duplicate then mc_dupes t + 1 else mc_dupes t)\<rparr>))"

definition pub_qos :: "Packet \<Rightarrow> u8" where
  "pub_qos p = drop_bit 1 (type_flags p) AND 3"

text \<open>The frames handed to the sink, and the new state.\<close>

definition mc_handle_publish :: "Packet \<Rightarrow> MqttClientTransport \<Rightarrow> MessageFrame list \<times> MqttClientTransport" where
  "mc_handle_publish p t =
     (let qos = pub_qos p; b = body p in
      if length b < 2 then ([], t)
      else let pos = 2 + unat (be_value (take 2 b) :: u16) in
      if length b < pos then ([], t)
      else if 0 < qos \<and> length b < pos + 2 then ([], t)
      else
        let pid = (if 0 < qos then be_value (take 2 (drop pos b)) else 0) :: u16;
            pos = (if 0 < qos then pos + 2 else pos);
            t = (if qos = 1 then snd (mc_write_packet 0x40 (put_u16_be [] pid) t) else t)
        in if length b < pos + 8 then ([], t)
           else case decode_frame (drop (pos + 8) b) of
               None \<Rightarrow> ([], t)
             | Some f \<Rightarrow> resequence (be_value (take 8 (drop pos b))) f (t\<lparr>mc_frames_recv := mc_frames_recv t + 1\<rparr>))"

definition mc_on_packet :: "Packet \<Rightarrow> MqttClientTransport \<Rightarrow> MessageFrame list \<times> MqttClientTransport" where
  "mc_on_packet p t = (let type = type_flags p AND 0xF0 in
     if type = 0x30 then mc_handle_publish p t
     else if type = 0x40 then ([], handle_puback p t)
     else ([], t))"

fun mc_receives :: "Packet list \<Rightarrow> MqttClientTransport \<Rightarrow> MessageFrame list \<times> MqttClientTransport" where
  "mc_receives [] t = ([], t)"
| "mc_receives (p # ps) t = (case mc_on_packet p t of (out, t) \<Rightarrow> (case mc_receives ps t of (outs, t) \<Rightarrow> (out @ outs, t)))"

text \<open>The loop of the reader thread: the packets \<open>read_packet\<close> takes off the socket, until one is not whole.\<close>

lemma read_n_bytes: "read_n rxs n = (Some bs, rxs') \<Longrightarrow> length bs = n \<and> rx_bytes rxs = bs @ rx_bytes rxs'"
  using read_n_loop_bytes [of rxs n "[]" bs rxs'] by (auto simp: read_n_def)

lemma read_length_loop_bytes:
  "read_length_loop i rxs m l = (Some len, rxs') \<Longrightarrow> length (rx_bytes rxs') \<le> length (rx_bytes rxs)"
proof (induction i arbitrary: rxs m l)
  case (Suc i)
  then show ?case
    by (auto simp: Let_def split: prod.splits option.splits if_splits dest!: read_n_bytes) fastforce
qed simp

lemma read_packet_bytes:
  assumes "read_packet rxs = (Some p, rxs')"
  shows "length (rx_bytes rxs') < length (rx_bytes rxs)"
  using assms
  by (auto simp: read_packet_def split: prod.splits option.splits dest!: read_n_bytes read_length_loop_bytes)

function mc_reader_packets :: "rx list \<Rightarrow> Packet list" where
  "mc_reader_packets rxs = (case read_packet rxs of (None, _) \<Rightarrow> [] | (Some p, rxs) \<Rightarrow> p # mc_reader_packets rxs)"
  by pat_completeness auto
termination
  by (relation "measure (\<lambda>rxs. length (rx_bytes rxs))") (auto dest!: read_packet_bytes [OF sym])

definition mc_reader_loop :: "rx list \<Rightarrow> MqttClientTransport \<Rightarrow> MessageFrame list \<times> MqttClientTransport" where
  "mc_reader_loop rxs t = mc_receives (mc_reader_packets rxs) t"

section \<open>The transport without a broker\<close>

record NullMqttTransport =
  nm_broker_uri :: string
  gated_sends :: u64

definition nm_start :: "NullMqttTransport \<Rightarrow> string + unit" where
  "nm_start t = Inl (''transport backend not configured (014 gate: no offline broker/gRPC)'' @ '' [mqtt broker: '' @ nm_broker_uri t @ '']'')"

definition nm_send :: "NullMqttTransport \<Rightarrow> NullMqttTransport" where
  "nm_send t = t\<lparr>gated_sends := gated_sends t + 1\<rparr>"


section \<open>From one node to another\<close>

text \<open>
  All frames a node sends to another, with the publications that went out, and what a broker makes of a
  publication: a PUBLISH packet on the same topic with the same payload, under any QoS, DUP and RETAIN
  bits and any packet identifier.
\<close>

type_synonym publication = "string \<times> byte list"

fun mc_sends :: "u64 \<Rightarrow> (int \<times> MessageFrame) list \<Rightarrow> MqttClientTransport \<Rightarrow> publication option list \<times> MqttClientTransport" where
  "mc_sends to [] t = ([], t)"
| "mc_sends to ((now, f) # fs) t = (case mc_send now to f t of (r, t) \<Rightarrow> (case mc_sends to fs t of (rs, t) \<Rightarrow> (r # rs, t)))"

fun relays :: "publication \<Rightarrow> Packet \<Rightarrow> bool" where
  "relays (topic, payload) p \<longleftrightarrow> type_flags p AND 0xF0 = 0x30 \<and> length topic < 65536 \<and>
     (\<exists>pid :: u16. body p = put_str [] topic @ (if pub_qos p = 0 then [] else be_bytes 2 pid) @ payload)"

definition seq_of :: "u64 \<Rightarrow> MqttClientTransport \<Rightarrow> u64" where
  "seq_of to t = (case mc_next_seq t to of None \<Rightarrow> 0 | Some s \<Rightarrow> s)"

lemma mc_write_packet_keeps:
  assumes "mc_write_packet tf bs t = (ok, t')"
  shows "mc_next_seq t' = mc_next_seq t" "mc_resequencers t' = mc_resequencers t" "mc_sink t' = mc_sink t" "mc_cfg t' = mc_cfg t"
    "mc_inflight t' = mc_inflight t" "mc_frames_recv t' = mc_frames_recv t"
  using assms by (auto simp: mc_write_packet_def split: if_splits prod.splits)

lemma mc_send_seq:
  assumes "mc_send now to f t = (r, t')"
  shows "r = None \<or> (\<exists>topic. r = Some (topic, mc_payload (seq_of to t) f))" "seq_of to t' = seq_of to t + 1"
proof -
  obtain s t1 where 1: "next_seq to t = (s, t1)" by fastforce
  obtain pid t2 where 2: "mc_next_packet_id t1 = (pid, t2)" by fastforce
  let ?topic = "mq_topic_prefix (mc_cfg t2) @ to_string (unat to)"
  let ?t3 = "track pid \<lparr>ifp_vh = publish_vh ?topic pid (mc_payload s f), ifp_last_sent_at = now, ifp_retry_count = 0\<rparr> t2"
  obtain ok t4 where 4: "mc_write_packet 0x32 (publish_vh ?topic pid (mc_payload s f)) ?t3 = (ok, t4)" by fastforce
  have s: "s = seq_of to t" "mc_next_seq t1 to = Some (s + 1)" using 1 by (auto simp: next_seq_def seq_of_def Let_def)
  have "mc_next_seq t4 = mc_next_seq t1"
    using mc_write_packet_keeps(1) [OF 4] 2 by (auto simp: mc_next_packet_id_def track_def Let_def split: if_splits)
  moreover have "mc_next_seq t' = mc_next_seq t4" "r = (if ok then Some (?topic, mc_payload s f) else None)"
    using assms 1 2 4 by (auto simp: mc_send_def Let_def split: bool.splits)
  ultimately show "r = None \<or> (\<exists>topic. r = Some (topic, mc_payload (seq_of to t) f))" "seq_of to t' = seq_of to t + 1"
    using s by (auto simp: seq_of_def)
qed

text \<open>The publication of the \<open>i\<close>-th frame carries the \<open>i\<close>-th sequence number, whatever failed before it.\<close>

lemma mc_sends_payloads:
  assumes "mc_sends to sends t = (pubs, t')"
  shows "length pubs = length sends \<and> (\<forall>i < length sends. pubs ! i = None \<or>
    (\<exists>topic. pubs ! i = Some (topic, mc_payload (seq_of to t + of_nat i) (snd (sends ! i)))))"
  using assms
proof (induction sends arbitrary: t pubs)
  case (Cons x sends)
  obtain now f where x: "x = (now, f)" by fastforce
  obtain r t1 where 1: "mc_send now to f t = (r, t1)" by fastforce
  obtain rs where 2: "mc_sends to sends t1 = (rs, t')" "pubs = r # rs"
    using Cons.prems x 1 by (auto split: prod.splits)
  note IH = Cons.IH [OF 2(1)] and s = mc_send_seq [OF 1]
  have "pubs ! i = None \<or> (\<exists>topic. pubs ! i = Some (topic, mc_payload (seq_of to t + of_nat i) (snd ((x # sends) ! i))))"
    if "i < length (x # sends)" for i
    using that IH s x 2(2) by (cases i) (auto simp: add.assoc)
  then show ?case using IH 2(2) by simp
qed simp

lemma be_bytes_2_value: "be_value (be_bytes 2 (w :: u16)) = w" "be_value (be_bytes 8 (s :: u64)) = s"
  by (rule be_value_be_bytes, simp)+

text \<open>A relayed publication is put through the resequencer of its source, whatever else the handler does.\<close>

lemma on_relayed:
  assumes "relays (topic, mc_payload s f) p" "length (mf_payload f) < 2 ^ 32"
  shows "\<exists>t1. mc_on_packet p t = resequence s f t1 \<and> mc_resequencers t1 = mc_resequencers t \<and> mc_sink t1 = mc_sink t \<and> mc_cfg t1 = mc_cfg t"
proof -
  obtain pid :: u16 where b: "body p = put_str [] topic @ (if pub_qos p = 0 then [] else be_bytes 2 pid) @ put_u64_be [] s @ encode_frame f"
    and len: "length topic < 65536" and ty: "type_flags p AND 0xF0 = 0x30"
    using assms(1) by (auto simp: mc_payload_def)
  have l: "unat (of_nat (length topic) :: u16) = length topic" using len by (simp add: unat_of_nat)
  define pos where "pos = 2 + length topic + (if pub_qos p = 0 then 0 else 2)"
  have h: "take 2 (body p) = be_bytes 2 (of_nat (length topic) :: u16)" "2 \<le> length (body p)"
    "2 + length topic + (if 0 < pub_qos p then 2 else 0) \<le> length (body p)"
    using b by (auto simp: put_str_def put_u16_be_def)
  have "drop pos (body p) = be_bytes 8 s @ encode_frame f"
    using b by (auto simp: put_str_def put_u16_be_def put_u64_be_def pos_def)
  then have d: "take 8 (drop pos (body p)) = be_bytes 8 s" "drop (pos + 8) (body p) = encode_frame f"
    using drop_drop [of 8 pos "body p"] by (simp_all add: add.commute)
  have d': "pos + 8 \<le> length (body p)" using b by (auto simp: put_str_def put_u16_be_def put_u64_be_def pos_def)
  have dec: "decode_frame (encode_frame f) = Some f" using decode_encode_frame [OF assms(2), of "[]"] by simp
  define t0 where "t0 = (if pub_qos p = 1 then snd (mc_write_packet 0x40 (put_u16_be [] (if 0 < pub_qos p then be_value (take 2 (drop (2 + length topic) (body p))) else 0)) t) else t)"
  have "mc_resequencers t0 = mc_resequencers t \<and> mc_sink t0 = mc_sink t \<and> mc_cfg t0 = mc_cfg t"
    unfolding t0_def using mc_write_packet_keeps(2-4) [OF surjective_pairing] by simp
  moreover have "mc_on_packet p t = resequence s f (t0\<lparr>mc_frames_recv := mc_frames_recv t0 + 1\<rparr>)"
    using h d d' dec l
    by (simp add: mc_on_packet_def ty mc_handle_publish_def Let_def be_bytes_2_value pos_def t0_def word_gt_0 split: if_splits)
  ultimately show ?thesis by (intro exI [of _ "t0\<lparr>mc_frames_recv := mc_frames_recv t0 + 1\<rparr>"]) simp
qed

definition carries :: "MessageFrame Sequenced \<Rightarrow> Packet \<Rightarrow> bool" where
  "carries x p \<longleftrightarrow> (\<exists>topic. relays (topic, mc_payload (sq_seq x) (sq_value x)) p)"

lemma receives_offers:
  assumes "list_all2 carries xs ps" "\<forall>x \<in> set xs. mf_from (sq_value x) = a \<and> length (mf_payload (sq_value x)) < 2 ^ 32" "mc_sink t"
  shows "fst (mc_receives ps t) = fst (snd (offer_all (resequencer_for a t) xs))"
  using assms
proof (induction xs ps arbitrary: t rule: list_all2_induct)
  case (Cons x xs p ps)
  let ?s = "sq_seq x" and ?f = "sq_value x"
  obtain t1 where 1: "mc_on_packet p t = resequence ?s ?f t1" "mc_resequencers t1 = mc_resequencers t" "mc_sink t1" "mc_cfg t1 = mc_cfg t"
    using on_relayed Cons.hyps(1) Cons.prems by (auto simp: carries_def) metis
  have q: "resequencer_for (mf_from ?f) t1 = resequencer_for a t" using 1 Cons.prems by (simp add: resequencer_for_def cong: option.case_cong)
  obtain oc out q1 where o: "offer (resequencer_for a t) ?s ?f = (oc, out, q1)" by (metis prod_cases3)
  define t2 where "t2 = snd (resequence ?s ?f t1)"
  have 2: "mc_on_packet p t = (out, t2)" "mc_sink t2" "resequencer_for a t2 = q1"
    using 1 q o Cons.prems by (auto simp: resequence_def t2_def resequencer_for_def split: option.splits)
  have "fst (mc_receives ps t2) = fst (snd (offer_all (resequencer_for a t2) xs))"
    using Cons.IH [OF _ 2(2)] Cons.prems by simp
  then show ?case using 2 o by (auto split: prod.splits)
qed simp


section \<open>Retransmission\<close>

lemma resend_keeps: "mc_inflight (resend vh t) = mc_inflight t" "mc_cfg (resend vh t) = mc_cfg t"
proof -
  obtain ok t1 where "mc_write_packet 0x3A vh t = (ok, t1)" by fastforce
  then show "mc_inflight (resend vh t) = mc_inflight t" "mc_cfg (resend vh t) = mc_cfg t"
    using mc_write_packet_keeps [of "0x3A" vh t ok t1] by (simp_all add: resend_def split: bool.splits)
qed

lemma resends_keep: "mc_inflight (foldl (\<lambda>t vh. resend vh t) t vhs) = mc_inflight t \<and> mc_cfg (foldl (\<lambda>t vh. resend vh t) t vhs) = mc_cfg t"
  by (induction vhs arbitrary: t) (simp_all add: resend_keeps)

lemma retry_scan_keeps:
  "mc_inflight (retry_scan now order t) = mc_inflight (retry_mark now order t)" "mc_cfg (retry_scan now order t) = mc_cfg t"
  using resends_keep [of "retry_mark now order t"] by (simp_all add: retry_scan_def Let_def) (simp add: retry_mark_def)

text \<open>What one wake-up does with a publication, and what many do.\<close>

lemma retry_scan_entry:
  assumes "mc_inflight t pid = Some e" "pid \<in> set order"
  shows "mc_inflight (retry_scan now order t) pid =
      (if \<not> stale now t e then Some e else if spent t e then None
       else Some (e\<lparr>ifp_retry_count := ifp_retry_count e + 1, ifp_last_sent_at := now\<rparr>))"
    and "pid \<in> set (to_resend now order t) \<longleftrightarrow> stale now t e \<and> \<not> spent t e"
  using assms by (auto simp: retry_scan_keeps retry_mark_def to_resend_def to_abandon_def)

fun retry_scans :: "(int \<times> u16 list) list \<Rightarrow> MqttClientTransport \<Rightarrow> u16 list list \<times> MqttClientTransport" where
  "retry_scans [] t = ([], t)"
| "retry_scans ((now, order) # ss) t = (case retry_scans ss (retry_scan now order t) of (rs, t') \<Rightarrow> (to_resend now order t # rs, t'))"

definition resent :: "u16 \<Rightarrow> u16 list list \<Rightarrow> nat" where
  "resent pid rs = length (filter (\<lambda>r. pid \<in> set r) rs)"

lemma retry_scan_none:
  assumes "mc_inflight t pid = None"
  shows "mc_inflight (retry_scan now order t) pid = None" "pid \<notin> set (to_resend now order t)"
  using assms by (auto simp: retry_scan_keeps retry_mark_def to_resend_def)

lemma retry_scans_none:
  "mc_inflight t pid = None \<Longrightarrow> retry_scans ss t = (rs, t') \<Longrightarrow> resent pid rs = 0 \<and> mc_inflight t' pid = None"
proof (induction ss arbitrary: t rs)
  case (Cons x ss)
  obtain now order where x: "x = (now, order)" by fastforce
  obtain rs1 where "retry_scans ss (retry_scan now order t) = (rs1, t')" "rs = to_resend now order t # rs1"
    using Cons.prems(2) x by (auto split: prod.splits)
  then show ?case
    using Cons.IH [OF retry_scan_none(1) [OF Cons.prems(1), of now order]] retry_scan_none(2) [OF Cons.prems(1)] by (simp add: resent_def)
qed (simp add: resent_def)

definition left :: "MqttClientTransport \<Rightarrow> InFlightPublish \<Rightarrow> nat" where
  "left t e = nat (mq_max_publish_retries (mc_cfg t) - ifp_retry_count e)"

lemma retry_scans_bound:
  assumes "mc_inflight t pid = Some e" "\<forall>(now, order) \<in> set ss. pid \<in> set order" "retry_scans ss t = (rs, t')"
  shows "resent pid rs \<le> left t e \<and> (mc_inflight t' pid = None \<longrightarrow> resent pid rs = left t e)"
  using assms
proof (induction ss arbitrary: t rs e)
  case (Cons x ss)
  obtain now order where x: "x = (now, order)" by fastforce
  let ?t1 = "retry_scan now order t"
  obtain rs1 where r: "retry_scans ss ?t1 = (rs1, t')" "rs = to_resend now order t # rs1"
    using Cons.prems(3) x by (auto split: prod.splits)
  have o: "pid \<in> set order" using Cons.prems(2) x by simp
  note entry = retry_scan_entry [OF Cons.prems(1) o, of now]
  have same: "left ?t1 e' = left t e'" for e' by (simp add: left_def retry_scan_keeps)
  consider (fresh) "\<not> stale now t e" | (dead) "stale now t e" "spent t e" | (again) "stale now t e" "\<not> spent t e" by blast
  then show ?case
  proof cases
    case fresh
    then show ?thesis using Cons.IH [of ?t1 e rs1] Cons.prems(2) entry r same by (simp add: resent_def)
  next
    case dead
    then have "mc_inflight ?t1 pid = None" using entry by simp
    then show ?thesis using retry_scans_none [OF _ r(1)] dead entry r(2) by (simp add: resent_def left_def spent_def)
  next
    case again
    let ?e = "e\<lparr>ifp_retry_count := ifp_retry_count e + 1, ifp_last_sent_at := now\<rparr>"
    have "left t e = Suc (left t ?e)" using again(2) by (simp add: left_def spent_def)
    then show ?thesis using Cons.IH [of ?t1 ?e rs1] Cons.prems(2) again entry r same by (simp add: resent_def)
  qed
qed (simp add: resent_def)

fun spaced :: "int \<Rightarrow> int \<Rightarrow> (int \<times> u16 list) list \<Rightarrow> bool" where
  "spaced gap prev [] \<longleftrightarrow> True"
| "spaced gap prev ((now, order) # ss) \<longleftrightarrow> prev + gap \<le> now \<and> spaced gap now ss"

lemma retry_scans_give_up:
  assumes "mc_inflight t pid = Some e" "\<forall>(now, order) \<in> set ss. pid \<in> set order" "retry_scans ss t = (rs, t')"
    and "spaced (mq_puback_timeout_ms (mc_cfg t)) (ifp_last_sent_at e) ss" "left t e < length ss"
  shows "mc_inflight t' pid = None"
  using assms
proof (induction ss arbitrary: t rs e)
  case (Cons x ss)
  obtain now order where x: "x = (now, order)" by fastforce
  let ?t1 = "retry_scan now order t" and ?e = "e\<lparr>ifp_retry_count := ifp_retry_count e + 1, ifp_last_sent_at := now\<rparr>"
  obtain rs1 where r: "retry_scans ss ?t1 = (rs1, t')" using Cons.prems(3) x by (auto split: prod.splits)
  have st: "stale now t e" using Cons.prems(4) x by (simp add: stale_def)
  note entry = retry_scan_entry [OF Cons.prems(1), of order now]
  show ?case
  proof (cases "spent t e")
    case True
    then have "mc_inflight ?t1 pid = None" using entry st Cons.prems(2) x by simp
    then show ?thesis using retry_scans_none [OF _ r] by simp
  next
    case False
    have "left t e = Suc (left ?t1 ?e)" using False by (simp add: left_def spent_def retry_scan_keeps)
    moreover have "mc_inflight ?t1 pid = Some ?e" using entry st False Cons.prems(2) x by simp
    ultimately show ?thesis using Cons.IH [OF _ _ r] Cons.prems(2,4,5) x by (simp add: retry_scan_keeps)
  qed
qed simp

lemma sends_nth:
  "\<forall>(now, f) \<in> set sends. P f \<Longrightarrow> i < length sends \<Longrightarrow> P (snd (sends ! i))"
  by (metis case_prod_beta nth_mem)

lemma other_frame: "\<exists>g. g \<noteq> (f :: MessageFrame)"
proof -
  have "f\<lparr>mf_from := mf_from f + 1\<rparr> \<noteq> f" by (cases f) simp
  then show ?thesis by blast
qed

lemma relayed_carries:
  assumes "mc_sends to sends (t\<lparr>mc_next_seq := Map.empty\<rparr>) = (pubs, t1)" "i < length pubs" "pubs ! i \<noteq> None" "relays (the (pubs ! i)) p"
  shows "carries \<lparr>sq_seq = of_nat i, sq_value = snd (sends ! i)\<rparr> p"
proof -
  have "i < length sends" using mc_sends_payloads [OF assms(1)] assms(2) by simp
  then obtain topic where "pubs ! i = Some (topic, mc_payload (of_nat i) (snd (sends ! i)))"
    using mc_sends_payloads [OF assms(1)] assms(3) by (auto simp: seq_of_def)
  then show ?thesis using assms(4) by (auto simp: carries_def simp del: relays.simps)
qed

section \<open>Properties\<close>

text \<open>
  C3: Frames cross a broker exactly once and in order. When every publication of a node to another is
  written, and the broker hands each to the receiver at least once, in any order in which none is a
  window or more ahead of one still missing, with any repetitions and any QoS bits and packet
  identifiers, the receiver hands up exactly the frames sent, in sending order.
\<close>

theorem mqtt_link_exactly_once:
  assumes "mc_sends to sends (t\<lparr>mc_next_seq := Map.empty\<rparr>) = (pubs, t1)" "None \<notin> set pubs"
    and "\<forall>(now, f) \<in> set sends. mf_from f = a \<and> length (mf_payload f) < 2 ^ 32"
    and "list_all2 (\<lambda>i p. i < length pubs \<and> relays (the (pubs ! i)) p) is ps" "set is = {..<length sends}"
    and "mc_sink r" "mc_resequencers r a = None" "mq_reorder_window (mc_cfg r) \<noteq> 0"
    and "length sends + unat (mq_reorder_window (mc_cfg r)) < 2 ^ 64"
    and "displaced_ok (unat (mq_reorder_window (mc_cfg r))) {} (map (\<lambda>i. \<lparr>sq_seq = of_nat i, sq_value = snd (sends ! i)\<rparr>) is)"
  shows "fst (mc_receives ps r) = map snd sends"
proof -
  let ?vs = "map snd sends" and ?x = "\<lambda>i. \<lparr>sq_seq = of_nat i, sq_value = snd (sends ! i)\<rparr>" and ?w = "mq_reorder_window (mc_cfg r)"
  let ?q = "new_Resequencer no_frame ?w"
  have len: "length pubs = length sends" using mc_sends_payloads [OF assms(1)] by simp
  have whole: "pubs ! i \<noteq> None" if "i < length pubs" for i using assms(2) nth_mem [OF that] by metis
  have w: "rq_window ?q = ?w" using assms(8) by (simp add: new_Resequencer_def Let_def)
  have c: "list_all2 carries (map ?x is) ps"
    unfolding list_all2_map1 using assms(4) by (rule list_all2_mono) (metis relayed_carries [OF assms(1)] whole)
  have "\<forall>x \<in> set (map ?x is). mf_from (sq_value x) = a \<and> length (mf_payload (sq_value x)) < 2 ^ 32"
    using sends_nth [OF assms(3)] assms(5) by auto
  from receives_offers [OF c this assms(6)] have "fst (mc_receives ps r) = fst (snd (offer_all ?q (map ?x is)))"
    using assms(7) by (simp add: resequencer_for_def)
  moreover have "set (map ?x is) = set (stamp_all \<lparr>st_next = 0\<rparr> ?vs)"
    using stamp_all_eq [of ?vs 0] assms(5,9) by (auto simp: image_def)
  ultimately show ?thesis
    using resequencer_exactly_once [of ?vs no_frame ?w "map ?x is"] assms(9,10) w by simp
qed

text \<open>What the retry thread may send again after a sequence of sends: only publications the socket took whole.\<close>

lemma mc_send_inflight:
  assumes "mc_send now to f t = (r, t')" "mc_inflight t' pid = Some e"
  shows "mc_inflight t pid = Some e \<or> (\<exists>topic payload. r = Some (topic, payload) \<and> ifp_vh e = publish_vh topic pid payload)"
  using assms
  by (auto simp: mc_send_def next_seq_def mc_next_packet_id_def track_def mc_write_packet_def Let_def split: prod.splits if_splits bool.splits)

lemma mc_sends_inflight:
  assumes "mc_sends to sends t = (pubs, t')" "mc_inflight t' pid = Some e"
  shows "mc_inflight t pid = Some e \<or> (\<exists>topic payload. Some (topic, payload) \<in> set pubs \<and> ifp_vh e = publish_vh topic pid payload)"
  using assms(1)
proof (induction sends arbitrary: t pubs)
  case (Cons x sends)
  obtain now f where x: "x = (now, f)" by fastforce
  obtain r t1 where 1: "mc_send now to f t = (r, t1)" by fastforce
  obtain rs where 2: "mc_sends to sends t1 = (rs, t')" "pubs = r # rs"
    using Cons.prems x 1 by (auto split: prod.splits)
  show ?case using Cons.IH [OF 2(1)] mc_send_inflight [OF 1, of pid e] unfolding 2(2) by auto
qed (use assms(2) in simp)

text \<open>
  C39: One failed write stops the link for good. When the socket does not take the publication of a frame
  whole, the frame keeps the sequence number it took but is not tracked: all the retry thread may send again
  are publications that were taken whole. So when the broker relays only such publications, whatever else is
  sent and however often and in whatever order they are relayed, the receiver hands up none of the frames
  from the failed one on.
\<close>

theorem mqtt_gap_stalls_link:
  assumes "mc_sends to sends (t\<lparr>mc_next_seq := Map.empty\<rparr>) = (pubs, t1)" "mc_inflight t = Map.empty"
    and "gap < length sends" "pubs ! gap = None"
    and "\<forall>(now, f) \<in> set sends. mf_from f = a \<and> length (mf_payload f) < 2 ^ 32"
    and "list_all2 (\<lambda>i p. i < length pubs \<and> pubs ! i \<noteq> None \<and> relays (the (pubs ! i)) p) is ps"
    and "mc_sink r" "mc_resequencers r a = None" "mq_reorder_window (mc_cfg r) \<noteq> 0"
    and "length sends + unat (mq_reorder_window (mc_cfg r)) < 2 ^ 64"
  shows "(\<exists>n \<le> gap. fst (mc_receives ps r) = take n (map snd sends)) \<and>
    (\<forall>pid e. mc_inflight t1 pid = Some e \<longrightarrow>
       (\<exists>i < length pubs. \<exists>topic payload. i \<noteq> gap \<and> pubs ! i = Some (topic, payload) \<and> ifp_vh e = publish_vh topic pid payload))"
proof -
  let ?vs = "map snd sends" and ?x = "\<lambda>i. \<lparr>sq_seq = of_nat i, sq_value = snd (sends ! i)\<rparr>" and ?w = "mq_reorder_window (mc_cfg r)"
  let ?q = "new_Resequencer no_frame ?w"
  obtain g where g: "g \<noteq> snd (sends ! gap)" using other_frame by blast
  have len: "length pubs = length sends" using mc_sends_payloads [OF assms(1)] by simp
  have w: "rq_window ?q = ?w" using assms(9) by (simp add: new_Resequencer_def Let_def)
  have c: "list_all2 carries (map ?x is) ps"
    unfolding list_all2_map1 using assms(6) by (rule list_all2_mono) (blast intro: relayed_carries [OF assms(1)])
  have idx: "\<forall>i \<in> set is. i < length sends \<and> i \<noteq> gap" 
    using assms(4,6) len by (fastforce simp: list_all2_conv_all_nth in_set_conv_nth simp del: relays.simps)
  have "\<forall>x \<in> set (map ?x is). mf_from (sq_value x) = a \<and> length (mf_payload (sq_value x)) < 2 ^ 32"
    using sends_nth [OF assms(5)] idx by auto
  from receives_offers [OF c this assms(7)] have out: "fst (mc_receives ps r) = fst (snd (offer_all ?q (map ?x is)))"
    using assms(8) by (simp add: resequencer_for_def)
  have sub: "set (map ?x is) \<subseteq> set (stamp_all \<lparr>st_next = 0\<rparr> vs)" if "length vs = length sends" "\<forall>i < length sends. i \<noteq> gap \<longrightarrow> vs ! i = snd (sends ! i)" for vs
  proof
    fix x assume "x \<in> set (map ?x is)"
    then obtain i where i: "x = ?x i" "i < length sends" "i \<noteq> gap" using idx by auto
    then have "x = \<lparr>sq_seq = of_nat i, sq_value = vs ! i\<rparr>" using that(2) by simp
    then show "x \<in> set (stamp_all \<lparr>st_next = 0\<rparr> vs)" using stamp_all_from_stream(2) [of vs i] i(2) that(1) assms(10) by simp
  qed
  obtain n where n: "n \<le> length ?vs" "fst (mc_receives ps r) = take n ?vs"
    using resequencer_prefix_order [of ?vs no_frame ?w "map ?x is"] sub [of ?vs] assms(10) w out by auto
  obtain m where m: "fst (mc_receives ps r) = take m (?vs[gap := g])"
    using resequencer_prefix_order [of "?vs[gap := g]" no_frame ?w "map ?x is"] sub [of "?vs[gap := g]"] assms(10) w out by auto
  have "n \<le> gap"
  proof (rule ccontr)
    assume a: "\<not> n \<le> gap"
    have "length (take n ?vs) = length (take m (?vs[gap := g]))" using n(2) m by simp
    then have "gap < m" using a assms(3) n(1) by (auto simp: min_def split: if_splits)
    then have "take m (?vs[gap := g]) ! gap = g" "take n ?vs ! gap = snd (sends ! gap)" using a assms(3) by simp_all
    then show False using n(2) m g by simp
  qed
  moreover have "\<exists>i < length pubs. \<exists>topic payload. i \<noteq> gap \<and> pubs ! i = Some (topic, payload) \<and> ifp_vh e = publish_vh topic pid payload"
    if "mc_inflight t1 pid = Some e" for pid e
    using mc_sends_inflight [OF assms(1) that] assms(2,4) by (fastforce simp: in_set_conv_nth)
  ultimately show ?thesis using n(2) by blast
qed

text \<open>
  C29: An unacknowledged publication is sent at most once more than the configured number of retries, and
  then given up. Over any wake-ups of the retry thread without its PUBACK, a publication just sent is
  resent at most the configured number of times, exactly that often when it is given up, and after that
  many wake-ups and one more, each a timeout after the one before, it is given up.
\<close>

theorem publish_attempts_bounded:
  assumes "mc_inflight t pid = Some e" "ifp_retry_count e = 0" "0 \<le> mq_max_publish_retries (mc_cfg t)"
    and "\<forall>(now, order) \<in> set ss. pid \<in> set order" "retry_scans ss t = (rs, t')"
  shows "resent pid rs \<le> nat (mq_max_publish_retries (mc_cfg t)) \<and>
    (mc_inflight t' pid = None \<longrightarrow> resent pid rs = nat (mq_max_publish_retries (mc_cfg t))) \<and>
    (spaced (mq_puback_timeout_ms (mc_cfg t)) (ifp_last_sent_at e) ss \<and> nat (mq_max_publish_retries (mc_cfg t)) < length ss
      \<longrightarrow> mc_inflight t' pid = None)"
  using retry_scans_bound [OF assms(1,4,5)] retry_scans_give_up [OF assms(1,4,5)] assms(2) by (simp add: left_def)


definition link_config :: MqttConfig where
  "link_config = \<lparr>mq_broker_uri = ''tcp://h:1883'', mq_qos = 1, mq_topic_prefix = ''x/'', mq_reorder_window = 4,
     mq_puback_timeout_ms = 3000, mq_max_publish_retries = 1, mq_retry_check_interval_ms = 250\<rparr>"

definition link_node :: "u64 \<Rightarrow> send_script \<Rightarrow> MqttClientTransport" where
  "link_node self sc = (new_MqttClientTransport self link_config)\<lparr>mc_fd := True, mc_running := True, mc_sink := True, mc_script := sc\<rparr>"

definition relayed :: "u64 \<Rightarrow> MessageFrame \<Rightarrow> Packet" where
  "relayed s f = \<lparr>type_flags = 0x30, body = put_str [] ''x/2'' @ mc_payload s f\<rparr>"

lemma write_packet_room:
  assumes "length bs + 5 \<le> n" "length bs < 128 ^ 4"
  shows "write_packet ((c, SendOk n) # sc) w tf bs = (True, sc, w @ serialize_packet tf bs)"
proof -
  let ?p = "\<lparr>type_flags = tf, body = bs\<rparr> :: Packet"
  have "length (varint (of_nat (length bs))) \<le> 4" using length_varint [of "of_nat (length bs)" 3] unat_of_nat_varint [OF assms(2)] assms(2) by simp
  then have l: "length (serialize_packet tf bs) \<le> n" using assms(1) packet_bytes_eq [of ?p] by (simp add: packet_bytes_def)
  have "serialize_packet tf bs \<noteq> []" using packet_bytes_not_Nil [of ?p] by (simp add: packet_bytes_def)
  then show ?thesis using l by (simp add: write_packet_def write_loop.simps)
qed

lemma relays_relayed: "relays (''x/2'', mc_payload s f) (relayed s f)"
  by (simp add: relayed_def pub_qos_def)

lemma mc_send_room:
  assumes "mc_fd t" "mc_script t = (c, SendOk 200) # sc" "mc_cfg t = link_config" "length (mf_payload f) < 10"
  shows "\<exists>t'. mc_send now 2 f t = (Some (''x/2'', mc_payload (seq_of 2 t) f), t') \<and> mc_fd t' \<and> mc_script t' = sc \<and> mc_cfg t' = link_config \<and>
    seq_of 2 t' = seq_of 2 t + 1"
proof -
  obtain r t' where r: "mc_send now 2 f t = (r, t')" by fastforce
  have two: "to_string 2 = ''2''" by code_simp
  have len: "length (publish_vh ''x/2'' pid (mc_payload s f)) + 5 \<le> 200" "length (publish_vh ''x/2'' pid (mc_payload s f)) < 128 ^ 4" for pid s
    using assms(4) by (simp_all add: publish_vh_def mc_payload_def put_u64_be_def put_u16_be_def put_str_def encode_frame_length kFrameHeaderBytes_def)
  have "r = Some (''x/2'', mc_payload (seq_of 2 t) f) \<and> mc_fd t' \<and> mc_script t' = sc \<and> mc_cfg t' = link_config"
    using r assms(1-3) write_packet_room [OF len]
    by (auto simp: mc_send_def next_seq_def mc_next_packet_id_def track_def Let_def two link_config_def mc_write_packet_def seq_of_def split: if_splits)
  then show ?thesis using r mc_send_seq(2) [OF r] by simp
qed

theorem mqtt_link_exactly_once_witness:
  "fst (mc_receives [relayed 1 (frame_example [2]), relayed 0 (frame_example [1]), relayed 1 (frame_example [2])] (link_node 2 []))
     = [frame_example [1], frame_example [2]]"
proof -
  let ?t = "link_node 1 [(0, SendOk 200), (0, SendOk 200)]" and ?r = "link_node 2 []"
  let ?sends = "[(0, frame_example [1]), (0, frame_example [2])]"
  have fresh: "?t\<lparr>mc_next_seq := Map.empty\<rparr> = ?t" by (simp add: link_node_def new_MqttClientTransport_def)
  have t: "mc_fd ?t" "mc_script ?t = [(0, SendOk 200), (0, SendOk 200)]" "mc_cfg ?t = link_config" "seq_of 2 ?t = 0"
    by (simp_all add: link_node_def new_MqttClientTransport_def seq_of_def)
  have short: "length (mf_payload (frame_example [b])) < 10" "mf_from (frame_example [b]) = 1" "length (mf_payload (frame_example [b])) = 1" for b
    by (simp_all add: frame_example_def)
  obtain t1 where 1: "mc_send 0 2 (frame_example [1]) ?t = (Some (''x/2'', mc_payload 0 (frame_example [1])), t1)"
      "mc_fd t1" "mc_script t1 = [(0, SendOk 200)]" "mc_cfg t1 = link_config" "seq_of 2 t1 = 1"
    using mc_send_room [OF t(1,2,3) short(1)] t(4) by auto
  obtain t2 where 2: "mc_send 0 2 (frame_example [2]) t1 = (Some (''x/2'', mc_payload 1 (frame_example [2])), t2)"
    using mc_send_room [OF 1(2,3,4) short(1)] 1(5) by auto
  have s: "mc_sends 2 ?sends (?t\<lparr>mc_next_seq := Map.empty\<rparr>)
      = ([Some (''x/2'', mc_payload 0 (frame_example [1])), Some (''x/2'', mc_payload 1 (frame_example [2]))], t2)"
    unfolding fresh using 1(1) 2 by simp
  have r: "mc_sink ?r" "mc_resequencers ?r 1 = None" "mq_reorder_window (mc_cfg ?r) = 4"
    by (simp_all add: link_node_def new_MqttClientTransport_def link_config_def)
  show ?thesis
    using mqtt_link_exactly_once [OF s, of 1 "[1, 0, 1]" "[relayed 1 (frame_example [2]), relayed 0 (frame_example [1]), relayed 1 (frame_example [2])]" ?r]
      r short(2,3) relays_relayed by (auto simp: insert_commute less_Suc_eq lessThan_Suc simp del: relays.simps mc_receives.simps)
qed

theorem mqtt_gap_stalls_link_witness:
  "fst (mc_receives [relayed 1 (frame_example [2]), relayed 1 (frame_example [2])] (link_node 2 [])) = []"
proof -
  let ?t = "link_node 1 [(0, SendError), (0, SendOk 200)]" and ?r = "link_node 2 []"
  let ?sends = "[(0, frame_example [1]), (0, frame_example [2])]"
  have fresh: "?t\<lparr>mc_next_seq := Map.empty\<rparr> = ?t" by (simp add: link_node_def new_MqttClientTransport_def)
  have short: "length (mf_payload (frame_example [b])) < 10" "mf_from (frame_example [b]) = 1" "length (mf_payload (frame_example [b])) = 1" for b
    by (simp_all add: frame_example_def)
  have ne: "serialize_packet tf bs \<noteq> []" for tf bs
    using packet_bytes_not_Nil [of "\<lparr>type_flags = tf, body = bs\<rparr>"] by (simp add: packet_bytes_def)
  obtain t1 where 1: "mc_send 0 2 (frame_example [1]) ?t = (None, t1)" "mc_fd t1" "mc_script t1 = [(0, SendOk 200)]" "mc_cfg t1 = link_config" "seq_of 2 t1 = 1"
    by (auto simp: mc_send_def next_seq_def mc_next_packet_id_def track_def Let_def link_node_def new_MqttClientTransport_def mc_write_packet_def
        seq_of_def write_packet_def write_loop.simps ne)
  obtain t2 where 2: "mc_send 0 2 (frame_example [2]) t1 = (Some (''x/2'', mc_payload 1 (frame_example [2])), t2)"
    using mc_send_room [OF 1(2,3,4) short(1)] 1(5) by auto
  have s: "mc_sends 2 ?sends (?t\<lparr>mc_next_seq := Map.empty\<rparr>) = ([None, Some (''x/2'', mc_payload 1 (frame_example [2]))], t2)"
    unfolding fresh using 1(1) 2 by simp
  have r: "mc_sink ?r" "mc_resequencers ?r 1 = None" "mq_reorder_window (mc_cfg ?r) = 4"
    by (simp_all add: link_node_def new_MqttClientTransport_def link_config_def)
  have "mc_inflight ?t = Map.empty" by (simp add: link_node_def new_MqttClientTransport_def)
  then show ?thesis
    using mqtt_gap_stalls_link [OF s, of 0 1 "[1, 1]" "[relayed 1 (frame_example [2]), relayed 1 (frame_example [2])]" ?r] r short(2,3) relays_relayed
    by (auto simp del: relays.simps mc_receives.simps)
qed

theorem publish_attempts_bounded_witness:
  "resent 1 (fst (retry_scans [(3000, [1]), (6000, [1])] ((link_node 1 [])\<lparr>mc_inflight :=
     [1 \<mapsto> \<lparr>ifp_vh = [], ifp_last_sent_at = 0, ifp_retry_count = 0\<rparr>]\<rparr>))) = 1"
proof -
  let ?e = "\<lparr>ifp_vh = [], ifp_last_sent_at = 0, ifp_retry_count = 0\<rparr>" and ?ss = "[(3000, [1]), (6000, [1 :: u16])]"
  let ?t = "(link_node 1 [])\<lparr>mc_inflight := [1 \<mapsto> ?e]\<rparr>"
  obtain rs t' where r: "retry_scans ?ss ?t = (rs, t')" by fastforce
  have "mq_max_publish_retries (mc_cfg ?t) = 1" "mq_puback_timeout_ms (mc_cfg ?t) = 3000"
    by (simp_all add: link_node_def new_MqttClientTransport_def link_config_def)
  then show ?thesis using publish_attempts_bounded [OF _ _ _ _ r, of 1 ?e] r by simp
qed

end
