(* ===== verification/Driver_Registry.thy ===== *)
theory Driver_Registry
  imports Flow_Compiler Ingest Modbus_Rtu Modbus_Tcp
begin

text \<open>
  The drivers a deployment can name: the driver half of \<open>register_builtins\<close>
  (\<open>runtime/runtime.hpp\<close>) with the factories that read the configuration, and the driver contract of
  \<open>sdk/driver.hpp\<close> dispatched over the built-in drivers. Of the two OPC UA drivers, which
  \<open>Opcua\<close> models, only the configuration is kept here, and what they answer to \<open>open\<close> is an argument, as
  is what dialling a device gives.
\<close>

section \<open>Drivers\<close>

record OpcUaSecurityConfig =
  certificate_file :: string
  private_key_file :: string
  trusted_server_certificate_file :: string
  sign_and_encrypt :: bool
  security_policy_uri :: string
  application_uri :: string
  user_certificate_file :: string
  user_private_key_file :: string

text \<open>Every field empty: security disabled.\<close>

definition new_OpcUaSecurityConfig :: OpcUaSecurityConfig where
  "new_OpcUaSecurityConfig = \<lparr>certificate_file = [], private_key_file = [], trusted_server_certificate_file = [],
     sign_and_encrypt = True, security_policy_uri = [], application_uri = [], user_certificate_file = [],
     user_private_key_file = []\<rparr>"

record OpcUaConfig =
  ua_endpoint :: string
  ua_node_ids :: "string list"
  ua_browse_root :: string
  ua_security :: OpcUaSecurityConfig

record ModbusTcpTarget =
  mt_host :: string
  mt_port :: u16

record ModbusRtuTarget =
  mr_port :: string
  mr_baud_rate :: u32
  mr_parity :: char
  mr_stop_bits :: u8

datatype driver = DGenerator GeneratorDriver
  | DModbusTcp ModbusTcpTarget ModbusTcpDriver
  | DModbusRtu ModbusRtuTarget ModbusRtuDriver
  | DOpcUa OpcUaConfig
  | DOpcUaSubscription OpcUaConfig

record DriverDescriptor =
  dd_type_id :: string
  writable :: bool
  poll_driven :: bool

fun driver_descriptor :: "driver \<Rightarrow> DriverDescriptor" where
  "driver_descriptor (DGenerator _) = \<lparr>dd_type_id = ''aero.driver.generator'', writable = False, poll_driven = False\<rparr>"
| "driver_descriptor (DModbusTcp _ _) = \<lparr>dd_type_id = ''aero.driver.modbus_tcp'', writable = True, poll_driven = True\<rparr>"
| "driver_descriptor (DModbusRtu _ _) = \<lparr>dd_type_id = ''aero.driver.modbus_rtu'', writable = True, poll_driven = True\<rparr>"
| "driver_descriptor (DOpcUa _) = \<lparr>dd_type_id = ''aero.driver.opcua'', writable = True, poll_driven = True\<rparr>"
| "driver_descriptor (DOpcUaSubscription _) = \<lparr>dd_type_id = ''aero.driver.opcua_subscribe'', writable = False, poll_driven = False\<rparr>"

section \<open>Factories\<close>

text \<open>The conversions of the JSON library to the types the factories ask for.\<close>

fun get_bool :: "'d json \<Rightarrow> bool option" where
  "get_bool (JBool b) = Some b" | "get_bool _ = None"

definition get_strings :: "'d json \<Rightarrow> string list option" where
  "get_strings j = (if is_array j \<and> list_all is_string (elements j)
     then Some (map (\<lambda>x. case x of JString s \<Rightarrow> s | _ \<Rightarrow> []) (elements j)) else None)"

definition value_uint :: "'d fp \<Rightarrow> 'd json \<Rightarrow> string \<Rightarrow> 'a::len word \<Rightarrow> 'a word option" where
  "value_uint F c key dflt = value_or (\<lambda>j. case j of JBool b \<Rightarrow> Some (if b then 1 else 0)
     | _ \<Rightarrow> map_option ucast (get_word j (d_to_word F))) c key dflt"

definition read_function :: "string \<Rightarrow> ReadFunction" where
  "read_function rt = (if rt = ''input'' then InputRegisters else if rt = ''coils'' then Coils
     else if rt = ''discrete_inputs'' then DiscreteInputs else HoldingRegisters)"

definition new_reconnect :: reconnect where
  "new_reconnect = \<lparr>backoff_ms = kInitialBackoffMs, next_attempt_at = 0\<rparr>"

definition new_ModbusTcpDriver :: "u8 \<Rightarrow> u16 \<Rightarrow> u16 \<Rightarrow> ReadFunction \<Rightarrow> ModbusTcpDriver" where
  "new_ModbusTcpDriver unit start count fn = \<lparr>unit_id = unit, tcp_start_address = start, tcp_register_count = count,
     tcp_read_fn = fn, tcp_opened = False, tcp_fd = None, next_txn_id = 1, tcp_exception = 0, tcp_reconnect = new_reconnect\<rparr>"

definition new_ModbusRtuDriver :: "u8 \<Rightarrow> u16 \<Rightarrow> u16 \<Rightarrow> ReadFunction \<Rightarrow> ModbusRtuDriver" where
  "new_ModbusRtuDriver slave start count fn = \<lparr>slave_address = slave, rtu_start_address = start, rtu_register_count = count,
     rtu_read_fn = fn, rtu_link = None, rtu_opened = False, rtu_exception = 0, rtu_reconnect = new_reconnect\<rparr>"

definition parse_opcua_security :: "'d json \<Rightarrow> OpcUaSecurityConfig option" where
  "parse_opcua_security c =
     (if \<not> contains c ''security'' \<or> \<not> is_object (at c ''security'') then Some new_OpcUaSecurityConfig
     else let s = at c ''security'' in
       case (value_string s ''certificate_file'' [], value_string s ''private_key_file'' [],
             value_string s ''trusted_server_certificate_file'' [], value_or get_bool s ''sign_and_encrypt'' True,
             value_string s ''security_policy_uri'' []) of
         (Some a, Some b, Some t, Some e, Some u) \<Rightarrow> Some (new_OpcUaSecurityConfig\<lparr>certificate_file := a,
           private_key_file := b, trusted_server_certificate_file := t, sign_and_encrypt := e, security_policy_uri := u\<rparr>)
       | _ \<Rightarrow> None)"

definition modbus_tcp_factory :: "'d fp \<Rightarrow> 'd json \<Rightarrow> driver option" where
  "modbus_tcp_factory F c =
     (case (value_string c ''register_type'' ''holding'', value_string c ''host'' [], value_uint F c ''port'' 502,
            value_uint F c ''unit_id'' 1, value_uint F c ''start_address'' 0, value_uint F c ''register_count'' 8) of
        (Some rt, Some host, Some port, Some unit, Some start, Some count) \<Rightarrow>
          Some (DModbusTcp \<lparr>mt_host = host, mt_port = port\<rparr> (new_ModbusTcpDriver unit start count (read_function rt)))
      | _ \<Rightarrow> None)"

definition modbus_rtu_factory :: "'d fp \<Rightarrow> 'd json \<Rightarrow> driver option" where
  "modbus_rtu_factory F c =
     (case (value_string c ''register_type'' ''holding'', value_string c ''parity'' ''N'', value_string c ''port'' [],
            value_uint F c ''baud_rate'' 9600, value_uint F c ''slave_address'' 1, value_uint F c ''start_address'' 0,
            value_uint F c ''register_count'' 8, value_uint F c ''stop_bits'' 1) of
        (Some rt, Some parity, Some port, Some baud, Some slave, Some start, Some count, Some bits) \<Rightarrow>
          Some (DModbusRtu \<lparr>mr_port = port, mr_baud_rate = baud,
              mr_parity = (case parity of [] \<Rightarrow> CHR ''N'' | ch # _ \<Rightarrow> ch), mr_stop_bits = bits\<rparr>
            (new_ModbusRtuDriver slave start count (read_function rt)))
      | _ \<Rightarrow> None)"

definition opcua_factory :: "'d json \<Rightarrow> OpcUaConfig option" where
  "opcua_factory c =
     (case (value_string c ''endpoint'' [], value_or get_strings c ''node_ids'' [], value_string c ''browse_root'' [],
            parse_opcua_security c) of
        (Some ep, Some ids, Some root, Some sec) \<Rightarrow>
          Some \<lparr>ua_endpoint = ep, ua_node_ids = ids, ua_browse_root = root, ua_security = sec\<rparr>
      | _ \<Rightarrow> None)"

definition opcua_subscribe_factory :: "'d json \<Rightarrow> OpcUaConfig option" where
  "opcua_subscribe_factory c =
     (case (value_string c ''endpoint'' [], value_or get_strings c ''node_ids'' [], parse_opcua_security c) of
        (Some ep, Some ids, Some sec) \<Rightarrow>
          Some \<lparr>ua_endpoint = ep, ua_node_ids = ids, ua_browse_root = [], ua_security = sec\<rparr>
      | _ \<Rightarrow> None)"

section \<open>The registry and the driver contract\<close>

text \<open>The outer option is an unknown type, the inner one the library's type exception.\<close>

definition create_driver :: "'d fp \<Rightarrow> string \<Rightarrow> 'd json \<Rightarrow> driver option option" where
  "create_driver F tid c =
     (if tid = ''aero.driver.generator'' then Some (Some (DGenerator new_GeneratorDriver))
      else if tid = ''aero.driver.modbus_tcp'' then Some (modbus_tcp_factory F c)
      else if tid = ''aero.driver.opcua'' then Some (map_option DOpcUa (opcua_factory c))
      else if tid = ''aero.driver.opcua_subscribe'' then Some (map_option DOpcUaSubscription (opcua_subscribe_factory c))
      else if tid = ''aero.driver.modbus_rtu'' then Some (modbus_rtu_factory F c)
      else None)"

record DriverConfig =
  dc_frame_count :: u32
  dc_rate_hz :: u32

record device_world =
  dw_now :: int
  dw_tcp :: "ModbusTcpTarget \<Rightarrow> link option"
  dw_serial :: "ModbusRtuTarget \<Rightarrow> link option"
  dw_opcua :: "OpcUaConfig \<Rightarrow> DriverStatus"

fun open_driver :: "device_world \<Rightarrow> DriverConfig \<Rightarrow> driver \<Rightarrow> DriverStatus \<times> driver" where
  "open_driver W cfg (DGenerator g) = (DsOk, DGenerator (gen_open (dc_frame_count cfg) g))"
| "open_driver W cfg (DModbusTcp t d) = map_prod id (DModbusTcp t) (tcp_open (dw_now W) (dw_tcp W t) d)"
| "open_driver W cfg (DModbusRtu t d) = map_prod id (DModbusRtu t) (rtu_open (dw_now W) (dw_serial W t) d)"
| "open_driver W cfg (DOpcUa c) = (dw_opcua W c, DOpcUa c)"
| "open_driver W cfg (DOpcUaSubscription c) = (dw_opcua W c, DOpcUaSubscription c)"

fun close_driver :: "driver \<Rightarrow> driver" where
  "close_driver (DGenerator g) = DGenerator (gen_close g)"
| "close_driver (DModbusTcp t d) = DModbusTcp t (tcp_close d)"
| "close_driver (DModbusRtu t d) = DModbusRtu t (rtu_close d)"
| "close_driver d = d"

text \<open>The period of the poller of a pull driver, in whole milliseconds.\<close>

definition kDefaultPollIntervalMs :: nat where
  "kDefaultPollIntervalMs = 1000"

definition poll_interval_ms :: "DriverConfig \<Rightarrow> nat" where
  "poll_interval_ms cfg = (if 0 < dc_rate_hz cfg then 1000 div unat (dc_rate_hz cfg) else kDefaultPollIntervalMs)"

section \<open>Facts\<close>

lemma created_type_id:
  assumes "create_driver F tid c = Some (Some d)"
  shows "dd_type_id (driver_descriptor d) = tid"
  using assms
  by (auto simp: create_driver_def modbus_tcp_factory_def modbus_rtu_factory_def split: if_splits option.splits prod.splits)

text \<open>Opening a driver keeps its kind, so the descriptor read after \<open>open\<close> is the one registered.\<close>

lemma open_driver_descriptor: "driver_descriptor (snd (open_driver W cfg d)) = driver_descriptor d"
  by (cases d) (simp_all add: map_prod_def split: prod.splits)

text \<open>
  The poll period of a configured rate is the rate's period rounded down, so a rate above 1000 gives
  a period of 0 and the poller reads the device without a pause.
\<close>

lemma poll_interval_zero_iff: "poll_interval_ms cfg = 0 \<longleftrightarrow> 1000 < unat (dc_rate_hz cfg)"
  by (auto simp: poll_interval_ms_def kDefaultPollIntervalMs_def div_eq_0_iff word_greater_zero_iff unsigned_eq_0_iff)

end
