(* ===== verification/Flow_Actor.thy ===== *)
theory Flow_Actor
  imports Flow_Graph
begin

text \<open>
  The deployed actor: \<open>EdgeActorBase\<close> (\<open>core/edge_actor.hpp\<close>) and \<open>FlowActor\<close>
  (\<open>runtime/flow_actor.hpp\<close>). The actor holds a pointer to the flow the runtime owns, so compiled plans
  live in a heap of the model and the actor holds an address; running the flow of an address that is
  not allocated is undefined behaviour. A handler returns, is still running when the fuel of the
  executor is used up, or is undefined. \<open>plan_frame\<close> and \<open>drained\<close> say the same without addresses and
  without a mailbox; the lemmas show that the handlers compute them.
\<close>

section \<open>Calls that may not return\<close>

datatype 'a ran = Returns 'a | StillRunning | Undef

fun ran_bind :: "'a ran \<Rightarrow> ('a \<Rightarrow> 'b ran) \<Rightarrow> 'b ran" where
  "ran_bind (Returns x) f = f x" | "ran_bind StillRunning f = StillRunning" | "ran_bind Undef f = Undef"

lemma ran_bind_assoc: "ran_bind (ran_bind r f) g = ran_bind r (\<lambda>x. ran_bind (f x) g)"
  by (cases r) simp_all

lemma ran_bind_Returns [simp]: "ran_bind r Returns = r"
  by (cases r) simp_all

section \<open>EdgeActorBase\<close>

record 'd EdgeActorBase =
  flow_ptr :: "nat option"
  ctx :: "'d ProcessingContext"
  last_output :: 'd
  events_published :: int
  frames_processed :: int
  last_failed :: bool

type_synonym 'd plans = "nat \<rightharpoonup> 'd CompiledPlan"

definition bind_flow :: "nat \<Rightarrow> ('d, 'm) EdgeActorBase_scheme \<Rightarrow> ('d, 'm) EdgeActorBase_scheme" where
  "bind_flow p a = a\<lparr>flow_ptr := Some p\<rparr>"

text \<open>\<open>on_commit\<close> does nothing for an actor without durable state.\<close>

definition commit :: "('d, 'm) EdgeActorBase_scheme \<Rightarrow> ('d, 'm) EdgeActorBase_scheme" where
  "commit a = (let a = a\<lparr>last_failed := failed (ctx a)\<rparr> in
     if outputs (ctx a) \<noteq> [] then a\<lparr>last_output := last (outputs (ctx a))\<rparr> else a)"

definition publish :: "('d, 'm) EdgeActorBase_scheme \<Rightarrow> ('d, 'm) EdgeActorBase_scheme" where
  "publish a = a\<lparr>events_published := events_published a + int (length (events (ctx a)))\<rparr>"

definition run_plan :: "'d env \<Rightarrow> nat \<Rightarrow> 'd CompiledPlan \<Rightarrow> 'd ProcessingContext \<Rightarrow> ('d CompiledPlan \<times> 'd ProcessingContext) ran" where
  "run_plan E n plan c = (case execute E n (plan_flow plan) (nodes plan) c of
       None \<Rightarrow> StillRunning
     | Some Undefined \<Rightarrow> Undef
     | Some (Done ns c) \<Rightarrow> Returns (plan\<lparr>nodes := ns\<rparr>, c))"

definition run_bound :: "'d env \<Rightarrow> nat \<Rightarrow> nat option \<Rightarrow> 'd plans \<Rightarrow> 'd ProcessingContext \<Rightarrow> ('d plans \<times> 'd ProcessingContext) ran" where
  "run_bound E n ptr h c = (case ptr of
       None \<Rightarrow> Returns (h, c)
     | Some p \<Rightarrow> (case h p of
         None \<Rightarrow> Undef
       | Some plan \<Rightarrow> ran_bind (run_plan E n plan c) (\<lambda>(plan, c). Returns (h(p \<mapsto> plan), c))))"

definition finish_frame :: "'d ProcessingContext \<Rightarrow> ('d, 'm) EdgeActorBase_scheme \<Rightarrow> ('d, 'm) EdgeActorBase_scheme" where
  "finish_frame c a = (let a = publish (commit (a\<lparr>ctx := c\<rparr>)) in a\<lparr>frames_processed := frames_processed a + 1\<rparr>)"

definition process_frame :: "'d env \<Rightarrow> nat \<Rightarrow> Frame \<Rightarrow> 'd plans \<Rightarrow> ('d, 'm) EdgeActorBase_scheme \<Rightarrow>
    ('d plans \<times> ('d, 'm) EdgeActorBase_scheme) ran" where
  "process_frame E n f h a = ran_bind (run_bound E n (flow_ptr a) h (reset (Some f) (ctx a)))
     (\<lambda>(h, c). Returns (h, finish_frame c a))"

section \<open>FlowActor\<close>

record 'd FlowActor = "'d EdgeActorBase" +
  output_sum :: 'd
  reloads :: int

definition new_FlowActor :: "'d fp \<Rightarrow> 'd FlowActor" where
  "new_FlowActor F = \<lparr>flow_ptr = None, ctx = new_context, last_output = d_zero F, events_published = 0,
     frames_processed = 0, last_failed = False, output_sum = d_zero F, reloads = 0\<rparr>"

datatype message = ReceiveFrame Frame | ReloadFlow "nat option" | GetStatus

record 'd FlowStatus =
  fs_frames :: int
  fs_events :: int
  fs_last :: 'd
  fs_failed :: bool
  fs_output_sum :: 'd
  fs_reloads :: int

definition flow_status :: "'d FlowActor \<Rightarrow> 'd FlowStatus" where
  "flow_status a = \<lparr>fs_frames = frames_processed a, fs_events = events_published a, fs_last = last_output a,
     fs_failed = last_failed a, fs_output_sum = output_sum a, fs_reloads = reloads a\<rparr>"

definition tally :: "'d fp \<Rightarrow> 'd FlowActor \<Rightarrow> 'd FlowActor" where
  "tally F a = a\<lparr>output_sum := d_add F (output_sum a) (last_output a)\<rparr>"

fun handle :: "'d env \<Rightarrow> nat \<Rightarrow> message \<Rightarrow> 'd plans \<times> 'd FlowActor \<Rightarrow> ('d plans \<times> 'd FlowActor) ran" where
  "handle E n (ReceiveFrame f) (h, a) =
     ran_bind (process_frame E n f h a) (\<lambda>(h, a). Returns (h, tally (e_fp E) a))"
| "handle E n (ReloadFlow ptr) (h, a) = Returns (h, case ptr of None \<Rightarrow> a | Some p \<Rightarrow> (bind_flow p a)\<lparr>reloads := reloads a + 1\<rparr>)"
| "handle E n GetStatus (h, a) = Returns (h, a)"

text \<open>The messages of a mailbox one after the other, as the single worker takes them.\<close>

fun drained :: "'d env \<Rightarrow> nat \<Rightarrow> message list \<Rightarrow> 'd plans \<times> 'd FlowActor \<Rightarrow> ('d plans \<times> 'd FlowActor) ran" where
  "drained E n [] x = Returns x"
| "drained E n (m # ms) x = ran_bind (handle E n m x) (drained E n ms)"

lemma drained_append: "drained E n (ms @ ms') x = ran_bind (drained E n ms x) (drained E n ms')"
proof (induction ms arbitrary: x)
  case (Cons m ms)
  then show ?case by (cases "handle E n m x") simp_all
qed simp

section \<open>What a handler keeps\<close>

lemma finish_frame_simps [simp]: "flow_ptr (finish_frame c a) = flow_ptr a" "ctx (finish_frame c a) = c"
  by (simp_all add: finish_frame_def publish_def commit_def Let_def)

lemma finish_frame_ptr: "finish_frame c (a\<lparr>flow_ptr := p\<rparr>) = (finish_frame c a)\<lparr>flow_ptr := p\<rparr>"
  by (simp add: finish_frame_def publish_def commit_def Let_def)

lemma run_bound_dom: "run_bound E n ptr h c = Returns (h', c') \<Longrightarrow> dom h' = dom h"
  by (auto simp: run_bound_def split: option.splits prod.splits if_splits elim!: ran_bind.elims)

lemma handle_dom:
  assumes "handle E n m (h, a) = Returns (h', a')"
  shows "dom h' = dom h"
  using assms
proof (cases m)
  case (ReceiveFrame f)
  then show ?thesis using assms
    by (auto simp: process_frame_def elim!: ran_bind.elims split: prod.splits dest!: run_bound_dom)
qed auto

text \<open>The addresses an actor and its mailbox can reach.\<close>

fun refers :: "message \<Rightarrow> nat set" where
  "refers (ReloadFlow (Some p)) = {p}" | "refers _ = {}"

definition live_refs :: "message list \<Rightarrow> 'd FlowActor \<Rightarrow> nat set" where
  "live_refs ms a = set_option (flow_ptr a) \<union> \<Union> (refers ` set ms)"

lemma handle_refs:
  assumes "handle E n m (h, a) = Returns (h', a')"
  shows "set_option (flow_ptr a') \<subseteq> live_refs [m] a" "flow_ptr a \<noteq> None \<Longrightarrow> flow_ptr a' \<noteq> None"
  using assms
  by (cases m; auto simp: live_refs_def process_frame_def tally_def bind_flow_def
      elim!: ran_bind.elims split: prod.splits option.splits)+

end
