(* ===== verification/Runtime.thy ===== *)
theory Runtime
  imports Driver_Registry Flow_Actor
begin

text \<open>
  The life of a deployment, \<open>class Runtime\<close> of \<open>runtime/runtime.hpp\<close>: deploy, hot reload, rollback,
  status, undeploy. The runtime owns the compiled plans, the actor holds the address of one, and a
  mailbox lies between them: \<open>reload\<close> posts the new address and an ask, waits until the single worker
  has answered the ask, and only then destroys the old plan. \<open>reload_begin\<close> and \<open>reload_end\<close> are its two
  halves; between them the driver's threads go on telling frames. The messages of the mailbox are
  handled in order, one at a time, by the actor runtime's engine.
\<close>

section \<open>State\<close>

record 'd Deployment =
  dp_app :: "'d Application"
  dp_name :: string
  dp_version :: string
  dp_key :: u64
  dp_plan :: nat
  dp_driver :: "driver option"
  dp_poll_ms :: "nat option"
  dp_actor :: "'d FlowActor"
  dp_mailbox :: "message list"

text \<open>\<open>rt_pending\<close> are the locals of a reload that waits for its ask, \<open>rt_replied\<close> that it was answered.\<close>

record 'd Runtime =
  rt_nodes :: "'d NodeRegistry"
  rt_dep :: "'d Deployment option"
  previous_app :: "'d Application option"
  rt_plans :: "'d plans"
  rt_next :: nat
  rt_pending :: "('d Application \<times> nat) option"
  rt_replied :: bool

datatype RtError = AlreadyDeployed string | BadFlow FlowError | UnknownDriver string | DriverOpenFailed string
  | NothingDeployed | BuildOnly string | NoPreviousVersion | NoSuchApp string | ExtensionWhileDeployed string
  | BadExtension string | BadJson string

datatype rt_result = RtOk | RtErr RtError | RtThrows

definition new_Runtime :: "'d fp \<Rightarrow> ('d json \<Rightarrow> string) \<Rightarrow> 'd Runtime" where
  "new_Runtime F dump = \<lparr>rt_nodes = register_builtins F dump Map.empty, rt_dep = None, previous_app = None,
     rt_plans = Map.empty, rt_next = 0, rt_pending = None, rt_replied = False\<rparr>"

section \<open>Extensions, deploy and undeploy\<close>

text \<open>Loading a native library is outside: its result is the new registry or the message.\<close>

definition load_native_extension :: "string + 'd NodeRegistry \<Rightarrow> 'd Runtime \<Rightarrow> rt_result \<times> 'd Runtime" where
  "load_native_extension ext rt = (case rt_dep rt of
       Some d \<Rightarrow> (RtErr (ExtensionWhileDeployed (dp_name d)), rt)
     | None \<Rightarrow> (case ext of Inl msg \<Rightarrow> (RtErr (BadExtension msg), rt) | Inr reg \<Rightarrow> (RtOk, rt\<lparr>rt_nodes := reg\<rparr>)))"

definition driver_config :: "'d fp \<Rightarrow> 'd json \<Rightarrow> DriverConfig option" where
  "driver_config F c = (case (value_uint F c ''frame_count'' 0, value_uint F c ''rate_hz'' 0) of
       (Some fc, Some hz) \<Rightarrow> Some \<lparr>dc_frame_count = fc, dc_rate_hz = hz\<rparr>
     | _ \<Rightarrow> None)"

text \<open>The driver part of \<open>deploy\<close>: the driver to run, with the period when it is polled.\<close>

definition start_driver :: "'d fp \<Rightarrow> device_world \<Rightarrow> 'd DriverSpec \<Rightarrow> (rt_result, driver \<times> nat option) sum" where
  "start_driver F W ds = (case create_driver F (ds_type_id ds) (ds_config ds) of
       None \<Rightarrow> Inl (RtErr (UnknownDriver (ds_type_id ds)))
     | Some None \<Rightarrow> Inl RtThrows
     | Some (Some drv) \<Rightarrow> (case driver_config F (ds_config ds) of
         None \<Rightarrow> Inl RtThrows
       | Some cfg \<Rightarrow> (case open_driver W cfg drv of
           (DsOk, drv) \<Rightarrow> Inr (drv, if poll_driven (driver_descriptor drv) then Some (poll_interval_ms cfg) else None)
         | _ \<Rightarrow> Inl (RtErr (DriverOpenFailed (ds_type_id ds))))))"

definition install :: "'d fp \<Rightarrow> 'd Application \<Rightarrow> 'd CompiledPlan \<Rightarrow> (driver \<times> nat option) option \<Rightarrow> 'd Runtime \<Rightarrow> 'd Runtime" where
  "install F app plan drv rt = rt\<lparr>
     rt_plans := (rt_plans rt)(rt_next rt \<mapsto> plan), rt_next := Suc (rt_next rt),
     rt_dep := Some \<lparr>dp_app = app, dp_name = app_name app, dp_version = version app, dp_key = as_key (actor app),
       dp_plan = rt_next rt, dp_driver = map_option fst drv, dp_poll_ms = Option.bind drv snd,
       dp_actor = bind_flow (rt_next rt) (new_FlowActor F), dp_mailbox = []\<rparr>\<rparr>"

definition deploy :: "'d fp \<Rightarrow> device_world \<Rightarrow> 'd Application \<Rightarrow> 'd Runtime \<Rightarrow> rt_result \<times> 'd Runtime" where
  "deploy F W app rt = (case rt_dep rt of
       Some d \<Rightarrow> (RtErr (AlreadyDeployed (dp_name d)), rt)
     | None \<Rightarrow> (case compile_flow F (rt_nodes rt) app of
         Throws \<Rightarrow> (RtThrows, rt)
       | Rejected e \<Rightarrow> (RtErr (BadFlow e), rt)
       | Accepted plan \<Rightarrow> (case driver app of
           None \<Rightarrow> (RtOk, install F app plan None rt)
         | Some ds \<Rightarrow> (case start_driver F W ds of
             Inl r \<Rightarrow> (r, rt)
           | Inr drv \<Rightarrow> (RtOk, install F app plan (Some drv) rt)))))"

definition deploy_json :: "'d fp \<Rightarrow> device_world \<Rightarrow> 'd json option \<Rightarrow> 'd Runtime \<Rightarrow> rt_result \<times> 'd Runtime" where
  "deploy_json F W j rt = (case load_application j of
       Inl msg \<Rightarrow> (RtErr (BadJson msg), rt)
     | Inr app \<Rightarrow> deploy F W app rt)"

text \<open>\<open>teardown\<close> and the end of the deployment's objects, its plan among them; \<open>previous_app_\<close> stays.\<close>

definition undeploy :: "string \<Rightarrow> 'd Runtime \<Rightarrow> rt_result \<times> 'd Runtime" where
  "undeploy name rt = (case rt_dep rt of
       None \<Rightarrow> (if name = [] then RtOk else RtErr NothingDeployed, rt)
     | Some d \<Rightarrow>
         if name \<noteq> [] \<and> name \<noteq> dp_name d then (RtErr (NoSuchApp name), rt)
         else (RtOk, rt\<lparr>rt_dep := None, rt_plans := (rt_plans rt)(dp_plan d := None)\<rparr>))"

definition deployed :: "'d Runtime \<Rightarrow> bool" where
  "deployed rt \<longleftrightarrow> rt_dep rt \<noteq> None"

section \<open>The mailbox\<close>

definition post_messages :: "message list \<Rightarrow> 'd Runtime \<Rightarrow> 'd Runtime" where
  "post_messages ms rt = (case rt_dep rt of None \<Rightarrow> rt | Some d \<Rightarrow> rt\<lparr>rt_dep := Some (d\<lparr>dp_mailbox := dp_mailbox d @ ms\<rparr>)\<rparr>)"

definition work :: "'d env \<Rightarrow> nat \<Rightarrow> 'd Runtime \<Rightarrow> 'd Runtime ran" where
  "work E n rt = (case rt_dep rt of
       None \<Rightarrow> Returns rt
     | Some d \<Rightarrow> (case dp_mailbox d of
         [] \<Rightarrow> Returns rt
       | m # ms \<Rightarrow> ran_bind (handle E n m (rt_plans rt, dp_actor d))
           (\<lambda>(h, a). Returns (rt\<lparr>rt_plans := h, rt_dep := Some (d\<lparr>dp_actor := a, dp_mailbox := ms\<rparr>),
              rt_replied := rt_replied rt \<or> m = GetStatus\<rparr>))))"

text \<open>\<open>block_on\<close> of the ask: the worker goes on until it is answered.\<close>

fun await :: "'d env \<Rightarrow> nat \<Rightarrow> nat \<Rightarrow> 'd Runtime \<Rightarrow> 'd Runtime ran" where
  "await E n 0 rt = Returns rt"
| "await E n (Suc k) rt = (if rt_replied rt then Returns rt else ran_bind (work E n rt) (await E n k))"

definition mail_count :: "'d Runtime \<Rightarrow> nat" where
  "mail_count rt = (case rt_dep rt of None \<Rightarrow> 0 | Some d \<Rightarrow> length (dp_mailbox d))"

definition tell_frame :: "64 word \<Rightarrow> 'd Runtime \<Rightarrow> rt_result \<times> 'd Runtime" where
  "tell_frame r rt = (case rt_dep rt of
       None \<Rightarrow> (RtErr NothingDeployed, rt)
     | Some d \<Rightarrow> (RtOk, post_messages [ReceiveFrame \<lparr>raw = r, payload_len = 0, fr_payload = replicate kMaxFramePayload 0\<rparr>] rt))"

section \<open>Hot reload and rollback\<close>

definition classify_buildonly :: "'d Application \<Rightarrow> 'd Application \<Rightarrow> string option" where
  "classify_buildonly cur nxt =
     (if app_name cur \<noteq> app_name nxt then
        Some (''app name changed ('' @ ticks (app_name cur) @ '' -> '' @ ticks (app_name nxt) @ '')'')
      else if as_kind (actor cur) \<noteq> as_kind (actor nxt) then
        Some (''actor kind changed ('' @ ticks (as_kind (actor cur)) @ '' -> '' @ ticks (as_kind (actor nxt)) @ '')'')
      else if as_key (actor cur) \<noteq> as_key (actor nxt) then Some ''actor key changed''
      else (case (persistence cur, persistence nxt) of
          (None, None) \<Rightarrow> None
        | (Some p, Some q) \<Rightarrow> (if ps_model p \<noteq> ps_model q \<or> ps_mode p \<noteq> ps_mode q
             then Some ''persistence model/mode changed'' else None)
        | _ \<Rightarrow> Some ''persistence presence changed''))"

definition reload_begin :: "'d fp \<Rightarrow> 'd Application \<Rightarrow> 'd Runtime \<Rightarrow> rt_result \<times> 'd Runtime" where
  "reload_begin F app rt = (case rt_dep rt of
       None \<Rightarrow> (RtErr NothingDeployed, rt)
     | Some d \<Rightarrow> (case classify_buildonly (dp_app d) app of
         Some why \<Rightarrow> (RtErr (BuildOnly why), rt)
       | None \<Rightarrow> (case compile_flow F (rt_nodes rt) app of
           Throws \<Rightarrow> (RtThrows, rt)
         | Rejected e \<Rightarrow> (RtErr (BadFlow e), rt)
         | Accepted plan \<Rightarrow> (RtOk, post_messages [ReloadFlow (Some (rt_next rt)), GetStatus]
             (rt\<lparr>rt_plans := (rt_plans rt)(rt_next rt \<mapsto> plan), rt_next := Suc (rt_next rt),
                 rt_pending := Some (app, rt_next rt), rt_replied := False\<rparr>)))))"

definition reload_end :: "'d Runtime \<Rightarrow> 'd Runtime" where
  "reload_end rt = (case (rt_dep rt, rt_pending rt) of
       (Some d, Some (app, p)) \<Rightarrow> rt\<lparr>previous_app := Some (dp_app d),
          rt_dep := Some (d\<lparr>dp_app := app, dp_name := app_name app, dp_version := version app, dp_plan := p\<rparr>),
          rt_plans := (rt_plans rt)(dp_plan d := None), rt_pending := None, rt_replied := False\<rparr>
     | _ \<Rightarrow> rt)"

definition reload :: "'d env \<Rightarrow> nat \<Rightarrow> 'd Application \<Rightarrow> 'd Runtime \<Rightarrow> (rt_result \<times> 'd Runtime) ran" where
  "reload E n app rt = (case reload_begin (e_fp E) app rt of
       (RtOk, rt) \<Rightarrow> ran_bind (await E n (mail_count rt) rt) (\<lambda>rt. Returns (RtOk, reload_end rt))
     | (r, rt) \<Rightarrow> Returns (r, rt))"

definition reload_json :: "'d env \<Rightarrow> nat \<Rightarrow> 'd json option \<Rightarrow> 'd Runtime \<Rightarrow> (rt_result \<times> 'd Runtime) ran" where
  "reload_json E n j rt = (case load_application j of
       Inl msg \<Rightarrow> Returns (RtErr (BadJson msg), rt)
     | Inr app \<Rightarrow> reload E n app rt)"

definition rollback :: "'d env \<Rightarrow> nat \<Rightarrow> 'd Runtime \<Rightarrow> (rt_result \<times> 'd Runtime) ran" where
  "rollback E n rt = (case rt_dep rt of
       None \<Rightarrow> Returns (RtErr NothingDeployed, rt)
     | Some d \<Rightarrow> (case previous_app rt of
         None \<Rightarrow> Returns (RtErr NoPreviousVersion, rt)
       | Some prev \<Rightarrow> reload E n prev rt))"

section \<open>Status\<close>

definition status_json :: "'d Deployment \<Rightarrow> 'd json" where
  "status_json d = (let s = flow_status (dp_actor d) in JObject [
     (''actor_key'', JUInt (dp_key d)), (''actor_kind'', JString ''edge''), (''deployed'', JBool True),
     (''events_published'', JInt (of_int (fs_events s))), (''failed'', JBool (fs_failed s)),
     (''frames_processed'', JInt (of_int (fs_frames s))), (''has_driver'', JBool (dp_driver d \<noteq> None)),
     (''last_output'', JFloat (fs_last s)), (''name'', JString (dp_name d)), (''output_sum'', JFloat (fs_output_sum s)),
     (''reloads'', JInt (of_int (fs_reloads s))), (''version'', JString (dp_version d))])"

definition status :: "'d env \<Rightarrow> nat \<Rightarrow> 'd Runtime \<Rightarrow> ('d json \<times> 'd Runtime) ran" where
  "status E n rt = (case rt_dep rt of
       None \<Rightarrow> Returns (JObject [(''deployed'', JBool False)], rt)
     | Some _ \<Rightarrow> (let rt = post_messages [GetStatus] (rt\<lparr>rt_replied := False\<rparr>) in
         ran_bind (await E n (mail_count rt) rt) (\<lambda>rt. Returns
           (case rt_dep rt of None \<Rightarrow> JNull | Some d \<Rightarrow> status_json d, rt\<lparr>rt_replied := False\<rparr>))))"

definition list_apps :: "'d Runtime \<Rightarrow> 'd json" where
  "list_apps rt = JArray (case rt_dep rt of None \<Rightarrow> []
     | Some d \<Rightarrow> [JObject [(''name'', JString (dp_name d)), (''version'', JString (dp_version d))]])"

end
