(* ===== verification/Runtime_Props.thy ===== *)
theory Runtime_Props
  imports Runtime Flow_Props
begin

text \<open>
  Hot reload is atomic. The steps of a running deployment are: a frame is told, the worker handles the
  oldest message, a reload passes its checks and posts, an answered reload finishes. The invariant says
  which plans are allocated and where a reload in progress stands; the abstraction drains the mailbox and
  replaces the actor's address by the plan it stands for. In the abstraction a reload is one step, and
  telling a frame runs it at once.
\<close>

section \<open>Steps and the synchronous specification\<close>

datatype 'd hot_event = Tell Frame | Work | ReloadBegin "'d Application" | ReloadEnd

inductive hot :: "'d env \<Rightarrow> nat \<Rightarrow> 'd Runtime \<Rightarrow> 'd hot_event \<Rightarrow> 'd Runtime \<Rightarrow> bool" for E n where
  hot_tell: "hot E n rt (Tell f) (post_messages [ReceiveFrame f] rt)"
| hot_work: "work E n rt = Returns rt' \<Longrightarrow> hot E n rt Work rt'"
| hot_begin: "rt_pending rt = None \<Longrightarrow> hot E n rt (ReloadBegin app) (snd (reload_begin (e_fp E) app rt))"
| hot_end: "rt_replied rt \<Longrightarrow> hot E n rt ReloadEnd (reload_end rt)"

inductive hots :: "'d env \<Rightarrow> nat \<Rightarrow> 'd Runtime \<Rightarrow> 'd hot_event list \<Rightarrow> 'd Runtime \<Rightarrow> bool" for E n where
  hots_nil: "hots E n rt [] rt"
| hots_snoc: "hots E n rt es rt' \<Longrightarrow> hot E n rt' e rt'' \<Longrightarrow> hots E n rt (es @ [e]) rt''"

record 'd sync =
  sy_app :: "'d Application"
  sy_plan :: "'d CompiledPlan"
  sy_actor :: "'d FlowActor"

definition sync_frame :: "'d env \<Rightarrow> nat \<Rightarrow> Frame \<Rightarrow> 'd sync \<Rightarrow> 'd sync ran" where
  "sync_frame E n f s = ran_bind (run_plan E n (sy_plan s) (reset (Some f) (ctx (sy_actor s))))
     (\<lambda>(plan, c). Returns (s\<lparr>sy_plan := plan, sy_actor := tally (e_fp E) (finish_frame c (sy_actor s))\<rparr>))"

definition sync_reload :: "'d fp \<Rightarrow> 'd NodeRegistry \<Rightarrow> 'd Application \<Rightarrow> 'd sync \<Rightarrow> 'd sync" where
  "sync_reload F reg app s = (case (classify_buildonly (sy_app s) app, compile_flow F reg app) of
       (None, Accepted plan) \<Rightarrow> s\<lparr>sy_app := app, sy_plan := plan,
          sy_actor := (sy_actor s)\<lparr>reloads := reloads (sy_actor s) + 1\<rparr>\<rparr>
     | _ \<Rightarrow> s)"

fun sync_step :: "'d env \<Rightarrow> nat \<Rightarrow> 'd NodeRegistry \<Rightarrow> 'd hot_event \<Rightarrow> 'd sync \<Rightarrow> 'd sync ran" where
  "sync_step E n reg (Tell f) s = sync_frame E n f s"
| "sync_step E n reg (ReloadBegin app) s = Returns (sync_reload (e_fp E) reg app s)"
| "sync_step E n reg _ s = Returns s"

fun sync_run :: "'d env \<Rightarrow> nat \<Rightarrow> 'd NodeRegistry \<Rightarrow> 'd hot_event list \<Rightarrow> 'd sync \<Rightarrow> 'd sync ran" where
  "sync_run E n reg [] s = Returns s"
| "sync_run E n reg (e # es) s = ran_bind (sync_step E n reg e s) (sync_run E n reg es)"

lemma sync_run_append: "sync_run E n reg (es @ fs) s = ran_bind (sync_run E n reg es s) (sync_run E n reg fs)"
proof (induction es arbitrary: s)
  case (Cons e es)
  then show ?case by (cases "sync_step E n reg e s") simp_all
qed simp

lemma sync_run_single: "sync_run E n reg [e] = sync_step E n reg e"
proof
  show "sync_run E n reg [e] s = sync_step E n reg e s" for s
    by (cases "sync_step E n reg e s") simp_all
qed

section \<open>The abstraction\<close>

definition resolve_plan :: "'d Application \<Rightarrow> 'd plans \<times> 'd FlowActor \<Rightarrow> 'd sync ran" where
  "resolve_plan app = (\<lambda>(h, a). case Option.bind (flow_ptr a) h of
       None \<Rightarrow> Undef
     | Some plan \<Rightarrow> Returns \<lparr>sy_app = app, sy_plan = plan, sy_actor = a\<lparr>flow_ptr := None\<rparr>\<rparr>)"

definition current_app :: "'d Runtime \<Rightarrow> 'd Deployment \<Rightarrow> 'd Application" where
  "current_app rt d = (case rt_pending rt of None \<Rightarrow> dp_app d | Some (app, _) \<Rightarrow> app)"

definition view :: "'d env \<Rightarrow> nat \<Rightarrow> 'd Runtime \<Rightarrow> 'd sync ran" where
  "view E n rt = (case rt_dep rt of
       None \<Rightarrow> Undef
     | Some d \<Rightarrow> ran_bind (drained E n (dp_mailbox d) (rt_plans rt, dp_actor d)) (resolve_plan (current_app rt d)))"

section \<open>The invariant\<close>

fun is_frame :: "message \<Rightarrow> bool" where
  "is_frame (ReceiveFrame _) = True" | "is_frame _ = False"

abbreviation frames_only :: "message list \<Rightarrow> bool" where
  "frames_only \<equiv> list_all is_frame"

text \<open>A reload to address \<open>q\<close> from \<open>p\<close>: posted, swapped, answered.\<close>

definition posted :: "nat \<Rightarrow> nat \<Rightarrow> message list \<Rightarrow> nat option \<Rightarrow> bool \<Rightarrow> bool" where
  "posted p q ms ptr replied \<longleftrightarrow> (\<exists>fs gs. frames_only fs \<and> frames_only gs \<and>
     ms = fs @ [ReloadFlow (Some q), GetStatus] @ gs) \<and> ptr = Some p \<and> \<not> replied"

definition swapped :: "nat \<Rightarrow> message list \<Rightarrow> nat option \<Rightarrow> bool \<Rightarrow> bool" where
  "swapped q ms ptr replied \<longleftrightarrow> (\<exists>gs. frames_only gs \<and> ms = GetStatus # gs) \<and> ptr = Some q \<and> \<not> replied"

definition answered :: "nat \<Rightarrow> message list \<Rightarrow> nat option \<Rightarrow> bool \<Rightarrow> bool" where
  "answered q ms ptr replied \<longleftrightarrow> frames_only ms \<and> ptr = Some q \<and> replied"

definition idle :: "nat \<Rightarrow> message list \<Rightarrow> nat option \<Rightarrow> bool \<Rightarrow> bool" where
  "idle p ms ptr replied \<longleftrightarrow> frames_only ms \<and> ptr = Some p \<and> \<not> replied"

definition dep_inv :: "'d Runtime \<Rightarrow> 'd Deployment \<Rightarrow> bool" where
  "dep_inv rt d \<longleftrightarrow> (let ms = dp_mailbox d; ptr = flow_ptr (dp_actor d); r = rt_replied rt; p = dp_plan d in
     p < rt_next rt \<and>
     (case rt_pending rt of
        None \<Rightarrow> dom (rt_plans rt) = {p} \<and> idle p ms ptr r
      | Some (app, q) \<Rightarrow> q < rt_next rt \<and> p \<noteq> q \<and> dom (rt_plans rt) = {p, q} \<and>
          (posted p q ms ptr r \<or> swapped q ms ptr r \<or> answered q ms ptr r)))"

definition rt_inv :: "'d Runtime \<Rightarrow> bool" where
  "rt_inv rt \<longleftrightarrow> (\<exists>d. rt_dep rt = Some d \<and> dep_inv rt d)"

lemma dep_inv_idle:
  "rt_pending rt = None \<Longrightarrow> dep_inv rt d \<longleftrightarrow> dp_plan d < rt_next rt \<and> dom (rt_plans rt) = {dp_plan d} \<and>
     idle (dp_plan d) (dp_mailbox d) (flow_ptr (dp_actor d)) (rt_replied rt)"
  by (simp add: dep_inv_def Let_def)

section \<open>Frames under another heap\<close>

lemma handle_frame:
  assumes "flow_ptr a = Some p" "h p = Some plan"
  shows "handle E n (ReceiveFrame f) (h, a) = ran_bind (run_plan E n plan (reset (Some f) (ctx a)))
    (\<lambda>(plan, c). Returns (h(p \<mapsto> plan), tally (e_fp E) (finish_frame c a)))"
  using assms
  by (cases "run_plan E n plan (reset (Some f) (ctx a))") (auto simp: process_frame_def run_bound_def)

lemma flow_ptr_tally [simp]: "flow_ptr (tally F a) = flow_ptr a"
  by (simp add: tally_def)

lemma drained_frame:
  assumes "flow_ptr a = Some p" "h p = Some plan"
  shows "drained E n (ReceiveFrame f # ms) (h, a) = ran_bind (run_plan E n plan (reset (Some f) (ctx a)))
    (\<lambda>(plan, c). drained E n ms (h(p \<mapsto> plan), tally (e_fp E) (finish_frame c a)))"
  unfolding drained.simps handle_frame [where h = h and p = p and plan = plan, OF assms]
  by (cases "run_plan E n plan (reset (Some f) (ctx a))") (auto simp: split_beta)

lemma drained_other:
  assumes "frames_only ms" "flow_ptr a = Some p" "p \<in> dom h" "q \<noteq> p"
  shows "drained E n ms (h(q := v), a) = ran_bind (drained E n ms (h, a)) (\<lambda>(h, a). Returns (h(q := v), a))"
  using assms
proof (induction ms arbitrary: h a)
  case (Cons m ms)
  obtain f plan where f: "m = ReceiveFrame f" "h p = Some plan" using Cons.prems by (cases m) auto
  have q: "(h(q := v)) p = Some plan" using f(2) Cons.prems(4) by simp
  show ?case
    unfolding f(1) drained_frame [where h = h and p = p and plan = plan, OF Cons.prems(2) f(2)]
      drained_frame [where h = "h(q := v)" and p = p and plan = plan, OF Cons.prems(2) q]
  proof (cases "run_plan E n plan (reset (Some f) (ctx a))", goal_cases)
    case (1 x)
    obtain plan' c where x: "x = (plan', c)" by fastforce
    let ?a = "tally (e_fp E) (finish_frame c a)"
    have "drained E n ms (h(p \<mapsto> plan', q := v), ?a) = ran_bind (drained E n ms (h(p \<mapsto> plan'), ?a)) (\<lambda>(h, a). Returns (h(q := v), a))"
      by (rule Cons.IH) (use Cons.prems in auto)
    then show ?case using 1 x by (simp only: ran_bind.simps prod.case fun_upd_twist [OF Cons.prems(4), of h v "Some plan'"])
  qed simp_all
qed simp

lemma drained_keeps:
  assumes "frames_only ms" "flow_ptr a = Some p" "p \<in> dom h" "drained E n ms (h, a) = Returns (h', a')"
  shows "flow_ptr a' = Some p \<and> dom h' = dom h"
  using assms
proof (induction ms arbitrary: h a)
  case (Cons m ms)
  obtain f plan where f: "m = ReceiveFrame f" "h p = Some plan" using Cons.prems by (cases m) auto
  have d: "drained E n (ReceiveFrame f # ms) (h, a) = ran_bind (run_plan E n plan (reset (Some f) (ctx a)))
      (\<lambda>(plan, c). drained E n ms (h(p \<mapsto> plan), tally (e_fp E) (finish_frame c a)))"
    by (rule drained_frame) fact+
  obtain plan' c where r: "run_plan E n plan (reset (Some f) (ctx a)) = Returns (plan', c)"
    using Cons.prems(4) unfolding f(1) d by (cases "run_plan E n plan (reset (Some f) (ctx a))") auto
  then have "drained E n ms (h(p \<mapsto> plan'), tally (e_fp E) (finish_frame c a)) = Returns (h', a')"
    using Cons.prems(4) unfolding f(1) d by simp
  then have "flow_ptr a' = Some p \<and> dom h' = dom (h(p \<mapsto> plan'))"
    by (rule Cons.IH [rotated 3]) (use Cons.prems in auto)
  then show ?case using Cons.prems(3) by auto
qed simp

section \<open>The steps keep the invariant\<close>

lemma rt_invE:
  assumes "rt_inv rt"
  obtains d where "rt_dep rt = Some d" "dep_inv rt d"
  using assms by (auto simp: rt_inv_def)

lemma phases_snoc:
  "is_frame m \<Longrightarrow> posted p q ms ptr r \<Longrightarrow> posted p q (ms @ [m]) ptr r"
  "is_frame m \<Longrightarrow> swapped q ms ptr r \<Longrightarrow> swapped q (ms @ [m]) ptr r"
  "is_frame m \<Longrightarrow> answered q ms ptr r \<Longrightarrow> answered q (ms @ [m]) ptr r"
  "is_frame m \<Longrightarrow> idle p ms ptr r \<Longrightarrow> idle p (ms @ [m]) ptr r"
  unfolding posted_def swapped_def answered_def idle_def by (fastforce simp: list_all_append)+

lemma tell_inv: "rt_inv rt \<Longrightarrow> rt_inv (post_messages [ReceiveFrame f] rt)"
  by (erule rt_invE) (auto simp: rt_inv_def post_messages_def dep_inv_def Let_def phases_snoc split: option.splits)

text \<open>What handling the first message does to the phases of a reload.\<close>

lemma phases_step:
  assumes "handle E n m (h, a) = Returns (h', a')"
  shows "posted p q (m # ms) (flow_ptr a) r \<Longrightarrow>
      posted p q ms (flow_ptr a') (r \<or> m = GetStatus) \<or> swapped q ms (flow_ptr a') (r \<or> m = GetStatus)"
    and "swapped q (m # ms) (flow_ptr a) r \<Longrightarrow> answered q ms (flow_ptr a') (r \<or> m = GetStatus)"
    and "answered q (m # ms) (flow_ptr a) r \<Longrightarrow> answered q ms (flow_ptr a') (r \<or> m = GetStatus)"
    and "idle p (m # ms) (flow_ptr a) r \<Longrightarrow> idle p ms (flow_ptr a') (r \<or> m = GetStatus)"
proof -
  have frame: "flow_ptr a' = flow_ptr a \<and> m \<noteq> GetStatus" if "is_frame m"
    using that assms by (cases m) (auto simp: process_frame_def elim!: ran_bind.elims split: prod.splits)
  show "posted p q ms (flow_ptr a') (r \<or> m = GetStatus) \<or> swapped q ms (flow_ptr a') (r \<or> m = GetStatus)"
    if p: "posted p q (m # ms) (flow_ptr a) r"
  proof -
    obtain fs gs where fs: "frames_only fs" "frames_only gs" "m # ms = fs @ [ReloadFlow (Some q), GetStatus] @ gs"
        "flow_ptr a = Some p" "\<not> r"
      using p by (auto simp: posted_def)
    show ?thesis
    proof (cases fs)
      case Nil
      then show ?thesis using fs assms by (auto simp: swapped_def bind_flow_def)
    next
      case (Cons m' fs')
      then show ?thesis using fs frame by (auto simp: posted_def)
    qed
  qed
  show "answered q ms (flow_ptr a') (r \<or> m = GetStatus)" if "swapped q (m # ms) (flow_ptr a) r"
    using that assms by (auto simp: swapped_def answered_def)
  show "answered q ms (flow_ptr a') (r \<or> m = GetStatus)" if "answered q (m # ms) (flow_ptr a) r"
    using that frame by (auto simp: answered_def)
  show "idle p ms (flow_ptr a') (r \<or> m = GetStatus)" if "idle p (m # ms) (flow_ptr a) r"
    using that frame by (auto simp: idle_def)
qed

lemma work_cases:
  assumes "work E n rt = Returns rt'" "rt_dep rt = Some d"
  obtains "dp_mailbox d = []" "rt' = rt"
  | m ms h a where "dp_mailbox d = m # ms" "handle E n m (rt_plans rt, dp_actor d) = Returns (h, a)"
      "rt' = rt\<lparr>rt_plans := h, rt_dep := Some (d\<lparr>dp_actor := a, dp_mailbox := ms\<rparr>), rt_replied := rt_replied rt \<or> m = GetStatus\<rparr>"
  using assms by (auto simp: work_def elim!: ran_bind.elims split: list.splits prod.splits)

lemma work_inv:
  assumes "rt_inv rt" "work E n rt = Returns rt'"
  shows "rt_inv rt'"
proof -
  obtain d where d: "rt_dep rt = Some d" "dep_inv rt d" by (rule rt_invE [OF assms(1)])
  show ?thesis
  proof (cases rule: work_cases [OF assms(2) d(1)])
    case 1
    then show ?thesis using assms(1) by simp
  next
    case (2 m ms h a)
    note step = phases_step [OF 2(2)]
    have "dom h = dom (rt_plans rt)" using handle_dom [OF 2(2)] .
    then show ?thesis
      using d(2) 2(1) unfolding 2(3) rt_inv_def dep_inv_def Let_def
      by (cases "rt_pending rt") (auto dest: step)
  qed
qed

lemma reload_begin_cases:
  obtains "snd (reload_begin F app rt) = rt" "fst (reload_begin F app rt) \<noteq> RtOk"
    "\<And>d. rt_dep rt = Some d \<Longrightarrow> classify_buildonly (dp_app d) app \<noteq> None \<or> (\<forall>plan. compile_flow F (rt_nodes rt) app \<noteq> Accepted plan)"
  | d plan where "rt_dep rt = Some d" "classify_buildonly (dp_app d) app = None" "compile_flow F (rt_nodes rt) app = Accepted plan"
      "reload_begin F app rt = (RtOk, rt\<lparr>rt_plans := (rt_plans rt)(rt_next rt \<mapsto> plan), rt_next := Suc (rt_next rt),
         rt_pending := Some (app, rt_next rt), rt_replied := False,
         rt_dep := Some (d\<lparr>dp_mailbox := dp_mailbox d @ [ReloadFlow (Some (rt_next rt)), GetStatus]\<rparr>)\<rparr>)"
  by (cases "rt_dep rt"; cases "compile_flow F (rt_nodes rt) app"; cases "classify_buildonly (dp_app (the (rt_dep rt))) app")
     (auto simp: reload_begin_def post_messages_def)

lemma begin_inv:
  assumes "rt_inv rt" "rt_pending rt = None"
  shows "rt_inv (snd (reload_begin F app rt))"
proof (cases rule: reload_begin_cases [of F app rt])
  case 1
  then show ?thesis using assms by simp
next
  case (2 d plan)
  have "dep_inv rt d" using assms(1) 2(1) by (auto simp: rt_inv_def)
  then have i: "dp_plan d < rt_next rt" "dom (rt_plans rt) = {dp_plan d}" "frames_only (dp_mailbox d)"
    "flow_ptr (dp_actor d) = Some (dp_plan d)"
    using assms(2) by (simp_all add: dep_inv_idle idle_def)
  then have "posted (dp_plan d) (rt_next rt) (dp_mailbox d @ [ReloadFlow (Some (rt_next rt)), GetStatus]) (Some (dp_plan d)) False"
    by (auto simp: posted_def)
  then show ?thesis using i 2(4) by (auto simp: rt_inv_def dep_inv_def Let_def)
qed

lemma replied_answered:
  assumes "rt_inv rt" "rt_replied rt"
  obtains d app q where "rt_dep rt = Some d" "rt_pending rt = Some (app, q)" "q < rt_next rt" "dp_plan d \<noteq> q"
    "dom (rt_plans rt) = {dp_plan d, q}" "frames_only (dp_mailbox d)" "flow_ptr (dp_actor d) = Some q"
  using assms by (elim rt_invE)
    (auto simp: dep_inv_def Let_def idle_def posted_def swapped_def answered_def split: option.splits prod.splits)

lemma end_inv:
  assumes "rt_inv rt" "rt_replied rt"
  shows "rt_inv (reload_end rt)"
  by (rule replied_answered [OF assms]) (auto simp: reload_end_def rt_inv_def dep_inv_def Let_def idle_def)

lemma hot_inv: "hot E n rt e rt' \<Longrightarrow> rt_inv rt \<Longrightarrow> rt_inv rt'"
  by (induction rule: hot.induct) (auto intro: tell_inv work_inv begin_inv end_inv)

lemma hots_inv: "hots E n rt es rt' \<Longrightarrow> rt_inv rt \<Longrightarrow> rt_inv rt'"
  by (induction rule: hots.induct) (auto intro: hot_inv)

section \<open>The steps refine the specification\<close>

lemma resolve_frame:
  "ran_bind (handle E n (ReceiveFrame f) (h, a)) (resolve_plan app) = ran_bind (resolve_plan app (h, a)) (sync_frame E n f)"
proof (cases "Option.bind (flow_ptr a) h")
  case None
  then show ?thesis
    by (cases "flow_ptr a") (auto simp: resolve_plan_def process_frame_def run_bound_def)
next
  case (Some plan)
  then obtain p where p: "flow_ptr a = Some p" "h p = Some plan" by (auto simp: Option.bind_eq_Some_conv)
  show ?thesis
    unfolding handle_frame [where h = h and p = p and plan = plan, OF p]
    by (cases "run_plan E n plan (reset (Some f) (ctx a))")
       (auto simp: resolve_plan_def p sync_frame_def tally_def finish_frame_ptr)
qed

lemma view_tell:
  assumes "rt_dep rt = Some d"
  shows "view E n (post_messages [ReceiveFrame f] rt) = ran_bind (view E n rt) (sync_frame E n f)"
proof -
  have "view E n (post_messages [ReceiveFrame f] rt) = ran_bind (drained E n (dp_mailbox d @ [ReceiveFrame f]) (rt_plans rt, dp_actor d))
      (resolve_plan (current_app rt d))"
    using assms by (simp add: view_def post_messages_def current_app_def cong: option.case_cong)
  also have "\<dots> = ran_bind (drained E n (dp_mailbox d) (rt_plans rt, dp_actor d))
      (\<lambda>x. ran_bind (handle E n (ReceiveFrame f) x) (resolve_plan (current_app rt d)))"
    by (simp add: drained_append ran_bind_assoc del: handle.simps)
  also have "\<dots> = ran_bind (view E n rt) (sync_frame E n f)"
    using assms resolve_frame
    by (cases "drained E n (dp_mailbox d) (rt_plans rt, dp_actor d)") (auto simp: view_def split_paired_all simp del: handle.simps)
  finally show ?thesis .
qed

lemma view_work:
  assumes "work E n rt = Returns rt'"
  shows "view E n rt' = view E n rt"
proof (cases "rt_dep rt")
  case None
  then show ?thesis using assms by (simp add: work_def)
next
  case (Some d)
  show ?thesis
    by (cases rule: work_cases [OF assms Some]) (use Some in \<open>simp_all add: view_def current_app_def del: handle.simps cong: option.case_cong\<close>)
qed

lemma view_begin:
  assumes "rt_inv rt" "rt_pending rt = None"
  shows "view E n (snd (reload_begin F app rt)) = ran_bind (view E n rt) (Returns \<circ> sync_reload F (rt_nodes rt) app)"
proof -
  obtain d where d: "rt_dep rt = Some d" "dep_inv rt d" by (rule rt_invE [OF assms(1)])
  have i: "dp_plan d < rt_next rt" "dp_plan d \<in> dom (rt_plans rt)" "frames_only (dp_mailbox d)"
    "flow_ptr (dp_actor d) = Some (dp_plan d)"
    using d(2) assms(2) by (simp_all add: dep_inv_idle idle_def)
  let ?r = "drained E n (dp_mailbox d) (rt_plans rt, dp_actor d)"
  show ?thesis
  proof (cases rule: reload_begin_cases [of F app rt])
    case 1
    have "sync_reload F (rt_nodes rt) app s = s" if "sy_app s = dp_app d" for s :: "'a sync"
      using 1(3) [OF d(1)] that by (auto simp: sync_reload_def split: option.splits outcome.splits)
    then have "ran_bind (resolve_plan (dp_app d) x) (Returns \<circ> sync_reload F (rt_nodes rt) app) = resolve_plan (dp_app d) x" for x
      by (auto simp: resolve_plan_def split: prod.splits option.splits)
    then show ?thesis using 1(1) d(1) assms(2) by (cases ?r) (simp_all add: view_def current_app_def)
  next
    case (2 d' plan)
    have dd: "d' = d" using 2(1) d(1) by simp
    have o: "drained E n (dp_mailbox d) ((rt_plans rt)(rt_next rt \<mapsto> plan), dp_actor d) =
        ran_bind ?r (\<lambda>(h, a). Returns (h(rt_next rt \<mapsto> plan), a))"
      by (rule drained_other [OF i(3,4,2)]) (use i(1) in simp)
    show ?thesis
    proof (cases ?r)
      case (Returns x)
      obtain h a where x: "x = (h, a)" by fastforce
      have "flow_ptr a = Some (dp_plan d)" "dp_plan d \<in> dom h"
        using drained_keeps [OF i(3,4,2) Returns [unfolded x]] i(2) by auto
      then show ?thesis
        using 2(2,3) Returns x d(1) o assms(2) unfolding 2(4) dd
        by (auto simp: view_def current_app_def drained_append resolve_plan_def sync_reload_def bind_flow_def)
    qed (use d(1) o 2(4) dd in \<open>simp_all add: view_def current_app_def drained_append\<close>)
  qed
qed

lemma view_end:
  assumes "rt_inv rt" "rt_replied rt"
  shows "view E n (reload_end rt) = view E n rt"
proof -
  obtain d app q where d: "rt_dep rt = Some d" "rt_pending rt = Some (app, q)" "dp_plan d \<noteq> q"
      "dom (rt_plans rt) = {dp_plan d, q}" "frames_only (dp_mailbox d)" "flow_ptr (dp_actor d) = Some q"
    using replied_answered [OF assms] by metis
  let ?r = "drained E n (dp_mailbox d) (rt_plans rt, dp_actor d)"
  have q: "q \<in> dom (rt_plans rt)" using d(4) by simp
  have o: "drained E n (dp_mailbox d) ((rt_plans rt)(dp_plan d := None), dp_actor d) =
      ran_bind ?r (\<lambda>(h, a). Returns (h(dp_plan d := None), a))"
    by (rule drained_other [OF d(5,6) q d(3)])
  show ?thesis
  proof (cases ?r)
    case (Returns x)
    obtain h a where x: "x = (h, a)" by fastforce
    have "flow_ptr a = Some q" using drained_keeps [OF d(5,6) q Returns [unfolded x]] by blast
    then show ?thesis using Returns x d o by (simp add: view_def current_app_def reload_end_def resolve_plan_def)
  qed (use d o in \<open>simp_all add: view_def current_app_def reload_end_def\<close>)
qed

lemma hot_refines:
  assumes "hot E n rt e rt'" "rt_inv rt"
  shows "view E n rt' = ran_bind (view E n rt) (sync_step E n (rt_nodes rt) e)" "rt_nodes rt' = rt_nodes rt"
proof -
  obtain d where d: "rt_dep rt = Some d" by (rule rt_invE [OF assms(2)])
  have "view E n rt' = ran_bind (view E n rt) (sync_step E n (rt_nodes rt) e) \<and> rt_nodes rt' = rt_nodes rt"
    using assms
  proof (cases rule: hot.cases)
    case (hot_tell f)
    then show ?thesis using view_tell [OF d, of E n f] d by (cases "view E n rt") (simp_all add: post_messages_def)
  next
    case hot_work
    have "rt_nodes rt' = rt_nodes rt" by (cases rule: work_cases [OF hot_work(2) d]) simp_all
    then show ?thesis using hot_work view_work [OF hot_work(2)] by (cases "view E n rt") simp_all
  next
    case (hot_begin app)
    have "rt_nodes (snd (reload_begin (e_fp E) app rt)) = rt_nodes rt"
      by (cases rule: reload_begin_cases [of "e_fp E" app rt]) simp_all
    then show ?thesis using hot_begin view_begin [OF assms(2) hot_begin(3), of E n "e_fp E" app] by (cases "view E n rt") simp_all
  next
    case hot_end
    then show ?thesis using view_end [OF assms(2) hot_end(3), of E n] d
      by (cases "view E n rt") (simp_all add: reload_end_def split: option.splits prod.splits)
  qed
  then show "view E n rt' = ran_bind (view E n rt) (sync_step E n (rt_nodes rt) e)" "rt_nodes rt' = rt_nodes rt" by blast+
qed

lemma hots_refine:
  assumes "hots E n rt es rt'" "rt_inv rt"
  shows "view E n rt' = ran_bind (view E n rt) (sync_run E n (rt_nodes rt) es) \<and> rt_nodes rt' = rt_nodes rt"
  using assms
proof (induction rule: hots.induct)
  case (hots_nil rt)
  then show ?case by (cases "view E n rt") simp_all
next
  case (hots_snoc rt es rt' e rt'')
  then show ?case
    using hot_refines [OF hots_snoc(2) hots_inv [OF hots_snoc(1) hots_snoc.prems]]
    by (cases "view E n rt") (simp_all add: sync_run_append sync_run_single del: sync_run.simps(2))
qed

section \<open>What a returned reload leaves\<close>

lemma await_reload:
  assumes "frames_only fs" "rt_dep rt = Some d" "dp_mailbox d = fs @ [ReloadFlow (Some q), GetStatus]" "\<not> rt_replied rt"
  shows "await E n (length (dp_mailbox d)) rt = ran_bind (drained E n (dp_mailbox d) (rt_plans rt, dp_actor d))
    (\<lambda>(h, a). Returns (rt\<lparr>rt_plans := h, rt_dep := Some (d\<lparr>dp_actor := a, dp_mailbox := []\<rparr>), rt_replied := True\<rparr>))"
  using assms
proof (induction fs arbitrary: rt d)
  case Nil
  then show ?case by (simp add: work_def)
next
  case (Cons m fs)
  let ?ms = "fs @ [ReloadFlow (Some q), GetStatus]"
  have m: "m \<noteq> GetStatus" using Cons.prems(1) by auto
  show ?case
  proof (cases "handle E n m (rt_plans rt, dp_actor d)")
    case (Returns x)
    obtain h a where x: "x = (h, a)" by fastforce
    let ?d = "d\<lparr>dp_actor := a, dp_mailbox := ?ms\<rparr>"
    let ?rt = "rt\<lparr>rt_plans := h, rt_dep := Some ?d, rt_replied := False\<rparr>"
    have "work E n rt = Returns ?rt" using Returns x Cons.prems m by (simp add: work_def del: handle.simps)
    moreover have "await E n (length ?ms) ?rt = ran_bind (drained E n ?ms (h, a))
        (\<lambda>(h, a). Returns (rt\<lparr>rt_plans := h, rt_dep := Some (d\<lparr>dp_actor := a, dp_mailbox := []\<rparr>), rt_replied := True\<rparr>))"
      using Cons.IH [of ?rt ?d] Cons.prems(1) by simp
    ultimately show ?thesis using Returns x Cons.prems(3,4) by (simp del: handle.simps)
  qed (use Cons.prems in \<open>simp_all add: work_def del: handle.simps\<close>)
qed

text \<open>A reload that returns success has swapped in the freshly compiled plan and kept nothing else.\<close>

lemma reload_returns:
  assumes "rt_inv rt" "rt_pending rt = None" "rt_dep rt = Some d" "reload E n app rt = Returns (RtOk, rt')"
  obtains d' plan where "rt_dep rt' = Some d'" "dp_app d' = app" "dp_driver d' = dp_driver d" "dp_poll_ms d' = dp_poll_ms d"
    "classify_buildonly (dp_app d) app = None" "compile_flow (e_fp E) (rt_nodes rt) app = Accepted plan"
    "rt_plans rt' = [dp_plan d' \<mapsto> plan]" "previous_app rt' = Some (dp_app d)" "rt_pending rt' = None"
    "rt_nodes rt' = rt_nodes rt" "rt_inv rt'" "dp_mailbox d' = []"
proof (cases rule: reload_begin_cases [of "e_fp E" app rt])
  case 1
  then show thesis using assms(4) by (auto simp: reload_def split: prod.splits rt_result.splits)
next
  case (2 d0 plan)
  have d0: "d0 = d" using 2(1) assms(3) by simp
  have "dep_inv rt d" using assms(1,3) by (auto simp: rt_inv_def)
  then have i: "dp_plan d < rt_next rt" "dom (rt_plans rt) = {dp_plan d}" "frames_only (dp_mailbox d)"
    "flow_ptr (dp_actor d) = Some (dp_plan d)" "dp_plan d \<in> dom (rt_plans rt)"
    using assms(2) by (simp_all add: dep_inv_idle idle_def)
  let ?q = "rt_next rt"
  let ?d = "d\<lparr>dp_mailbox := dp_mailbox d @ [ReloadFlow (Some ?q), GetStatus]\<rparr>"
  let ?rt = "rt\<lparr>rt_plans := (rt_plans rt)(?q \<mapsto> plan), rt_next := Suc ?q, rt_pending := Some (app, ?q), rt_replied := False, rt_dep := Some ?d\<rparr>"
  have posted_ok: "reload_begin (e_fp E) app rt = (RtOk, ?rt)" using 2(4) d0 by simp
  let ?r = "drained E n (dp_mailbox d) (rt_plans rt, dp_actor d)"
  have o: "drained E n (dp_mailbox d) ((rt_plans rt)(?q \<mapsto> plan), dp_actor d) =
      ran_bind ?r (\<lambda>(h, a). Returns (h(?q \<mapsto> plan), a))"
    by (rule drained_other [OF i(3,4,5)]) (use i(1) in simp)
  have "await E n (length (dp_mailbox ?d)) ?rt = ran_bind (drained E n (dp_mailbox ?d) (rt_plans ?rt, dp_actor ?d))
      (\<lambda>(h, a). Returns (?rt\<lparr>rt_plans := h, rt_dep := Some (?d\<lparr>dp_actor := a, dp_mailbox := []\<rparr>), rt_replied := True\<rparr>))"
    by (rule await_reload [OF i(3)]) simp_all
  then have r: "reload E n app rt = ran_bind (drained E n (dp_mailbox ?d) (rt_plans ?rt, dp_actor ?d))
      (\<lambda>(h, a). Returns (RtOk, reload_end (?rt\<lparr>rt_plans := h, rt_dep := Some (?d\<lparr>dp_actor := a, dp_mailbox := []\<rparr>), rt_replied := True\<rparr>)))"
    by (cases "drained E n (dp_mailbox ?d) (rt_plans ?rt, dp_actor ?d)") (simp_all add: reload_def posted_ok mail_count_def split_beta)
  obtain h a where h: "?r = Returns (h, a)"
    using assms(4) o unfolding r by (cases ?r) (auto simp: drained_append)
  have k: "flow_ptr a = Some (dp_plan d) \<and> dom h = dom (rt_plans rt)" by (rule drained_keeps [OF i(3,4,5) h])
  let ?a = "a\<lparr>flow_ptr := Some ?q, reloads := reloads a + 1\<rparr>"
  have rt': "rt' = reload_end (?rt\<lparr>rt_plans := h(?q \<mapsto> plan), rt_dep := Some (?d\<lparr>dp_actor := ?a, dp_mailbox := []\<rparr>), rt_replied := True\<rparr>)"
    using assms(4) o h unfolding r by (simp add: drained_append bind_flow_def)
  have "h x = None" if "x \<noteq> dp_plan d" for x using k i(2) that by auto
  then have "(h(?q \<mapsto> plan))(dp_plan d := None) = [?q \<mapsto> plan]" using i(1) by (auto simp: fun_eq_iff)
  then show thesis
    using that [of "d\<lparr>dp_app := app, dp_name := app_name app, dp_version := version app, dp_plan := ?q, dp_actor := ?a, dp_mailbox := []\<rparr>" plan]
      2(2,3) d0 unfolding rt' by (simp add: reload_end_def rt_inv_def dep_inv_def idle_def Let_def)
qed

lemma classify_sym: "classify_buildonly a b = None \<Longrightarrow> classify_buildonly b a = None"
  by (auto simp: classify_buildonly_def split: if_splits option.splits)

lemma install_inv:
  assumes "rt_plans rt = Map.empty" "rt_pending rt = None" "\<not> rt_replied rt"
  shows "rt_inv (install F app plan drv rt)" "rt_pending (install F app plan drv rt) = None"
  using assms by (simp_all add: install_def rt_inv_def dep_inv_idle idle_def bind_flow_def)

lemma deploy_cases:
  assumes "deploy F W app rt = (RtOk, rt')"
  obtains plan drv where "rt_dep rt = None" "compile_flow F (rt_nodes rt) app = Accepted plan" "rt' = install F app plan drv rt"
  using assms by (auto simp: deploy_def start_driver_def split: option.splits outcome.splits sum.splits if_splits prod.splits DriverStatus.splits)

section \<open>Applications that differ outside their flow\<close>

lemma compile_flow_same_flow:
  assumes "flow b = flow a" "edges b = edges a"
  shows "compile_flow F reg b = compile_flow F reg a"
proof -
  have ids: "id_to_index b = id_to_index a" by (simp add: id_to_index_def assms)
  have edge: "read_edge b = read_edge a" by (intro ext) (simp only: read_edge_def ids assms)
  have "read_edges b es s = read_edges a es s" for es s
    by (induction es arbitrary: s) (auto simp: edge split: sum.splits)
  then have "order_flow_graph b = order_flow_graph a"
    by (intro ext) (simp only: order_flow_graph_def assms)
  moreover have "validate_tag_writers b = validate_tag_writers a"
    by (intro ext) (simp only: validate_tag_writers_def collides_def [abs_def] writer_at_def [abs_def] assms)
  moreover have "validate_terminal_placement b = validate_terminal_placement a"
    by (intro ext) (simp only: validate_terminal_placement_def ids assms)
  ultimately show ?thesis by (simp only: compile_flow_def assms)
qed

definition version_two :: "int Application" where
  "version_two = two_switch_app\<lparr>version := ''2'', driver := Some \<lparr>ds_type_id = ''aero.driver.generator'', ds_config = JObject []\<rparr>\<rparr>"

lemma version_two_compiled: "compile_flow int_fp (builtins int_fp dump) version_two = Accepted two_switch_plan"
  using compile_flow_same_flow [of version_two two_switch_app int_fp "builtins int_fp dump"] two_switch_compiled
  by (simp add: version_two_def)

abbreviation no_dump :: "int json \<Rightarrow> string" where
  "no_dump \<equiv> \<lambda>_. []"

definition no_devices :: device_world where
  "no_devices = \<lparr>dw_now = 0, dw_tcp = (\<lambda>_. None), dw_serial = (\<lambda>_. None), dw_opcua = (\<lambda>_. DsError)\<rparr>"

definition fresh_example :: "int Runtime" where
  "fresh_example = new_Runtime int_fp no_dump"

definition deployed_example :: "int Runtime" where
  "deployed_example = install int_fp two_switch_app two_switch_plan None fresh_example"

lemma example_facts:
  "rt_nodes fresh_example = builtins int_fp no_dump" "rt_dep fresh_example = None"
  "rt_plans fresh_example = Map.empty" "rt_pending fresh_example = None" "\<not> rt_replied fresh_example"
  by (simp_all add: fresh_example_def new_Runtime_def)

lemma deployed_example: "deploy int_fp W two_switch_app fresh_example = (RtOk, deployed_example)"
  using two_switch_compiled [of no_dump]
  by (simp add: deploy_def example_facts deployed_example_def two_switch_app_def app_of_def)

lemma deployed_example_dep:
  "rt_dep deployed_example = Some \<lparr>dp_app = two_switch_app, dp_name = ''app'', dp_version = ''1'', dp_key = 0, dp_plan = 0,
     dp_driver = None, dp_poll_ms = None, dp_actor = bind_flow 0 (new_FlowActor int_fp), dp_mailbox = []\<rparr>"
  by (simp add: deployed_example_def install_def fresh_example_def new_Runtime_def two_switch_app_def app_of_def)

lemma classify_version_two: "classify_buildonly two_switch_app version_two = None" "classify_buildonly version_two two_switch_app = None"
  by (simp_all add: classify_buildonly_def version_two_def split: option.splits)

lemma deployed_example_inv: "rt_inv deployed_example" "rt_pending deployed_example = None"
  "rt_nodes deployed_example = builtins int_fp no_dump"
  using install_inv [of fresh_example int_fp two_switch_app two_switch_plan None] example_facts
  by (simp_all add: deployed_example_def) (simp add: install_def)

section \<open>Properties\<close>

text \<open>
  C9: Hot reload is atomic and loses no frame. From a successful deploy, after any interleaving of told
  frames, worker turns, reloads that pass or fail their checks and reloads that finish, the deployment is
  the one that would result if every frame had been run at once when it was told and every accepted
  reload had replaced the application, its plan and the node state at once: frames told before a reload
  run on the old plan, frames told after it on the new one, each exactly once, and a rejected reload
  changes nothing.
\<close>

theorem hot_reload_atomic:
  assumes "deploy (e_fp E) W app (new_Runtime (e_fp E) dump) = (RtOk, rt)" "hots E n rt es rt'"
  shows "\<exists>plan. compile_flow (e_fp E) (rt_nodes rt) app = Accepted plan \<and>
    view E n rt' = sync_run E n (rt_nodes rt) es \<lparr>sy_app = app, sy_plan = plan, sy_actor = new_FlowActor (e_fp E)\<rparr>"
proof (rule deploy_cases [OF assms(1)])
  fix plan drv
  assume a: "compile_flow (e_fp E) (rt_nodes (new_Runtime (e_fp E) dump)) app = Accepted plan"
    "rt = install (e_fp E) app plan drv (new_Runtime (e_fp E) dump)"
  have "rt_inv rt" unfolding a(2) by (rule install_inv) (simp_all add: new_Runtime_def)
  moreover have "view E n rt = Returns \<lparr>sy_app = app, sy_plan = plan, sy_actor = new_FlowActor (e_fp E)\<rparr>"
    by (simp add: a(2) view_def install_def current_app_def new_Runtime_def resolve_plan_def bind_flow_def new_FlowActor_def)
  ultimately show ?thesis using hots_refine [OF assms(2)] a by (simp add: install_def)
qed

theorem hot_reload_atomic_witness:
  "\<exists>rt'. hots int_env 9 deployed_example [ReloadBegin version_two, Tell (seq_frame 5), Work] rt' \<and>
    view int_env 9 rt' = sync_run int_env 9 (builtins int_fp no_dump) [ReloadBegin version_two, Tell (seq_frame 5), Work]
      \<lparr>sy_app = two_switch_app, sy_plan = two_switch_plan, sy_actor = new_FlowActor int_fp\<rparr>"
proof -
  let ?r = "snd (reload_begin int_fp version_two deployed_example)"
  let ?s = "post_messages [ReceiveFrame (seq_frame 5)] ?r"
  have fp: "e_fp int_env = int_fp" by (simp add: int_env_def)
  have "hots int_env 9 deployed_example [ReloadBegin version_two] ?r"
    using hots_snoc [OF hots_nil hot_begin, of deployed_example int_env 9 version_two] deployed_example_inv(2) fp by simp
  from hots_snoc [OF this hot_tell, of "seq_frame 5"] have t: "hots int_env 9 deployed_example [ReloadBegin version_two, Tell (seq_frame 5)] ?s" by simp
  have "fst (reload_begin int_fp version_two deployed_example) = RtOk"
    using version_two_compiled [of no_dump] deployed_example_inv(3) classify_version_two deployed_example_dep
    by (simp add: reload_begin_def)
  then obtain rt' where "work int_env 9 ?s = Returns rt'"
    by (cases rule: reload_begin_cases [of int_fp version_two deployed_example]) (auto simp: post_messages_def work_def deployed_example_dep)
  with hots_snoc [OF t hot_work] have h: "hots int_env 9 deployed_example [ReloadBegin version_two, Tell (seq_frame 5), Work] rt'" by simp
  have c: "compile_flow int_fp (builtins int_fp no_dump) two_switch_app = Accepted two_switch_plan" by (rule two_switch_compiled)
  show ?thesis
    using hot_reload_atomic [of int_env no_devices two_switch_app no_dump, OF _ h] deployed_example h c deployed_example_inv(3) fp
    by (auto simp: fresh_example_def)
qed

text \<open>
  C10: The actor never runs a destroyed flow. In every such run each plan the actor or a message in its
  mailbox refers to is allocated; while no reload is in progress exactly one plan is allocated, the one
  the deployment owns and the actor is bound to, so a retired plan is freed and none leaks.
\<close>

theorem flow_pointer_never_dangles:
  assumes "deploy (e_fp E) W app (new_Runtime (e_fp E) dump) = (RtOk, rt)" "hots E n rt es rt'"
  shows "\<exists>d. rt_dep rt' = Some d \<and> live_refs (dp_mailbox d) (dp_actor d) \<subseteq> dom (rt_plans rt') \<and>
    (rt_pending rt' = None \<longrightarrow> dom (rt_plans rt') = {dp_plan d} \<and> flow_ptr (dp_actor d) = Some (dp_plan d))"
proof -
  obtain plan drv where "rt = install (e_fp E) app plan drv (new_Runtime (e_fp E) dump)" by (rule deploy_cases [OF assms(1)])
  then have "rt_inv rt" by (simp add: install_inv new_Runtime_def)
  from hots_inv [OF assms(2) this] obtain d where d: "rt_dep rt' = Some d" "dep_inv rt' d" by (rule rt_invE)
  have none: "\<Union> (refers ` set ms) = {}" if "frames_only ms" for ms
    using that by (induction ms) (auto elim: is_frame.elims)
  have "live_refs (dp_mailbox d) (dp_actor d) \<subseteq> dom (rt_plans rt')"
    using d(2) by (cases "rt_pending rt'")
      (auto simp: dep_inv_def Let_def live_refs_def idle_def posted_def swapped_def answered_def simp del: refers.simps dest!: none, auto)
  moreover have "dom (rt_plans rt') = {dp_plan d} \<and> flow_ptr (dp_actor d) = Some (dp_plan d)" if "rt_pending rt' = None"
    using d(2) that by (simp add: dep_inv_idle idle_def)
  ultimately show ?thesis using d(1) by (intro exI [of _ d]) simp
qed

theorem flow_pointer_never_dangles_witness:
  "\<exists>rt' d. hots int_env 9 deployed_example [ReloadBegin version_two] rt' \<and> rt_dep rt' = Some d \<and>
     live_refs (dp_mailbox d) (dp_actor d) \<subseteq> dom (rt_plans rt')"
proof -
  let ?r = "snd (reload_begin int_fp version_two deployed_example)"
  have fp: "e_fp int_env = int_fp" by (simp add: int_env_def)
  have h: "hots int_env 9 deployed_example [ReloadBegin version_two] ?r"
    using hots_snoc [OF hots_nil hot_begin, of deployed_example int_env 9 version_two] deployed_example_inv(2) fp by simp
  show ?thesis
    using flow_pointer_never_dangles [of int_env no_devices two_switch_app no_dump, OF _ h] deployed_example h fp
    by (auto simp: fresh_example_def)
qed

text \<open>
  A rollback undoes a reload. When a reload has returned success and a rollback after it returns, the
  rollback has succeeded: the application deployed before is deployed again with a freshly compiled plan,
  the driver is the one of the deployment throughout, and the previous version is now the one the reload
  had brought.
\<close>

theorem rollback_restores:
  assumes "rt_inv rt" "rt_pending rt = None" "rt_dep rt = Some d" "reload E n app rt = Returns (RtOk, rt1)"
    and "rollback E n rt1 = Returns (r, rt2)" "compile_flow (e_fp E) (rt_nodes rt) (dp_app d) = Accepted plan"
  shows "r = RtOk \<and> previous_app rt2 = Some app \<and> (\<exists>d2. rt_dep rt2 = Some d2 \<and> dp_app d2 = dp_app d \<and>
    dp_driver d2 = dp_driver d \<and> rt_plans rt2 = [dp_plan d2 \<mapsto> plan])"
proof (rule reload_returns [OF assms(1-4)])
  fix d1 plan1
  assume d1: "rt_dep rt1 = Some d1" "dp_app d1 = app" "dp_driver d1 = dp_driver d"
    "classify_buildonly (dp_app d) app = None" "previous_app rt1 = Some (dp_app d)" "rt_pending rt1 = None"
    "rt_nodes rt1 = rt_nodes rt" "rt_inv rt1"
  have again: "reload E n (dp_app d) rt1 = Returns (r, rt2)" using assms(5) d1(1,5) by (simp add: rollback_def)
  have "fst (reload_begin (e_fp E) (dp_app d) rt1) = RtOk"
    using d1 classify_sym [OF d1(4)] assms(6) by (simp add: reload_begin_def)
  then have ok: "r = RtOk" using again
    by (auto simp: reload_def split: prod.splits rt_result.splits elim!: ran_bind.elims)
  from again [unfolded ok] obtain d2 plan2 where "rt_dep rt2 = Some d2" "dp_app d2 = dp_app d" "dp_driver d2 = dp_driver d1"
      "compile_flow (e_fp E) (rt_nodes rt1) (dp_app d) = Accepted plan2" "rt_plans rt2 = [dp_plan d2 \<mapsto> plan2]"
      "previous_app rt2 = Some (dp_app d1)"
    by (rule reload_returns [OF d1(8,6,1)])
  then show ?thesis using ok d1 assms(6) by simp
qed

text \<open>A reload of the example returns at once: its mailbox is empty.\<close>

lemma reload_empty_mailbox:
  assumes "rt_dep rt = Some d" "dp_mailbox d = []" "classify_buildonly (dp_app d) app = None"
    "compile_flow (e_fp E) (rt_nodes rt) app = Accepted plan"
  shows "\<exists>rt'. reload E n app rt = Returns (RtOk, rt')"
  using assms by (simp add: reload_def reload_begin_def post_messages_def mail_count_def work_def)

theorem rollback_restores_witness:
  "\<exists>rt1 rt2. reload int_env 9 version_two deployed_example = Returns (RtOk, rt1) \<and>
     rollback int_env 9 rt1 = Returns (RtOk, rt2) \<and> previous_app rt2 = Some version_two"
proof -
  have fp: "e_fp int_env = int_fp" by (simp add: int_env_def)
  note c = version_two_compiled [of no_dump] two_switch_compiled [of no_dump]
  obtain rt1 where r1: "reload int_env 9 version_two deployed_example = Returns (RtOk, rt1)"
    using reload_empty_mailbox [OF deployed_example_dep, of version_two int_env two_switch_plan 9]
      c(1) classify_version_two deployed_example_inv(3) fp by auto
  from r1 obtain d1 where d1: "rt_dep rt1 = Some d1" "dp_app d1 = version_two" "dp_mailbox d1 = []"
      "previous_app rt1 = Some two_switch_app" "rt_nodes rt1 = rt_nodes deployed_example"
    by (rule reload_returns [OF deployed_example_inv(1,2) deployed_example_dep]) simp
  obtain rt2 where r2: "reload int_env 9 two_switch_app rt1 = Returns (RtOk, rt2)"
    using reload_empty_mailbox [OF d1(1,3), of two_switch_app int_env two_switch_plan 9]
      c(2) classify_version_two deployed_example_inv(3) fp d1 by auto
  then have r: "rollback int_env 9 rt1 = Returns (RtOk, rt2)" using d1 by (simp add: rollback_def)
  show ?thesis
    using rollback_restores [OF deployed_example_inv(1,2) deployed_example_dep r1 r] r1 r c deployed_example_inv(3) fp
    by auto
qed

text \<open>
  What a reload and a rollback overlook. A reload to an application with another driver succeeds and
  reports the new application while the old driver goes on running; and a rollback right after a new
  deploy, with no reload in between, installs the application some earlier deployment had replaced.
\<close>

theorem reload_overlooks:
  assumes "rt_inv rt" "rt_pending rt = None" "rt_dep rt = Some d" "reload E n app rt = Returns (RtOk, rt1)"
    and "undeploy [] rt1 = (RtOk, rt2)" "deploy (e_fp E) W again rt2 = (RtOk, rt3)"
  shows "\<exists>d1. rt_dep rt1 = Some d1 \<and> dp_app d1 = app \<and> dp_driver d1 = dp_driver d \<and> dp_poll_ms d1 = dp_poll_ms d \<and>
    rollback E n rt3 = reload E n (dp_app d) rt3"
proof (rule reload_returns [OF assms(1-4)])
  fix d1
  assume d1: "rt_dep rt1 = Some d1" "dp_app d1 = app" "dp_driver d1 = dp_driver d" "dp_poll_ms d1 = dp_poll_ms d"
    "previous_app rt1 = Some (dp_app d)"
  have "previous_app rt2 = Some (dp_app d)" using assms(5) d1 by (auto simp: undeploy_def)
  moreover obtain plan drv where "rt3 = install (e_fp E) again plan drv rt2" by (rule deploy_cases [OF assms(6)])
  ultimately show ?thesis using d1 by (simp add: rollback_def install_def)
qed

theorem reload_overlooks_witness:
  "\<exists>rt1 rt2 rt3 d1. reload int_env 9 version_two deployed_example = Returns (RtOk, rt1) \<and>
     undeploy [] rt1 = (RtOk, rt2) \<and> deploy int_fp no_devices version_two rt2 = (RtOk, rt3) \<and>
     rt_dep rt1 = Some d1 \<and> driver (dp_app d1) \<noteq> None \<and> dp_driver d1 = None \<and>
     rollback int_env 9 rt3 = reload int_env 9 two_switch_app rt3"
proof -
  have fp: "e_fp int_env = int_fp" by (simp add: int_env_def)
  note c = version_two_compiled [of no_dump]
  obtain rt1 where r1: "reload int_env 9 version_two deployed_example = Returns (RtOk, rt1)"
    using reload_empty_mailbox [OF deployed_example_dep, of version_two int_env two_switch_plan 9]
      c classify_version_two deployed_example_inv(3) fp by auto
  from r1 obtain d1 where d1: "rt_dep rt1 = Some d1" "dp_app d1 = version_two" "rt_nodes rt1 = rt_nodes deployed_example"
    by (rule reload_returns [OF deployed_example_inv(1,2) deployed_example_dep]) simp
  let ?rt2 = "rt1\<lparr>rt_dep := None, rt_plans := (rt_plans rt1)(dp_plan d1 := None)\<rparr>"
  have r2: "undeploy [] rt1 = (RtOk, ?rt2)" using d1 by (simp add: undeploy_def)
  obtain rt3 where r3: "deploy int_fp no_devices version_two ?rt2 = (RtOk, rt3)"
    using c d1(3) deployed_example_inv(3)
    by (auto simp: deploy_def start_driver_def create_driver_def driver_config_def value_uint_def value_or_def version_two_def)
  show ?thesis
    using reload_overlooks [OF deployed_example_inv(1,2) deployed_example_dep r1 r2, of no_devices version_two rt3] r1 r2 r3 fp d1
    by (auto simp: version_two_def)
qed

end
