(* ===== verification/Placement.thy ===== *)
theory Placement
  imports Aero_Prelude "HOL-Library.Multiset"
begin

text \<open>
  Device placement: \<open>cluster/placement.hpp\<close> and \<open>cluster/cluster.hpp\<close>. The capability sets of the
  nodes and the weighted rendezvous hash that picks among candidates belong to the actor runtime: the
  first are the record \<open>cap_ops\<close> of operations, the second is an argument \<open>place_weighted\<close> of the
  actor's hash, the candidates and the view. Of the pick only \<open>picks_candidate\<close> is used: a node it
  returns is one of the candidates, and it returns one when there is a candidate.
\<close>

section \<open>Capabilities and constraints\<close>

record 'c cap_ops =
  cap_empty :: 'c
  cap_add :: "string \<Rightarrow> 'c \<Rightarrow> 'c"
  cap_has_flag :: "'c \<Rightarrow> string \<Rightarrow> bool"
  cap_label :: "'c \<Rightarrow> string \<Rightarrow> string"

type_synonym node_id = u64

datatype ConstraintKind = Flag | Label

record CapabilityConstraint =
  cc_kind :: ConstraintKind
  cc_name :: string
  cc_value :: string

definition flag_constraint :: "string \<Rightarrow> CapabilityConstraint" where
  "flag_constraint n = \<lparr>cc_kind = Flag, cc_name = n, cc_value = []\<rparr>"

definition label_constraint :: "string \<Rightarrow> string \<Rightarrow> CapabilityConstraint" where
  "label_constraint n v = \<lparr>cc_kind = Label, cc_name = n, cc_value = v\<rparr>"

definition satisfied_by :: "'c cap_ops \<Rightarrow> CapabilityConstraint \<Rightarrow> 'c \<Rightarrow> bool" where
  "satisfied_by C k c = (case cc_kind k of
       Flag \<Rightarrow> cap_has_flag C c (cc_name k)
     | Label \<Rightarrow> cap_label C c (cc_name k) = cc_value k)"

record PlacementRequirement =
  required :: "CapabilityConstraint list"
  preferred :: "CapabilityConstraint list"

definition node_eligible :: "'c cap_ops \<Rightarrow> PlacementRequirement \<Rightarrow> 'c \<Rightarrow> bool" where
  "node_eligible C req c \<longleftrightarrow> list_all (\<lambda>r. satisfied_by C r c) (required req)"

definition node_preferred :: "'c cap_ops \<Rightarrow> PlacementRequirement \<Rightarrow> 'c \<Rightarrow> bool" where
  "node_preferred C req c \<longleftrightarrow> list_all (\<lambda>p. satisfied_by C p c) (preferred req)"

section \<open>The cluster view\<close>

record 'c ClusterNodeSpec =
  node_spec_id :: node_id
  node_caps :: 'c

text \<open>The live nodes of the membership, annotated: a node without an entry has no capability.\<close>

record 'c CapabilityView =
  cv_nodes :: "node_id list"
  cv_caps :: "node_id \<rightharpoonup> 'c"

definition capabilities_of :: "'c cap_ops \<Rightarrow> 'c CapabilityView \<Rightarrow> node_id \<Rightarrow> 'c" where
  "capabilities_of C view n = (case cv_caps view n of Some c \<Rightarrow> c | None \<Rightarrow> cap_empty C)"

record 'c ClusterView =
  cl_nodes :: "'c ClusterNodeSpec list"
  cl_view :: "'c CapabilityView"

text \<open>\<open>emplace\<close> keeps the entry of a node listed twice that comes first.\<close>

definition cap_map :: "'c ClusterNodeSpec list \<Rightarrow> node_id \<rightharpoonup> 'c" where
  "cap_map ns = map_of (map (\<lambda>s. (node_spec_id s, node_caps s)) ns)"

definition refresh :: "node_id list \<Rightarrow> 'c ClusterView \<Rightarrow> 'c ClusterView" where
  "refresh alive cl = cl\<lparr>cl_view := \<lparr>cv_nodes = alive, cv_caps = cap_map (cl_nodes cl)\<rparr>\<rparr>"

definition new_ClusterView :: "'c ClusterNodeSpec list \<Rightarrow> node_id list \<Rightarrow> 'c ClusterView" where
  "new_ClusterView ns alive = refresh alive \<lparr>cl_nodes = ns, cl_view = \<lparr>cv_nodes = [], cv_caps = Map.empty\<rparr>\<rparr>"

section \<open>Placing one actor\<close>

datatype PlacementError = NoMembership | NoEligibleNode

text \<open>\<open>Inr\<close> the node, \<open>Inl\<close> the reason.\<close>

type_synonym PlacementResult = "PlacementError + node_id"

type_synonym 'c place_weighted = "u64 \<Rightarrow> node_id list \<Rightarrow> 'c CapabilityView \<Rightarrow> node_id option"

definition eligible_nodes :: "'c cap_ops \<Rightarrow> PlacementRequirement \<Rightarrow> 'c CapabilityView \<Rightarrow> node_id list" where
  "eligible_nodes C req view = filter (\<lambda>n. node_eligible C req (capabilities_of C view n)) (cv_nodes view)"

definition candidates :: "'c cap_ops \<Rightarrow> PlacementRequirement \<Rightarrow> 'c CapabilityView \<Rightarrow> node_id list" where
  "candidates C req view = (let eligible = eligible_nodes C req view;
       pref = filter (\<lambda>n. node_preferred C req (capabilities_of C view n)) eligible
     in if pref = [] then eligible else pref)"

definition place :: "'c cap_ops \<Rightarrow> 'c place_weighted \<Rightarrow> u64 \<Rightarrow> PlacementRequirement \<Rightarrow> 'c CapabilityView \<Rightarrow> PlacementResult" where
  "place C pick h req view =
     (if cv_nodes view = [] then Inl NoMembership
      else if eligible_nodes C req view = [] then Inl NoEligibleNode
      else case pick h (candidates C req view) view of
        None \<Rightarrow> Inl NoEligibleNode
      | Some n \<Rightarrow> Inr n)"

section \<open>Spreading the actors\<close>

record DeviceActor =
  da_id :: u64
  da_requirement :: PlacementRequirement
  da_name :: string

record PlacementPlan =
  assignments :: "u64 \<rightharpoonup> node_id"
  unplaceable :: "u64 list"
  load :: "node_id \<rightharpoonup> nat"

definition empty_plan :: PlacementPlan where
  "empty_plan = \<lparr>assignments = Map.empty, unplaceable = [], load = Map.empty\<rparr>"

definition load_of :: "PlacementPlan \<Rightarrow> node_id \<Rightarrow> nat" where
  "load_of plan n = (case load plan n of None \<Rightarrow> 0 | Some k \<Rightarrow> k)"

text \<open>\<open>emplace\<close> leaves an earlier assignment of the same actor alone; the load counts anyway.\<close>

definition record_placement :: "u64 \<Rightarrow> PlacementResult \<Rightarrow> PlacementPlan \<Rightarrow> PlacementPlan" where
  "record_placement i r plan = (case r of
       Inr n \<Rightarrow> plan\<lparr>assignments := (if assignments plan i = None then (assignments plan)(i \<mapsto> n) else assignments plan),
                     load := (load plan)(n \<mapsto> load_of plan n + 1)\<rparr>
     | Inl _ \<Rightarrow> plan\<lparr>unplaceable := unplaceable plan @ [i]\<rparr>)"

definition place_actors :: "'c cap_ops \<Rightarrow> 'c place_weighted \<Rightarrow> (u64 \<Rightarrow> u64) \<Rightarrow> DeviceActor list \<Rightarrow> 'c ClusterView \<Rightarrow> PlacementPlan" where
  "place_actors C pick hash actors cl = foldl (\<lambda>plan a.
     record_placement (da_id a) (place C pick (hash (da_id a)) (da_requirement a) (cl_view cl)) plan) empty_plan actors"

section \<open>Facts\<close>

definition picks_candidate :: "'c place_weighted \<Rightarrow> bool" where
  "picks_candidate pick \<longleftrightarrow> (\<forall>h cand view. cand \<noteq> [] \<longrightarrow> (\<exists>n \<in> set cand. pick h cand view = Some n))"

lemma set_place_candidates:
  "set (candidates C req view) = (if \<exists>n \<in> set (eligible_nodes C req view). node_preferred C req (capabilities_of C view n)
     then {n \<in> set (eligible_nodes C req view). node_preferred C req (capabilities_of C view n)}
     else set (eligible_nodes C req view))"
  by (auto simp: candidates_def Let_def filter_empty_conv)

lemma place_Inr:
  assumes "picks_candidate pick"
  shows "eligible_nodes C req view \<noteq> [] \<longleftrightarrow> (\<exists>n. place C pick h req view = Inr n)"
    and "place C pick h req view = Inr n \<Longrightarrow> n \<in> set (candidates C req view)"
proof -
  have c: "candidates C req view \<noteq> [] \<longleftrightarrow> eligible_nodes C req view \<noteq> []"
    by (auto simp: candidates_def Let_def filter_empty_conv)
  have e: "eligible_nodes C req view \<noteq> [] \<Longrightarrow> cv_nodes view \<noteq> []" by (auto simp: eligible_nodes_def)
  show "eligible_nodes C req view \<noteq> [] \<longleftrightarrow> (\<exists>n. place C pick h req view = Inr n)"
    using assms c e unfolding picks_candidate_def place_def by (metis option.simps(5) sum.simps(4))
  show "n \<in> set (candidates C req view)" if "place C pick h req view = Inr n"
    using assms c that unfolding picks_candidate_def place_def by (auto split: if_splits option.splits) (metis option.inject)
qed

text \<open>The plan of the actors, read off the individual placements.\<close>

definition placed :: "'c cap_ops \<Rightarrow> 'c place_weighted \<Rightarrow> (u64 \<Rightarrow> u64) \<Rightarrow> 'c ClusterView \<Rightarrow> DeviceActor \<Rightarrow> PlacementResult" where
  "placed C pick hash cl a = place C pick (hash (da_id a)) (da_requirement a) (cl_view cl)"

lemma place_actors_snoc:
  "place_actors C pick hash (as @ [a]) cl = record_placement (da_id a) (placed C pick hash cl a) (place_actors C pick hash as cl)"
  by (simp add: place_actors_def placed_def)

lemma plan_of_placements:
  assumes "distinct (map da_id as)"
  shows "assignments (place_actors C pick hash as cl) = map_of (concat (map (\<lambda>a.
      case placed C pick hash cl a of Inr n \<Rightarrow> [(da_id a, n)] | Inl _ \<Rightarrow> []) as)) \<and>
    unplaceable (place_actors C pick hash as cl) = map da_id (filter (\<lambda>a. isl (placed C pick hash cl a)) as) \<and>
    load_of (place_actors C pick hash as cl) n = length (filter (\<lambda>a. placed C pick hash cl a = Inr n) as)"
  using assms
proof (induction as rule: rev_induct)
  case Nil
  then show ?case by (simp add: place_actors_def empty_plan_def load_of_def)
next
  case (snoc a as)
  let ?l = "concat (map (\<lambda>a. case placed C pick hash cl a of Inr n \<Rightarrow> [(da_id a, n)] | Inl _ \<Rightarrow> []) as)"
  have "da_id a \<notin> fst ` set ?l" using snoc.prems by (auto split: sum.splits)
  then have m: "map_of ?l (da_id a) = None" by (simp add: map_of_eq_None_iff)
  have up: "map_of (?l @ [(da_id a, v)]) = (map_of ?l)(da_id a \<mapsto> v)" for v
    using m by (auto simp: fun_eq_iff map_add_def split: option.splits)
  from snoc have IH: "assignments (place_actors C pick hash as cl) = map_of ?l"
    "unplaceable (place_actors C pick hash as cl) = map da_id (filter (\<lambda>a. isl (placed C pick hash cl a)) as)"
    "load_of (place_actors C pick hash as cl) n = length (filter (\<lambda>a. placed C pick hash cl a = Inr n) as)"
    by simp_all
  show ?case
  proof (cases "placed C pick hash cl a")
    case (Inl e)
    then show ?thesis using IH by (simp add: place_actors_snoc record_placement_def load_of_def)
  next
    case (Inr v)
    then show ?thesis using IH m up by (simp add: place_actors_snoc record_placement_def) (simp add: load_of_def)
  qed
qed

section \<open>The plan meets the requirements\<close>

text \<open>Where an actor may live, and which of these nodes it should get.\<close>

definition may_host :: "'c cap_ops \<Rightarrow> PlacementRequirement \<Rightarrow> 'c CapabilityView \<Rightarrow> node_id \<Rightarrow> bool" where
  "may_host C req view n \<longleftrightarrow> n \<in> set (cv_nodes view) \<and> (\<forall>r \<in> set (required req). satisfied_by C r (capabilities_of C view n))"

definition wants :: "'c cap_ops \<Rightarrow> PlacementRequirement \<Rightarrow> 'c CapabilityView \<Rightarrow> node_id \<Rightarrow> bool" where
  "wants C req view n \<longleftrightarrow> (\<forall>p \<in> set (preferred req). satisfied_by C p (capabilities_of C view n))"

lemma set_eligible_nodes: "set (eligible_nodes C req view) = {n. may_host C req view n}"
  by (auto simp: eligible_nodes_def may_host_def node_eligible_def list_all_iff)

lemma node_preferred_wants: "node_preferred C req (capabilities_of C view n) = wants C req view n"
  by (simp add: node_preferred_def wants_def list_all_iff)

lemma assigned_placed:
  assumes "distinct (map da_id as)" "a \<in> set as"
  shows "assignments (place_actors C pick hash as cl) (da_id a) =
    (case placed C pick hash cl a of Inr n \<Rightarrow> Some n | Inl _ \<Rightarrow> None)"
proof -
  let ?l = "concat (map (\<lambda>a. case placed C pick hash cl a of Inr n \<Rightarrow> [(da_id a, n)] | Inl _ \<Rightarrow> []) as)"
  have inj: "b = a" if "b \<in> set as" "da_id b = da_id a" for b
    using assms that by (auto simp: distinct_map dest: inj_onD)
  have d: "map fst ?l = map da_id (filter (\<lambda>a. \<not> isl (placed C pick hash cl a)) as)"
    by (induction as) (auto split: sum.splits)
  have dist: "distinct (map fst ?l)" unfolding d using assms(1) by (rule distinct_map_filter)
  have l: "assignments (place_actors C pick hash as cl) = map_of ?l"
    using plan_of_placements [OF assms(1), of C pick hash cl] by blast
  show ?thesis
  proof (cases "placed C pick hash cl a")
    case (Inl e)
    then have "da_id a \<notin> fst ` set ?l" using inj by (auto split: sum.splits)
    then show ?thesis using Inl by (simp add: l map_of_eq_None_iff)
  next
    case (Inr n)
    then have "(da_id a, n) \<in> set ?l" using assms(2) by (auto intro!: bexI [of _ a])
    then show ?thesis using Inr dist by (simp add: l map_of_is_SomeI)
  qed
qed

text \<open>
  The placement plan respects the affinity of every device. Each actor is assigned to a live node that
  satisfies all its required capabilities, and all its preferred ones too when some such node does;
  otherwise it is listed as unplaceable, exactly when no live node satisfies the required ones. The load
  of a node is the number of actors assigned to it.
\<close>

lemma plan_correct:
  assumes "picks_candidate pick" "distinct (map da_id actors)"
  shows "let plan = place_actors C pick hash actors cl; view = cl_view cl in
    (\<forall>a \<in> set actors. case assignments plan (da_id a) of
        Some n \<Rightarrow> may_host C (da_requirement a) view n \<and> da_id a \<notin> set (unplaceable plan) \<and>
          ((\<exists>m. may_host C (da_requirement a) view m \<and> wants C (da_requirement a) view m) \<longrightarrow> wants C (da_requirement a) view n)
      | None \<Rightarrow> da_id a \<in> set (unplaceable plan) \<and> (\<forall>m. \<not> may_host C (da_requirement a) view m)) \<and>
    (\<forall>n. load_of plan n = length (filter (\<lambda>a. assignments plan (da_id a) = Some n) actors))"
proof -
  let ?plan = "place_actors C pick hash actors cl" and ?view = "cl_view cl"
  note plan = plan_of_placements [OF assms(2), of C pick hash cl]
  have "case assignments ?plan (da_id a) of
      Some n \<Rightarrow> may_host C (da_requirement a) ?view n \<and> da_id a \<notin> set (unplaceable ?plan) \<and>
        ((\<exists>m. may_host C (da_requirement a) ?view m \<and> wants C (da_requirement a) ?view m) \<longrightarrow> wants C (da_requirement a) ?view n)
    | None \<Rightarrow> da_id a \<in> set (unplaceable ?plan) \<and> (\<forall>m. \<not> may_host C (da_requirement a) ?view m)" if a: "a \<in> set actors" for a
  proof -
    have u: "da_id a \<in> set (unplaceable ?plan) \<longleftrightarrow> isl (placed C pick hash cl a)"
      using plan a assms(2) by (auto simp: distinct_map dest: inj_onD)
    show ?thesis
    proof (cases "placed C pick hash cl a")
      case (Inl e)
      then have "eligible_nodes C (da_requirement a) ?view = []"
        using place_Inr(1) [OF assms(1), of C "da_requirement a" ?view "hash (da_id a)"] by (auto simp: placed_def)
      then have "\<not> may_host C (da_requirement a) ?view m" for m
        using set_eligible_nodes [of C "da_requirement a" ?view] by auto
      then show ?thesis using u Inl assigned_placed [OF assms(2) a, of C pick hash cl] by simp
    next
      case (Inr n)
      then have "n \<in> set (candidates C (da_requirement a) ?view)"
        using place_Inr(2) [OF assms(1)] by (simp add: placed_def)
      then have "may_host C (da_requirement a) ?view n \<and>
          ((\<exists>m. may_host C (da_requirement a) ?view m \<and> wants C (da_requirement a) ?view m) \<longrightarrow> wants C (da_requirement a) ?view n)"
        by (auto simp: set_place_candidates set_eligible_nodes node_preferred_wants split: if_splits)
      then show ?thesis using u Inr assigned_placed [OF assms(2) a, of C pick hash cl] by simp
    qed
  qed
  moreover have "load_of ?plan n = length (filter (\<lambda>a. assignments ?plan (da_id a) = Some n) actors)" for n
  proof -
    have "filter (\<lambda>a. assignments ?plan (da_id a) = Some n) actors = filter (\<lambda>a. placed C pick hash cl a = Inr n) actors"
      using assigned_placed [OF assms(2), of _ C pick hash cl] by (intro filter_cong) (auto split: sum.splits)
    then show ?thesis using plan_of_placements [OF assms(2), of C pick hash cl n] by simp
  qed
  ultimately show ?thesis by (simp add: Let_def)
qed

definition flag_list_ops :: "string list cap_ops" where
  "flag_list_ops = \<lparr>cap_empty = [], cap_add = (#), cap_has_flag = (\<lambda>c f. f \<in> set c), cap_label = (\<lambda>_ _. [])\<rparr>"

definition first_candidate :: "'c place_weighted" where
  "first_candidate h cand view = (case cand of [] \<Rightarrow> None | n # _ \<Rightarrow> Some n)"

definition plant_example :: "string list ClusterView" where
  "plant_example = new_ClusterView [\<lparr>node_spec_id = 1, node_caps = []\<rparr>, \<lparr>node_spec_id = 2, node_caps = [''opcua'']\<rparr>] [1, 2]"

definition device_example :: DeviceActor where
  "device_example = \<lparr>da_id = 7, da_requirement = \<lparr>required = [flag_constraint ''opcua''], preferred = []\<rparr>, da_name = ''press''\<rparr>"

lemma plan_example:
  "assignments (place_actors flag_list_ops first_candidate id [device_example] plant_example) 7 = Some 2 \<and>
   load_of (place_actors flag_list_ops first_candidate id [device_example] plant_example) 2 = 1"
proof -
  have p: "picks_candidate first_candidate"
    by (auto simp: picks_candidate_def first_candidate_def split: list.splits)
  have e: "assignments (place_actors flag_list_ops first_candidate id [device_example] plant_example) 7 = Some 2"
    by (simp add: place_actors_def record_placement_def place_def eligible_nodes_def candidates_def node_eligible_def
        node_preferred_def satisfied_by_def capabilities_of_def plant_example_def device_example_def flag_list_ops_def
        first_candidate_def new_ClusterView_def refresh_def cap_map_def flag_constraint_def empty_plan_def Let_def)
  then show ?thesis
    using plan_correct [OF p, of "[device_example]" flag_list_ops id plant_example]
    by (simp add: Let_def device_example_def)
qed

end
