(* ===== verification/Http_Egress.thy ===== *)
theory Http_Egress
  imports Mes_Outbox Json
begin

text \<open>
  The two HTTP clients of the daemon: the MES adapter the outbox gateway reports through
  (\<open>mes/rest_mes_adapter.hpp\<close>) and the best-effort egress actor behind the HTTP output node
  (\<open>egress/http_egress_actor.hpp\<close>). The HTTP library is outside: a call is an argument that takes the
  request and the state of the world and gives the status, \<open>None\<close> for a transport error; so are the
  printer and the parser of the JSON library, the printer on texts that are UTF-8.
\<close>

section \<open>RestMesAdapter\<close>

record MesConfig =
  mc_endpoint :: string
  mc_port :: int
  mc_report_path :: string
  mc_token :: string

record RestMesAdapter =
  rm_cfg :: MesConfig
  rm_client :: bool

definition rm_connect :: "MesConfig \<Rightarrow> RestMesAdapter \<Rightarrow> RestMesAdapter" where
  "rm_connect cfg a = a\<lparr>rm_cfg := cfg, rm_client := True\<rparr>"

text \<open>The members in the order they are assigned; \<open>of_bits\<close> reads the value's bits as a \<open>double\<close>.\<close>

definition report_body :: "(u64 \<Rightarrow> 'd) \<Rightarrow> MesReport \<Rightarrow> 'd json" where
  "report_body of_bits r = JObject [(''kind'', JString (kind_name (mr_kind r))), (''line'', JString (mr_line r)),
     (''label'', JString (mr_label r)), (''value'', JFloat (of_bits (mr_value r))), (''seq'', JUInt (mr_seq r)),
     (''idempotency_key'', JString (mr_idempotency_key r))]"

type_synonym 'w post_fn = "string \<Rightarrow> (string \<times> string) list \<Rightarrow> string \<Rightarrow> 'w \<Rightarrow> int option \<times> 'w"

definition mes_result :: "int option \<Rightarrow> MesResult" where
  "mes_result res = (case res of
       None \<Rightarrow> Retry
     | Some s \<Rightarrow> if 200 \<le> s \<and> s < 300 then Delivered
         else if s = 429 \<or> (500 \<le> s \<and> s < 600) then Retry else MesRejected)"

definition rest_report :: "(u64 \<Rightarrow> 'd) \<Rightarrow> ('d json \<Rightarrow> string) \<Rightarrow> 'w post_fn \<Rightarrow> (RestMesAdapter \<times> 'w) mes_adapter" where
  "rest_report of_bits dump post_call aw r = (case aw of (a, w) \<Rightarrow>
     if \<not> rm_client a then (Retry, (a, w))
     else let headers = (''Idempotency-Key'', mr_idempotency_key r) #
                (if mc_token (rm_cfg a) = [] then [] else [(''Authorization'', ''Bearer '' @ mc_token (rm_cfg a))]);
              (res, w) = post_call (mc_report_path (rm_cfg a)) headers (dump (report_body of_bits r)) w
          in (mes_result res, (a, w)))"

section \<open>HttpEgressActor\<close>

record SendHttpRequest =
  sr_url :: string
  sr_method :: string
  sr_headers_json :: string
  sr_timeout_ms :: "32 word"
  sr_body :: string

record HttpEgressActor =
  he_sent :: u64
  he_failed :: u64

definition find_scheme_end :: "string \<Rightarrow> nat option" where
  "find_scheme_end url = find (\<lambda>i. take 3 (drop i url) = ''://'') [0..<length url]"

definition split_url :: "string \<Rightarrow> string \<times> string" where
  "split_url url =
     (let from = (case find_scheme_end url of None \<Rightarrow> 0 | Some i \<Rightarrow> i + 3) in
      case find_char (CHR ''/'') (drop from url) of
        None \<Rightarrow> (url, ''/'')
      | Some k \<Rightarrow> (take (from + k) url, drop (from + k) url))"

definition request_headers :: "'d json option \<Rightarrow> (string \<times> string) list" where
  "request_headers hj = (case hj of Some (JObject ms) \<Rightarrow>
       concat (map (\<lambda>(key, v). case v of JString s \<Rightarrow> [(key, s)] | _ \<Rightarrow> []) ms)
     | _ \<Rightarrow> [])"

datatype http_verb = GET | PUT | PATCH | DELETE | POST

definition verb_of :: "string \<Rightarrow> http_verb" where
  "verb_of m = (if m = ''GET'' then GET else if m = ''PUT'' then PUT else if m = ''PATCH'' then PATCH
     else if m = ''DELETE'' then DELETE else POST)"

record http_request =
  rq_base :: string
  rq_timeout :: "int \<times> int"
  rq_verb :: http_verb
  rq_path :: string
  rq_headers :: "(string \<times> string) list"
  rq_body :: "string option"

text \<open>A \<open>GET\<close> has no body; \<open>/\<close> and \<open>%\<close> on a signed value round towards zero.\<close>

definition build_request :: "(string \<Rightarrow> 'd json option) \<Rightarrow> SendHttpRequest \<Rightarrow> http_request" where
  "build_request parse r = (let (base, path) = split_url (sr_url r); t = sint (sr_timeout_ms r);
       secs = sgn t * (\<bar>t\<bar> div 1000) in
     \<lparr>rq_base = base, rq_timeout = (secs, (t - secs * 1000) * 1000), rq_verb = verb_of (sr_method r), rq_path = path,
      rq_headers = request_headers (parse (sr_headers_json r)),
      rq_body = (if verb_of (sr_method r) = GET then None else Some (sr_body r))\<rparr>)"

definition egress_handle :: "(string \<Rightarrow> 'd json option) \<Rightarrow> (http_request \<Rightarrow> 'w \<Rightarrow> int option \<times> 'w) \<Rightarrow>
    SendHttpRequest \<Rightarrow> HttpEgressActor \<times> 'w \<Rightarrow> HttpEgressActor \<times> 'w" where
  "egress_handle parse http_call r aw = (case aw of (a, w) \<Rightarrow>
     let (res, w) = http_call (build_request parse r) w in
     (case res of
        Some s \<Rightarrow> if 200 \<le> s \<and> s < 300 then a\<lparr>he_sent := he_sent a + 1\<rparr> else a\<lparr>he_failed := he_failed a + 1\<rparr>
      | None \<Rightarrow> a\<lparr>he_failed := he_failed a + 1\<rparr>, w))"

lemma split_url_join:
  "fst (split_url url) @ snd (split_url url) = url \<or> split_url url = (url, ''/'')"
  by (auto simp: split_url_def Let_def split: option.splits)

section \<open>Reports over HTTP\<close>

text \<open>A world that answers the \<open>n\<close>-th request as it likes and keeps every request (path, headers and body) with its answer.\<close>

type_synonym mes_req = "string \<times> (string \<times> string) list \<times> string"
type_synonym mes_log = "(mes_req \<times> int option) list"

definition recording :: "(nat \<Rightarrow> int option) \<Rightarrow> mes_log post_fn" where
  "recording answer path headers body log = (answer (length log), log @ [((path, headers, body), answer (length log))])"

text \<open>
  The answers of an MES that is away or overloaded: no answer at all, 429, or a server error; and those of
  one that took the report.
\<close>

fun outage :: "int option \<Rightarrow> bool" where
  "outage None = True"
| "outage (Some s) = (s = 429 \<or> s \<in> {500..599})"

fun accepted :: "int option \<Rightarrow> bool" where
  "accepted None = False"
| "accepted (Some s) = (s \<in> {200..299})"

lemma mes_result_iff:
  "mes_result res = Retry \<longleftrightarrow> outage res"
  "mes_result res = Delivered \<longleftrightarrow> accepted res"
  by (cases res; auto simp: mes_result_def)+

text \<open>The requests the MES answered for good: all but those that met an outage.\<close>

definition settled_requests :: "mes_log \<Rightarrow> mes_req list" where
  "settled_requests log = map fst (filter (\<lambda>(q, res). \<not> outage res) log)"

lemma settled_requests_snoc [simp]: "settled_requests (log @ [(q, res)]) = settled_requests log @ (if outage res then [] else [q])"
  by (simp add: settled_requests_def)

lemma settled_requests_Nil [simp]: "settled_requests [] = []"
  by (simp add: settled_requests_def)

text \<open>Each request is that of the first report no earlier request has settled.\<close>

definition in_turn :: "mes_req list \<Rightarrow> mes_log \<Rightarrow> bool" where
  "in_turn qs log \<longleftrightarrow> (\<forall>i < length log. length (settled_requests (take i log)) < length qs \<and>
     fst (log ! i) = qs ! length (settled_requests (take i log)))"

lemma in_turn_snoc:
  assumes "in_turn qs log" "qs = settled_requests log @ q # qs'"
  shows "in_turn qs (log @ [(q, res)])"
  using assms by (auto simp: in_turn_def nth_append less_Suc_eq)

lemma in_turn_grows: "in_turn qs log \<Longrightarrow> in_turn (qs @ qs') log"
  by (auto simp: in_turn_def nth_append)

text \<open>
  The reports a sequence of messages stages, from sequence number \<open>n\<close> on, and the request that carries a
  report: the path of the configuration, the idempotency key and the token as headers, and the report itself.
\<close>

fun staged_reports :: "u64 \<Rightarrow> gateway_msg list \<Rightarrow> MesReport list" where
  "staged_reports n [] = []"
| "staged_reports n (StageReport r # ms) =
     r\<lparr>mr_seq := n + 1, mr_idempotency_key :=
         if mr_idempotency_key r = [] then make_key (r\<lparr>mr_seq := n + 1\<rparr>) else mr_idempotency_key r\<rparr> # staged_reports (n + 1) ms"
| "staged_reports n (DrainOutbox # ms) = staged_reports n ms"

definition mes_request :: "(u64 \<Rightarrow> 'd) \<Rightarrow> ('d json \<Rightarrow> string) \<Rightarrow> MesConfig \<Rightarrow> MesReport \<Rightarrow> mes_req" where
  "mes_request of_bits dump cfg r =
     (mc_report_path cfg,
      [(''Idempotency-Key'', mr_idempotency_key r)] @
        (if mc_token cfg \<noteq> [] then [(''Authorization'', ''Bearer '' @ mc_token cfg)] else []),
      dump (JObject [(''kind'', JString (kind_name (mr_kind r))), (''line'', JString (mr_line r)),
        (''label'', JString (mr_label r)), (''value'', JFloat (of_bits (mr_value r))), (''seq'', JUInt (mr_seq r)),
        (''idempotency_key'', JString (mr_idempotency_key r))]))"

lemma rest_report_recording:
  assumes "a = rm_connect cfg a0"
  shows "rest_report of_bits dump (recording answer) (a, log) r =
    (mes_result (answer (length log)), (a, log @ [(mes_request of_bits dump cfg r, answer (length log))]))"
  using assms by (simp add: rest_report_def recording_def rm_connect_def mes_request_def report_body_def)

abbreviation rest_feed where
  "rest_feed of_bits dump answer rs ad \<equiv> feed (rest_report of_bits dump (recording answer)) rs ad"

text \<open>
  What the gateway's run has made of the log: every report staged is settled or pending, in order, each
  request came in its turn, and reports are pending only when the last request met an outage.
\<close>

definition log_ok :: "mes_req list \<Rightarrow> mes_log \<Rightarrow> mes_req list \<Rightarrow> bool" where
  "log_ok qs log pend \<longleftrightarrow> qs = settled_requests log @ pend \<and> in_turn qs log"

definition held_up :: "mes_log \<Rightarrow> bool" where
  "held_up log \<longleftrightarrow> log \<noteq> [] \<and> outage (snd (last log))"

definition count_accepted :: "mes_log \<Rightarrow> nat" where
  "count_accepted log = length (filter (accepted \<circ> snd) log)"

lemma feed_recording:
  assumes "a = rm_connect cfg a0" "rest_feed of_bits dump answer rs (a, log) = (k, d, ad)"
    and "log_ok qs log (map (mes_request of_bits dump cfg) rs)"
  shows "\<exists>log'. ad = (a, log') \<and> log_ok qs log' (map (mes_request of_bits dump cfg) (drop k rs)) \<and>
    (drop k rs \<noteq> [] \<longrightarrow> held_up log') \<and> count_accepted log' = count_accepted log + d"
  using assms(2,3)
proof (induction rs arbitrary: log k d ad)
  case (Cons r rs)
  let ?q = "mes_request of_bits dump cfg r" and ?res = "answer (length log)"
  let ?log = "log @ [(?q, ?res)]"
  note rep = rest_report_recording [OF assms(1), of of_bits dump answer log r]
  have t: "in_turn qs ?log" using Cons.prems(2) by (auto simp: log_ok_def intro: in_turn_snoc)
  show ?case
  proof (cases "outage ?res")
    case True
    then have "k = 0" "d = 0" "ad = (a, ?log)" using Cons.prems(1) rep by (simp_all add: mes_result_iff)
    moreover have "\<not> accepted ?res" using True by (cases ?res) auto
    ultimately show ?thesis using Cons.prems(2) t True by (simp add: log_ok_def held_up_def count_accepted_def)
  next
    case False
    obtain k1 d1 ad1 where f: "rest_feed of_bits dump answer rs (a, ?log) = (k1, d1, ad1)"
      by (cases "rest_feed of_bits dump answer rs (a, ?log)")
    then have kd: "k = Suc k1" "d = (if accepted ?res then Suc d1 else d1)" "ad = ad1"
      using Cons.prems(1) rep False by (auto simp: Let_def mes_result_iff split: if_splits)
    have "log_ok qs ?log (map (mes_request of_bits dump cfg) rs)" using Cons.prems(2) t False by (simp add: log_ok_def)
    from Cons.IH [OF f this] show ?thesis using kd by (auto simp: count_accepted_def)
  qed
qed (auto simp: log_ok_def)

definition reported ::
  "(u64 \<Rightarrow> 'd) \<Rightarrow> ('d json \<Rightarrow> string) \<Rightarrow> MesConfig \<Rightarrow> RestMesAdapter \<Rightarrow> mes_req list \<Rightarrow> ('sto, RestMesAdapter \<times> mes_log) MesGateway \<Rightarrow> bool" where
  "reported of_bits dump cfg a qs g \<longleftrightarrow> (\<exists>log. gw_adapter g = (a, log) \<and>
     log_ok qs log (map (mes_request of_bits dump cfg \<circ> report_of) (os_pending (outbox g))) \<and>
     gw_delivered g = of_nat (count_accepted log))"

definition up_to_date :: "('sto, RestMesAdapter \<times> mes_log) MesGateway \<Rightarrow> bool" where
  "up_to_date g \<longleftrightarrow> (os_pending (outbox g) \<noteq> [] \<longrightarrow> held_up (snd (gw_adapter g)))"

lemma drain_reported:
  assumes "a = rm_connect cfg a0" "reported of_bits dump cfg a qs g"
    and "outbox_drain ops (rest_report of_bits dump (recording answer)) aid g = (n, g')"
    and "g'' = g'\<lparr>gw_delivered := gw_delivered g' + of_nat n\<rparr>"
  shows "reported of_bits dump cfg a qs g'' \<and> up_to_date g'' \<and> os_next_seq (outbox g'') = os_next_seq (outbox g)"
proof -
  let ?rep = "rest_report of_bits dump (recording answer)" and ?es = "os_pending (outbox g)"
  obtain log where log: "gw_adapter g = (a, log)" "log_ok qs log (map (mes_request of_bits dump cfg \<circ> report_of) ?es)"
      "gw_delivered g = of_nat (count_accepted log)"
    using assms(2) by (auto simp: reported_def)
  obtain k d ad where f: "feed ?rep (map report_of ?es) (a, log) = (k, d, ad)" by (cases "feed ?rep (map report_of ?es) (a, log)")
  have g': "n = d" "gw_adapter g' = ad" "gw_delivered g' = gw_delivered g" "outbox g' = (outbox g)\<lparr>os_pending := drop k ?es\<rparr>"
    using drain_loop_feed [OF refl _ assms(3) [unfolded outbox_drain_def], of k d ad] f log(1) by simp_all
  obtain log' where l: "ad = (a, log')" "log_ok qs log' (map (mes_request of_bits dump cfg) (drop k (map report_of ?es)))"
      "drop k (map report_of ?es) \<noteq> [] \<longrightarrow> held_up log'" "count_accepted log' = count_accepted log + d"
    using feed_recording [OF assms(1) f, of qs] log(2) by auto
  show ?thesis using g' l log(3) assms(4) by (simp add: reported_def up_to_date_def drop_map)
qed

lemma stage_reported:
  assumes "reported of_bits dump cfg a qs g"
  shows "reported of_bits dump cfg a (qs @ map (mes_request of_bits dump cfg) (staged_reports (os_next_seq (outbox g)) [StageReport r]))
      (snd (stage ops aid r g))"
    and "os_next_seq (outbox (snd (stage ops aid r g))) = os_next_seq (outbox g) + 1"
  using assms in_turn_grows by (auto simp: reported_def stage_def Let_def log_ok_def report_of_def mes_request_def)

lemma handle_reported:
  assumes "a = rm_connect cfg a0" "reported of_bits dump cfg a qs g"
    and "g' = gateway_handle ops (rest_report of_bits dump (recording answer)) aid g m"
  shows "reported of_bits dump cfg a (qs @ map (mes_request of_bits dump cfg) (staged_reports (os_next_seq (outbox g)) [m])) g' \<and> up_to_date g' \<and>
    staged_reports (os_next_seq (outbox g)) (m # ms) = staged_reports (os_next_seq (outbox g)) [m] @ staged_reports (os_next_seq (outbox g')) ms"
proof (cases m)
  case (StageReport r)
  let ?g = "snd (stage ops aid r g)"
  note s = stage_reported [OF assms(2), where r = r and ops = ops and aid = aid]
  obtain n h where d: "outbox_drain ops (rest_report of_bits dump (recording answer)) aid ?g = (n, h)"
    by (cases "outbox_drain ops (rest_report of_bits dump (recording answer)) aid ?g")
  show ?thesis
    using StageReport assms(3) d drain_reported [OF assms(1) s(1) d refl] s(2) by (simp add: split_beta Let_def)
next
  case DrainOutbox
  obtain n h where d: "outbox_drain ops (rest_report of_bits dump (recording answer)) aid g = (n, h)"
    by (cases "outbox_drain ops (rest_report of_bits dump (recording answer)) aid g")
  show ?thesis
    using DrainOutbox assms(3) d drain_reported [OF assms(1,2) d refl] by (simp add: Let_def)
qed

lemma run_reported:
  assumes "a = rm_connect cfg a0" "reported of_bits dump cfg a qs g" "up_to_date g"
    and "g' = foldl (gateway_handle ops (rest_report of_bits dump (recording answer)) aid) g ms"
  shows "reported of_bits dump cfg a (qs @ map (mes_request of_bits dump cfg) (staged_reports (os_next_seq (outbox g)) ms)) g' \<and> up_to_date g'"
  using assms(2-)
proof (induction ms arbitrary: g qs)
  case (Cons m ms)
  let ?g = "gateway_handle ops (rest_report of_bits dump (recording answer)) aid g m"
  note h = handle_reported [OF assms(1) Cons.prems(1) refl, where ops = ops and answer = answer and aid = aid and m = m and ms = ms]
  have "reported of_bits dump cfg a ((qs @ map (mes_request of_bits dump cfg) (staged_reports (os_next_seq (outbox g)) [m])) @
      map (mes_request of_bits dump cfg) (staged_reports (os_next_seq (outbox ?g)) ms)) g' \<and> up_to_date g'"
    by (rule Cons.IH) (use h Cons.prems in auto)
  then show ?case using h by simp
qed simp

section \<open>Properties\<close>

text \<open>
  C25: An MES outage delays reports and drops none. Once the adapter is connected, whatever is staged and
  however the MES answers, the reports staged so far are, in order, those whose requests got an answer that is
  no outage (no answer, 429 or 5xx), and those still pending in the outbox. Each request carries the report of
  the first of them not settled before it, to the configured path, with its idempotency key and the token, so a
  report that met an outage is sent again unchanged before any later one. Reports are pending only when the
  last request met an outage, and the delivered counter is the number of 2xx answers.
\<close>

theorem mes_reports_settle_in_order:
  assumes "so_load ops sto aid = None" "a = rm_connect cfg a0"
    and "g = foldl (gateway_handle ops (rest_report of_bits dump (recording answer)) aid) (new_MesGateway ops sto aid (a, [])) ms"
  shows "\<exists>log. gw_adapter g = (a, log) \<and>
    (let qs = map (mes_request of_bits dump cfg) (staged_reports 0 ms) in
     qs = settled_requests log @ map (mes_request of_bits dump cfg \<circ> report_of) (os_pending (outbox g)) \<and>
     (\<forall>i < length log. length (settled_requests (take i log)) < length qs \<and> fst (log ! i) = qs ! length (settled_requests (take i log))) \<and>
     (os_pending (outbox g) \<noteq> [] \<longrightarrow> log \<noteq> [] \<and> outage (snd (last log))) \<and>
     gw_delivered g = of_nat (length (filter (\<lambda>(q, res). accepted res) log)))"
proof -
  let ?g = "new_MesGateway ops sto aid (a, []) :: ('a, RestMesAdapter \<times> mes_log) MesGateway"
  have o: "outbox ?g = new_OutboxState"
    using assms(1) by (simp add: new_MesGateway_def ds_recover_def split: prod.split)
  have "gw_adapter ?g = (a, [])" "gw_delivered ?g = 0" by (simp_all add: new_MesGateway_def split: prod.split)
  with o have "reported of_bits dump cfg a [] ?g" "up_to_date ?g"
    by (simp_all add: reported_def up_to_date_def log_ok_def in_turn_def count_accepted_def new_OutboxState_def)
  from run_reported [OF assms(2) this assms(3)] o show ?thesis
    by (auto simp: reported_def up_to_date_def held_up_def log_ok_def in_turn_def count_accepted_def new_OutboxState_def Let_def case_prod_unfold comp_def)
qed

definition mes_site :: MesConfig where
  "mes_site = \<lparr>mc_endpoint = ''mes'', mc_port = 80, mc_report_path = ''/production'', mc_token = ''t''\<rparr>"

definition alarm_report :: "string \<Rightarrow> MesReport" where
  "alarm_report key = \<lparr>mr_kind = Alarm, mr_line = ''L'', mr_label = ''x'', mr_value = 0, mr_seq = 0, mr_idempotency_key = key\<rparr>"

text \<open>The MES is down for the first request, refuses the second and takes the third: of three reports none is left.\<close>

definition mes_answers :: "nat \<Rightarrow> int option" where
  "mes_answers n = (if n = 0 then None else if n = 1 then Some 400 else Some 200)"

theorem mes_reports_settle_in_order_witness:
  "let rep = rest_report (\<lambda>_. 0 :: int) (\<lambda>_. []) (recording mes_answers);
       ms = [StageReport (alarm_report ''k''), StageReport (alarm_report ''l''), StageReport (alarm_report ''m'')];
       g = foldl (gateway_handle mem_ops rep (ActorId 0 1))
         (new_MesGateway mem_ops mem_empty (ActorId 0 1) (rm_connect mes_site \<lparr>rm_cfg = mes_site, rm_client = False\<rparr>, [])) ms
   in map (\<lambda>(path, headers, body). map_of headers ''Idempotency-Key'') (settled_requests (snd (gw_adapter g))) = [Some ''k'', Some ''l'', Some ''m''] \<and>
      os_pending (outbox g) = [] \<and> gw_delivered g = 2"
proof -
  let ?a = "rm_connect mes_site \<lparr>rm_cfg = mes_site, rm_client = False\<rparr>"
  let ?rep = "rest_report (\<lambda>_. 0 :: int) (\<lambda>_. []) (recording mes_answers)"
  let ?ms = "[StageReport (alarm_report ''k''), StageReport (alarm_report ''l''), StageReport (alarm_report ''m'')]"
  define g where "g = foldl (gateway_handle mem_ops ?rep (ActorId 0 1)) (new_MesGateway mem_ops mem_empty (ActorId 0 1) (?a, [])) ?ms"
  have s: "so_load mem_ops mem_empty (ActorId 0 1) = None" by (simp add: mem_ops_def mem_empty_def)
  note th = mes_reports_settle_in_order [where of_bits = "\<lambda>_. 0 :: int" and dump = "\<lambda>_. []" and answer = mes_answers and ms = ?ms, OF s refl g_def]
  have run: "os_pending (outbox g) = [] \<and> gw_delivered g = 2"
    by (simp add: g_def new_MesGateway_def ds_recover_def mem_ops_def mem_empty_def new_OutboxState_def alarm_report_def stage_def
        outbox_drain_def rest_report_def recording_def rm_connect_def mes_answers_def mes_result_def Let_def split: prod.split)
  obtain log where l: "gw_adapter g = (?a, log)" "map (mes_request (\<lambda>_. 0 :: int) (\<lambda>_. []) mes_site) (staged_reports 0 ?ms) =
      settled_requests log @ map (mes_request (\<lambda>_. 0 :: int) (\<lambda>_. []) mes_site \<circ> report_of) (os_pending (outbox g))"
    using th unfolding Let_def by (elim exE conjE) (rule that; assumption)
  have "settled_requests (snd (gw_adapter g)) = map (mes_request (\<lambda>_. 0 :: int) (\<lambda>_. []) mes_site) (staged_reports 0 ?ms)"
    unfolding l using run by simp
  then show ?thesis using run unfolding g_def [symmetric] Let_def
    by (simp add: mes_request_def alarm_report_def)
qed

end
