(* ===== verification/Daemon.thy ===== *)
theory Daemon
  imports Placement Fleet Http_Egress
begin

text \<open>
  The services of the daemon that outlive a deployment, the second half of \<open>class Runtime\<close>
  (\<open>runtime/runtime.hpp\<close>): the fleet with its placement and its rollouts, the MES gateway and the HTTP
  egress. Each is configured once; a second call is refused. The live nodes are what the membership
  protocol reports when it is asked, an argument of the tick; starting the cluster transport gives a
  message when it fails. The gateway and the egress actor have an engine of their own that handles
  messages in order, so a message is handled here when it is told.
\<close>

section \<open>Configuration\<close>

record FleetDeviceConfig =
  dev_id :: string
  dev_initial_version :: string
  dev_required_flags :: "string list"
  dev_preferred_flags :: "string list"

record ClusterMember =
  cm_id :: node_id
  cm_host :: string
  cm_port :: u16
  cm_flags :: "string list"

record ClusterMembershipConfig =
  cmc_self :: node_id
  cmc_listen_port :: u16
  cmc_cluster_id :: u64
  cmc_seeds :: "ClusterMember list"

record FleetConfig =
  fc_node_flags :: "string list"
  fc_devices :: "FleetDeviceConfig list"
  fc_ota_threshold :: rat
  fc_ota_canary :: nat
  fc_ota_staged :: nat
  fc_ota_rate_limit :: nat
  fc_signing_key :: string
  fc_trust_root :: string
  fc_membership :: ClusterMembershipConfig

section \<open>State\<close>

record ('c, 'sto, 'msto, 'w) Daemon =
  dm_node_flags :: "string list"
  dm_self :: node_id
  dm_cluster :: "'c ClusterView option"
  dm_real_membership :: bool
  dm_joins :: "node_id list"
  dm_actors :: "DeviceActor list"
  dm_placement :: PlacementPlan
  dm_ota :: "'sto FleetActor option"
  dm_drivers :: driver_heap
  dm_signing_key :: string
  dm_trust_root :: string
  dm_waves :: "WaveResult list"
  dm_mes :: "('msto, RestMesAdapter \<times> 'w) MesGateway option"
  dm_egress :: "HttpEgressActor option"
  dm_world :: 'w

definition new_Daemon :: "'w \<Rightarrow> ('c, 'sto, 'msto, 'w) Daemon" where
  "new_Daemon w = \<lparr>dm_node_flags = [], dm_self = 1, dm_cluster = None, dm_real_membership = False, dm_joins = [],
     dm_actors = [], dm_placement = empty_plan, dm_ota = None, dm_drivers = (\<lambda>_. new_MockOtaDriver []),
     dm_signing_key = [], dm_trust_root = [], dm_waves = [], dm_mes = None, dm_egress = None, dm_world = w\<rparr>"

section \<open>The fleet\<close>

definition caps_of_flags :: "'c cap_ops \<Rightarrow> string list \<Rightarrow> 'c" where
  "caps_of_flags C fs = foldl (\<lambda>c f. cap_add C f c) (cap_empty C) fs"

definition device_actor :: "nat \<Rightarrow> FleetDeviceConfig \<Rightarrow> DeviceActor" where
  "device_actor i d = \<lparr>da_id = of_nat (Suc i),
     da_requirement = \<lparr>required = map flag_constraint (dev_required_flags d), preferred = map flag_constraint (dev_preferred_flags d)\<rparr>,
     da_name = dev_id d\<rparr>"

definition device_actors :: "FleetDeviceConfig list \<Rightarrow> DeviceActor list" where
  "device_actors ds = map (\<lambda>(i, d). device_actor i d) (zip [0..<length ds] ds)"

definition node_specs :: "'c cap_ops \<Rightarrow> FleetConfig \<Rightarrow> node_id \<Rightarrow> 'c ClusterNodeSpec list" where
  "node_specs C cfg self = \<lparr>node_spec_id = self, node_caps = caps_of_flags C (fc_node_flags cfg)\<rparr> #
     map (\<lambda>m. \<lparr>node_spec_id = cm_id m, node_caps = caps_of_flags C (cm_flags m)\<rparr>) (cmc_seeds (fc_membership cfg))"

definition fleet_actor :: "'sto \<Rightarrow> FleetConfig \<Rightarrow> 'sto FleetActor" where
  "fleet_actor sto cfg = foldl (\<lambda>fa (i, d). add_device (dev_id d) i fa)
     (new_FleetActor sto (fc_ota_threshold cfg) (fc_ota_canary cfg) (fc_ota_staged cfg) (fc_ota_rate_limit cfg))
     (zip [0..<length (fc_devices cfg)] (fc_devices cfg))"

text \<open>The part both branches share: the devices, their drivers and the first placement.\<close>

definition set_up_fleet :: "'c cap_ops \<Rightarrow> 'c place_weighted \<Rightarrow> (u64 \<Rightarrow> u64) \<Rightarrow> 'sto \<Rightarrow> FleetConfig \<Rightarrow> 'c ClusterView \<Rightarrow>
    ('c, 'sto, 'msto, 'w) Daemon \<Rightarrow> ('c, 'sto, 'msto, 'w) Daemon" where
  "set_up_fleet C pick hash sto cfg cl dm = dm\<lparr>
     dm_cluster := Some cl, dm_signing_key := fc_signing_key cfg, dm_trust_root := fc_trust_root cfg,
     dm_ota := Some (fleet_actor sto cfg),
     dm_drivers := (\<lambda>i. if i < length (fc_devices cfg) then new_MockOtaDriver (dev_initial_version (fc_devices cfg ! i)) else dm_drivers dm i),
     dm_actors := device_actors (fc_devices cfg),
     dm_placement := place_actors C pick hash (device_actors (fc_devices cfg)) cl\<rparr>"

definition configure_fleet :: "'c cap_ops \<Rightarrow> 'c place_weighted \<Rightarrow> (u64 \<Rightarrow> u64) \<Rightarrow> 'sto \<Rightarrow> string option \<Rightarrow> node_id list \<Rightarrow>
    FleetConfig \<Rightarrow> ('c, 'sto, 'msto, 'w) Daemon \<Rightarrow> string option \<times> ('c, 'sto, 'msto, 'w) Daemon" where
  "configure_fleet C pick hash sto transport_error alive cfg dm =
     (if dm_cluster dm \<noteq> None then (Some ''fleet already configured'', dm)
      else let dm = dm\<lparr>dm_node_flags := fc_node_flags cfg\<rparr> in
        if cmc_listen_port (fc_membership cfg) \<noteq> 0 then
          let dm = dm\<lparr>dm_self := cmc_self (fc_membership cfg)\<rparr> in
          case transport_error of
            Some msg \<Rightarrow> (Some (''configure_fleet: cluster membership transport failed to start: '' @ msg), dm)
          | None \<Rightarrow> (None, set_up_fleet C pick hash sto cfg (new_ClusterView (node_specs C cfg (dm_self dm)) alive)
              (dm\<lparr>dm_real_membership := True, dm_joins := map cm_id (cmc_seeds (fc_membership cfg))\<rparr>))
        else (None, set_up_fleet C pick hash sto cfg
          (new_ClusterView [\<lparr>node_spec_id = dm_self dm, node_caps = caps_of_flags C (fc_node_flags cfg)\<rparr>] [dm_self dm]) dm))"

text \<open>One round of the tick thread: the membership is asked for the live nodes, the placement recomputed.\<close>

definition swim_tick :: "'c cap_ops \<Rightarrow> 'c place_weighted \<Rightarrow> (u64 \<Rightarrow> u64) \<Rightarrow> node_id list \<Rightarrow>
    ('c, 'sto, 'msto, 'w) Daemon \<Rightarrow> ('c, 'sto, 'msto, 'w) Daemon" where
  "swim_tick C pick hash alive dm = (if \<not> dm_real_membership dm then dm else
     case dm_cluster dm of
       None \<Rightarrow> dm
     | Some cl \<Rightarrow> let cl = refresh alive cl in
         dm\<lparr>dm_cluster := Some cl, dm_placement := place_actors C pick hash (dm_actors dm) cl\<rparr>)"

definition fleet_status :: "u64 \<Rightarrow> ('c, 'sto, 'msto, 'w) Daemon \<Rightarrow> 'd json" where
  "fleet_status epoch dm = (case dm_cluster dm of
       None \<Rightarrow> JObject [(''configured'', JBool False)]
     | Some cl \<Rightarrow> JObject [(''configured'', JBool True),
         (''devices'', JArray (map (\<lambda>a. JObject ((''eligible'', JBool (assignments (dm_placement dm) (da_id a) \<noteq> None)) #
            (''id'', JString (da_name a)) #
            (case assignments (dm_placement dm) (da_id a) of None \<Rightarrow> [] | Some n \<Rightarrow> [(''node'', JUInt n)]))) (dm_actors dm))),
         (''epoch'', JUInt epoch),
         (''nodes'', JArray (map (\<lambda>n. JObject ((''alive'', JBool True) #
            (if n = dm_self dm then [(''flags'', JArray (map JString (dm_node_flags dm)))] else []) @ [(''id'', JUInt n)]))
            (cv_nodes (cl_view cl)))),
         (''real_membership'', JBool (dm_real_membership dm))])"

section \<open>Rollouts\<close>

fun rollout_state_name :: "RolloutState \<Rightarrow> string" where
  "rollout_state_name RIdle = ''Idle''" | "rollout_state_name Running = ''Running''"
| "rollout_state_name Paused = ''Paused''" | "rollout_state_name Completed = ''Completed''"

definition start_rollout :: "'sto ota_ops \<Rightarrow> ecdsa_sign_fn \<Rightarrow> ecdsa_verify_fn \<Rightarrow> (rat \<Rightarrow> rat) \<Rightarrow> string \<Rightarrow> string \<Rightarrow>
    ('c, 'sto, 'msto, 'w) Daemon \<Rightarrow> string option \<times> ('c, 'sto, 'msto, 'w) Daemon" where
  "start_rollout ops sign verify fl image_version image_bytes dm = (case dm_ota dm of
       None \<Rightarrow> (Some ''fleet not configured'', dm)
     | Some fa \<Rightarrow>
         let img = \<lparr>img_version = image_version, img_bytes = image_bytes, img_signature = []\<rparr>;
             img = img\<lparr>img_signature := sign_image sign img (dm_signing_key dm)\<rparr>;
             (waves, fa, heap) = run_rollout ops verify fl img (dm_trust_root dm) (fa, dm_drivers dm)
         in (None, dm\<lparr>dm_waves := waves, dm_ota := Some fa, dm_drivers := heap\<rparr>))"

definition ota_status :: "(rat \<Rightarrow> 'd) \<Rightarrow> ('c, 'sto, 'msto, 'w) Daemon \<Rightarrow> 'd json" where
  "ota_status to_double dm = (case dm_ota dm of
       None \<Rightarrow> JObject [(''configured'', JBool False)]
     | Some fa \<Rightarrow> JObject [(''configured'', JBool True), (''devices_rolled_back'', JUInt (of_nat (fa_rolled_back fa))),
         (''devices_updated'', JUInt (of_nat (fa_updated fa))), (''state'', JString (rollout_state_name (fa_state fa))),
         (''waves'', JArray (map (\<lambda>w. JObject [(''attempted'', JUInt (of_nat (wr_attempted w))), (''name'', JString (wr_name w)),
            (''passed'', JBool (wr_passed w)), (''succeeded'', JUInt (of_nat (wr_succeeded w))),
            (''success_rate'', JFloat (to_double (wr_success_rate w)))]) (dm_waves dm)))])"

section \<open>MES gateway and HTTP egress\<close>

definition kMesOutboxId :: actor_id where
  "kMesOutboxId = ActorId 0x0B08 1"

definition configure_mes :: "'msto outbox_ops \<Rightarrow> 'msto \<Rightarrow> MesConfig \<Rightarrow> ('c, 'sto, 'msto, 'w) Daemon \<Rightarrow> string option \<times> ('c, 'sto, 'msto, 'w) Daemon" where
  "configure_mes ops sto cfg dm = (case dm_mes dm of
       Some _ \<Rightarrow> (Some ''MES gateway already configured'', dm)
     | None \<Rightarrow> (None, dm\<lparr>dm_mes := Some (new_MesGateway ops sto kMesOutboxId
         (rm_connect cfg \<lparr>rm_cfg = \<lparr>mc_endpoint = [], mc_port = 0, mc_report_path = ''/production'', mc_token = []\<rparr>, rm_client = False\<rparr>, dm_world dm))\<rparr>))"

definition mes_tell :: "'msto outbox_ops \<Rightarrow> (RestMesAdapter \<times> 'w) mes_adapter \<Rightarrow> gateway_msg \<Rightarrow>
    ('c, 'sto, 'msto, 'w) Daemon \<Rightarrow> string option \<times> ('c, 'sto, 'msto, 'w) Daemon" where
  "mes_tell ops report m dm = (case dm_mes dm of
       None \<Rightarrow> (Some ''MES gateway not configured'', dm)
     | Some g \<Rightarrow> (None, dm\<lparr>dm_mes := Some (gateway_handle ops report kMesOutboxId g m)\<rparr>))"

definition mes_stage where
  "mes_stage ops report r dm = mes_tell ops report (StageReport r) dm"

definition mes_drain where
  "mes_drain ops report dm = mes_tell ops report DrainOutbox dm"

definition mes_outbox_stats :: "('c, 'sto, 'msto, 'w) Daemon \<Rightarrow> 'd json" where
  "mes_outbox_stats dm = (case dm_mes dm of
       None \<Rightarrow> JObject [(''configured'', JBool False)]
     | Some g \<Rightarrow> let s = get_outbox_stats g in JObject [(''configured'', JBool True),
         (''delivered'', JUInt (st_delivered s)), (''pending'', JUInt (st_pending s)), (''staged'', JUInt (st_staged s))])"

definition configure_http_egress :: "('c, 'sto, 'msto, 'w) Daemon \<Rightarrow> string option \<times> ('c, 'sto, 'msto, 'w) Daemon" where
  "configure_http_egress dm = (case dm_egress dm of
       Some _ \<Rightarrow> (Some ''HTTP egress already configured'', dm)
     | None \<Rightarrow> (None, dm\<lparr>dm_egress := Some \<lparr>he_sent = 0, he_failed = 0\<rparr>\<rparr>))"

definition http_send :: "(string \<Rightarrow> 'd json option) \<Rightarrow> (http_request \<Rightarrow> 'w \<Rightarrow> int option \<times> 'w) \<Rightarrow> SendHttpRequest \<Rightarrow>
    ('c, 'sto, 'msto, 'w) Daemon \<Rightarrow> string option \<times> ('c, 'sto, 'msto, 'w) Daemon" where
  "http_send parse http_call r dm = (case dm_egress dm of
       None \<Rightarrow> (Some ''HTTP egress not configured'', dm)
     | Some a \<Rightarrow> let (a, w) = egress_handle parse http_call r (a, dm_world dm) in
         (None, dm\<lparr>dm_egress := Some a, dm_world := w\<rparr>))"

definition http_egress_stats :: "('c, 'sto, 'msto, 'w) Daemon \<Rightarrow> 'd json" where
  "http_egress_stats dm = (case dm_egress dm of
       None \<Rightarrow> JObject [(''configured'', JBool False)]
     | Some a \<Rightarrow> JObject [(''configured'', JBool True), (''failed'', JUInt (he_failed a)), (''sent'', JUInt (he_sent a))])"

section \<open>The placement follows the membership\<close>

definition cap_law :: "'c cap_ops \<Rightarrow> bool" where
  "cap_law C \<longleftrightarrow> (\<forall>f g c. cap_has_flag C (cap_add C f c) g \<longleftrightarrow> g = f \<or> cap_has_flag C c g) \<and>
     (\<forall>g. \<not> cap_has_flag C (cap_empty C) g)"

text \<open>The flags a node has by configuration.\<close>

definition flags_of :: "FleetConfig \<Rightarrow> node_id \<Rightarrow> string list" where
  "flags_of cfg n = (if n = cmc_self (fc_membership cfg) then fc_node_flags cfg
     else case find (\<lambda>m. cm_id m = n) (cmc_seeds (fc_membership cfg)) of None \<Rightarrow> [] | Some m \<Rightarrow> cm_flags m)"

lemma has_flag_caps:
  assumes "cap_law C"
  shows "cap_has_flag C (caps_of_flags C fs) g \<longleftrightarrow> g \<in> set fs"
proof -
  have "cap_has_flag C (foldl (\<lambda>c f. cap_add C f c) c fs) g \<longleftrightarrow> g \<in> set fs \<or> cap_has_flag C c g" for c
    using assms by (induction fs arbitrary: c) (auto simp: cap_law_def)
  then show ?thesis using assms by (auto simp: caps_of_flags_def cap_law_def)
qed

lemma map_of_find:
  "map_of (map (\<lambda>m. (key m, val m)) ms) n = map_option val (find (\<lambda>m. key m = n) ms)"
  by (induction ms) auto

lemma capability_flags:
  assumes "cap_law C" "cv_caps view = cap_map (node_specs C cfg (cmc_self (fc_membership cfg)))"
  shows "cap_has_flag C (capabilities_of C view n) g \<longleftrightarrow> g \<in> set (flags_of cfg n)"
proof -
  have "cap_map (node_specs C cfg (cmc_self (fc_membership cfg))) n =
      (if n = cmc_self (fc_membership cfg) then Some (caps_of_flags C (fc_node_flags cfg))
       else map_option (\<lambda>m. caps_of_flags C (cm_flags m)) (find (\<lambda>m. cm_id m = n) (cmc_seeds (fc_membership cfg))))"
    using map_of_find [of cm_id "\<lambda>m. caps_of_flags C (cm_flags m)" "cmc_seeds (fc_membership cfg)" n]
    by (simp add: cap_map_def node_specs_def comp_def)
  then show ?thesis
    using has_flag_caps [OF assms(1)] assms(1) by (auto simp: capabilities_of_def assms(2) flags_of_def cap_law_def split: option.splits)
qed

lemma flags_satisfied:
  assumes "cap_law C" "cv_caps view = cap_map (node_specs C cfg (cmc_self (fc_membership cfg)))"
  shows "(\<forall>r \<in> set (map flag_constraint fs). satisfied_by C r (capabilities_of C view n)) \<longleftrightarrow> set fs \<subseteq> set (flags_of cfg n)"
  using capability_flags [OF assms] by (auto simp: satisfied_by_def flag_constraint_def)

definition fleet_ready :: "'c cap_ops \<Rightarrow> 'c place_weighted \<Rightarrow> (u64 \<Rightarrow> u64) \<Rightarrow> FleetConfig \<Rightarrow> node_id list \<Rightarrow> ('c, 'sto, 'msto, 'w) Daemon \<Rightarrow> bool" where
  "fleet_ready C pick hash cfg alive dm \<longleftrightarrow> (\<exists>cl. dm_cluster dm = Some cl \<and> cl_nodes cl = node_specs C cfg (cmc_self (fc_membership cfg)) \<and>
     cl_view cl = \<lparr>cv_nodes = alive, cv_caps = cap_map (cl_nodes cl)\<rparr> \<and> dm_real_membership dm \<and>
     dm_actors dm = device_actors (fc_devices cfg) \<and> dm_placement dm = place_actors C pick hash (dm_actors dm) cl)"

lemma configure_ready:
  assumes "configure_fleet C pick hash sto None alive cfg dm = (None, dm1)" "cmc_listen_port (fc_membership cfg) \<noteq> 0"
  shows "fleet_ready C pick hash cfg alive dm1"
  using assms
  by (auto simp: configure_fleet_def Let_def set_up_fleet_def fleet_ready_def new_ClusterView_def refresh_def split: if_splits)

lemma tick_ready: "fleet_ready C pick hash cfg alive dm \<Longrightarrow> fleet_ready C pick hash cfg alive' (swim_tick C pick hash alive' dm)"
  by (auto simp: fleet_ready_def swim_tick_def refresh_def Let_def)

lemma ticks_ready:
  assumes "fleet_ready C pick hash cfg alive dm"
  shows "fleet_ready C pick hash cfg (last (alive # alives)) (foldl (\<lambda>dm alive. swim_tick C pick hash alive dm) dm alives)"
  using assms
proof (induction alives arbitrary: alive dm)
  case (Cons a alives)
  show ?case using Cons.IH [OF tick_ready [OF Cons.prems, of a]] by simp
qed simp

lemma unat_device_id: "n < 2 ^ 64 \<Longrightarrow> unat (of_nat n :: u64) = n"
  by (simp add: unat_of_nat)

lemma distinct_device_ids:
  assumes "length ds < 2 ^ 64 - 1"
  shows "distinct (map da_id (device_actors ds))"
proof -
  have "map da_id (device_actors ds) = map (\<lambda>i. of_nat (Suc i) :: u64) [0..<length ds]"
    by (rule nth_equalityI) (simp_all add: device_actors_def device_actor_def)
  moreover have "inj_on (\<lambda>i. of_nat (Suc i) :: u64) {0..<length ds}"
  proof (rule inj_onI)
    fix i j assume a: "i \<in> {0..<length ds}" "j \<in> {0..<length ds}" "(of_nat (Suc i) :: u64) = of_nat (Suc j)"
    then have "Suc i < 2 ^ 64" "Suc j < 2 ^ 64" using assms by auto
    then have "unat (of_nat (Suc i) :: u64) = Suc i" "unat (of_nat (Suc j) :: u64) = Suc j"
      by (blast intro: unat_device_id)+
    then have "Suc i = Suc j" using a(3) by metis
    then show "i = j" by (rule Suc_inject)
  qed
  ultimately show ?thesis by (simp only: distinct_map distinct_upt set_upt simp_thms)
qed

section \<open>Properties\<close>

text \<open>
  C28: Device placement follows the live membership. After the fleet is configured over a real membership
  and after any ticks, each device is assigned, among the nodes reported alive by the last tick, to one
  whose configured flags include all its required ones, and its preferred ones too when some such node
  has them all; it is unassigned exactly when no live node has the required flags.
\<close>

theorem placement_follows_membership:
  assumes "picks_candidate pick" "cap_law C" "cmc_listen_port (fc_membership cfg) \<noteq> 0"
    and "configure_fleet C pick hash sto None alive0 cfg dm = (None, dm1)"
    and "i < length (fc_devices cfg)" "length (fc_devices cfg) < 2 ^ 64 - 1"
  shows "let alive = last (alive0 # alives); d = fc_devices cfg ! i; req = set (dev_required_flags d); pref = set (dev_preferred_flags d);
      plan = dm_placement (foldl (\<lambda>dm alive. swim_tick C pick hash alive dm) dm1 alives)
    in case assignments plan (of_nat (Suc i)) of
        Some n \<Rightarrow> n \<in> set alive \<and> req \<subseteq> set (flags_of cfg n) \<and>
          ((\<exists>m \<in> set alive. req \<union> pref \<subseteq> set (flags_of cfg m)) \<longrightarrow> pref \<subseteq> set (flags_of cfg n))
      | None \<Rightarrow> \<not> (\<exists>m \<in> set alive. req \<subseteq> set (flags_of cfg m))"
proof -
  let ?dm = "foldl (\<lambda>dm alive. swim_tick C pick hash alive dm) dm1 alives" and ?alive = "last (alive0 # alives)"
  let ?d = "fc_devices cfg ! i" and ?a = "device_actor i (fc_devices cfg ! i)"
  obtain cl where cl: "cv_nodes (cl_view cl) = ?alive" "cv_caps (cl_view cl) = cap_map (node_specs C cfg (cmc_self (fc_membership cfg)))"
      "dm_placement ?dm = place_actors C pick hash (device_actors (fc_devices cfg)) cl"
  proof -
    obtain cl where "cl_nodes cl = node_specs C cfg (cmc_self (fc_membership cfg))" "cl_view cl = \<lparr>cv_nodes = ?alive, cv_caps = cap_map (cl_nodes cl)\<rparr>"
        "dm_actors ?dm = device_actors (fc_devices cfg)" "dm_placement ?dm = place_actors C pick hash (dm_actors ?dm) cl"
      using ticks_ready [OF configure_ready [OF assms(4,3)], of alives] unfolding fleet_ready_def by blast
    then show thesis using that [of cl] by simp
  qed
  have a: "?a \<in> set (device_actors (fc_devices cfg))"
    using assms(5) by (auto simp: device_actors_def in_set_zip intro!: image_eqI [of _ _ "(i, ?d)"] exI [of _ i])
  have host: "may_host C (da_requirement ?a) (cl_view cl) n \<longleftrightarrow> n \<in> set ?alive \<and> set (dev_required_flags ?d) \<subseteq> set (flags_of cfg n)"
    and want: "wants C (da_requirement ?a) (cl_view cl) n \<longleftrightarrow> set (dev_preferred_flags ?d) \<subseteq> set (flags_of cfg n)" for n
    using flags_satisfied [OF assms(2) cl(2)] unfolding may_host_def wants_def cl(1) by (simp_all add: device_actor_def)
  have "case assignments (dm_placement ?dm) (da_id ?a) of
      Some n \<Rightarrow> may_host C (da_requirement ?a) (cl_view cl) n \<and>
        ((\<exists>m. may_host C (da_requirement ?a) (cl_view cl) m \<and> wants C (da_requirement ?a) (cl_view cl) m) \<longrightarrow> wants C (da_requirement ?a) (cl_view cl) n)
    | None \<Rightarrow> (\<forall>m. \<not> may_host C (da_requirement ?a) (cl_view cl) m)"
    using plan_correct [OF assms(1) distinct_device_ids [OF assms(6)], of C hash cl] a
    unfolding cl(3) Let_def by (auto split: option.splits)
  moreover have "da_id ?a = of_nat (Suc i)" by (simp add: device_actor_def)
  ultimately show ?thesis by (auto simp: Let_def host want split: option.splits)
qed

definition fleet_example :: FleetConfig where
  "fleet_example = \<lparr>fc_node_flags = [], fc_devices = [\<lparr>dev_id = ''press'', dev_initial_version = ''1'',
       dev_required_flags = [''opcua''], dev_preferred_flags = []\<rparr>],
     fc_ota_threshold = 1, fc_ota_canary = 1, fc_ota_staged = 1, fc_ota_rate_limit = 1, fc_signing_key = ''k'', fc_trust_root = ''p'',
     fc_membership = \<lparr>cmc_self = 1, cmc_listen_port = 7000, cmc_cluster_id = 0,
       cmc_seeds = [\<lparr>cm_id = 2, cm_host = ''b'', cm_port = 7000, cm_flags = [''opcua'']\<rparr>]\<rparr>\<rparr>"

definition fleet_dm :: "(string list, unit, unit, unit) Daemon" where
  "fleet_dm = snd (configure_fleet flag_list_ops first_candidate id () None [1] fleet_example (new_Daemon ()))"

theorem placement_follows_membership_witness:
  "assignments (dm_placement (foldl (\<lambda>dm alive. swim_tick flag_list_ops first_candidate id alive dm) fleet_dm [[1, 2]])) 1 \<noteq> None \<and>
   assignments (dm_placement (foldl (\<lambda>dm alive. swim_tick flag_list_ops first_candidate id alive dm) fleet_dm [])) 1 = None"
proof -
  have p: "picks_candidate first_candidate" by (auto simp: picks_candidate_def first_candidate_def split: list.splits)
  have l: "cap_law flag_list_ops" by (auto simp: cap_law_def flag_list_ops_def)
  have m: "cmc_listen_port (fc_membership fleet_example) \<noteq> 0" "0 < length (fc_devices fleet_example)"
    "length (fc_devices fleet_example) < 2 ^ 64 - 1"
    by (simp_all add: fleet_example_def)
  have c: "configure_fleet flag_list_ops first_candidate id () None [1] fleet_example (new_Daemon ()) = (None, fleet_dm)"
    by (simp add: fleet_dm_def configure_fleet_def new_Daemon_def Let_def fleet_example_def)
  have f: "flags_of fleet_example 1 = []" "flags_of fleet_example 2 = [''opcua'']" by (simp_all add: flags_of_def fleet_example_def)
  have d: "dev_required_flags (fc_devices fleet_example ! 0) = [''opcua'']" by (simp add: fleet_example_def)
  note t = placement_follows_membership [OF p l m(1) c m(2,3)]
  show ?thesis using t [of "[[1, 2]]"] t [of "[]"] f d by (auto simp: Let_def split: option.splits)
qed

end
