(* ===== verification/Poll_Lane.thy ===== *)
theory Poll_Lane
  imports Runtime
begin

text \<open>
  The pull lane of a deployment, the poller thread of \<open>Runtime::deploy\<close> (\<open>runtime/runtime.hpp\<close>): on every
  tick it opens a stream of its own, polls the driver once, and tells the frames of a successful poll to
  the actor in batches. The device's answers of a tick are the \<open>device_world\<close> of the tick; what a poll of
  the OPC UA library answers is a parameter.
\<close>

type_synonym ua_poll = "OpcUaConfig \<Rightarrow> DriverStatus \<times> Frame list"

fun poll_driver :: "ua_poll \<Rightarrow> device_world \<Rightarrow> driver \<Rightarrow> DriverStatus \<times> Frame list \<times> driver" where
  "poll_driver U W (DModbusTcp t d) = (case tcp_poll (dw_now W) (dw_tcp W t) d of (st, fs, d) \<Rightarrow> (st, fs, DModbusTcp t d))"
| "poll_driver U W (DModbusRtu t d) = (case rtu_poll (dw_now W) (dw_serial W t) d of (st, fs, d) \<Rightarrow> (st, fs, DModbusRtu t d))"
| "poll_driver U W (DOpcUa c) = (case U c of (st, fs) \<Rightarrow> (st, fs, DOpcUa c))"
| "poll_driver U W d = (DsUnsupported, [], d)"

definition poll_budget :: nat where
  "poll_budget = 4"

text \<open>
  Draining the stream: as many frames per batch as the stream grants; an empty grant on a stream that is
  not empty, which the law of the stream rules out, ends the model's loop.
\<close>

function poll_drain :: "(nat \<Rightarrow> nat \<Rightarrow> nat) \<Rightarrow> Frame list \<Rightarrow> Frame list" where
  "poll_drain B fs = (let n = B (length fs) poll_budget in
     if fs = [] \<or> n = 0 then [] else take n fs @ poll_drain B (drop n fs))"
  by pat_completeness auto
termination
  by (relation "measure (\<lambda>(B, fs). length fs)") auto

declare poll_drain.simps [simp del]

definition poll_tick :: "ua_poll \<Rightarrow> (nat \<Rightarrow> nat \<Rightarrow> nat) \<Rightarrow> device_world \<Rightarrow> 'd Runtime \<Rightarrow> 'd Runtime" where
  "poll_tick U B W rt = (case rt_dep rt of
       None \<Rightarrow> rt
     | Some d \<Rightarrow> (case (dp_driver d, dp_poll_ms d) of
         (Some drv, Some _) \<Rightarrow> (case poll_driver U W drv of (st, fs, drv) \<Rightarrow>
            let rt = rt\<lparr>rt_dep := Some (d\<lparr>dp_driver := Some drv\<rparr>)\<rparr> in
            if st = DsOk then post_messages (map ReceiveFrame (poll_drain B fs)) rt else rt)
       | _ \<Rightarrow> rt))"

section \<open>What the ticks tell\<close>

lemma poll_drain_all:
  assumes "batch_law B"
  shows "poll_drain B fs = fs"
proof (induction fs rule: length_induct)
  case (1 fs)
  let ?n = "B (length fs) poll_budget"
  show ?case
  proof (cases "fs = []")
    case False
    then have "0 < ?n" using assms by (simp add: batch_law_def poll_budget_def)
    then have "poll_drain B (drop ?n fs) = drop ?n fs" using 1 False by simp
    then show ?thesis using False \<open>0 < ?n\<close> by (subst poll_drain.simps) (simp add: Let_def)
  qed (simp add: poll_drain.simps)
qed

text \<open>The driver over a list of ticks, with the frames of the polls that succeed.\<close>

fun polls :: "ua_poll \<Rightarrow> device_world list \<Rightarrow> driver \<Rightarrow> Frame list \<times> driver" where
  "polls U [] drv = ([], drv)"
| "polls U (W # Ws) drv = (case poll_driver U W drv of (st, fs, drv) \<Rightarrow>
     (case polls U Ws drv of (fss, drv) \<Rightarrow> ((if st = DsOk then fs else []) @ fss, drv)))"

text \<open>
  Over any ticks the poller tells the actor exactly the frames of the successful polls, in order, behind
  what is in the mailbox; a failed poll tells nothing and the driver is polled again on the next tick.
\<close>

lemma poll_ticks_tell:
  assumes "batch_law B" "rt_dep rt = Some d" "dp_driver d = Some drv" "dp_poll_ms d = Some ms" "polls U Ws drv = (fs, drv')"
  shows "foldl (\<lambda>rt W. poll_tick U B W rt) rt Ws =
    rt\<lparr>rt_dep := Some (d\<lparr>dp_driver := Some drv', dp_mailbox := dp_mailbox d @ map ReceiveFrame fs\<rparr>)\<rparr>"
  using assms(2-)
proof (induction Ws arbitrary: rt d drv fs)
  case (Cons W Ws)
  obtain st fs1 drv1 where 1: "poll_driver U W drv = (st, fs1, drv1)" by (metis prod_cases3)
  obtain fs2 where 2: "polls U Ws drv1 = (fs2, drv')" "fs = (if st = DsOk then fs1 else []) @ fs2"
    using Cons.prems(4) 1 by (auto split: prod.splits)
  let ?d = "d\<lparr>dp_driver := Some drv1, dp_mailbox := dp_mailbox d @ map ReceiveFrame (if st = DsOk then fs1 else [])\<rparr>"
  have t: "poll_tick U B W rt = rt\<lparr>rt_dep := Some ?d\<rparr>"
    using Cons.prems(1-3) 1 by (simp add: poll_tick_def post_messages_def poll_drain_all [OF assms(1)] Let_def)
  show ?case using Cons.IH [of "rt\<lparr>rt_dep := Some ?d\<rparr>" ?d drv1 fs2] Cons.prems(3) 2 by (simp add: t)
qed simp

end
