(* ===== verification/Rest_Api.thy ===== *)
theory Rest_Api
  imports Runtime_Props Daemon Poll_Lane
begin

text \<open>
  The management interface, \<open>api/rest_api.hpp\<close>: every route of \<open>RestApi::install\<close> over the operations of
  \<open>Runtime\<close> and \<open>Daemon\<close>, and the broker service of \<open>Runtime\<close> (\<open>configure_broker\<close>, \<open>broker_status\<close>). The
  HTTP server is a library: it dispatches a request to the first route of its method whose pattern
  matches the whole path, and answers 404 when there is none and 500 when a handler throws.
\<close>

section \<open>The broker service\<close>

record BrokerService =
  bs_port :: "u16 option"
  bs_cluster :: bool

text \<open>
  \<open>start\<close> is what starting the broker answers, its port or the message; \<open>cluster\<close> the peers of the
  configuration, if one is given, and what starting the relay answers.
\<close>

definition configure_broker :: "string + u16 \<Rightarrow> ('p list \<times> string option) option \<Rightarrow> BrokerService \<Rightarrow> string option \<times> BrokerService" where
  "configure_broker start cluster s =
     (if bs_port s \<noteq> None then (Some ''native broker already configured'', s)
      else case start of
        Inl e \<Rightarrow> (Some e, s)
      | Inr port \<Rightarrow>
          (case cluster of
             Some (p # ps, Some e) \<Rightarrow> (Some e, s\<lparr>bs_port := None\<rparr>)
           | Some (p # ps, None) \<Rightarrow> (None, s\<lparr>bs_port := Some port, bs_cluster := True\<rparr>)
           | _ \<Rightarrow> (None, s\<lparr>bs_port := Some port\<rparr>)))"

definition broker_status :: "BrokerService \<Rightarrow> 'd json" where
  "broker_status s = (case bs_port s of
       None \<Rightarrow> JObject [(''configured'', JBool False)]
     | Some port \<Rightarrow> JObject [(''configured'', JBool True), (''listen_port'', JUInt (ucast port))])"

section \<open>Requests and answers\<close>

record ('d, 'c, 'sto, 'msto, 'w) server =
  sv_rt :: "'d Runtime"
  sv_dm :: "('c, 'sto, 'msto, 'w) Daemon"
  sv_broker :: BrokerService

text \<open>What the handlers depend on beside the state; \<open>ae_writes\<close> are the answers of the event stream's writes.\<close>

record ('d, 'sto, 'msto, 'w) api_env =
  ae_env :: "'d env"
  ae_fuel :: nat
  ae_world :: device_world
  ae_parse :: "string \<Rightarrow> 'd json option"
  ae_outbox :: "'msto outbox_ops"
  ae_report :: "(RestMesAdapter \<times> 'w) mes_adapter"
  ae_ota :: "'sto ota_ops"
  ae_sign :: ecdsa_sign_fn
  ae_verify :: ecdsa_verify_fn
  ae_round :: "rat \<Rightarrow> rat"
  ae_double :: "rat \<Rightarrow> 'd"
  ae_epoch :: u64
  ae_catalog :: "'d json"
  ae_writes :: "bool list"

datatype 'd api_body = Text string | Body "'d json" | Events "'d json list" | ErrorOf RtError | ErrorText string | NoBody

type_synonym 'd response = "nat \<times> 'd api_body"

type_synonym ('d, 'c, 'sto, 'msto, 'w) answer = "('d response \<times> ('d, 'c, 'sto, 'msto, 'w) server) ran"

datatype http_method = MGet | MPost | MPut | MDelete

section \<open>Patterns\<close>

text \<open>The patterns with a group: the group's text when the whole path matches. A dot matches no line end.\<close>

definition after_apps :: "string \<Rightarrow> string option" where
  "after_apps path = (let p = ''/apps/''; x = drop (length p) path in
     if take (length p) path = p \<and> x \<noteq> [] \<and> CHR 0x0A \<notin> set x \<and> CHR 0x0D \<notin> set x then Some x else None)"

definition rollback_path :: "string \<Rightarrow> bool" where
  "rollback_path path = (let p = ''/apps/''; q = ''/rollback''; x = drop (length p) path; name = take (length x - length q) x in
     take (length p) path = p \<and> length q < length x \<and> drop (length x - length q) x = q \<and> CHR ''/'' \<notin> set name)"

section \<open>Handlers\<close>

definition with_status :: "('d, 'sto, 'msto, 'w) api_env \<Rightarrow> ('d, 'c, 'sto, 'msto, 'w) server \<Rightarrow> ('d, 'c, 'sto, 'msto, 'w) answer" where
  "with_status A s = ran_bind (status (ae_env A) (ae_fuel A) (sv_rt s)) (\<lambda>(j, rt). Returns ((200, Body j), s\<lparr>sv_rt := rt\<rparr>))"

definition answer_rt :: "('d, 'sto, 'msto, 'w) api_env \<Rightarrow> rt_result \<times> 'd Runtime \<Rightarrow> ('d, 'c, 'sto, 'msto, 'w) server \<Rightarrow> ('d, 'c, 'sto, 'msto, 'w) answer" where
  "answer_rt A r s = (case r of
       (RtOk, rt) \<Rightarrow> with_status A (s\<lparr>sv_rt := rt\<rparr>)
     | (RtErr e, rt) \<Rightarrow> Returns ((400, ErrorOf e), s\<lparr>sv_rt := rt\<rparr>)
     | (RtThrows, rt) \<Rightarrow> Returns ((500, NoBody), s\<lparr>sv_rt := rt\<rparr>))"

definition post_apps where
  "post_apps A bd s = answer_rt A (deploy_json (e_fp (ae_env A)) (ae_world A) (ae_parse A bd) (sv_rt s)) s"

definition put_apps where
  "put_apps A bd s = ran_bind (reload_json (ae_env A) (ae_fuel A) (ae_parse A bd) (sv_rt s)) (\<lambda>r. answer_rt A r s)"

definition post_rollback where
  "post_rollback A s = ran_bind (rollback (ae_env A) (ae_fuel A) (sv_rt s)) (\<lambda>r. answer_rt A r s)"

definition delete_apps :: "string \<Rightarrow> ('d, 'c, 'sto, 'msto, 'w) server \<Rightarrow> ('d, 'c, 'sto, 'msto, 'w) answer" where
  "delete_apps name s = (case undeploy name (sv_rt s) of
       (RtOk, rt) \<Rightarrow> Returns ((200, Body (JObject [(''undeployed'', JString name)])), s\<lparr>sv_rt := rt\<rparr>)
     | (RtErr e, rt) \<Rightarrow> Returns ((404, ErrorOf e), s\<lparr>sv_rt := rt\<rparr>)
     | (RtThrows, rt) \<Rightarrow> Returns ((500, NoBody), s\<lparr>sv_rt := rt\<rparr>))"

definition kMaxSnapshots :: nat where
  "kMaxSnapshots = 3600"

fun metrics_stream :: "'d env \<Rightarrow> nat \<Rightarrow> nat \<Rightarrow> bool list \<Rightarrow> 'd Runtime \<Rightarrow> ('d json list \<times> 'd Runtime) ran" where
  "metrics_stream E n 0 ws rt = Returns ([], rt)"
| "metrics_stream E n (Suc k) ws rt = ran_bind (status E n rt) (\<lambda>(j, rt).
     case ws of
       True # ws \<Rightarrow> ran_bind (metrics_stream E n k ws rt) (\<lambda>(js, rt). Returns (j # js, rt))
     | _ \<Rightarrow> Returns ([], rt))"

definition post_drain :: "('d, 'sto, 'msto, 'w) api_env \<Rightarrow> ('d, 'c, 'sto, 'msto, 'w) server \<Rightarrow> ('d, 'c, 'sto, 'msto, 'w) answer" where
  "post_drain A s = (case mes_drain (ae_outbox A) (ae_report A) (sv_dm s) of
       (Some e, dm) \<Rightarrow> Returns ((400, ErrorText e), s\<lparr>sv_dm := dm\<rparr>)
     | (None, dm) \<Rightarrow> Returns ((200, Body (mes_outbox_stats dm)), s\<lparr>sv_dm := dm\<rparr>))"

text \<open>A \<open>bytes\<close> or \<open>version\<close> that is not a string makes \<open>value\<close> throw.\<close>

definition post_rollouts :: "('d, 'sto, 'msto, 'w) api_env \<Rightarrow> string \<Rightarrow> ('d, 'c, 'sto, 'msto, 'w) server \<Rightarrow> ('d, 'c, 'sto, 'msto, 'w) answer" where
  "post_rollouts A bd s = (case ae_parse A bd of
       None \<Rightarrow> Returns ((400, ErrorText ''body must be JSON with a 'version' field''), s)
     | Some j \<Rightarrow>
         if \<not> contains j ''version'' then Returns ((400, ErrorText ''body must be JSON with a 'version' field''), s)
         else case (value_string j ''version'' [], value_string j ''bytes'' []) of
           (Some v, Some bs) \<Rightarrow>
             (case start_rollout (ae_ota A) (ae_sign A) (ae_verify A) (ae_round A) v bs (sv_dm s) of
                (Some e, dm) \<Rightarrow> Returns ((400, ErrorText e), s\<lparr>sv_dm := dm\<rparr>)
              | (None, dm) \<Rightarrow> Returns ((200, Body (ota_status (ae_double A) dm)), s\<lparr>sv_dm := dm\<rparr>))
         | _ \<Rightarrow> Returns ((500, NoBody), s))"

definition get_routes :: "('d, 'sto, 'msto, 'w) api_env \<Rightarrow> string \<Rightarrow> ('d, 'c, 'sto, 'msto, 'w) server \<Rightarrow> ('d, 'c, 'sto, 'msto, 'w) answer" where
  "get_routes A path s =
     (if path = ''/health'' then Returns ((200, Text ''ok''), s)
      else if path = ''/status'' then with_status A s
      else if path = ''/apps'' then Returns ((200, Body (list_apps (sv_rt s))), s)
      else if path = ''/metrics/stream'' then
        ran_bind (metrics_stream (ae_env A) (ae_fuel A) kMaxSnapshots (ae_writes A) (sv_rt s))
          (\<lambda>(js, rt). Returns ((200, Events js), s\<lparr>sv_rt := rt\<rparr>))
      else if path = ''/mes/outbox'' then Returns ((200, Body (mes_outbox_stats (sv_dm s))), s)
      else if path = ''/fleet'' then Returns ((200, Body (fleet_status (ae_epoch A) (sv_dm s))), s)
      else if path = ''/ota/rollouts'' then Returns ((200, Body (ota_status (ae_double A) (sv_dm s))), s)
      else if path = ''/broker/status'' then Returns ((200, Body (broker_status (sv_broker s))), s)
      else if path = ''/catalog'' then Returns ((200, Body (ae_catalog A)), s)
      else Returns ((404, NoBody), s))"

definition rest_call :: "('d, 'sto, 'msto, 'w) api_env \<Rightarrow> http_method \<Rightarrow> string \<Rightarrow> string \<Rightarrow> ('d, 'c, 'sto, 'msto, 'w) server \<Rightarrow> ('d, 'c, 'sto, 'msto, 'w) answer" where
  "rest_call A m path bd s = (case m of
       MGet \<Rightarrow> get_routes A path s
     | MPost \<Rightarrow>
         if path = ''/apps'' then post_apps A bd s
         else if rollback_path path then post_rollback A s
         else if path = ''/mes/outbox/drain'' then post_drain A s
         else if path = ''/ota/rollouts'' then post_rollouts A bd s
         else Returns ((404, NoBody), s)
     | MPut \<Rightarrow> (case after_apps path of Some _ \<Rightarrow> put_apps A bd s | None \<Rightarrow> Returns ((404, NoBody), s))
     | MDelete \<Rightarrow> (case after_apps path of Some name \<Rightarrow> delete_apps name s | None \<Rightarrow> Returns ((404, NoBody), s)))"

section \<open>Failed calls\<close>

lemma start_driver_error: "start_driver F W ds = Inl r \<Longrightarrow> r \<noteq> RtOk"
  by (auto simp: start_driver_def split: option.splits prod.splits DriverStatus.splits)

lemma deploy_error: "deploy F W app rt = (r, rt') \<Longrightarrow> r \<noteq> RtOk \<Longrightarrow> rt' = rt"
  by (auto simp: deploy_def split: sum.splits option.splits outcome.splits)

lemma deploy_json_error: "deploy_json F W j rt = (r, rt') \<Longrightarrow> r \<noteq> RtOk \<Longrightarrow> rt' = rt"
  by (auto simp: deploy_json_def deploy_error split: sum.splits)

lemma reload_begin_error: "reload_begin F app rt = (r, rt') \<Longrightarrow> r \<noteq> RtOk \<Longrightarrow> rt' = rt"
  by (auto simp: reload_begin_def split: option.splits outcome.splits)

lemma reload_error: "reload E n app rt = Returns (r, rt') \<Longrightarrow> r \<noteq> RtOk \<Longrightarrow> rt' = rt"
  by (auto simp: reload_def split: prod.splits rt_result.splits dest: reload_begin_error elim!: ran_bind.elims)

lemma reload_json_error: "reload_json E n j rt = Returns (r, rt') \<Longrightarrow> r \<noteq> RtOk \<Longrightarrow> rt' = rt"
  by (auto simp: reload_json_def reload_error split: sum.splits)

lemma rollback_error: "rollback E n rt = Returns (r, rt') \<Longrightarrow> r \<noteq> RtOk \<Longrightarrow> rt' = rt"
  by (auto simp: rollback_def reload_error split: option.splits)

lemma undeploy_error: "undeploy name rt = (r, rt') \<Longrightarrow> r \<noteq> RtOk \<Longrightarrow> rt' = rt"
  by (auto simp: undeploy_def split: option.splits if_splits)

lemmas call_errors = deploy_json_error reload_json_error rollback_error undeploy_error

lemma with_status_ok: "with_status A s = Returns ((http, b), s') \<Longrightarrow> http = 200"
  by (auto simp: with_status_def elim!: ran_bind.elims split: prod.splits)

lemma answer_rt_error:
  assumes "answer_rt A (r, rt) s = Returns ((http, b), s')" "http \<noteq> 200" "r \<noteq> RtOk \<Longrightarrow> rt = sv_rt s"
  shows "s' = s"
  using assms by (cases r) (auto simp: answer_rt_def dest: with_status_ok)

lemma ran_bind_answer:
  assumes "ran_bind m (\<lambda>r. answer_rt A r s) = Returns ((http, b), s')" "http \<noteq> 200"
    and "\<And>r rt. m = Returns (r, rt) \<Longrightarrow> r \<noteq> RtOk \<Longrightarrow> rt = sv_rt s"
  shows "s' = s"
proof -
  obtain r rt where m: "m = Returns (r, rt)" using assms(1) by (cases m) auto
  then show ?thesis using answer_rt_error [of A r rt s http b s'] assms by simp
qed

lemma get_routes_error: "get_routes A path s = Returns ((http, b), s') \<Longrightarrow> http \<noteq> 200 \<Longrightarrow> s' = s"
  by (auto simp: get_routes_def dest: with_status_ok split: if_splits elim!: ran_bind.elims)

lemma post_drain_error: "post_drain A s = Returns ((http, b), s') \<Longrightarrow> http \<noteq> 200 \<Longrightarrow> s' = s"
  by (auto simp: post_drain_def mes_drain_def mes_tell_def split: prod.splits option.splits)

lemma post_rollouts_error: "post_rollouts A bd s = Returns ((http, b), s') \<Longrightarrow> http \<noteq> 200 \<Longrightarrow> s' = s"
  by (auto simp: post_rollouts_def start_rollout_def Let_def split: prod.splits option.splits if_splits)

lemma delete_apps_error: "delete_apps name s = Returns ((http, b), s') \<Longrightarrow> http \<noteq> 200 \<Longrightarrow> s' = s"
  by (auto simp: delete_apps_def dest: undeploy_error split: prod.splits rt_result.splits)

section \<open>Properties\<close>

text \<open>
  C22: A request that is refused changes nothing. Whatever the method, the path and the body, when the
  answer is not 200 (an unknown route, a body that is not JSON, an application that does not compile, a
  change that needs a redeploy, a rollback without a previous version, an unknown name, a service that is
  not configured, a handler that throws) the deployment, the services and the broker are as they were.
\<close>

theorem refused_request_no_effect:
  assumes "rest_call A m path bd s = Returns ((http, b), s')" "http \<noteq> 200"
  shows "s' = s"
proof (cases m)
  case MGet
  then show ?thesis using assms get_routes_error by (simp add: rest_call_def)
next
  case MPost
  have "s' = s" if "post_apps A bd s = Returns ((http, b), s')"
    using that assms(2) answer_rt_error deploy_json_error unfolding post_apps_def by (metis surj_pair)
  moreover have "s' = s" if "post_rollback A s = Returns ((http, b), s')"
    using ran_bind_answer [OF that [unfolded post_rollback_def] assms(2)] rollback_error by blast
  ultimately show ?thesis
    using MPost assms post_drain_error post_rollouts_error by (auto simp: rest_call_def split: if_splits)
next
  case MPut
  have "s' = s" if "put_apps A bd s = Returns ((http, b), s')"
    using ran_bind_answer [OF that [unfolded put_apps_def] assms(2)] reload_json_error by blast
  then show ?thesis using MPut assms by (auto simp: rest_call_def split: option.splits)
next
  case MDelete
  then show ?thesis using assms delete_apps_error by (auto simp: rest_call_def split: option.splits)
qed

text \<open>
  The name in the path of a PUT and of a rollback is not looked at: a request for any name reloads or
  rolls back the application that is running.
\<close>

theorem reload_ignores_path_name:
  assumes "after_apps p = Some x" "after_apps q = Some y"
  shows "rest_call A MPut p bd s = rest_call A MPut q bd s"
  using assms by (simp add: rest_call_def)

theorem reload_ignores_path_name_witness:
  "\<forall>A bd s. rest_call A MPut ''/apps/line1'' bd s = rest_call A MPut ''/apps/other'' bd s"
  by (intro allI reload_ignores_path_name [of _ "''line1''" _ "''other''"]) (simp_all add: after_apps_def Let_def)

definition idle_server :: "(int, unit, unit, unit, unit) server" where
  "idle_server = \<lparr>sv_rt = fresh_example, sv_dm = new_Daemon (), sv_broker = \<lparr>bs_port = None, bs_cluster = False\<rparr>\<rparr>"

theorem refused_request_no_effect_witness:
  "\<forall>A. \<exists>b s'. rest_call A MDelete ''/apps/line1'' [] idle_server = Returns ((404, b), s') \<and> s' = idle_server"
proof
  fix A
  have "after_apps ''/apps/line1'' = Some ''line1''" by (simp add: after_apps_def Let_def)
  then have "\<exists>b s'. rest_call A MDelete ''/apps/line1'' [] idle_server = Returns ((404, b), s')"
    by (simp add: rest_call_def delete_apps_def undeploy_def idle_server_def fresh_example_def new_Runtime_def)
  then show "\<exists>b s'. rest_call A MDelete ''/apps/line1'' [] idle_server = Returns ((404, b), s') \<and> s' = idle_server"
    using refused_request_no_effect [of A MDelete "''/apps/line1''" "[]" idle_server 404] by auto
qed

end
