(* ===== verification/Opcua.thy ===== *)
theory Opcua
  imports Driver_Registry
begin

text \<open>
  The two OPC UA drivers and their security set-up (\<open>drivers/opcua_driver.hpp\<close>,
  \<open>drivers/opcua_subscription_driver.hpp\<close>, \<open>drivers/opcua_security.hpp\<close>), in builds that have them. The
  client library open62541 is a record of functions on the state of its client, as are the files with the
  certificates and the printer of the JSON library, which throws where it gives \<open>None\<close>. The methods are
  \<open>noexcept\<close>: a throw ends the process. A call into the library with the null pointer as its client is an
  outcome of its own.
\<close>

section \<open>The library\<close>

datatype UA_MessageSecurityMode = ModeNone | ModeSign | ModeSignAndEncrypt

text \<open>Of the client's configuration, the fields the drivers write, and the rest of it.\<close>

record 'g UA_ClientConfig =
  securityMode :: UA_MessageSecurityMode
  securityPolicyUri :: string
  cc_applicationUri :: string
  cc_timeout :: nat
  connectivityCheckInterval :: nat
  cc_lib :: 'g

record ('c, 'g) UA_Client =
  uc_config :: "'g UA_ClientConfig"
  uc_state :: 'c

datatype 'd UA_Variant = UaDouble 'd | UaFloat 'd | UaInt32 "32 word" | UaUInt32 "32 word" | UaInt16 "16 word"
  | UaUInt16 "16 word" | UaSByte "8 word" | UaByte "8 word" | UaInt64 "64 word" | UaUInt64 "64 word" | UaOther

text \<open>A single-precision value is the double it widens to.\<close>

fun variant_to_double :: "'d fp \<Rightarrow> 'd UA_Variant \<Rightarrow> 'd option" where
  "variant_to_double F (UaDouble x) = Some x"
| "variant_to_double F (UaFloat x) = Some x"
| "variant_to_double F (UaInt32 w) = Some (d_of_int F (sint w))"
| "variant_to_double F (UaUInt32 w) = Some (d_of_int F (uint w))"
| "variant_to_double F (UaInt16 w) = Some (d_of_int F (sint w))"
| "variant_to_double F (UaUInt16 w) = Some (d_of_int F (uint w))"
| "variant_to_double F (UaSByte w) = Some (d_of_int F (sint w))"
| "variant_to_double F (UaByte w) = Some (d_of_int F (uint w))"
| "variant_to_double F (UaInt64 w) = Some (d_of_int F (sint w))"
| "variant_to_double F (UaUInt64 w) = Some (d_of_int F (uint w))"
| "variant_to_double F UaOther = None"

text \<open>A browse answer: the service result, and per node its status with the references, each as the
  printed node id (\<open>None\<close> when printing fails) and the browse name.\<close>

record UA_BrowseResponse =
  serviceResult :: bool
  browse_results :: "(bool \<times> (string option \<times> string) list) list"

record ('c, 'g, 'n, 'd) ua_lib =
  client_new :: "('c, 'g) UA_Client option"
  setDefault :: "'g UA_ClientConfig \<Rightarrow> bool \<times> 'g UA_ClientConfig"
  setDefaultEncryption :: "byte list \<Rightarrow> byte list \<Rightarrow> byte list option \<Rightarrow> 'g UA_ClientConfig \<Rightarrow> bool \<times> 'g UA_ClientConfig"
  setAuthenticationCert :: "byte list \<Rightarrow> byte list \<Rightarrow> 'g UA_ClientConfig \<Rightarrow> bool \<times> 'g UA_ClientConfig"
  client_connect :: "string \<Rightarrow> ('c, 'g) UA_Client \<Rightarrow> bool \<times> ('c, 'g) UA_Client"
  client_disconnect :: "('c, 'g) UA_Client \<Rightarrow> ('c, 'g) UA_Client"
  channel_open :: "('c, 'g) UA_Client \<Rightarrow> bool"
  session_activated :: "('c, 'g) UA_Client \<Rightarrow> bool"
  nodeId_null :: 'n
  nodeId_parse :: "string \<Rightarrow> 'n option"
  readValue :: "'n \<Rightarrow> ('c, 'g) UA_Client \<Rightarrow> 'd UA_Variant option \<times> ('c, 'g) UA_Client"
  scalarCopy :: "'d \<Rightarrow> 'd UA_Variant option"
  writeValue :: "'n \<Rightarrow> 'd UA_Variant \<Rightarrow> ('c, 'g) UA_Client \<Rightarrow> bool \<times> ('c, 'g) UA_Client"
  client_call :: "'n \<Rightarrow> 'n \<Rightarrow> 'd UA_Variant \<Rightarrow> ('c, 'g) UA_Client \<Rightarrow> bool \<times> ('c, 'g) UA_Client"
  service_browse :: "'n \<Rightarrow> nat \<Rightarrow> ('c, 'g) UA_Client \<Rightarrow> UA_BrowseResponse \<times> ('c, 'g) UA_Client"

section \<open>Security\<close>

definition load_der_file :: "(string \<Rightarrow> byte list option) \<Rightarrow> string \<Rightarrow> byte list option" where
  "load_der_file files path = (case files path of
       None \<Rightarrow> None
     | Some bs \<Rightarrow> if bs = [] then None else Some bs)"

definition apply_user_identity_token ::
  "('c, 'g, 'n, 'd) ua_lib \<Rightarrow> (string \<Rightarrow> byte list option) \<Rightarrow> OpcUaSecurityConfig \<Rightarrow> 'g UA_ClientConfig \<Rightarrow>
   bool \<times> 'g UA_ClientConfig" where
  "apply_user_identity_token L files sec cc =
     (if user_certificate_file sec = [] then (True, cc)
      else case load_der_file files (user_certificate_file sec) of
        None \<Rightarrow> (False, cc)
      | Some cert \<Rightarrow> (case load_der_file files (user_private_key_file sec) of
          None \<Rightarrow> (False, cc)
        | Some key \<Rightarrow> setAuthenticationCert L cert key cc))"

definition kDefaultSecurityPolicy :: string where
  "kDefaultSecurityPolicy = ''http://opcfoundation.org/UA/SecurityPolicy#Basic256Sha256''"

text \<open>The configured trust file, when there is one: the outer option is a file that cannot be loaded.\<close>

definition load_trust :: "(string \<Rightarrow> byte list option) \<Rightarrow> OpcUaSecurityConfig \<Rightarrow> byte list option option" where
  "load_trust files sec = (if trusted_server_certificate_file sec = [] then Some None
     else map_option Some (load_der_file files (trusted_server_certificate_file sec)))"

definition apply_security_config ::
  "('c, 'g, 'n, 'd) ua_lib \<Rightarrow> (string \<Rightarrow> byte list option) \<Rightarrow> OpcUaSecurityConfig \<Rightarrow> 'g UA_ClientConfig \<Rightarrow>
   bool \<times> 'g UA_ClientConfig" where
  "apply_security_config L files sec cc =
     (if certificate_file sec = [] then
        (case setDefault L cc of (good, cc) \<Rightarrow>
           if \<not> good then (False, cc) else apply_user_identity_token L files sec cc)
      else case load_der_file files (certificate_file sec) of
        None \<Rightarrow> (False, cc)
      | Some cert \<Rightarrow> (case load_der_file files (private_key_file sec) of
          None \<Rightarrow> (False, cc)
        | Some key \<Rightarrow> (case load_trust files sec of
            None \<Rightarrow> (False, cc)
          | Some trust \<Rightarrow> (case setDefaultEncryption L cert key trust cc of (good, cc) \<Rightarrow>
              if \<not> good then (False, cc)
              else let cc = cc\<lparr>securityMode := (if sign_and_encrypt sec then ModeSignAndEncrypt else ModeSign),
                       securityPolicyUri := c_str (if security_policy_uri sec = [] then kDefaultSecurityPolicy
                         else security_policy_uri sec)\<rparr>;
                     cc = (if application_uri sec = [] then cc else cc\<lparr>cc_applicationUri := c_str (application_uri sec)\<rparr>)
                   in apply_user_identity_token L files sec cc))))"

section \<open>The polling driver\<close>

datatype 'a ua_outcome = Ret 'a | NullClient | Terminated

fun ua_bind :: "'a ua_outcome \<Rightarrow> ('a \<Rightarrow> 'b ua_outcome) \<Rightarrow> 'b ua_outcome" where
  "ua_bind (Ret x) f = f x"
| "ua_bind NullClient f = NullClient"
| "ua_bind Terminated f = Terminated"

record ('c, 'g, 'n) OpcUaDriver =
  oc_cfg :: OpcUaConfig
  oc_rate_hz :: u32
  oc_browse_mode :: bool
  oc_browse_root :: 'n
  oc_opened :: bool
  oc_connected :: bool
  oc_client :: "('c, 'g) UA_Client option"
  oc_node_ids :: "'n list"
  oc_reconnect :: reconnect

definition new_OpcUaDriver :: "('c, 'g, 'n, 'd) ua_lib \<Rightarrow> OpcUaConfig \<Rightarrow> ('c, 'g, 'n) OpcUaDriver" where
  "new_OpcUaDriver L cfg = \<lparr>oc_cfg = cfg, oc_rate_hz = 0, oc_browse_mode = False, oc_browse_root = nodeId_null L, oc_opened = False,
     oc_connected = False, oc_client = None, oc_node_ids = [], oc_reconnect = new_reconnect\<rparr>"

definition kBytesPerEntryEstimate :: nat where
  "kBytesPerEntryEstimate = 40"

definition kMaxBrowseResults :: nat where
  "kMaxBrowseResults = 3"

definition fits_payload_budget :: "string list \<Rightarrow> bool" where
  "fits_payload_budget ids \<longleftrightarrow> length ids * kBytesPerEntryEstimate + 2 \<le> kMaxFramePayload"

definition parse_node_id :: "('c, 'g, 'n, 'd) ua_lib \<Rightarrow> string \<Rightarrow> 'n option" where
  "parse_node_id L s = nodeId_parse L (c_str s)"

fun parse_node_ids :: "('c, 'g, 'n, 'd) ua_lib \<Rightarrow> string list \<Rightarrow> 'n list option" where
  "parse_node_ids L [] = Some []"
| "parse_node_ids L (s # ss) = (case nodeId_parse L (c_str s) of
       None \<Rightarrow> None
     | Some n \<Rightarrow> map_option ((#) n) (parse_node_ids L ss))"

text \<open>\<open>try_connect\<close>, with the time after the attempt.\<close>

definition try_connect ::
  "('c, 'g, 'n, 'd) ua_lib \<Rightarrow> int \<Rightarrow> ('c, 'g) UA_Client \<Rightarrow> ('c, 'g, 'n) OpcUaDriver \<Rightarrow> bool \<times> ('c, 'g, 'n) OpcUaDriver" where
  "try_connect L t' c d = (case client_connect L (c_str (ua_endpoint (oc_cfg d))) c of (good, c) \<Rightarrow>
     (good, d\<lparr>oc_client := Some c,
            oc_reconnect := (if good then attempt_succeeded t' (oc_reconnect d) else oc_reconnect d)\<rparr>))"

text \<open>The part of \<open>open\<close> after the configuration is accepted, between the times \<open>t\<close> and \<open>t'\<close>.\<close>

definition ua_dial ::
  "('c, 'g, 'n, 'd) ua_lib \<Rightarrow> (string \<Rightarrow> byte list option) \<Rightarrow> int \<Rightarrow> int \<Rightarrow> u32 \<Rightarrow> ('c, 'g, 'n) OpcUaDriver \<Rightarrow>
   DriverStatus \<times> ('c, 'g, 'n) OpcUaDriver" where
  "ua_dial L files t t' rate d =
     (let d = d\<lparr>oc_rate_hz := rate, oc_opened := True, oc_client := None\<rparr> in
      case client_new L of
        None \<Rightarrow> (DsError, d)
      | Some c \<Rightarrow> (case apply_security_config L files (ua_security (oc_cfg d)) (uc_config c) of (good, cc) \<Rightarrow>
          if \<not> good then (DsError, d)
          else case try_connect L t' (c\<lparr>uc_config := cc\<rparr>)
                 (d\<lparr>oc_reconnect := \<lparr>backoff_ms = kInitialBackoffMs, next_attempt_at = t\<rparr>\<rparr>) of (up, d) \<Rightarrow>
            (if up then DsOk else DsError, d\<lparr>oc_connected := up\<rparr>)))"

definition ua_open ::
  "('c, 'g, 'n, 'd) ua_lib \<Rightarrow> (string \<Rightarrow> byte list option) \<Rightarrow> int \<Rightarrow> int \<Rightarrow> u32 \<Rightarrow> ('c, 'g, 'n) OpcUaDriver \<Rightarrow>
   DriverStatus \<times> ('c, 'g, 'n) OpcUaDriver" where
  "ua_open L files t t' rate d0 =
     (let root = ua_browse_root (oc_cfg d0); ids = ua_node_ids (oc_cfg d0);
          d = d0\<lparr>oc_browse_mode := root \<noteq> []\<rparr> in
      if root \<noteq> [] then
        if ids \<noteq> [] then (DsError, d)
        else (case parse_node_id L root of
            None \<Rightarrow> (DsError, d\<lparr>oc_browse_root := nodeId_null L\<rparr>)
          | Some r \<Rightarrow> ua_dial L files t t' rate (d\<lparr>oc_browse_root := r\<rparr>))
      else if \<not> fits_payload_budget ids then (DsError, d)
      else (case parse_node_ids L ids of
          None \<Rightarrow> (DsError, d\<lparr>oc_node_ids := []\<rparr>)
        | Some ns \<Rightarrow> ua_dial L files t t' rate (d\<lparr>oc_node_ids := ns\<rparr>)))"

definition ua_ensure_connected ::
  "('c, 'g, 'n, 'd) ua_lib \<Rightarrow> int \<Rightarrow> int \<Rightarrow> ('c, 'g, 'n) OpcUaDriver \<Rightarrow> (bool \<times> ('c, 'g, 'n) OpcUaDriver) ua_outcome" where
  "ua_ensure_connected L t t' d =
     (if \<not> attempt_due t (oc_reconnect d) then Ret (False, d)
      else case oc_client d of
        None \<Rightarrow> NullClient
      | Some c \<Rightarrow> (case try_connect L t' c d of (up, d) \<Rightarrow>
          Ret (up, d\<lparr>oc_connected := up,
                    oc_reconnect := (if up then oc_reconnect d else attempt_failed t (oc_reconnect d))\<rparr>)))"

text \<open>\<open>if (!connected_ && !ensure_connected()) return Error\<close>, then the call with the client.\<close>

definition with_connection ::
  "('c, 'g, 'n, 'd) ua_lib \<Rightarrow> int \<Rightarrow> int \<Rightarrow> 'r \<Rightarrow>
   (('c, 'g) UA_Client \<Rightarrow> ('c, 'g, 'n) OpcUaDriver \<Rightarrow> ('r \<times> ('c, 'g, 'n) OpcUaDriver) ua_outcome) \<Rightarrow>
   ('c, 'g, 'n) OpcUaDriver \<Rightarrow> ('r \<times> ('c, 'g, 'n) OpcUaDriver) ua_outcome" where
  "with_connection L t t' err f d =
     ua_bind (if oc_connected d then Ret (True, d) else ua_ensure_connected L t t' d) (\<lambda>(up, d).
       if \<not> up then Ret (err, d)
       else case oc_client d of None \<Rightarrow> NullClient | Some c \<Rightarrow> f c d)"

definition connection_lost :: "('c, 'g, 'n, 'd) ua_lib \<Rightarrow> ('c, 'g) UA_Client \<Rightarrow> bool" where
  "connection_lost L c \<longleftrightarrow> \<not> (channel_open L c \<and> session_activated L c)"

definition ua_teardown_session ::
  "('c, 'g, 'n, 'd) ua_lib \<Rightarrow> ('c, 'g) UA_Client \<Rightarrow> ('c, 'g, 'n) OpcUaDriver \<Rightarrow> ('c, 'g, 'n) OpcUaDriver" where
  "ua_teardown_session L c d = d\<lparr>oc_client := Some (client_disconnect L c), oc_connected := False\<rparr>"

text \<open>What every operation does after a call that failed.\<close>

definition after_failure ::
  "('c, 'g, 'n, 'd) ua_lib \<Rightarrow> ('c, 'g) UA_Client \<Rightarrow> ('c, 'g, 'n) OpcUaDriver \<Rightarrow> ('c, 'g, 'n) OpcUaDriver" where
  "after_failure L c d = (if connection_lost L c then ua_teardown_session L c d else d\<lparr>oc_client := Some c\<rparr>)"

definition body_frame :: "string \<Rightarrow> Frame" where
  "body_frame body = \<lparr>raw = 0, payload_len = of_nat (length body), fr_payload = bytes_of_string body\<rparr>"

text \<open>The loop over the nodes; \<open>True\<close> when the connection was lost.\<close>

fun read_nodes ::
  "('c, 'g, 'n, 'd) ua_lib \<Rightarrow> 'd fp \<Rightarrow> (string \<times> 'n) list \<Rightarrow> (string \<times> 'd json) list \<Rightarrow> ('c, 'g) UA_Client \<Rightarrow>
   bool \<times> (string \<times> 'd json) list \<times> ('c, 'g) UA_Client" where
  "read_nodes L F [] j c = (False, j, c)"
| "read_nodes L F ((s, n) # ns) j c = (case readValue L n c of
     (Some v, c) \<Rightarrow> read_nodes L F ns (case variant_to_double F v of None \<Rightarrow> j | Some x \<Rightarrow> AList.update s (JFloat x) j) c
   | (None, c) \<Rightarrow> if connection_lost L c then (True, j, c) else read_nodes L F ns j c)"

text \<open>The guard on the size and the push, which waits for room in the stream.\<close>

definition push_body ::
  "('d json \<Rightarrow> string option) \<Rightarrow> 'd json \<Rightarrow> 's \<Rightarrow> ((DriverStatus \<times> Frame list) \<times> 's) ua_outcome" where
  "push_body dump j d = (case dump j of
       None \<Rightarrow> Terminated
     | Some body \<Rightarrow> Ret (if kMaxFramePayload < length body then (DsError, []) else (DsOk, [body_frame body]), d))"

text \<open>The references that become elements: at most \<open>kMaxBrowseResults\<close>, those that cannot be printed skipped.\<close>

fun browse_refs :: "(string option \<times> string) list \<Rightarrow> 'd json list \<Rightarrow> 'd json list" where
  "browse_refs [] js = js"
| "browse_refs ((printed, name) # rs) js =
     (if \<not> length js < kMaxBrowseResults then js
      else case printed of
        None \<Rightarrow> browse_refs rs js
      | Some i \<Rightarrow> browse_refs rs (js @ [JObject [(''id'', JString i), (''name'', JString name)]]))"

definition browse_once ::
  "('c, 'g, 'n, 'd) ua_lib \<Rightarrow> ('d json \<Rightarrow> string option) \<Rightarrow> 'n \<Rightarrow> ('c, 'g) UA_Client \<Rightarrow> ('c, 'g, 'n) OpcUaDriver \<Rightarrow>
   ((DriverStatus \<times> Frame list) \<times> ('c, 'g, 'n) OpcUaDriver) ua_outcome" where
  "browse_once L dump root c d = (case service_browse L root kMaxBrowseResults c of (resp, c) \<Rightarrow>
     if \<not> serviceResult resp then Ret ((DsError, []), after_failure L c d)
     else case browse_results resp of
       [(True, refs)] \<Rightarrow> push_body dump (JArray (browse_refs refs [])) (d\<lparr>oc_client := Some c\<rparr>)
     | _ \<Rightarrow> Ret ((DsError, []), d\<lparr>oc_client := Some c\<rparr>))"

definition read_once ::
  "('c, 'g, 'n, 'd) ua_lib \<Rightarrow> 'd fp \<Rightarrow> ('d json \<Rightarrow> string option) \<Rightarrow> ('c, 'g) UA_Client \<Rightarrow> ('c, 'g, 'n) OpcUaDriver \<Rightarrow>
   ((DriverStatus \<times> Frame list) \<times> ('c, 'g, 'n) OpcUaDriver) ua_outcome" where
  "read_once L F dump c d = (case read_nodes L F (zip (ua_node_ids (oc_cfg d)) (oc_node_ids d)) [] c of (lost, j, c) \<Rightarrow>
     if lost then Ret ((DsError, []), ua_teardown_session L c d)
     else push_body dump (JObject j) (d\<lparr>oc_client := Some c\<rparr>))"

definition ua_poll_once ::
  "('c, 'g, 'n, 'd) ua_lib \<Rightarrow> 'd fp \<Rightarrow> ('d json \<Rightarrow> string option) \<Rightarrow> int \<Rightarrow> int \<Rightarrow> ('c, 'g, 'n) OpcUaDriver \<Rightarrow>
   ((DriverStatus \<times> Frame list) \<times> ('c, 'g, 'n) OpcUaDriver) ua_outcome" where
  "ua_poll_once L F dump t t' d =
     (if \<not> oc_opened d then Ret ((DsError, []), d)
      else with_connection L t t' (DsError, []) (\<lambda>c d.
        if oc_browse_mode d then browse_once L dump (oc_browse_root d) c d else read_once L F dump c d) d)"

definition ua_call_result ::
  "('c, 'g, 'n, 'd) ua_lib \<Rightarrow> bool \<times> ('c, 'g) UA_Client \<Rightarrow> ('c, 'g, 'n) OpcUaDriver \<Rightarrow>
   (DriverStatus \<times> ('c, 'g, 'n) OpcUaDriver) ua_outcome" where
  "ua_call_result L r d = (case r of (good, c) \<Rightarrow>
     if good then Ret (DsOk, d\<lparr>oc_client := Some c\<rparr>) else Ret (DsError, after_failure L c d))"

definition call_method ::
  "('c, 'g, 'n, 'd) ua_lib \<Rightarrow> 'd fp \<Rightarrow> int \<Rightarrow> int \<Rightarrow> string \<Rightarrow> string \<Rightarrow> int \<Rightarrow> ('c, 'g, 'n) OpcUaDriver \<Rightarrow>
   (DriverStatus \<times> ('c, 'g, 'n) OpcUaDriver) ua_outcome" where
  "call_method L F t t' object_str method_str v d =
     (case (parse_node_id L object_str, parse_node_id L method_str) of
        (Some obj, Some meth) \<Rightarrow> with_connection L t t' DsError (\<lambda>c d.
          case scalarCopy L (d_of_int F v) of
            None \<Rightarrow> Ret (DsError, d)
          | Some x \<Rightarrow> ua_call_result L (client_call L obj meth x c) d) d
      | _ \<Rightarrow> Ret (DsError, d))"

definition ua_write ::
  "('c, 'g, 'n, 'd) ua_lib \<Rightarrow> 'd fp \<Rightarrow> int \<Rightarrow> int \<Rightarrow> DeviceCommand \<Rightarrow> ('c, 'g, 'n) OpcUaDriver \<Rightarrow>
   (DriverStatus \<times> ('c, 'g, 'n) OpcUaDriver) ua_outcome" where
  "ua_write L F t t' cmd d =
     (if \<not> oc_opened d then Ret (DsError, d)
      else case find_char (CHR ''|'') (dc_target cmd) of
        Some sep \<Rightarrow> call_method L F t t' (take sep (dc_target cmd)) (drop (Suc sep) (dc_target cmd)) (dc_value cmd) d
      | None \<Rightarrow> (case parse_node_id L (dc_target cmd) of
          None \<Rightarrow> Ret (DsError, d)
        | Some n \<Rightarrow> with_connection L t t' DsError (\<lambda>c d.
            case scalarCopy L (d_of_int F (dc_value cmd)) of
              None \<Rightarrow> Ret (DsError, d)
            | Some x \<Rightarrow> ua_call_result L (writeValue L n x c) d) d))"

definition ua_close :: "('c, 'g, 'n, 'd) ua_lib \<Rightarrow> ('c, 'g, 'n) OpcUaDriver \<Rightarrow> ('c, 'g, 'n) OpcUaDriver" where
  "ua_close L d = d\<lparr>oc_node_ids := [], oc_browse_root := (if oc_browse_mode d then nodeId_null L else oc_browse_root d),
     oc_client := None, oc_connected := False, oc_opened := False\<rparr>"

section \<open>The subscribing driver\<close>

record ('c, 'g, 'n) OpcUaSubscriptionDriver =
  os_cfg :: OpcUaConfig
  os_rate_hz :: u32
  os_opened :: bool
  os_client :: "('c, 'g) UA_Client option"
  os_node_ids :: "'n list"
  os_backoff_ms :: int

definition kPerEntryOverhead :: nat where
  "kPerEntryOverhead = 24"

definition kServiceCallTimeoutMs :: nat where
  "kServiceCallTimeoutMs = 2000"

definition kConnectivityCheckIntervalMs :: nat where
  "kConnectivityCheckIntervalMs = 2000"

definition fits_entry_budget :: "string list \<Rightarrow> bool" where
  "fits_entry_budget ids \<longleftrightarrow> list_all (\<lambda>s. \<not> length s + kPerEntryOverhead > kMaxFramePayload) ids"

definition sub_open ::
  "('c, 'g, 'n, 'd) ua_lib \<Rightarrow> (string \<Rightarrow> byte list option) \<Rightarrow> u32 \<Rightarrow> ('c, 'g, 'n) OpcUaSubscriptionDriver \<Rightarrow>
   DriverStatus \<times> ('c, 'g, 'n) OpcUaSubscriptionDriver" where
  "sub_open L files rate d =
     (let ids = ua_node_ids (os_cfg d) in
      if \<not> fits_entry_budget ids then (DsError, d)
      else case parse_node_ids L ids of
        None \<Rightarrow> (DsError, d\<lparr>os_node_ids := []\<rparr>)
      | Some ns \<Rightarrow>
          let d = d\<lparr>os_node_ids := ns, os_rate_hz := rate, os_client := None\<rparr> in
          (case client_new L of
             None \<Rightarrow> (DsError, d)
           | Some c \<Rightarrow> (case apply_security_config L files (ua_security (os_cfg d)) (uc_config c) of (good, cc) \<Rightarrow>
               if \<not> good then (DsError, d)
               else (DsOk, d\<lparr>os_client := Some (c\<lparr>uc_config := cc\<lparr>cc_timeout := kServiceCallTimeoutMs,
                       connectivityCheckInterval := kConnectivityCheckIntervalMs\<rparr>\<rparr>), os_opened := True\<rparr>))))"

text \<open>One notification of the monitored item \<open>i\<close>: the frames it pushes, \<open>None\<close> when the printer throws.\<close>

definition data_change_callback ::
  "'d fp \<Rightarrow> ('d json \<Rightarrow> string option) \<Rightarrow> string list \<Rightarrow> nat \<Rightarrow> 'd UA_Variant option \<Rightarrow> Frame list option" where
  "data_change_callback F dump ids i value = (case Option.bind value (variant_to_double F) of
       None \<Rightarrow> Some []
     | Some x \<Rightarrow> (case dump (JObject [(ids ! i, JFloat x)]) of
         None \<Rightarrow> None
       | Some body \<Rightarrow> Some (if kMaxFramePayload < length body then [] else [body_frame body])))"

text \<open>
  What the library does in a round of \<open>run\<close>: whether the connect and the creation of the subscription
  succeed, the iterations with their notifications, result and state, and how often the clock is read
  before the wait of the round is over. A list of iterations that is used up is a connection that ends.
  A notification that \<open>createDataChange\<close> refused never arrives, so it is not in the list. The stop token is
  the number of times it still answers no.
\<close>

record 'd ua_iteration =
  it_notes :: "(nat \<times> 'd UA_Variant option) list"
  it_good :: bool
  it_lost :: bool

record 'd ua_round =
  rd_connect :: bool
  rd_create :: bool
  rd_iterations :: "'d ua_iteration list"
  rd_slices :: nat

text \<open>\<open>backoff_wait\<close>: false when the stop token fired; the slices, the token and the back-off after it.\<close>

fun wait_slices :: "nat \<Rightarrow> nat \<Rightarrow> bool \<times> nat" where
  "wait_slices 0 n = (True, n)"
| "wait_slices (Suc k) 0 = (False, 0)"
| "wait_slices (Suc k) (Suc n) = wait_slices k n"

definition backoff_wait :: "nat \<Rightarrow> nat \<Rightarrow> int \<Rightarrow> bool \<times> nat \<times> int" where
  "backoff_wait slices n b = (case wait_slices slices n of (go, n) \<Rightarrow>
     (go, n, if go then (if b * 2 < kMaxBackoffMs then b * 2 else kMaxBackoffMs) else b))"

fun note_frames ::
  "'d fp \<Rightarrow> ('d json \<Rightarrow> string option) \<Rightarrow> string list \<Rightarrow> (nat \<times> 'd UA_Variant option) list \<Rightarrow> Frame list option" where
  "note_frames F dump ids [] = Some []"
| "note_frames F dump ids ((i, v) # ns) = (case data_change_callback F dump ids i v of
       None \<Rightarrow> None
     | Some fs \<Rightarrow> map_option ((@) fs) (note_frames F dump ids ns))"

fun run_iterate ::
  "'d fp \<Rightarrow> ('d json \<Rightarrow> string option) \<Rightarrow> string list \<Rightarrow> 'd ua_iteration list \<Rightarrow> nat \<Rightarrow> (Frame list \<times> nat) option" where
  "run_iterate F dump ids [] n = Some ([], n - 1)"
| "run_iterate F dump ids (it # its) 0 = Some ([], 0)"
| "run_iterate F dump ids (it # its) (Suc n) = (case note_frames F dump ids (it_notes it) of
       None \<Rightarrow> None
     | Some fs \<Rightarrow> if \<not> it_good it \<or> it_lost it then Some (fs, n)
         else map_option (map_prod ((@) fs) id) (run_iterate F dump ids its n))"

text \<open>
  How \<open>run\<close> ends: with a status, by a throw in a callback, by a call of the library with a null client, or not
  within the rounds given.
\<close>

datatype sub_result = Returned DriverStatus | Threw | SubNullClient | StillSubscribed

fun sub_rounds ::
  "'d fp \<Rightarrow> ('d json \<Rightarrow> string option) \<Rightarrow> string list \<Rightarrow> 'd ua_round list \<Rightarrow> nat \<Rightarrow> int \<Rightarrow> sub_result \<times> Frame list \<times> int" where
  "sub_rounds F dump ids [] n b = (StillSubscribed, [], b)"
| "sub_rounds F dump ids (r # rs) 0 b = (Returned DsOk, [], b)"
| "sub_rounds F dump ids (r # rs) (Suc n) b =
     (if \<not> rd_connect r \<or> \<not> rd_create r then
        (case backoff_wait (rd_slices r) n (if rd_connect r then kInitialBackoffMs else b) of (go, n, b) \<Rightarrow>
           if go then sub_rounds F dump ids rs n b else (Returned DsOk, [], b))
      else case run_iterate F dump ids (rd_iterations r) n of
        None \<Rightarrow> (Threw, [], kInitialBackoffMs)
      | Some (fs, 0) \<Rightarrow> (Returned DsOk, fs, kInitialBackoffMs)
      | Some (fs, Suc n) \<Rightarrow> (case backoff_wait (rd_slices r) n kInitialBackoffMs of (go, n, b) \<Rightarrow>
          if go then (case sub_rounds F dump ids rs n b of (res, gs, b) \<Rightarrow> (res, fs @ gs, b))
          else (Returned DsOk, fs, b)))"

definition sub_run ::
  "'d fp \<Rightarrow> ('d json \<Rightarrow> string option) \<Rightarrow> 'd ua_round list \<Rightarrow> nat \<Rightarrow> ('c, 'g, 'n) OpcUaSubscriptionDriver \<Rightarrow>
   sub_result \<times> Frame list \<times> ('c, 'g, 'n) OpcUaSubscriptionDriver" where
  "sub_run F dump rs n d =
     (if \<not> os_opened d then (Returned DsError, [], d)
      else if n \<noteq> 0 \<and> Option.is_none (os_client d) then (SubNullClient, [], d\<lparr>os_backoff_ms := kInitialBackoffMs\<rparr>)
      else case sub_rounds F dump (ua_node_ids (os_cfg d)) rs n kInitialBackoffMs of (res, fs, b) \<Rightarrow>
        (res, fs, d\<lparr>os_backoff_ms := b\<rparr>))"

definition sub_close :: "('c, 'g, 'n) OpcUaSubscriptionDriver \<Rightarrow> ('c, 'g, 'n) OpcUaSubscriptionDriver" where
  "sub_close d = d\<lparr>os_node_ids := [], os_client := None, os_opened := False\<rparr>"

end
