(* ===== verification/Opcua_Props.thy ===== *)
theory Opcua_Props
  imports Opcua Expr_Props
begin

text \<open>
  What the OPC UA drivers keep over their operations: the client is there whenever the driver may use it
  and the back-off stays in its bounds, a frame is always a whole printed value, a configured certificate
  is never dropped, and a subscription ends once it is told to.
\<close>

section \<open>Security\<close>

text \<open>Of the library: setting a user certificate leaves the security mode and policy as they are.\<close>

definition auth_keeps_mode :: "('c, 'g, 'n, 'd) ua_lib \<Rightarrow> bool" where
  "auth_keeps_mode L \<longleftrightarrow> (\<forall>cert key cc.
     securityMode (snd (setAuthenticationCert L cert key cc)) = securityMode cc \<and>
     securityPolicyUri (snd (setAuthenticationCert L cert key cc)) = securityPolicyUri cc)"

lemma user_token_mode:
  assumes "auth_keeps_mode L"
  shows "securityMode (snd (apply_user_identity_token L files sec cc)) = securityMode cc"
    and "securityPolicyUri (snd (apply_user_identity_token L files sec cc)) = securityPolicyUri cc"
  using assms by (auto simp: apply_user_identity_token_def auth_keeps_mode_def split: option.splits)

lemma load_der_file_Some: "load_der_file files p = Some bs \<longleftrightarrow> files p = Some bs \<and> bs \<noteq> []"
  by (auto simp: load_der_file_def split: option.splits)

section \<open>The polling driver\<close>

definition ua_wf :: "('c, 'g, 'n) OpcUaDriver \<Rightarrow> bool" where
  "ua_wf d \<longleftrightarrow> (oc_opened d \<or> oc_connected d \<longrightarrow> oc_client d \<noteq> None) \<and> backoff_inv (oc_reconnect d)"

fun ua_inv :: "('c, 'g, 'n) OpcUaDriver ua_outcome \<Rightarrow> bool" where
  "ua_inv (Ret d) \<longleftrightarrow> ua_wf d"
| "ua_inv NullClient \<longleftrightarrow> False"
| "ua_inv Terminated \<longleftrightarrow> True"

fun ua_inv_r :: "('r \<times> ('c, 'g, 'n) OpcUaDriver) ua_outcome \<Rightarrow> bool" where
  "ua_inv_r (Ret (r, d)) \<longleftrightarrow> ua_wf d"
| "ua_inv_r NullClient \<longleftrightarrow> False"
| "ua_inv_r Terminated \<longleftrightarrow> True"

text \<open>What the runtime calls on a driver that is open, with the times before and after a connect.\<close>

datatype ua_op = Poll int int | Write DeviceCommand int int | Close

fun ua_apply ::
  "('c, 'g, 'n, 'd) ua_lib \<Rightarrow> 'd fp \<Rightarrow> ('d json \<Rightarrow> string option) \<Rightarrow> ua_op \<Rightarrow> ('c, 'g, 'n) OpcUaDriver \<Rightarrow>
   ('c, 'g, 'n) OpcUaDriver ua_outcome" where
  "ua_apply L F dump (Poll t t') d = ua_bind (ua_poll_once L F dump t t' d) (\<lambda>(_, d). Ret d)"
| "ua_apply L F dump (Write cmd t t') d = ua_bind (ua_write L F t t' cmd d) (\<lambda>(_, d). Ret d)"
| "ua_apply L F dump Close d = Ret (ua_close L d)"

definition ua_step ::
  "('c, 'g, 'n, 'd) ua_lib \<Rightarrow> 'd fp \<Rightarrow> ('d json \<Rightarrow> string option) \<Rightarrow> ('c, 'g, 'n) OpcUaDriver ua_outcome \<Rightarrow> ua_op \<Rightarrow>
   ('c, 'g, 'n) OpcUaDriver ua_outcome" where
  "ua_step L F dump s e = ua_bind s (ua_apply L F dump e)"

lemma ua_inv_drop: "ua_inv_r r \<Longrightarrow> ua_inv (ua_bind r (\<lambda>(_, d). Ret d))"
  by (cases r rule: ua_inv_r.cases) simp_all

lemma backoff_attempts [simp]:
  "backoff_inv (attempt_succeeded t r)" "backoff_inv r \<Longrightarrow> backoff_inv (attempt_failed t r)"
  by (auto simp: backoff_inv_def attempt_failed_def attempt_succeeded_def kInitialBackoffMs_def kMaxBackoffMs_def)

lemma try_connect_shape:
  assumes "try_connect L t' c d = (up, d')"
  shows "oc_client d' \<noteq> None" "oc_opened d' = oc_opened d" "backoff_inv (oc_reconnect d) \<Longrightarrow> backoff_inv (oc_reconnect d')"
  using assms by (auto simp: try_connect_def split: prod.splits)

lemma ensure_connected_wf:
  assumes "ua_wf d" "oc_opened d"
  shows "\<exists>up d'. ua_ensure_connected L t t' d = Ret (up, d') \<and> ua_wf d' \<and> oc_opened d'"
proof -
  obtain c where c: "oc_client d = Some c" using assms by (auto simp: ua_wf_def)
  obtain up d' where u: "try_connect L t' c d = (up, d')" by fastforce
  show ?thesis
    using assms c try_connect_shape [OF u] by (auto simp: ua_ensure_connected_def ua_wf_def u)
qed

lemma with_connection_wf:
  assumes "ua_wf d" "oc_opened d" "\<And>c d. ua_wf d \<Longrightarrow> ua_inv_r (f c d)"
  shows "ua_inv_r (with_connection L t t' err f d)"
proof -
  have "\<exists>up d'. (if oc_connected d then Ret (True, d) else ua_ensure_connected L t t' d) = Ret (up, d') \<and> ua_wf d' \<and> oc_opened d'"
    using ensure_connected_wf [OF assms(1,2)] assms(1,2) by auto
  then obtain up d' where d': "(if oc_connected d then Ret (True, d) else ua_ensure_connected L t t' d) = Ret (up, d')"
    "ua_wf d'" "oc_opened d'" by blast
  then obtain c where "oc_client d' = Some c" by (auto simp: ua_wf_def)
  then show ?thesis using d'(2) assms(3) by (simp add: with_connection_def d'(1))
qed

lemma ua_wf_client [simp]:
  "ua_wf d \<Longrightarrow> ua_wf (d\<lparr>oc_client := Some c\<rparr>)" "ua_wf d \<Longrightarrow> ua_wf (ua_teardown_session L c d)"
  "ua_wf d \<Longrightarrow> ua_wf (after_failure L c d)" "ua_wf d \<Longrightarrow> ua_wf (ua_close L d)"
  by (auto simp: ua_wf_def ua_teardown_session_def after_failure_def ua_close_def)

lemma push_body_wf: "ua_wf d \<Longrightarrow> ua_inv_r (push_body dump j d)"
  by (auto simp: push_body_def split: option.splits)

lemma poll_wf: "ua_wf d \<Longrightarrow> ua_inv_r (ua_poll_once L F dump t t' d)"
  unfolding ua_poll_once_def
  by (auto simp: browse_once_def read_once_def intro!: with_connection_wf push_body_wf split: prod.splits list.splits bool.splits)

lemma call_result_wf: "ua_wf d \<Longrightarrow> ua_inv_r (ua_call_result L r d)"
  by (auto simp: ua_call_result_def split: prod.splits)

lemma write_wf: "ua_wf d \<Longrightarrow> ua_inv_r (ua_write L F t t' cmd d)"
  unfolding ua_write_def call_method_def
  by (auto intro!: with_connection_wf call_result_wf split: option.splits)

interpretation ua: machine "ua_step L F dump" ua_inv for L F dump
proof unfold_locales
  fix s :: "('a, 'b, 'c) OpcUaDriver ua_outcome" and e assume "ua_inv s"
  then show "ua_inv (ua_step L F dump s e)"
    by (cases s; cases e) (auto simp: ua_step_def intro!: ua_inv_drop poll_wf write_wf)
qed

lemma dial_wf:
  assumes "ua_dial L files t t' rate d = (DsOk, d')"
  shows "ua_wf d' \<and> oc_opened d' \<and> oc_connected d'"
  using assms
  by (auto simp: ua_dial_def ua_wf_def Let_def try_connect_def split: option.splits prod.splits if_splits)

lemma open_wf: "ua_open L files t t' rate d = (DsOk, d') \<Longrightarrow> ua_wf d' \<and> oc_opened d' \<and> oc_connected d'"
  by (auto simp: ua_open_def Let_def split: if_splits option.splits dest: dial_wf)

section \<open>Frames\<close>

lemma push_body_frames:
  assumes "push_body dump j d = Ret ((st, fs), d')"
  shows "\<exists>body. dump j = Some body \<and> (st, fs) = (if length body \<le> kMaxFramePayload then (DsOk, [body_frame body]) else (DsError, []))"
  using assms by (auto simp: push_body_def not_le split: option.splits if_splits)

text \<open>The client a poll talks to: the one in place, or the one a reconnect that is due brings back.\<close>

definition polled_client :: "('c, 'g, 'n, 'd) ua_lib \<Rightarrow> int \<Rightarrow> ('c, 'g, 'n) OpcUaDriver \<Rightarrow> ('c, 'g) UA_Client option" where
  "polled_client L t d =
     (if \<not> oc_opened d then None
      else if oc_connected d then oc_client d
      else if \<not> attempt_due t (oc_reconnect d) then None
      else case oc_client d of
        None \<Rightarrow> None
      | Some c \<Rightarrow> (case client_connect L (c_str (ua_endpoint (oc_cfg d))) c of (up, c') \<Rightarrow> if up then Some c' else None))"

lemma with_connection_Ret:
  assumes "oc_opened d" "with_connection L t t' err f d = Ret (r, d')"
  obtains "polled_client L t d = None" "r = err"
  | c d1 where "polled_client L t d = Some c" "f c d1 = Ret (r, d')" "oc_cfg d1 = oc_cfg d" "oc_browse_mode d1 = oc_browse_mode d"
      "oc_browse_root d1 = oc_browse_root d" "oc_node_ids d1 = oc_node_ids d"
  using assms
  by (auto simp: with_connection_def polled_client_def ua_ensure_connected_def try_connect_def split: if_splits option.splits prod.splits)

text \<open>
  What the device answers when the nodes are read one after another, each answer with the client after it,
  and the numbers among the answers.
\<close>

fun node_reads ::
  "('c, 'g, 'n, 'd) ua_lib \<Rightarrow> (string \<times> 'n) list \<Rightarrow> ('c, 'g) UA_Client \<Rightarrow> (string \<times> 'd UA_Variant option \<times> ('c, 'g) UA_Client) list" where
  "node_reads L [] c = []"
| "node_reads L ((s, n) # ns) c = (case readValue L n c of (v, c') \<Rightarrow> (s, v, c') # node_reads L ns c')"

fun numbers_read :: "'d fp \<Rightarrow> (string \<times> 'd UA_Variant option \<times> ('c, 'g) UA_Client) list \<Rightarrow> (string \<times> 'd) list" where
  "numbers_read F [] = []"
| "numbers_read F ((s, v, c) # rs) =
     (case Option.bind v (variant_to_double F) of None \<Rightarrow> [] | Some x \<Rightarrow> [(s, x)]) @ numbers_read F rs"

definition lost_reading :: "('c, 'g, 'n, 'd) ua_lib \<Rightarrow> (string \<times> 'd UA_Variant option \<times> ('c, 'g) UA_Client) list \<Rightarrow> bool" where
  "lost_reading L rs \<longleftrightarrow> (\<exists>(s, v, c) \<in> set rs. v = None \<and> connection_lost L c)"

text \<open>The elements for the references the library could print.\<close>

fun reference_json :: "(string option \<times> string) list \<Rightarrow> 'd json list" where
  "reference_json [] = []"
| "reference_json ((Some i, name) # rs) = JObject [(''id'', JString i), (''name'', JString name)] # reference_json rs"
| "reference_json ((None, name) # rs) = reference_json rs"

text \<open>
  What a poll of the client reports: of the configured nodes exactly those that answered with a number, each with
  the number last read for it, unless the connection was lost on the way; or the first three references of a
  browse that succeeded.
\<close>

definition polled_json :: "('c, 'g, 'n, 'd) ua_lib \<Rightarrow> 'd fp \<Rightarrow> ('c, 'g, 'n) OpcUaDriver \<Rightarrow> ('c, 'g) UA_Client \<Rightarrow> 'd json \<Rightarrow> bool" where
  "polled_json L F d c j \<longleftrightarrow>
     (if oc_browse_mode d
      then \<exists>refs c'. service_browse L (oc_browse_root d) 3 c = (\<lparr>serviceResult = True, browse_results = [(True, refs)]\<rparr>, c') \<and>
             j = JArray (take 3 (reference_json refs))
      else \<exists>ms. let rs = node_reads L (zip (ua_node_ids (oc_cfg d)) (oc_node_ids d)) c in
             \<not> lost_reading L rs \<and> j = JObject ms \<and> distinct (map fst ms) \<and>
             (\<forall>s. map_of ms s = map_option JFloat (map_of (rev (numbers_read F rs)) s)))"

lemma read_nodes_values:
  assumes "read_nodes L F ns j c = (lost, j', c')" "distinct (map fst j)"
  shows "distinct (map fst j') \<and> (lost \<longleftrightarrow> lost_reading L (node_reads L ns c)) \<and>
    (\<not> lost \<longrightarrow> (\<forall>s. map_of j' s = (case map_of (rev (numbers_read F (node_reads L ns c))) s of None \<Rightarrow> map_of j s | Some x \<Rightarrow> Some (JFloat x))))"
  using assms
proof (induction ns arbitrary: j c)
  case (Cons p ns)
  obtain s n where p: "p = (s, n)" by fastforce
  obtain v c1 where r: "readValue L n c = (v, c1)" by fastforce
  show ?case
  proof (cases "v = None \<and> connection_lost L c1")
    case True
    then show ?thesis using Cons.prems by (auto simp: p r lost_reading_def)
  next
    case False
    let ?j = "case Option.bind v (variant_to_double F) of None \<Rightarrow> j | Some x \<Rightarrow> AList.update s (JFloat x) j"
    have n: "read_nodes L F ns ?j c1 = (lost, j', c')" using Cons.prems(1) False by (auto simp: p r split: option.splits)
    have d: "distinct (map fst ?j)" using Cons.prems(2) distinct_update by (auto split: option.split)
    have l: "lost_reading L (node_reads L (p # ns) c) \<longleftrightarrow> lost_reading L (node_reads L ns c1)"
      using False by (auto simp: lost_reading_def p r)
    show ?thesis
      using Cons.IH [OF n d] unfolding l by (auto simp: p r update_conv' map_add_def split: option.splits)
  qed
qed (simp add: lost_reading_def)

lemma browse_refs_take:
  "length js \<le> 3 \<Longrightarrow> browse_refs rs js = js @ take (3 - length js) (reference_json rs)"
proof (induction rs js rule: browse_refs.induct)
  case (2 printed name rs js)
  then show ?case by (cases printed) (auto simp: kMaxBrowseResults_def take_Cons' Suc_diff_le)
qed simp

lemma read_once_reports:
  assumes "read_once L F dump c d = Ret ((st, fs), d')" "\<not> oc_browse_mode d"
  shows "(st, fs) = (DsError, []) \<and> (\<forall>j. \<not> polled_json L F d c j) \<or> (\<exists>j d2. polled_json L F d c j \<and> push_body dump j d2 = Ret ((st, fs), d'))"
proof -
  let ?ns = "zip (ua_node_ids (oc_cfg d)) (oc_node_ids d)"
  obtain lost ms c' where r: "read_nodes L F ?ns [] c = (lost, ms, c')" by (metis prod_cases3)
  note v = read_nodes_values [OF r]
  show ?thesis
  proof (cases lost)
    case True
    then show ?thesis using assms r v by (auto simp: read_once_def polled_json_def Let_def)
  next
    case False
    then have "polled_json L F d c (JObject ms)"
      using v assms(2) by (auto simp: polled_json_def Let_def map_option_case split: option.splits)
    then show ?thesis using assms(1) r False by (auto simp: read_once_def)
  qed
qed

lemma browse_once_reports:
  assumes "browse_once L dump (oc_browse_root d) c d = Ret ((st, fs), d')" "oc_browse_mode d"
  shows "(st, fs) = (DsError, []) \<and> (\<forall>j. \<not> polled_json L F d c j) \<or> (\<exists>j d2. polled_json L F d c j \<and> push_body dump j d2 = Ret ((st, fs), d'))"
proof -
  obtain resp c' where r: "service_browse L (oc_browse_root d) 3 c = (resp, c')" by fastforce
  show ?thesis
  proof (cases "\<exists>refs. resp = \<lparr>serviceResult = True, browse_results = [(True, refs)]\<rparr>")
    case True
    then obtain refs where refs: "resp = \<lparr>serviceResult = True, browse_results = [(True, refs)]\<rparr>" by blast
    then have "polled_json L F d c (JArray (browse_refs refs []))"
      using r assms(2) by (simp add: polled_json_def browse_refs_take)
    then show ?thesis using assms(1) r refs by (auto simp: browse_once_def kMaxBrowseResults_def)
  next
    case False
    then have n: "\<not> (serviceResult resp \<and> (\<exists>refs. browse_results resp = [(True, refs)]))" by (cases resp) auto
    have "(st, fs) = (DsError, [])"
    proof (rule ccontr)
      assume "(st, fs) \<noteq> (DsError, [])"
      with assms(1) r n show False
        by (auto simp: browse_once_def kMaxBrowseResults_def split: if_splits list.splits prod.splits bool.splits)
    qed
    moreover have "\<not> polled_json L F d c j" for j using False r assms(2) by (auto simp: polled_json_def)
    ultimately show ?thesis by blast
  qed
qed

text \<open>When every read succeeds with a number, every configured node is a member.\<close>

definition always_reads :: "('c, 'g, 'n, 'd) ua_lib \<Rightarrow> bool" where
  "always_reads L \<longleftrightarrow> (\<forall>n c. \<exists>x c'. readValue L n c = (Some (UaDouble x), c'))"

lemma read_nodes_complete:
  assumes "always_reads L" "distinct (map fst j @ map fst ns)"
  shows "\<exists>j' c'. read_nodes L F ns j c = (False, j', c') \<and> map fst j' = map fst j @ map fst ns"
  using assms(2)
proof (induction ns arbitrary: j c)
  case (Cons p ns)
  obtain s n where p: "p = (s, n)" by fastforce
  obtain x c1 where r: "readValue L n c = (Some (UaDouble x), c1)" using assms(1) unfolding always_reads_def by blast
  have u: "map fst (AList.update s (JFloat x) j) = map fst j @ [s]" using Cons.prems p by (simp add: update_keys)
  then have "distinct (map fst (AList.update s (JFloat x) j) @ map fst ns)" using Cons.prems p by auto
  from Cons.IH [OF this, of c1] show ?case by (simp add: p r u)
qed simp

section \<open>The subscribing driver\<close>

text \<open>A frame of a notification: one configured node with one value.\<close>

definition note_frame_ok :: "('d json \<Rightarrow> string option) \<Rightarrow> string list \<Rightarrow> Frame \<Rightarrow> bool" where
  "note_frame_ok dump ids f \<longleftrightarrow> (\<exists>i x body. dump (JObject [(ids ! i, JFloat x)]) = Some body \<and>
     length body \<le> kMaxFramePayload \<and> f = body_frame body)"

lemma callback_frames:
  "data_change_callback F dump ids i v = Some fs \<Longrightarrow> list_all (note_frame_ok dump ids) fs"
  by (fastforce simp: data_change_callback_def note_frame_ok_def not_less split: option.splits if_splits)

lemma note_frames_ok: "note_frames F dump ids ns = Some fs \<Longrightarrow> list_all (note_frame_ok dump ids) fs"
proof (induction ns arbitrary: fs)
  case (Cons p ns)
  obtain i v where p: "p = (i, v)" by fastforce
  obtain f g where f: "data_change_callback F dump ids i v = Some f" "note_frames F dump ids ns = Some g" "fs = f @ g"
    using Cons.prems by (auto simp: p split: option.splits)
  show ?case using callback_frames [OF f(1)] Cons.IH [OF f(2)] by (simp add: f(3))
qed simp

lemma run_iterate_ok:
  "run_iterate F dump ids its n = Some (fs, m) \<Longrightarrow> list_all (note_frame_ok dump ids) fs \<and> m \<le> n"
proof (induction F dump ids its n arbitrary: fs m rule: run_iterate.induct)
  case (3 F dump ids it its n)
  then show ?case by (fastforce split: option.splits if_splits dest: note_frames_ok)
qed auto

lemma wait_slices_le: "wait_slices k n = (go, m) \<Longrightarrow> m \<le> n"
  by (induction k n rule: wait_slices.induct) auto

lemma backoff_wait_le: "backoff_wait k n b = (go, m, b') \<Longrightarrow> m \<le> n"
  by (auto simp: backoff_wait_def split: prod.splits dest: wait_slices_le)

lemma sub_rounds_frames: "list_all (note_frame_ok dump ids) (fst (snd (sub_rounds F dump ids rs n b)))"
proof (induction F dump ids rs n b rule: sub_rounds.induct)
  case (3 F dump ids r rs n b)
  then show ?case
    by (fastforce split: prod.splits option.splits nat.splits dest: run_iterate_ok)
qed simp_all

lemma sub_rounds_client: "fst (sub_rounds F dump ids rs n b) \<noteq> SubNullClient"
proof (induction rs arbitrary: n b)
  case (Cons r rs)
  have tail: "sub_rounds F dump ids rs m c \<noteq> (SubNullClient, gs, e)" for m c gs e
    using Cons.IH [of m c] by (metis fst_conv)
  show ?case by (cases n) (auto simp: tail Cons.IH split: prod.splits option.splits nat.splits)
qed simp

text \<open>Every round asks the stop token at least once.\<close>

lemma sub_rounds_returns:
  "n < length rs \<Longrightarrow> fst (sub_rounds F dump ids rs n b) \<noteq> StillSubscribed"
proof (induction F dump ids rs n b rule: sub_rounds.induct)
  case (3 F dump ids r rs n b)
  show ?case
  proof (cases "\<not> rd_connect r \<or> \<not> rd_create r")
    case True
    obtain go m b' where w: "backoff_wait (rd_slices r) n (if rd_connect r then kInitialBackoffMs else b) = (go, m, b')"
      by (metis prod_cases3)
    then have "m < length rs" using backoff_wait_le [OF w] "3.prems" by simp
    then show ?thesis using "3.IH"(1) [OF True w [symmetric] refl] True w by (cases go) auto
  next
    case False
    show ?thesis
    proof (cases "run_iterate F dump ids (rd_iterations r) n")
      case (Some p)
      obtain fs m where p: "p = (fs, m)" by fastforce
      show ?thesis
      proof (cases m)
        case (Suc m')
        obtain go k b' where w: "backoff_wait (rd_slices r) m' kInitialBackoffMs = (go, k, b')" by (metis prod_cases3)
        have "k < length rs"
          using backoff_wait_le [OF w] run_iterate_ok [of F dump ids "rd_iterations r" n fs m] Some p Suc "3.prems" by simp
        then show ?thesis
          using "3.IH"(2) [OF False Some p [symmetric] Suc w [symmetric] refl] False Some p Suc w by (cases go) (auto split: prod.splits)
      qed (use False Some p in simp)
    qed (use False in simp)
  qed
qed simp_all

text \<open>A driver in reading mode whose connection is up.\<close>

definition ua_reading :: "OpcUaConfig \<Rightarrow> ('c, 'g, 'n) OpcUaDriver \<Rightarrow> bool" where
  "ua_reading cfg d \<longleftrightarrow> oc_cfg d = cfg \<and> oc_opened d \<and> oc_connected d \<and> \<not> oc_browse_mode d \<and>
     length (oc_node_ids d) = length (ua_node_ids cfg)"

lemma parse_node_ids_length: "parse_node_ids L ss = Some ns \<Longrightarrow> length ns = length ss"
  by (induction ss arbitrary: ns) (auto split: option.splits)

lemma open_reading:
  assumes "ua_open L files t t' rate (new_OpcUaDriver L cfg) = (DsOk, d)" "ua_browse_root cfg = []"
  shows "ua_reading cfg d"
  using assms parse_node_ids_length
  by (auto simp: ua_open_def Let_def new_OpcUaDriver_def ua_dial_def try_connect_def ua_reading_def
      split: if_splits option.splits prod.splits)

lemma poll_reading:
  assumes "always_reads L" "distinct (ua_node_ids cfg)" "ua_reading cfg d" "ua_poll_once L F dump t t' d = Ret (r, d')"
  obtains j d2 where "push_body dump (JObject j) d2 = Ret (r, d')" "map fst j = ua_node_ids cfg" "ua_reading cfg d'"
proof -
  let ?ns = "zip (ua_node_ids cfg) (oc_node_ids d)"
  have k: "map fst ?ns = ua_node_ids cfg" using assms(3) by (simp add: ua_reading_def)
  obtain c where c: "read_once L F dump c d = Ret (r, d')"
    using assms(3,4) by (auto simp: ua_reading_def ua_poll_once_def with_connection_def split: if_splits option.splits)
  have "\<exists>j c'. read_nodes L F ?ns [] c = (False, j, c') \<and> map fst j = map fst ?ns"
    using read_nodes_complete [OF assms(1), of "[]" ?ns F c] assms(2) by (simp add: k)
  then obtain j c' where j: "read_nodes L F ?ns [] c = (False, j, c')" "map fst j = ua_node_ids cfg" using k by auto
  then have p: "push_body dump (JObject j) (d\<lparr>oc_client := Some c'\<rparr>) = Ret (r, d')"
    using c assms(3) by (simp add: read_once_def ua_reading_def)
  then have "d' = d\<lparr>oc_client := Some c'\<rparr>" by (auto simp: push_body_def split: option.splits)
  then show thesis using that p j(2) assms(3) by (simp add: ua_reading_def)
qed

lemma polls_reading:
  assumes "always_reads L" "distinct (ua_node_ids cfg)"
  shows "ua_reading cfg d \<Longrightarrow> foldl (ua_step L F dump) (Ret d) (map (\<lambda>(t, t'). Poll t t') ts) = Ret d1 \<Longrightarrow> ua_reading cfg d1"
proof (induction ts arbitrary: d)
  case (Cons p ts)
  obtain t t' where p: "p = (t, t')" by fastforce
  have stuck: "foldl (ua_step L F dump) NullClient es = NullClient" "foldl (ua_step L F dump) Terminated es = Terminated" for es
    by (induction es) (simp_all add: ua_step_def)
  have s: "ua_step L F dump (Ret d) (Poll t t') = ua_bind (ua_poll_once L F dump t t' d) (\<lambda>(_, d). Ret d)"
    by (simp add: ua_step_def)
  show ?case
  proof (cases "ua_poll_once L F dump t t' d")
    case (Ret rd)
    obtain r d2 where rd: "rd = (r, d2)" by fastforce
    have "ua_reading cfg d2" using poll_reading [OF assms Cons.prems(1) Ret [unfolded rd]] by metis
    then show ?thesis using Cons.IH [of d2] Cons.prems(2) Ret rd by (simp add: p s)
  qed (use Cons.prems(2) stuck in \<open>simp_all add: p s\<close>)
qed simp

section \<open>A library to run the drivers with\<close>

definition demo_config :: "unit UA_ClientConfig" where
  "demo_config = \<lparr>securityMode = ModeNone, securityPolicyUri = [], cc_applicationUri = [], cc_timeout = 5000,
     connectivityCheckInterval = 0, cc_lib = ()\<rparr>"

definition demo_lib :: "(bool, unit, string, int) ua_lib" where
  "demo_lib = \<lparr>client_new = Some \<lparr>uc_config = demo_config, uc_state = False\<rparr>,
     setDefault = (\<lambda>cc. (True, cc)), setDefaultEncryption = (\<lambda>cert key trust cc. (True, cc)),
     setAuthenticationCert = (\<lambda>cert key cc. (True, cc)),
     client_connect = (\<lambda>ep c. (True, c\<lparr>uc_state := True\<rparr>)), client_disconnect = (\<lambda>c. c\<lparr>uc_state := False\<rparr>),
     channel_open = uc_state, session_activated = uc_state, nodeId_null = [], nodeId_parse = Some,
     readValue = (\<lambda>n c. (Some (UaDouble 7), c)), scalarCopy = (\<lambda>x. Some (UaDouble x)), writeValue = (\<lambda>n x c. (True, c)),
     client_call = (\<lambda>obj meth x c. (True, c)),
     service_browse = (\<lambda>n k c. (\<lparr>serviceResult = True, browse_results = [(True, [])]\<rparr>, c))\<rparr>"

definition demo_dump :: "int json \<Rightarrow> string option" where
  "demo_dump j = Some (''{'' @ concat (map (\<lambda>(k, v). CHR 0x22 # k @ [CHR 0x22, CHR '':'', CHR ''0'']) (members j)) @ ''}'')"

definition demo_ua_config :: "string list \<Rightarrow> OpcUaSecurityConfig \<Rightarrow> OpcUaConfig" where
  "demo_ua_config ids sec = \<lparr>ua_endpoint = ''opc.tcp://plc:4840'', ua_node_ids = ids, ua_browse_root = [], ua_security = sec\<rparr>"

definition demo_driver :: "string list \<Rightarrow> (bool, unit, string) OpcUaDriver" where
  "demo_driver ids = snd (ua_open demo_lib (\<lambda>_. None) 0 0 0 (new_OpcUaDriver demo_lib (demo_ua_config ids new_OpcUaSecurityConfig)))"

lemmas demo_defs = demo_lib_def demo_config_def demo_ua_config_def new_OpcUaDriver_def new_OpcUaSecurityConfig_def
  ua_open_def ua_dial_def try_connect_def apply_security_config_def apply_user_identity_token_def load_der_file_def
  parse_node_id_def fits_payload_budget_def kBytesPerEntryEstimate_def kMaxFramePayload_def new_reconnect_def

lemma demo_open:
  "ua_open demo_lib (\<lambda>_. None) 0 0 0 (new_OpcUaDriver demo_lib (demo_ua_config [''ns=1;s=T''] new_OpcUaSecurityConfig)) =
   (DsOk, demo_driver [''ns=1;s=T''])"
  by (simp add: demo_driver_def demo_defs Let_def)

section \<open>Properties\<close>

text \<open>
  C35: Once \<open>open\<close> of the OPC UA driver has succeeded, no sequence of polls, writes and closes, at any times and
  with any answers of the library, hands the library a null client.
\<close>

theorem opcua_client_never_null:
  assumes "ua_open L files t t' rate d = (DsOk, d')"
  shows "foldl (ua_step L F dump) (Ret d') ops \<noteq> NullClient"
proof
  assume n: "foldl (ua_step L F dump) (Ret d') ops = NullClient"
  have "ua_inv (Ret d')" using open_wf [OF assms] by simp
  from ua.inv_foldl [OF this, of L F dump ops] show False by (simp add: n)
qed

theorem opcua_client_never_null_witness:
  "\<forall>F. foldl (ua_step demo_lib F demo_dump) (Ret (demo_driver [''ns=1;s=T''])) [Poll 0 0, Close, Poll 1 1] \<noteq> NullClient"
  using opcua_client_never_null [OF demo_open] by blast

text \<open>
  When the configured certificate cannot be loaded, \<open>open\<close> fails but leaves the driver armed without a
  client: the next poll or write that is due calls the library with a null client.
\<close>

theorem opcua_failed_open_null_client:
  assumes "certificate_file (ua_security cfg) \<noteq> []" "load_der_file files (certificate_file (ua_security cfg)) = None"
    and "ua_browse_root cfg = []" "fits_payload_budget (ua_node_ids cfg)" "parse_node_ids L (ua_node_ids cfg) = Some ns"
    and "client_new L = Some c" "0 \<le> t1"
  shows "\<exists>d. ua_open L files t t' rate (new_OpcUaDriver L cfg) = (DsError, d) \<and> ua_poll_once L F dump t1 t2 d = NullClient"
  using assms
  by (auto simp: ua_open_def ua_dial_def apply_security_config_def new_OpcUaDriver_def Let_def ua_poll_once_def with_connection_def
      ua_ensure_connected_def attempt_due_def new_reconnect_def)

theorem opcua_failed_open_null_client_witness:
  "\<forall>F. \<exists>d. ua_open demo_lib (\<lambda>_. None) 0 0 0 (new_OpcUaDriver demo_lib
      (demo_ua_config [''ns=1;s=T''] (new_OpcUaSecurityConfig\<lparr>certificate_file := ''client.der''\<rparr>))) = (DsError, d) \<and>
    ua_poll_once demo_lib F demo_dump 0 0 d = NullClient"
proof
  fix F
  show "\<exists>d. ua_open demo_lib (\<lambda>_. None) 0 0 0 (new_OpcUaDriver demo_lib
      (demo_ua_config [''ns=1;s=T''] (new_OpcUaSecurityConfig\<lparr>certificate_file := ''client.der''\<rparr>))) = (DsError, d) \<and>
    ua_poll_once demo_lib F demo_dump 0 0 d = NullClient"
    by (rule opcua_failed_open_null_client) (simp_all add: demo_defs c_str_def)
qed

text \<open>
  C37: A poll that succeeds pushes exactly one frame, the whole printed value and never a cut one, and the value is what
  the device answered: an object with exactly the configured nodes whose read gave a number, each with the
  number last read, or an array of the first three references of the browse, each with its id and name. A poll
  fails, and pushes nothing, only when there is no connection to poll on, the connection is lost at a read, the
  browse fails, or the printed value is longer than a frame's payload.
\<close>

theorem opcua_poll_one_whole_frame:
  assumes "ua_poll_once L F dump t t' d = Ret ((st, fs), d')"
  shows "(st = DsOk \<and> (\<exists>c j body. polled_client L t d = Some c \<and> polled_json L F d c j \<and> dump j = Some body \<and>
      length body \<le> kMaxFramePayload \<and>
      fs = [\<lparr>raw = 0, payload_len = of_nat (length body), fr_payload = bytes_of_string body\<rparr>])) \<or>
    (st = DsError \<and> fs = [] \<and> (case polled_client L t d of None \<Rightarrow> True | Some c \<Rightarrow>
      (\<nexists>j. polled_json L F d c j) \<or> (\<exists>j body. polled_json L F d c j \<and> dump j = Some body \<and> kMaxFramePayload < length body)))"
proof (cases "oc_opened d")
  case True
  have w: "with_connection L t t' (DsError, []) (\<lambda>c d.
      if oc_browse_mode d then browse_once L dump (oc_browse_root d) c d else read_once L F dump c d) d = Ret ((st, fs), d')"
    using assms True by (simp add: ua_poll_once_def)
  show ?thesis
  proof (rule with_connection_Ret [OF True w])
    fix c d1 assume c: "polled_client L t d = Some c" and
      f: "(if oc_browse_mode d1 then browse_once L dump (oc_browse_root d1) c d1 else read_once L F dump c d1) = Ret ((st, fs), d')" and
      d1: "oc_cfg d1 = oc_cfg d" "oc_browse_mode d1 = oc_browse_mode d" "oc_browse_root d1 = oc_browse_root d" "oc_node_ids d1 = oc_node_ids d"
    have "polled_json L F d1 c = polled_json L F d c" using d1 by (intro ext) (simp add: polled_json_def)
    then have "(st, fs) = (DsError, []) \<and> (\<forall>j. \<not> polled_json L F d c j) \<or> (\<exists>j d2. polled_json L F d c j \<and> push_body dump j d2 = Ret ((st, fs), d'))"
      using f read_once_reports [of L F dump c d1] browse_once_reports [of L dump d1 c st fs d' F] by (auto split: if_splits)
    then show ?thesis using c by (auto simp: body_frame_def not_le dest!: push_body_frames split: if_splits)
  qed simp
qed (use assms in \<open>simp add: ua_poll_once_def polled_client_def\<close>)

text \<open>
  The budget test of \<open>open\<close> counts the nodes and not the length of their names: a configuration it accepts
  with names that take more than 126 characters, quotes, colon and value included, is never polled
  successfully, on a healthy device that answers every read with a number.
\<close>

theorem opcua_long_names_never_polled:
  assumes "\<And>ms body. dump (JObject ms) = Some body \<Longrightarrow> 2 + (\<Sum>m\<leftarrow>ms. length (fst m) + 4) \<le> length body"
    and "always_reads L" "ua_open L files t0 t0' rate (new_OpcUaDriver L cfg) = (DsOk, d)" "ua_browse_root cfg = []"
    and "distinct (ua_node_ids cfg)" "126 < (\<Sum>s\<leftarrow>ua_node_ids cfg. length s + 4)"
    and "foldl (ua_step L F dump) (Ret d) (map (\<lambda>(t, t'). Poll t t') ts) = Ret d1"
  shows "ua_poll_once L F dump t t' d1 \<noteq> Ret ((DsOk, fs), d')"
proof
  assume p: "ua_poll_once L F dump t t' d1 = Ret ((DsOk, fs), d')"
  have "ua_reading cfg d1" using polls_reading [OF assms(2,5) open_reading [OF assms(3,4)] assms(7)] .
  from poll_reading [OF assms(2,5) this p] obtain j d2 where
    j: "push_body dump (JObject j) d2 = Ret ((DsOk, fs), d')" "map fst j = ua_node_ids cfg" .
  then obtain body where b: "dump (JObject j) = Some body" "length body \<le> kMaxFramePayload"
    by (auto dest!: push_body_frames split: if_splits)
  have "(\<Sum>m\<leftarrow>j. length (fst m) + 4) = (\<Sum>s\<leftarrow>map fst j. length s + 4)" by (simp add: o_def)
  then show False using assms(1) [OF b(1)] assms(6) b(2) j(2) by (simp add: kMaxFramePayload_def)
qed

definition long_name :: string where
  "long_name = ''ns=2;s='' @ replicate 120 (CHR ''x'')"

lemma demo_dump_length:
  assumes "demo_dump (JObject ms) = Some body"
  shows "2 + (\<Sum>m\<leftarrow>ms. length (fst m) + 4) \<le> length body"
proof -
  have "length (concat (map (\<lambda>(k, v). CHR 0x22 # k @ [CHR 0x22, CHR '':'', CHR ''0'']) ms)) = (\<Sum>m\<leftarrow>ms. length (fst m) + 4)"
    by (induction ms) auto
  then show ?thesis using assms by (auto simp: demo_dump_def)
qed

theorem opcua_long_names_never_polled_witness:
  "\<forall>F fs d'. ua_poll_once demo_lib F demo_dump 0 0 (demo_driver [long_name]) \<noteq> Ret ((DsOk, fs), d')"
proof (intro allI)
  fix F fs d'
  have "ua_open demo_lib (\<lambda>_. None) 0 0 0 (new_OpcUaDriver demo_lib (demo_ua_config [long_name] new_OpcUaSecurityConfig)) =
      (DsOk, demo_driver [long_name])"
    by (simp add: demo_driver_def demo_defs Let_def)
  moreover have "always_reads demo_lib" by (simp add: always_reads_def demo_lib_def)
  ultimately show "ua_poll_once demo_lib F demo_dump 0 0 (demo_driver [long_name]) \<noteq> Ret ((DsOk, fs), d')"
    using opcua_long_names_never_polled [OF demo_dump_length, where L = demo_lib and files = "\<lambda>_. None" and ts = "[]"
        and cfg = "demo_ua_config [long_name] new_OpcUaSecurityConfig"]
    by (simp add: demo_ua_config_def long_name_def)
qed

theorem opcua_poll_one_whole_frame_witness:
  "\<forall>F. \<exists>fs d' body ms. ua_poll_once demo_lib F demo_dump 0 0 (demo_driver [''ns=1;s=T'']) = Ret ((DsOk, fs), d') \<and>
    map_of ms ''ns=1;s=T'' = Some (JFloat 7) \<and> distinct (map fst ms) \<and> demo_dump (JObject ms) = Some body \<and>
    fs = [\<lparr>raw = 0, payload_len = of_nat (length body), fr_payload = bytes_of_string body\<rparr>]"
proof
  fix F
  obtain fs d' where p: "ua_poll_once demo_lib F demo_dump 0 0 (demo_driver [''ns=1;s=T'']) = Ret ((DsOk, fs), d')"
    by (simp add: demo_driver_def demo_defs Let_def ua_poll_once_def with_connection_def read_once_def push_body_def demo_dump_def)
  have m: "\<not> oc_browse_mode (demo_driver [''ns=1;s=T''])"
      "zip (ua_node_ids (oc_cfg (demo_driver [''ns=1;s=T'']))) (oc_node_ids (demo_driver [''ns=1;s=T''])) = [(''ns=1;s=T'', c_str ''ns=1;s=T'')]"
    by (simp_all add: demo_driver_def demo_defs Let_def)
  have r: "readValue demo_lib n c = (Some (UaDouble 7), c)" for n c by (simp add: demo_lib_def)
  from opcua_poll_one_whole_frame [OF p] obtain c ms body where ms:
    "\<forall>s. map_of ms s = map_option JFloat (map_of (rev (numbers_read F (node_reads demo_lib [(''ns=1;s=T'', c_str ''ns=1;s=T'')] c))) s)"
    "distinct (map fst ms)" "demo_dump (JObject ms) = Some body"
    "fs = [\<lparr>raw = 0, payload_len = of_nat (length body), fr_payload = bytes_of_string body\<rparr>]"
    unfolding polled_json_def m by (auto simp: Let_def m(1))
  have "map_of ms ''ns=1;s=T'' = Some (JFloat 7)" using ms(1) by (simp add: r)
  with p ms(2-) show "\<exists>fs d' body ms. ua_poll_once demo_lib F demo_dump 0 0 (demo_driver [''ns=1;s=T'']) = Ret ((DsOk, fs), d') \<and>
    map_of ms ''ns=1;s=T'' = Some (JFloat 7) \<and> distinct (map fst ms) \<and> demo_dump (JObject ms) = Some body \<and>
    fs = [\<lparr>raw = 0, payload_len = of_nat (length body), fr_payload = bytes_of_string body\<rparr>]"
    by blast
qed

text \<open>
  A client certificate that is configured is never dropped: when the set-up succeeds, the certificate, its
  key and the trusted peer, if one is named, were loaded and the connection is signed, or signed and
  encrypted, as configured, with the configured policy or Basic256Sha256.
\<close>

theorem opcua_certificate_never_dropped:
  assumes "auth_keeps_mode L" "certificate_file sec \<noteq> []" "apply_security_config L files sec cc = (True, cc')"
  shows "securityMode cc' = (if sign_and_encrypt sec then ModeSignAndEncrypt else ModeSign) \<and>
    securityPolicyUri cc' = c_str (if security_policy_uri sec = [] then kDefaultSecurityPolicy else security_policy_uri sec) \<and>
    (\<exists>cert key. files (certificate_file sec) = Some cert \<and> cert \<noteq> [] \<and> files (private_key_file sec) = Some key \<and> key \<noteq> []) \<and>
    (trusted_server_certificate_file sec = [] \<or> (\<exists>tr. files (trusted_server_certificate_file sec) = Some tr \<and> tr \<noteq> []))"
  proof -
  obtain cert key tr cc1 where l: "load_der_file files (certificate_file sec) = Some cert" "load_der_file files (private_key_file sec) = Some key"
      "load_trust files sec = Some tr" "setDefaultEncryption L cert key tr cc = (True, cc1)"
    using assms(2,3) by (auto simp: apply_security_config_def Let_def split: option.splits prod.splits if_splits)
  let ?cc = "cc1\<lparr>securityMode := (if sign_and_encrypt sec then ModeSignAndEncrypt else ModeSign),
    securityPolicyUri := c_str (if security_policy_uri sec = [] then kDefaultSecurityPolicy else security_policy_uri sec)\<rparr>"
  have a: "apply_user_identity_token L files sec
      (if application_uri sec = [] then ?cc else ?cc\<lparr>cc_applicationUri := c_str (application_uri sec)\<rparr>) = (True, cc')"
    using assms(2,3) l by (simp add: apply_security_config_def Let_def)
  have "securityMode cc' = (if sign_and_encrypt sec then ModeSignAndEncrypt else ModeSign)"
    using user_token_mode(1) [OF assms(1), of files sec
      "if application_uri sec = [] then ?cc else ?cc\<lparr>cc_applicationUri := c_str (application_uri sec)\<rparr>"]
    unfolding a by (simp split: if_splits)
  moreover have "securityPolicyUri cc' = c_str (if security_policy_uri sec = [] then kDefaultSecurityPolicy else security_policy_uri sec)"
    using user_token_mode(2) [OF assms(1), of files sec
      "if application_uri sec = [] then ?cc else ?cc\<lparr>cc_applicationUri := c_str (application_uri sec)\<rparr>"]
    unfolding a by (simp split: if_splits)
  ultimately show ?thesis
    using l by (auto simp: load_der_file_Some load_trust_def split: if_splits)
qed

theorem opcua_certificate_never_dropped_witness:
  "securityMode (snd (apply_security_config demo_lib (\<lambda>_. Some [0x30])
     (new_OpcUaSecurityConfig\<lparr>certificate_file := ''c'', private_key_file := ''k''\<rparr>) demo_config)) = ModeSignAndEncrypt"
proof -
  let ?sec = "new_OpcUaSecurityConfig\<lparr>certificate_file := ''c'', private_key_file := ''k''\<rparr>"
  obtain cc' where c: "apply_security_config demo_lib (\<lambda>_. Some [0x30]) ?sec demo_config = (True, cc')"
    by (simp add: demo_defs load_trust_def Let_def)
  have "auth_keeps_mode demo_lib" by (simp add: auth_keeps_mode_def demo_lib_def)
  from opcua_certificate_never_dropped [OF this _ c] have "securityMode cc' = ModeSignAndEncrypt"
    by (simp add: new_OpcUaSecurityConfig_def)
  then show ?thesis unfolding c by simp
qed

text \<open>
  A subscription that is told to stop returns: whatever the connection does, within as many rounds as the stop
  token still answers no, \<open>run\<close> returns or a callback throws, and every frame it pushed is one configured node
  with one value, printed whole. The library is handed a null client only by a driver that was left open by a
  failed second \<open>open\<close>, which clears the client but not \<open>opened_\<close>.
\<close>

theorem opcua_subscription_stops:
  assumes "n < length rs"
  shows "fst (sub_run F dump rs n d) \<noteq> StillSubscribed \<and>
    (fst (sub_run F dump rs n d) = SubNullClient \<longleftrightarrow> os_opened d \<and> os_client d = None \<and> n \<noteq> 0) \<and>
    list_all (note_frame_ok dump (ua_node_ids (os_cfg d))) (fst (snd (sub_run F dump rs n d)))"
  using sub_rounds_returns [OF assms, of F dump "ua_node_ids (os_cfg d)" kInitialBackoffMs]
    sub_rounds_frames [of dump "ua_node_ids (os_cfg d)" F rs n kInitialBackoffMs]
    sub_rounds_client [of F dump "ua_node_ids (os_cfg d)" rs n kInitialBackoffMs]
  by (auto simp: sub_run_def Option.is_none_def split: prod.splits)

text \<open>A device that notifies twice, once with a value that is no number, and a stop after one more question.\<close>

definition demo_round :: "int ua_round" where
  "demo_round = \<lparr>rd_connect = True, rd_create = True,
     rd_iterations = [\<lparr>it_notes = [(0, Some (UaDouble 7)), (0, Some UaOther)], it_good = True, it_lost = False\<rparr>], rd_slices = 1\<rparr>"

definition demo_subscription :: "(bool, unit, string) OpcUaSubscriptionDriver" where
  "demo_subscription = \<lparr>os_cfg = demo_ua_config [''T''] new_OpcUaSecurityConfig, os_rate_hz = 0, os_opened = True,
     os_client = client_new demo_lib, os_node_ids = [''T''], os_backoff_ms = 200\<rparr>"

theorem opcua_subscription_stops_witness:
  "fst (sub_run int_fp demo_dump [demo_round, demo_round] 1 demo_subscription) \<noteq> StillSubscribed \<and>
   fst (sub_run int_fp demo_dump [demo_round, demo_round] 1 demo_subscription) \<noteq> SubNullClient \<and>
   list_all (note_frame_ok demo_dump [''T'']) (fst (snd (sub_run int_fp demo_dump [demo_round, demo_round] 1 demo_subscription)))"
  using opcua_subscription_stops [of 1 "[demo_round, demo_round]" int_fp demo_dump demo_subscription]
  by (simp add: demo_subscription_def demo_ua_config_def demo_lib_def)

text \<open>The configuration of a deployment never names an application URI or a user certificate.\<close>

lemma deployed_security_fields:
  assumes "parse_opcua_security c = Some sec"
  shows "application_uri sec = [] \<and> user_certificate_file sec = [] \<and> user_private_key_file sec = []"
  using assms by (auto simp: parse_opcua_security_def new_OpcUaSecurityConfig_def Let_def split: if_splits option.splits)

end
