(* ===== verification/Grpc_Link.thy ===== *)
theory Grpc_Link
  imports Tcp_Transport Bridge_Codec
begin

text \<open>
  The gRPC transports (\<open>transport/grpc_client_transport.hpp\<close>, \<open>transport/grpc_transport.hpp\<close>): an HTTP/2
  client of its own that carries frames as the messages of one bidirectional stream. The bytes the socket
  has accepted are \<open>gc_wire\<close>; name resolution, connecting, sends and receives answer as in \<open>Tcp_Transport\<close>
  and \<open>Mqtt_Channel\<close>. Every write of the reader thread takes a list of send outcomes of its own.
\<close>

section \<open>HTTP/2 frames\<close>

definition kData :: u8 where "kData = 0x0"

definition kHeaders :: u8 where "kHeaders = 0x1"

definition kRstStream :: u8 where "kRstStream = 0x3"

definition kSettings :: u8 where "kSettings = 0x4"

definition kPing :: u8 where "kPing = 0x6"

definition kGoAway :: u8 where "kGoAway = 0x7"

definition kWindowUpdate :: u8 where "kWindowUpdate = 0x8"

definition kEndStream :: u8 where "kEndStream = 0x1"

definition kEndHeaders :: u8 where "kEndHeaders = 0x4"

definition kPadded :: u8 where "kPadded = 0x8"

definition kAck :: u8 where "kAck = 0x1"

definition kStreamId :: u32 where "kStreamId = 1"

lemmas h2_constants = kData_def kHeaders_def kRstStream_def kSettings_def kPing_def kGoAway_def kWindowUpdate_def
  kEndStream_def kEndHeaders_def kPadded_def kAck_def kStreamId_def

text \<open>The nine bytes of header and the payload.\<close>

definition h2_frame :: "u8 \<Rightarrow> u8 \<Rightarrow> u32 \<Rightarrow> byte list \<Rightarrow> byte list" where
  "h2_frame ty flags stream pl =
     (let len = of_nat (length pl) :: u32 in
      [byte_at 2 len, byte_at 1 len, byte_at 0 len, ty, flags,
       byte_at 3 stream AND 0x7F, byte_at 2 stream, byte_at 1 stream, byte_at 0 stream] @ pl)"

section \<open>The transport\<close>

record GrpcClientTransport =
  gc_target :: string
  gc_authority :: string
  gc_fd :: bool
  gc_running :: bool
  gc_reader :: bool
  gc_cb :: bool
  gc_recv_buf :: "byte list"
  gc_frames_sent :: u64
  gc_frames_recv :: u64
  gc_send_errors :: u64
  gc_wire :: "byte list"

definition new_GrpcClientTransport :: "string \<Rightarrow> GrpcClientTransport" where
  "new_GrpcClientTransport target = \<lparr>gc_target = target, gc_authority = [], gc_fd = False, gc_running = False,
     gc_reader = False, gc_cb = False, gc_recv_buf = [], gc_frames_sent = 0, gc_frames_recv = 0, gc_send_errors = 0, gc_wire = []\<rparr>"

definition gc_on_receive :: "GrpcClientTransport \<Rightarrow> GrpcClientTransport" where
  "gc_on_receive t = t\<lparr>gc_cb := True\<rparr>"

definition gc_write_raw :: "send_script \<Rightarrow> byte list \<Rightarrow> GrpcClientTransport \<Rightarrow> bool \<times> GrpcClientTransport" where
  "gc_write_raw sc bs t = (if \<not> gc_fd t then (False, t)
     else case write_loop sc bs (gc_wire t) of (good, _, w) \<Rightarrow> (good, t\<lparr>gc_wire := w\<rparr>))"

definition gc_write_frame :: "send_script \<Rightarrow> u8 \<Rightarrow> u8 \<Rightarrow> u32 \<Rightarrow> byte list \<Rightarrow> GrpcClientTransport \<Rightarrow> bool \<times> GrpcClientTransport" where
  "gc_write_frame sc ty flags stream pl t = gc_write_raw sc (h2_frame ty flags stream pl) t"

section \<open>Headers\<close>

definition put_hpack_str :: "byte list \<Rightarrow> string \<Rightarrow> byte list" where
  "put_hpack_str out s = out @ [ucast (of_nat (length s) AND (0x7F :: u64))] @ bytes_of_string s"

definition put_hpack_kv :: "byte list \<Rightarrow> string \<Rightarrow> string \<Rightarrow> byte list" where
  "put_hpack_kv out name v = put_hpack_str (put_hpack_str (out @ [0x00]) name) v"

definition grpc_headers :: "string \<Rightarrow> (string \<times> string) list" where
  "grpc_headers authority = [('':method'', ''POST''), ('':scheme'', ''http''), ('':path'', ''/aero.Transport/Exchange''),
     ('':authority'', authority), (''content-type'', ''application/grpc''), (''te'', ''trailers'')]"

definition header_block :: "string \<Rightarrow> byte list" where
  "header_block authority = foldl (\<lambda>out (k, v). put_hpack_kv out k v) [] (grpc_headers authority)"

section \<open>Starting and stopping\<close>

datatype GrpcError = MalformedTarget string | GrpcCannotDial string | PrefaceWrite | SettingsWrite | HeadersWrite

definition strip_target :: "string \<Rightarrow> string" where
  "strip_target s = (if take 7 s = ''dns:///'' then drop 7 s else if take 5 s = ''ipv4:'' then drop 5 s
     else if take 4 s = ''dns:'' then drop 4 s else s)"

text \<open>\<open>None\<close>: \<open>std::stoul\<close> throws. \<open>Some None\<close>: answered false.\<close>

definition parse_target :: "string \<Rightarrow> (string \<times> u16) option option" where
  "parse_target target = (let s = strip_target target in
     case rfind_char (CHR '':'') s of
       None \<Rightarrow> Some None
     | Some colon \<Rightarrow>
         let host = take colon s; ps = drop (Suc colon) s in
         if host = [] \<or> ps = [] then Some None
         else (case stoul ps of
             None \<Rightarrow> None
           | Some p \<Rightarrow> let port = (ucast p :: u16) in if port = 0 then Some None else Some (Some (host, port))))"

definition kPreface :: "byte list" where
  "kPreface = bytes_of_string ''PRI * HTTP/2.0'' @ [13, 10, 13, 10] @ bytes_of_string ''SM'' @ [13, 10, 13, 10]"

definition gc_gate_err :: "GrpcError \<Rightarrow> GrpcClientTransport \<Rightarrow> (GrpcError option \<times> GrpcClientTransport) option" where
  "gc_gate_err e t = Some (Some e, t\<lparr>gc_running := False, gc_fd := False\<rparr>)"

text \<open>The outer \<open>None\<close> is the exception; \<open>cs\<close> how the candidate addresses answer, \<open>sp\<close>, \<open>ss\<close>, \<open>sh\<close> the three writes.\<close>

definition gc_start ::
  "candidate list option \<Rightarrow> send_script \<Rightarrow> send_script \<Rightarrow> send_script \<Rightarrow> GrpcClientTransport \<Rightarrow>
   (GrpcError option \<times> GrpcClientTransport) option" where
  "gc_start cs sp ss sh t = (case parse_target (gc_target t) of
       None \<Rightarrow> None
     | Some None \<Rightarrow> gc_gate_err (MalformedTarget (gc_target t)) t
     | Some (Some (host, port)) \<Rightarrow>
         let t = t\<lparr>gc_authority := host @ '':'' @ to_string (unat port), gc_fd := dial cs\<rparr> in
         if \<not> gc_fd t then gc_gate_err (GrpcCannotDial (gc_authority t)) t
         else (case gc_write_raw sp kPreface (t\<lparr>gc_running := True\<rparr>) of (good, t) \<Rightarrow>
           if \<not> good then gc_gate_err PrefaceWrite t
           else (case gc_write_frame ss kSettings 0 0 [] t of (good, t) \<Rightarrow>
             if \<not> good then gc_gate_err SettingsWrite t
             else (case gc_write_frame sh kHeaders kEndHeaders kStreamId (header_block (gc_authority t)) t of (good, t) \<Rightarrow>
               if \<not> good then gc_gate_err HeadersWrite t
               else Some (None, t\<lparr>gc_reader := True\<rparr>)))))"

definition gc_stop :: "send_script \<Rightarrow> GrpcClientTransport \<Rightarrow> GrpcClientTransport" where
  "gc_stop sc t = (if \<not> gc_running t then t
     else let t = t\<lparr>gc_running := False\<rparr>;
              t = (if gc_fd t then snd (gc_write_frame sc kData kEndStream kStreamId [] t) else t)
          in t\<lparr>gc_reader := False, gc_fd := False\<rparr>)"

text \<open>The destructor: \<open>stop\<close>, then the members. The destructor of a thread object that can still be joined
  ends the process: \<open>None\<close>.\<close>

definition gc_destroy :: "send_script \<Rightarrow> GrpcClientTransport \<Rightarrow> GrpcClientTransport option" where
  "gc_destroy sc t = (let t = gc_stop sc t in if gc_reader t then None else Some t)"

section \<open>Sending\<close>

definition grpc_message :: "MessageFrame \<Rightarrow> byte list" where
  "grpc_message f = (let body = encode_frame f in [0x00] @ be_bytes 4 (of_nat (length body) :: u32) @ body)"

definition gc_send :: "send_script \<Rightarrow> MessageFrame \<Rightarrow> GrpcClientTransport \<Rightarrow> bool \<times> GrpcClientTransport" where
  "gc_send sc f t = (case gc_write_frame sc kData 0 kStreamId (grpc_message f) t of (good, t) \<Rightarrow>
     (good, if good then t\<lparr>gc_frames_sent := gc_frames_sent t + 1\<rparr> else t\<lparr>gc_send_errors := gc_send_errors t + 1\<rparr>))"

section \<open>Receiving\<close>

text \<open>A frame off the socket: type, flags and payload.\<close>

definition got_h2 :: "rx list \<Rightarrow> ((u8 \<times> u8 \<times> byte list) \<times> rx list) option" where
  "got_h2 rxs = (case read_exact rxs 9 of
       (None, _) \<Rightarrow> None
     | (Some hdr, rxs) \<Rightarrow>
         let len = unat (be_value (take 3 hdr) :: u32) in
         (case read_exact rxs len of
            (None, _) \<Rightarrow> None
          | (Some pl, rxs) \<Rightarrow> Some ((hdr ! 3, hdr ! 4, pl), rxs)))"

text \<open>The payload without its padding; \<open>None\<close> when the padding is malformed.\<close>

definition data_content :: "u8 \<Rightarrow> byte list \<Rightarrow> byte list option" where
  "data_content flags pl =
     (if flags AND kPadded = 0 then Some pl
      else if pl = [] then None
      else let pad = unat (hd pl) in
        if length pl - 1 < pad then None else Some (take (length pl - 1 - pad) (tl pl)))"

function extract_messages :: "byte list \<Rightarrow> MessageFrame list \<times> byte list" where
  "extract_messages buf =
     (if length buf < 5 then ([], buf)
      else let mlen = unat (be_value (take 4 (drop 1 buf)) :: u32) in
        if length buf - 5 < mlen then ([], buf)
        else case extract_messages (drop (5 + mlen) buf) of (fs, r) \<Rightarrow>
          ((case decode_frame (take mlen (drop 5 buf)) of Some f \<Rightarrow> [f] | None \<Rightarrow> []) @ fs, r))"
  by pat_completeness auto
termination
  by (relation "measure length") auto

declare extract_messages.simps [simp del]

definition next_script :: "send_script list \<Rightarrow> send_script \<times> send_script list" where
  "next_script scs = (case scs of [] \<Rightarrow> ([], []) | sc # scs \<Rightarrow> (sc, scs))"

definition gc_reply :: "u8 \<Rightarrow> u8 \<Rightarrow> u32 \<Rightarrow> byte list \<Rightarrow> send_script list \<times> GrpcClientTransport \<Rightarrow> send_script list \<times> GrpcClientTransport" where
  "gc_reply ty flags stream pl = (\<lambda>(scs, t). case next_script scs of (sc, scs) \<Rightarrow> (scs, snd (gc_write_frame sc ty flags stream pl t)))"

definition gc_handle_data ::
  "u8 \<Rightarrow> byte list \<Rightarrow> send_script list \<times> GrpcClientTransport \<Rightarrow> MessageFrame list \<times> send_script list \<times> GrpcClientTransport" where
  "gc_handle_data flags pl st = (case data_content flags pl of
       None \<Rightarrow> ([], st)
     | Some d \<Rightarrow>
         let st = map_prod id (\<lambda>t. t\<lparr>gc_recv_buf := gc_recv_buf t @ d\<rparr>) st;
             incr = be_bytes 4 (of_nat (length d) :: u32);
             (scs, t) = (if d = [] then st else gc_reply kWindowUpdate 0 kStreamId incr (gc_reply kWindowUpdate 0 0 incr st));
             (fs, r) = extract_messages (gc_recv_buf t)
         in (if gc_cb t then fs else [], scs,
             t\<lparr>gc_recv_buf := r, gc_frames_recv := gc_frames_recv t + of_nat (length fs)\<rparr>))"

definition gc_handle ::
  "u8 \<times> u8 \<times> byte list \<Rightarrow> send_script list \<times> GrpcClientTransport \<Rightarrow> MessageFrame list \<times> send_script list \<times> GrpcClientTransport" where
  "gc_handle fr st = (case fr of (ty, flags, pl) \<Rightarrow>
     if ty = kSettings then ([], if flags AND kAck = 0 then gc_reply kSettings kAck 0 [] st else st)
     else if ty = kPing then ([], if flags AND kAck = 0 then gc_reply kPing kAck 0 pl st else st)
     else if ty = kData then gc_handle_data flags pl st
     else if ty = kGoAway \<or> ty = kRstStream then ([], map_prod id (\<lambda>t. t\<lparr>gc_running := False\<rparr>) st)
     else ([], st))"

lemma got_h2_bytes:
  assumes "got_h2 rxs = Some (fr, rxs')"
  shows "length (rx_bytes rxs') < length (rx_bytes rxs)"
  using assms
  by (auto simp: got_h2_def Let_def split: option.splits prod.splits dest!: read_exact_bytes)

function gc_reader_loop :: "rx list \<Rightarrow> send_script list \<times> GrpcClientTransport \<Rightarrow> MessageFrame list \<times> GrpcClientTransport" where
  "gc_reader_loop rxs st = (if \<not> gc_running (snd st) then ([], snd st)
     else case got_h2 rxs of
       None \<Rightarrow> ([], snd st)
     | Some (fr, rxs) \<Rightarrow> (case gc_handle fr st of (fs, st) \<Rightarrow>
         (case gc_reader_loop rxs st of (gs, t) \<Rightarrow> (fs @ gs, t))))"
  by pat_completeness auto
termination
  by (relation "measure (\<lambda>(rxs, st). length (rx_bytes rxs))") (auto dest: got_h2_bytes)

declare gc_reader_loop.simps [simp del]

section \<open>Frames and headers read back\<close>

text \<open>What a peer reads: one frame of a byte stream, with its stream identifier.\<close>

type_synonym h2_fr = "u32 \<times> u8 \<times> u8 \<times> byte list"

definition h2_encode :: "h2_fr \<Rightarrow> byte list" where
  "h2_encode = (\<lambda>(stream, ty, flags, pl). h2_frame ty flags stream pl)"

definition h2_decode :: "byte list \<Rightarrow> (h2_fr \<times> byte list) option" where
  "h2_decode bs = (if length bs < 9 then None
     else let len = unat (be_value (take 3 bs) :: u32) in
       if length bs < 9 + len then None
       else Some ((be_value (take 4 (drop 5 bs)), bs ! 3, bs ! 4, take len (drop 9 bs)), drop (9 + len) bs))"

fun h2_wf :: "h2_fr \<Rightarrow> bool" where
  "h2_wf (stream, ty, flags, pl) \<longleftrightarrow> length pl < 2 ^ 24 \<and> \<not> bit stream 31"

lemma length_h2_frame [simp]: "length (h2_frame ty flags stream pl) = 9 + length pl"
  by (simp add: h2_frame_def Let_def)

lemma be_bytes_3: "be_bytes 3 v = [byte_at 2 v, byte_at 1 v, byte_at 0 v]"
  by (simp add: be_bytes_def upt_rec numeral_2_eq_2)

lemma be_value_len24:
  assumes "n < 2 ^ 24"
  shows "unat (be_value [byte_at 2 (of_nat n :: u32), byte_at 1 (of_nat n :: u32), byte_at 0 (of_nat n :: u32)] :: u32) = n"
proof -
  let ?w = "of_nat n :: u32"
  have u: "unat ?w = n" using assms by (simp add: unat_of_nat)
  have "drop_bit (8 * 3) ?w = 0"
    using assms u by (simp add: drop_bit_eq_div word_eq_iff_unsigned unat_div_distrib flip: unat_eq_zero)
  then have "be_value (be_bytes 3 ?w) = ?w" using be_value_be_bytes_from [of 3 ?w] by (simp add: be_value_def)
  then show ?thesis using u by (simp add: be_bytes_3)
qed

lemma stream_bytes:
  assumes "\<not> bit (v :: u32) 31"
  shows "[byte_at 3 v AND 0x7F, byte_at 2 v, byte_at 1 v, byte_at 0 v] = be_bytes 4 v"
proof -
  have "(0x7F :: u8) = mask 7" by (simp add: mask_eq_exp_minus_1)
  then have "byte_at 3 v AND 0x7F = byte_at 3 v"
    using assms by (intro bit_word_eqI) (auto simp: bit_simps bit_byte_at less_Suc_eq eval_nat_numeral)
  then show ?thesis by (simp add: be_bytes_def upt_rec eval_nat_numeral)
qed

interpretation h2: stream_codec h2_encode h2_decode h2_wf
proof unfold_locales
  fix fr r assume wf: "h2_wf fr"
  obtain stream ty flags pl where fr: "fr = (stream, ty, flags, pl)" by (metis prod_cases4)
  have "drop (9 + length pl) (h2_frame ty flags stream pl @ r) = r"
    using length_h2_frame [of ty flags stream pl] by (metis append_eq_conv_conj)
  then show "h2_decode (h2_encode fr @ r) = Some (fr, r)"
    using wf be_value_len24 [of "length pl"] stream_bytes [of stream] be_value_be_bytes [of 4 stream]
    by (simp add: fr h2_encode_def h2_decode_def h2_frame_def Let_def)
qed

definition hpack_str :: "byte list \<Rightarrow> (string \<times> byte list) option" where
  "hpack_str bs = (case bs of [] \<Rightarrow> None
     | b # bs \<Rightarrow> if 127 \<le> b \<or> length bs < unat b then None
         else Some (string_of_bytes (take (unat b) bs), drop (unat b) bs))"

text \<open>A literal field that is not indexed, with a new name and strings of less than 127 bytes, as RFC 7541
  section 6.2.2 reads it.\<close>

definition hpack_field :: "byte list \<Rightarrow> ((string \<times> string) \<times> byte list) option" where
  "hpack_field bs = (case bs of [] \<Rightarrow> None
     | b # bs \<Rightarrow> if b \<noteq> 0 then None
         else (case hpack_str bs of None \<Rightarrow> None
             | Some (k, bs) \<Rightarrow> (case hpack_str bs of None \<Rightarrow> None | Some (v, bs) \<Rightarrow> Some ((k, v), bs))))"

lemma hpack_str_put:
  assumes "length s < 127"
  shows "hpack_str (put_hpack_str [] s @ r) = Some (s, r)"
proof -
  have "(0x7F :: u64) = mask 7" by (simp add: mask_eq_exp_minus_1)
  then have "of_nat (length s) AND (0x7F :: u64) = take_bit 7 (of_nat (length s))" by (simp only: take_bit_eq_mask)
  also have "\<dots> = of_nat (take_bit 7 (length s))" by (simp only: take_bit_of_nat)
  also have "take_bit 7 (length s) = length s" using assms by (simp add: take_bit_nat_eq_self)
  finally have "(ucast (of_nat (length s) AND (0x7F :: u64)) :: u8) = of_nat (length s)"
    using assms by (simp add: unsigned_of_nat take_bit_nat_eq_self)
  moreover have "unat (of_nat (length s) :: u8) = length s" using assms by (simp add: unat_of_nat)
  ultimately show ?thesis
    using assms by (simp add: put_hpack_str_def hpack_str_def word_le_nat_alt)
qed

lemma put_hpack_kv_append: "put_hpack_kv out k v = out @ put_hpack_kv [] k v"
  by (simp add: put_hpack_kv_def put_hpack_str_def)

interpretation hpack: stream_codec "\<lambda>(k, v). put_hpack_kv [] k v" hpack_field "\<lambda>(k, v). length k < 127 \<and> length v < 127"
proof unfold_locales
  fix kv :: "string \<times> string" and r
  assume "case kv of (k, v) \<Rightarrow> length k < 127 \<and> length v < 127"
  moreover obtain k v where kv: "kv = (k, v)" by fastforce
  moreover have "put_hpack_kv [] k v @ r = 0 # put_hpack_str [] k @ put_hpack_str [] v @ r"
    by (simp add: put_hpack_kv_def put_hpack_str_def)
  ultimately show "hpack_field ((case kv of (k, v) \<Rightarrow> put_hpack_kv [] k v) @ r) = Some (kv, r)"
    by (simp add: hpack_field_def hpack_str_put)
qed

lemma header_block_concat: "header_block a = concat (map (\<lambda>(k, v). put_hpack_kv [] k v) (grpc_headers a))"
proof -
  have "foldl (\<lambda>out (k, v). put_hpack_kv out k v) out hs = out @ concat (map (\<lambda>(k, v). put_hpack_kv [] k v) hs)" for out hs
  proof (induction hs arbitrary: out)
    case (Cons h hs)
    obtain k v where "h = (k, v)" by fastforce
    then show ?case using Cons [of "put_hpack_kv out k v"] put_hpack_kv_append [of out k v] by simp
  qed simp
  then show ?thesis by (simp add: header_block_def)
qed

text \<open>The request headers are read back as the six fields, for an authority of less than 127 characters.\<close>

lemma grpc_headers_read:
  assumes "length a < 127"
  shows "hpack.decode_upto 6 (header_block a) = (grpc_headers a, [])"
proof -
  have "\<forall>kv \<in> set (grpc_headers a). case kv of (k, v) \<Rightarrow> length k < 127 \<and> length v < 127"
    using assms by (auto simp: grpc_headers_def)
  from hpack.decode_upto_encode [OF this, of "[]" 6] show ?thesis
    by (simp add: header_block_concat hpack_field_def) (simp add: grpc_headers_def)
qed

section \<open>Reassembly\<close>

lemma extract_append:
  "extract_messages buf = (fs, r) \<Longrightarrow>
   extract_messages (buf @ bs) = (case extract_messages (r @ bs) of (gs, r') \<Rightarrow> (fs @ gs, r'))"
proof (induction buf arbitrary: fs r rule: extract_messages.induct)
  case (1 buf)
  show ?case
  proof (cases "length buf < 5 \<or> length buf - 5 < unat (be_value (take 4 (drop 1 buf)) :: u32)")
    case True
    then have "fs = [] \<and> r = buf"
      using "1.prems" by (subst (asm) extract_messages.simps) (auto simp: Let_def split: if_splits)
    then show ?thesis by simp
  next
    case False
    define m where "m = unat (be_value (take 4 (drop (Suc 0) buf)) :: u32)"
    have l: "5 \<le> length buf" "m \<le> length buf - 5" using False by (simp_all add: m_def)
    obtain gs r1 where g: "extract_messages (drop (5 + m) buf) = (gs, r1)" by fastforce
    have f: "fs = (case decode_frame (take m (drop 5 buf)) of Some f \<Rightarrow> [f] | None \<Rightarrow> []) @ gs \<and> r = r1"
      using "1.prems" False g by (subst (asm) extract_messages.simps) (simp add: Let_def m_def [symmetric])
    have ih: "extract_messages (drop (5 + m) buf @ bs) = (case extract_messages (r1 @ bs) of (hs, r') \<Rightarrow> (gs @ hs, r'))"
      using "1.IH" [OF _ refl] False g by (simp add: m_def)
    have t: "take 4 (drop (Suc 0) (buf @ bs)) = take 4 (drop (Suc 0) buf)" "take m (drop 5 (buf @ bs)) = take m (drop 5 buf)"
        "drop (5 + m) (buf @ bs) = drop (5 + m) buf @ bs" "\<not> length (buf @ bs) < 5" "\<not> length (buf @ bs) - 5 < m"
      using l by simp_all
    have "extract_messages (buf @ bs) = (case extract_messages (drop (5 + m) (buf @ bs)) of (hs, r') \<Rightarrow>
        ((case decode_frame (take m (drop 5 (buf @ bs))) of Some f \<Rightarrow> [f] | None \<Rightarrow> []) @ hs, r'))"
      by (subst extract_messages.simps) (simp only: Let_def One_nat_def t(1,4,5) m_def [symmetric] if_False)
    then show ?thesis using f unfolding t(2,3) ih by (simp split: prod.split)
  qed
qed

text \<open>A frame whose message fits one HTTP/2 frame.\<close>

definition grpc_fits :: "MessageFrame \<Rightarrow> bool" where
  "grpc_fits f \<longleftrightarrow> length (encode_frame f) + 5 < 2 ^ 24"

lemma length_grpc_message [simp]: "length (grpc_message f) = 5 + length (encode_frame f)"
  by (simp add: grpc_message_def Let_def)

lemma extract_message:
  assumes "grpc_fits f" "extract_messages bs = (fs, r)"
  shows "extract_messages (grpc_message f @ bs) = (f # fs, r)"
proof -
  let ?b = "encode_frame f" and ?l = "of_nat (length (encode_frame f)) :: u32"
  have l: "unat ?l = length ?b" using assms(1) by (simp add: grpc_fits_def unat_of_nat)
  have v: "be_value (be_bytes 4 ?l) = ?l" by (rule be_value_be_bytes) simp
  have d: "decode_frame ?b = Some f"
    using decode_encode_frame [of f "[]"] assms(1) by (simp add: grpc_fits_def encode_frame_length)
  have m: "grpc_message f @ bs = 0 # be_bytes 4 ?l @ ?b @ bs" by (simp add: grpc_message_def Let_def)
  have t: "take 4 (drop 1 (grpc_message f @ bs)) = be_bytes 4 ?l" "take (length ?b) (drop 5 (grpc_message f @ bs)) = ?b"
      "\<not> length (grpc_message f @ bs) < 5" "\<not> length (grpc_message f @ bs) - 5 < length ?b"
    unfolding m by simp_all
  have u: "drop (5 + length ?b) (grpc_message f @ bs) = bs"
    using length_grpc_message [of f] by (metis append_eq_conv_conj)
  show ?thesis
    by (subst extract_messages.simps) (simp only: Let_def t u v l d if_False assms(2) prod.case option.case append_Cons append_Nil)
qed

lemma extract_messages_concat:
  assumes "\<forall>f \<in> set fs. grpc_fits f"
  shows "extract_messages (concat (map grpc_message fs)) = (fs, [])"
  using assms
proof (induction fs)
  case (Cons f fs)
  then show ?case using extract_message [of f "concat (map grpc_message fs)"] by simp
qed (simp add: extract_messages.simps)

text \<open>What is left in the buffer holds no message.\<close>

lemma extract_rest: "extract_messages buf = (fs, r) \<Longrightarrow> extract_messages r = ([], r)"
proof (induction buf arbitrary: fs rule: extract_messages.induct)
  case (1 buf)
  show ?case
  proof (cases "length buf < 5 \<or> length buf - 5 < unat (be_value (take 4 (drop 1 buf)) :: u32)")
    case True
    then have "r = buf" "fs = []"
      using "1.prems" by (auto simp: extract_messages.simps [of buf] Let_def split: if_splits)
    then show ?thesis using "1.prems" by simp
  next
    case False
    then show ?thesis
      using "1.prems" "1.IH" [OF _ refl] by (auto simp: extract_messages.simps [of buf] Let_def split: prod.splits)
  qed
qed

section \<open>The reader\<close>

text \<open>The bytes of the messages in a list of frames.\<close>

fun h2_content :: "h2_fr \<Rightarrow> byte list" where
  "h2_content (stream, ty, flags, pl) = (if ty = kData then case data_content flags pl of None \<Rightarrow> [] | Some d \<Rightarrow> d else [])"

fun h2_quiet :: "h2_fr \<Rightarrow> bool" where
  "h2_quiet (stream, ty, flags, pl) \<longleftrightarrow> ty \<noteq> kGoAway \<and> ty \<noteq> kRstStream"

lemma gc_write_frame_fields [simp]:
  "gc_recv_buf (snd (gc_write_frame sc ty fl sid pl t)) = gc_recv_buf t" "gc_running (snd (gc_write_frame sc ty fl sid pl t)) = gc_running t"
  "gc_cb (snd (gc_write_frame sc ty fl sid pl t)) = gc_cb t" "gc_reader (snd (gc_write_frame sc ty fl sid pl t)) = gc_reader t"
  by (simp_all add: gc_write_frame_def gc_write_raw_def split: prod.splits)

lemma gc_reply_fields [simp]:
  "gc_recv_buf (snd (gc_reply ty fl sid pl st)) = gc_recv_buf (snd st)" "gc_running (snd (gc_reply ty fl sid pl st)) = gc_running (snd st)"
  "gc_cb (snd (gc_reply ty fl sid pl st)) = gc_cb (snd st)" "gc_reader (snd (gc_reply ty fl sid pl st)) = gc_reader (snd st)"
  by (simp_all add: gc_reply_def split: prod.splits)

lemma gc_handle_quiet:
  assumes "gc_handle (ty, fl, pl) st = (fs, st')" "h2_quiet (sid, ty, fl, pl)" "gc_cb (snd st)"
    and "extract_messages (gc_recv_buf (snd st)) = ([], gc_recv_buf (snd st))"
  shows "extract_messages (gc_recv_buf (snd st) @ h2_content (sid, ty, fl, pl)) = (fs, gc_recv_buf (snd st'))"
    "gc_running (snd st') = gc_running (snd st)" "gc_cb (snd st')" "gc_reader (snd st') = gc_reader (snd st)"
proof -
  obtain scs t where st: "st = (scs, t)" by fastforce
  have "extract_messages (gc_recv_buf t @ h2_content (sid, ty, fl, pl)) = (fs, gc_recv_buf (snd st')) \<and>
    gc_running (snd st') = gc_running t \<and> gc_cb (snd st') \<and> gc_reader (snd st') = gc_reader t"
  proof (cases "ty = kData \<and> data_content fl pl \<noteq> None")
    case True
    then obtain d where d: "data_content fl pl = Some d" by auto
    let ?st = "(scs, t\<lparr>gc_recv_buf := gc_recv_buf t @ d\<rparr>)" and ?i = "be_bytes 4 (of_nat (length d) :: u32)"
    obtain scs' t' where w: "(if d = [] then ?st else gc_reply kWindowUpdate 0 kStreamId ?i (gc_reply kWindowUpdate 0 0 ?i ?st)) = (scs', t')"
      by fastforce
    have t': "gc_recv_buf t' = gc_recv_buf t @ d" "gc_running t' = gc_running t" "gc_cb t' = gc_cb t" "gc_reader t' = gc_reader t"
      using arg_cong [OF w, where f = "\<lambda>x. gc_recv_buf (snd x)"] arg_cong [OF w, where f = "\<lambda>x. gc_running (snd x)"]
        arg_cong [OF w, where f = "\<lambda>x. gc_cb (snd x)"] arg_cong [OF w, where f = "\<lambda>x. gc_reader (snd x)"]
      by (simp_all split: if_splits)
    obtain gs r where e: "extract_messages (gc_recv_buf t @ d) = (gs, r)" by fastforce
    have "gc_handle (ty, fl, pl) st = gc_handle_data fl pl st" using True by (simp add: gc_handle_def h2_constants)
    also have "\<dots> = (gs, scs', t'\<lparr>gc_recv_buf := r, gc_frames_recv := gc_frames_recv t' + of_nat (length gs)\<rparr>)"
      using assms(3) by (simp add: gc_handle_data_def d st Let_def w t' e del: if_split)
    finally have "fs = gs" "st' = (scs', t'\<lparr>gc_recv_buf := r, gc_frames_recv := gc_frames_recv t' + of_nat (length gs)\<rparr>)"
      using assms(1) by simp_all
    then show ?thesis using assms(3) True d e t' st by simp
  next
    case False
    then show ?thesis
      using assms(1-4) st by (auto simp: gc_handle_def gc_handle_data_def split: if_splits option.splits)
  qed
  then show "extract_messages (gc_recv_buf (snd st) @ h2_content (sid, ty, fl, pl)) = (fs, gc_recv_buf (snd st'))"
    "gc_running (snd st') = gc_running (snd st)" "gc_cb (snd st')" "gc_reader (snd st') = gc_reader (snd st)"
    by (simp_all add: st)
qed

lemma got_h2_live:
  assumes "rx_live rxs" "rx_bytes rxs = h2_frame ty fl sid pl @ bs" "length pl < 2 ^ 24"
  obtains rxs' where "got_h2 rxs = Some ((ty, fl, pl), rxs')" "rx_live rxs'" "rx_bytes rxs' = bs"
proof -
  let ?hdr = "take 9 (h2_frame ty fl sid pl)"
  have h: "h2_frame ty fl sid pl = ?hdr @ pl" "length ?hdr = 9" "?hdr ! 3 = ty" "?hdr ! 4 = fl"
      "unat (be_value (take 3 ?hdr) :: u32) = length pl"
    using be_value_len24 [OF assms(3)] by (simp_all add: h2_frame_def Let_def)
  obtain rxs1 where 1: "read_exact rxs 9 = (Some ?hdr, rxs1)" "rx_live rxs1" "rx_bytes rxs1 = pl @ bs"
    by (rule read_exact_live [OF assms(1), of 9]) (simp_all add: assms(2) h2_frame_def Let_def)
  obtain rxs2 where 2: "read_exact rxs1 (length pl) = (Some pl, rxs2)" "rx_live rxs2" "rx_bytes rxs2 = bs"
    by (rule read_exact_live [OF 1(2), of "length pl"]) (simp_all add: 1(3))
  have "got_h2 rxs = Some ((ty, fl, pl), rxs2)"
    unfolding got_h2_def 1(1) by (simp only: Let_def prod.case option.case h(3-5) 2(1))
  then show thesis using that 2 by blast
qed

lemma got_h2_end: "rx_bytes rxs = [] \<Longrightarrow> got_h2 rxs = None"
  using read_exact_bytes [of rxs 9] by (cases "read_exact rxs 9"; cases "fst (read_exact rxs 9)") (auto simp: got_h2_def)

lemma gc_reader_exact:
  assumes "rx_live rxs" "rx_bytes rxs = concat (map h2_encode frs)" "\<forall>fr \<in> set frs. h2_wf fr \<and> h2_quiet fr"
    and "gc_running (snd st)" "gc_cb (snd st)" "extract_messages (gc_recv_buf (snd st)) = ([], gc_recv_buf (snd st))"
  shows "fst (gc_reader_loop rxs st) = fst (extract_messages (gc_recv_buf (snd st) @ concat (map h2_content frs)))"
  using assms
proof (induction frs arbitrary: rxs st)
  case Nil
  then show ?case using got_h2_end [of rxs] by (simp add: gc_reader_loop.simps)
next
  case (Cons fr frs)
  obtain sid ty fl pl where fr: "fr = (sid, ty, fl, pl)" by (metis prod_cases4)
  obtain rxs' where g: "got_h2 rxs = Some ((ty, fl, pl), rxs')" "rx_live rxs'" "rx_bytes rxs' = concat (map h2_encode frs)"
    by (rule got_h2_live [OF Cons.prems(1), of ty fl sid pl "concat (map h2_encode frs)"])
       (use Cons.prems(2,3) in \<open>simp_all add: fr h2_encode_def\<close>)
  obtain fs st' where h: "gc_handle (ty, fl, pl) st = (fs, st')" by (cases "gc_handle (ty, fl, pl) st") blast
  have q: "extract_messages (gc_recv_buf (snd st) @ h2_content fr) = (fs, gc_recv_buf (snd st'))" "gc_running (snd st')" "gc_cb (snd st')"
    using gc_handle_quiet [OF h _ Cons.prems(5,6), of sid] Cons.prems(3,4) by (simp_all add: fr)
  have "fst (gc_reader_loop rxs' st') = fst (extract_messages (gc_recv_buf (snd st') @ concat (map h2_content frs)))"
    using Cons.IH [OF g(2,3) _ q(2,3) extract_rest [OF q(1)]] Cons.prems(3) by simp
  moreover have "fst (extract_messages (gc_recv_buf (snd st) @ concat (map h2_content (fr # frs)))) =
      fs @ fst (extract_messages (gc_recv_buf (snd st') @ concat (map h2_content frs)))"
    using extract_append [OF q(1), of "concat (map h2_content frs)"] by (simp split: prod.split)
  moreover obtain gs t2 where "gc_reader_loop rxs' st' = (gs, t2)" by fastforce
  ultimately show ?case
    using Cons.prems(4) g(1) h by (subst gc_reader_loop.simps) simp
qed

section \<open>The sender\<close>

lemma gc_write_raw_True:
  assumes "gc_write_raw sc bs t = (True, t')"
  shows "gc_fd t \<and> t' = t\<lparr>gc_wire := gc_wire t @ bs\<rparr>"
proof -
  obtain sc' w where "write_loop sc bs (gc_wire t) = (True, sc', w)" "gc_fd t" "t' = t\<lparr>gc_wire := w\<rparr>"
    using assms by (auto simp: gc_write_raw_def split: prod.splits if_splits)
  then show ?thesis using write_loop_wire [of sc bs "gc_wire t" True sc' w] by auto
qed

lemma gc_send_wire:
  assumes "gc_send sc f t = (True, t')"
  shows "gc_wire t' = gc_wire t @ h2_encode (kStreamId, kData, 0, grpc_message f)"
  using assms by (auto simp: gc_send_def gc_write_frame_def h2_encode_def split: prod.splits if_splits dest!: gc_write_raw_True)

fun gc_sends :: "(send_script \<times> MessageFrame) list \<Rightarrow> GrpcClientTransport \<Rightarrow> bool list \<times> GrpcClientTransport" where
  "gc_sends [] t = ([], t)"
| "gc_sends ((sc, f) # es) t = (case gc_send sc f t of (good, t) \<Rightarrow> (case gc_sends es t of (gs, t) \<Rightarrow> (good # gs, t)))"

lemma gc_sends_wire:
  assumes "gc_sends es t = (gs, t')" "list_all id gs"
  shows "gc_wire t' = gc_wire t @ concat (map (\<lambda>(sc, f). h2_encode (kStreamId, kData, 0, grpc_message f)) es)"
  using assms
proof (induction es arbitrary: t gs)
  case (Cons e es)
  obtain sc f where e: "e = (sc, f)" by fastforce
  obtain good t1 gs1 where s: "gc_send sc f t = (good, t1)" "gc_sends es t1 = (gs1, t')" "gs = good # gs1"
    using Cons.prems(1) by (auto simp: e split: prod.splits)
  then show ?case using Cons.IH [OF s(2)] Cons.prems(2) gc_send_wire [of sc f t t1] by (simp add: e)
qed simp

text \<open>What a client writes before its first message.\<close>

lemma gc_start_wire:
  assumes "gc_start cs sp ss sh (new_GrpcClientTransport target) = Some (None, t)"
  shows "gc_wire t = kPreface @ h2_encode (0, kSettings, 0, []) @ h2_encode (kStreamId, kHeaders, kEndHeaders, header_block (gc_authority t))"
  using assms
  by (auto simp: gc_start_def Let_def gc_gate_err_def gc_write_frame_def h2_encode_def new_GrpcClientTransport_def
      split: option.splits prod.splits if_splits dest!: gc_write_raw_True)

lemma gc_start_fields:
  assumes "gc_start cs sp ss sh t1 = Some (None, t)"
  shows "gc_running t \<and> gc_reader t \<and> gc_cb t = gc_cb t1 \<and> gc_recv_buf t = gc_recv_buf t1"
  using assms
  by (auto simp: gc_start_def Let_def gc_gate_err_def gc_write_frame_def split: option.splits prod.splits if_splits dest!: gc_write_raw_True)

text \<open>
  How a server reads the client's bytes: the 24 octets of RFC 7540, section 3.5, and then frames. Without the
  preface it reads nothing. The octets of the preface are written out as the RFC gives them.
\<close>

definition http2_preface :: "byte list" where
  "http2_preface = [0x50, 0x52, 0x49, 0x20, 0x2a, 0x20, 0x48, 0x54, 0x54, 0x50, 0x2f, 0x32, 0x2e, 0x30,
     0x0d, 0x0a, 0x0d, 0x0a, 0x53, 0x4d, 0x0d, 0x0a, 0x0d, 0x0a]"

definition server_reads :: "nat \<Rightarrow> byte list \<Rightarrow> (h2_fr list \<times> byte list) option" where
  "server_reads n w = (if take 24 w = http2_preface then Some (h2.decode_upto n (drop 24 w)) else None)"

definition client_frames :: "nat \<Rightarrow> byte list \<Rightarrow> h2_fr list" where
  "client_frames n w = (case server_reads n w of None \<Rightarrow> [] | Some (frs, _) \<Rightarrow> frs)"

lemma kPreface_octets: "kPreface = http2_preface" "length http2_preface = 24"
  by (simp_all add: kPreface_def http2_preface_def bytes_of_string_def byte_of_char_def)

lemma header_block_short: "length a < 127 \<Longrightarrow> length (header_block a) < 2 ^ 24"
  by (simp add: header_block_def grpc_headers_def put_hpack_kv_def put_hpack_str_def)

lemma server_reads_client:
  assumes "gc_start cs sp ss sh (new_GrpcClientTransport target) = Some (None, t0)" "length (gc_authority t0) < 127"
    and "gc_sends es t0 = (gs, t)" "list_all id gs" "\<forall>e \<in> set es. grpc_fits (snd e)"
  shows "server_reads (length es + 2) (gc_wire t) = Some ((0, 4, 0, []) # (1, 1, 4, header_block (gc_authority t0)) #
    map (\<lambda>e. (1, 0, 0, grpc_message (snd e))) es, [])"
proof -
  let ?frs = "(0, kSettings, 0, []) # (kStreamId, kHeaders, kEndHeaders, header_block (gc_authority t0)) #
    map (\<lambda>e. (kStreamId, kData, 0, grpc_message (snd e))) es"
  have "gc_wire t = kPreface @ concat (map h2_encode ?frs)"
    using gc_start_wire [OF assms(1)] gc_sends_wire [OF assms(3,4)] by (simp add: case_prod_unfold o_def)
  then have "take 24 (gc_wire t) = http2_preface" "drop 24 (gc_wire t) = concat (map h2_encode ?frs) @ []"
    by (simp_all add: kPreface_octets)
  moreover have "\<forall>fr \<in> set ?frs. h2_wf fr"
    using assms(5) header_block_short [OF assms(2)] by (auto simp: grpc_fits_def kStreamId_def)
  moreover have "h2_decode [] = None" by (simp add: h2_decode_def)
  ultimately show ?thesis
    using h2.decode_upto_encode [of ?frs "[]" "length es + 2"] by (simp add: server_reads_def h2_constants)
qed

section \<open>A peer that sends messages on\<close>

text \<open>What the peer sends: a piece of the message bytes in a data frame, padded or not, or another frame.\<close>

datatype relay_item = Piece "byte list" "nat option" | Other h2_fr

fun relayed_frame :: "relay_item \<Rightarrow> h2_fr" where
  "relayed_frame (Piece d None) = (kStreamId, kData, 0, d)"
| "relayed_frame (Piece d (Some p)) = (kStreamId, kData, kPadded, of_nat p # d @ replicate p 0)"
| "relayed_frame (Other fr) = fr"

fun relay_ok :: "relay_item \<Rightarrow> bool" where
  "relay_ok (Piece d p) \<longleftrightarrow> length d < 2 ^ 24 - 256 \<and> (case p of None \<Rightarrow> True | Some n \<Rightarrow> n < 256)"
| "relay_ok (Other (stream, ty, flags, pl)) \<longleftrightarrow> h2_wf (stream, ty, flags, pl) \<and> ty \<notin> {kData, kGoAway, kRstStream}"

fun relay_bytes :: "relay_item \<Rightarrow> byte list" where
  "relay_bytes (Piece d p) = d" | "relay_bytes (Other fr) = []"

fun data_payload :: "h2_fr \<Rightarrow> byte list" where
  "data_payload (stream, ty, flags, pl) = (if ty = 0 then pl else [])"

lemma relayed_frame_read:
  assumes "relay_ok i"
  shows "h2_wf (relayed_frame i)" "h2_quiet (relayed_frame i)" "h2_content (relayed_frame i) = relay_bytes i"
proof -
  have "h2_wf (relayed_frame i) \<and> h2_quiet (relayed_frame i) \<and> h2_content (relayed_frame i) = relay_bytes i"
  proof (cases i)
    case (Piece d p)
    show ?thesis
    proof (cases p)
      case None
      then show ?thesis using assms Piece by (simp add: h2_constants data_content_def)
    next
      case (Some n)
      then have "unat (of_nat n :: u8) = n" using assms Piece by (simp add: unat_of_nat)
      then show ?thesis using assms Piece Some by (simp add: h2_constants data_content_def)
    qed
  next
    case (Other fr)
    then show ?thesis using assms by (cases fr) auto
  qed
  then show "h2_wf (relayed_frame i)" "h2_quiet (relayed_frame i)" "h2_content (relayed_frame i) = relay_bytes i" by simp_all
qed

section \<open>Properties\<close>

text \<open>
  C23: When its authority is shorter than 127 characters and its messages stay below \<open>2 ^ 24\<close> bytes, a client that
  has started and whose sends went through puts on the wire the connection preface of HTTP/2 and then exactly
  an empty SETTINGS frame, a HEADERS frame on stream 1 that ends its headers and reads back as the POST of the
  gRPC exchange to the dialled authority, and one DATA frame on stream 1 per message, each with the message's
  length and encoding. When a peer sends those message bytes on in data frames cut and padded at will and mixed
  with other frames, then under any chunking of the socket the receiving transport hands up exactly the frames
  sent, in order.
\<close>

theorem grpc_link_in_order:
  assumes "gc_start cs sp ss sh (new_GrpcClientTransport target) = Some (None, t0)" "length (gc_authority t0) < 127"
    and "gc_sends es t0 = (gs, t)" "list_all id gs" "\<forall>e \<in> set es. grpc_fits (snd e)"
    and "gc_start cs' sp' ss' sh' (gc_on_receive (new_GrpcClientTransport target')) = Some (None, r)"
    and "rx_live rxs" "rx_bytes rxs = concat (map (h2_encode \<circ> relayed_frame) items)" "\<forall>i \<in> set items. relay_ok i"
    and "concat (map relay_bytes items) = concat (map data_payload (client_frames (length es + 2) (gc_wire t)))"
  shows "fst (gc_reader_loop rxs (scs, r)) = map snd es \<and>
    (\<exists>block. server_reads (length es + 2) (gc_wire t) = Some ((0, 4, 0, []) # (1, 1, 4, block) #
        map (\<lambda>(_, f). (1, 0, 0, [0] @ be_bytes 4 (of_nat (length (encode_frame f)) :: u32) @ encode_frame f)) es, []) \<and>
      hpack.decode_upto 6 block = ([('':method'', ''POST''), ('':scheme'', ''http''), ('':path'', ''/aero.Transport/Exchange''),
        ('':authority'', gc_authority t0), (''content-type'', ''application/grpc''), (''te'', ''trailers'')], []))"
proof -
  have w: "\<exists>block. server_reads (length es + 2) (gc_wire t) = Some ((0, 4, 0, []) # (1, 1, 4, block) #
        map (\<lambda>(_, f). (1, 0, 0, [0] @ be_bytes 4 (of_nat (length (encode_frame f)) :: u32) @ encode_frame f)) es, []) \<and>
      hpack.decode_upto 6 block = ([('':method'', ''POST''), ('':scheme'', ''http''), ('':path'', ''/aero.Transport/Exchange''),
        ('':authority'', gc_authority t0), (''content-type'', ''application/grpc''), (''te'', ''trailers'')], [])"
    using server_reads_client [OF assms(1-5)] grpc_headers_read [OF assms(2)]
    by (auto simp: grpc_headers_def grpc_message_def Let_def case_prod_unfold)
  have r: "gc_running r" "gc_cb r" "gc_recv_buf r = []"
    using gc_start_fields [OF assms(6)] by (simp_all add: gc_on_receive_def new_GrpcClientTransport_def)
  have "concat (map relay_bytes items) = concat (map grpc_message (map snd es))"
    unfolding assms(10) client_frames_def server_reads_client [OF assms(1-5)] by (simp add: o_def)
  moreover have "map h2_content (map relayed_frame items) = map relay_bytes items"
    using assms(9) relayed_frame_read(3) by simp
  moreover have "\<forall>fr \<in> set (map relayed_frame items). h2_wf fr \<and> h2_quiet fr"
    using assms(9) relayed_frame_read by auto
  moreover have "rx_bytes rxs = concat (map h2_encode (map relayed_frame items))" using assms(8) by simp
  ultimately have "fst (gc_reader_loop rxs (scs, r)) = map snd es"
    using gc_reader_exact [OF assms(7), of "map relayed_frame items" "(scs, r)"] r
      extract_messages_concat [of "map snd es"] assms(5)
    by (simp add: extract_messages.simps [of "[]"] del: map_map)
  with w show ?thesis by blast
qed

definition demo_mf :: MessageFrame where
  "demo_mf = \<lparr>mf_from = 1, mf_to = 2, mf_target_type = 0, mf_target_key = 0, mf_msg_type = 0, mf_mode = 0, mf_kind = 0,
     mf_deadline_ns = 0, mf_trace_id = 0, mf_subject = 0, mf_rights = 0, mf_payload = []\<rparr>"

definition demo_script :: send_script where
  "demo_script = [(0, SendOk 1000)]"

definition demo_grpc :: "bool \<Rightarrow> GrpcClientTransport" where
  "demo_grpc cb = (new_GrpcClientTransport ''h:1'')\<lparr>gc_authority := ''h:1'', gc_fd := True, gc_running := True, gc_reader := True, gc_cb := cb,
     gc_wire := kPreface @ h2_encode (0, kSettings, 0, []) @ h2_encode (kStreamId, kHeaders, kEndHeaders, header_block ''h:1'')\<rparr>"

lemma demo_write:
  assumes "gc_fd t" "bs \<noteq> []" "length bs \<le> 1000"
  shows "gc_write_raw demo_script bs t = (True, t\<lparr>gc_wire := gc_wire t @ bs\<rparr>)"
  using assms by (simp add: gc_write_raw_def demo_script_def write_loop.simps [of _ bs] write_loop.simps [of _ "[]"])

lemma demo_start:
  "gc_start (Some [IsConnected]) demo_script demo_script demo_script (new_GrpcClientTransport ''h:1'') = Some (None, demo_grpc False)"
  "gc_start (Some [IsConnected]) demo_script demo_script demo_script (gc_on_receive (new_GrpcClientTransport ''h:1'')) = Some (None, demo_grpc True)"
proof -
  have s: "to_string (Suc 0) = ''1''" by (subst to_string.simps) code_simp
  have "stoul ''1'' = Some 1" using stoul_to_string [of 1] by (simp add: s)
  moreover have "rfind_char (CHR '':'') ''h:1'' = Some 1" using rfind_char_last [of "CHR '':''" "''1''" "''h''"] by simp
  ultimately have p: "parse_target ''h:1'' = Some (Some (''h'', 1))" by (simp add: parse_target_def strip_target_def Let_def)
  have h: "h2_frame ty fl sid pl \<noteq> []" for ty fl sid pl by (simp add: h2_frame_def Let_def)
  have b: "length (header_block ''h:1'') \<le> 900"
    by (simp add: header_block_def grpc_headers_def put_hpack_kv_def put_hpack_str_def)
  have k: "kPreface \<noteq> []" "length kPreface \<le> 1000" by (simp_all add: kPreface_def)
  show "gc_start (Some [IsConnected]) demo_script demo_script demo_script (new_GrpcClientTransport ''h:1'') = Some (None, demo_grpc False)"
    "gc_start (Some [IsConnected]) demo_script demo_script demo_script (gc_on_receive (new_GrpcClientTransport ''h:1'')) = Some (None, demo_grpc True)"
    using b k by (simp_all add: gc_start_def gc_on_receive_def new_GrpcClientTransport_def p s Let_def demo_write h gc_write_frame_def demo_grpc_def h2_encode_def)
qed

theorem grpc_link_in_order_witness:
  "fst (gc_reader_loop [RxChunk (h2_encode (relayed_frame (Piece (grpc_message demo_mf) (Some 3))))] ([], demo_grpc True)) = [demo_mf]"
proof -
  have f: "grpc_fits demo_mf" and l: "length (encode_frame demo_mf) < 2 ^ 20"
    by (simp_all add: grpc_fits_def demo_mf_def encode_frame_length kFrameHeaderBytes_def)
  have "length (h2_encode (kStreamId, kData, 0, grpc_message demo_mf)) \<le> 1000" "h2_encode (kStreamId, kData, 0, grpc_message demo_mf) \<noteq> []"
    by (simp_all add: h2_encode_def demo_mf_def encode_frame_length kFrameHeaderBytes_def h2_frame_def Let_def)
  then obtain t where s: "gc_sends [(demo_script, demo_mf)] (demo_grpc False) = ([True], t)"
    by (simp add: gc_send_def gc_write_frame_def demo_write demo_grpc_def h2_encode_def)
  have c: "client_frames (Suc (Suc (Suc 0))) (gc_wire t) = [(0, 4, 0, []), (1, 1, 4, header_block ''h:1''), (1, 0, 0, grpc_message demo_mf)]"
    using server_reads_client [OF demo_start(1) _ s] f by (simp add: demo_grpc_def client_frames_def)
  show ?thesis
    using grpc_link_in_order [OF demo_start(1) _ s _ _ demo_start(2), where items = "[Piece (grpc_message demo_mf) (Some 3)]"
        and rxs = "[RxChunk (h2_encode (relayed_frame (Piece (grpc_message demo_mf) (Some 3))))]" and scs = "[]"] f c l
    by (simp add: demo_grpc_def h2_constants grpc_fits_def h2_encode_def h2_frame_def Let_def)
qed

text \<open>
  C34: A server that ends the connection with GOAWAY makes the client's process end: the reader clears the
  running flag, so \<open>stop\<close> returns before it joins the reader, and the destructor of the transport meets a
  thread that can still be joined.
\<close>

theorem grpc_goaway_ends_process:
  assumes "gc_start cs sp ss sh (new_GrpcClientTransport target) = Some (None, t0)"
    and "rx_live rxs" "rx_bytes rxs = h2_frame kGoAway fl sid pl @ bs" "length pl < 2 ^ 24"
  shows "gc_destroy sc (snd (gc_reader_loop rxs (scs, t0))) = None"
proof -
  obtain rxs' where g: "got_h2 rxs = Some ((kGoAway, fl, pl), rxs')" by (rule got_h2_live [OF assms(2-4)])
  have t0: "gc_running t0" "gc_reader t0" using gc_start_fields [OF assms(1)] by simp_all
  have "gc_handle (kGoAway, fl, pl) (scs, t0) = ([], scs, t0\<lparr>gc_running := False\<rparr>)" by (simp add: gc_handle_def h2_constants)
  then have "snd (gc_reader_loop rxs (scs, t0)) = t0\<lparr>gc_running := False\<rparr>"
    using g t0(1) by (simp add: gc_reader_loop.simps [of rxs] gc_reader_loop.simps [of rxs'])
  then show ?thesis using t0(2) by (simp add: gc_destroy_def gc_stop_def)
qed

theorem grpc_goaway_ends_process_witness:
  "gc_destroy [] (snd (gc_reader_loop [RxChunk (h2_frame kGoAway 0 0 [0, 0, 0, 0, 0, 0, 0, 0])] ([], demo_grpc False))) = None"
  by (rule grpc_goaway_ends_process [OF demo_start(1), where bs = "[]" and fl = 0 and sid = 0 and pl = "[0, 0, 0, 0, 0, 0, 0, 0]"]) (simp_all add: h2_frame_def Let_def)

text \<open>Without a GOAWAY or a reset the transport is destroyed in order, its reader joined.\<close>

lemma grpc_orderly_destroy:
  assumes "gc_running t"
  shows "gc_destroy sc t \<noteq> None"
  using assms by (simp add: gc_destroy_def gc_stop_def Let_def)

end
