(* ===== verification/Extensions.thy ===== *)
theory Extensions
  imports Flow_Nodes "HOL-Library.AList"
begin

text \<open>
  Extensions: native libraries (\<open>ext/native_loader.hpp\<close>, \<open>sdk/ext_abi.h\<close>) and the seam for WebAssembly
  (\<open>ext/wasm_runtime.hpp\<close>). The code of a library is a parameter, given as the values its three exports
  answer with; what a node of it does in \<open>process\<close> is a program over the host's accessor table, the only way
  the interface gives it to the context. Every call into a library is recorded with whether the library was
  loaded at that moment.
\<close>

section \<open>The interface of a library\<close>

definition AERO_EXT_ABI_VERSION :: u32 where
  "AERO_EXT_ABI_VERSION = 1"

text \<open>A program over the host's accessors, ending with a result and the new state of the node.\<close>

datatype ('s, 'd) host_program = Finish u32 's
  | TagCount "nat \<Rightarrow> ('s, 'd) host_program"
  | TagGet nat "(string \<times> 'd) option \<Rightarrow> ('s, 'd) host_program"
  | TagSetValue nat 'd "bool \<Rightarrow> ('s, 'd) host_program"
  | TagPush string 'd "('s, 'd) host_program"
  | OutputPush 'd "('s, 'd) host_program"
  | EventPush string 'd "('s, 'd) host_program"

record ('s, 'd) AeroNodeVTable =
  vt_process :: "'s \<Rightarrow> ('s, 'd) host_program"
  vt_configure :: "string \<Rightarrow> 's \<Rightarrow> int \<times> 's"
  vt_descriptor :: "'s \<Rightarrow> u32 \<times> string option"

record AeroExtManifest =
  mn_abi_version :: u32
  mn_nodes :: "(string option \<times> u32) list"

text \<open>The exports: \<open>None\<close> when the symbol is missing; the manifest may be null, and \<open>create\<close> may give no node.\<close>

record ('s, 'd) ext_image =
  im_abi :: "u32 option"
  im_manifest :: "AeroExtManifest option option"
  im_create :: "(string \<Rightarrow> ('s \<times> ('s, 'd) AeroNodeVTable) option) option"

definition abi_compatible :: "u32 \<Rightarrow> bool" where
  "abi_compatible v \<longleftrightarrow> v = AERO_EXT_ABI_VERSION"

definition from_c :: "u32 \<Rightarrow> NodeResult" where
  "from_c r = (if r = 1 then Stop else if r = 2 then Error else Continue)"

definition category_from_c :: "u32 \<Rightarrow> NodeCategory" where
  "category_from_c c = (if c = 0 then Source else if c = 2 then Rule else if c = 3 then Output else Transform)"

section \<open>The host's accessors\<close>

definition host_tag_get :: "nat \<Rightarrow> 'd ProcessingContext \<Rightarrow> (string \<times> 'd) option" where
  "host_tag_get i c = (if length (tags c) \<le> i then None else Some (tag_name (tags c ! i), tag_val (tags c ! i)))"

definition host_tag_set_value :: "nat \<Rightarrow> 'd \<Rightarrow> 'd ProcessingContext \<Rightarrow> bool \<times> 'd ProcessingContext" where
  "host_tag_set_value i v c = (if length (tags c) \<le> i then (False, c)
     else (True, c\<lparr>tags := (tags c)[i := (tags c ! i)\<lparr>tag_val := v\<rparr>]\<rparr>))"

definition host_tag_push :: "string \<Rightarrow> 'd \<Rightarrow> 'd ProcessingContext \<Rightarrow> 'd ProcessingContext" where
  "host_tag_push n v c = c\<lparr>tags := tags c @ [\<lparr>tag_name = n, tag_val = v\<rparr>]\<rparr>"

definition host_output_push :: "'d \<Rightarrow> 'd ProcessingContext \<Rightarrow> 'd ProcessingContext" where
  "host_output_push v c = c\<lparr>outputs := outputs c @ [v]\<rparr>"

definition host_event_push :: "string \<Rightarrow> 'd \<Rightarrow> 'd ProcessingContext \<Rightarrow> 'd ProcessingContext" where
  "host_event_push n v c = c\<lparr>events := events c @ [\<lparr>ev_type = n, ev_val = v\<rparr>]\<rparr>"

primrec run_host :: "('s, 'd) host_program \<Rightarrow> 'd ProcessingContext \<Rightarrow> NodeResult \<times> 's \<times> 'd ProcessingContext" where
  "run_host (Finish r s) c = (from_c r, s, c)"
| "run_host (TagCount f) c = run_host (f (length (tags c))) c"
| "run_host (TagGet i f) c = run_host (f (host_tag_get i c)) c"
| "run_host (TagSetValue i v f) c = (case host_tag_set_value i v c of (r, c) \<Rightarrow> run_host (f r) c)"
| "run_host (TagPush n v p) c = run_host p (host_tag_push n v c)"
| "run_host (OutputPush v p) c = run_host p (host_output_push v c)"
| "run_host (EventPush n v p) c = run_host p (host_event_push n v c)"

section \<open>Libraries and nodes\<close>

record ('s, 'd) NativeExtension =
  ne_path :: string
  ne_image :: "('s, 'd) ext_image"
  ne_loaded :: bool

record ('s, 'd) NativeNode =
  nn_owner :: nat
  nn_self :: 's
  nn_vtable :: "('s, 'd) AeroNodeVTable"
  nn_desc :: NodeDescriptor

text \<open>
  The process: the libraries opened so far, an index each; who holds a \<open>shared_ptr\<close> to one, namely callers, the
  factories of the registry and the nodes; the nodes by number; and the record of the calls into libraries.
\<close>

record ('s, 'd) native_host =
  nh_exts :: "('s, 'd) NativeExtension list"
  nh_callers :: "nat list"
  nh_registry :: "(string \<times> NodeDescriptor \<times> nat) list"
  nh_nodes :: "(nat \<times> ('s, 'd) NativeNode) list"
  nh_next :: nat
  nh_calls :: "(nat \<times> bool) list"

definition new_native_host :: "('s, 'd) native_host" where
  "new_native_host = \<lparr>nh_exts = [], nh_callers = [], nh_registry = [], nh_nodes = [], nh_next = 0, nh_calls = []\<rparr>"

definition held :: "nat \<Rightarrow> ('s, 'd) native_host \<Rightarrow> bool" where
  "held e h \<longleftrightarrow> e \<in> set (nh_callers h) \<or> e \<in> (snd \<circ> snd) ` set (nh_registry h) \<or> e \<in> (nn_owner \<circ> snd) ` set (nh_nodes h)"

text \<open>What the last \<open>shared_ptr\<close> does when it goes: \<open>dlclose\<close>.\<close>

definition sweep :: "('s, 'd) native_host \<Rightarrow> ('s, 'd) native_host" where
  "sweep h = h\<lparr>nh_exts := map (\<lambda>(e, x). if held e h then x else x\<lparr>ne_loaded := False\<rparr>) (enumerate 0 (nh_exts h))\<rparr>"

definition called :: "nat \<Rightarrow> ('s, 'd) native_host \<Rightarrow> ('s, 'd) native_host" where
  "called e h = h\<lparr>nh_calls := nh_calls h @ [(e, ne_loaded (nh_exts h ! e))]\<rparr>"

datatype LoadError = DlopenFailed | NotAnExtension | AbiMismatch u32 | NullManifest | ManifestAbi u32

definition let_go :: "nat \<Rightarrow> ('s, 'd) native_host \<Rightarrow> ('s, 'd) native_host" where
  "let_go e h = sweep (h\<lparr>nh_callers := removeAll e (nh_callers h)\<rparr>)"

text \<open>The checks of \<open>load\<close> on the exports of library \<open>e\<close>.\<close>

definition check_exports :: "nat \<Rightarrow> ('s, 'd) ext_image \<Rightarrow> ('s, 'd) native_host \<Rightarrow> (LoadError + AeroExtManifest) \<times> ('s, 'd) native_host" where
  "check_exports e im h = (case (im_abi im, im_manifest im, im_create im) of
       (Some abi, Some man, Some _) \<Rightarrow>
         let h = called e h in
         if \<not> abi_compatible abi then (Inl (AbiMismatch abi), h)
         else let h = called e h in
           (case man of
              None \<Rightarrow> (Inl NullManifest, h)
            | Some m \<Rightarrow> (if abi_compatible (mn_abi_version m) then Inr m else Inl (ManifestAbi (mn_abi_version m)), h))
     | _ \<Rightarrow> (Inl NotAnExtension, h))"

text \<open>\<open>load\<close>: the caller holds the new library on success; on an error it is let go.\<close>

definition load_extension :: "string \<Rightarrow> ('s, 'd) ext_image option \<Rightarrow> ('s, 'd) native_host \<Rightarrow>
    (LoadError + nat \<times> AeroExtManifest) \<times> ('s, 'd) native_host" where
  "load_extension path opened h = (case opened of
       None \<Rightarrow> (Inl DlopenFailed, h)
     | Some im \<Rightarrow>
         let e = length (nh_exts h) in
         (case check_exports e im (h\<lparr>nh_exts := nh_exts h @ [\<lparr>ne_path = path, ne_image = im, ne_loaded = True\<rparr>],
                                     nh_callers := e # nh_callers h\<rparr>) of
            (Inl err, h) \<Rightarrow> (Inl err, let_go e h)
          | (Inr m, h) \<Rightarrow> (Inr (e, m), h)))"

text \<open>The registration loop; \<open>False\<close> when the type of a node is a null pointer, from which a string cannot be made.\<close>

fun register_nodes :: "nat \<Rightarrow> (string option \<times> u32) list \<Rightarrow> ('s, 'd) native_host \<Rightarrow> bool \<times> ('s, 'd) native_host" where
  "register_nodes e [] h = (True, h)"
| "register_nodes e ((None, cat) # ns) h = (False, h)"
| "register_nodes e ((Some tid, cat) # ns) h =
     register_nodes e ns (sweep (h\<lparr>nh_registry := AList.update tid (desc (category_from_c cat) tid, e) (nh_registry h)\<rparr>))"

datatype RegisterError = LoadFailed LoadError | LogicError

definition register_native_extension :: "string \<Rightarrow> ('s, 'd) ext_image option \<Rightarrow> ('s, 'd) native_host \<Rightarrow>
    (RegisterError + nat) \<times> ('s, 'd) native_host" where
  "register_native_extension path opened h = (case load_extension path opened h of
       (Inl err, h) \<Rightarrow> (Inl (LoadFailed err), h)
     | (Inr (e, m), h) \<Rightarrow> (case register_nodes e (mn_nodes m) h of
         (True, h) \<Rightarrow> (Inr e, h)
       | (False, h) \<Rightarrow> (Inl LogicError, let_go e h)))"

text \<open>\<open>create_node\<close> of library \<open>e\<close>: the new node's number, or none; \<open>cfg\<close> is the printed configuration.\<close>

definition create_node :: "nat \<Rightarrow> string \<Rightarrow> string \<Rightarrow> ('s, 'd) native_host \<Rightarrow> nat option \<times> ('s, 'd) native_host" where
  "create_node e tid cfg h = (case im_create (ne_image (nh_exts h ! e)) of
       None \<Rightarrow> (None, h)
     | Some f \<Rightarrow>
         let h = called e h in
         (case f tid of
            None \<Rightarrow> (None, h)
          | Some (s, vt) \<Rightarrow>
              let (rc, s) = vt_configure vt cfg s; h = called e h in
              if rc \<noteq> 0 then (None, called e h)
              else let (cat, dtid) = vt_descriptor vt s; h = called e h;
                       node = \<lparr>nn_owner = e, nn_self = s, nn_vtable = vt,
                               nn_desc = desc (category_from_c cat) (case dtid of Some i \<Rightarrow> i | None \<Rightarrow> tid)\<rparr>
                   in (Some (nh_next h), h\<lparr>nh_nodes := (nh_next h, node) # nh_nodes h, nh_next := Suc (nh_next h)\<rparr>)))"

text \<open>The factory of the registry; a null node is \<open>None\<close>.\<close>

definition native_factory :: "string \<Rightarrow> string \<Rightarrow> ('s, 'd) native_host \<Rightarrow> nat option \<times> ('s, 'd) native_host" where
  "native_factory tid cfg h = (case map_of (nh_registry h) tid of
       None \<Rightarrow> (None, h)
     | Some (_, e) \<Rightarrow> create_node e tid cfg h)"

definition native_process :: "nat \<Rightarrow> 'd ProcessingContext \<Rightarrow> ('s, 'd) native_host \<Rightarrow>
    (NodeResult \<times> 'd ProcessingContext) option \<times> ('s, 'd) native_host" where
  "native_process n c h = (case map_of (nh_nodes h) n of
       None \<Rightarrow> (None, h)
     | Some node \<Rightarrow> (case run_host (vt_process (nn_vtable node) (nn_self node)) c of (r, s, c) \<Rightarrow>
         (Some (r, c), (called (nn_owner node) h)\<lparr>nh_nodes := AList.update n (node\<lparr>nn_self := s\<rparr>) (nh_nodes h)\<rparr>)))"

text \<open>The destructor of a node: \<open>destroy\<close> of the library, then its \<open>shared_ptr\<close>.\<close>

definition native_destroy :: "nat \<Rightarrow> ('s, 'd) native_host \<Rightarrow> ('s, 'd) native_host" where
  "native_destroy n h = (case map_of (nh_nodes h) n of
       None \<Rightarrow> h
     | Some node \<Rightarrow> sweep ((called (nn_owner node) h)\<lparr>nh_nodes := AList.delete n (nh_nodes h)\<rparr>))"

definition drop_caller :: "nat \<Rightarrow> ('s, 'd) native_host \<Rightarrow> ('s, 'd) native_host" where
  "drop_caller e h = sweep (h\<lparr>nh_callers := remove1 e (nh_callers h)\<rparr>)"

definition drop_registry :: "('s, 'd) native_host \<Rightarrow> ('s, 'd) native_host" where
  "drop_registry h = sweep (h\<lparr>nh_registry := []\<rparr>)"

text \<open>\<open>Runtime::load_native_extension\<close>, with whether an application is deployed; the result lets its own
  \<open>shared_ptr\<close> go.\<close>

definition native_load :: "bool \<Rightarrow> string \<Rightarrow> ('s, 'd) ext_image option \<Rightarrow> ('s, 'd) native_host \<Rightarrow>
    bool \<times> ('s, 'd) native_host" where
  "native_load deployed path opened h = (if deployed then (False, h)
     else case register_native_extension path opened h of
       (Inl _, h) \<Rightarrow> (False, h)
     | (Inr e, h) \<Rightarrow> (True, drop_caller e h))"

section \<open>WebAssembly\<close>

datatype Capability = ReadTags | WriteTags | EmitEvents | StageOutput | MesReport | OpenSocket

fun capability_bit :: "Capability \<Rightarrow> nat" where
  "capability_bit ReadTags = 0" | "capability_bit WriteTags = 1" | "capability_bit EmitEvents = 2"
| "capability_bit StageOutput = 3" | "capability_bit MesReport = 4" | "capability_bit OpenSocket = 5"

definition cap_add :: "Capability \<Rightarrow> u64 \<Rightarrow> u64" where
  "cap_add c bits = bits OR push_bit (capability_bit c) 1"

definition cap_has :: "u64 \<Rightarrow> Capability \<Rightarrow> bool" where
  "cap_has bits c \<longleftrightarrow> bits AND push_bit (capability_bit c) 1 \<noteq> 0"

definition cap_set :: "Capability list \<Rightarrow> u64" where
  "cap_set cs = foldl (\<lambda>bits c. cap_add c bits) 0 cs"

definition covers :: "u64 \<Rightarrow> u64 \<Rightarrow> bool" where
  "covers bits required \<longleftrightarrow> required AND NOT bits = 0"

text \<open>A backend: what it answers, with the module and the instance it hands back.\<close>

record ('r, 'd) wasm_runtime =
  load_module :: "byte list \<Rightarrow> u64 \<Rightarrow> 'r \<Rightarrow> (string + u64) \<times> 'r"
  wasm_instantiate :: "u64 \<Rightarrow> u64 \<times> u64 \<Rightarrow> 'r \<Rightarrow> (string + u64) \<times> 'r"
  call_process :: "u64 \<Rightarrow> 'd ProcessingContext \<Rightarrow> 'r \<Rightarrow> (string + NodeResult) \<times> 'd ProcessingContext \<times> 'r"

definition kWasmGateError :: string where
  "kWasmGateError = ''WASM runtime not configured (008 gate: no offline runtime)''"

definition NullWasmRuntime :: "('r, 'd) wasm_runtime" where
  "NullWasmRuntime = \<lparr>load_module = (\<lambda>_ _ r. (Inl kWasmGateError, r)), wasm_instantiate = (\<lambda>_ _ r. (Inl kWasmGateError, r)),
     call_process = (\<lambda>_ c r. (Inl kWasmGateError, c, r))\<rparr>"

record WasmNode =
  wn_module_bytes :: "byte list"
  wn_requires :: u64
  wn_granted :: u64
  wn_budget :: "u64 \<times> u64"
  wn_module :: u64
  wn_instance :: u64

definition wasm_configure :: "('r, 'd) wasm_runtime \<Rightarrow> WasmNode \<Rightarrow> 'r \<Rightarrow> string option \<times> WasmNode \<times> 'r" where
  "wasm_configure R n r =
     (if \<not> covers (wn_granted n) (wn_requires n)
      then (Some ''WASM node requires capabilities the deployment did not grant (E3)'', n, r)
      else case load_module R (wn_module_bytes n) (wn_granted n) r of
        (Inl err, r) \<Rightarrow> (Some err, n, r)
      | (Inr m, r) \<Rightarrow> (case wasm_instantiate R m (wn_budget n) r of
          (Inl err, r) \<Rightarrow> (Some err, n\<lparr>wn_module := m\<rparr>, r)
        | (Inr i, r) \<Rightarrow> (None, n\<lparr>wn_module := m, wn_instance := i\<rparr>, r)))"

definition wasm_process :: "('r, 'd) wasm_runtime \<Rightarrow> WasmNode \<Rightarrow> 'd ProcessingContext \<Rightarrow> 'r \<Rightarrow> NodeResult \<times> 'd ProcessingContext \<times> 'r" where
  "wasm_process R n c r =
     (if wn_instance n = 0 then (Error, c, r)
      else case call_process R (wn_instance n) c r of
        (Inl _, c, r) \<Rightarrow> (Error, c, r)
      | (Inr res, c, r) \<Rightarrow> (res, c, r))"

section \<open>Libraries stay loaded\<close>

definition native_inv :: "('s, 'd) native_host \<Rightarrow> bool" where
  "native_inv h \<longleftrightarrow> (\<forall>e. held e h \<longrightarrow> e < length (nh_exts h) \<and> ne_loaded (nh_exts h ! e)) \<and> list_all snd (nh_calls h)"

lemma native_invI:
  assumes "\<And>e. held e h \<Longrightarrow> e < length (nh_exts h) \<and> ne_loaded (nh_exts h ! e)" "list_all snd (nh_calls h)"
  shows "native_inv h"
  using assms by (simp add: native_inv_def)

lemma native_invD: "native_inv h \<Longrightarrow> held e h \<Longrightarrow> e < length (nh_exts h) \<and> ne_loaded (nh_exts h ! e)"
  by (simp add: native_inv_def)

lemma sweep_fields [simp]:
  "nh_callers (sweep h) = nh_callers h" "nh_registry (sweep h) = nh_registry h" "nh_nodes (sweep h) = nh_nodes h"
  "nh_calls (sweep h) = nh_calls h" "held e (sweep h) = held e h" "length (nh_exts (sweep h)) = length (nh_exts h)"
  by (simp_all add: sweep_def held_def)

lemma sweep_loaded: "e < length (nh_exts h) \<Longrightarrow> ne_loaded (nh_exts (sweep h) ! e) = (held e h \<and> ne_loaded (nh_exts h ! e))"
  by (simp add: sweep_def nth_enumerate_eq)

lemma called_fields [simp]:
  "nh_exts (called e h) = nh_exts h" "nh_callers (called e h) = nh_callers h" "nh_registry (called e h) = nh_registry h"
  "nh_nodes (called e h) = nh_nodes h" "held x (called e h) = held x h"
  by (simp_all add: called_def held_def)

text \<open>Dropping references, then closing what nobody holds.\<close>

lemma sweep_inv:
  assumes "native_inv h" "nh_exts h' = nh_exts h" "nh_calls h' = nh_calls h" "\<And>e. held e h' \<Longrightarrow> held e h"
  shows "native_inv (sweep h')"
  using assms by (auto intro!: native_invI simp: sweep_loaded native_inv_def)

lemma called_inv: "native_inv h \<Longrightarrow> held e h \<Longrightarrow> native_inv (called e h)"
  by (auto simp: native_inv_def called_def held_def)

lemma let_go_inv: "native_inv h \<Longrightarrow> native_inv (let_go e h)"
  unfolding let_go_def by (erule sweep_inv) (auto simp: held_def)

lemma check_exports_inv:
  assumes "native_inv h" "held e h" "check_exports e im h = (r, h')"
  shows "native_inv h' \<and> nh_callers h' = nh_callers h \<and> nh_registry h' = nh_registry h \<and> nh_nodes h' = nh_nodes h \<and> nh_exts h' = nh_exts h"
proof -
  have "native_inv (called e h)" "native_inv (called e (called e h))" using assms(1,2) by (simp_all add: called_inv)
  then show ?thesis using assms by (auto simp: check_exports_def Let_def split: option.splits if_splits)
qed

lemma load_extension_inv:
  assumes "native_inv h" "load_extension path opened h = (r, h')"
  shows "native_inv h' \<and> nh_registry h' = nh_registry h \<and> nh_nodes h' = nh_nodes h \<and>
    (\<forall>e m. r = Inr (e, m) \<longrightarrow> e \<in> set (nh_callers h'))"
proof (cases opened)
  case None
  then show ?thesis using assms by (auto simp: load_extension_def)
next
  case (Some im)
  let ?e = "length (nh_exts h)"
  define h1 where "h1 = h\<lparr>nh_exts := nh_exts h @ [\<lparr>ne_path = path, ne_image = im, ne_loaded = True\<rparr>], nh_callers := ?e # nh_callers h\<rparr>"
  have "held e h1 \<longleftrightarrow> e = ?e \<or> held e h" for e by (auto simp: h1_def held_def)
  then have 1: "native_inv h1" "held ?e h1"
    using assms(1) by (auto simp: native_inv_def h1_def nth_append less_Suc_eq)
  obtain r1 h2 where c: "check_exports ?e im h1 = (r1, h2)" by fastforce
  note 2 = check_exports_inv [OF 1 c]
  show ?thesis
  proof (cases r1)
    case (Inl err)
    then have "r = Inl err" "h' = let_go ?e h2" using assms(2) c by (simp_all add: load_extension_def Some Let_def h1_def)
    then show ?thesis using 2 let_go_inv [of h2 ?e] by (simp add: let_go_def h1_def)
  next
    case (Inr m)
    then have "r = Inr (?e, m)" "h' = h2" using assms(2) c by (simp_all add: load_extension_def Some Let_def h1_def)
    then show ?thesis using 2 by (simp add: h1_def)
  qed
qed

lemma set_update: "set (AList.update k v al) \<subseteq> insert (k, v) (set al)"
  by (induction al) auto

lemma register_nodes_inv:
  assumes "native_inv h" "e \<in> set (nh_callers h)" "register_nodes e ns h = (r, h')"
  shows "native_inv h' \<and> nh_callers h' = nh_callers h"
  using assms
proof (induction e ns h rule: register_nodes.induct)
  case (3 e tid cat ns h)
  let ?h = "h\<lparr>nh_registry := AList.update tid (desc (category_from_c cat) tid, e) (nh_registry h)\<rparr>"
  have "held x h" if "held x ?h" for x
    using that "3.prems"(2) set_update [of tid "(desc (category_from_c cat) tid, e)" "nh_registry h"]
    by (fastforce simp: held_def)
  then have "native_inv (sweep ?h)" by (intro sweep_inv [OF "3.prems"(1)]) auto
  then show ?case using 3 by simp
qed auto

lemma register_extension_inv:
  assumes "native_inv h"
  shows "native_inv (snd (register_native_extension path opened h))"
proof -
  obtain r h1 where l: "load_extension path opened h = (r, h1)" by fastforce
  note 1 = load_extension_inv [OF assms l]
  show ?thesis
  proof (cases r)
    case (Inl err)
    then show ?thesis using 1 l by (simp add: register_native_extension_def)
  next
    case (Inr em)
    obtain e m where em: "em = (e, m)" by fastforce
    obtain good h2 where g: "register_nodes e (mn_nodes m) h1 = (good, h2)" by fastforce
    have "native_inv h2" using register_nodes_inv [OF _ _ g] 1 Inr em by simp
    then show ?thesis using l Inr em g let_go_inv [of h2 e] by (cases good) (simp_all add: register_native_extension_def)
  qed
qed

lemma nodes_inv:
  assumes "native_inv x" "\<And>p. p \<in> set ns \<Longrightarrow> held (nn_owner (snd p)) x"
  shows "native_inv (x\<lparr>nh_nodes := ns\<rparr>)" "native_inv (x\<lparr>nh_nodes := ns, nh_next := j\<rparr>)"
proof -
  have "held e (x\<lparr>nh_nodes := ns\<rparr>) \<or> held e (x\<lparr>nh_nodes := ns, nh_next := j\<rparr>) \<Longrightarrow> held e x" for e
    using assms(2) by (fastforce simp: held_def)
  then show "native_inv (x\<lparr>nh_nodes := ns\<rparr>)" "native_inv (x\<lparr>nh_nodes := ns, nh_next := j\<rparr>)"
    using assms(1) by (auto simp: native_inv_def)
qed

lemma node_held: "(i, node) \<in> set (nh_nodes h) \<Longrightarrow> held (nn_owner node) h"
  by (force simp: held_def)

lemma create_node_inv:
  assumes "native_inv h" "held e h"
  shows "native_inv (snd (create_node e tid cfg h))"
proof -
  have c: "native_inv (called e h)" "native_inv (called e (called e h))" "native_inv (called e (called e (called e h)))"
    using assms by (simp_all add: called_inv)
  show ?thesis
    using assms c by (auto simp: create_node_def Let_def intro!: nodes_inv(2) dest: node_held split: option.splits prod.splits)
qed

lemma node_of: "map_of (nh_nodes h) n = Some node \<Longrightarrow> held (nn_owner node) h"
  by (rule node_held) (rule map_of_SomeD)

lemma factory_inv:
  assumes "native_inv h"
  shows "native_inv (snd (native_factory tid cfg h))"
proof (cases "map_of (nh_registry h) tid")
  case (Some de)
  obtain d e where de: "de = (d, e)" by fastforce
  have "held e h" using map_of_SomeD [OF Some] by (force simp: held_def de)
  then show ?thesis using create_node_inv [OF assms] by (simp add: native_factory_def Some de)
qed (simp add: native_factory_def assms)

lemma process_inv:
  assumes "native_inv h"
  shows "native_inv (snd (native_process n c h))"
proof (cases "map_of (nh_nodes h) n")
  case (Some node)
  obtain r s c' where r: "run_host (vt_process (nn_vtable node) (nn_self node)) c = (r, s, c')" by (metis prod_cases3)
  have "held (nn_owner (snd p)) h" if "p \<in> set (AList.update n (node\<lparr>nn_self := s\<rparr>) (nh_nodes h))" for p
    using that set_update [of n "node\<lparr>nn_self := s\<rparr>" "nh_nodes h"] node_of [OF Some] node_held [of "fst p" "snd p" h] by auto
  then show ?thesis
    using called_inv [OF assms node_of [OF Some]] by (auto simp: native_process_def Some r intro!: nodes_inv(1))
qed (simp add: native_process_def assms)

lemma destroy_inv:
  assumes "native_inv h"
  shows "native_inv (native_destroy n h)"
proof (cases "map_of (nh_nodes h) n")
  case (Some node)
  show ?thesis
    unfolding native_destroy_def Some option.case
    by (rule sweep_inv [OF called_inv [OF assms node_of [OF Some]]]) (auto simp: held_def AList.delete_eq)
qed (simp add: native_destroy_def assms)

lemma drop_inv: "native_inv h \<Longrightarrow> native_inv (drop_caller e h)" "native_inv h \<Longrightarrow> native_inv (drop_registry h)"
  unfolding drop_caller_def drop_registry_def
  by (erule sweep_inv; auto simp: held_def dest: notin_set_remove1 set_remove1_subset [THEN subsetD])+

datatype ('s, 'd) native_op = Register bool string "('s, 'd) ext_image option" | CreateNode string string
  | Process nat "'d ProcessingContext" | Destroy nat | DropRegistry

fun native_step :: "('s, 'd) native_host \<Rightarrow> ('s, 'd) native_op \<Rightarrow> ('s, 'd) native_host" where
  "native_step h (Register deployed path opened) = snd (native_load deployed path opened h)"
| "native_step h (CreateNode tid cfg) = snd (native_factory tid cfg h)"
| "native_step h (Process n c) = snd (native_process n c h)"
| "native_step h (Destroy n) = native_destroy n h"
| "native_step h DropRegistry = drop_registry h"

lemma load_native_inv: "native_inv h \<Longrightarrow> native_inv (snd (native_load deployed path opened h))"
  using register_extension_inv [of h path opened]
  by (auto simp: native_load_def drop_inv split: prod.splits sum.splits)

interpretation native: machine native_step native_inv
proof unfold_locales
  fix h :: "('a, 'b) native_host" and e assume "native_inv h"
  then show "native_inv (native_step h e)"
    by (cases e) (simp_all add: load_native_inv factory_inv process_inv destroy_inv drop_inv)
qed

section \<open>What a node can reach\<close>

definition confined :: "'d ProcessingContext \<Rightarrow> 'd ProcessingContext \<Rightarrow> bool" where
  "confined c c' \<longleftrightarrow> (\<exists>ts os es. c' = c\<lparr>tags := ts, outputs := outputs c @ os, events := events c @ es\<rparr> \<and>
     (\<exists>ns. map tag_name ts = map tag_name (tags c) @ ns))"

lemma confinedI:
  assumes "c' = c\<lparr>tags := ts, outputs := outputs c @ os, events := events c @ es\<rparr>" "map tag_name ts = map tag_name (tags c) @ ns"
  shows "confined c c'"
  using assms by (auto simp: confined_def)

lemma confined_trans:
  assumes "confined a b" "confined b c"
  shows "confined a c"
proof -
  obtain ts os es ns where b: "b = a\<lparr>tags := ts, outputs := outputs a @ os, events := events a @ es\<rparr>" "map tag_name ts = map tag_name (tags a) @ ns"
    using assms(1) by (auto simp: confined_def)
  obtain ts' os' es' ns' where c: "c = b\<lparr>tags := ts', outputs := outputs b @ os', events := events b @ es'\<rparr>" "map tag_name ts' = map tag_name (tags b) @ ns'"
    using assms(2) by (auto simp: confined_def)
  show ?thesis by (rule confinedI [where ts = ts' and os = "os @ os'" and es = "es @ es'" and ns = "ns @ ns'"]) (use b c in simp_all)
qed

lemma confined_steps:
  "confined c c" "confined c (snd (host_tag_set_value i v c))" "confined c (host_tag_push n v c)"
  "confined c (host_output_push v c)" "confined c (host_event_push n v c)"
proof -
  show "confined c c" by (rule confinedI [where ts = "tags c" and os = "[]" and es = "[]" and ns = "[]"]) simp_all
  have "map tag_name ((tags c)[i := (tags c ! i)\<lparr>tag_val := v\<rparr>]) = map tag_name (tags c)" if "i < length (tags c)"
    using that by (intro nth_equalityI) (auto simp: nth_list_update)
  then show "confined c (snd (host_tag_set_value i v c))"
    using \<open>confined c c\<close> by (auto simp: host_tag_set_value_def intro: confinedI [where os = "[]" and es = "[]" and ns = "[]"])
  show "confined c (host_tag_push n v c)" by (rule confinedI [where os = "[]" and es = "[]" and ns = "[n]"]) (simp add: host_tag_push_def, simp)
  show "confined c (host_output_push v c)" by (rule confinedI [where ts = "tags c" and os = "[v]" and es = "[]" and ns = "[]"]) (simp_all add: host_output_push_def)
  show "confined c (host_event_push n v c)" by (rule confinedI [where ts = "tags c" and os = "[]" and es = "[\<lparr>ev_type = n, ev_val = v\<rparr>]" and ns = "[]"]) (simp_all add: host_event_push_def)
qed

lemma run_host_confined: "confined c (snd (snd (run_host p c)))"
proof (induction p arbitrary: c)
  case (TagSetValue i v f)
  obtain r c1 where c1: "host_tag_set_value i v c = (r, c1)" by fastforce
  have "confined c c1" using confined_steps(2) [of c i v] by (simp add: c1)
  then show ?case using TagSetValue.IH [of "f r" c1] confined_trans by (auto simp: c1)
qed (auto intro: confined_steps confined_trans)

section \<open>Capabilities\<close>

lemma capability_bit_less: "capability_bit c < 64"
  by (cases c) simp_all

lemma cap_has_bit: "cap_has bits c = bit bits (capability_bit c)"
  by (simp add: cap_has_def bit_iff_and_push_bit_not_eq_0)

text \<open>The test on the bits is inclusion of the sets.\<close>

lemma covers_iff: "covers granted required \<longleftrightarrow> (\<forall>n. bit required n \<longrightarrow> bit granted n)"
  using bit_imp_le_length [of required] by (fastforce simp: covers_def bit_eq_iff bit_simps)

lemma cap_set_has: "cap_has (cap_set cs) c \<longleftrightarrow> c \<in> set cs"
proof -
  have inj: "capability_bit a = capability_bit b \<longleftrightarrow> a = b" for a b by (cases a; cases b) simp_all
  have "bit (foldl (\<lambda>bits c. cap_add c bits) bits cs) (capability_bit c) \<longleftrightarrow> bit bits (capability_bit c) \<or> c \<in> set cs" for bits
    using capability_bit_less [of c] by (induction cs arbitrary: bits) (auto simp: cap_add_def bit_simps inj)
  then show ?thesis by (simp add: cap_has_bit cap_set_def)
qed

section \<open>Properties\<close>

text \<open>
  C12: Whatever extensions are loaded, broken ones included, and whatever nodes are created, run and destroyed in
  whatever order with the registry, no call ever goes into a library that is not loaded.
\<close>

theorem native_calls_loaded_libraries:
  "list_all snd (nh_calls (foldl native_step new_native_host ops))"
proof -
  have "native_inv new_native_host" by (simp add: native_inv_def new_native_host_def held_def)
  from native.inv_foldl [OF this, of ops] show ?thesis by (simp add: native_inv_def)
qed

text \<open>
  Whatever a native node does through the host's accessors, the context it leaves differs only in the values of
  the tags and in tags, outputs and events appended: the frame, the branch and loop control, the reports and
  the requests of the flow are out of its reach.
\<close>

theorem native_node_confined:
  assumes "native_process n c h = (Some (r, c'), h')"
  shows "\<exists>ts os es ns. c' = c\<lparr>tags := ts, outputs := outputs c @ os, events := events c @ es\<rparr> \<and>
    map tag_name ts = map tag_name (tags c) @ ns"
proof -
  obtain node where "map_of (nh_nodes h) n = Some node" "c' = snd (snd (run_host (vt_process (nn_vtable node) (nn_self node)) c))"
    using assms by (auto simp: native_process_def split: option.splits prod.splits)
  then show ?thesis using run_host_confined [of c "vt_process (nn_vtable node) (nn_self node)"] by (auto simp: confined_def)
qed

text \<open>
  A WebAssembly node is bound only when every capability it requires is granted, and the module is loaded with
  the granted ones; unbound, as with the runtime of this build, it answers every command with an error.
\<close>

theorem wasm_least_privilege:
  assumes "wn_requires n = cap_set req" "wn_granted n = cap_set granted"
  shows "(fst (wasm_configure R n r) = None \<longrightarrow> set req \<subseteq> set granted) \<and>
    (wn_instance n = 0 \<longrightarrow> fst (wasm_process NullWasmRuntime (fst (snd (wasm_configure NullWasmRuntime n r))) c r) = Error)"
proof (intro conjI impI)
  assume "fst (wasm_configure R n r) = None"
  then have "covers (cap_set granted) (cap_set req)" using assms by (auto simp: wasm_configure_def split: if_splits)
  then show "set req \<subseteq> set granted" using cap_set_has by (auto simp: covers_iff cap_has_bit)
next
  assume "wn_instance n = 0"
  then show "fst (wasm_process NullWasmRuntime (fst (snd (wasm_configure NullWasmRuntime n r))) c r) = Error"
    by (simp add: wasm_configure_def wasm_process_def NullWasmRuntime_def)
qed

section \<open>A library to load\<close>

definition gain_vtable :: "(int, int) AeroNodeVTable" where
  "gain_vtable = \<lparr>vt_process = (\<lambda>s. TagGet 0 (\<lambda>x. case x of None \<Rightarrow> Finish 2 s | Some (_, v) \<Rightarrow> TagSetValue 0 (s * v) (\<lambda>_. OutputPush v (Finish 0 s)))),
     vt_configure = (\<lambda>cfg s. (0, s)), vt_descriptor = (\<lambda>s. (1, Some ''aero.ext.gain''))\<rparr>"

definition gain_image :: "(int, int) ext_image" where
  "gain_image = \<lparr>im_abi = Some 1, im_manifest = Some (Some \<lparr>mn_abi_version = 1, mn_nodes = [(Some ''aero.ext.gain'', 1)]\<rparr>),
     im_create = Some (\<lambda>tid. if tid = ''aero.ext.gain'' then Some (3, gain_vtable) else None)\<rparr>"

definition gain_host :: "(int, int) native_host" where
  "gain_host = foldl native_step new_native_host [Register False ''gain.so'' (Some gain_image), CreateNode ''aero.ext.gain'' ''{}'']"

definition one_tag :: "int ProcessingContext" where
  "one_tag = new_context\<lparr>tags := [\<lparr>tag_name = ''t'', tag_val = 7\<rparr>]\<rparr>"

lemma gain_runs: "fst (native_process 0 one_tag gain_host) = Some (Continue, one_tag\<lparr>tags := [\<lparr>tag_name = ''t'', tag_val = 21\<rparr>], outputs := [7]\<rparr>)"
  by (simp add: gain_host_def new_native_host_def gain_image_def gain_vtable_def native_load_def register_native_extension_def
      load_extension_def check_exports_def abi_compatible_def AERO_EXT_ABI_VERSION_def Let_def called_def drop_caller_def sweep_def held_def
      native_factory_def create_node_def native_process_def one_tag_def new_context_def host_tag_get_def host_tag_set_value_def
      host_output_push_def from_c_def desc_def)

theorem native_node_confined_witness:
  "\<exists>ts os es ns. one_tag\<lparr>tags := [\<lparr>tag_name = ''t'', tag_val = 21\<rparr>], outputs := [7]\<rparr> =
      one_tag\<lparr>tags := ts, outputs := outputs one_tag @ os, events := events one_tag @ es\<rparr> \<and> map tag_name ts = map tag_name (tags one_tag) @ ns"
proof -
  obtain h' where "native_process 0 one_tag gain_host =
      (Some (Continue, one_tag\<lparr>tags := [\<lparr>tag_name = ''t'', tag_val = 21\<rparr>], outputs := [7]\<rparr>), h')"
    using gain_runs by (metis prod.collapse)
  from native_node_confined [OF this] show ?thesis .
qed

theorem wasm_least_privilege_witness:
  "\<forall>(R :: (unit, int) wasm_runtime) r. fst (wasm_configure R \<lparr>wn_module_bytes = [0], wn_requires = cap_set [OpenSocket], wn_granted = cap_set [ReadTags],
     wn_budget = (0, 0), wn_module = 0, wn_instance = 0\<rparr> r) \<noteq> None"
proof (intro allI notI)
  fix R :: "(unit, int) wasm_runtime" and r
  let ?n = "\<lparr>wn_module_bytes = [0], wn_requires = cap_set [OpenSocket], wn_granted = cap_set [ReadTags],
     wn_budget = (0, 0), wn_module = 0, wn_instance = 0\<rparr>"
  assume "fst (wasm_configure R ?n r) = None"
  then show False using wasm_least_privilege [of ?n "[OpenSocket]" "[ReadTags]" R r] by simp
qed

text \<open>A library with a null type in its manifest is rejected after the nodes before it are registered.\<close>

lemma null_type_registers_part:
  assumes "im_abi im = Some 1" "im_create im = Some f" "im_manifest im = Some (Some \<lparr>mn_abi_version = 1, mn_nodes = [(Some tid, cat), (None, cat')]\<rparr>)"
  shows "\<exists>h d. native_load False path (Some im) new_native_host = (False, h) \<and> map_of (nh_registry h) tid = Some (d, 0)"
  using assms
  by (simp add: native_load_def register_native_extension_def load_extension_def check_exports_def abi_compatible_def
      AERO_EXT_ABI_VERSION_def Let_def let_go_def new_native_host_def)

end
