(* ===== verification/Amqp_Sink.thy ===== *)
theory Amqp_Sink
  imports Bridge_Props
begin

text \<open>
  The RabbitMQ sink of the bridge (\<open>broker/rabbitmq_bridge_sink.hpp\<close>) in builds that have it, over the AMQP
  library as a record of functions on its state. Beside the members of the class the model counts the
  connection objects that are allocated.
\<close>

record 'w amqp_lib =
  new_connection :: "'w \<Rightarrow> bool \<times> 'w"
  tcp_socket_new :: "'w \<Rightarrow> bool \<times> 'w"
  socket_open_noblock :: "string \<Rightarrow> int \<Rightarrow> nat \<Rightarrow> 'w \<Rightarrow> bool \<times> 'w"
  amqp_login :: "string \<Rightarrow> string \<Rightarrow> string \<Rightarrow> 'w \<Rightarrow> bool \<times> 'w"
  channel_opened :: "nat \<Rightarrow> 'w \<Rightarrow> bool \<times> 'w"
  basic_publish :: "nat \<Rightarrow> string \<Rightarrow> string \<Rightarrow> nat \<Rightarrow> byte list \<Rightarrow> 'w \<Rightarrow> bool \<times> 'w"
  graceful_close :: "nat \<Rightarrow> 'w \<Rightarrow> 'w"
  destroy_connection :: "'w \<Rightarrow> 'w"

record RabbitMqBridgeSink =
  rq_cfg :: BridgeConfig
  rq_conn :: bool
  rq_connected :: bool
  rq_allocated :: nat

definition new_RabbitMqBridgeSink :: RabbitMqBridgeSink where
  "new_RabbitMqBridgeSink = \<lparr>rq_cfg = default_BridgeConfig, rq_conn = False, rq_connected = False, rq_allocated = 0\<rparr>"

definition kDefaultAmqpPort :: int where
  "kDefaultAmqpPort = 5672"

definition kAmqpConnectTimeoutMs :: nat where
  "kAmqpConnectTimeoutMs = 5000"

definition kChannel :: nat where
  "kChannel = 1"

definition rq_destroy :: "'w amqp_lib \<Rightarrow> RabbitMqBridgeSink \<times> 'w \<Rightarrow> RabbitMqBridgeSink \<times> 'w" where
  "rq_destroy A = (\<lambda>(s, w). (s\<lparr>rq_conn := False, rq_allocated := rq_allocated s - 1\<rparr>, destroy_connection A w))"

definition rq_close_locked :: "'w amqp_lib \<Rightarrow> RabbitMqBridgeSink \<times> 'w \<Rightarrow> RabbitMqBridgeSink \<times> 'w" where
  "rq_close_locked A = (\<lambda>(s, w).
     let (s, w) = (if rq_conn s then rq_destroy A (s, if rq_connected s then graceful_close A kChannel w else w) else (s, w))
     in (s\<lparr>rq_connected := False\<rparr>, w))"

definition or_default :: "string \<Rightarrow> string \<Rightarrow> string" where
  "or_default s d = (if s = [] then d else s)"

text \<open>The steps of \<open>connect\<close> after the connection object exists, each a call and whether it succeeded.\<close>

definition connect_steps :: "'w amqp_lib \<Rightarrow> BridgeConfig \<Rightarrow> ('w \<Rightarrow> bool \<times> 'w) list" where
  "connect_steps A cfg =
     [tcp_socket_new A,
      socket_open_noblock A (c_str (bc_endpoint cfg)) (if bc_port cfg \<noteq> 0 then bc_port cfg else kDefaultAmqpPort) kAmqpConnectTimeoutMs,
      amqp_login A (c_str (or_default (bc_vhost cfg) ''/'')) (c_str (or_default (bc_username cfg) ''guest''))
        (c_str (or_default (bc_password cfg) ''guest'')),
      channel_opened A kChannel]"

fun run_steps :: "('w \<Rightarrow> bool \<times> 'w) list \<Rightarrow> 'w \<Rightarrow> bool \<times> 'w" where
  "run_steps [] w = (True, w)"
| "run_steps (f # fs) w = (case f w of (good, w) \<Rightarrow> if good then run_steps fs w else (False, w))"

definition rq_connect :: "'w amqp_lib \<Rightarrow> BridgeConfig \<Rightarrow> RabbitMqBridgeSink \<times> 'w \<Rightarrow> bool \<times> RabbitMqBridgeSink \<times> 'w" where
  "rq_connect A cfg st = (case rq_close_locked A st of (s, w) \<Rightarrow>
     if bc_endpoint cfg = [] then (False, s, w)
     else case new_connection A w of (good, w) \<Rightarrow>
       if \<not> good then (False, s, w)
       else let s = s\<lparr>rq_conn := True, rq_allocated := Suc (rq_allocated s)\<rparr> in
         (case run_steps (connect_steps A cfg) w of (good, w) \<Rightarrow>
            if good then (True, s\<lparr>rq_cfg := cfg, rq_connected := True\<rparr>, w) else (False, rq_destroy A (s, w))))"

definition rq_publish ::
  "'w amqp_lib \<Rightarrow> string \<Rightarrow> byte list \<Rightarrow> u8 \<Rightarrow> RabbitMqBridgeSink \<times> 'w \<Rightarrow> bool \<times> RabbitMqBridgeSink \<times> 'w" where
  "rq_publish A topic pl qos = (\<lambda>(s, w).
     if \<not> rq_connected s \<or> \<not> rq_conn s then (False, s, w)
     else case basic_publish A kChannel (c_str (bc_exchange (rq_cfg s))) topic (if 1 \<le> qos then 2 else 1) pl w of (good, w) \<Rightarrow>
       (good, if good then s else s\<lparr>rq_connected := False\<rparr>, w))"

section \<open>Facts\<close>

definition rq_inv :: "RabbitMqBridgeSink \<times> 'w \<Rightarrow> bool" where
  "rq_inv st \<longleftrightarrow> (rq_connected (fst st) \<longrightarrow> rq_conn (fst st)) \<and> rq_allocated (fst st) = (if rq_conn (fst st) then 1 else 0)"

datatype rq_op = RqConnect BridgeConfig | RqPublish string "byte list" u8 | RqClose

fun rq_step :: "'w amqp_lib \<Rightarrow> RabbitMqBridgeSink \<times> 'w \<Rightarrow> rq_op \<Rightarrow> RabbitMqBridgeSink \<times> 'w" where
  "rq_step A st (RqConnect cfg) = snd (rq_connect A cfg st)"
| "rq_step A st (RqPublish topic pl qos) = snd (rq_publish A topic pl qos st)"
| "rq_step A st RqClose = rq_close_locked A st"

lemma rq_close_inv: "rq_inv st \<Longrightarrow> rq_inv (rq_close_locked A st) \<and> \<not> rq_conn (fst (rq_close_locked A st))"
  by (cases st) (auto simp: rq_inv_def rq_close_locked_def rq_destroy_def)

interpretation rq: machine "rq_step A" rq_inv for A
proof unfold_locales
  fix st :: "RabbitMqBridgeSink \<times> 'a" and e assume i: "rq_inv st"
  obtain s w where c: "rq_close_locked A st = (s, w)" by fastforce
  then have "rq_inv (s, w)" "\<not> rq_conn s" using rq_close_inv [OF i, of A] by simp_all
  then show "rq_inv (rq_step A st e)"
    using i by (cases e) (auto simp: rq_connect_def rq_publish_def rq_inv_def rq_destroy_def c Let_def split: prod.splits)
qed

text \<open>The sinks of a rule engine, and the engine's contract for them.\<close>

definition rq_bank_publish :: "'w amqp_lib \<Rightarrow> nat \<Rightarrow> string \<Rightarrow> byte list \<Rightarrow> u8 \<Rightarrow> PublishProperties \<Rightarrow>
    RabbitMqBridgeSink list \<times> 'w \<Rightarrow> (bool \<times> RabbitMqBridgeSink list \<times> 'w) option" where
  "rq_bank_publish A k topic pl qos props = (\<lambda>(ss, w).
     if length ss \<le> k then Some (False, ss, w)
     else case rq_publish A topic pl qos (ss ! k, w) of (good, s, w) \<Rightarrow> Some (good, ss[k := s], w))"

interpretation rq_bank: bridge_sinks "rq_bank_publish A" for A
  by unfold_locales (auto simp: rq_bank_publish_def split: prod.splits)

section \<open>Properties\<close>

text \<open>
  After any connects, publications and closes at most one connection object is allocated, exactly when the sink
  holds one, and a sink that reports itself connected holds one.
\<close>

theorem rabbitmq_never_leaks:
  assumes "foldl (rq_step A) (new_RabbitMqBridgeSink, w) ops = (s, w')"
  shows "rq_allocated s = (if rq_conn s then 1 else 0) \<and> (rq_connected s \<longrightarrow> rq_conn s)"
  using rq.inv_foldl [of "(new_RabbitMqBridgeSink, w)" A ops] assms by (simp add: rq_inv_def new_RabbitMqBridgeSink_def)

text \<open>After a publication fails, later ones fail at once without a call into the library, until the next connect.\<close>

theorem rabbitmq_fails_fast:
  assumes "rq_publish A topic pl qos st = (False, st')"
  shows "rq_publish A topic' pl' qos' st' = (False, st')"
  using assms by (auto simp: rq_publish_def split: prod.splits if_splits)

text \<open>The rule engine hands a publication to the RabbitMQ sinks of exactly the rules that match and fire.\<close>

theorem rabbitmq_rules_forward:
  assumes "list_all (rule_accepted F) rs"
  shows "engine_handle_publish F parse_json (rq_bank_publish A) topic pl qos props rs st =
    Some (foldl (\<lambda>st k. snd (the (rq_bank_publish A k topic pl qos props st))) st (chosen_sinks F parse_json topic pl qos rs))"
proof -
  have "rq_bank.hand_to A topic pl qos props = (\<lambda>st k. snd (the (rq_bank_publish A k topic pl qos props st)))"
    by (simp add: fun_eq_iff rq_bank.hand_to_def)
  then show ?thesis using rq_bank.engine_hands_on [OF assms, of parse_json A topic pl qos props st] by simp
qed

end
