(* ===== verification/Spec2Isabelle.thy ===== *)
theory Spec2Isabelle
  imports Frame_Codec Resequencer Fleet Mes_Outbox Broker_Persist Flow_Props Node_Props Bridge_Props Broker_Cluster Modbus_Props Ingest Mqtt_Link Rest_Api Opcua_Props Grpc_Link Extensions Amqp_Sink
begin

text \<open>
  A verification library for AeroEdge, an edge runtime for industrial devices in C++: it deploys
  declarative flows of nodes over device drivers, embeds an MQTT broker, reports to an MES, updates
  device firmware and places devices on the nodes of a cluster. Paths below are relative to
  \<open>src/include/aero/\<close>.

  \<^bold>\<open>The parts and how they interact.\<close>
  A daemon (\<open>runtime/runtime.hpp\<close>) hosts one deployed application and a set of services. Deploying
  loads an application (\<open>schema/application.hpp\<close>), compiles its graph of nodes to a flat plan
  (\<open>runtime/flow_compiler.hpp\<close>), binds the plan to an actor (\<open>core/edge_actor.hpp\<close>,
  \<open>runtime/flow_actor.hpp\<close>) and starts a driver (\<open>drivers/\<close>), whose frames go through a bounded stream
  and a bridge thread into the actor's mailbox; each frame runs the plan
  (\<open>core/compiled_flow.hpp\<close>) over a context (\<open>sdk/processing_context.hpp\<close>) and the nodes
  (\<open>nodes/\<close>). The services beside it are the MQTT broker (\<open>broker/\<close>), whose publications feed bridges
  and peers, the MES gateway (\<open>mes/\<close>) with its durable outbox, the HTTP egress (\<open>egress/\<close>), the firmware
  rollout (\<open>ota/\<close>) and device placement (\<open>cluster/\<close>). Nodes of a cluster exchange frames over the
  transports (\<open>transport/\<close>).

  \<^bold>\<open>Shared vocabulary.\<close>
  \<open>Aero_Prelude\<close> has the machine types (a \<open>std::uintN_t\<close> is a word of \<open>N\<close> bits, so arithmetic wraps
  as in the source), byte orders and strings, and three interfaces as locales: \<open>machine\<close>, a step
  function with an invariant, for what holds after any sequence of events; \<open>fair_machine\<close>, a machine
  with a measure and a helpful thread, for what is reached under every fair schedule; and
  \<open>stream_codec\<close>, an encoder whose outputs can be cut out of a stream again. \<open>Json\<close> has the values of
  the JSON library with the conversions the sources call.

  \<^bold>\<open>Flows.\<close>
  \<open>Flow_Context\<close>, \<open>Flow_Nodes\<close>, \<open>Flow_Exec\<close>: the context, every built-in node and the executor, whose
  jumps make it a loop with fuel. \<open>Expr_Dsl\<close> is the rule language with parser and evaluator;
  \<open>Expr_Parser\<close> shows that the parser returns, \<open>Expr_Tree\<close> and \<open>Expr_Eval\<close> that an accepted program is
  the postfix form of a tree and evaluates to its value, \<open>Expr_Print\<close> that the grammar's printed form, with
  decimal constants and quoted tags, is read back, \<open>Expr_Props\<close> collects them. \<open>Application\<close>, \<open>Flow_Compiler\<close>, \<open>Flow_Graph\<close> are loader,
  registry, configuration checks and the topological order; \<open>Flow_Order\<close>, \<open>Flow_Plan\<close>, \<open>Flow_Props\<close>
  show that an accepted plan lists every node once with its edges forward, that executing it ends when
  its loop edge jumps behind every loop start, and that the compiler accepts a loop that never ends.
  \<open>Node_Props\<close> has facts on single nodes.

  \<^bold>\<open>Deployment.\<close>
  \<open>Driver_Registry\<close> are the driver factories and the driver contract, \<open>Ingest\<close> the push lane as three
  threads under any schedule, \<open>Poll_Lane\<close> the pull lane over the Modbus drivers, \<open>Flow_Actor\<close> the actor
  with its three handlers, \<open>Runtime\<close> the operations of a deployment, \<open>Rest_Api\<close> the management
  interface over them and over the daemon, with the broker service; a request it refuses changes nothing.
  A flow pointer is an address into the plans that are allocated, so
  running a destroyed plan would be a visible outcome. \<open>Runtime_Props\<close> shows that reload refines an
  instantaneous exchange of the plan and that no pointer dangles; \<open>Ingest\<close> that no frame is lost,
  repeated or reordered, with every access to shared state a step of its own, and that a bounded driver's
  frames all arrive. \<open>Extensions\<close>: the loader of
  native libraries, whose nodes are programs over the host's accessors, and the WebAssembly seam; no call
  goes into a library that is not loaded, and a node changes only tags, outputs and events.

  \<^bold>\<open>Devices.\<close>
  \<open>Modbus_Common\<close>, \<open>Modbus_Tcp\<close>, \<open>Modbus_Rtu\<close>: the two Modbus drivers over a link that answers with
  an arbitrary list of outcomes; the interface \<open>link_reader\<close> has the reading loop both share.
  \<open>Modbus_Props\<close> follows a register value from the serial line to a tag of a flow. \<open>Opcua\<close>: the polling
  and the subscribing OPC UA driver and their security set-up, over the client library as a record of
  functions; \<open>Opcua_Props\<close> shows that an open driver never calls it without a client, that a poll pushes
  one whole frame with what the device answered or none, that a configured certificate is never dropped, and that a subscription ends.

  \<^bold>\<open>Broker.\<close>
  \<open>Topic_Match\<close>, \<open>Acl\<close>: filters and access control. \<open>Mqtt_Codec\<close>, \<open>Mqtt_Properties\<close>,
  \<open>Mqtt_Channel\<close>: the wire codec, the property blocks and the blocking reader and writer.
  \<open>Broker_State\<close>, \<open>Broker_Send\<close>, \<open>Broker_Route\<close>, \<open>Broker_Handlers\<close>, \<open>Broker_Machine\<close>: the broker as
  a machine whose events are the atomic calls of the program. \<open>Broker_Frame\<close>, \<open>Broker_Inv\<close>: what
  sending leaves alone and the invariant of all runs. \<open>Broker_Out\<close>, \<open>Broker_Props\<close>: the outbound
  stream, routing, QoS 2, sessions, authentication, the Will. \<open>Broker_Persist\<close> follows a persistent client
  through its absence to the bytes it gets at its next CONNECT. \<open>Bridge_Codec\<close>, \<open>Bridge\<close>,
  \<open>Bridge_Props\<close>: bridges and the rule engine on publications, with the sink interface as the locale
  \<open>bridge_sinks\<close>, whose providers do not throw; \<open>Amqp_Sink\<close>: the RabbitMQ sink, a second provider of that interface.
  \<open>Broker_Cluster\<close>: the relay between nodes.

  \<^bold>\<open>Transports.\<close>
  \<open>Frame_Codec\<close>, \<open>Resequencer\<close>: the frame record and the reorder buffer. \<open>Tcp_Transport\<close>: framed TCP
  connections with lazy dialling, and the selection of a transport. \<open>Mqtt_Link\<close>: the client that
  carries frames through a broker, with its retransmission and the resequencer behind it. \<open>Grpc_Link\<close>:
  the HTTP/2 client that carries frames as the messages of a gRPC stream, with its framing, header block,
  reassembly and reader thread; frames arrive in order under any framing of the peer.

  \<^bold>\<open>State, updates, reports, placement.\<close>
  \<open>Durable_State\<close>: checkpoint and recovery under fencing tokens, with migration. \<open>Ota\<close>, \<open>Fleet\<close>: the
  update of one device and the staged rollout. \<open>Mes_Outbox\<close>, \<open>Http_Egress\<close>: the durable outbox, its
  gateway, the REST adapter and the HTTP egress; an outage of the MES delays reports and drops none. \<open>Placement\<close>: the filter-then-pick placement.
  \<open>Daemon\<close>: the services of the daemon over these, among them the fleet whose placement follows the
  membership.

  \<^bold>\<open>Parameters.\<close>
  What the sources call and do not contain is an argument, with what is relied on as a named
  hypothesis: floating-point arithmetic and \<open>std::stod\<close> (the record \<open>fp\<close>); the JSON parser and
  printer; the store of the actor library with its fencing (laws in \<open>Durable_State\<close>, \<open>Mes_Outbox\<close>);
  its mailbox, an explicit first-in-first-out list of messages; the batch size its stream grants
  (\<open>batch_law\<close>); its weighted hash pick and capability sets (\<open>picks_candidate\<close>, \<open>cap_law\<close>); its
  membership, given as the nodes alive at each tick; ECDSA signing and verification; the HTTP client;
  the OPC UA and AMQP client libraries (\<open>ua_lib\<close>,
  \<open>amqp_lib\<close>); the code of native extensions and of a WebAssembly backend;
  name resolution, connecting, sockets and serial lines, given as lists of the outcomes of the single
  calls; the clock, given with the calls that read it. Every property with such a hypothesis has a
  witness with a concrete instance.

  \<^bold>\<open>Fuel and bounds.\<close>
  Loops that end are total functions with a measure. The rule parser recurses with fuel
  \<open>10 * length + 10\<close>, shown to suffice for every text. The executor and the actor run with fuel, and
  what is shown is that for an accepted plan with a sound loop edge enough fuel exists and is given by
  the bound of \<open>deployed_flow_terminates\<close>; running out of fuel is an outcome of its own
  (\<open>StillRunning\<close>). The ingestion lane needs at most \<open>32 n + 41\<close> fair rounds for \<open>n\<close> frames. Outcome
  lists of sockets and links are arbitrary; an exhausted list is a connection that ends.

  \<^bold>\<open>Not modelled.\<close>
  The platform layer (\<open>pal/\<close>: sockets, polling, TLS, dynamic loading, crypto) wraps operating-system
  and library calls, which appear here as outcomes, as does the encryption of the relay between brokers,
  a layer of the actor library. The programs under \<open>src/\<close> parse their arguments and call the modelled
  operations; benchmarks and examples are left out. The catalogue and the configuration schema
  are constant tables. Below the granularity of the events the memory model is not modelled: the
  sources guard shared state by mutexes, and the models take each guarded section as one step.
\<close>

end
